(* ===== verification/Prelude.thy ===== *)
theory Prelude
  imports Main "HOL-Library.Word"
begin

text \<open>
  Shared vocabulary of the development: the collections of simplification facts, Go's
  machine integers (64-bit two's complement wrap-around, truncating division), Go's
  built-in \<open>copy\<close>, and Go slices with their backing array, so that re-slicing up to the
  capacity and in-place appends have their real meaning. Everything here models the Go
  language and its run-time library, not a file of the repository.
\<close>

named_theorems go_int_simps \<open>facts on 64-bit wrap-around and truncating division\<close>
named_theorems slice_simps \<open>facts on Go slices and copy\<close>

section \<open>Machine integers\<close>

definition i64 :: "int \<Rightarrow> int" where
  "i64 x = (x + 2 ^ 63) mod 2 ^ 64 - 2 ^ 63"

definition i32 :: "int \<Rightarrow> int" where
  "i32 x = (x + 2 ^ 31) mod 2 ^ 32 - 2 ^ 31"

definition in_i64 :: "int \<Rightarrow> bool" where
  "in_i64 x \<longleftrightarrow> - (2 ^ 63) \<le> x \<and> x < 2 ^ 63"

definition in_i32 :: "int \<Rightarrow> bool" where
  "in_i32 x \<longleftrightarrow> - (2 ^ 31) \<le> x \<and> x < 2 ^ 31"

text \<open>Go's \<open>/\<close> on signed integers truncates towards zero.\<close>

definition tdiv :: "int \<Rightarrow> int \<Rightarrow> int" where
  "tdiv a b = sgn a * sgn b * (\<bar>a\<bar> div \<bar>b\<bar>)"

lemma i64_id [simp, go_int_simps]: "in_i64 x \<Longrightarrow> i64 x = x"
  by (simp add: i64_def in_i64_def)

lemma i32_id [simp, go_int_simps]: "in_i32 x \<Longrightarrow> i32 x = x"
  by (simp add: i32_def in_i32_def)

lemma in_i64_i64 [simp]: "in_i64 (i64 x)"
  using pos_mod_bound[of "2 ^ 64 :: int" "x + 2 ^ 63"] pos_mod_sign[of "2 ^ 64 :: int" "x + 2 ^ 63"]
  by (simp add: i64_def in_i64_def)

lemma in_i32_i32 [simp]: "in_i32 (i32 x)"
  using pos_mod_bound[of "2 ^ 32 :: int" "x + 2 ^ 31"] pos_mod_sign[of "2 ^ 32 :: int" "x + 2 ^ 31"]
  by (simp add: i32_def in_i32_def)

lemma tdiv_nonneg [go_int_simps]: "0 \<le> a \<Longrightarrow> 0 < b \<Longrightarrow> tdiv a b = a div b"
  by (cases "a = 0") (simp_all add: tdiv_def sgn_if)

section \<open>The built-in copy\<close>

text \<open>\<open>copy(dst, src)\<close> overwrites the first \<open>min(len dst, len src)\<close> elements of \<open>dst\<close>.\<close>

definition go_copy :: "'a list \<Rightarrow> 'a list \<Rightarrow> 'a list" where
  "go_copy dst src = take (length dst) src @ drop (length src) dst"

text \<open>\<open>copy(dst[off:], src)\<close>\<close>

definition go_copy_at :: "'a list \<Rightarrow> nat \<Rightarrow> 'a list \<Rightarrow> 'a list" where
  "go_copy_at dst off src = take off dst @ go_copy (drop off dst) src"

text \<open>\<open>xs[lo:hi]\<close> for \<open>lo \<le> hi \<le> len xs\<close>\<close>

definition sub_list :: "'a list \<Rightarrow> nat \<Rightarrow> nat \<Rightarrow> 'a list" where
  "sub_list xs lo hi = take (hi - lo) (drop lo xs)"

lemma length_go_copy [simp, slice_simps]: "length (go_copy dst src) = length dst"
  by (simp add: go_copy_def)

lemma length_go_copy_at [simp, slice_simps]: "length (go_copy_at dst off src) = length dst"
  by (simp add: go_copy_at_def)

lemma go_copy_Nil [simp]: "go_copy dst [] = dst"
  by (simp add: go_copy_def)

lemma go_copy_le [slice_simps]: "length src \<le> length dst \<Longrightarrow> go_copy dst src = src @ drop (length src) dst"
  by (simp add: go_copy_def)

lemma go_copy_at_le [slice_simps]:
  "off + length src \<le> length dst \<Longrightarrow>
   go_copy_at dst off src = take off dst @ src @ drop (off + length src) dst"
  by (simp add: go_copy_at_def go_copy_def add.commute)

lemma length_sub_list [simp, slice_simps]:
  "hi \<le> length xs \<Longrightarrow> length (sub_list xs lo hi) = hi - lo"
  by (simp add: sub_list_def)

lemma drop_take_last:
  assumes "k \<le> n" and "Suc n = length xs"
  shows "drop k xs = drop k (take n xs) @ [xs ! n]"
proof -
  have "xs = take n xs @ [xs ! n]"
    using assms(2) take_Suc_conv_app_nth[of n xs] by simp
  then have "drop k xs = drop k (take n xs @ [xs ! n])" by simp
  also have "\<dots> = drop k (take n xs) @ [xs ! n]"
    using assms by simp
  finally show ?thesis .
qed

section \<open>Slices\<close>

text \<open>
  A slice is its backing array, from the slice's first element up to the slice's capacity,
  and its length. \<open>newcap\<close> is the growth policy of the Go run-time (the capacity chosen when an
  append of total length \<open>n\<close> outgrows the capacity \<open>c\<close>); it is unspecified, so every
  definition takes it as an argument and no theorem assumes more than \<open>n \<le> newcap c n\<close>,
  which the \<open>max\<close> below enforces. Memory beyond the new length is zeroed.
\<close>

record 'a slice =
  backing :: "'a list"
  slen :: nat

type_synonym growth = "nat \<Rightarrow> nat \<Rightarrow> nat"

definition slice_wf :: "'a slice \<Rightarrow> bool" where
  "slice_wf s \<longleftrightarrow> slen s \<le> length (backing s)"

definition slice_cap :: "'a slice \<Rightarrow> nat" where
  "slice_cap s = length (backing s)"

definition elems :: "'a slice \<Rightarrow> 'a list" where
  "elems s = take (slen s) (backing s)"

definition nil_slice :: "'a slice" where
  "nil_slice = \<lparr>backing = [], slen = 0\<rparr>"

definition slice_of :: "'a list \<Rightarrow> 'a slice" where
  "slice_of xs = \<lparr>backing = xs, slen = length xs\<rparr>"

text \<open>\<open>s[:n]\<close>; \<open>None\<close> is the run-time panic when \<open>n\<close> exceeds the capacity.\<close>

definition reslice :: "'a slice \<Rightarrow> nat \<Rightarrow> 'a slice option" where
  "reslice s n = (if n \<le> slice_cap s then Some (s\<lparr>slen := n\<rparr>) else None)"

definition slice_append :: "growth \<Rightarrow> 'a \<Rightarrow> 'a slice \<Rightarrow> 'a list \<Rightarrow> 'a slice" where
  "slice_append newcap zero s xs =
     (let n = slen s + length xs in
      if n \<le> slice_cap s
      then \<lparr>backing = take (slen s) (backing s) @ xs @ drop n (backing s), slen = n\<rparr>
      else \<lparr>backing = elems s @ xs @ replicate (newcap (slice_cap s) n - n) zero, slen = n\<rparr>)"

text \<open>Overwriting the visible elements in place.\<close>

definition set_elems :: "'a slice \<Rightarrow> 'a list \<Rightarrow> 'a slice" where
  "set_elems s xs = s\<lparr>backing := xs @ drop (slen s) (backing s)\<rparr>"

lemma length_elems [simp, slice_simps]: "slice_wf s \<Longrightarrow> length (elems s) = slen s"
  by (simp add: elems_def slice_wf_def)

lemma elems_nil_slice [simp]: "elems nil_slice = []" and slice_wf_nil_slice [simp]: "slice_wf nil_slice"
  by (simp_all add: elems_def nil_slice_def slice_wf_def)

lemma elems_slice_of [simp]: "elems (slice_of xs) = xs" and slice_wf_slice_of [simp]: "slice_wf (slice_of xs)"
  by (simp_all add: elems_def slice_of_def slice_wf_def)

lemma slice_wf_append [simp, slice_simps]: "slice_wf s \<Longrightarrow> slice_wf (slice_append f z s xs)"
  by (auto simp: slice_append_def slice_wf_def slice_cap_def elems_def Let_def)

lemma elems_append [simp, slice_simps]:
  "slice_wf s \<Longrightarrow> elems (slice_append f z s xs) = elems s @ xs"
  by (auto simp: slice_append_def slice_wf_def slice_cap_def elems_def Let_def)

lemma slen_append [simp, slice_simps]: "slen (slice_append f z s xs) = slen s + length xs"
  by (simp add: slice_append_def Let_def)

lemma slice_wf_reslice [simp]: "reslice s n = Some t \<Longrightarrow> slice_wf t"
  by (auto simp: reslice_def slice_wf_def slice_cap_def split: if_splits)

lemma reslice_shorter [slice_simps]:
  "slice_wf s \<Longrightarrow> n \<le> slen s \<Longrightarrow> reslice s n = Some (s\<lparr>slen := n\<rparr>) \<and> elems (s\<lparr>slen := n\<rparr>) = take n (elems s)"
  by (auto simp: reslice_def slice_wf_def slice_cap_def elems_def)

lemma slice_wf_shorter [simp]: "slice_wf s \<Longrightarrow> n \<le> slen s \<Longrightarrow> slice_wf (s\<lparr>slen := n\<rparr>)"
  by (simp add: slice_wf_def)

lemma elems_shorter [simp]: "n \<le> slen s \<Longrightarrow> elems (s\<lparr>slen := n\<rparr>) = take n (elems s)"
  by (simp add: elems_def)

lemma elems_set_elems [simp]: "length xs = slen s \<Longrightarrow> elems (set_elems s xs) = xs"
  by (simp add: elems_def set_elems_def)

lemma slen_set_elems [simp]: "slen (set_elems s xs) = slen s"
  by (simp add: set_elems_def)

lemma slice_wf_set_elems [simp]: "slice_wf s \<Longrightarrow> length xs = slen s \<Longrightarrow> slice_wf (set_elems s xs)"
  by (simp add: slice_wf_def set_elems_def)

section \<open>Generic lemmas on lists and options\<close>

lemma take_drop_append_sub:
  "i \<le> j \<Longrightarrow> take i xs @ drop i (take j xs) = take j xs"
  by (metis append_take_drop_id min.absorb2 take_take min.commute)

lemma sub_list_append_drop: "lo \<le> hi \<Longrightarrow> sub_list xs lo hi @ drop hi xs = drop lo xs"
  by (simp add: sub_list_def) (metis append_take_drop_id drop_drop le_add_diff_inverse2)

lemma list_all_nth_iff: "list_all P xs \<longleftrightarrow> (\<forall>i < length xs. P (xs ! i))"
  by (simp add: list_all_length)

end
