(* ===== verification/Queues.thy ===== *)
theory Queues
  imports Prelude
begin

text \<open>
  The queues of \<open>internal/memds\<close>: \<open>ArrayQueue\<close> (\<open>arrayqueue.go\<close>) and the locked
  \<open>TSArrayQueue\<close> with its auto-remove condition (\<open>ts_arrayqueue.go\<close>), over Go slices with
  their backing array. Each method of the locked queue runs under its mutex, so it is one
  atomic step on the record. The locale \<open>go_queue\<close> is the interface both types offer to
  their clients (the event queue of the in-memory filesystem, the Inox queue container):
  a FIFO list; it is interpreted on both.
\<close>

section \<open>ArrayQueue\<close>

record 'a ArrayQueue =
  aq_elements :: "'a slice"

definition NewArrayQueue :: "'a ArrayQueue" where
  "NewArrayQueue = \<lparr>aq_elements = nil_slice\<rparr>"

definition aq_Enqueue :: "growth \<Rightarrow> 'a \<Rightarrow> 'a \<Rightarrow> 'a ArrayQueue \<Rightarrow> 'a ArrayQueue" where
  "aq_Enqueue newcap zero value q = q\<lparr>aq_elements := slice_append newcap zero (aq_elements q) [value]\<rparr>"

text \<open>
  The body both \<open>Dequeue\<close> methods share: read the first element, shift the others left with
  \<open>copy\<close>, drop the last slot.
\<close>

definition dequeue_slice :: "'a slice \<Rightarrow> 'a option \<times> 'a slice" where
  "dequeue_slice s =
     (case elems s of
        [] \<Rightarrow> (None, s)
      | e # es \<Rightarrow> (Some e, (set_elems s (go_copy (e # es) es))\<lparr>slen := slen s - 1\<rparr>))"

definition aq_Dequeue :: "'a ArrayQueue \<Rightarrow> 'a option \<times> 'a ArrayQueue" where
  "aq_Dequeue q = (case dequeue_slice (aq_elements q) of (v, s) \<Rightarrow> (v, q\<lparr>aq_elements := s\<rparr>))"

definition aq_Peek :: "'a ArrayQueue \<Rightarrow> 'a option" where
  "aq_Peek q = (case elems (aq_elements q) of [] \<Rightarrow> None | e # _ \<Rightarrow> Some e)"

definition aq_Empty :: "'a ArrayQueue \<Rightarrow> bool" where
  "aq_Empty q \<longleftrightarrow> slen (aq_elements q) = 0"

definition aq_Size :: "'a ArrayQueue \<Rightarrow> nat" where
  "aq_Size q = slen (aq_elements q)"

text \<open>\<open>q.elements[:1]\<close>, which panics (\<open>None\<close>) when the capacity is zero.\<close>

definition aq_Clear :: "'a ArrayQueue \<Rightarrow> 'a ArrayQueue option" where
  "aq_Clear q = map_option (\<lambda>s. q\<lparr>aq_elements := s\<rparr>) (reslice (aq_elements q) 1)"

definition aq_Values :: "'a ArrayQueue \<Rightarrow> 'a list" where
  "aq_Values q = elems (aq_elements q)"

fun for_each_from :: "(nat \<Rightarrow> 'a \<Rightarrow> 's \<Rightarrow> 'e option \<times> 's) \<Rightarrow> nat \<Rightarrow> 'a list \<Rightarrow> 's \<Rightarrow> 'e option \<times> 's" where
  "for_each_from fn i [] st = (None, st)"
| "for_each_from fn i (e # es) st =
     (case fn i e st of
        (Some err, st') \<Rightarrow> (Some err, st')
      | (None, st') \<Rightarrow> for_each_from fn (Suc i) es st')"

definition aq_ForEachElem :: "(nat \<Rightarrow> 'a \<Rightarrow> 's \<Rightarrow> 'e option \<times> 's) \<Rightarrow> 'a ArrayQueue \<Rightarrow> 's \<Rightarrow> 'e option \<times> 's" where
  "aq_ForEachElem fn q st = for_each_from fn 0 (elems (aq_elements q)) st"

record 'a ArrayQueueIterator =
  it_index :: int
  it_elements :: "'a list"

definition aq_Iterator :: "'a ArrayQueue \<Rightarrow> 'a ArrayQueueIterator" where
  "aq_Iterator q = \<lparr>it_index = - 1, it_elements = elems (aq_elements q)\<rparr>"

definition it_Next :: "'a ArrayQueueIterator \<Rightarrow> bool \<times> 'a ArrayQueueIterator" where
  "it_Next it =
     (if it_index it \<ge> int (length (it_elements it)) - 1 then (False, it)
      else (True, it\<lparr>it_index := it_index it + 1\<rparr>))"

text \<open>\<open>None\<close> is the index-out-of-range panic (before the first \<open>Next\<close>).\<close>

definition it_Value :: "'a ArrayQueueIterator \<Rightarrow> 'a option" where
  "it_Value it =
     (if 0 \<le> it_index it \<and> it_index it < int (length (it_elements it))
      then Some (it_elements it ! nat (it_index it)) else None)"

section \<open>TSArrayQueue\<close>

text \<open>
  The auto-remove condition of the event queues compares an event's date with the current
  time; the field is the condition as it evaluates at the moment of the call.
\<close>

record 'a TSArrayQueue =
  ts_elements :: "'a slice"
  autoRemoveCondition :: "('a \<Rightarrow> bool) option"
  hasHadElements :: bool

definition NewTSArrayQueueWithConfig :: "('a \<Rightarrow> bool) option \<Rightarrow> 'a TSArrayQueue" where
  "NewTSArrayQueueWithConfig cond =
     \<lparr>ts_elements = nil_slice, autoRemoveCondition = cond, hasHadElements = False\<rparr>"

definition ts_Enqueue :: "growth \<Rightarrow> 'a \<Rightarrow> 'a \<Rightarrow> 'a TSArrayQueue \<Rightarrow> 'a TSArrayQueue" where
  "ts_Enqueue newcap zero value q =
     q\<lparr>ts_elements := slice_append newcap zero (ts_elements q) [value], hasHadElements := True\<rparr>"

definition ts_EnqueueAll :: "growth \<Rightarrow> 'a \<Rightarrow> 'a list \<Rightarrow> 'a TSArrayQueue \<Rightarrow> 'a TSArrayQueue" where
  "ts_EnqueueAll newcap zero vs q =
     q\<lparr>ts_elements := slice_append newcap zero (ts_elements q) vs,
       hasHadElements := (if length vs > 0 then True else hasHadElements q)\<rparr>"

definition ts_Dequeue :: "'a TSArrayQueue \<Rightarrow> 'a option \<times> 'a TSArrayQueue" where
  "ts_Dequeue q = (case dequeue_slice (ts_elements q) of (v, s) \<Rightarrow> (v, q\<lparr>ts_elements := s\<rparr>))"

definition ts_DequeueAll :: "'a TSArrayQueue \<Rightarrow> 'a list \<times> 'a TSArrayQueue" where
  "ts_DequeueAll q = (elems (ts_elements q), q\<lparr>ts_elements := (ts_elements q)\<lparr>slen := 0\<rparr>\<rparr>)"

definition ts_Peek :: "'a TSArrayQueue \<Rightarrow> 'a option" where
  "ts_Peek q = (case elems (ts_elements q) of [] \<Rightarrow> None | e # _ \<Rightarrow> Some e)"

definition ts_IsEmpty :: "'a TSArrayQueue \<Rightarrow> bool" where
  "ts_IsEmpty q \<longleftrightarrow> slen (ts_elements q) = 0"

definition ts_HasNeverHadElements :: "'a TSArrayQueue \<Rightarrow> bool" where
  "ts_HasNeverHadElements q \<longleftrightarrow> \<not> hasHadElements q"

definition ts_Size :: "'a TSArrayQueue \<Rightarrow> nat" where
  "ts_Size q = slen (ts_elements q)"

definition ts_Clear :: "'a TSArrayQueue \<Rightarrow> 'a TSArrayQueue" where
  "ts_Clear q = q\<lparr>ts_elements := (ts_elements q)\<lparr>slen := 0\<rparr>\<rparr>"

definition ts_Values :: "'a TSArrayQueue \<Rightarrow> 'a list" where
  "ts_Values q = elems (ts_elements q)"

text \<open>The removal loop of \<open>autoRemoveNoLock\<close>, with its early return on the last element.\<close>

function autoRemove_loop :: "('a \<Rightarrow> bool) \<Rightarrow> nat \<Rightarrow> 'a slice \<Rightarrow> 'a slice" where
  "autoRemove_loop cond i s =
     (if i < slen s then
        let es = elems s in
        if \<not> cond (es ! i) then autoRemove_loop cond (Suc i) s
        else if i = slen s - 1 then snd (dequeue_slice s)
        else autoRemove_loop cond i
               ((set_elems s (go_copy_at es i (drop (Suc i) es)))\<lparr>slen := slen s - 1\<rparr>)
      else s)"
  by pat_completeness auto
termination
  by (relation "measure (\<lambda>(cond, i, s). slen s - i)") auto

declare autoRemove_loop.simps [simp del]

definition autoRemoveNoLock :: "'a TSArrayQueue \<Rightarrow> 'a TSArrayQueue" where
  "autoRemoveNoLock q =
     (case autoRemoveCondition q of
        None \<Rightarrow> q
      | Some cond \<Rightarrow> q\<lparr>ts_elements := autoRemove_loop cond 0 (ts_elements q)\<rparr>)"

definition ts_AutoRemove :: "'a TSArrayQueue \<Rightarrow> 'a TSArrayQueue" where
  "ts_AutoRemove q = (if autoRemoveCondition q = None then q else autoRemoveNoLock q)"

definition ts_EnqueueAutoRemove :: "growth \<Rightarrow> 'a \<Rightarrow> 'a \<Rightarrow> 'a TSArrayQueue \<Rightarrow> 'a TSArrayQueue" where
  "ts_EnqueueAutoRemove newcap zero value q =
     autoRemoveNoLock (q\<lparr>ts_elements := slice_append newcap zero (ts_elements q) [value],
                         hasHadElements := True\<rparr>)"

definition ts_EnqueueAllAutoRemove :: "growth \<Rightarrow> 'a \<Rightarrow> 'a list \<Rightarrow> 'a TSArrayQueue \<Rightarrow> 'a TSArrayQueue" where
  "ts_EnqueueAllAutoRemove newcap zero vs q = autoRemoveNoLock (ts_EnqueueAll newcap zero vs q)"

definition ts_Iterator :: "'a TSArrayQueue \<Rightarrow> 'a ArrayQueueIterator" where
  "ts_Iterator q = \<lparr>it_index = - 1, it_elements = elems (ts_elements q)\<rparr>"

text \<open>A client that calls \<open>Next\<close> \<open>k\<close> times.\<close>

primrec it_advance :: "nat \<Rightarrow> 'a ArrayQueueIterator \<Rightarrow> 'a ArrayQueueIterator" where
  "it_advance 0 it = it"
| "it_advance (Suc k) it = snd (it_Next (it_advance k it))"

section \<open>The queue interface\<close>

locale go_queue =
  fixes new :: 'q
    and enq :: "'a \<Rightarrow> 'q \<Rightarrow> 'q"
    and deq :: "'q \<Rightarrow> 'a option \<times> 'q"
    and peek :: "'q \<Rightarrow> 'a option"
    and size :: "'q \<Rightarrow> nat"
    and vals :: "'q \<Rightarrow> 'a list"
    and wf :: "'q \<Rightarrow> bool"
  assumes wf_new: "wf new"
    and vals_new: "vals new = []"
    and wf_enq: "wf q \<Longrightarrow> wf (enq x q)"
    and vals_enq: "wf q \<Longrightarrow> vals (enq x q) = vals q @ [x]"
    and wf_deq: "wf q \<Longrightarrow> wf (snd (deq q))"
    and vals_deq: "wf q \<Longrightarrow> vals (snd (deq q)) = tl (vals q)"
    and fst_deq: "wf q \<Longrightarrow> fst (deq q) = (case vals q of [] \<Rightarrow> None | x # _ \<Rightarrow> Some x)"
    and peek_vals: "wf q \<Longrightarrow> peek q = (case vals q of [] \<Rightarrow> None | x # _ \<Rightarrow> Some x)"
    and size_vals: "wf q \<Longrightarrow> size q = length (vals q)"
begin

lemma enq_all:
  assumes "wf q"
  shows "wf (fold enq xs q) \<and> vals (fold enq xs q) = vals q @ xs"
  using assms by (induction xs arbitrary: q) (simp_all add: wf_enq vals_enq)

lemma deq_empty: "wf q \<Longrightarrow> vals q = [] \<Longrightarrow> fst (deq q) = None \<and> peek q = None \<and> size q = 0"
  by (simp add: fst_deq peek_vals size_vals)

end

section \<open>Both queues offer the interface\<close>

lemma dequeue_slice_props:
  assumes "slice_wf s"
  shows "slice_wf (snd (dequeue_slice s))"
    and "elems (snd (dequeue_slice s)) = tl (elems s)"
    and "fst (dequeue_slice s) = (case elems s of [] \<Rightarrow> None | x # _ \<Rightarrow> Some x)"
proof -
  have "slice_wf (snd (dequeue_slice s)) \<and> elems (snd (dequeue_slice s)) = tl (elems s)"
  proof (cases "elems s")
    case Nil
    then show ?thesis using assms by (simp add: dequeue_slice_def)
  next
    case (Cons e es)
    then have len: "length es = slen s - 1" "0 < slen s"
      using length_elems[OF assms] by auto
    have "take (slen s - 1) (go_copy (e # es) es) = es"
      using len by (simp add: go_copy_def)
    then show ?thesis
      using assms Cons len length_elems[OF assms] by (simp add: dequeue_slice_def)
  qed
  then show "slice_wf (snd (dequeue_slice s))" "elems (snd (dequeue_slice s)) = tl (elems s)"
    by simp_all
  show "fst (dequeue_slice s) = (case elems s of [] \<Rightarrow> None | x # _ \<Rightarrow> Some x)"
    by (simp add: dequeue_slice_def split: list.split)
qed

abbreviation aq_wf :: "'a ArrayQueue \<Rightarrow> bool" where
  "aq_wf q \<equiv> slice_wf (aq_elements q)"

abbreviation ts_wf :: "'a TSArrayQueue \<Rightarrow> bool" where
  "ts_wf q \<equiv> slice_wf (ts_elements q)"

interpretation aq: go_queue NewArrayQueue "aq_Enqueue newcap zero" aq_Dequeue aq_Peek aq_Size aq_Values aq_wf
  for newcap :: growth and zero :: 'a
  by unfold_locales
    (auto simp: NewArrayQueue_def aq_Enqueue_def aq_Dequeue_def aq_Peek_def aq_Size_def aq_Values_def
      dequeue_slice_props split_def)

interpretation tsq: go_queue "NewTSArrayQueueWithConfig cond" "ts_Enqueue newcap zero" ts_Dequeue ts_Peek
    ts_Size ts_Values ts_wf
  for cond :: "('a \<Rightarrow> bool) option" and newcap :: growth and zero :: 'a
  by unfold_locales
    (auto simp: NewTSArrayQueueWithConfig_def ts_Enqueue_def ts_Dequeue_def ts_Peek_def ts_Size_def ts_Values_def
      dequeue_slice_props split_def)

section \<open>What the auto-remove loop computes\<close>

lemma shift_left:
  assumes "slice_wf s" and "Suc i < slen s"
  shows "slice_wf ((set_elems s (go_copy_at (elems s) i (drop (Suc i) (elems s))))\<lparr>slen := slen s - 1\<rparr>)"
    and "elems ((set_elems s (go_copy_at (elems s) i (drop (Suc i) (elems s))))\<lparr>slen := slen s - 1\<rparr>)
         = take i (elems s) @ drop (Suc i) (elems s)"
proof -
  let ?x = "go_copy_at (elems s) i (drop (Suc i) (elems s))"
  have len: "length (elems s) = slen s" using assms(1) by simp
  then have "take (slen s - 1) ?x = take i (elems s) @ drop (Suc i) (elems s)"
    using assms(2) by (simp add: go_copy_at_le)
  then show "elems ((set_elems s ?x)\<lparr>slen := slen s - 1\<rparr>) = take i (elems s) @ drop (Suc i) (elems s)"
    using len by simp
  show "slice_wf ((set_elems s ?x)\<lparr>slen := slen s - 1\<rparr>)"
    using assms len by simp
qed

text \<open>
  From position \<open>i\<close> on, the loop keeps the elements that fail the condition, except that a
  removable last element makes it drop the first element of the queue instead.
\<close>

definition autoRemove_spec :: "('a \<Rightarrow> bool) \<Rightarrow> 'a list \<Rightarrow> 'a list \<Rightarrow> 'a list" where
  "autoRemove_spec cond pre rest =
     (if rest = [] then pre
      else let kept = pre @ filter (\<lambda>x. \<not> cond x) (butlast rest) @ [last rest]
           in if cond (last rest) then tl kept else kept)"

lemma autoRemove_spec_Cons:
  "rest \<noteq> [] \<Longrightarrow> autoRemove_spec cond pre (x # rest) =
     autoRemove_spec cond (if cond x then pre else pre @ [x]) rest"
  by (auto simp: autoRemove_spec_def Let_def)

lemma autoRemove_loop_elems:
  assumes "slice_wf s" and "i \<le> slen s"
  shows "slice_wf (autoRemove_loop cond i s) \<and>
         elems (autoRemove_loop cond i s) = autoRemove_spec cond (take i (elems s)) (drop i (elems s))"
  using assms
proof (induction cond i s rule: autoRemove_loop.induct)
  case (1 cond i s)
  let ?es = "elems s"
  have len: "length ?es = slen s" using "1.prems" by simp
  show ?case
  proof (cases "i < slen s")
    case False
    then have "autoRemove_loop cond i s = s" by (simp add: autoRemove_loop.simps[of cond i s])
    then show ?thesis
      using "1.prems" len False by (simp add: autoRemove_spec_def)
  next
    case True
    then have d: "drop i ?es = ?es ! i # drop (Suc i) ?es" "take (Suc i) ?es = take i ?es @ [?es ! i]"
      using len by (simp_all add: Cons_nth_drop_Suc take_Suc_conv_app_nth)
    show ?thesis
    proof (cases "cond (?es ! i)")
      case keep: False
      have "autoRemove_spec cond (take i ?es) (drop i ?es) =
            autoRemove_spec cond (take (Suc i) ?es) (drop (Suc i) ?es)"
        using keep d by (auto simp: autoRemove_spec_def Let_def)
      then show ?thesis
        using "1.IH"(1)[OF True refl keep] "1.prems" True keep
        by (simp add: autoRemove_loop.simps[of cond i s])
    next
      case rem: True
      show ?thesis
      proof (cases "i = slen s - 1")
        case last: True
        then have "drop (Suc i) ?es = []" using len by simp
        then have "autoRemove_spec cond (take i ?es) (drop i ?es) = tl ?es"
          using d rem by (simp add: autoRemove_spec_def Let_def)
        moreover have "autoRemove_loop cond i s = snd (dequeue_slice s)"
          using True rem last by (subst autoRemove_loop.simps) (simp add: Let_def)
        ultimately show ?thesis
          using dequeue_slice_props[OF "1.prems"(1)] by simp
      next
        case False
        then have lt: "Suc i < slen s" using True by simp
        note sl = shift_left[OF "1.prems"(1) lt]
        let ?s' = "(set_elems s (go_copy_at ?es i (drop (Suc i) ?es)))\<lparr>slen := slen s - 1\<rparr>"
        have "drop (Suc i) ?es \<noteq> []" using lt len by simp
        then have "autoRemove_spec cond (take i ?es) (drop i ?es) =
                   autoRemove_spec cond (take i (elems ?s')) (drop i (elems ?s'))"
          using d rem sl(2) len lt by (simp add: autoRemove_spec_Cons min_def)
        moreover have "autoRemove_loop cond i s = autoRemove_loop cond i ?s'"
          using True rem False by (simp add: autoRemove_loop.simps[of cond i s] Let_def)
        ultimately show ?thesis
          using "1.IH"(2)[OF True refl _ False sl(1)] rem lt by simp
      qed
    qed
  qed
qed

lemma autoRemoveNoLock_values:
  assumes "ts_wf q" and "autoRemoveCondition q = Some cond"
  shows "ts_wf (autoRemoveNoLock q) \<and>
         ts_Values (autoRemoveNoLock q) = autoRemove_spec cond [] (ts_Values q)"
  using autoRemove_loop_elems[OF assms(1), of 0 cond] assms(2)
  by (simp add: autoRemoveNoLock_def ts_Values_def)

lemma ts_append_values:
  assumes "ts_wf q"
  shows "ts_Values (q\<lparr>ts_elements := slice_append f z (ts_elements q) xs, hasHadElements := b\<rparr>) = ts_Values q @ xs"
  using assms by (simp add: ts_Values_def)

text \<open>
  A client that only ever adds events that are not yet removable (the filesystem adds
  the event that has just happened) sees \<open>EnqueueAutoRemove\<close> behave as documented: all the
  elements that satisfy the auto-remove condition are gone, the others keep their order and
  the new element is last.
\<close>

theorem EnqueueAutoRemove_fresh:
  assumes "ts_wf q" and "autoRemoveCondition q = Some cond" and "\<not> cond v"
  shows "ts_Values (ts_EnqueueAutoRemove newcap zero v q) = filter (\<lambda>x. \<not> cond x) (ts_Values q) @ [v] \<and>
         ts_wf (ts_EnqueueAutoRemove newcap zero v q)"
  using assms autoRemoveNoLock_values[of "q\<lparr>ts_elements := slice_append newcap zero (ts_elements q) [v],
      hasHadElements := True\<rparr>" cond]
  by (simp add: ts_EnqueueAutoRemove_def autoRemove_spec_def ts_append_values)

theorem EnqueueAutoRemove_fresh_witness:
  "ts_Values (ts_EnqueueAutoRemove (\<lambda>c n. 2 * n) 0 9
      (ts_EnqueueAll (\<lambda>c n. 2 * n) 0 [1, 7, 2] (NewTSArrayQueueWithConfig (Some (\<lambda>x. x < (5::nat)))))) = [7, 9]"
  using EnqueueAutoRemove_fresh[of "ts_EnqueueAll (\<lambda>c n. 2 * n) 0 [1, 7, 2]
      (NewTSArrayQueueWithConfig (Some (\<lambda>x. x < (5::nat))))" "\<lambda>x. x < 5" 9 "\<lambda>c n. 2 * n" 0]
  by (simp add: ts_EnqueueAll_def NewTSArrayQueueWithConfig_def ts_Values_def)

text \<open>
  When the last element is removable, \<open>AutoRemove\<close> keeps it and drops the first of the
  remaining elements instead, because the early return calls \<open>dequeueNoLock\<close>: an element that
  does not satisfy the condition is lost and one that does stays in the queue.
\<close>

theorem AutoRemove_removable_last:
  assumes "ts_wf q" and "autoRemoveCondition q = Some cond"
    and "ts_Values q = xs @ [v]" and "cond v" and "\<not> cond x" and "x \<in> set xs"
  shows "ts_Values (ts_AutoRemove q) = tl (filter (\<lambda>x. \<not> cond x) xs) @ [v] \<and>
         v \<in> set (ts_Values (ts_AutoRemove q))"
  using assms autoRemoveNoLock_values[OF assms(1,2)]
  by (cases "filter (\<lambda>x. \<not> cond x) xs") (auto simp: ts_AutoRemove_def autoRemove_spec_def filter_empty_conv)

theorem AutoRemove_removable_last_witness:
  "ts_Values (ts_AutoRemove (ts_EnqueueAll (\<lambda>c n. n) 0 [7, 8, 1]
      (NewTSArrayQueueWithConfig (Some (\<lambda>x. x < (5::nat)))))) = [8, 1]"
  using AutoRemove_removable_last[of "ts_EnqueueAll (\<lambda>c n. n) 0 [7, 8, 1]
      (NewTSArrayQueueWithConfig (Some (\<lambda>x. x < (5::nat))))" "\<lambda>x. x < 5" "[7, 8]" 1 7]
  by (simp add: ts_EnqueueAll_def NewTSArrayQueueWithConfig_def ts_Values_def)

section \<open>Histories of calls\<close>

text \<open>
  The calls of the clients of a queue, in the order in which they happen (the methods of the
  locked queue run under its mutex). The results of a history are what the calls of \<open>Dequeue\<close>
  and \<open>DequeueAll\<close> return: \<open>None\<close> when \<open>Dequeue\<close> reports an empty queue. A call of
  \<open>EnqueueAutoRemove\<close> comes with the auto-remove condition as it evaluates at that moment.
\<close>

datatype 'a aq_call = Aq_Enqueue 'a | Aq_Dequeue

datatype 'a ts_call =
    Ts_Enqueue 'a
  | Ts_EnqueueAll "'a list"
  | Ts_EnqueueAutoRemove "'a \<Rightarrow> bool" 'a
  | Ts_Dequeue
  | Ts_DequeueAll

primrec aq_do :: "growth \<Rightarrow> 'a \<Rightarrow> 'a aq_call \<Rightarrow> 'a ArrayQueue \<Rightarrow> 'a option list \<times> 'a ArrayQueue" where
  "aq_do newcap zero (Aq_Enqueue v) q = ([], aq_Enqueue newcap zero v q)"
| "aq_do newcap zero Aq_Dequeue q = (case aq_Dequeue q of (r, q') \<Rightarrow> ([r], q'))"

primrec ts_do :: "growth \<Rightarrow> 'a \<Rightarrow> 'a ts_call \<Rightarrow> 'a TSArrayQueue \<Rightarrow> 'a option list \<times> 'a TSArrayQueue" where
  "ts_do newcap zero (Ts_Enqueue v) q = ([], ts_Enqueue newcap zero v q)"
| "ts_do newcap zero (Ts_EnqueueAll vs) q = ([], ts_EnqueueAll newcap zero vs q)"
| "ts_do newcap zero (Ts_EnqueueAutoRemove cond v) q =
     ([], ts_EnqueueAutoRemove newcap zero v (q\<lparr>autoRemoveCondition := Some cond\<rparr>))"
| "ts_do newcap zero Ts_Dequeue q = (case ts_Dequeue q of (r, q') \<Rightarrow> ([r], q'))"
| "ts_do newcap zero Ts_DequeueAll q = (case ts_DequeueAll q of (vs, q') \<Rightarrow> (map Some vs, q'))"

text \<open>The same calls on a plain list, the specification.\<close>

definition fifo_Dequeue :: "'a list \<Rightarrow> 'a option list \<times> 'a list" where
  "fifo_Dequeue xs = (case xs of [] \<Rightarrow> ([None], []) | x # rest \<Rightarrow> ([Some x], rest))"

primrec aq_spec :: "'a aq_call \<Rightarrow> 'a list \<Rightarrow> 'a option list \<times> 'a list" where
  "aq_spec (Aq_Enqueue v) xs = ([], xs @ [v])"
| "aq_spec Aq_Dequeue xs = fifo_Dequeue xs"

primrec ts_spec :: "'a ts_call \<Rightarrow> 'a list \<Rightarrow> 'a option list \<times> 'a list" where
  "ts_spec (Ts_Enqueue v) xs = ([], xs @ [v])"
| "ts_spec (Ts_EnqueueAll vs) xs = ([], xs @ vs)"
| "ts_spec (Ts_EnqueueAutoRemove cond v) xs = ([], filter (\<lambda>x. \<not> cond x) xs @ [v])"
| "ts_spec Ts_Dequeue xs = fifo_Dequeue xs"
| "ts_spec Ts_DequeueAll xs = (map Some xs, [])"

text \<open>The added value is not removable itself, as in the event queues (see \<open>EnqueueAutoRemove_fresh\<close>).\<close>

primrec ts_fresh :: "'a ts_call \<Rightarrow> bool" where
  "ts_fresh (Ts_Enqueue v) \<longleftrightarrow> True"
| "ts_fresh (Ts_EnqueueAll vs) \<longleftrightarrow> True"
| "ts_fresh (Ts_EnqueueAutoRemove cond v) \<longleftrightarrow> \<not> cond v"
| "ts_fresh Ts_Dequeue \<longleftrightarrow> True"
| "ts_fresh Ts_DequeueAll \<longleftrightarrow> True"

primrec run_history :: "('c \<Rightarrow> 'q \<Rightarrow> 'r list \<times> 'q) \<Rightarrow> 'c list \<Rightarrow> 'q \<Rightarrow> 'r list \<times> 'q" where
  "run_history call [] q = ([], q)"
| "run_history call (c # cs) q =
     (case call c q of (r, q') \<Rightarrow> (case run_history call cs q' of (rs, q'') \<Rightarrow> (r @ rs, q'')))"

text \<open>A queue whose calls refine the calls of a specification, one by one, does so over histories.\<close>

locale call_refinement =
  fixes call :: "'c \<Rightarrow> 'q \<Rightarrow> 'r list \<times> 'q"
    and spec :: "'c \<Rightarrow> 's \<Rightarrow> 'r list \<times> 's"
    and vals :: "'q \<Rightarrow> 's"
    and wf :: "'q \<Rightarrow> bool"
    and ok :: "'c \<Rightarrow> bool"
  assumes wf_call: "wf q \<Longrightarrow> ok c \<Longrightarrow> wf (snd (call c q))"
    and spec_call: "wf q \<Longrightarrow> ok c \<Longrightarrow> spec c (vals q) = (fst (call c q), vals (snd (call c q)))"
begin

lemma history_refines:
  assumes "wf q" and "list_all ok cs"
  shows "wf (snd (run_history call cs q)) \<and>
         run_history spec cs (vals q) = (fst (run_history call cs q), vals (snd (run_history call cs q)))"
  using assms by (induction cs arbitrary: q) (simp_all add: wf_call spec_call split_def)

end

interpretation aqh: call_refinement "aq_do newcap zero" aq_spec aq_Values aq_wf "\<lambda>_. True"
  for newcap :: growth and zero :: 'a
proof
  fix q :: "'a ArrayQueue" and c :: "'a aq_call"
  assume wf: "aq_wf q"
  show "aq_wf (snd (aq_do newcap zero c q))"
    using aq.wf_enq[OF wf] aq.wf_deq[OF wf] by (cases c) (simp_all add: split_def)
  show "aq_spec c (aq_Values q) = (fst (aq_do newcap zero c q), aq_Values (snd (aq_do newcap zero c q)))"
    using aq.vals_enq[OF wf] aq.vals_deq[OF wf] aq.fst_deq[OF wf]
    by (cases c) (simp_all add: fifo_Dequeue_def split_def split: list.split)
qed

lemma ts_all_values:
  assumes "ts_wf q"
  shows "ts_wf (ts_EnqueueAll newcap zero vs q) \<and> ts_Values (ts_EnqueueAll newcap zero vs q) = ts_Values q @ vs"
    and "ts_wf (snd (ts_DequeueAll q)) \<and> ts_Values (snd (ts_DequeueAll q)) = [] \<and> fst (ts_DequeueAll q) = ts_Values q"
proof -
  show "ts_wf (ts_EnqueueAll newcap zero vs q) \<and> ts_Values (ts_EnqueueAll newcap zero vs q) = ts_Values q @ vs"
    using assms by (simp add: ts_EnqueueAll_def ts_Values_def)
  show "ts_wf (snd (ts_DequeueAll q)) \<and> ts_Values (snd (ts_DequeueAll q)) = [] \<and> fst (ts_DequeueAll q) = ts_Values q"
    by (simp add: ts_DequeueAll_def ts_Values_def slice_wf_def elems_def)
qed

lemma ts_auto_values:
  assumes "ts_wf q" and "\<not> cond v"
  shows "ts_wf (ts_EnqueueAutoRemove newcap zero v (q\<lparr>autoRemoveCondition := Some cond\<rparr>)) \<and>
         ts_Values (ts_EnqueueAutoRemove newcap zero v (q\<lparr>autoRemoveCondition := Some cond\<rparr>))
           = filter (\<lambda>x. \<not> cond x) (ts_Values q) @ [v]"
  using EnqueueAutoRemove_fresh[of "q\<lparr>autoRemoveCondition := Some cond\<rparr>" cond v newcap zero] assms
  by (simp add: ts_Values_def)

interpretation tsh: call_refinement "ts_do newcap zero" ts_spec ts_Values ts_wf ts_fresh
  for newcap :: growth and zero :: 'a
proof
  fix q :: "'a TSArrayQueue" and c :: "'a ts_call"
  assume wf: "ts_wf q" and ok: "ts_fresh c"
  show "ts_wf (snd (ts_do newcap zero c q))"
    using tsq.wf_enq[OF wf] tsq.wf_deq[OF wf] ts_all_values[OF wf] ts_auto_values[OF wf] ok
    by (cases c) (simp_all add: split_def)
  show "ts_spec c (ts_Values q) = (fst (ts_do newcap zero c q), ts_Values (snd (ts_do newcap zero c q)))"
    using tsq.vals_enq[OF wf] tsq.vals_deq[OF wf] tsq.fst_deq[OF wf] ts_all_values[OF wf] ts_auto_values[OF wf] ok
    by (cases c) (simp_all add: fifo_Dequeue_def split_def split: list.split)
qed

text \<open>Over a history of the list specification the added values are those delivered, followed by those left.\<close>

primrec ts_added :: "'a ts_call \<Rightarrow> 'a list" where
  "ts_added (Ts_Enqueue v) = [v]"
| "ts_added (Ts_EnqueueAll vs) = vs"
| "ts_added (Ts_EnqueueAutoRemove cond v) = [v]"
| "ts_added Ts_Dequeue = []"
| "ts_added Ts_DequeueAll = []"

primrec no_auto_remove :: "'a ts_call \<Rightarrow> bool" where
  "no_auto_remove (Ts_Enqueue v) \<longleftrightarrow> True"
| "no_auto_remove (Ts_EnqueueAll vs) \<longleftrightarrow> True"
| "no_auto_remove (Ts_EnqueueAutoRemove cond v) \<longleftrightarrow> False"
| "no_auto_remove Ts_Dequeue \<longleftrightarrow> True"
| "no_auto_remove Ts_DequeueAll \<longleftrightarrow> True"

definition delivered :: "'a option list \<Rightarrow> 'a list" where
  "delivered rs = concat (map (case_option [] (\<lambda>v. [v])) rs)"

lemma delivered_simps [simp]:
  "delivered [] = []" "delivered (rs @ ss) = delivered rs @ delivered ss"
  "delivered (None # rs) = delivered rs" "delivered (Some v # rs) = v # delivered rs"
  "delivered (map Some vs) = vs"
  by (simp_all add: delivered_def comp_def)

lemma fifo_Dequeue_stream: "fifo_Dequeue xs = (r, ys) \<Longrightarrow> delivered r @ ys = xs"
  by (auto simp: fifo_Dequeue_def split: list.splits)

lemma ts_spec_stream:
  assumes "list_all no_auto_remove cs"
  shows "delivered (fst (run_history ts_spec cs xs)) @ snd (run_history ts_spec cs xs) = xs @ concat (map ts_added cs)"
  using assms
proof (induction cs arbitrary: xs)
  case (Cons c cs)
  obtain r ys where step: "ts_spec c xs = (r, ys)" by (cases "ts_spec c xs")
  have "delivered r @ ys = xs @ ts_added c"
    using step Cons.prems by (cases c) (auto dest: fifo_Dequeue_stream)
  then have "xs @ ts_added c @ zs = delivered r @ ys @ zs" for zs
    by (metis append_assoc)
  then show ?case
    using Cons.IH[of ys] Cons.prems by (simp add: step split_def)
qed simp

text \<open>
  (C36) First in, first out. In every history of calls on a new \<open>ArrayQueue\<close> (\<open>Enqueue\<close>,
  \<open>Dequeue\<close>) and on a new \<open>TSArrayQueue\<close> (\<open>Enqueue\<close>, \<open>EnqueueAll\<close>, \<open>EnqueueAutoRemove\<close>,
  \<open>Dequeue\<close>, \<open>DequeueAll\<close>, in any order) the results are those of a list to which values
  are added at the end and from which they are taken at the front, and the queue holds the
  values of that list at the end; \<open>EnqueueAutoRemove\<close> also drops the values that satisfy the
  auto-remove condition. The hypothesis is that a value added by \<open>EnqueueAutoRemove\<close> does not
  itself satisfy the condition (\<open>AutoRemove_removable_last\<close> shows what happens otherwise).
  Without automatic removal the delivered values followed by those left are the added ones.
  All of this holds for every growth policy of the run-time.
\<close>

theorem queues_fifo:
  assumes "list_all ts_fresh ts_calls"
  shows "fst (run_history (aq_do newcap zero) aq_calls NewArrayQueue) = fst (run_history aq_spec aq_calls []) \<and>
         aq_Values (snd (run_history (aq_do newcap zero) aq_calls NewArrayQueue)) = snd (run_history aq_spec aq_calls []) \<and>
         fst (run_history (ts_do newcap zero) ts_calls (NewTSArrayQueueWithConfig cond)) = fst (run_history ts_spec ts_calls []) \<and>
         ts_Values (snd (run_history (ts_do newcap zero) ts_calls (NewTSArrayQueueWithConfig cond)))
           = snd (run_history ts_spec ts_calls []) \<and>
         (list_all no_auto_remove ts_calls \<longrightarrow>
            delivered (fst (run_history (ts_do newcap zero) ts_calls (NewTSArrayQueueWithConfig cond))) @
            ts_Values (snd (run_history (ts_do newcap zero) ts_calls (NewTSArrayQueueWithConfig cond)))
            = concat (map ts_added ts_calls))"
  using aqh.history_refines[OF aq.wf_new, of aq_calls newcap zero] tsh.history_refines[OF tsq.wf_new assms, of newcap zero cond]
    ts_spec_stream[of ts_calls "[]"]
  by (simp add: aq.vals_new tsq.vals_new list_all_iff)

theorem queues_fifo_witness:
  "fst (run_history (ts_do (\<lambda>c n. n) 0)
      [Ts_Enqueue 1, Ts_Dequeue, Ts_EnqueueAll [2, 3], Ts_EnqueueAutoRemove (\<lambda>x. x = 2) (4::nat), Ts_Dequeue, Ts_DequeueAll, Ts_Dequeue]
      (NewTSArrayQueueWithConfig None)) = [Some 1, Some 3, Some 4, None] \<and>
   delivered (fst (run_history (ts_do (\<lambda>c n. n) 0) [Ts_Enqueue 1, Ts_EnqueueAll [2, 3::nat], Ts_Dequeue]
      (NewTSArrayQueueWithConfig None))) @
   ts_Values (snd (run_history (ts_do (\<lambda>c n. n) 0) [Ts_Enqueue 1, Ts_EnqueueAll [2, 3::nat], Ts_Dequeue]
      (NewTSArrayQueueWithConfig None))) = [1, 2, 3]"
  using queues_fifo[of "[Ts_Enqueue 1, Ts_Dequeue, Ts_EnqueueAll [2, 3],
      Ts_EnqueueAutoRemove (\<lambda>x. x = 2) (4::nat), Ts_Dequeue, Ts_DequeueAll, Ts_Dequeue]" "\<lambda>c n. n" 0 "[]" None]
    queues_fifo[of "[Ts_Enqueue 1, Ts_EnqueueAll [2, 3::nat], Ts_Dequeue]" "\<lambda>c n. n" 0 "[]" None]
  by (simp add: fifo_Dequeue_def)

text \<open>
  \<open>ArrayQueue.Clear\<close> does not empty the queue: it re-slices to length one, so the first
  element survives; on a queue that was never filled it panics.
\<close>

theorem Clear_keeps_first:
  "aq_Clear (NewArrayQueue :: 'a ArrayQueue) = None \<and>
   (\<forall>q :: 'a ArrayQueue. \<forall>x xs. slice_wf (aq_elements q) \<longrightarrow> aq_Values q = x # xs \<longrightarrow>
      map_option aq_Values (aq_Clear q) = Some [x])"
proof (intro conjI allI impI)
  show "aq_Clear (NewArrayQueue :: 'a ArrayQueue) = None"
    by (simp add: aq_Clear_def NewArrayQueue_def nil_slice_def reslice_def slice_cap_def)
next
  fix q :: "'a ArrayQueue" and x xs
  assume wf: "slice_wf (aq_elements q)" and v: "aq_Values q = x # xs"
  then have "1 \<le> slen (aq_elements q)"
    using length_elems[OF wf] by (simp add: aq_Values_def)
  then show "map_option aq_Values (aq_Clear q) = Some [x]"
    using wf v by (simp add: aq_Clear_def aq_Values_def reslice_shorter)
qed

theorem Clear_keeps_first_witness:
  "map_option aq_Values (aq_Clear (fold (aq_Enqueue (\<lambda>c n. n) 0) [4, 5] NewArrayQueue)) = Some [4::nat]"
proof -
  have "slice_wf (aq_elements (fold (aq_Enqueue (\<lambda>c n. n) 0) [4, 5::nat] NewArrayQueue))"
    and "aq_Values (fold (aq_Enqueue (\<lambda>c n. n) 0) [4, 5::nat] NewArrayQueue) = 4 # [5]"
    using aq.enq_all[OF aq.wf_new, where xs = "[4, 5::nat]" and newcap = "\<lambda>c n. n" and zero = 0] by (simp_all add: aq.vals_new)
  then show ?thesis using Clear_keeps_first[where 'a = nat] by blast
qed

lemma it_advance_Iterator:
  "k \<le> length (elems (aq_elements q)) \<Longrightarrow>
   it_advance k (aq_Iterator q) = (aq_Iterator q)\<lparr>it_index := int k - 1\<rparr>"
  by (induction k) (auto simp: aq_Iterator_def it_Next_def)

text \<open>
  An iterator over a queue enumerates exactly the queue's elements in FIFO order: the
  \<open>k\<close>-th call of \<open>Next\<close> succeeds and exposes element \<open>k\<close> for every \<open>k\<close> below the size, and
  the call after the last element reports the end and changes nothing.
\<close>

theorem iterator_enumerates:
  "(\<forall>k < length (aq_Values q).
      fst (it_Next (it_advance k (aq_Iterator q))) \<and>
      it_Value (it_advance (Suc k) (aq_Iterator q)) = Some (aq_Values q ! k)) \<and>
   it_Next (it_advance (length (aq_Values q)) (aq_Iterator q)) =
     (False, it_advance (length (aq_Values q)) (aq_Iterator q))"
  using it_advance_Iterator[of _ q]
  by (auto simp: aq_Values_def it_Next_def it_Value_def aq_Iterator_def simp del: it_advance.simps)

theorem iterator_enumerates_witness:
  "it_Value (it_advance (Suc 1) (aq_Iterator \<lparr>aq_elements = slice_of [3, 4::nat]\<rparr>)) = Some 4"
  using iterator_enumerates[of "\<lparr>aq_elements = slice_of [3, 4::nat]\<rparr>"]
  by (auto simp: aq_Values_def simp del: it_advance.simps)

end
