(* ===== verification/RingBuffers.thy ===== *)
theory RingBuffers
  imports Prelude
begin

text \<open>
  \<open>RingBuffer\<close> of \<open>internal/core/ring_buffer.go\<close>: a fixed byte array with a read and a write
  cursor and a flag that tells the full buffer from the empty one. Every operation is one
  critical section of the buffer's mutex. The buffer refines a bounded FIFO byte channel,
  the locale \<open>bounded_channel\<close>: its contents are the bytes between the cursors, around the
  end of the array.
\<close>

section \<open>The buffer\<close>

type_synonym byte = "8 word"

record RingBuffer =
  rb_data :: "byte list"
  rb_size :: nat
  rb_full :: bool
  readCursor :: nat
  writeCursor :: nat

datatype rb_error =
    ErrEmptyRingBuffer
  | ErrFullRingBuffer
  | ErrRingBufferTooMuchDataToWrite
  | IntegerDivideByZero \<comment> \<open>the run-time panic of \<open>% r.size\<close>\<close>

definition NewRingBuffer :: "nat \<Rightarrow> RingBuffer" where
  "NewRingBuffer sz = \<lparr>rb_data = replicate sz 0, rb_size = sz, rb_full = False,
     readCursor = 0, writeCursor = 0\<rparr>"

text \<open>The results of \<open>Read\<close>: the count, the error, the caller's buffer and the new state.\<close>

record read_result =
  rd_n :: nat
  rd_err :: "rb_error option"
  rd_p :: "byte list"

definition rb_read_nolock :: "byte list \<Rightarrow> RingBuffer \<Rightarrow> read_result \<times> RingBuffer" where
  "rb_read_nolock p r =
    (if writeCursor r = readCursor r \<and> \<not> rb_full r then
       (\<lparr>rd_n = 0, rd_err = Some ErrEmptyRingBuffer, rd_p = p\<rparr>, r)
     else if writeCursor r > readCursor r then
       let n = min (writeCursor r - readCursor r) (length p);
           p' = go_copy p (sub_list (rb_data r) (readCursor r) (readCursor r + n))
       in (\<lparr>rd_n = n, rd_err = None, rd_p = p'\<rparr>,
           r\<lparr>readCursor := (readCursor r + n) mod rb_size r\<rparr>)
     else
       let n = min (rb_size r - readCursor r + writeCursor r) (length p);
           p' = (if readCursor r + n \<le> rb_size r
                 then go_copy p (sub_list (rb_data r) (readCursor r) (readCursor r + n))
                 else let ahead = rb_size r - readCursor r;
                          p1 = go_copy p (sub_list (rb_data r) (readCursor r) (rb_size r));
                          remaining = n - ahead
                      in go_copy_at p1 ahead (sub_list (rb_data r) 0 remaining))
       in if rb_size r = 0
          then (\<lparr>rd_n = n, rd_err = Some IntegerDivideByZero, rd_p = p'\<rparr>, r)
          else (\<lparr>rd_n = n, rd_err = None, rd_p = p'\<rparr>,
                r\<lparr>readCursor := (readCursor r + n) mod rb_size r, rb_full := False\<rparr>))"

definition rb_Read :: "byte list \<Rightarrow> RingBuffer \<Rightarrow> read_result \<times> RingBuffer" where
  "rb_Read p r =
     (if length p = 0 then (\<lparr>rd_n = 0, rd_err = None, rd_p = p\<rparr>, r) else rb_read_nolock p r)"

definition rb_ReadByte :: "RingBuffer \<Rightarrow> (rb_error + byte) \<times> RingBuffer" where
  "rb_ReadByte r =
     (if writeCursor r = readCursor r \<and> \<not> rb_full r then (Inl ErrEmptyRingBuffer, r)
      else let b = rb_data r ! readCursor r;
               rc = Suc (readCursor r);
               rc' = (if rc = rb_size r then 0 else rc)
           in (Inr b, r\<lparr>readCursor := rc', rb_full := False\<rparr>))"

definition rb_write_nolock :: "byte list \<Rightarrow> RingBuffer \<Rightarrow> (nat \<times> rb_error option) \<times> RingBuffer" where
  "rb_write_nolock p0 r =
    (if rb_full r then ((0, Some ErrFullRingBuffer), r)
     else
       let readableCount = (if writeCursor r \<ge> readCursor r
                            then rb_size r - writeCursor r + readCursor r
                            else readCursor r - writeCursor r);
           err = (if length p0 > readableCount then Some ErrRingBufferTooMuchDataToWrite else None);
           p = (if length p0 > readableCount then take readableCount p0 else p0);
           n = length p;
           (data', wc') =
             (if writeCursor r \<ge> readCursor r then
                let ahead = rb_size r - writeCursor r in
                if ahead \<ge> n then (go_copy_at (rb_data r) (writeCursor r) p, writeCursor r + n)
                else let d1 = go_copy_at (rb_data r) (writeCursor r) (take ahead p);
                         remaining = n - ahead
                     in (go_copy_at d1 0 (drop ahead p), remaining)
              else (go_copy_at (rb_data r) (writeCursor r) p, writeCursor r + n));
           wc'' = (if wc' = rb_size r then 0 else wc')
       in ((n, err),
           r\<lparr>rb_data := data', writeCursor := wc'',
             rb_full := (if wc'' = readCursor r then True else rb_full r)\<rparr>))"

definition rb_Write :: "byte list \<Rightarrow> RingBuffer \<Rightarrow> (nat \<times> rb_error option) \<times> RingBuffer" where
  "rb_Write p r = (if length p = 0 then ((0, None), r) else rb_write_nolock p r)"

definition rb_ReadableBytesCopy :: "RingBuffer \<Rightarrow> byte list" where
  "rb_ReadableBytesCopy r =
    (if writeCursor r = readCursor r then
       (if rb_full r then
          let buf = replicate (rb_size r) 0;
              buf1 = go_copy buf (drop (readCursor r) (rb_data r))
          in go_copy_at buf1 (rb_size r - readCursor r) (take (writeCursor r) (rb_data r))
        else [])
     else if writeCursor r > readCursor r then
       go_copy (replicate (writeCursor r - readCursor r) 0)
         (sub_list (rb_data r) (readCursor r) (writeCursor r))
     else
       let n = rb_size r - readCursor r + writeCursor r;
           res = replicate n 0
       in if readCursor r + n < rb_size r
          then go_copy res (sub_list (rb_data r) (readCursor r) (readCursor r + n))
          else let c1 = rb_size r - readCursor r;
                   res1 = go_copy res (sub_list (rb_data r) (readCursor r) (rb_size r));
                   c2 = n - c1
               in go_copy_at res1 c1 (sub_list (rb_data r) 0 c2))"

definition rb_IsFull :: "RingBuffer \<Rightarrow> bool" where
  "rb_IsFull r = rb_full r"

definition rb_IsEmpty :: "RingBuffer \<Rightarrow> bool" where
  "rb_IsEmpty r \<longleftrightarrow> \<not> rb_full r \<and> writeCursor r = readCursor r"

definition rb_ReadableCount :: "RingBuffer \<Rightarrow> nat" where
  "rb_ReadableCount r =
    (if writeCursor r = readCursor r then (if rb_full r then rb_size r else 0)
     else if writeCursor r > readCursor r then writeCursor r - readCursor r
     else rb_size r - readCursor r + writeCursor r)"

definition rb_Free :: "RingBuffer \<Rightarrow> nat" where
  "rb_Free r =
    (if writeCursor r = readCursor r then (if rb_full r then 0 else rb_size r)
     else if writeCursor r < readCursor r then readCursor r - writeCursor r
     else rb_size r - writeCursor r + readCursor r)"

definition rb_Reset :: "RingBuffer \<Rightarrow> RingBuffer" where
  "rb_Reset r = r\<lparr>readCursor := 0, writeCursor := 0, rb_full := False\<rparr>"

section \<open>Invariant and abstraction\<close>

definition rb_inv :: "RingBuffer \<Rightarrow> bool" where
  "rb_inv r \<longleftrightarrow> 0 < rb_size r \<and> length (rb_data r) = rb_size r \<and>
     readCursor r < rb_size r \<and> writeCursor r < rb_size r \<and>
     (rb_full r \<longrightarrow> writeCursor r = readCursor r)"

text \<open>The bytes to be read, in order: from the read cursor on, around the end of the array.\<close>

definition rb_contents :: "RingBuffer \<Rightarrow> byte list" where
  "rb_contents r = take (rb_ReadableCount r) (drop (readCursor r) (rb_data r) @ take (readCursor r) (rb_data r))"

lemma rb_count_le: "rb_inv r \<Longrightarrow> rb_ReadableCount r \<le> rb_size r"
  by (auto simp: rb_inv_def rb_ReadableCount_def)

lemma length_rb_contents: "rb_inv r \<Longrightarrow> length (rb_contents r) = rb_ReadableCount r"
  using rb_count_le[of r] by (auto simp: rb_contents_def rb_inv_def)

lemma rb_free_count: "rb_inv r \<Longrightarrow> rb_Free r + rb_ReadableCount r = rb_size r"
  by (auto simp: rb_inv_def rb_Free_def rb_ReadableCount_def)

text \<open>Reading a byte at position \<open>i\<close> of the contents is reading the array modulo its size.\<close>

lemma rb_contents_nth:
  assumes "rb_inv r" and "i < rb_ReadableCount r"
  shows "rb_contents r ! i = rb_data r ! ((readCursor r + i) mod rb_size r)"
proof -
  have i: "i < rb_size r" using assms rb_count_le[of r] by simp
  show ?thesis
  proof (cases "readCursor r + i < rb_size r")
    case True
    then show ?thesis using assms i by (auto simp: rb_contents_def rb_inv_def nth_append)
  next
    case False
    then have "(readCursor r + i) mod rb_size r = readCursor r + i - rb_size r"
      using assms i by (auto simp: rb_inv_def mod_if)
    moreover have "rb_size r \<le> readCursor r + i" "readCursor r < rb_size r" "length (rb_data r) = rb_size r"
      using False assms(1) by (auto simp: rb_inv_def)
    moreover have "i - (rb_size r - readCursor r) = readCursor r + i - rb_size r"
      using False assms(1) by (auto simp: rb_inv_def)
    ultimately show ?thesis
      using assms(2) i by (auto simp: rb_contents_def nth_append min_def)
  qed
qed

lemma rb_contents_eqI:
  assumes "rb_inv r" and "length xs = rb_ReadableCount r"
    and "\<And>i. i < length xs \<Longrightarrow> xs ! i = rb_data r ! ((readCursor r + i) mod rb_size r)"
  shows "rb_contents r = xs"
  using assms by (auto intro!: nth_equalityI simp: length_rb_contents rb_contents_nth)

section \<open>Reading\<close>

lemma take_rb_contents:
  assumes "rb_inv r" and "n \<le> rb_ReadableCount r"
  shows "take n (rb_contents r) =
     (if readCursor r + n \<le> rb_size r then sub_list (rb_data r) (readCursor r) (readCursor r + n)
      else sub_list (rb_data r) (readCursor r) (rb_size r) @
           sub_list (rb_data r) 0 (n - (rb_size r - readCursor r)))"
  using assms rb_count_le[OF assms(1)]
  by (auto simp: rb_contents_def rb_inv_def sub_list_def min_def)

lemma rb_advance_count:
  assumes "rb_inv r" and "0 < n" and "n \<le> rb_ReadableCount r"
  defines "r' \<equiv> r\<lparr>readCursor := (readCursor r + n) mod rb_size r, rb_full := False\<rparr>"
  shows "rb_ReadableCount r' = rb_ReadableCount r - n" and "rb_inv r'"
proof -
  have b: "readCursor r < rb_size r" "writeCursor r < rb_size r" "n \<le> rb_size r"
    using assms rb_count_le[OF assms(1)] by (auto simp: rb_inv_def)
  have rc: "readCursor r' = (if readCursor r + n < rb_size r then readCursor r + n
                             else readCursor r + n - rb_size r)"
    using b by (auto simp: r'_def mod_if)
  show "rb_ReadableCount r' = rb_ReadableCount r - n"
    using assms(1-3) b rc unfolding rb_ReadableCount_def rb_inv_def
    by (auto simp: r'_def split: if_splits)
  show "rb_inv r'"
    using assms(1) b by (auto simp: rb_inv_def r'_def)
qed

lemma rb_advance_contents:
  assumes "rb_inv r" and "0 < n" and "n \<le> rb_ReadableCount r"
  shows "rb_contents (r\<lparr>readCursor := (readCursor r + n) mod rb_size r, rb_full := False\<rparr>) = drop n (rb_contents r)"
proof (rule rb_contents_eqI)
  let ?r' = "r\<lparr>readCursor := (readCursor r + n) mod rb_size r, rb_full := False\<rparr>"
  show "rb_inv ?r'" and "length (drop n (rb_contents r)) = rb_ReadableCount ?r'"
    using rb_advance_count[OF assms] by (simp_all add: length_rb_contents assms(1))
  fix i
  assume "i < length (drop n (rb_contents r))"
  then have "n + i < rb_ReadableCount r" by (simp add: length_rb_contents assms(1))
  then have "drop n (rb_contents r) ! i = rb_data r ! ((readCursor r + (n + i)) mod rb_size r)"
    using rb_contents_nth[OF assms(1)] assms(1) by (simp add: length_rb_contents)
  then show "drop n (rb_contents r) ! i = rb_data ?r' ! ((readCursor ?r' + i) mod rb_size ?r')"
    by (simp add: mod_add_left_eq add.assoc)
qed

lemma rb_read_correct:
  assumes "rb_inv r" and "p \<noteq> []" and "rb_contents r \<noteq> []"
  defines "n \<equiv> min (length p) (length (rb_contents r))"
  shows "fst (rb_Read p r) = \<lparr>rd_n = n, rd_err = None, rd_p = take n (rb_contents r) @ drop n p\<rparr>"
    and "snd (rb_Read p r) = r\<lparr>readCursor := (readCursor r + n) mod rb_size r, rb_full := False\<rparr>"
proof -
  have n: "0 < n" "n \<le> rb_ReadableCount r" "n \<le> length p"
    using assms(2,3) length_rb_contents[OF assms(1)] by (auto simp: n_def min_def simp flip: length_greater_0_conv)
  have cnt: "0 < rb_ReadableCount r" using n by simp
  have tk: "length (take n (rb_contents r)) = n" using n length_rb_contents[OF assms(1)] by simp
  note T = take_rb_contents[OF assms(1) n(2)]
  have ge: "rb_size r - readCursor r < n" if "\<not> readCursor r + n \<le> rb_size r"
    using that assms(1) by (auto simp: rb_inv_def)
  have nn: "(if writeCursor r > readCursor r then min (writeCursor r - readCursor r) (length p)
             else min (rb_size r - readCursor r + writeCursor r) (length p)) = n"
    using assms(1) cnt length_rb_contents[OF assms(1)]
    by (auto simp: n_def rb_ReadableCount_def rb_inv_def min.commute split: if_splits)
  have one: "go_copy p (sub_list (rb_data r) (readCursor r) (readCursor r + n)) =
      take n (rb_contents r) @ drop n p" if "readCursor r + n \<le> rb_size r"
    using T that n tk by (simp add: go_copy_le)
  have two: "go_copy_at (go_copy p (sub_list (rb_data r) (readCursor r) (rb_size r))) (rb_size r - readCursor r)
      (sub_list (rb_data r) 0 (n - (rb_size r - readCursor r))) = take n (rb_contents r) @ drop n p"
    if "\<not> readCursor r + n \<le> rb_size r"
    using T that n tk ge[OF that] assms(1) by (simp add: go_copy_le go_copy_at_le rb_inv_def sub_list_def)
  have ne: "\<not> (writeCursor r = readCursor r \<and> \<not> rb_full r)"
    using cnt by (auto simp: rb_ReadableCount_def split: if_splits)
  have lt: "readCursor r + n \<le> rb_size r" if "writeCursor r > readCursor r"
    using that nn assms(1) by (auto simp: rb_inv_def)
  have nf: "\<not> rb_full r" if "writeCursor r > readCursor r"
    using that assms(1) by (auto simp: rb_inv_def)
  have sz: "rb_size r \<noteq> 0" using assms(1) by (simp add: rb_inv_def)
  show "fst (rb_Read p r) = \<lparr>rd_n = n, rd_err = None, rd_p = take n (rb_contents r) @ drop n p\<rparr>"
    using ne nn one two lt sz assms(2) by (auto simp: rb_Read_def rb_read_nolock_def Let_def)
  show "snd (rb_Read p r) = r\<lparr>readCursor := (readCursor r + n) mod rb_size r, rb_full := False\<rparr>"
    using ne nn nf sz assms(2) by (auto simp: rb_Read_def rb_read_nolock_def Let_def)
qed

section \<open>Writing\<close>

lemma rb_write_cursor:
  assumes "rb_inv r"
  shows "writeCursor r = (readCursor r + rb_ReadableCount r) mod rb_size r"
  using assms by (auto simp: rb_inv_def rb_ReadableCount_def mod_if)

text \<open>Storing \<open>p\<close> at \<open>w\<close> in a ring: at most two copies.\<close>

definition ring_store :: "byte list \<Rightarrow> nat \<Rightarrow> byte list \<Rightarrow> byte list" where
  "ring_store d w p =
     (if w + length p \<le> length d then go_copy_at d w p
      else go_copy_at (go_copy_at d w (take (length d - w) p)) 0 (drop (length d - w) p))"

lemma length_ring_store [simp]: "length (ring_store d w p) = length d"
  by (simp add: ring_store_def)

lemma go_copy_at_nth:
  "off + length src \<le> length dst \<Longrightarrow> j < length dst \<Longrightarrow>
   go_copy_at dst off src ! j = (if off \<le> j \<and> j < off + length src then src ! (j - off) else dst ! j)"
  by (auto simp: go_copy_at_le nth_append)

lemma ring_store_nth:
  assumes "w < length d" and "length p \<le> length d" and "i < length d"
  shows "ring_store d w p ! ((w + i) mod length d) =
           (if i < length p then p ! i else d ! ((w + i) mod length d))"
proof -
  have m: "(w + i) mod length d = (if w + i < length d then w + i else w + i - length d)"
    using assms by (auto simp: mod_if)
  show ?thesis
  proof (cases "w + length p \<le> length d")
    case True
    then show ?thesis using assms m by (auto simp: ring_store_def go_copy_at_nth)
  next
    case False
    then have l: "length (take (length d - w) p) = length d - w" by simp
    show ?thesis
      using assms m False l by (auto simp: ring_store_def go_copy_at_nth)
  qed
qed

lemma rb_write_correct_aux:
  assumes "rb_inv r" and "p \<noteq> []" and "\<not> rb_full r"
  defines "n \<equiv> min (length p) (rb_Free r)"
  shows "fst (rb_Write p r) = (n, if length p > rb_Free r then Some ErrRingBufferTooMuchDataToWrite else None)"
    and "snd (rb_Write p r) = r\<lparr>rb_data := ring_store (rb_data r) (writeCursor r) (take n p),
           writeCursor := (writeCursor r + n) mod rb_size r,
           rb_full := ((writeCursor r + n) mod rb_size r = readCursor r)\<rparr>"
proof -
  have inv: "length (rb_data r) = rb_size r" "readCursor r < rb_size r" "writeCursor r < rb_size r"
    using assms(1) by (auto simp: rb_inv_def)
  have free: "(if writeCursor r \<ge> readCursor r then rb_size r - writeCursor r + readCursor r
               else readCursor r - writeCursor r) = rb_Free r"
    using inv assms(3) by (auto simp: rb_Free_def)
  have pp: "(if length p > rb_Free r then take (rb_Free r) p else p) = take n p"
    by (simp add: n_def min_def)
  have np: "length (take n p) = n" by (simp add: n_def)
  have fr: "rb_Free r \<le> rb_size r" using rb_free_count[OF assms(1)] by simp
  have wm: "(writeCursor r + n) mod rb_size r =
      (if writeCursor r + n < rb_size r then writeCursor r + n else writeCursor r + n - rb_size r)"
    using inv fr by (auto simp: mod_if n_def)
  have small: "writeCursor r + n \<le> rb_size r" if "\<not> writeCursor r \<ge> readCursor r"
    using that free inv by (auto simp: n_def)
  show "fst (rb_Write p r) = (n, if length p > rb_Free r then Some ErrRingBufferTooMuchDataToWrite else None)"
    using assms(2,3) by (simp add: rb_Write_def rb_write_nolock_def free Let_def split_def) (simp add: n_def)
  show "snd (rb_Write p r) = r\<lparr>rb_data := ring_store (rb_data r) (writeCursor r) (take n p),
           writeCursor := (writeCursor r + n) mod rb_size r,
           rb_full := ((writeCursor r + n) mod rb_size r = readCursor r)\<rparr>"
  proof -
    have eq: "rb_Write p r =
      (let (data', wc') =
             (if writeCursor r \<ge> readCursor r then
                let ahead = rb_size r - writeCursor r in
                if ahead \<ge> n then (go_copy_at (rb_data r) (writeCursor r) (take n p), writeCursor r + n)
                else let d1 = go_copy_at (rb_data r) (writeCursor r) (take ahead (take n p));
                         remaining = n - ahead
                     in (go_copy_at d1 0 (drop ahead (take n p)), remaining)
              else (go_copy_at (rb_data r) (writeCursor r) (take n p), writeCursor r + n));
           wc'' = (if wc' = rb_size r then 0 else wc')
       in ((n, if length p > rb_Free r then Some ErrRingBufferTooMuchDataToWrite else None),
           r\<lparr>rb_data := data', writeCursor := wc'',
             rb_full := (if wc'' = readCursor r then True else rb_full r)\<rparr>))"
      using assms(2,3) by (simp only: rb_Write_def rb_write_nolock_def free pp Let_def np) simp
    consider (fits) "writeCursor r \<ge> readCursor r" "rb_size r - writeCursor r \<ge> n"
      | (wraps) "writeCursor r \<ge> readCursor r" "\<not> rb_size r - writeCursor r \<ge> n"
      | (below) "\<not> writeCursor r \<ge> readCursor r" by blast
    moreover have "n \<le> rb_size r" using fr by (simp add: n_def)
    moreover obtain q where q: "take n p = q" "length q = n" using np by blast
    ultimately show ?thesis
      using assms(3) wm inv small unfolding eq q(1)
      by cases (auto simp: ring_store_def q(2) Let_def)
  qed
qed

lemma rb_write_count:
  assumes "rb_inv r" and "\<not> rb_full r" and "0 < n" and "n \<le> rb_Free r"
    and "length d = rb_size r"
  defines "r' \<equiv> r\<lparr>rb_data := d, writeCursor := (writeCursor r + n) mod rb_size r,
                  rb_full := ((writeCursor r + n) mod rb_size r = readCursor r)\<rparr>"
  shows "rb_ReadableCount r' = rb_ReadableCount r + n" and "rb_inv r'"
proof -
  have b: "readCursor r < rb_size r" "writeCursor r < rb_size r" "n \<le> rb_size r"
    using assms(1,4) rb_free_count[OF assms(1)] by (auto simp: rb_inv_def)
  have wc: "writeCursor r' = (if writeCursor r + n < rb_size r then writeCursor r + n
                              else writeCursor r + n - rb_size r)"
    using b by (auto simp: r'_def mod_if)
  show "rb_ReadableCount r' = rb_ReadableCount r + n"
    using assms(2-4) b wc unfolding rb_ReadableCount_def rb_Free_def
    by (auto simp: r'_def split: if_splits)
  show "rb_inv r'"
    using assms(1,5) b by (auto simp: rb_inv_def r'_def)
qed

lemma rb_write_contents:
  assumes "rb_inv r" and "\<not> rb_full r" and "0 < length p" and "length p \<le> rb_Free r"
  shows "rb_contents (r\<lparr>rb_data := ring_store (rb_data r) (writeCursor r) p,
           writeCursor := (writeCursor r + length p) mod rb_size r,
           rb_full := ((writeCursor r + length p) mod rb_size r = readCursor r)\<rparr>) = rb_contents r @ p"
    (is "rb_contents ?r' = _")
proof (rule rb_contents_eqI)
  have len: "length (rb_data r) = rb_size r" and wlt: "writeCursor r < rb_size r"
    using assms(1) by (auto simp: rb_inv_def)
  have ple: "length p \<le> rb_size r" and cnt: "rb_ReadableCount r + length p \<le> rb_size r"
    using rb_free_count[OF assms(1)] assms(4) by auto
  show inv': "rb_inv ?r'" and "length (rb_contents r @ p) = rb_ReadableCount ?r'"
    using rb_write_count[OF assms, of "ring_store (rb_data r) (writeCursor r) p"]
    by (simp_all add: length_rb_contents assms(1) len)
  fix i
  assume i: "i < length (rb_contents r @ p)"
  have "(rb_contents r @ p) ! i = ring_store (rb_data r) (writeCursor r) p ! ((readCursor r + i) mod rb_size r)"
  proof (cases "i < rb_ReadableCount r")
    case True
    let ?k = "rb_size r - rb_ReadableCount r + i"
    have "(writeCursor r + ?k) mod rb_size r = (readCursor r + rb_ReadableCount r + ?k) mod rb_size r"
      by (subst rb_write_cursor[OF assms(1)]) (simp add: mod_add_left_eq)
    also have "\<dots> = (readCursor r + i + rb_size r) mod rb_size r"
      using cnt by (simp add: algebra_simps)
    finally have eq: "(writeCursor r + ?k) mod rb_size r = (readCursor r + i) mod rb_size r"
      by simp
    have k: "?k < length (rb_data r)" "\<not> ?k < length p" using True cnt len by auto
    show ?thesis
      using ring_store_nth[of "writeCursor r" "rb_data r" p ?k] k wlt ple len eq True
        rb_contents_nth[OF assms(1) True]
      by (simp add: nth_append length_rb_contents assms(1))
  next
    case False
    then obtain k where ik: "i = rb_ReadableCount r + k"
      using le_Suc_ex not_less by blast
    have k: "k < length p" "k < length (rb_data r)"
      using i ik ple len by (auto simp: length_rb_contents assms(1))
    have eq: "(writeCursor r + k) mod rb_size r = (readCursor r + i) mod rb_size r"
      by (subst rb_write_cursor[OF assms(1)]) (simp add: ik mod_add_left_eq add.assoc)
    show ?thesis
      using ring_store_nth[of "writeCursor r" "rb_data r" p k] k wlt ple len eq ik
      by (simp add: nth_append length_rb_contents assms(1))
  qed
  then show "(rb_contents r @ p) ! i = rb_data ?r' ! ((readCursor ?r' + i) mod rb_size ?r')"
    by simp
qed

lemma rb_write_correct:
  fixes p :: "byte list"
  assumes "rb_inv r"
  defines "n \<equiv> min (length p) (rb_size r - length (rb_contents r))"
  shows "rb_inv (snd (rb_Write p r)) \<and> rb_size (snd (rb_Write p r)) = rb_size r \<and>
         fst (fst (rb_Write p r)) = n \<and>
         rb_contents (snd (rb_Write p r)) = rb_contents r @ take n p \<and>
         (snd (fst (rb_Write p r)) = None \<longleftrightarrow> length p = n)"
proof (cases "p = [] \<or> rb_full r")
  case True
  then show ?thesis
    using assms(1) by (auto simp: n_def rb_Write_def rb_write_nolock_def length_rb_contents
        rb_inv_def rb_ReadableCount_def)
next
  case False
  then have free: "rb_size r - length (rb_contents r) = rb_Free r" "0 < rb_Free r"
    using rb_free_count[OF assms(1)] assms(1)
    by (auto simp: length_rb_contents rb_Free_def rb_inv_def)
  have n: "0 < length (take n p)" "length (take n p) \<le> rb_Free r" "length (take n p) = n"
    using False free by (auto simp: n_def)
  have nf: "\<not> rb_full r" and pne: "p \<noteq> []" using False by auto
  have n': "min (length p) (rb_Free r) = n" using free by (simp add: n_def)
  note W = rb_write_correct_aux[OF assms(1) pne nf, unfolded n']
  have len: "length (ring_store (rb_data r) (writeCursor r) (take n p)) = rb_size r"
    using assms(1) by (simp add: rb_inv_def)
  show ?thesis
    using W rb_write_contents[OF assms(1) nf n(1,2)] rb_write_count(2)[OF assms(1) nf n(1,2) len] n free
    by (auto simp: n_def)
qed

section \<open>The channel interface\<close>

text \<open>
  What a producer and a consumer rely on: a channel of fixed capacity whose \<open>write\<close> accepts as
  much as fits, in order, and whose \<open>read\<close> takes from the front.
\<close>

text \<open>A run: writes and reads in any order. Its trace is what was accepted and what was delivered.\<close>

fun chan_run :: "('b list \<Rightarrow> 'c \<Rightarrow> nat \<times> 'c) \<Rightarrow> (nat \<Rightarrow> 'c \<Rightarrow> 'b list \<times> 'c) \<Rightarrow>
    ('b list + nat) list \<Rightarrow> 'c \<Rightarrow> 'b list \<times> 'b list \<times> 'c" where
  "chan_run put get [] c = ([], [], c)"
| "chan_run put get (Inl p # ops) c =
     (case put p c of (n, c') \<Rightarrow>
        (case chan_run put get ops c' of (acc, del, c'') \<Rightarrow> (take n p @ acc, del, c'')))"
| "chan_run put get (Inr k # ops) c =
     (case get k c of (out, c') \<Rightarrow>
        (case chan_run put get ops c' of (acc, del, c'') \<Rightarrow> (acc, out @ del, c'')))"

locale bounded_channel =
  fixes contents :: "'c \<Rightarrow> 'b list"
    and cap :: "'c \<Rightarrow> nat"
    and wf :: "'c \<Rightarrow> bool"
    and put :: "'b list \<Rightarrow> 'c \<Rightarrow> nat \<times> 'c"
    and get :: "nat \<Rightarrow> 'c \<Rightarrow> 'b list \<times> 'c"
  assumes bounded: "wf c \<Longrightarrow> length (contents c) \<le> cap c"
    and wf_write: "wf c \<Longrightarrow> wf (snd (put p c))"
    and cap_write: "wf c \<Longrightarrow> cap (snd (put p c)) = cap c"
    and n_write: "wf c \<Longrightarrow> fst (put p c) = min (length p) (cap c - length (contents c))"
    and contents_write: "wf c \<Longrightarrow> contents (snd (put p c)) = contents c @ take (fst (put p c)) p"
    and wf_read: "wf c \<Longrightarrow> wf (snd (get k c))"
    and cap_read: "wf c \<Longrightarrow> cap (snd (get k c)) = cap c"
    and out_read: "wf c \<Longrightarrow> fst (get k c) = take k (contents c)"
    and contents_read: "wf c \<Longrightarrow> contents (snd (get k c)) = drop k (contents c)"
begin

lemma chan_run_stream:
  assumes "wf c"
  shows "contents c @ fst (chan_run put get ops c) = fst (snd (chan_run put get ops c)) @ contents (snd (snd (chan_run put get ops c)))
         \<and> wf (snd (snd (chan_run put get ops c))) \<and> cap (snd (snd (chan_run put get ops c))) = cap c"
  using assms
proof (induction ops arbitrary: c)
  case Nil
  then show ?case by simp
next
  case (Cons op ops)
  show ?case
  proof (cases op)
    case (Inl p)
    then show ?thesis
      using Cons.IH[OF wf_write[OF Cons.prems, of p]] contents_write[OF Cons.prems, of p] cap_write[OF Cons.prems, of p]
      by (simp add: split_def)
  next
    case (Inr k)
    have "contents c = fst (get k c) @ contents (snd (get k c))"
      by (simp add: out_read[OF Cons.prems] contents_read[OF Cons.prems])
    then show ?thesis
      using Inr Cons.IH[OF wf_read[OF Cons.prems, of k]] cap_read[OF Cons.prems, of k]
      by (simp add: split_def)
  qed
qed

lemma write_then_read:
  assumes "wf c" and "contents c = []" and "length p \<le> cap c"
  shows "fst (put p c) = length p \<and> fst (get (length p) (snd (put p c))) = p \<and>
         contents (snd (get (length p) (snd (put p c)))) = []"
  using assms n_write[OF assms(1), of p] contents_write[OF assms(1), of p] wf_write[OF assms(1), of p]
  by (simp add: out_read contents_read)

end

text \<open>The ring buffer as such a channel: the caller's read buffer has \<open>k\<close> bytes.\<close>

definition rb_channel_write :: "byte list \<Rightarrow> RingBuffer \<Rightarrow> nat \<times> RingBuffer" where
  "rb_channel_write p r = (fst (fst (rb_Write p r)), snd (rb_Write p r))"

definition rb_channel_read :: "nat \<Rightarrow> RingBuffer \<Rightarrow> byte list \<times> RingBuffer" where
  "rb_channel_read k r =
     (let res = rb_Read (replicate k 0) r in (take (rd_n (fst res)) (rd_p (fst res)), snd res))"

lemma rb_empty_iff: "rb_inv r \<Longrightarrow> rb_contents r = [] \<longleftrightarrow> rb_IsEmpty r"
  using length_rb_contents[of r]
  by (auto simp: rb_IsEmpty_def rb_ReadableCount_def rb_inv_def split: if_splits)

lemma rb_read_empty:
  assumes "rb_inv r" and "rb_contents r = []" and "p \<noteq> []"
  shows "rb_Read p r = (\<lparr>rd_n = 0, rd_err = Some ErrEmptyRingBuffer, rd_p = p\<rparr>, r)"
  using assms rb_empty_iff[OF assms(1)] by (simp add: rb_Read_def rb_read_nolock_def rb_IsEmpty_def)

lemma rb_channel_read_props:
  assumes "rb_inv r"
  shows "rb_inv (snd (rb_channel_read k r))" and "rb_size (snd (rb_channel_read k r)) = rb_size r"
    and "fst (rb_channel_read k r) = take k (rb_contents r)"
    and "rb_contents (snd (rb_channel_read k r)) = drop k (rb_contents r)"
proof -
  have "rb_inv (snd (rb_channel_read k r)) \<and> rb_size (snd (rb_channel_read k r)) = rb_size r \<and>
        fst (rb_channel_read k r) = take k (rb_contents r) \<and>
        rb_contents (snd (rb_channel_read k r)) = drop k (rb_contents r)"
  proof (cases "k = 0 \<or> rb_contents r = []")
    case True
    then show ?thesis
      using assms rb_read_empty[OF assms, of "replicate k 0"]
      by (cases "k = 0") (simp_all add: rb_channel_read_def rb_Read_def)
  next
    case False
    let ?p = "replicate k (0 :: byte)"
    let ?n = "min (length ?p) (length (rb_contents r))"
    have p: "?p \<noteq> []" and c: "rb_contents r \<noteq> []" using False by auto
    have n: "0 < ?n" "?n \<le> rb_ReadableCount r"
      using False length_rb_contents[OF assms] by (auto simp flip: length_greater_0_conv)
    show ?thesis
      using rb_read_correct[OF assms p c] rb_advance_contents[OF assms n] rb_advance_count(2)[OF assms n]
      by (simp add: rb_channel_read_def Let_def min_def)
  qed
  then show "rb_inv (snd (rb_channel_read k r))" "rb_size (snd (rb_channel_read k r)) = rb_size r"
    "fst (rb_channel_read k r) = take k (rb_contents r)"
    "rb_contents (snd (rb_channel_read k r)) = drop k (rb_contents r)" by simp_all
qed

interpretation rb: bounded_channel rb_contents rb_size rb_inv rb_channel_write rb_channel_read
  by unfold_locales
    (auto simp: rb_channel_write_def rb_write_correct rb_channel_read_props length_rb_contents rb_count_le)

lemma rb_inv_New: "0 < n \<Longrightarrow> rb_inv (NewRingBuffer n) \<and> rb_contents (NewRingBuffer n) = []"
  by (simp add: rb_inv_def NewRingBuffer_def rb_contents_def rb_ReadableCount_def)

section \<open>Properties\<close>

text \<open>
  (C5) The ring buffer is a faithful byte stream: for every sequence of \<open>Write\<close> and \<open>Read\<close>
  calls on a buffer in a consistent state, the bytes already buffered followed by the bytes
  the writes accepted are exactly the bytes the reads delivered followed by the bytes still
  buffered. Nothing is lost, duplicated or reordered across the wrap-around.
\<close>

theorem ring_buffer_stream:
  assumes "rb_inv r"
  shows "case chan_run rb_channel_write rb_channel_read ops r of (accepted, delivered, r') \<Rightarrow>
           rb_contents r @ accepted = delivered @ rb_contents r' \<and> rb_inv r' \<and>
           length (rb_contents r') \<le> rb_size r"
  using rb.chan_run_stream[OF assms, of ops] rb.bounded[of "snd (snd (chan_run rb_channel_write rb_channel_read ops r))"]
  by (auto simp: split_def)

theorem ring_buffer_stream_witness:
  "case chan_run rb_channel_write rb_channel_read [Inl [1, 2, 3], Inr 2, Inl [4, 5, 6], Inr 9] (NewRingBuffer 4) of (accepted, delivered, r') \<Rightarrow>
     accepted = delivered @ rb_contents r'"
  using ring_buffer_stream[of "NewRingBuffer 4" "[Inl [1, 2, 3], Inr 2, Inl [4, 5, 6], Inr 9]"] rb_inv_New[of 4]
  by (simp add: split_def)

text \<open>
  \<open>Write\<close> on a consistent buffer: it stores exactly the longest prefix of the data that
  fits after the buffered bytes, returns its length, reports an error exactly when something
  did not fit, and keeps the invariant and the capacity.
\<close>

theorem ring_buffer_write:
  assumes "rb_inv r" and "rb_Write p r = ((n, err), r')"
  shows "n = min (length p) (rb_Free r) \<and> rb_contents r' = rb_contents r @ take n p \<and>
         (err = None \<longleftrightarrow> n = length p) \<and> rb_inv r' \<and> rb_size r' = rb_size r \<and>
         rb_Free r' + length (rb_contents r') = rb_size r"
proof -
  have r': "rb_inv r'" and sz: "rb_size r' = rb_size r"
    using rb_write_correct[OF assms(1), of p] assms(2) by auto
  then have "rb_Free r' + length (rb_contents r') = rb_size r"
    using rb_free_count[OF r'] by (simp add: length_rb_contents)
  moreover have "rb_Free r = rb_size r - length (rb_contents r)"
    using rb_free_count[OF assms(1)] by (simp add: length_rb_contents[OF assms(1)])
  ultimately show ?thesis
    using rb_write_correct[OF assms(1), of p] assms(2) by auto
qed

theorem ring_buffer_write_witness:
  "rb_contents (snd (rb_Write [7, 8, 9] (NewRingBuffer 2))) = [7, 8] \<and>
   snd (fst (rb_Write [7, 8, 9] (NewRingBuffer 2))) \<noteq> None"
proof -
  obtain n err r' where w: "rb_Write [7, 8, 9] (NewRingBuffer 2) = ((n, err), r')"
    by (metis prod.exhaust)
  have "rb_inv (NewRingBuffer 2)" "rb_contents (NewRingBuffer 2) = []" "rb_Free (NewRingBuffer 2) = 2"
    using rb_inv_New[of 2] by (simp_all add: rb_Free_def NewRingBuffer_def)
  then show ?thesis using ring_buffer_write[OF _ w] w by (auto simp: numeral_2_eq_2)
qed

text \<open>
  \<open>ReadableBytesCopy\<close>, \<open>ReadableCount\<close>, \<open>Free\<close>, \<open>IsEmpty\<close> and \<open>IsFull\<close> are consistent views
  of a consistent buffer: the copy is the buffered bytes, the count is their number, free
  plus count is the capacity, empty and full are the two extremes.
\<close>

theorem ring_buffer_views:
  assumes "rb_inv r"
  shows "rb_ReadableBytesCopy r = rb_contents r \<and>
         rb_ReadableCount r = length (rb_contents r) \<and>
         rb_Free r = rb_size r - length (rb_contents r) \<and>
         (rb_IsEmpty r \<longleftrightarrow> rb_contents r = []) \<and>
         (rb_IsFull r \<longleftrightarrow> length (rb_contents r) = rb_size r)"
proof -
  have copy: "rb_ReadableBytesCopy r = rb_contents r"
  proof -
    consider (empty) "writeCursor r = readCursor r" "\<not> rb_full r"
      | (full) "writeCursor r = readCursor r" "rb_full r"
      | (ahead) "writeCursor r > readCursor r" | (behind) "writeCursor r < readCursor r"
      by linarith
    then show ?thesis
      using assms
      by cases (auto simp: rb_ReadableBytesCopy_def rb_contents_def rb_ReadableCount_def rb_inv_def
          go_copy_def go_copy_at_def sub_list_def Let_def)
  qed
  have "rb_IsFull r \<longleftrightarrow> rb_ReadableCount r = rb_size r"
    using assms by (auto simp: rb_IsFull_def rb_ReadableCount_def rb_inv_def split: if_splits)
  then show ?thesis
    using copy rb_free_count[OF assms] rb_empty_iff[OF assms] length_rb_contents[OF assms] by auto
qed

theorem ring_buffer_views_witness:
  "rb_ReadableBytesCopy (NewRingBuffer 2) = rb_contents (NewRingBuffer 2) \<and> rb_Free (NewRingBuffer 2) = 2"
  using ring_buffer_views[of "NewRingBuffer 2"] rb_inv_New[of 2] by (simp add: NewRingBuffer_def)

text \<open>
  \<open>ReadByte\<close> is \<open>Read\<close> with a one-byte buffer: same byte or same error, same new state.
\<close>

theorem ReadByte_is_Read:
  assumes "rb_inv r"
  shows "rb_ReadByte r =
    (case rb_Read [b] r of (res, r') \<Rightarrow>
       (case rd_err res of Some e \<Rightarrow> (Inl e, r') | None \<Rightarrow> (Inr (hd (rd_p res)), r')))"
proof (cases "rb_contents r = []")
  case True
  then show ?thesis
    using rb_read_empty[OF assms True, of "[b]"] rb_empty_iff[OF assms]
    by (simp add: rb_ReadByte_def rb_IsEmpty_def)
next
  case False
  then obtain x xs where c: "rb_contents r = x # xs" by (cases "rb_contents r") auto
  then have "rb_data r ! readCursor r = x"
    using rb_contents_nth[OF assms, of 0] length_rb_contents[OF assms] assms by (simp add: rb_inv_def)
  moreover have "(Suc (readCursor r)) mod rb_size r = (if Suc (readCursor r) = rb_size r then 0 else Suc (readCursor r))"
    using assms by (auto simp: rb_inv_def)
  ultimately show ?thesis
    using rb_read_correct[OF assms _ False, of "[b]"] rb_empty_iff[OF assms] False c
    by (cases "rb_Read [b] r") (auto simp: rb_ReadByte_def rb_IsEmpty_def)
qed

theorem ReadByte_is_Read_witness:
  "rb_ReadByte (NewRingBuffer 1) = (Inl ErrEmptyRingBuffer, NewRingBuffer 1)"
  using ReadByte_is_Read[of "NewRingBuffer 1" 0] rb_inv_New[of 1] rb_read_empty[of "NewRingBuffer 1" "[0]"] by simp

text \<open>
  A ring buffer of size zero is unusable: the first \<open>Write\<close> marks it full and the next
  \<open>Read\<close> then divides by the size, a run-time panic.
\<close>

theorem zero_size_ring_buffer_panics:
  "rd_err (fst (rb_Read (b # bs) (snd (rb_Write (c # cs) (NewRingBuffer 0))))) = Some IntegerDivideByZero"
  by (simp add: NewRingBuffer_def rb_Write_def rb_write_nolock_def rb_Read_def rb_read_nolock_def Let_def)

end
