(* ===== verification/TokenBuckets.thy ===== *)
theory TokenBuckets
  imports Prelude
begin

text \<open>
  The token buckets of \<open>internal/core/token_bucket.go\<close>, which enforce every limit of an Inox
  module. A bucket's methods run under its mutex, the manager goroutine updates each
  registered bucket once per tick: each is one atomic step here. Token counts are 64-bit
  signed integers scaled by 1000; waiting goroutines are represented by their wait channels
  (capacity one, recycled through a pool). Time and the state of the contexts are inputs of
  the tick.
\<close>

section \<open>Buckets and wait channels\<close>

type_synonym chan = nat
type_synonym ctx_id = nat

text \<open>\<open>TOKEN_BUCKET_CAPACITY_SCALE\<close>: ticks of one millisecond per second.\<close>

definition CAPACITY_SCALE :: int where
  "CAPACITY_SCALE = 1000"

definition MAX_WAIT_CHAN_COUNT :: nat where
  "MAX_WAIT_CHAN_COUNT = 1000"

text \<open>A depletion function reads the clock: its first argument is the current time.\<close>

type_synonym TokenDepletionFn = "int \<Rightarrow> int \<Rightarrow> int \<Rightarrow> int"

record tokenBucket =
  lastDecrementTime :: int
  tb_capacity :: int
  tb_available :: int
  tb_increment :: int
  depletingStateCount :: int
  decrementFn :: "TokenDepletionFn option"
  tb_context :: "ctx_id option"
  waitChans :: "chan list"
  neededTokenCountList :: "int list"
  useTokenCountList :: "int list"
  cancelContextOnNegativeCount :: bool
  shouldBeDestroyed :: bool
  tb_destroyed :: bool

text \<open>
  The wait channels of the process: the pool, the channels whose one-element buffer is full,
  the channels a goroutine is blocked on, the closed ones and the next fresh channel.
\<close>

record chans =
  waitChanPool :: "chan list"
  signalled :: "chan \<Rightarrow> bool"
  blocked :: "chan list"
  closedChans :: "chan list"
  nextChan :: chan

datatype tb_panic = NegativeCapacity | CountOutOfRange | ErrDestroyedTokenBucket

record tokenBucketConfig =
  cfg_cap :: int
  cfg_initialAvail :: int
  cfg_fillRate :: int
  cfg_depleteFn :: "TokenDepletionFn option"
  cfg_cancelContextOnNegativeCount :: bool

definition RealCount :: "int \<Rightarrow> int" where
  "RealCount c = tdiv c CAPACITY_SCALE"

definition newBucket :: "int \<Rightarrow> tokenBucketConfig \<Rightarrow> tb_panic + tokenBucket" where
  "newBucket now config =
    (if cfg_cap config < 0 then Inl NegativeCapacity
     else
       let avail = (if cfg_initialAvail config < 0 then cfg_cap config else cfg_initialAvail config)
       in Inr \<lparr>lastDecrementTime = now,
               tb_capacity = i64 (cfg_cap config * CAPACITY_SCALE),
               tb_available = i64 (avail * CAPACITY_SCALE),
               tb_increment = cfg_fillRate config,
               depletingStateCount = 0,
               decrementFn = cfg_depleteFn config,
               tb_context = None,
               waitChans = [], neededTokenCountList = [], useTokenCountList = [],
               cancelContextOnNegativeCount = cfg_cancelContextOnNegativeCount config,
               shouldBeDestroyed = False, tb_destroyed = False\<rparr>)"

definition tb_SetContext :: "ctx_id \<Rightarrow> tokenBucket \<Rightarrow> tokenBucket" where
  "tb_SetContext ctx tb = tb\<lparr>tb_context := Some ctx\<rparr>"

definition tb_Available :: "tokenBucket \<Rightarrow> int" where
  "tb_Available tb = RealCount (tb_available tb)"

definition notDestroyed :: "tokenBucket \<Rightarrow> bool" where
  "notDestroyed tb \<longleftrightarrow> \<not> (tb_destroyed tb \<or> shouldBeDestroyed tb)"

definition checkCount :: "int \<Rightarrow> tokenBucket \<Rightarrow> bool" where
  "checkCount count tb \<longleftrightarrow> \<not> (count < 0 \<or> count > tb_capacity tb)"

definition tryTake :: "int \<Rightarrow> int \<Rightarrow> tokenBucket \<Rightarrow> tb_panic + (bool \<times> tokenBucket)" where
  "tryTake need use tb =
    (if \<not> checkCount need tb then Inl CountOutOfRange
     else if \<not> notDestroyed tb then Inl ErrDestroyedTokenBucket
     else if need \<le> tb_available tb
          then Inr (True, tb\<lparr>tb_available := i64 (tb_available tb - use)\<rparr>)
     else Inr (False, tb))"

definition tb_TryTake :: "int \<Rightarrow> tokenBucket \<Rightarrow> tb_panic + (bool \<times> tokenBucket)" where
  "tb_TryTake count tb =
     (let scaledCount = i64 (count * CAPACITY_SCALE) in tryTake scaledCount scaledCount tb)"

definition tb_GiveBack :: "int \<Rightarrow> tokenBucket \<Rightarrow> tb_panic + tokenBucket" where
  "tb_GiveBack count tb =
    (if \<not> notDestroyed tb then Inl ErrDestroyedTokenBucket
     else let a = i64 (tb_available tb + i64 (count * CAPACITY_SCALE))
          in Inr (tb\<lparr>tb_available := min (tb_capacity tb) a\<rparr>))"

definition PauseOneStateDepletion :: "tokenBucket \<Rightarrow> tokenBucket" where
  "PauseOneStateDepletion tb = tb\<lparr>depletingStateCount := i32 (depletingStateCount tb - 1)\<rparr>"

definition ResumeOneStateDepletion :: "tokenBucket \<Rightarrow> tokenBucket" where
  "ResumeOneStateDepletion tb = tb\<lparr>depletingStateCount := i32 (depletingStateCount tb + 1)\<rparr>"

definition tb_Destroy :: "tokenBucket \<Rightarrow> tokenBucket" where
  "tb_Destroy tb = tb\<lparr>shouldBeDestroyed := True\<rparr>"

definition addWaitChannel :: "int \<Rightarrow> int \<Rightarrow> tokenBucket \<Rightarrow> chans \<Rightarrow> chan \<times> tokenBucket \<times> chans" where
  "addWaitChannel need use tb m =
    (let (channel, m') = (case waitChanPool m of
            [] \<Rightarrow> (nextChan m, m\<lparr>nextChan := Suc (nextChan m)\<rparr>)
          | c # cs \<Rightarrow> (c, m\<lparr>waitChanPool := cs\<rparr>))
     in (channel,
         tb\<lparr>waitChans := waitChans tb @ [channel],
            neededTokenCountList := neededTokenCountList tb @ [need],
            useTokenCountList := useTokenCountList tb @ [use]\<rparr>, m'))"

text \<open>A receive on a wait channel: it takes the buffered signal or the goroutine blocks.\<close>

definition receive :: "chan \<Rightarrow> chans \<Rightarrow> bool \<times> chans" where
  "receive ch m =
    (if signalled m ch then (True, m\<lparr>signalled := (signalled m)(ch := False)\<rparr>)
     else (False, m\<lparr>blocked := ch # blocked m\<rparr>))"

datatype wait_outcome = Taken | Returned chan | Waiting chan

definition waitAndTake :: "int \<Rightarrow> int \<Rightarrow> tokenBucket \<Rightarrow> chans \<Rightarrow> tb_panic + (wait_outcome \<times> tokenBucket \<times> chans)" where
  "waitAndTake need use tb m =
    (let needCount = i64 (need * CAPACITY_SCALE); useCount = i64 (use * CAPACITY_SCALE) in
     case tryTake needCount useCount tb of
       Inl e \<Rightarrow> Inl e
     | Inr (True, tb') \<Rightarrow> Inr (Taken, tb', m)
     | Inr (False, tb') \<Rightarrow>
         (case addWaitChannel needCount useCount tb' m of (ch, tb'', m') \<Rightarrow>
            (case receive ch m' of (got, m'') \<Rightarrow>
               Inr (if got then Returned ch else Waiting ch, tb'', m''))))"

text \<open>
  \<open>waitAndTakeMaxDuration\<close> is the same call followed, when the time is over first, by the
  goroutine giving up: it stops receiving and returns false; the wait lists keep its entry.
\<close>

definition giveUpWaiting :: "chan \<Rightarrow> chans \<Rightarrow> bool \<times> chans" where
  "giveUpWaiting ch m = (False, m\<lparr>blocked := remove1 ch (blocked m)\<rparr>)"

definition tb_Take :: "int \<Rightarrow> tokenBucket \<Rightarrow> chans \<Rightarrow> tb_panic + (wait_outcome \<times> tokenBucket \<times> chans)" where
  "tb_Take count = waitAndTake count count"

definition tb_Wait :: "int \<Rightarrow> tokenBucket \<Rightarrow> chans \<Rightarrow> tb_panic + (wait_outcome \<times> tokenBucket \<times> chans)" where
  "tb_Wait count = waitAndTake count 0"

section \<open>The manager goroutine\<close>

text \<open>Resuming a waiter: the non-blocking send, then the channel goes back to the pool or is closed.\<close>

definition resumeWaiter :: "chan \<Rightarrow> chans \<Rightarrow> chans" where
  "resumeWaiter ch m =
    (let m1 = (if ch \<in> set (blocked m) then m\<lparr>blocked := remove1 ch (blocked m)\<rparr>
               else m\<lparr>signalled := (signalled m)(ch := True)\<rparr>)
     in if length (waitChanPool m1) < MAX_WAIT_CHAN_COUNT
        then m1\<lparr>waitChanPool := waitChanPool m1 @ [ch]\<rparr>
        else m1\<lparr>closedChans := ch # closedChans m1\<rparr>)"

text \<open>The loop that serves the waiting goroutines, from the last one in.\<close>

function wakeLoop :: "tokenBucket \<Rightarrow> chans \<Rightarrow> tokenBucket \<times> chans" where
  "wakeLoop tb m =
    (if length (waitChans tb) \<ge> 1 then
       let n = length (waitChans tb) - 1;
           waitChan = waitChans tb ! n;
           neededCount = neededTokenCountList tb ! n;
           useCount = useTokenCountList tb ! n
       in if tb_available tb \<ge> neededCount then
            wakeLoop (tb\<lparr>waitChans := take n (waitChans tb),
                         neededTokenCountList := take n (neededTokenCountList tb),
                         useTokenCountList := take n (useTokenCountList tb),
                         tb_available := i64 (tb_available tb - useCount)\<rparr>)
                     (resumeWaiter waitChan m)
          else (tb, m)
     else (tb, m))"
  by pat_completeness auto
termination
  by (relation "measure (\<lambda>(tb, m). length (waitChans tb))") auto

declare wakeLoop.simps [simp del]

record tick_env =
  env_now :: int
  env_isDone :: "ctx_id \<Rightarrow> bool"
  env_isDoneSlow :: "ctx_id \<Rightarrow> bool"

record tick_result =
  tr_bucket :: tokenBucket
  tr_chans :: chans
  tr_cancelled :: "ctx_id option"
  tr_removed :: bool

text \<open>The refill or depletion of one tick.\<close>

definition tickAvailable :: "tick_env \<Rightarrow> tokenBucket \<Rightarrow> int" where
  "tickAvailable env tb =
    (case decrementFn tb of
       None \<Rightarrow> (if tb_available tb < tb_capacity tb then i64 (tb_available tb + tb_increment tb)
                else tb_available tb)
     | Some fn \<Rightarrow>
         (if depletingStateCount tb > 0
          then i64 (tb_available tb - i64 (fn (env_now env) (lastDecrementTime tb) (depletingStateCount tb) * CAPACITY_SCALE))
          else tb_available tb))"

definition updateBucketState :: "tick_env \<Rightarrow> tokenBucket \<Rightarrow> chans \<Rightarrow> tick_result" where
  "updateBucketState env tb m =
    (let sbd1 = (case tb_context tb of Some c \<Rightarrow> env_isDone env c \<or> shouldBeDestroyed tb
                                     | None \<Rightarrow> shouldBeDestroyed tb);
         a1 = tickAvailable env tb;
         negative = (a1 < 0 \<and> cancelContextOnNegativeCount tb \<and> tb_context tb \<noteq> None);
         sbd2 = (negative \<or> sbd1);
         cancelled = (if negative
                      then (case tb_context tb of Some c \<Rightarrow> if \<not> env_isDoneSlow env c then Some c else None
                                                | None \<Rightarrow> None)
                      else None);
         tb1 = tb\<lparr>shouldBeDestroyed := sbd2, tb_available := max 0 a1, lastDecrementTime := env_now env\<rparr>
     in if sbd2 then
          \<lparr>tr_bucket = tb1\<lparr>shouldBeDestroyed := False, tb_destroyed := True\<rparr>,
           tr_chans = fold resumeWaiter (waitChans tb1) m,
           tr_cancelled = cancelled, tr_removed = True\<rparr>
        else
          (case wakeLoop tb1 m of (tb2, m') \<Rightarrow>
            \<lparr>tr_bucket = tb2, tr_chans = m', tr_cancelled = cancelled, tr_removed = False\<rparr>))"

text \<open>One tick over the registered buckets; a destroyed bucket leaves the registry.\<close>

fun managerTick :: "tick_env \<Rightarrow> tokenBucket list \<Rightarrow> chans \<Rightarrow> tokenBucket list \<times> chans" where
  "managerTick env [] m = ([], m)"
| "managerTick env (tb # tbs) m =
    (let res = updateBucketState env tb m in
     case managerTick env tbs (tr_chans res) of (tbs', m') \<Rightarrow>
       (if tr_removed res then tbs' else tr_bucket res # tbs', m'))"

section \<open>Invariant\<close>

definition waiters :: "tokenBucket \<Rightarrow> (chan \<times> int \<times> int) list" where
  "waiters tb = zip (waitChans tb) (zip (neededTokenCountList tb) (useTokenCountList tb))"

text \<open>
  The three wait lists run in parallel, every waiting request fits the bucket, the available
  count is never negative and exceeds the capacity by less than one increment. Capacity and
  increment are small enough for the 64-bit additions, which \<open>MAX_LIMIT_VALUE\<close> ensures.
\<close>

definition tb_inv :: "tokenBucket \<Rightarrow> bool" where
  "tb_inv tb \<longleftrightarrow>
     length (neededTokenCountList tb) = length (waitChans tb) \<and>
     length (useTokenCountList tb) = length (waitChans tb) \<and>
     (\<forall>i < length (waitChans tb).
        0 \<le> useTokenCountList tb ! i \<and> useTokenCountList tb ! i \<le> neededTokenCountList tb ! i \<and>
        neededTokenCountList tb ! i \<le> tb_capacity tb) \<and>
     0 \<le> tb_increment tb \<and> 0 \<le> tb_capacity tb \<and> tb_capacity tb + tb_increment tb < 2 ^ 63 \<and>
     0 \<le> tb_available tb \<and> tb_available tb \<le> tb_capacity tb + max 0 (tb_increment tb - 1)"

lemma tb_inv_available: "tb_inv tb \<Longrightarrow> in_i64 (tb_available tb)"
  by (auto simp: tb_inv_def in_i64_def)

lemma tb_inv_take:
  assumes "tb_inv tb" and "0 \<le> u" and "u \<le> tb_available tb"
  shows "i64 (tb_available tb - u) = tb_available tb - u"
    and "tb_inv (tb\<lparr>tb_available := i64 (tb_available tb - u)\<rparr>)"
proof -
  show *: "i64 (tb_available tb - u) = tb_available tb - u"
    using assms tb_inv_available[OF assms(1)] by (intro i64_id) (auto simp: in_i64_def)
  show "tb_inv (tb\<lparr>tb_available := i64 (tb_available tb - u)\<rparr>)"
    using assms unfolding * by (auto simp: tb_inv_def)
qed

lemma tryTake_inv:
  assumes "tb_inv tb" and "0 \<le> use" and "use \<le> need" and "tryTake need use tb = Inr (ok, tb')"
  shows "tb_inv tb' \<and> (ok \<longrightarrow> tb_available tb' = tb_available tb - use) \<and> (\<not> ok \<longrightarrow> tb' = tb)
         \<and> (ok \<longleftrightarrow> need \<le> tb_available tb)"
  using assms tb_inv_take[OF assms(1,2)] by (auto simp: tryTake_def split: if_splits)

lemma addWaitChannel_inv:
  assumes "tb_inv tb" and "0 \<le> use" and "use \<le> need" and "need \<le> tb_capacity tb"
    and "addWaitChannel need use tb m = (ch, tb', m')"
  shows "tb_inv tb' \<and> tb_available tb' = tb_available tb \<and> waitChans tb' = waitChans tb @ [ch]"
  using assms by (auto simp: addWaitChannel_def tb_inv_def nth_append less_Suc_eq split: list.splits)

lemma tickAvailable_refill:
  assumes "tb_inv tb" and "decrementFn tb = None"
  shows "0 \<le> tickAvailable env tb" and "tickAvailable env tb \<le> tb_capacity tb + max 0 (tb_increment tb - 1)"
    and "tickAvailable env tb \<le> tb_available tb + tb_increment tb"
    and "tickAvailable env tb = (if tb_available tb < tb_capacity tb then tb_available tb + tb_increment tb else tb_available tb)"
proof -
  have "in_i64 (tb_available tb + tb_increment tb)" if "tb_available tb < tb_capacity tb"
    using assms(1) that by (auto simp: tb_inv_def in_i64_def)
  then show *: "tickAvailable env tb = (if tb_available tb < tb_capacity tb then tb_available tb + tb_increment tb else tb_available tb)"
    using assms(2) by (simp add: tickAvailable_def)
  show "0 \<le> tickAvailable env tb" "tickAvailable env tb \<le> tb_capacity tb + max 0 (tb_increment tb - 1)"
    "tickAvailable env tb \<le> tb_available tb + tb_increment tb"
    using assms(1) unfolding * by (auto simp: tb_inv_def)
qed

section \<open>What the wake loop does\<close>

text \<open>
  \<open>served k tb\<close> is the bucket after the waiters from position \<open>k\<close> on have been served.
\<close>

definition served :: "nat \<Rightarrow> tokenBucket \<Rightarrow> tokenBucket" where
  "served k tb = tb\<lparr>waitChans := take k (waitChans tb),
      neededTokenCountList := take k (neededTokenCountList tb),
      useTokenCountList := take k (useTokenCountList tb),
      tb_available := tb_available tb - sum_list (drop k (useTokenCountList tb))\<rparr>"

lemma served_all: "length (useTokenCountList tb) = length (waitChans tb) \<Longrightarrow>
    length (neededTokenCountList tb) = length (waitChans tb) \<Longrightarrow> served (length (waitChans tb)) tb = tb"
  by (simp add: served_def)

lemma served_inv:
  assumes "tb_inv tb" and "0 \<le> tb_available tb - sum_list (drop k (useTokenCountList tb))"
  shows "tb_inv (served k tb)"
proof -
  have "\<forall>u \<in> set (useTokenCountList tb). 0 \<le> u"
    using assms(1) by (auto simp: tb_inv_def in_set_conv_nth)
  then have "0 \<le> sum_list (drop k (useTokenCountList tb))"
    by (intro sum_list_nonneg) (meson in_set_dropD)
  then show ?thesis using assms by (auto simp: tb_inv_def served_def)
qed

lemma wakeLoop_served:
  assumes "tb_inv tb"
  shows "\<exists>k \<le> length (waitChans tb).
     wakeLoop tb m = (served k tb, fold resumeWaiter (rev (drop k (waitChans tb))) m) \<and>
     tb_inv (served k tb) \<and>
     (0 < k \<longrightarrow> tb_available (served k tb) < neededTokenCountList tb ! (k - 1))"
  using assms
proof (induction tb m rule: wakeLoop.induct)
  case (1 tb m)
  let ?n = "length (waitChans tb) - 1"
  let ?u = "useTokenCountList tb ! ?n"
  have len: "length (useTokenCountList tb) = length (waitChans tb)"
    "length (neededTokenCountList tb) = length (waitChans tb)"
    using "1.prems" by (auto simp: tb_inv_def)
  have inv_all: "tb_inv (served (length (waitChans tb)) tb)"
    using served_all[OF len] "1.prems" by simp
  show ?case
  proof (cases "1 \<le> length (waitChans tb) \<and> neededTokenCountList tb ! ?n \<le> tb_available tb")
    case False
    then have "wakeLoop tb m = (tb, m)"
      by (auto simp: wakeLoop.simps[of tb m] Let_def)
    then show ?thesis
      using False served_all[OF len] inv_all by (intro exI[of _ "length (waitChans tb)"]) (auto simp: Suc_le_eq)
  next
    case True
    then have n: "?n < length (waitChans tb)" "Suc ?n = length (waitChans tb)" by auto
    have u: "0 \<le> ?u" "?u \<le> tb_available tb"
      using "1.prems" True n(1) order_trans[of ?u "neededTokenCountList tb ! ?n" "tb_available tb"]
      by (simp_all only: tb_inv_def)
    let ?tb' = "tb\<lparr>waitChans := take ?n (waitChans tb),
                         neededTokenCountList := take ?n (neededTokenCountList tb),
                         useTokenCountList := take ?n (useTokenCountList tb),
                         tb_available := i64 (tb_available tb - ?u)\<rparr>"
    let ?m' = "resumeWaiter (waitChans tb ! ?n) m"
    have du: "drop ?n (useTokenCountList tb) = [?u]"
      using n len by (metis Cons_nth_drop_Suc drop_all order_refl)
    have tb': "?tb' = served ?n tb"
      using tb_inv_take(1)[OF "1.prems" u] du by (simp add: served_def)
    have inv': "tb_inv ?tb'"
      unfolding tb' using served_inv[OF "1.prems"] u du by simp
    have step: "wakeLoop tb m = wakeLoop ?tb' ?m'"
      using True by (subst wakeLoop.simps) (simp add: Let_def)
    have len': "length (waitChans ?tb') = ?n" by simp
    from "1.IH"[OF _ refl refl refl refl _ inv'] True obtain k where k: "k \<le> ?n"
      and w: "wakeLoop ?tb' ?m' = (served k ?tb', fold resumeWaiter (rev (drop k (waitChans ?tb'))) ?m')"
      and i: "tb_inv (served k ?tb')"
      and b: "0 < k \<longrightarrow> tb_available (served k ?tb') < neededTokenCountList ?tb' ! (k - 1)"
      unfolding len' by blast
    have dk: "drop k (useTokenCountList tb) = drop k (take ?n (useTokenCountList tb)) @ [?u]"
      using drop_take_last[OF k, of "useTokenCountList tb"] n len by simp
    have dc: "drop k (waitChans tb) = drop k (take ?n (waitChans tb)) @ [waitChans tb ! ?n]"
      using drop_take_last[OF k n(2)] .
    have sk: "served k ?tb' = served k tb"
      unfolding tb' using k dk du by (simp add: served_def min_def)
    show ?thesis
      using k step w i b sk dc by (intro exI[of _ k]) (auto simp: min_def)
  qed
qed

lemma update_refill:
  assumes "tb_inv tb" and "decrementFn tb = None"
  shows "\<exists>k \<le> length (waitChans tb).
     tr_bucket (updateBucketState env tb m) =
       (if tr_removed (updateBucketState env tb m)
        then tb\<lparr>tb_available := tickAvailable env tb, lastDecrementTime := env_now env,
                 shouldBeDestroyed := False, tb_destroyed := True\<rparr>
        else served k (tb\<lparr>tb_available := tickAvailable env tb, lastDecrementTime := env_now env\<rparr>)) \<and>
     tb_inv (tr_bucket (updateBucketState env tb m)) \<and>
     (\<not> tr_removed (updateBucketState env tb m) \<longrightarrow>
        tr_chans (updateBucketState env tb m) = fold resumeWaiter (rev (drop k (waitChans tb))) m \<and>
        (0 < k \<longrightarrow> tb_available (tr_bucket (updateBucketState env tb m)) < neededTokenCountList tb ! (k - 1)))"
proof -
  let ?a = "tickAvailable env tb"
  let ?tb1 = "tb\<lparr>tb_available := ?a, lastDecrementTime := env_now env\<rparr>"
  note A = tickAvailable_refill[OF assms, of env]
  have inv1: "tb_inv ?tb1" using assms(1) A(1,2) by (simp add: tb_inv_def)
  have inv2: "tb_inv (?tb1\<lparr>shouldBeDestroyed := b, tb_destroyed := c\<rparr>)" for b c
    using inv1 by (simp add: tb_inv_def)
  have a0: "max 0 ?a = ?a" "\<not> ?a < 0" using A(1) by auto
  from wakeLoop_served[OF inv1, of m] obtain k where k: "k \<le> length (waitChans tb)"
    and w: "wakeLoop ?tb1 m = (served k ?tb1, fold resumeWaiter (rev (drop k (waitChans tb))) m)"
    and ik: "tb_inv (served k ?tb1)"
    and bk: "0 < k \<longrightarrow> tb_available (served k ?tb1) < neededTokenCountList tb ! (k - 1)"
    by auto
  define sbd where "sbd = (case tb_context tb of Some c \<Rightarrow> env_isDone env c \<or> shouldBeDestroyed tb
                                     | None \<Rightarrow> shouldBeDestroyed tb)"
  show ?thesis
  proof (cases sbd)
    case True
    then show ?thesis
      using k inv2[of True False] a0
      by (intro exI[of _ k]) (auto simp: updateBucketState_def sbd_def[symmetric] Let_def)
  next
    case False
    then have "\<not> shouldBeDestroyed tb" by (auto simp: sbd_def split: option.splits)
    then have eq: "tb\<lparr>shouldBeDestroyed := False, tb_available := ?a, lastDecrementTime := env_now env\<rparr> = ?tb1"
      by simp
    show ?thesis
      using False k w ik bk a0
      by (intro exI[of _ k]) (simp add: updateBucketState_def sbd_def[symmetric] Let_def eq)
  qed
qed

section \<open>Runs\<close>

text \<open>
  A run of a bucket: ticks of the manager and calls of its clients in any order.
  \<open>TakeMaxDuration\<close> and \<open>WaitMaxDuration\<close> are \<open>OpTake\<close> and \<open>OpWait\<close>, followed by
  \<open>OpGiveUp\<close> when the time is over first. A call that panics changes nothing, and the manager
  does not visit a destroyed bucket. Each step reports two scaled counts. The first is what
  was deducted from the bucket for a call that succeeds or for the waiters it serves. The
  second is what calls asked for that return although nothing was deducted for them: the
  goroutines resumed by the tick that destroys the bucket, and a call that receives a signal
  left in a recycled channel.
\<close>

datatype tb_op =
    OpTick tick_env
  | OpTryTake int
  | OpTake int
  | OpWait int
  | OpGiveUp chan
  | OpGiveBack int
  | OpSetContext ctx_id
  | OpPause
  | OpResume
  | OpDestroy

definition wait_step :: "int \<Rightarrow> tb_panic + (wait_outcome \<times> tokenBucket \<times> chans) \<Rightarrow> tokenBucket \<Rightarrow> chans \<Rightarrow>
    (int \<times> int) \<times> tokenBucket \<times> chans" where
  "wait_step use result tb m =
     (case result of
        Inl _ \<Rightarrow> ((0, 0), tb, m)
      | Inr (out, tb', m') \<Rightarrow>
          (case out of
             Taken \<Rightarrow> (i64 (use * CAPACITY_SCALE), 0)
           | Returned _ \<Rightarrow> (0, i64 (use * CAPACITY_SCALE))
           | Waiting _ \<Rightarrow> (0, 0), tb', m'))"

fun tb_step :: "tb_op \<Rightarrow> tokenBucket \<Rightarrow> chans \<Rightarrow> (int \<times> int) \<times> tokenBucket \<times> chans" where
  "tb_step (OpTick env) tb m =
     (if tb_destroyed tb then ((0, 0), tb, m)
      else let res = updateBucketState env tb m in
        (if tr_removed res then (0, sum_list (useTokenCountList tb))
         else (sum_list (useTokenCountList tb) - sum_list (useTokenCountList (tr_bucket res)), 0),
         tr_bucket res, tr_chans res))"
| "tb_step (OpTryTake c) tb m =
     (case tb_TryTake c tb of
        Inr (True, tb') \<Rightarrow> ((i64 (c * CAPACITY_SCALE), 0), tb', m)
      | _ \<Rightarrow> ((0, 0), tb, m))"
| "tb_step (OpTake c) tb m = wait_step c (tb_Take c tb m) tb m"
| "tb_step (OpWait c) tb m = wait_step 0 (tb_Wait c tb m) tb m"
| "tb_step (OpGiveUp ch) tb m = ((0, 0), tb, snd (giveUpWaiting ch m))"
| "tb_step (OpGiveBack c) tb m =
     (case tb_GiveBack c tb of Inl _ \<Rightarrow> ((0, 0), tb, m) | Inr tb' \<Rightarrow> ((0, 0), tb', m))"
| "tb_step (OpSetContext ctx) tb m = ((0, 0), tb_SetContext ctx tb, m)"
| "tb_step OpPause tb m = ((0, 0), PauseOneStateDepletion tb, m)"
| "tb_step OpResume tb m = ((0, 0), ResumeOneStateDepletion tb, m)"
| "tb_step OpDestroy tb m = ((0, 0), tb_Destroy tb, m)"

fun tb_run :: "tb_op list \<Rightarrow> tokenBucket \<Rightarrow> chans \<Rightarrow> (int \<times> int) \<times> tokenBucket \<times> chans" where
  "tb_run [] tb m = ((0, 0), tb, m)"
| "tb_run (op # ops) tb m =
     (case tb_step op tb m of ((g, u), tb', m') \<Rightarrow>
        (case tb_run ops tb' m' of ((gs, us), tb'', m'') \<Rightarrow> ((g + gs, u + us), tb'', m'')))"

text \<open>What a step may add to the bucket at most.\<close>

fun op_income :: "tokenBucket \<Rightarrow> tb_op \<Rightarrow> int" where
  "op_income tb (OpTick env) = tb_increment tb"
| "op_income tb (OpGiveBack c) = c * CAPACITY_SCALE"
| "op_income tb _ = 0"

text \<open>A give-back is of a non-negative count whose scaled value does not overflow.\<close>

fun op_valid :: "tokenBucket \<Rightarrow> tb_op \<Rightarrow> bool" where
  "op_valid tb (OpGiveBack c) \<longleftrightarrow> 0 \<le> c \<and> tb_capacity tb + tb_increment tb + c * CAPACITY_SCALE < 2 ^ 63"
| "op_valid tb _ \<longleftrightarrow> True"

text \<open>No waiter gives up and nothing destroys the bucket.\<close>

fun op_patient :: "tb_op \<Rightarrow> bool" where
  "op_patient (OpTick env) \<longleftrightarrow> (\<forall>c. \<not> env_isDone env c)"
| "op_patient (OpGiveUp ch) \<longleftrightarrow> False"
| "op_patient OpDestroy \<longleftrightarrow> False"
| "op_patient _ \<longleftrightarrow> True"

lemma checkCount_bounds: "checkCount n tb \<longleftrightarrow> 0 \<le> n \<and> n \<le> tb_capacity tb"
  by (auto simp: checkCount_def)

lemma waitAndTake_cases:
  assumes "tb_inv tb" and "waitAndTake need use tb m = Inr (out, tb', m')"
    and "0 \<le> i64 (use * CAPACITY_SCALE)" and "i64 (use * CAPACITY_SCALE) \<le> i64 (need * CAPACITY_SCALE)"
  defines "s \<equiv> i64 (use * CAPACITY_SCALE)"
  shows "tb_inv tb' \<and> tb_capacity tb' = tb_capacity tb \<and> tb_increment tb' = tb_increment tb \<and>
         decrementFn tb' = decrementFn tb \<and>
         tb_available tb' = (if out = Taken then tb_available tb - s else tb_available tb)"
proof -
  let ?n = "i64 (need * CAPACITY_SCALE)"
  from assms(2) have n: "0 \<le> ?n" "?n \<le> tb_capacity tb" "notDestroyed tb"
    by (auto simp: waitAndTake_def tryTake_def checkCount_bounds Let_def split: if_splits)
  have s: "0 \<le> s" "s \<le> ?n" using assms(3,4) by (simp_all add: s_def)
  obtain ch tb1 m1 where add: "addWaitChannel ?n s tb m = (ch, tb1, m1)" by (metis prod.exhaust)
  have fields: "tb_capacity tb1 = tb_capacity tb" "tb_increment tb1 = tb_increment tb" "decrementFn tb1 = decrementFn tb"
    using add by (auto simp: addWaitChannel_def split: list.splits)
  show ?thesis
    using assms(1,2) n s addWaitChannel_inv[OF assms(1) s n(2) add] add fields
      tb_inv_take[OF assms(1) s(1)]
    by (auto simp: waitAndTake_def tryTake_def checkCount_bounds s_def[symmetric] Let_def
        split: if_splits prod.splits)
qed

lemma tb_Take_nonneg: "waitAndTake c c tb m = Inr r \<Longrightarrow> 0 \<le> i64 (c * CAPACITY_SCALE)"
  "waitAndTake c 0 tb m = Inr r \<Longrightarrow> 0 \<le> i64 (c * CAPACITY_SCALE)"
  by (auto simp: waitAndTake_def tryTake_def checkCount_bounds Let_def split: if_splits)

lemma tb_Take_cases:
  assumes "tb_inv tb" and "tb_Take c tb m = Inr (out, tb', m')"
  defines "s \<equiv> i64 (c * CAPACITY_SCALE)"
  shows "tb_inv tb' \<and> 0 \<le> s \<and> tb_capacity tb' = tb_capacity tb \<and> tb_increment tb' = tb_increment tb \<and>
         decrementFn tb' = decrementFn tb \<and>
         tb_available tb' = (if out = Taken then tb_available tb - s else tb_available tb)"
  using waitAndTake_cases[OF assms(1), of c c m out tb' m'] tb_Take_nonneg(1)[of c tb m "(out, tb', m')"] assms(2)
  by (simp add: tb_Take_def s_def)

lemma wait_step_accounts:
  assumes "tb_inv tb" and "use = need \<or> use = 0" and "wait_step use (waitAndTake need use tb m) tb m = ((g, u), tb', m')"
  shows "tb_inv tb' \<and> decrementFn tb' = decrementFn tb \<and> tb_capacity tb' = tb_capacity tb \<and>
         tb_increment tb' = tb_increment tb \<and> 0 \<le> g \<and> 0 \<le> u \<and> g + tb_available tb' = tb_available tb"
proof (cases "waitAndTake need use tb m")
  case (Inl e)
  then show ?thesis using assms by (simp add: wait_step_def)
next
  case (Inr x)
  obtain out tb1 m1 where x: "x = (out, tb1, m1)" by (cases x)
  have "0 \<le> i64 (use * CAPACITY_SCALE)" "i64 (use * CAPACITY_SCALE) \<le> i64 (need * CAPACITY_SCALE)"
    using assms(2) Inr tb_Take_nonneg[of need tb m x] by (auto simp: i64_def)
  then show ?thesis
    using assms(3) Inr x waitAndTake_cases[OF assms(1) Inr[unfolded x]]
    by (cases out) (auto simp: wait_step_def)
qed

lemma sum_list_use_nonneg: "tb_inv tb \<Longrightarrow> 0 \<le> sum_list (drop k (useTokenCountList tb))"
  by (intro sum_list_nonneg) (auto simp: tb_inv_def in_set_conv_nth dest!: in_set_dropD)

lemma tick_step_accounts:
  assumes "tb_inv tb" and "decrementFn tb = None" and "tb_step (OpTick env) tb m = ((g, u), tb', m')"
  shows "tb_inv tb' \<and> decrementFn tb' = None \<and> tb_capacity tb' = tb_capacity tb \<and>
         tb_increment tb' = tb_increment tb \<and> 0 \<le> g \<and> 0 \<le> u \<and>
         g + tb_available tb' \<le> tb_available tb + tb_increment tb"
proof (cases "tb_destroyed tb")
  case True
  then show ?thesis using assms by (simp add: tb_inv_def)
next
  case False
  let ?r = "updateBucketState env tb m"
  let ?tb1 = "tb\<lparr>tb_available := tickAvailable env tb, lastDecrementTime := env_now env\<rparr>"
  from update_refill[OF assms(1,2), of env m] obtain k where k: "k \<le> length (waitChans tb)"
    and b: "tr_bucket ?r = (if tr_removed ?r then ?tb1\<lparr>shouldBeDestroyed := False, tb_destroyed := True\<rparr>
              else served k ?tb1)" and i: "tb_inv (tr_bucket ?r)"
    by (metis (no_types, lifting))
  have split: "sum_list (useTokenCountList tb) = sum_list (take k (useTokenCountList tb)) + sum_list (drop k (useTokenCountList tb))"
    by (metis append_take_drop_id sum_list_append)
  show ?thesis
    using assms(3) False i sum_list_use_nonneg[OF assms(1), of k] sum_list_use_nonneg[OF assms(1), of 0] split
      tickAvailable_refill(3)[OF assms(1,2), of env] assms(2)
    by (auto simp: b served_def Let_def split: if_splits)
qed

lemma tb_step_accounts:
  assumes "tb_inv tb" and "decrementFn tb = None" and "op_valid tb op" and "tb_step op tb m = ((g, u), tb', m')"
  shows "tb_inv tb' \<and> decrementFn tb' = None \<and> tb_capacity tb' = tb_capacity tb \<and>
         tb_increment tb' = tb_increment tb \<and> 0 \<le> g \<and> 0 \<le> u \<and>
         g + tb_available tb' \<le> tb_available tb + op_income tb op"
proof (cases op)
  case (OpTick env)
  then show ?thesis
    using tick_step_accounts[OF assms(1,2) assms(4)[unfolded OpTick]] by (simp del: tb_step.simps)
next
  case (OpTryTake c)
  then show ?thesis
    using assms tb_inv_take[OF assms(1), of "i64 (c * CAPACITY_SCALE)"]
    by (auto simp: tb_TryTake_def tryTake_def checkCount_bounds Let_def split: if_splits)
next
  case (OpTake c)
  then show ?thesis
    using wait_step_accounts[OF assms(1), of c c m g u tb' m'] assms(2,4) by (simp add: tb_Take_def)
next
  case (OpWait c)
  then show ?thesis
    using wait_step_accounts[OF assms(1), of 0 c m g u tb' m'] assms(2,4) by (simp add: tb_Wait_def)
next
  case (OpGiveBack c)
  then have c: "0 \<le> c" "tb_capacity tb + tb_increment tb + c * CAPACITY_SCALE < 2 ^ 63"
    using assms(3) by auto
  have s: "i64 (c * CAPACITY_SCALE) = c * CAPACITY_SCALE"
    "i64 (tb_available tb + c * CAPACITY_SCALE) = tb_available tb + c * CAPACITY_SCALE"
    using c assms(1) by (auto intro!: i64_id simp: in_i64_def tb_inv_def CAPACITY_SCALE_def)
  have nn: "0 \<le> c * CAPACITY_SCALE" using c by (simp add: CAPACITY_SCALE_def)
  show ?thesis
    using assms OpGiveBack s nn by (auto simp: tb_GiveBack_def tb_inv_def Let_def split: if_splits)
qed (use assms in \<open>auto simp: tb_inv_def tb_SetContext_def PauseOneStateDepletion_def ResumeOneStateDepletion_def tb_Destroy_def\<close>)

lemma tb_run_accounts:
  assumes "tb_inv tb" and "decrementFn tb = None" and "list_all (op_valid tb) ops" and "tb_run ops tb m = ((g, u), tb', m')"
  shows "tb_inv tb' \<and> 0 \<le> g \<and> 0 \<le> u \<and> g + tb_available tb' \<le> tb_available tb + sum_list (map (op_income tb) ops)"
  using assms
proof (induction ops arbitrary: tb m g u)
  case (Cons op ops)
  obtain g1 u1 tb1 m1 where s: "tb_step op tb m = ((g1, u1), tb1, m1)" by (metis prod.exhaust)
  obtain g2 u2 where r: "tb_run ops tb1 m1 = ((g2, u2), tb', m')" and g: "g = g1 + g2" "u = u1 + u2"
    using Cons.prems(4) s by (auto split: prod.splits)
  have st: "tb_inv tb1" "decrementFn tb1 = None" "tb_capacity tb1 = tb_capacity tb" "tb_increment tb1 = tb_increment tb"
    "0 \<le> g1" "0 \<le> u1" "g1 + tb_available tb1 \<le> tb_available tb + op_income tb op"
    using tb_step_accounts[OF Cons.prems(1,2) _ s] Cons.prems(3) by auto
  have same: "op_income tb1 x = op_income tb x" "op_valid tb1 x = op_valid tb x" for x
    using st(3,4) by (cases x; simp)+
  have "list_all (op_valid tb1) ops"
    using Cons.prems(3) same(2) by (simp add: list_all_iff)
  then have "tb_inv tb' \<and> 0 \<le> g2 \<and> 0 \<le> u2 \<and> g2 + tb_available tb' \<le> tb_available tb1 + sum_list (map (op_income tb1) ops)"
    using Cons.IH[OF st(1,2) _ r] by blast
  then show ?case using st(5,6,7) g same(1) by (simp cong: map_cong)
qed simp

subsection \<open>When every returning call has paid\<close>

text \<open>No signal is pending and every entry of the wait list has its goroutine blocked.\<close>

definition chans_ok :: "tokenBucket \<Rightarrow> chans \<Rightarrow> bool" where
  "chans_ok tb m \<longleftrightarrow> (\<forall>ch. \<not> signalled m ch) \<and>
     (\<forall>ch. count_list (waitChans tb) ch \<le> count_list (blocked m) ch)"

lemma count_list_remove1: "count_list (remove1 x xs) y = count_list xs y - (if x = y then 1 else 0)"
proof (induction xs)
  case (Cons z xs)
  then show ?case by (cases "x \<in> set xs") (auto simp: count_list_0_iff Suc_diff_Suc)
qed simp

lemma resume_all_ok:
  assumes "\<forall>ch. \<not> signalled m ch" and "\<forall>ch. count_list chs ch \<le> count_list (blocked m) ch"
  shows "(\<forall>ch. \<not> signalled (fold resumeWaiter chs m) ch) \<and>
         (\<forall>ch. count_list (blocked (fold resumeWaiter chs m)) ch = count_list (blocked m) ch - count_list chs ch)"
  using assms
proof (induction chs arbitrary: m)
  case (Cons c chs)
  have "count_list (blocked m) c \<noteq> 0" using Cons.prems(2)[rule_format, of c] by simp
  then have c: "c \<in> set (blocked m)" by (auto simp: count_list_0_iff)
  have one: "\<forall>ch. \<not> signalled (resumeWaiter c m) ch" "blocked (resumeWaiter c m) = remove1 c (blocked m)"
    using Cons.prems(1) c by (auto simp: resumeWaiter_def Let_def)
  have "\<forall>ch. count_list chs ch \<le> count_list (blocked (resumeWaiter c m)) ch"
  proof
    fix ch
    show "count_list chs ch \<le> count_list (blocked (resumeWaiter c m)) ch"
      using Cons.prems(2)[rule_format, of ch] by (simp add: one(2) count_list_remove1 split: if_splits)
  qed
  then show ?case using Cons.IH[OF one(1)] one(2) by (simp add: count_list_remove1)
qed simp

lemma wait_step_ok:
  assumes "chans_ok tb m" and "wait_step use (waitAndTake need use tb m) tb m = ((g, u), tb', m')"
  shows "chans_ok tb' m' \<and> u = 0 \<and> shouldBeDestroyed tb' = shouldBeDestroyed tb"
  using assms
  by (auto simp: wait_step_def waitAndTake_def tryTake_def chans_ok_def addWaitChannel_def receive_def Let_def
      split: if_splits list.splits prod.splits)

lemma tick_ok:
  assumes "tb_inv tb" and "decrementFn tb = None" and "chans_ok tb m" and "\<not> shouldBeDestroyed tb"
    and "\<forall>c. \<not> env_isDone env c" and "tb_step (OpTick env) tb m = ((g, u), tb', m')"
  shows "chans_ok tb' m' \<and> u = 0 \<and> \<not> shouldBeDestroyed tb'"
proof (cases "tb_destroyed tb")
  case True
  then show ?thesis using assms by simp
next
  case False
  let ?r = "updateBucketState env tb m"
  have live: "\<not> tr_removed ?r"
    using assms(4,5) tickAvailable_refill(1)[OF assms(1,2), of env]
    by (auto simp: updateBucketState_def Let_def split: option.splits prod.splits)
  obtain k where b: "tr_bucket ?r = served k (tb\<lparr>tb_available := tickAvailable env tb, lastDecrementTime := env_now env\<rparr>)"
    and c: "tr_chans ?r = fold resumeWaiter (rev (drop k (waitChans tb))) m"
    using update_refill[OF assms(1,2), of env m] live by auto
  have sub: "count_list (take k (waitChans tb)) ch + count_list (drop k (waitChans tb)) ch \<le> count_list (blocked m) ch" for ch
    using assms(3) by (simp add: chans_ok_def flip: count_list_append)
  have "\<forall>ch. count_list (rev (drop k (waitChans tb))) ch \<le> count_list (blocked m) ch"
    using sub add_leD2 by (metis count_list_rev)
  then have "(\<forall>ch. \<not> signalled (tr_chans ?r) ch) \<and> (\<forall>ch. count_list (blocked (tr_chans ?r)) ch =
      count_list (blocked m) ch - count_list (drop k (waitChans tb)) ch)"
    using resume_all_ok[of m "rev (drop k (waitChans tb))"] assms(3) by (simp add: c chans_ok_def)
  moreover have "count_list (take k (waitChans tb)) ch \<le> count_list (blocked m) ch - count_list (drop k (waitChans tb)) ch" for ch
    using sub[of ch] by simp
  moreover have "waitChans (tr_bucket ?r) = take k (waitChans tb)" "shouldBeDestroyed (tr_bucket ?r) = shouldBeDestroyed tb"
    by (simp_all add: b served_def)
  moreover have "u = 0" "tb' = tr_bucket ?r" "m' = tr_chans ?r"
    using assms(6) False live by (auto simp: Let_def)
  ultimately show ?thesis using assms(4) by (simp add: chans_ok_def)
qed

lemma tb_step_ok:
  assumes "tb_inv tb" and "decrementFn tb = None" and "chans_ok tb m" and "\<not> shouldBeDestroyed tb"
    and "op_patient op" and "tb_step op tb m = ((g, u), tb', m')"
  shows "chans_ok tb' m' \<and> u = 0 \<and> \<not> shouldBeDestroyed tb'"
proof (cases op)
  case (OpTick env)
  then show ?thesis
    using tick_ok[OF assms(1-4) _ assms(6)[unfolded OpTick]] assms(5) by (simp del: tb_step.simps)
next
  case (OpTake c)
  then show ?thesis using wait_step_ok[OF assms(3), of c c] assms(4,6) by (simp add: tb_Take_def)
next
  case (OpWait c)
  then show ?thesis using wait_step_ok[OF assms(3), of 0 c] assms(4,6) by (simp add: tb_Wait_def)
qed (use assms in \<open>auto simp: chans_ok_def tb_SetContext_def PauseOneStateDepletion_def ResumeOneStateDepletion_def
      tb_TryTake_def tryTake_def tb_GiveBack_def Let_def split: if_splits\<close>)

lemma tb_run_ok:
  assumes "tb_inv tb" and "decrementFn tb = None" and "list_all (op_valid tb) ops" and "list_all op_patient ops"
    and "chans_ok tb m" and "\<not> shouldBeDestroyed tb" and "tb_run ops tb m = ((g, u), tb', m')"
  shows "u = 0"
  using assms
proof (induction ops arbitrary: tb m g u)
  case (Cons op ops)
  obtain g1 u1 tb1 m1 where s: "tb_step op tb m = ((g1, u1), tb1, m1)" by (metis prod.exhaust)
  obtain g2 u2 where r: "tb_run ops tb1 m1 = ((g2, u2), tb', m')" and u: "u = u1 + u2"
    using Cons.prems(7) s by (auto split: prod.splits)
  have st: "tb_inv tb1" "decrementFn tb1 = None" "tb_capacity tb1 = tb_capacity tb" "tb_increment tb1 = tb_increment tb"
    using tb_step_accounts[OF Cons.prems(1,2) _ s] Cons.prems(3) by auto
  have ok: "chans_ok tb1 m1" "u1 = 0" "\<not> shouldBeDestroyed tb1"
    using tb_step_ok[OF Cons.prems(1,2,5,6) _ s] Cons.prems(4) by auto
  have "op_valid tb1 x = op_valid tb x" for x using st(3,4) by (cases x) simp_all
  then have "list_all (op_valid tb1) ops" using Cons.prems(3) by (simp add: list_all_iff)
  then show ?case using Cons.IH[OF st(1,2) _ _ ok(1,3) r] Cons.prems(4) ok(2) u by simp
qed simp

lemma newBucket_inv:
  assumes "newBucket now cfg = Inr tb" and "0 \<le> cfg_fillRate cfg"
    and "cfg_initialAvail cfg \<le> cfg_cap cfg" and "cfg_cap cfg * CAPACITY_SCALE + cfg_fillRate cfg < 2 ^ 63"
  shows "tb_inv tb \<and> tb_capacity tb = cfg_cap cfg * CAPACITY_SCALE \<and> tb_increment tb = cfg_fillRate cfg \<and>
         decrementFn tb = cfg_depleteFn cfg \<and> tb_available tb \<le> tb_capacity tb"
proof -
  have c: "0 \<le> cfg_cap cfg" using assms(1) by (auto simp: newBucket_def split: if_splits)
  let ?a = "if cfg_initialAvail cfg < 0 then cfg_cap cfg else cfg_initialAvail cfg"
  have a: "0 \<le> ?a" "?a \<le> cfg_cap cfg" using c assms(3) by auto
  have i: "i64 (cfg_cap cfg * CAPACITY_SCALE) = cfg_cap cfg * CAPACITY_SCALE" "i64 (?a * CAPACITY_SCALE) = ?a * CAPACITY_SCALE"
    using c a assms(2,4) by (auto intro!: i64_id simp: in_i64_def CAPACITY_SCALE_def)
  have tb: "tb = \<lparr>lastDecrementTime = now, tb_capacity = cfg_cap cfg * CAPACITY_SCALE,
               tb_available = ?a * CAPACITY_SCALE, tb_increment = cfg_fillRate cfg, depletingStateCount = 0,
               decrementFn = cfg_depleteFn cfg, tb_context = None,
               waitChans = [], neededTokenCountList = [], useTokenCountList = [],
               cancelContextOnNegativeCount = cfg_cancelContextOnNegativeCount cfg,
               shouldBeDestroyed = False, tb_destroyed = False\<rparr>"
    using assms(1) c i unfolding newBucket_def Let_def by simp
  have s: "?a * CAPACITY_SCALE \<le> cfg_cap cfg * CAPACITY_SCALE" "0 \<le> ?a * CAPACITY_SCALE"
    using a unfolding CAPACITY_SCALE_def by (intro mult_right_mono mult_nonneg_nonneg; simp)+
  show ?thesis
    unfolding tb using s c assms(2,4) by (simp add: tb_inv_def)
qed

section \<open>Sequences of ticks\<close>

fun tb_ticks :: "tick_env list \<Rightarrow> tokenBucket \<Rightarrow> chans \<Rightarrow> tokenBucket \<times> chans" where
  "tb_ticks [] tb m = (tb, m)"
| "tb_ticks (env # envs) tb m =
     (let res = updateBucketState env tb m in tb_ticks envs (tr_bucket res) (tr_chans res))"

text \<open>Neither the bucket's owner nor its context ask for its destruction.\<close>

definition alive :: "tick_env \<Rightarrow> tokenBucket \<Rightarrow> bool" where
  "alive env tb \<longleftrightarrow> \<not> shouldBeDestroyed tb \<and> (case tb_context tb of None \<Rightarrow> True | Some c \<Rightarrow> \<not> env_isDone env c)"

lemma alive_not_removed:
  assumes "tb_inv tb" and "decrementFn tb = None" and "alive env tb"
  shows "\<not> tr_removed (updateBucketState env tb m)"
  using assms(3) tickAvailable_refill(1)[OF assms(1,2), of env]
  by (auto simp: alive_def updateBucketState_def Let_def split: option.splits prod.splits)

text \<open>A tick of a live refilling bucket, in full.\<close>

lemma alive_tick:
  assumes "tb_inv tb" and "decrementFn tb = None" and "alive env tb"
  obtains k where "k \<le> length (waitChans tb)"
    and "tr_bucket (updateBucketState env tb m) =
           served k (tb\<lparr>tb_available := tickAvailable env tb, lastDecrementTime := env_now env\<rparr>)"
    and "tb_inv (tr_bucket (updateBucketState env tb m))"
    and "tr_chans (updateBucketState env tb m) = fold resumeWaiter (rev (drop k (waitChans tb))) m"
    and "0 < k \<Longrightarrow> tb_available (tr_bucket (updateBucketState env tb m)) < neededTokenCountList tb ! (k - 1)"
  using update_refill[OF assms(1,2), of env m] alive_not_removed[OF assms, of m] by (auto intro: that)

lemma served_context: "alive env (served k (tb\<lparr>tb_available := a, lastDecrementTime := t\<rparr>)) = alive env tb"
  by (simp add: alive_def served_def)

lemma tb_ticks_empty:
  assumes "tb_inv tb" and "decrementFn tb = None" and "list_all (\<lambda>env. alive env tb) envs"
    and "waitChans tb = []" and "tb_ticks envs tb m = (tb', m')"
  shows "waitChans tb' = []"
  using assms
proof (induction envs arbitrary: tb m)
  case (Cons env envs)
  let ?r = "updateBucketState env tb m"
  have al: "alive env tb" using Cons.prems(3) by simp
  obtain k where b: "tr_bucket ?r = served k (tb\<lparr>tb_available := tickAvailable env tb, lastDecrementTime := env_now env\<rparr>)"
    and i: "tb_inv (tr_bucket ?r)"
    using alive_tick[OF Cons.prems(1,2) al, of m] by metis
  have al': "list_all (\<lambda>env. alive env (tr_bucket ?r)) envs"
    using Cons.prems(3) b by (simp add: served_context)
  have "decrementFn (tr_bucket ?r) = None" "waitChans (tr_bucket ?r) = []"
    using Cons.prems(2,4) b by (simp_all add: served_def)
  then show ?case
    using Cons.IH[OF i _ al'] Cons.prems(5) by (simp add: Let_def)
qed simp

lemma tb_ticks_progress:
  assumes "tb_inv tb" and "decrementFn tb = None" and "list_all (\<lambda>env. alive env tb) envs"
    and "waitChans tb \<noteq> []" and "tb_ticks envs tb m = (tb', m')"
  shows "(\<exists>k < length (waitChans tb). waitChans tb' = take k (waitChans tb)) \<or>
         waitChans tb' = waitChans tb \<and> neededTokenCountList tb' = neededTokenCountList tb \<and>
         tb_available tb' \<ge> tb_available tb + int (length envs) * tb_increment tb \<and>
         (envs \<noteq> [] \<longrightarrow> tb_available tb' < last (neededTokenCountList tb))"
  using assms
proof (induction envs arbitrary: tb m)
  case (Cons env envs)
  let ?r = "updateBucketState env tb m"
  have al: "alive env tb" using Cons.prems(3) by simp
  obtain k where k: "k \<le> length (waitChans tb)"
    and b: "tr_bucket ?r = served k (tb\<lparr>tb_available := tickAvailable env tb, lastDecrementTime := env_now env\<rparr>)"
    and i: "tb_inv (tr_bucket ?r)"
    and n: "0 < k \<Longrightarrow> tb_available (tr_bucket ?r) < neededTokenCountList tb ! (k - 1)"
    using alive_tick[OF Cons.prems(1,2) al, of m] by metis
  have al': "list_all (\<lambda>env. alive env (tr_bucket ?r)) envs"
    using Cons.prems(3) b by (simp add: served_context)
  have d': "decrementFn (tr_bucket ?r) = None" using b Cons.prems(2) by (simp add: served_def)
  have w: "waitChans (tr_bucket ?r) = take k (waitChans tb)" using b by (simp add: served_def)
  have rest: "tb_ticks envs (tr_bucket ?r) (tr_chans ?r) = (tb', m')"
    using Cons.prems(5) by (simp add: Let_def)
  show ?case
  proof (cases "k = length (waitChans tb)")
    case True
    have len: "length (neededTokenCountList tb) = length (waitChans tb)" "length (useTokenCountList tb) = length (waitChans tb)"
      using Cons.prems(1) by (auto simp: tb_inv_def)
    have nl: "neededTokenCountList tb ! (k - 1) = last (neededTokenCountList tb)" "0 < k"
      using True len Cons.prems(4) by (auto simp: last_conv_nth simp flip: length_greater_0_conv)
    have cap: "last (neededTokenCountList tb) \<le> tb_capacity tb"
      using Cons.prems(1) nl True by (auto simp: tb_inv_def dest!: spec[of _ "k - 1"])
    have a: "tb_available (tr_bucket ?r) = tickAvailable env tb" "tb_increment (tr_bucket ?r) = tb_increment tb"
      "neededTokenCountList (tr_bucket ?r) = neededTokenCountList tb"
      using b True len by (simp_all add: served_def)
    have lt: "tickAvailable env tb < last (neededTokenCountList tb)" using n nl a by simp
    have inc: "tickAvailable env tb = tb_available tb + tb_increment tb"
      using tickAvailable_refill(4)[OF Cons.prems(1,2), of env] lt cap by (auto split: if_splits)
    have w': "waitChans (tr_bucket ?r) = waitChans tb" using w True by simp
    have IH: "(\<exists>k < length (waitChans tb). waitChans tb' = take k (waitChans tb)) \<or>
         waitChans tb' = waitChans tb \<and> neededTokenCountList tb' = neededTokenCountList tb \<and>
         tb_available tb' \<ge> tickAvailable env tb + int (length envs) * tb_increment tb \<and>
         (envs \<noteq> [] \<longrightarrow> tb_available tb' < last (neededTokenCountList tb))"
      using Cons.IH[OF i d' al' _ rest] Cons.prems(4) unfolding w' a by blast
    show ?thesis
    proof (cases "envs = []")
      case True
      then show ?thesis using rest a lt inc w' by auto
    next
      case False
      have eq: "int (length (env # envs)) * tb_increment tb = tb_increment tb + int (length envs) * tb_increment tb"
        by (simp add: algebra_simps)
      show ?thesis using IH False unfolding inc eq by (auto simp: algebra_simps)
    qed
  next
    case False
    then have kl: "k < length (waitChans tb)" using k by simp
    show ?thesis
    proof (cases "k = 0")
      case True
      have "waitChans tb' = []"
        using tb_ticks_empty[OF i d' al' _ rest] w True by simp
      then show ?thesis using kl by (intro disjI1 exI[of _ 0]) auto
    next
      case nz: False
      then have ne: "waitChans (tr_bucket ?r) \<noteq> []" using w kl by auto
      from Cons.IH[OF i d' al' ne rest] consider
          j where "j < k" "waitChans tb' = take j (take k (waitChans tb))" | "waitChans tb' = take k (waitChans tb)"
        using w kl by auto
      then show ?thesis
      proof cases
        case (1 j)
        then show ?thesis using kl by (intro disjI1 exI[of _ j]) simp
      next
        case 2
        then show ?thesis using kl by blast
      qed
    qed
  qed
qed simp


lemma resumeWaiter_blocked: "blocked (resumeWaiter ch m) = remove1 ch (blocked m)"
  by (auto simp: resumeWaiter_def Let_def remove1_idem)

lemma fold_resume_blocked:
  "distinct (blocked m) \<Longrightarrow> set (blocked (fold resumeWaiter chs m)) = set (blocked m) - set chs"
proof (induction chs arbitrary: m)
  case (Cons c chs)
  then have "distinct (blocked (resumeWaiter c m))" by (simp add: resumeWaiter_blocked distinct_remove1)
  then show ?case using Cons by (simp add: resumeWaiter_blocked set_remove1_eq) blast
qed simp

section \<open>Properties of the buckets\<close>

definition no_chans :: chans where
  "no_chans = \<lparr>waitChanPool = [], signalled = \<lambda>_. False, blocked = [], closedChans = [], nextChan = 0\<rparr>"

definition sample_config :: tokenBucketConfig where
  "sample_config = \<lparr>cfg_cap = 2, cfg_initialAvail = 1, cfg_fillRate = 500, cfg_depleteFn = None,
     cfg_cancelContextOnNegativeCount = False\<rparr>"

definition sample_bucket :: tokenBucket where
  "sample_bucket = \<lparr>lastDecrementTime = 0, tb_capacity = 2000, tb_available = 1000, tb_increment = 500,
     depletingStateCount = 0, decrementFn = None, tb_context = Some 7, waitChans = [], neededTokenCountList = [],
     useTokenCountList = [], cancelContextOnNegativeCount = False, shouldBeDestroyed = False, tb_destroyed = False\<rparr>"

definition sample_waiting :: tokenBucket where
  "sample_waiting = sample_bucket\<lparr>waitChans := [4, 5], neededTokenCountList := [2000, 2000], useTokenCountList := [2000, 0]\<rparr>"

definition quiet :: tick_env where
  "quiet = \<lparr>env_now = 5, env_isDone = \<lambda>_. False, env_isDoneSlow = \<lambda>_. False\<rparr>"

definition sample_ops :: "tb_op list" where
  "sample_ops = [OpTryTake 1, OpTake 1, OpTick quiet, OpTick quiet, OpGiveBack 1, OpPause, OpTryTake 1, OpWait 0, OpSetContext 7]"

lemmas tb_run_simps = tb_TryTake_def tb_Take_def tb_Wait_def wait_step_def tb_SetContext_def PauseOneStateDepletion_def i32_def waitAndTake_def tryTake_def checkCount_def notDestroyed_def
  addWaitChannel_def receive_def tb_GiveBack_def updateBucketState_def tickAvailable_def wakeLoop.simps
  CAPACITY_SCALE_def no_chans_def sample_config_def sample_bucket_def sample_waiting_def quiet_def i64_def
  resumeWaiter_def MAX_WAIT_CHAN_COUNT_def

text \<open>
  (C4) The bucket is a rate limiter. Start from a new bucket without depletion function (initial
  count at most the capacity, counts that fit in 64 bits) and let the manager's ticks and the
  clients' calls come in any order: \<open>TryTake\<close>, \<open>Take\<close>, \<open>Wait\<close>, both with a maximum duration
  (the waiter may give up), \<open>GiveBack\<close>, \<open>SetContext\<close>, \<open>PauseOneStateDepletion\<close>,
  \<open>ResumeOneStateDepletion\<close> and \<open>Destroy\<close>. The tokens deducted for calls, at once or by the tick
  that serves a waiter, plus what is left never exceed the capacity plus one increment per tick
  plus what was given back; the count of available tokens is never negative. Calls that return
  without a deduction are counted apart (\<open>unpaid\<close>): the goroutines resumed by the tick that
  destroys the bucket and those that receive a stale signal. Nothing is unpaid in a run in
  which no waiter gives up and nothing destroys the bucket, if no signal was pending and no goroutine
  waited on the bucket at its start; the
  receive on a wait channel directly follows its registration, and no other bucket
  leaves a signalled channel in the pool during the run.
\<close>

theorem bucket_rate_limit:
  assumes "newBucket now cfg = Inr tb" and "cfg_depleteFn cfg = None" and "0 \<le> cfg_fillRate cfg"
    and "cfg_initialAvail cfg \<le> cfg_cap cfg" and "cfg_cap cfg * CAPACITY_SCALE + cfg_fillRate cfg < 2 ^ 63"
    and "list_all (op_valid tb) ops" and "tb_run ops tb m = ((deducted, unpaid), tb', m')"
  shows "0 \<le> deducted \<and> 0 \<le> tb_available tb' \<and>
         deducted + tb_available tb' \<le> cfg_cap cfg * CAPACITY_SCALE + sum_list (map (op_income tb) ops) \<and>
         (list_all op_patient ops \<and> (\<forall>ch. \<not> signalled m ch) \<longrightarrow> unpaid = 0)"
proof -
  have inv: "tb_inv tb" "decrementFn tb = None" "tb_available tb \<le> cfg_cap cfg * CAPACITY_SCALE"
    using newBucket_inv[OF assms(1,3,4,5)] assms(2) by auto
  have new: "waitChans tb = []" "\<not> shouldBeDestroyed tb"
    using assms(1) by (auto simp: newBucket_def Let_def split: if_splits)
  have "unpaid = 0" if "list_all op_patient ops" "\<forall>ch. \<not> signalled m ch"
    using tb_run_ok[OF inv(1,2) assms(6) that(1) _ new(2) assms(7)] new(1) that(2) by (simp add: chans_ok_def)
  then show ?thesis
    using tb_run_accounts[OF inv(1,2) assms(6,7)] inv(3) by (auto simp: tb_inv_def)
qed

theorem bucket_rate_limit_witness:
  "fst (tb_run sample_ops (sample_bucket\<lparr>tb_context := None\<rparr>) no_chans) = (3000, 0) \<and>
   3000 + tb_available (fst (snd (tb_run sample_ops (sample_bucket\<lparr>tb_context := None\<rparr>) no_chans))) \<le>
     cfg_cap sample_config * CAPACITY_SCALE + sum_list (map (op_income (sample_bucket\<lparr>tb_context := None\<rparr>)) sample_ops)"
  using bucket_rate_limit[of 0 sample_config "sample_bucket\<lparr>tb_context := None\<rparr>" sample_ops no_chans
      "fst (fst (tb_run sample_ops (sample_bucket\<lparr>tb_context := None\<rparr>) no_chans))"
      "snd (fst (tb_run sample_ops (sample_bucket\<lparr>tb_context := None\<rparr>) no_chans))"
      "fst (snd (tb_run sample_ops (sample_bucket\<lparr>tb_context := None\<rparr>) no_chans))"
      "snd (snd (tb_run sample_ops (sample_bucket\<lparr>tb_context := None\<rparr>) no_chans))"]
  by (simp add: newBucket_def sample_ops_def tb_run_simps)

text \<open>
  (C32) What a tick does to the waiting goroutines of a live refilling bucket: those served are the most recent
  ones (a suffix of the wait list), each is resumed and its tokens are deducted, and the loop stops
  only when nobody waits or the next waiter needs more than what is left, so no waiter that could be
  served as the last of the list stays blocked.
\<close>

theorem tick_serves_waiters:
  assumes "tb_inv tb" and "decrementFn tb = None" and "alive env tb" and "distinct (blocked m)"
  defines "res \<equiv> updateBucketState env tb m"
  shows "\<exists>k \<le> length (waitChans tb).
     waitChans (tr_bucket res) = take k (waitChans tb) \<and>
     set (blocked (tr_chans res)) = set (blocked m) - set (drop k (waitChans tb)) \<and>
     tb_available (tr_bucket res) =
       (if tb_available tb < tb_capacity tb then tb_available tb + tb_increment tb else tb_available tb)
         - sum_list (drop k (useTokenCountList tb)) \<and>
     (waitChans (tr_bucket res) = [] \<or> tb_available (tr_bucket res) < last (neededTokenCountList (tr_bucket res))) \<and>
     tb_inv (tr_bucket res)"
proof -
  obtain k where k: "k \<le> length (waitChans tb)"
    and b: "tr_bucket res = served k (tb\<lparr>tb_available := tickAvailable env tb, lastDecrementTime := env_now env\<rparr>)"
    and i: "tb_inv (tr_bucket res)"
    and c: "tr_chans res = fold resumeWaiter (rev (drop k (waitChans tb))) m"
    and n: "0 < k \<Longrightarrow> tb_available (tr_bucket res) < neededTokenCountList tb ! (k - 1)"
    using alive_tick[OF assms(1-3), of m] unfolding res_def by metis
  have len: "length (neededTokenCountList tb) = length (waitChans tb)" using assms(1) by (simp add: tb_inv_def)
  have l: "last (neededTokenCountList (tr_bucket res)) = neededTokenCountList tb ! (k - 1)" if "0 < k"
    using that k len b by (subst last_conv_nth) (auto simp: served_def min_def)
  have w: "waitChans (tr_bucket res) = take k (waitChans tb)" "tb_available (tr_bucket res) =
      tickAvailable env tb - sum_list (drop k (useTokenCountList tb))"
    using b by (simp_all add: served_def)
  show ?thesis
    using k i n l w fold_resume_blocked[OF assms(4)] tickAvailable_refill(4)[OF assms(1,2), of env]
    by (intro exI[of _ k]) (cases "k = 0"; simp add: c)
qed

theorem tick_serves_waiters_witness:
  "\<exists>k \<le> 2. waitChans (tr_bucket (updateBucketState quiet (sample_waiting\<lparr>tb_available := 1700\<rparr>) no_chans)) = take k [4, 5]"
  using tick_serves_waiters[of "sample_waiting\<lparr>tb_available := 1700\<rparr>" quiet no_chans]
  by (auto simp: sample_waiting_def sample_bucket_def tb_inv_def alive_def quiet_def no_chans_def less_Suc_eq numeral_2_eq_2)

text \<open>
  (C33) Progress while the bucket is live and no client calls it: over consecutive ticks the
  waiting goroutine at the end of the list is served after at most \<open>capacity / increment\<close> ticks,
  whatever it asked for (requests above the capacity were refused when it called). The hypothesis
  that no call comes in between is needed: a \<open>TryTake\<close> may take the tokens first, and a newer
  waiter is served before it.
\<close>

theorem waiter_is_served:
  assumes "tb_inv tb" and "decrementFn tb = None" and "list_all (\<lambda>env. alive env tb) envs"
    and "waitChans tb \<noteq> []" and "envs \<noteq> []" and "tb_capacity tb \<le> int (length envs) * tb_increment tb"
  shows "\<exists>k < length (waitChans tb). waitChans (fst (tb_ticks envs tb m)) = take k (waitChans tb)"
proof -
  obtain tb' m' where r: "tb_ticks envs tb m = (tb', m')" by (metis prod.exhaust)
  have "length (neededTokenCountList tb) = length (waitChans tb)" "0 \<le> tb_available tb"
    using assms(1) by (auto simp: tb_inv_def)
  then have "last (neededTokenCountList tb) \<le> tb_capacity tb"
    using assms(1,4) last_conv_nth[of "neededTokenCountList tb"]
    by (fastforce simp: tb_inv_def simp flip: length_greater_0_conv)
  then show ?thesis
    using tb_ticks_progress[OF assms(1-4) r] r assms(5,6) \<open>0 \<le> tb_available tb\<close> by auto
qed

theorem waiter_is_served_witness:
  "\<exists>k < 2. waitChans (fst (tb_ticks [quiet, quiet, quiet, quiet] sample_waiting no_chans)) = take k [4, 5]"
  using waiter_is_served[of sample_waiting "[quiet, quiet, quiet, quiet]" no_chans]
  by (simp add: sample_waiting_def sample_bucket_def tb_inv_def alive_def quiet_def less_Suc_eq numeral_2_eq_2)

text \<open>
  When the context of a bucket is done, the next tick destroys the bucket: it leaves the registry, every
  waiting goroutine is resumed, and from then on \<open>TryTake\<close>, \<open>Take\<close> and \<open>GiveBack\<close> with a count the bucket accepts
  panic with \<open>ErrDestroyedTokenBucket\<close>.
\<close>

theorem context_done_destroys:
  assumes "tb_context tb = Some c" and "env_isDone env c" and "distinct (blocked m)"
    and "checkCount (i64 (n * CAPACITY_SCALE)) tb"
  defines "res \<equiv> updateBucketState env tb m"
  shows "tr_removed res \<and> managerTick env [tb] m = ([], tr_chans res) \<and>
     set (blocked (tr_chans res)) = set (blocked m) - set (waitChans tb) \<and>
     tb_TryTake n (tr_bucket res) = Inl ErrDestroyedTokenBucket \<and>
     tb_Take n (tr_bucket res) m2 = Inl ErrDestroyedTokenBucket \<and>
     tb_GiveBack n (tr_bucket res) = Inl ErrDestroyedTokenBucket"
  using assms fold_resume_blocked[OF assms(3)]
  by (simp add: updateBucketState_def Let_def tb_TryTake_def tb_Take_def waitAndTake_def tryTake_def
      checkCount_def notDestroyed_def tb_GiveBack_def)

theorem context_done_destroys_witness:
  "tb_Take 1 (tr_bucket (updateBucketState (quiet\<lparr>env_isDone := \<lambda>_. True\<rparr>) sample_waiting no_chans)) no_chans
     = Inl ErrDestroyedTokenBucket"
  using context_done_destroys[of sample_waiting 7 "quiet\<lparr>env_isDone := \<lambda>_. True\<rparr>" no_chans 1 no_chans]
  by (simp add: sample_waiting_def sample_bucket_def no_chans_def checkCount_def CAPACITY_SCALE_def i64_def)

text \<open>
  A waiter that gave up leaves its entry behind, and this loses the exclusion of the next waiter: the tick
  that serves the abandoned entry puts the signalled channel back into the pool, so the next \<open>Take\<close>, which
  cannot be satisfied, receives the stale signal and returns at once although no token was deducted for it.
\<close>

theorem abandoned_wait_wakes_next:
  assumes "waitAndTake c c tb m = Inr (Waiting ch, tb1, m1)" and "tb_inv tb" and "waitChans tb = []"
    and "decrementFn tb = None" and "tb_context tb = None" and "waitChanPool m = []" and "blocked m = []"
    and "i64 (c * CAPACITY_SCALE) \<le> tickAvailable env tb1"
    and "tickAvailable env tb1 - i64 (c * CAPACITY_SCALE) < i64 (d * CAPACITY_SCALE)"
    and "i64 (d * CAPACITY_SCALE) \<le> tb_capacity tb"
  defines "res \<equiv> updateBucketState env tb1 (snd (giveUpWaiting ch m1))"
  shows "\<exists>tb2 m2. tb_Take d (tr_bucket res) (tr_chans res) = Inr (Returned ch, tb2, m2) \<and>
     tb_available tb2 = tb_available (tr_bucket res) \<and> waitChans tb2 = [ch]"
proof -
  let ?c = "i64 (c * CAPACITY_SCALE)"
  let ?d = "i64 (d * CAPACITY_SCALE)"
  have c: "0 \<le> ?c" "?c \<le> tb_capacity tb" "notDestroyed tb" "\<not> ?c \<le> tb_available tb"
    using assms(1) by (auto simp: waitAndTake_def tryTake_def checkCount_bounds Let_def split: if_splits prod.splits)
  have one: "tb1 = tb\<lparr>waitChans := [ch], neededTokenCountList := [?c], useTokenCountList := [?c]\<rparr>"
    "m1 = m\<lparr>nextChan := Suc ch, blocked := [ch]\<rparr>"
    using assms(1,2,3,6,7) c
    by (auto simp: waitAndTake_def tryTake_def checkCount_bounds addWaitChannel_def receive_def tb_inv_def Let_def split: if_splits prod.splits)
  have inv1: "tb_inv tb1" using assms(2) c unfolding one by (simp add: tb_inv_def)
  have pos: "0 \<le> tickAvailable env tb1" "in_i64 (tickAvailable env tb1)"
    using tickAvailable_refill(1,2)[OF inv1, of env] assms(4) inv1 unfolding one by (auto simp: tb_inv_def in_i64_def)
  then have sub: "i64 (tickAvailable env tb1 - ?c) = tickAvailable env tb1 - ?c"
    using c(1) assms(8) by (intro i64_id) (auto simp: in_i64_def)
  have r: "tr_bucket res = tb\<lparr>tb_available := tickAvailable env tb1 - ?c, lastDecrementTime := env_now env\<rparr>
      \<and> waitChanPool (tr_chans res) = [ch] \<and> signalled (tr_chans res) ch"
    using assms(2-8) c(3) pos(1) sub unfolding res_def one
    by (auto simp: updateBucketState_def giveUpWaiting_def wakeLoop.simps resumeWaiter_def notDestroyed_def
        MAX_WAIT_CHAN_COUNT_def tb_inv_def Let_def max_def)
  show ?thesis
    using r assms(3,8,9,10) c(3)
    by (auto simp: tb_Take_def waitAndTake_def tryTake_def checkCount_bounds notDestroyed_def addWaitChannel_def
        receive_def Let_def)
qed

theorem abandoned_wait_wakes_next_witness:
  "\<exists>tb2 m2. tb_Take 2 (tr_bucket (updateBucketState quiet
        (sample_bucket\<lparr>tb_context := None, tb_available := 900, waitChans := [0], neededTokenCountList := [1000], useTokenCountList := [1000]\<rparr>)
        (no_chans\<lparr>nextChan := 1\<rparr>)))
      (tr_chans (updateBucketState quiet
        (sample_bucket\<lparr>tb_context := None, tb_available := 900, waitChans := [0], neededTokenCountList := [1000], useTokenCountList := [1000]\<rparr>)
        (no_chans\<lparr>nextChan := 1\<rparr>))) = Inr (Returned 0, tb2, m2) \<and> tb_available tb2 = 400"
  using abandoned_wait_wakes_next[of 1 "sample_bucket\<lparr>tb_context := None, tb_available := 900\<rparr>" no_chans 0
      "sample_bucket\<lparr>tb_context := None, tb_available := 900, waitChans := [0], neededTokenCountList := [1000], useTokenCountList := [1000]\<rparr>"
      "no_chans\<lparr>nextChan := 1, blocked := [0]\<rparr>" quiet 2]
  by (simp add: tb_run_simps giveUpWaiting_def tb_inv_def)

end
