(* ===== verification/Opcodes.thy ===== *)
theory Opcodes
  imports Prelude
begin

text \<open>
  The instruction set of the bytecode virtual machine (\<open>internal/core/bytecode.go\<close>): the opcodes, numbered
  by \<open>iota\<close>, and the three tables indexed by opcode, in the order of the source. The tables are Go arrays written
  with keyed elements: a missing key has the zero value and the length is the greatest key plus one.
\<close>

section \<open>Opcodes\<close>

abbreviation (input) OpPushConstant :: nat where "OpPushConstant \<equiv> 0"
abbreviation (input) OpPop :: nat where "OpPop \<equiv> 1"
abbreviation (input) OpCopyTop :: nat where "OpCopyTop \<equiv> 2"
abbreviation (input) OpSwap :: nat where "OpSwap \<equiv> 3"
abbreviation (input) OpMoveThirdTop :: nat where "OpMoveThirdTop \<equiv> 4"
abbreviation (input) OpPushTrue :: nat where "OpPushTrue \<equiv> 5"
abbreviation (input) OpPushFalse :: nat where "OpPushFalse \<equiv> 6"
abbreviation (input) OpEqual :: nat where "OpEqual \<equiv> 7"
abbreviation (input) OpNotEqual :: nat where "OpNotEqual \<equiv> 8"
abbreviation (input) OpIs :: nat where "OpIs \<equiv> 9"
abbreviation (input) OpIsNot :: nat where "OpIsNot \<equiv> 10"
abbreviation (input) OpMinus :: nat where "OpMinus \<equiv> 11"
abbreviation (input) OpBooleanNot :: nat where "OpBooleanNot \<equiv> 12"
abbreviation (input) OpMatch :: nat where "OpMatch \<equiv> 13"
abbreviation (input) OpGroupMatch :: nat where "OpGroupMatch \<equiv> 14"
abbreviation (input) OpIn :: nat where "OpIn \<equiv> 15"
abbreviation (input) OpSubstrOf :: nat where "OpSubstrOf \<equiv> 16"
abbreviation (input) OpKeyOf :: nat where "OpKeyOf \<equiv> 17"
abbreviation (input) OpUrlOf :: nat where "OpUrlOf \<equiv> 18"
abbreviation (input) OpDoSetDifference :: nat where "OpDoSetDifference \<equiv> 19"
abbreviation (input) OpNilCoalesce :: nat where "OpNilCoalesce \<equiv> 20"
abbreviation (input) OpJumpIfFalse :: nat where "OpJumpIfFalse \<equiv> 21"
abbreviation (input) OpAndJump :: nat where "OpAndJump \<equiv> 22"
abbreviation (input) OpOrJump :: nat where "OpOrJump \<equiv> 23"
abbreviation (input) OpJump :: nat where "OpJump \<equiv> 24"
abbreviation (input) OpPopJumpIfTestDisabled :: nat where "OpPopJumpIfTestDisabled \<equiv> 25"
abbreviation (input) OpPushNil :: nat where "OpPushNil \<equiv> 26"
abbreviation (input) OpCreateList :: nat where "OpCreateList \<equiv> 27"
abbreviation (input) OpCreateListDynLen :: nat where "OpCreateListDynLen \<equiv> 28"
abbreviation (input) OpCreateKeyList :: nat where "OpCreateKeyList \<equiv> 29"
abbreviation (input) OpCreateTuple :: nat where "OpCreateTuple \<equiv> 30"
abbreviation (input) OpCreateObject :: nat where "OpCreateObject \<equiv> 31"
abbreviation (input) OpCreateRecord :: nat where "OpCreateRecord \<equiv> 32"
abbreviation (input) OpCreateDict :: nat where "OpCreateDict \<equiv> 33"
abbreviation (input) OpCreateMapping :: nat where "OpCreateMapping \<equiv> 34"
abbreviation (input) OpCreateTreedata :: nat where "OpCreateTreedata \<equiv> 35"
abbreviation (input) OpCreateTreedataHiearchyEntry :: nat where "OpCreateTreedataHiearchyEntry \<equiv> 36"
abbreviation (input) OpCreateOrderedPair :: nat where "OpCreateOrderedPair \<equiv> 37"
abbreviation (input) OpCreateStruct :: nat where "OpCreateStruct \<equiv> 38"
abbreviation (input) OpSpreadObject :: nat where "OpSpreadObject \<equiv> 39"
abbreviation (input) OpExtractProps :: nat where "OpExtractProps \<equiv> 40"
abbreviation (input) OpSpreadList :: nat where "OpSpreadList \<equiv> 41"
abbreviation (input) OpSpreadTuple :: nat where "OpSpreadTuple \<equiv> 42"
abbreviation (input) OpAppend :: nat where "OpAppend \<equiv> 43"
abbreviation (input) OpCreateListPattern :: nat where "OpCreateListPattern \<equiv> 44"
abbreviation (input) OpCreateTuplePattern :: nat where "OpCreateTuplePattern \<equiv> 45"
abbreviation (input) OpCreateObjectPattern :: nat where "OpCreateObjectPattern \<equiv> 46"
abbreviation (input) OpCreateRecordPattern :: nat where "OpCreateRecordPattern \<equiv> 47"
abbreviation (input) OpCreateOptionPattern :: nat where "OpCreateOptionPattern \<equiv> 48"
abbreviation (input) OpCreateUnionPattern :: nat where "OpCreateUnionPattern \<equiv> 49"
abbreviation (input) OpCreateStringUnionPattern :: nat where "OpCreateStringUnionPattern \<equiv> 50"
abbreviation (input) OpCreateRepeatedPatternElement :: nat where "OpCreateRepeatedPatternElement \<equiv> 51"
abbreviation (input) OpCreateSequenceStringPattern :: nat where "OpCreateSequenceStringPattern \<equiv> 52"
abbreviation (input) OpCreatePatternNamespace :: nat where "OpCreatePatternNamespace \<equiv> 53"
abbreviation (input) OpCreateOptionalPattern :: nat where "OpCreateOptionalPattern \<equiv> 54"
abbreviation (input) OpToPattern :: nat where "OpToPattern \<equiv> 55"
abbreviation (input) OpToBool :: nat where "OpToBool \<equiv> 56"
abbreviation (input) OpCreateString :: nat where "OpCreateString \<equiv> 57"
abbreviation (input) OpCreateOption :: nat where "OpCreateOption \<equiv> 58"
abbreviation (input) OpCreatePath :: nat where "OpCreatePath \<equiv> 59"
abbreviation (input) OpCreatePathPattern :: nat where "OpCreatePathPattern \<equiv> 60"
abbreviation (input) OpCreateURL :: nat where "OpCreateURL \<equiv> 61"
abbreviation (input) OpCreateHost :: nat where "OpCreateHost \<equiv> 62"
abbreviation (input) OpCreateRuneRange :: nat where "OpCreateRuneRange \<equiv> 63"
abbreviation (input) OpCreateIntRange :: nat where "OpCreateIntRange \<equiv> 64"
abbreviation (input) OpCreateFloatRange :: nat where "OpCreateFloatRange \<equiv> 65"
abbreviation (input) OpCreateUpperBoundRange :: nat where "OpCreateUpperBoundRange \<equiv> 66"
abbreviation (input) OpCreateTestSuite :: nat where "OpCreateTestSuite \<equiv> 67"
abbreviation (input) OpCreateTestCase :: nat where "OpCreateTestCase \<equiv> 68"
abbreviation (input) OpAddTestSuiteResult :: nat where "OpAddTestSuiteResult \<equiv> 69"
abbreviation (input) OpAddTestCaseResult :: nat where "OpAddTestCaseResult \<equiv> 70"
abbreviation (input) OpCreateLifetimeJob :: nat where "OpCreateLifetimeJob \<equiv> 71"
abbreviation (input) OpCreateReceptionHandler :: nat where "OpCreateReceptionHandler \<equiv> 72"
abbreviation (input) OpCreateXMLelem :: nat where "OpCreateXMLelem \<equiv> 73"
abbreviation (input) OpCreateAddTypeExtension :: nat where "OpCreateAddTypeExtension \<equiv> 74"
abbreviation (input) OpAllocStruct :: nat where "OpAllocStruct \<equiv> 75"
abbreviation (input) OpSendValue :: nat where "OpSendValue \<equiv> 76"
abbreviation (input) OpSpreadObjectPattern :: nat where "OpSpreadObjectPattern \<equiv> 77"
abbreviation (input) OpSpreadRecordPattern :: nat where "OpSpreadRecordPattern \<equiv> 78"
abbreviation (input) BindCapturedLocals :: nat where "BindCapturedLocals \<equiv> 79"
abbreviation (input) OpCall :: nat where "OpCall \<equiv> 80"
abbreviation (input) OpReturn :: nat where "OpReturn \<equiv> 81"
abbreviation (input) OpCallFromXMLFactory :: nat where "OpCallFromXMLFactory \<equiv> 82"
abbreviation (input) OpYield :: nat where "OpYield \<equiv> 83"
abbreviation (input) OpCallPattern :: nat where "OpCallPattern \<equiv> 84"
abbreviation (input) OpDropPerms :: nat where "OpDropPerms \<equiv> 85"
abbreviation (input) OpSpawnLThread :: nat where "OpSpawnLThread \<equiv> 86"
abbreviation (input) OpImport :: nat where "OpImport \<equiv> 87"
abbreviation (input) OpGetGlobal :: nat where "OpGetGlobal \<equiv> 88"
abbreviation (input) OpSetGlobal :: nat where "OpSetGlobal \<equiv> 89"
abbreviation (input) OpGetLocal :: nat where "OpGetLocal \<equiv> 90"
abbreviation (input) OpSetLocal :: nat where "OpSetLocal \<equiv> 91"
abbreviation (input) OpGetSelf :: nat where "OpGetSelf \<equiv> 92"
abbreviation (input) OpSetSelf :: nat where "OpSetSelf \<equiv> 93"
abbreviation (input) OpResolveHost :: nat where "OpResolveHost \<equiv> 94"
abbreviation (input) OpResolvePattern :: nat where "OpResolvePattern \<equiv> 95"
abbreviation (input) OpAddPattern :: nat where "OpAddPattern \<equiv> 96"
abbreviation (input) OpResolvePatternNamespace :: nat where "OpResolvePatternNamespace \<equiv> 97"
abbreviation (input) OpAddPatternNamespace :: nat where "OpAddPatternNamespace \<equiv> 98"
abbreviation (input) OpPatternNamespaceMemb :: nat where "OpPatternNamespaceMemb \<equiv> 99"
abbreviation (input) OpSetMember :: nat where "OpSetMember \<equiv> 100"
abbreviation (input) OpSetIndex :: nat where "OpSetIndex \<equiv> 101"
abbreviation (input) OpSetSlice :: nat where "OpSetSlice \<equiv> 102"
abbreviation (input) OpSetBoolField :: nat where "OpSetBoolField \<equiv> 103"
abbreviation (input) OpSetIntField :: nat where "OpSetIntField \<equiv> 104"
abbreviation (input) OpSetFloatField :: nat where "OpSetFloatField \<equiv> 105"
abbreviation (input) OpSetStructPtrField :: nat where "OpSetStructPtrField \<equiv> 106"
abbreviation (input) OpIterInit :: nat where "OpIterInit \<equiv> 107"
abbreviation (input) OpIterNext :: nat where "OpIterNext \<equiv> 108"
abbreviation (input) OpIterNextChunk :: nat where "OpIterNextChunk \<equiv> 109"
abbreviation (input) OpIterKey :: nat where "OpIterKey \<equiv> 110"
abbreviation (input) OpIterValue :: nat where "OpIterValue \<equiv> 111"
abbreviation (input) OpIterPrune :: nat where "OpIterPrune \<equiv> 112"
abbreviation (input) OpWalkerInit :: nat where "OpWalkerInit \<equiv> 113"
abbreviation (input) OpIntBin :: nat where "OpIntBin \<equiv> 114"
abbreviation (input) OpFloatBin :: nat where "OpFloatBin \<equiv> 115"
abbreviation (input) OpNumBin :: nat where "OpNumBin \<equiv> 116"
abbreviation (input) OpPseudoArith :: nat where "OpPseudoArith \<equiv> 117"
abbreviation (input) OpLess :: nat where "OpLess \<equiv> 118"
abbreviation (input) OpLessEqual :: nat where "OpLessEqual \<equiv> 119"
abbreviation (input) OpGreater :: nat where "OpGreater \<equiv> 120"
abbreviation (input) OpGreaterEqual :: nat where "OpGreaterEqual \<equiv> 121"
abbreviation (input) OptStrQueryParamVal :: nat where "OptStrQueryParamVal \<equiv> 122"
abbreviation (input) OpStrConcat :: nat where "OpStrConcat \<equiv> 123"
abbreviation (input) OpConcatStrLikes :: nat where "OpConcatStrLikes \<equiv> 124"
abbreviation (input) OpConcatBytesLikes :: nat where "OpConcatBytesLikes \<equiv> 125"
abbreviation (input) OpConcatTuples :: nat where "OpConcatTuples \<equiv> 126"
abbreviation (input) OpRange :: nat where "OpRange \<equiv> 127"
abbreviation (input) OpMemb :: nat where "OpMemb \<equiv> 128"
abbreviation (input) OpGetBoolField :: nat where "OpGetBoolField \<equiv> 129"
abbreviation (input) OpGetIntField :: nat where "OpGetIntField \<equiv> 130"
abbreviation (input) OpGetFloatField :: nat where "OpGetFloatField \<equiv> 131"
abbreviation (input) OpGetStructPtrField :: nat where "OpGetStructPtrField \<equiv> 132"
abbreviation (input) OpObjPropNotStored :: nat where "OpObjPropNotStored \<equiv> 133"
abbreviation (input) OpExtensionMethod :: nat where "OpExtensionMethod \<equiv> 134"
abbreviation (input) OpOptionalMemb :: nat where "OpOptionalMemb \<equiv> 135"
abbreviation (input) OpComputedMemb :: nat where "OpComputedMemb \<equiv> 136"
abbreviation (input) OpDynMemb :: nat where "OpDynMemb \<equiv> 137"
abbreviation (input) OpAt :: nat where "OpAt \<equiv> 138"
abbreviation (input) OpSafeAt :: nat where "OpSafeAt \<equiv> 139"
abbreviation (input) OpSlice :: nat where "OpSlice \<equiv> 140"
abbreviation (input) OpLoadDBVal :: nat where "OpLoadDBVal \<equiv> 141"
abbreviation (input) OpAssert :: nat where "OpAssert \<equiv> 142"
abbreviation (input) OpBlockLock :: nat where "OpBlockLock \<equiv> 143"
abbreviation (input) OpBlockUnlock :: nat where "OpBlockUnlock \<equiv> 144"
abbreviation (input) OpRuntimeTypecheck :: nat where "OpRuntimeTypecheck \<equiv> 145"
abbreviation (input) OpPushIncludedChunk :: nat where "OpPushIncludedChunk \<equiv> 146"
abbreviation (input) OpPopIncludedChunk :: nat where "OpPopIncludedChunk \<equiv> 147"
abbreviation (input) OpNoOp :: nat where "OpNoOp \<equiv> 148"
abbreviation (input) OpSuspendVM :: nat where "OpSuspendVM \<equiv> 149"

text \<open>The block of constants, in the order that numbers them.\<close>

definition opcodes :: "nat list" where
  "opcodes = [
     OpPushConstant, OpPop, OpCopyTop, OpSwap, OpMoveThirdTop, OpPushTrue, OpPushFalse,
     OpEqual, OpNotEqual, OpIs, OpIsNot, OpMinus, OpBooleanNot, OpMatch, OpGroupMatch, OpIn,
     OpSubstrOf, OpKeyOf, OpUrlOf, OpDoSetDifference, OpNilCoalesce, OpJumpIfFalse, OpAndJump,
     OpOrJump, OpJump, OpPopJumpIfTestDisabled, OpPushNil, OpCreateList, OpCreateListDynLen,
     OpCreateKeyList, OpCreateTuple, OpCreateObject, OpCreateRecord, OpCreateDict,
     OpCreateMapping, OpCreateTreedata, OpCreateTreedataHiearchyEntry, OpCreateOrderedPair,
     OpCreateStruct, OpSpreadObject, OpExtractProps, OpSpreadList, OpSpreadTuple, OpAppend,
     OpCreateListPattern, OpCreateTuplePattern, OpCreateObjectPattern, OpCreateRecordPattern,
     OpCreateOptionPattern, OpCreateUnionPattern, OpCreateStringUnionPattern,
     OpCreateRepeatedPatternElement, OpCreateSequenceStringPattern, OpCreatePatternNamespace,
     OpCreateOptionalPattern, OpToPattern, OpToBool, OpCreateString, OpCreateOption,
     OpCreatePath, OpCreatePathPattern, OpCreateURL, OpCreateHost, OpCreateRuneRange,
     OpCreateIntRange, OpCreateFloatRange, OpCreateUpperBoundRange, OpCreateTestSuite,
     OpCreateTestCase, OpAddTestSuiteResult, OpAddTestCaseResult, OpCreateLifetimeJob,
     OpCreateReceptionHandler, OpCreateXMLelem, OpCreateAddTypeExtension, OpAllocStruct,
     OpSendValue, OpSpreadObjectPattern, OpSpreadRecordPattern, BindCapturedLocals, OpCall,
     OpReturn, OpCallFromXMLFactory, OpYield, OpCallPattern, OpDropPerms, OpSpawnLThread,
     OpImport, OpGetGlobal, OpSetGlobal, OpGetLocal, OpSetLocal, OpGetSelf, OpSetSelf,
     OpResolveHost, OpResolvePattern, OpAddPattern, OpResolvePatternNamespace,
     OpAddPatternNamespace, OpPatternNamespaceMemb, OpSetMember, OpSetIndex, OpSetSlice,
     OpSetBoolField, OpSetIntField, OpSetFloatField, OpSetStructPtrField, OpIterInit,
     OpIterNext, OpIterNextChunk, OpIterKey, OpIterValue, OpIterPrune, OpWalkerInit, OpIntBin,
     OpFloatBin, OpNumBin, OpPseudoArith, OpLess, OpLessEqual, OpGreater, OpGreaterEqual,
     OptStrQueryParamVal, OpStrConcat, OpConcatStrLikes, OpConcatBytesLikes, OpConcatTuples,
     OpRange, OpMemb, OpGetBoolField, OpGetIntField, OpGetFloatField, OpGetStructPtrField,
     OpObjPropNotStored, OpExtensionMethod, OpOptionalMemb, OpComputedMemb, OpDynMemb, OpAt,
     OpSafeAt, OpSlice, OpLoadDBVal, OpAssert, OpBlockLock, OpBlockUnlock, OpRuntimeTypecheck,
     OpPushIncludedChunk, OpPopIncludedChunk, OpNoOp, OpSuspendVM]"

definition OpcodeNames_table :: "(nat \<times> string) list" where
  "OpcodeNames_table = [
     (OpPushConstant, ''PUSH_CONST''), (OpPop, ''POP''), (OpCopyTop, ''COPY_TOP''),
     (OpSwap, ''SWAP''), (OpMoveThirdTop, ''SWAP_THIRD''), (OpPushTrue, ''PUSH_TRUE''),
     (OpPushFalse, ''PUSH_FALSE''), (OpEqual, ''EQUAL''), (OpNotEqual, ''NOT_EQUAL''),
     (OpIs, ''IS''), (OpIsNot, ''IS_NOT''), (OpMinus, ''NEG''), (OpBooleanNot, ''NOT''),
     (OpMatch, ''MATCH''), (OpGroupMatch, ''GRP_MATCH''), (OpIn, ''IN''),
     (OpSubstrOf, ''SUBSTR_OF''), (OpKeyOf, ''KEY_OF''), (OpUrlOf, ''URL_OF''),
     (OpDoSetDifference, ''DO_SET_DIFF''), (OpNilCoalesce, ''NIL_COALESCE''),
     (OpJumpIfFalse, ''JUMP_IFF''), (OpAndJump, ''AND_JUMP''), (OpOrJump, ''OR_JUMP''),
     (OpJump, ''JUMP''), (OpPopJumpIfTestDisabled, ''PJUMP_IF_TDISABLED''),
     (OpPushNil, ''PUSH_NIL''), (OpCreateList, ''CRT_LST''),
     (OpCreateListDynLen, ''CRT_LST_DYN_LEN''), (OpCreateKeyList, ''CRT_KLST''),
     (OpCreateTuple, ''CRT_TUPLE''), (OpCreateObject, ''CRT_OBJ''),
     (OpCreateRecord, ''CRT_REC''), (OpCreateDict, ''CRT_DICT''),
     (OpCreateMapping, ''CRT_MPG''), (OpCreateTreedata, ''CRT_UDAT''),
     (OpCreateTreedataHiearchyEntry, ''CRT_UDHE''), (OpCreateOrderedPair, ''CRT_OPAIR''),
     (OpCreateStruct, ''CRT_STRUCT''), (OpSpreadObject, ''SPREAD_OBJ''),
     (OpExtractProps, ''EXTR_PROPS''), (OpSpreadList, ''SPREAD_LST''),
     (OpSpreadTuple, ''SPREAD_TPL''), (OpAppend, ''APPEND''),
     (OpCreateListPattern, ''CRT_LSTP''), (OpCreateTuplePattern, ''CRT_TPLP''),
     (OpCreateObjectPattern, ''CRT_OBJP''), (OpCreateRecordPattern, ''CRT_RECP''),
     (OpCreateOptionPattern, ''CRT_OPTP''), (OpCreateUnionPattern, ''CRT_UP''),
     (OpCreateStringUnionPattern, ''CRT_SUP''), (OpCreateRepeatedPatternElement, ''CRT_RPE''),
     (OpCreateSequenceStringPattern, ''CRT_SSP''), (OpCreatePatternNamespace, ''CRT_PNS''),
     (OpToPattern, ''TO_PATT''), (OpCreateOptionalPattern, ''CRT_OPTP''),
     (OpToBool, ''TO_BOOL''), (OpCreateString, ''CRT_STR''), (OpCreateOption, ''CRT_OPT''),
     (OpCreatePath, ''CRT_PATH''), (OpCreatePathPattern, ''CRT_PATHP''),
     (OpCreateURL, ''CRT_URL''), (OpCreateHost, ''CRT_HST''),
     (OpCreateRuneRange, ''CRT_RUNERG''), (OpCreateIntRange, ''CRT_INTRG''),
     (OpCreateFloatRange, ''CRT_FLOATRG''), (OpCreateUpperBoundRange, ''CRT_UBRG''),
     (OpCreateTestSuite, ''CRT_TSTS''), (OpCreateTestCase, ''CRT_TSTC''),
     (OpAddTestSuiteResult, ''ADD_TST_RES''), (OpAddTestCaseResult, ''ADD_TSTC_RES''),
     (OpCreateLifetimeJob, ''CRT_LFJOB''), (OpCreateReceptionHandler, ''CRT_RHANDLER''),
     (OpCreateXMLelem, ''CRT_XML_ELEM''), (OpCreateAddTypeExtension, ''CRT_ADD_TYPE_EXT''),
     (OpAllocStruct, ''ALLOC_STRUCT''), (OpSendValue, ''SEND_VAL''),
     (OpSpreadObjectPattern, ''SPRD_OBJP''), (OpSpreadRecordPattern, ''SPRD_RECP''),
     (BindCapturedLocals, ''BIND_LOCS''), (OpGetGlobal, ''GET_GLOBAL''),
     (OpSetGlobal, ''SET_GLOBAL''), (OpSetMember, ''SET_MEMBER''), (OpSetIndex, ''SET_INDEX''),
     (OpSetSlice, ''SET_SLICE''), (OpSetBoolField, ''SET_BOOL_FIELD''),
     (OpSetIntField, ''SET_INT_FIELD''), (OpSetFloatField, ''SET_FLOAT_FIELD''),
     (OpSetStructPtrField, ''SET_STRUCT_PTR_FIELD''), (OpCall, ''CALL''),
     (OpReturn, ''RETURN''), (OpCallFromXMLFactory, ''CALL_FXML_FACTORY''),
     (OpYield, ''YIELD''), (OpCallPattern, ''CALL_PATT''), (OpDropPerms, ''DROP_PERMS''),
     (OpSpawnLThread, ''SPAWN_LTHREAD''), (OpImport, ''IMPORT''), (OpGetLocal, ''GET_LOCAL''),
     (OpSetLocal, ''SET_LOCAL''), (OpGetSelf, ''GET_SELF''), (OpSetSelf, ''SET_SELF''),
     (OpResolveHost, ''RSLV_HOST''), (OpResolvePattern, ''RSLV_PATT''),
     (OpAddPattern, ''ADD_PATT''), (OpResolvePatternNamespace, ''RSLV_PNS''),
     (OpAddPatternNamespace, ''ADD_PATTNS''), (OpPatternNamespaceMemb, ''PNS_MEMB''),
     (OpIterInit, ''ITER_INIT''), (OpIterNext, ''ITER_NEXT''),
     (OpIterNextChunk, ''ITER_NEXT_CHUNK''), (OpIterKey, ''ITER_KEY''),
     (OpIterValue, ''ITER_VAL''), (OpIterPrune, ''ITER_PRUNE''),
     (OpWalkerInit, ''DWALK_INIT''), (OpIntBin, ''INT_BIN''), (OpFloatBin, ''FLOAT_BIN''),
     (OpNumBin, ''NUM_BIN''), (OpPseudoArith, ''PSEUDO_ARITH''), (OpLess, ''OP_LESS''),
     (OpLessEqual, ''OP_LESS_EQUAL''), (OpGreater, ''OP_GREATER''),
     (OpGreaterEqual, ''OP_GREATER_EQUAL''), (OpStrConcat, ''STR_CONCAT''),
     (OptStrQueryParamVal, ''STRINGIFY_QPARAM''), (OpConcatStrLikes, ''CONCAT_STR_LIKES''),
     (OpConcatBytesLikes, ''CONCAT_BYTES''), (OpConcatTuples, ''CONCAT_TUPLES''),
     (OpRange, ''RANGE''), (OpMemb, ''MEMB''), (OpGetBoolField, ''GET_BOOL_FIELD''),
     (OpGetIntField, ''GET_INT_FIELD''), (OpGetFloatField, ''GET_FLOAT_FIELD''),
     (OpGetStructPtrField, ''GET_STRUCT_PTR_FIELD''),
     (OpObjPropNotStored, ''OBJ_PROP_NOT_STORED''), (OpExtensionMethod, ''EXT_METHOD''),
     (OpOptionalMemb, ''OPT_MEMB''), (OpComputedMemb, ''COMPUTED_MEMB''),
     (OpDynMemb, ''DYN_MEMB''), (OpAt, ''AT''), (OpSafeAt, ''SAFE_AT''), (OpSlice, ''SLICE''),
     (OpLoadDBVal, ''LOAD_DB_VAL''), (OpAssert, ''ASSERT''), (OpBlockLock, ''BLOCK_LOCK''),
     (OpBlockUnlock, ''BLOCK_LOCK''), (OpRuntimeTypecheck, ''TYPECHECK''),
     (OpPushIncludedChunk, ''PUSH_CHUNK''), (OpPopIncludedChunk, ''POP_CHUNK''),
     (OpNoOp, ''NO_OP''), (OpSuspendVM, ''SUSPEND'')]"

definition OpcodeOperands_table :: "(nat \<times> nat list) list" where
  "OpcodeOperands_table = [
     (OpPushConstant, [2]), (OpPop, []), (OpCopyTop, []), (OpSwap, []), (OpMoveThirdTop, []),
     (OpPushTrue, []), (OpPushFalse, []), (OpEqual, []), (OpNotEqual, []), (OpIs, []),
     (OpIsNot, []), (OpMinus, []), (OpBooleanNot, []), (OpMatch, []), (OpGroupMatch, [2]),
     (OpIn, []), (OpSubstrOf, []), (OpKeyOf, []), (OpUrlOf, []), (OpDoSetDifference, []),
     (OpNilCoalesce, []), (OpJumpIfFalse, [2]), (OpAndJump, [2]), (OpOrJump, [2]),
     (OpJump, [2]), (OpPopJumpIfTestDisabled, [2]), (OpPushNil, []), (OpGetGlobal, [2]),
     (OpSetGlobal, [2]), (OpCreateList, [2]), (OpCreateListDynLen, []), (OpCreateKeyList, [2]),
     (OpCreateTuple, [2]), (OpCreateObject, [2, 2]), (OpCreateRecord, [2]),
     (OpCreateDict, [2]), (OpCreateMapping, [2]), (OpCreateTreedata, [2]),
     (OpCreateTreedataHiearchyEntry, [2]), (OpCreateOrderedPair, []), (OpCreateStruct, [2, 1]),
     (OpSpreadObject, []), (OpExtractProps, [2]), (OpSpreadList, []), (OpSpreadTuple, []),
     (OpAppend, [2]), (OpCreateListPattern, [2, 1]), (OpCreateTuplePattern, [2, 1]),
     (OpCreateObjectPattern, [2, 1]), (OpCreateRecordPattern, [2, 1]),
     (OpCreateOptionPattern, [2]), (OpCreateUnionPattern, [2]),
     (OpCreateStringUnionPattern, [2]), (OpCreateRepeatedPatternElement, [1, 1]),
     (OpCreateSequenceStringPattern, [1, 2, 2]), (OpCreatePatternNamespace, []),
     (OpToPattern, []), (OpCreateOptionalPattern, []), (OpToBool, []),
     (OpCreateString, [1, 1, 2]), (OpCreateOption, [2]), (OpCreatePath, [1, 2]),
     (OpCreatePathPattern, [1, 2]), (OpCreateURL, [2]), (OpCreateHost, [2]),
     (OpCreateRuneRange, []), (OpCreateIntRange, []), (OpCreateFloatRange, []),
     (OpCreateUpperBoundRange, []), (OpCreateTestSuite, [2, 2]), (OpCreateTestCase, [2, 2]),
     (OpAddTestSuiteResult, []), (OpAddTestCaseResult, []), (OpCreateLifetimeJob, [2, 2]),
     (OpCreateReceptionHandler, []), (OpCreateXMLelem, [2, 1, 2, 1]),
     (OpCreateAddTypeExtension, [2]), (OpAllocStruct, [2, 2]), (OpSendValue, []),
     (OpSpreadObjectPattern, []), (OpSpreadRecordPattern, []), (BindCapturedLocals, [1]),
     (OpCall, [1, 1, 1]), (OpReturn, [1]), (OpYield, [1]), (OpCallPattern, [1]),
     (OpDropPerms, []), (OpSpawnLThread, [1, 2, 2, 2]), (OpImport, [2]), (OpGetLocal, [1]),
     (OpSetLocal, [1]), (OpGetSelf, []), (OpSetSelf, []), (OpResolveHost, [2]),
     (OpResolvePattern, [2]), (OpAddPattern, [2]), (OpResolvePatternNamespace, [2]),
     (OpAddPatternNamespace, [2]), (OpPatternNamespaceMemb, [2, 2]), (OpSetMember, [2]),
     (OpSetIndex, []), (OpSetSlice, []), (OpSetBoolField, [2, 2]), (OpSetIntField, [2, 2]),
     (OpSetFloatField, [2, 2]), (OpSetStructPtrField, [2, 2]), (OpIterInit, [1]),
     (OpIterNext, [1]), (OpIterNextChunk, [1]), (OpIterKey, []), (OpIterValue, [1]),
     (OpIterPrune, [1]), (OpWalkerInit, []), (OpIntBin, [1]), (OpFloatBin, [1]),
     (OpNumBin, [1]), (OpPseudoArith, [1]), (OpLess, []), (OpLessEqual, []), (OpGreater, []),
     (OpGreaterEqual, []), (OpStrConcat, []), (OptStrQueryParamVal, []),
     (OpConcatStrLikes, [2, 2]), (OpConcatBytesLikes, [2, 2]), (OpConcatTuples, [2, 2]),
     (OpRange, [1]), (OpMemb, [2]), (OpGetBoolField, [2, 2]), (OpGetIntField, [2, 2]),
     (OpGetFloatField, [2, 2]), (OpGetStructPtrField, [2, 2]), (OpObjPropNotStored, [2]),
     (OpExtensionMethod, [2, 2]), (OpOptionalMemb, [2]), (OpComputedMemb, []),
     (OpDynMemb, [2]), (OpAt, []), (OpSafeAt, []), (OpSlice, []), (OpLoadDBVal, []),
     (OpAssert, [2]), (OpBlockLock, [1]), (OpBlockUnlock, []), (OpRuntimeTypecheck, [2]),
     (OpPushIncludedChunk, [2]), (OpPopIncludedChunk, []), (OpNoOp, []), (OpSuspendVM, [])]"

definition OpcodeConstantIndexes_table :: "(nat \<times> bool list) list" where
  "OpcodeConstantIndexes_table = [
     (OpPushConstant, [True]), (OpPop, []), (OpCopyTop, []), (OpSwap, []),
     (OpMoveThirdTop, []), (OpPushTrue, []), (OpPushFalse, []), (OpEqual, []),
     (OpNotEqual, []), (OpIs, []), (OpIsNot, []), (OpMinus, []), (OpBooleanNot, []),
     (OpMatch, []), (OpGroupMatch, [False]), (OpIn, []), (OpSubstrOf, []), (OpKeyOf, []),
     (OpUrlOf, []), (OpDoSetDifference, []), (OpNilCoalesce, []), (OpJumpIfFalse, [False]),
     (OpAndJump, [False]), (OpOrJump, [False]), (OpJump, [False]),
     (OpPopJumpIfTestDisabled, [False]), (OpPushNil, []), (OpGetGlobal, [True]),
     (OpSetGlobal, [True]), (OpCreateList, [False]), (OpCreateListDynLen, []),
     (OpCreateKeyList, [False]), (OpCreateTuple, [False]), (OpCreateObject, [False, True]),
     (OpCreateRecord, [False]), (OpCreateDict, [False]), (OpCreateMapping, [True]),
     (OpCreateTreedata, [False]), (OpCreateTreedataHiearchyEntry, [False]),
     (OpCreateOrderedPair, []), (OpCreateStruct, [True, False]), (OpSpreadObject, []),
     (OpExtractProps, [True]), (OpSpreadList, []), (OpSpreadTuple, []), (OpAppend, [False]),
     (OpCreateListPattern, [False, False]), (OpCreateTuplePattern, [False, False]),
     (OpCreateObjectPattern, [False, False]), (OpCreateRecordPattern, [False, False]),
     (OpCreateOptionPattern, [True]), (OpCreateUnionPattern, [False]),
     (OpCreateStringUnionPattern, [False]), (OpCreateRepeatedPatternElement, [False, False]),
     (OpCreateSequenceStringPattern, [False, True, True]), (OpCreatePatternNamespace, []),
     (OpToPattern, []), (OpCreateOptionalPattern, []), (OpToBool, []),
     (OpCreateString, [False, False, True]), (OpCreateOption, [True]),
     (OpCreatePath, [False, True]), (OpCreatePathPattern, [False, True]),
     (OpCreateURL, [True]), (OpCreateHost, [True]), (OpCreateRuneRange, []),
     (OpCreateIntRange, []), (OpCreateFloatRange, []), (OpCreateUpperBoundRange, []),
     (OpCreateTestSuite, [True, True]), (OpCreateTestCase, [True, True]),
     (OpAddTestSuiteResult, []), (OpAddTestCaseResult, []),
     (OpCreateLifetimeJob, [True, True]), (OpCreateReceptionHandler, []),
     (OpCreateXMLelem, [True, False, True, False]), (OpCreateAddTypeExtension, [True]),
     (OpAllocStruct, [False, False]), (OpSendValue, []), (OpSpreadObjectPattern, []),
     (OpSpreadRecordPattern, []), (BindCapturedLocals, [False]),
     (OpCall, [False, False, False]), (OpReturn, [False]), (OpCallFromXMLFactory, []),
     (OpYield, [False]), (OpCallPattern, [False]), (OpDropPerms, []),
     (OpSpawnLThread, [False, True, True, True]), (OpImport, [True]), (OpGetLocal, [False]),
     (OpSetLocal, [False]), (OpGetSelf, []), (OpSetSelf, []), (OpResolveHost, [True]),
     (OpResolvePattern, [True]), (OpAddPattern, [True]), (OpResolvePatternNamespace, [True]),
     (OpAddPatternNamespace, [True]), (OpPatternNamespaceMemb, [True, True]),
     (OpSetMember, [True]), (OpSetIndex, []), (OpSetSlice, []),
     (OpSetBoolField, [False, False]), (OpSetIntField, [False, False]),
     (OpSetFloatField, [False, False]), (OpSetStructPtrField, [False, False]),
     (OpIterInit, [False]), (OpIterNext, [False]), (OpIterNextChunk, [False]), (OpIterKey, []),
     (OpIterValue, [False]), (OpIterPrune, [False]), (OpWalkerInit, []), (OpIntBin, [False]),
     (OpFloatBin, [False]), (OpNumBin, [False]), (OpPseudoArith, [False]), (OpLess, []),
     (OpLessEqual, []), (OpGreater, []), (OpGreaterEqual, []), (OpStrConcat, []),
     (OptStrQueryParamVal, []), (OpConcatStrLikes, [False, True]),
     (OpConcatBytesLikes, [False, True]), (OpConcatTuples, [False, True]), (OpRange, [False]),
     (OpMemb, [True]), (OpGetBoolField, [False, False]), (OpGetIntField, [False, False]),
     (OpGetFloatField, [False, False]), (OpGetStructPtrField, [False, False]),
     (OpObjPropNotStored, [True]), (OpExtensionMethod, [True, True]), (OpOptionalMemb, [True]),
     (OpComputedMemb, []), (OpDynMemb, [True]), (OpAt, []), (OpSafeAt, []), (OpSlice, []),
     (OpLoadDBVal, []), (OpAssert, [True]), (OpBlockLock, [False]), (OpBlockUnlock, []),
     (OpRuntimeTypecheck, [True]), (OpPushIncludedChunk, [True]), (OpPopIncludedChunk, []),
     (OpNoOp, []), (OpSuspendVM, [])]"

section \<open>Looking up a table\<close>

definition array_len :: "(nat \<times> 'a) list \<Rightarrow> nat" where
  "array_len tbl = fold (\<lambda>(k, _) n. max (Suc k) n) tbl 0"

text \<open>\<open>arr[i]\<close>; \<open>None\<close> is the run-time panic for an index out of range.\<close>

definition array_index :: "'a \<Rightarrow> (nat \<times> 'a) list \<Rightarrow> nat \<Rightarrow> 'a option" where
  "array_index zero tbl i =
    (if i < array_len tbl then Some (case map_of tbl i of Some v \<Rightarrow> v | None \<Rightarrow> zero) else None)"

definition OpcodeNames :: "nat \<Rightarrow> string option" where
  "OpcodeNames = array_index [] OpcodeNames_table"

definition OpcodeOperands :: "nat \<Rightarrow> nat list option" where
  "OpcodeOperands = array_index [] OpcodeOperands_table"

definition OpcodeConstantIndexes :: "nat \<Rightarrow> bool list option" where
  "OpcodeConstantIndexes = array_index [] OpcodeConstantIndexes_table"

section \<open>Facts of the tables\<close>

lemma opcodes_iota: "opcodes = [0..<150]"
  by (simp add: opcodes_def upt_rec)

lemma array_lens:
  "array_len OpcodeNames_table = 150" "array_len OpcodeOperands_table = 150"
  "array_len OpcodeConstantIndexes_table = 150"
  by (simp_all add: array_len_def OpcodeNames_table_def OpcodeOperands_table_def OpcodeConstantIndexes_table_def)

lemma operands_table_widths:
  "list_all (\<lambda>(k, ws). list_all (\<lambda>w. w = 1 \<or> w = 2) ws) OpcodeOperands_table"
  by (simp add: OpcodeOperands_table_def)

text \<open>A table of widths, one of flags: they agree on the number of operands and only operands of two bytes are flagged.\<close>

definition agree :: "nat list \<Rightarrow> bool list \<Rightarrow> bool" where
  "agree ws cs \<longleftrightarrow> length ws = length cs \<and> list_all (\<lambda>(w, c). c \<longrightarrow> w = 2) (zip ws cs)"

lemma map_of_rel:
  "list_all2 (\<lambda>(k, a) (k', b). k = k' \<and> R a b) xs ys \<Longrightarrow>
   (case (map_of xs i, map_of ys i) of (Some a, Some b) \<Rightarrow> R a b | (None, None) \<Rightarrow> True | _ \<Rightarrow> False)"
  by (induction rule: list_all2_induct) auto

lemma map_of_filter_key: "i \<noteq> c \<Longrightarrow> map_of (filter (\<lambda>(k, _). k \<noteq> c) xs) i = map_of xs i"
  by (induction xs) auto

lemma tables_rows_agree:
  "list_all2 (\<lambda>(k, a) (k', b). k = k' \<and> agree a b) OpcodeOperands_table
     (filter (\<lambda>(k, _). k \<noteq> OpCallFromXMLFactory) OpcodeConstantIndexes_table)"
  by (simp add: OpcodeOperands_table_def OpcodeConstantIndexes_table_def agree_def)

lemma xml_factory_rows:
  "map_of OpcodeOperands_table OpCallFromXMLFactory = None"
  "map_of OpcodeConstantIndexes_table OpCallFromXMLFactory = Some []"
  by (simp_all add: OpcodeOperands_table_def OpcodeConstantIndexes_table_def)

lemma tables_agree:
  assumes "op < 150"
  shows "\<exists>ws cs. OpcodeOperands op = Some ws \<and> OpcodeConstantIndexes op = Some cs \<and> agree ws cs"
proof (cases "op = OpCallFromXMLFactory")
  case True
  then show ?thesis
    by (simp add: OpcodeOperands_def OpcodeConstantIndexes_def array_index_def array_lens xml_factory_rows agree_def)
next
  case False
  have "agree [] []" by (simp add: agree_def)
  then show ?thesis
    using assms map_of_rel[OF tables_rows_agree, of op] map_of_filter_key[OF False, of OpcodeConstantIndexes_table]
    by (auto simp: OpcodeOperands_def OpcodeConstantIndexes_def array_index_def array_lens split: option.splits)
qed

lemma OpcodeOperands_Some_iff: "(\<exists>ws. OpcodeOperands op = Some ws) \<longleftrightarrow> op < 150"
  by (auto simp: OpcodeOperands_def array_index_def array_lens)

lemma operand_widths:
  assumes "OpcodeOperands op = Some ws" and "w \<in> set ws"
  shows "w = 1 \<or> w = 2"
  using assms operands_table_widths
  by (fastforce simp: OpcodeOperands_def array_index_def list_all_iff split: if_splits option.splits dest: map_of_SomeD)

text \<open>A few rows, for evaluation.\<close>

lemma sample_rows:
  "OpcodeOperands OpPushConstant = Some [2]" "OpcodeOperands OpPop = Some []" "OpcodeOperands OpJump = Some [2]"
  "OpcodeOperands OpCreateXMLelem = Some [2, 1, 2, 1]"
  "OpcodeConstantIndexes OpPushConstant = Some [True]" "OpcodeConstantIndexes OpPop = Some []"
  unfolding OpcodeOperands_def OpcodeConstantIndexes_def array_index_def array_lens
  by (simp_all add: OpcodeOperands_table_def OpcodeConstantIndexes_table_def)

section \<open>Names\<close>

lemma names_rows: "map fst (sort_key fst OpcodeNames_table) = [0..<150]"
  by (simp add: OpcodeNames_table_def upt_rec)

lemma names_nonempty: "list_all (\<lambda>(k, n). n \<noteq> []) OpcodeNames_table"
  by (simp add: OpcodeNames_table_def)

lemma names_distinct:
  "distinct (map snd (filter (\<lambda>(k, _). k \<noteq> OpBlockUnlock \<and> k \<noteq> OpCreateOptionalPattern) OpcodeNames_table))"
  by (simp add: OpcodeNames_table_def)

lemma names_shared:
  "map_of OpcodeNames_table OpBlockUnlock = map_of OpcodeNames_table OpBlockLock"
  "map_of OpcodeNames_table OpCreateOptionalPattern = map_of OpcodeNames_table OpCreateOptionPattern"
  by (simp_all add: OpcodeNames_table_def)

lemma name_of_opcode:
  assumes "op < 150"
  shows "\<exists>n. (op, n) \<in> set OpcodeNames_table \<and> OpcodeNames op = Some n \<and> n \<noteq> []"
proof -
  have "fst ` set OpcodeNames_table = {0..<150}"
    using arg_cong[OF names_rows, of set] by simp
  then obtain n where n: "map_of OpcodeNames_table op = Some n"
    using assms by (metis atLeastLessThan_iff le0 map_of_eq_None_iff not_Some_eq)
  then show ?thesis
    using assms names_nonempty map_of_SomeD[OF n]
    by (auto simp: OpcodeNames_def array_index_def array_lens list_all_iff)
qed

lemma distinct_map_inj:
  assumes "distinct (map f xs)" and "x \<in> set xs" and "y \<in> set xs" and "f x = f y"
  shows "x = y"
  using assms by (metis distinct_map inj_on_def)

lemma names_inj: "inj_on OpcodeNames ({0..<150} - {OpBlockUnlock, OpCreateOptionalPattern})"
proof (rule inj_onI)
  fix op op'
  assume in_range: "op \<in> {0..<150} - {OpBlockUnlock, OpCreateOptionalPattern}" "op' \<in> {0..<150} - {OpBlockUnlock, OpCreateOptionalPattern}"
    and eq: "OpcodeNames op = OpcodeNames op'"
  obtain n where n: "(op, n) \<in> set OpcodeNames_table" "OpcodeNames op = Some n"
    using name_of_opcode[of op] in_range by auto
  obtain n' where n': "(op', n') \<in> set OpcodeNames_table" "OpcodeNames op' = Some n'"
    using name_of_opcode[of op'] in_range by auto
  have "n = n'" using eq n n' by simp
  then show "op = op'"
    using distinct_map_inj[OF names_distinct, of "(op, n)" "(op', n')"] n n' in_range by simp
qed


end
