(* ===== verification/Bytecode.thy ===== *)
theory Bytecode
  imports Opcodes
begin

unbundle bit_operations_syntax

text \<open>
  Encoding and traversal of bytecode (\<open>internal/core/bytecode.go\<close>: \<open>MakeInstruction\<close>, \<open>ReadOperands\<close>,
  \<open>MapInstructions\<close>), the instruction buffer of the compiler (\<open>internal/core/compiler.go\<close>: \<open>addInstruction\<close>,
  \<open>replaceInstruction\<close>, \<open>changeOperand\<close>, \<open>emit\<close>) and the constant deduplication of
  \<open>internal/core/optimize.go\<close>. Operands are Go integers, bytes are 8-bit words, so the truncations of
  \<open>byte(o)\<close> and \<open>uint16(o)\<close> are the real ones. A run-time panic and a returned error are values of \<open>bc_error\<close>.
\<close>

section \<open>Instructions\<close>

type_synonym code_byte = "8 word"

datatype bc_error = IndexOutOfRange | ConstIndexWidth

fun ReadOperands :: "nat list \<Rightarrow> code_byte list \<Rightarrow> nat \<Rightarrow> (int list \<times> nat) option" where
  "ReadOperands [] instruction offset = Some ([], offset)"
| "ReadOperands (width # numOperands) instruction offset =
    (if width = 1 then
       (if offset < length instruction
        then map_option (\<lambda>(os, n). (uint (instruction ! offset) # os, n)) (ReadOperands numOperands instruction (offset + width))
        else None)
     else if width = 2 then
       (if offset + 1 < length instruction
        then map_option (\<lambda>(os, n). ((uint (instruction ! (offset + 1)) OR push_bit 8 (uint (instruction ! offset))) # os, n))
               (ReadOperands numOperands instruction (offset + width))
        else None)
     else ReadOperands numOperands instruction (offset + width))"

fun put_operands :: "nat list \<Rightarrow> int list \<Rightarrow> nat \<Rightarrow> code_byte list \<Rightarrow> code_byte list option" where
  "put_operands numOperands [] offset instruction = Some instruction"
| "put_operands [] (x # operands) offset instruction = None"
| "put_operands (width # numOperands) (x # operands) offset instruction =
    (if width = 1 then put_operands numOperands operands (offset + width) (instruction[offset := word_of_int x])
     else if width = 2 then
       (let n = (word_of_int x :: 16 word) in
        put_operands numOperands operands (offset + width)
          (instruction[offset := ucast (drop_bit 8 n), offset + 1 := ucast n]))
     else put_operands numOperands operands (offset + width) instruction)"

definition MakeInstruction :: "nat \<Rightarrow> int list \<Rightarrow> code_byte list option" where
  "MakeInstruction opcode operands =
    (case OpcodeOperands opcode of
       None \<Rightarrow> None
     | Some numOperands \<Rightarrow>
         (let totalLen = 1 + sum_list numOperands;
              instruction = (replicate totalLen 0)[0 := of_nat opcode]
          in put_operands numOperands operands 1 instruction))"

section \<open>Traversal\<close>

text \<open>The callback receives the instruction, its opcode, operands, the positions of the operands that index a constant,
  these constants and the address; it threads a state and returns new bytes or an error.\<close>

type_synonym ('v, 's) InstructionCallbackFn =
  "code_byte list \<Rightarrow> nat \<Rightarrow> int list \<Rightarrow> nat list \<Rightarrow> 'v list \<Rightarrow> nat \<Rightarrow> 's \<Rightarrow> (bc_error + code_byte list) \<times> 's"

fun referredConstants :: "nat \<Rightarrow> nat list \<Rightarrow> 'v list \<Rightarrow> nat \<Rightarrow> int list \<Rightarrow> bc_error + (nat list \<times> 'v list)" where
  "referredConstants op numOperands constants j [] = Inr ([], [])"
| "referredConstants op numOperands constants j (operand # operands) =
    (case OpcodeConstantIndexes op of
       None \<Rightarrow> Inl IndexOutOfRange
     | Some flags \<Rightarrow>
         if j < length flags then
           (if flags ! j then
              (if numOperands ! j \<noteq> 2 then Inl ConstIndexWidth
               else if 0 \<le> operand \<and> nat operand < length constants then
                 map_sum id (\<lambda>(js, vs). (j # js, constants ! nat operand # vs))
                   (referredConstants op numOperands constants (Suc j) operands)
               else Inl IndexOutOfRange)
            else referredConstants op numOperands constants (Suc j) operands)
         else Inl IndexOutOfRange)"

function MapInstructions_loop ::
  "code_byte list \<Rightarrow> 'v list \<Rightarrow> ('v, 's) InstructionCallbackFn \<Rightarrow> nat \<Rightarrow> code_byte list \<Rightarrow> 's
    \<Rightarrow> (bc_error + code_byte list) \<times> 's" where
  "MapInstructions_loop b constants callbackFn i newInstructions s =
    (if i < length b then
       (let op = unat (b ! i) in
        case OpcodeOperands op of
          None \<Rightarrow> (Inl IndexOutOfRange, s)
        | Some numOperands \<Rightarrow>
            (case ReadOperands numOperands (drop (i + 1) b) 0 of
               None \<Rightarrow> (Inl IndexOutOfRange, s)
             | Some (operands, read) \<Rightarrow>
                 (case (if constants \<noteq> [] then referredConstants op numOperands constants 0 operands else Inr ([], [])) of
                    Inl e \<Rightarrow> (Inl e, s)
                  | Inr (indexes, referred) \<Rightarrow>
                      if i + 1 + read \<le> length b then
                        (case callbackFn (sub_list b i (i + 1 + read)) op operands indexes referred i s of
                           (Inl e, s') \<Rightarrow> (Inl e, s')
                         | (Inr instr, s') \<Rightarrow>
                             MapInstructions_loop b constants callbackFn (i + (1 + read)) (newInstructions @ instr) s')
                      else (Inl IndexOutOfRange, s))))
     else (Inr newInstructions, s))"
  by pat_completeness auto
termination
  by (relation "measure (\<lambda>(b, _, _, i, _). length b - i)") auto

declare MapInstructions_loop.simps [simp del]

definition MapInstructions :: "code_byte list \<Rightarrow> 'v list \<Rightarrow> ('v, 's) InstructionCallbackFn \<Rightarrow> 's
    \<Rightarrow> (bc_error + code_byte list) \<times> 's" where
  "MapInstructions b constants callbackFn s = MapInstructions_loop b constants callbackFn 0 [] s"

section \<open>Encoding and decoding\<close>

text \<open>An instruction as the compiler thinks of it: an opcode and one operand per width.\<close>

type_synonym instr = "nat \<times> int list"

definition enc_operand :: "nat \<Rightarrow> int \<Rightarrow> code_byte list" where
  "enc_operand w x = (if w = 1 then [word_of_int x]
     else [ucast (drop_bit 8 (word_of_int x :: 16 word)), ucast (word_of_int x :: 16 word)])"

definition enc_operands :: "nat list \<Rightarrow> int list \<Rightarrow> code_byte list" where
  "enc_operands ws os = concat (map2 enc_operand ws os)"

lemma length_enc_operand [simp]: "w = 1 \<or> w = 2 \<Longrightarrow> length (enc_operand w x) = w"
  by (auto simp: enc_operand_def)

lemma enc_operands_Nil [simp]: "enc_operands [] os = []" and
  enc_operands_Cons [simp]: "enc_operands (w # ws) (x # os) = enc_operand w x @ enc_operands ws os"
  by (simp_all add: enc_operands_def)

lemma length_enc_operands:
  assumes "\<And>w. w \<in> set ws \<Longrightarrow> w = 1 \<or> w = 2" and "length os = length ws"
  shows "length (enc_operands ws os) = sum_list ws"
  using assms(2,1) by (induction os ws rule: list_induct2) auto

lemma uint_byte: "uint (word_of_int x :: 8 word) = x mod 256"
  by (simp add: uint_word_of_int take_bit_eq_mod)

lemma uint_two_bytes:
  "uint (ucast (word_of_int x :: 16 word) :: 8 word) OR
   push_bit 8 (uint (ucast (drop_bit 8 (word_of_int x :: 16 word)) :: 8 word)) = x mod 65536"
proof -
  have "uint (ucast (word_of_int x :: 16 word) :: 8 word) OR
     push_bit 8 (uint (ucast (drop_bit 8 (word_of_int x :: 16 word)) :: 8 word)) = take_bit 16 x"
    by (rule bit_eqI) (auto simp: bit_simps)
  then show ?thesis by (simp add: take_bit_eq_mod)
qed

lemma put_operands_correct:
  assumes "\<And>w. w \<in> set ws \<Longrightarrow> w = 1 \<or> w = 2" and "length os = length ws"
  shows "put_operands ws os (length pre) (pre @ replicate (sum_list ws) 0) = Some (pre @ enc_operands ws os)"
  using assms(2,1)
proof (induction os ws arbitrary: pre rule: list_induct2)
  case (Cons x xs w ws)
  have w: "w = 1 \<or> w = 2" using Cons.prems by simp
  have IH: "put_operands ws xs (length pre + w) (pre @ enc_operand w x @ replicate (sum_list ws) 0)
      = Some (pre @ enc_operand w x @ enc_operands ws xs)"
    using Cons.IH[of "pre @ enc_operand w x"] Cons.prems w by simp
  show ?case
    using w IH by (auto simp: enc_operand_def list_update_append Let_def numeral_2_eq_2)
qed simp

lemma ReadOperands_enc:
  assumes "\<And>w. w \<in> set ws \<Longrightarrow> w = 1 \<or> w = 2" and "length os = length ws"
  shows "ReadOperands ws (pre @ enc_operands ws os @ rest) (length pre) =
           Some (map2 (\<lambda>w x. x mod 256 ^ w) ws os, length pre + sum_list ws)"
  using assms(2,1)
proof (induction os ws arbitrary: pre rule: list_induct2)
  case (Cons x xs w ws)
  have w: "w = 1 \<or> w = 2" using Cons.prems by simp
  have IH: "ReadOperands ws (pre @ enc_operand w x @ enc_operands ws xs @ rest) (length pre + w) =
           Some (map2 (\<lambda>w x. x mod 256 ^ w) ws xs, length pre + w + sum_list ws)"
    using Cons.IH[of "pre @ enc_operand w x"] Cons.prems w by simp
  have two: "256 ^ 2 = (65536 :: int)" by simp
  show ?case
    using w IH by (auto simp: enc_operand_def nth_append uint_byte uint_two_bytes two)
qed simp

definition valid_instr :: "instr \<Rightarrow> bool" where
  "valid_instr x \<longleftrightarrow> (case OpcodeOperands (fst x) of
      None \<Rightarrow> False
    | Some ws \<Rightarrow> length (snd x) = length ws \<and> list_all2 (\<lambda>w o'. 0 \<le> o' \<and> o' < 256 ^ w) ws (snd x))"

definition enc :: "instr \<Rightarrow> code_byte list" where
  "enc x = of_nat (fst x) # enc_operands (the (OpcodeOperands (fst x))) (snd x)"

lemma MakeInstruction_enc:
  assumes "OpcodeOperands op = Some ws" and "length os = length ws"
  shows "MakeInstruction op os = Some (enc (op, os))"
proof -
  have "put_operands ws os (length [of_nat op :: code_byte]) ([of_nat op] @ replicate (sum_list ws) 0)
      = Some ([of_nat op] @ enc_operands ws os)"
    by (rule put_operands_correct) (use operand_widths[OF assms(1)] assms(2) in auto)
  then show ?thesis using assms(1) by (simp add: MakeInstruction_def enc_def Let_def)
qed

lemma length_enc:
  assumes "OpcodeOperands op = Some ws" and "length os = length ws"
  shows "length (enc (op, os)) = 1 + sum_list ws"
  using assms length_enc_operands[of ws os] operand_widths[OF assms(1)] by (simp add: enc_def)

lemma operands_fit:
  "list_all2 (\<lambda>w x. 0 \<le> x \<and> x < 256 ^ w) ws os \<Longrightarrow> map2 (\<lambda>w x. x mod 256 ^ w) ws os = (os :: int list)"
  by (induction rule: list_all2_induct) simp_all


section \<open>Traversal of assembled code\<close>

definition asm :: "instr list \<Rightarrow> code_byte list" where
  "asm is = concat (map enc is)"

text \<open>The operands of an instruction that index constants, and those constants.\<close>

fun const_positions_from :: "nat \<Rightarrow> bool list \<Rightarrow> nat list" where
  "const_positions_from j [] = []"
| "const_positions_from j (c # cs) = (if c then j # const_positions_from (Suc j) cs else const_positions_from (Suc j) cs)"

definition const_positions :: "nat \<Rightarrow> nat list" where
  "const_positions op = (case OpcodeConstantIndexes op of None \<Rightarrow> [] | Some cs \<Rightarrow> const_positions_from 0 cs)"

definition consts_in_range :: "'v list \<Rightarrow> instr \<Rightarrow> bool" where
  "consts_in_range constants x \<longleftrightarrow>
     list_all (\<lambda>j. 0 \<le> snd x ! j \<and> nat (snd x ! j) < length constants) (const_positions (fst x))"

text \<open>The instructions one after the other, as a callback should see them.\<close>

fun each_instr :: "'v list \<Rightarrow> ('v, 's) InstructionCallbackFn \<Rightarrow> nat \<Rightarrow> instr list \<Rightarrow> code_byte list \<Rightarrow> 's
    \<Rightarrow> (bc_error + code_byte list) \<times> 's" where
  "each_instr constants f i [] new s = (Inr new, s)"
| "each_instr constants f i (x # xs) new s =
    (let js = (if constants = [] then [] else const_positions (fst x)) in
     case f (enc x) (fst x) (snd x) js (map (\<lambda>j. constants ! nat (snd x ! j)) js) i s of
       (Inl e, s') \<Rightarrow> (Inl e, s')
     | (Inr ins, s') \<Rightarrow> each_instr constants f (i + length (enc x)) xs (new @ ins) s')"

lemma const_positions_from_bound: "j \<in> set (const_positions_from k cs) \<Longrightarrow> k \<le> j \<and> j < k + length cs \<and> cs ! (j - k)"
proof (induction cs arbitrary: k)
  case (Cons c cs)
  show ?case
  proof (cases "c \<and> j = k")
    case False
    then have "j \<in> set (const_positions_from (Suc k) cs)" using Cons.prems by (auto split: if_splits)
    then show ?thesis using Cons.IH[of "Suc k"] by (auto simp: nth_Cons' Suc_diff_le)
  qed simp
qed simp

lemma referredConstants_from:
  assumes "OpcodeConstantIndexes op = Some flags" and "length ws = length flags"
    and "\<And>j. j < length flags \<Longrightarrow> flags ! j \<Longrightarrow> ws ! j = 2"
    and "k + length os = length flags"
    and "\<And>j. j \<in> set (const_positions_from k (drop k flags)) \<Longrightarrow> 0 \<le> os ! (j - k) \<and> nat (os ! (j - k)) < length constants"
  shows "referredConstants op ws constants k os =
     Inr (const_positions_from k (drop k flags), map (\<lambda>j. constants ! nat (os ! (j - k))) (const_positions_from k (drop k flags)))"
  using assms(4,5)
proof (induction os arbitrary: k)
  case (Cons x os)
  then have k: "k < length flags" by simp
  have d: "drop k flags = flags ! k # drop (Suc k) flags" using k by (simp add: Cons_nth_drop_Suc)
  have shift: "j \<in> set (const_positions_from (Suc k) (drop (Suc k) flags)) \<Longrightarrow> (x # os) ! (j - k) = os ! (j - Suc k)" for j
    using const_positions_from_bound[of j "Suc k" "drop (Suc k) flags"] by (auto simp: nth_Cons')
  have IH: "referredConstants op ws constants (Suc k) os = Inr (const_positions_from (Suc k) (drop (Suc k) flags),
      map (\<lambda>j. constants ! nat (os ! (j - Suc k))) (const_positions_from (Suc k) (drop (Suc k) flags)))"
  proof (rule Cons.IH)
    show "Suc k + length os = length flags" using Cons.prems(1) by simp
    fix j assume j: "j \<in> set (const_positions_from (Suc k) (drop (Suc k) flags))"
    then show "0 \<le> os ! (j - Suc k) \<and> nat (os ! (j - Suc k)) < length constants"
      using Cons.prems(2)[of j] shift[OF j] d by auto
  qed
  have here: "0 \<le> x \<and> nat x < length constants" if "flags ! k" using Cons.prems(2)[of k] d that by simp
  have m: "map (\<lambda>j. constants ! nat ((x # os) ! (j - k))) (const_positions_from (Suc k) (drop (Suc k) flags))
      = map (\<lambda>j. constants ! nat (os ! (j - Suc k))) (const_positions_from (Suc k) (drop (Suc k) flags))"
    using shift by (intro map_cong) auto
  show ?case
    using k d IH here assms(1) assms(3)[OF k] by (simp add: m del: nth_Cons_Suc)
qed simp

lemma referredConstants_instr:
  assumes "OpcodeOperands op = Some ws" and "length os = length ws" and "consts_in_range constants (op, os)"
  shows "referredConstants op ws constants 0 os = Inr (const_positions op, map (\<lambda>j. constants ! nat (os ! j)) (const_positions op))"
proof -
  have "op < 150" using assms(1) OpcodeOperands_Some_iff by blast
  then obtain flags where f: "OpcodeConstantIndexes op = Some flags" "agree ws flags"
    using tables_agree assms(1) by fastforce
  have "flags ! j \<Longrightarrow> ws ! j = 2" if "j < length flags" for j
    using f(2) that by (auto simp: agree_def list_all_length)
  then show ?thesis
    using referredConstants_from[OF f(1), of ws 0 os constants] f assms(2,3)
    by (auto simp: agree_def consts_in_range_def const_positions_def list_all_iff)
qed

lemma MapInstructions_loop_asm:
  assumes "list_all valid_instr xs" and "list_all (consts_in_range constants) xs"
  shows "MapInstructions_loop (pre @ asm xs) constants f (length pre) new s = each_instr constants f (length pre) xs new s"
  using assms
proof (induction xs arbitrary: pre new s)
  case Nil
  then show ?case by (simp add: asm_def MapInstructions_loop.simps)
next
  case (Cons x xs)
  obtain op os where x: "x = (op, os)" by (cases x)
  from Cons.prems(1) x obtain ws where ws: "OpcodeOperands op = Some ws" "length os = length ws"
    and fit: "list_all2 (\<lambda>w o'. 0 \<le> o' \<and> o' < 256 ^ w) ws os"
    by (auto simp: valid_instr_def split: option.splits)
  have widths: "\<And>w. w \<in> set ws \<Longrightarrow> w = 1 \<or> w = 2" using operand_widths[OF ws(1)] .
  have op: "op < 150" using ws(1) OpcodeOperands_Some_iff by blast
  then have unat_op: "unat (of_nat op :: code_byte) = op" by (simp add: unat_of_nat)
  let ?b = "pre @ asm (x # xs)"
  have b: "?b = pre @ (of_nat op # enc_operands ws os) @ asm xs" by (simp add: asm_def enc_def x ws(1))
  have nth: "?b ! length pre = of_nat op" using b by simp
  have read: "ReadOperands ws (drop (length pre + 1) ?b) 0 = Some (os, sum_list ws)"
    using ReadOperands_enc[OF widths ws(2), of "[]" "asm xs"] operands_fit[OF fit] by (simp add: b)
  have len: "length (enc x) = 1 + sum_list ws" using length_enc[OF ws] x by simp
  have sub: "sub_list ?b (length pre) (length pre + 1 + sum_list ws) = enc x"
    using len by (simp add: sub_list_def asm_def)
  have refs: "consts_in_range constants (op, os)" using Cons.prems(2) x by simp
  have in_b: "length pre < length ?b" "length pre + 1 + sum_list ws \<le> length ?b"
    using len by (simp_all add: asm_def)
  have IH: "MapInstructions_loop ?b constants f (length pre + (1 + sum_list ws)) new' s' =
      each_instr constants f (length pre + length (enc x)) xs new' s'" for new' s'
    using Cons.IH[of "pre @ enc x" new' s'] Cons.prems len by (simp add: asm_def)
  let ?js = "if constants = [] then [] else const_positions op"
  have refd: "(if constants \<noteq> [] then referredConstants op ws constants 0 os else Inr ([], [])) =
      Inr (?js, map (\<lambda>j. constants ! nat (os ! j)) ?js)"
    using referredConstants_instr[OF ws refs] by simp
  have "MapInstructions_loop ?b constants f (length pre) new s =
      (case f (enc x) op os ?js (map (\<lambda>j. constants ! nat (os ! j)) ?js) (length pre) s of
         (Inl e, s') \<Rightarrow> (Inl e, s')
       | (Inr instr, s') \<Rightarrow> MapInstructions_loop ?b constants f (length pre + (1 + sum_list ws)) (new @ instr) s')"
    by (subst MapInstructions_loop.simps) (simp only: nth unat_op ws(1) read sub in_b refd Let_def if_True option.case sum.case prod.case)
  also have "\<dots> = each_instr constants f (length pre) (x # xs) new s"
    by (simp only: IH each_instr.simps Let_def) (simp only: x fst_conv snd_conv)
  finally show ?case .
qed


section \<open>The instruction buffer of the compiler\<close>

text \<open>The part of the compiler's current scope that \<open>emit\<close> and \<open>changeOperand\<close> touch; a source position is any value.\<close>

record 'p compiler_scope =
  instructions :: "code_byte list"
  sourceMap :: "nat \<rightharpoonup> 'p"
  lastOp :: nat

definition addInstruction :: "code_byte list \<Rightarrow> 'p compiler_scope \<Rightarrow> nat \<times> 'p compiler_scope" where
  "addInstruction b c = (length (instructions c), c\<lparr>instructions := instructions c @ b\<rparr>)"

text \<open>Slicing beyond the end of the buffer panics.\<close>

definition replaceInstruction :: "nat \<Rightarrow> code_byte list \<Rightarrow> 'p compiler_scope \<Rightarrow> 'p compiler_scope option" where
  "replaceInstruction pos inst c =
    (if pos \<le> length (instructions c) then Some (c\<lparr>instructions := go_copy_at (instructions c) pos inst\<rparr>) else None)"

definition changeOperand :: "nat \<Rightarrow> int list \<Rightarrow> 'p compiler_scope \<Rightarrow> 'p compiler_scope option" where
  "changeOperand opPos operand c =
    (if opPos < length (instructions c) then
       (case MakeInstruction (unat (instructions c ! opPos)) operand of
          None \<Rightarrow> None
        | Some inst \<Rightarrow> replaceInstruction opPos inst c)
     else None)"

definition emit :: "'p \<Rightarrow> nat \<Rightarrow> int list \<Rightarrow> 'p compiler_scope \<Rightarrow> (nat \<times> 'p compiler_scope) option" where
  "emit span opcode operands c =
    (case MakeInstruction opcode operands of
       None \<Rightarrow> None
     | Some inst \<Rightarrow>
         (case addInstruction inst c of (pos, c1) \<Rightarrow>
            Some (pos, c1\<lparr>sourceMap := (sourceMap c1)(pos \<mapsto> span), lastOp := opcode\<rparr>)))"

definition addConstant :: "'v \<Rightarrow> 'v list \<Rightarrow> nat \<times> 'v list" where
  "addConstant v constants = (length constants, constants @ [v])"

lemma go_copy_at_middle:
  "length new = length old \<Longrightarrow> go_copy_at (pre @ old @ post) (length pre) new = pre @ new @ post"
  by (simp add: go_copy_at_def go_copy_def)

lemma changeOperand_bytes:
  assumes "OpcodeOperands op = Some ws" and "length old = length ws" and "length new = length ws"
    and "instructions c = pre @ enc (op, old) @ post"
  shows "changeOperand (length pre) new c = Some (c\<lparr>instructions := pre @ enc (op, new) @ post\<rparr>)"
proof -
  have "op < 150" using assms(1) OpcodeOperands_Some_iff by blast
  then have u: "unat (of_nat op :: code_byte) = op" by (simp add: unat_of_nat)
  have n: "instructions c ! length pre = of_nat op" "length pre < length (instructions c)"
    using assms(4) by (simp_all add: enc_def nth_append)
  have "length (enc (op, new)) = length (enc (op, old))"
    using length_enc[OF assms(1,2)] length_enc[OF assms(1,3)] by simp
  then show ?thesis
    using n u MakeInstruction_enc[OF assms(1,3)] go_copy_at_middle[of "enc (op, new)" "enc (op, old)" pre post]
    by (simp add: changeOperand_def replaceInstruction_def assms(4))
qed

section \<open>Deduplication of constants\<close>

text \<open>
  The constants of a bytecode, by the kind of Go value: booleans, values of a signed integer type, of a float type (by
  bit pattern), of a string type (each with the name of its Go type), string concatenations, functions (by
  pointer) and all the others.
\<close>

datatype const_value =
  CBool bool
| CInt string int
| CFloat string "64 word"
| CString string string
| CStringConcatenation string
| CFunction nat
| COther nat

text \<open>The parts of an IEEE double that Go's \<open>math.IsNaN\<close>, \<open>math.IsInf\<close> and \<open>==\<close> look at.\<close>

definition float_finite :: "64 word \<Rightarrow> bool" where
  "float_finite f \<longleftrightarrow> drop_bit 52 f AND 2047 \<noteq> 2047"

definition float_eq :: "64 word \<Rightarrow> 64 word \<Rightarrow> bool" where
  "float_eq f g \<longleftrightarrow> f = g \<or> (take_bit 63 f = 0 \<and> take_bit 63 g = 0)"

text \<open>\<open>Value.Equal\<close> with a boolean, integer, float or string receiver.\<close>

fun const_Equal :: "const_value \<Rightarrow> const_value \<Rightarrow> bool" where
  "const_Equal (CBool a) (CBool b) \<longleftrightarrow> a = b"
| "const_Equal (CInt t a) (CInt u b) \<longleftrightarrow> t = u \<and> a = b"
| "const_Equal (CFloat t a) (CFloat u b) \<longleftrightarrow> t = u \<and> float_finite a \<and> float_finite b \<and> float_eq a b"
| "const_Equal (CString t a) (CString u b) \<longleftrightarrow> t = u \<and> a = b"
| "const_Equal (CString t a) (CStringConcatenation b) \<longleftrightarrow> t = ''String'' \<and> a = b"
| "const_Equal _ _ \<longleftrightarrow> False"

text \<open>The test on \<open>v.Kind()\<close>, \<open>v.CanInt()\<close> and \<open>v.CanFloat()\<close>.\<close>

fun dedupable :: "const_value \<Rightarrow> bool" where
  "dedupable (CBool _) \<longleftrightarrow> True"
| "dedupable (CInt _ _) \<longleftrightarrow> True"
| "dedupable (CFloat _ _) \<longleftrightarrow> True"
| "dedupable (CString _ _) \<longleftrightarrow> True"
| "dedupable _ \<longleftrightarrow> False"

record bytecode =
  bc_constants :: "const_value list"
  bc_main :: "code_byte list"
  bc_functions :: "nat \<rightharpoonup> code_byte list"

fun mark_equal :: "const_value \<Rightarrow> int \<Rightarrow> nat \<Rightarrow> const_value list \<Rightarrow> int list \<Rightarrow> int list" where
  "mark_equal c1 newConstantIndex j [] constantsMapping = constantsMapping"
| "mark_equal c1 newConstantIndex j (c2 # cs) constantsMapping =
    mark_equal c1 newConstantIndex (Suc j) cs
      (if const_Equal c1 c2 then constantsMapping[j := newConstantIndex] else constantsMapping)"

fun mapping_loop :: "nat \<Rightarrow> const_value list \<Rightarrow> int list \<Rightarrow> const_value list \<Rightarrow> int list \<times> const_value list" where
  "mapping_loop i [] constantsMapping newConstants = (constantsMapping, newConstants)"
| "mapping_loop i (c1 # cs) constantsMapping newConstants =
    (if constantsMapping ! i \<ge> 0 then mapping_loop (Suc i) cs constantsMapping newConstants
     else
       (let newConstantIndex = int (length newConstants);
            constantsMapping1 = constantsMapping[i := newConstantIndex];
            newConstants1 = newConstants @ [c1]
        in mapping_loop (Suc i) cs
             (if dedupable c1 then mark_equal c1 newConstantIndex (Suc i) cs constantsMapping1 else constantsMapping1)
             newConstants1))"

fun remap_operands :: "int list \<Rightarrow> nat list \<Rightarrow> int list \<Rightarrow> int list" where
  "remap_operands constantsMapping [] operands = operands"
| "remap_operands constantsMapping (j # js) operands =
    remap_operands constantsMapping js (operands[j := constantsMapping ! nat (operands ! j)])"

definition updateCallback :: "int list \<Rightarrow> (const_value, unit) InstructionCallbackFn" where
  "updateCallback constantsMapping instr op operands indexes _ i s =
    (case MakeInstruction op (remap_operands constantsMapping indexes operands) of
       None \<Rightarrow> (Inl IndexOutOfRange, s)
     | Some ins \<Rightarrow> (Inr ins, s))"

definition updateConstantReferences :: "int list \<Rightarrow> const_value list \<Rightarrow> code_byte list \<Rightarrow> bc_error + code_byte list" where
  "updateConstantReferences constantsMapping prevConstants fn =
     fst (MapInstructions fn prevConstants (updateCallback constantsMapping) ())"

fun update_functions :: "int list \<Rightarrow> const_value list \<Rightarrow> const_value list \<Rightarrow> (nat \<rightharpoonup> code_byte list) \<Rightarrow> bc_error + (nat \<rightharpoonup> code_byte list)" where
  "update_functions constantsMapping prevConstants [] fns = Inr fns"
| "update_functions constantsMapping prevConstants (c # cs) fns =
    (case c of
       CFunction a \<Rightarrow>
         (case fns a of
            None \<Rightarrow> update_functions constantsMapping prevConstants cs fns
          | Some code \<Rightarrow>
              (case updateConstantReferences constantsMapping prevConstants code of
                 Inl e \<Rightarrow> Inl e
               | Inr code' \<Rightarrow> update_functions constantsMapping prevConstants cs (fns(a \<mapsto> code'))))
     | _ \<Rightarrow> update_functions constantsMapping prevConstants cs fns)"

definition deduplicateConstants :: "bytecode \<Rightarrow> bc_error + bytecode" where
  "deduplicateConstants b =
    (case mapping_loop 0 (bc_constants b) (replicate (length (bc_constants b)) (- 1)) [] of
       (constantsMapping, newConstants) \<Rightarrow>
         (case update_functions constantsMapping (bc_constants b) (bc_constants b) (bc_functions b) of
            Inl e \<Rightarrow> Inl e
          | Inr fns \<Rightarrow>
              (case updateConstantReferences constantsMapping (bc_constants b) (bc_main b) of
                 Inl e \<Rightarrow> Inl e
               | Inr main' \<Rightarrow> Inr (b\<lparr>bc_functions := fns, bc_main := main', bc_constants := newConstants\<rparr>))))"


section \<open>Correctness of the deduplication\<close>

definition same_const :: "const_value \<Rightarrow> const_value \<Rightarrow> bool" where
  "same_const a b \<longleftrightarrow> a = b \<or> const_Equal a b"

definition mapping_inv :: "const_value list \<Rightarrow> nat \<Rightarrow> int list \<Rightarrow> const_value list \<Rightarrow> bool" where
  "mapping_inv cs i mp new \<longleftrightarrow>
     length mp = length cs \<and> length new \<le> i \<and>
     (\<forall>t < length cs. t < i \<longrightarrow> 0 \<le> mp ! t) \<and>
     (\<forall>t < length cs. 0 \<le> mp ! t \<longrightarrow> nat (mp ! t) < length new \<and> same_const (new ! nat (mp ! t)) (cs ! t)) \<and>
     (\<forall>b < length new. \<forall>a < b. dedupable (new ! a) \<longrightarrow> \<not> const_Equal (new ! a) (new ! b)) \<and>
     (\<forall>a < length new. \<forall>t < length cs. dedupable (new ! a) \<longrightarrow> i \<le> t \<longrightarrow> const_Equal (new ! a) (cs ! t) \<longrightarrow> 0 \<le> mp ! t)"

lemma mark_equal_nth:
  "i < length mp \<Longrightarrow> mark_equal c k j cs mp ! i =
     (if j \<le> i \<and> i < j + length cs \<and> const_Equal c (cs ! (i - j)) then k else mp ! i)"
proof (induction cs arbitrary: j mp)
  case (Cons c2 cs)
  then show ?case by (auto simp: nth_Cons' nth_list_update not_less_eq_eq le_antisym Suc_diff_le)
qed simp

lemma length_mark_equal [simp]: "length (mark_equal c k j cs mp) = length mp"
  by (induction cs arbitrary: j mp) auto

lemma mapping_step_new:
  assumes "mapping_inv cs i mp new" and "i < length cs" and "mp ! i < 0"
  shows "mapping_inv cs (Suc i)
     (if dedupable (cs ! i) then mark_equal (cs ! i) (int (length new)) (Suc i) (drop (Suc i) cs) (mp[i := int (length new)])
      else mp[i := int (length new)]) (new @ [cs ! i])"
    (is "mapping_inv cs (Suc i) ?mp ?new")
proof -
  note I = assms(1)[unfolded mapping_inv_def]
  have nth: "?mp ! t = (if t = i \<or> (i < t \<and> dedupable (cs ! i) \<and> const_Equal (cs ! i) (cs ! t)) then int (length new) else mp ! t)"
    if "t < length cs" for t
    using that I assms(2) by (auto simp: mark_equal_nth nth_list_update)
  have "length ?mp = length cs" using I by simp
  moreover have "\<forall>t < length cs. t < Suc i \<longrightarrow> 0 \<le> ?mp ! t" using nth I by (auto simp: less_Suc_eq)
  moreover have "\<forall>t < length cs. 0 \<le> ?mp ! t \<longrightarrow> nat (?mp ! t) < length ?new \<and> same_const (?new ! nat (?mp ! t)) (cs ! t)"
  proof (intro allI impI)
    fix t assume t: "t < length cs" and nn: "0 \<le> ?mp ! t"
    show "nat (?mp ! t) < length ?new \<and> same_const (?new ! nat (?mp ! t)) (cs ! t)"
    proof (cases "t = i \<or> (i < t \<and> dedupable (cs ! i) \<and> const_Equal (cs ! i) (cs ! t))")
      case True
      then show ?thesis unfolding nth[OF t] by (auto simp: same_const_def)
    next
      case False
      then have "?mp ! t = mp ! t" using nth[OF t] by (simp only: if_False)
      then show ?thesis using I t nn by (auto simp: nth_append less_SucI)
    qed
  qed
  moreover have "\<forall>b < length ?new. \<forall>a < b. dedupable (?new ! a) \<longrightarrow> \<not> const_Equal (?new ! a) (?new ! b)"
  proof (intro allI impI)
    fix b a assume b: "b < length ?new" and a: "a < b" and d: "dedupable (?new ! a)"
    show "\<not> const_Equal (?new ! a) (?new ! b)"
    proof (cases "b = length new")
      case True
      then have "\<not> const_Equal (new ! a) (cs ! i)"
        using I a d assms(2,3) by (metis linorder_not_less nth_append order_refl)
      then show ?thesis using True a by (simp add: nth_append)
    next
      case False
      then show ?thesis using I a b d by (simp add: nth_append)
    qed
  qed
  moreover have "\<forall>a < length ?new. \<forall>t < length cs. dedupable (?new ! a) \<longrightarrow> Suc i \<le> t \<longrightarrow> const_Equal (?new ! a) (cs ! t) \<longrightarrow> 0 \<le> ?mp ! t"
    using I nth by (auto simp: nth_append less_Suc_eq)
  ultimately show ?thesis using I unfolding mapping_inv_def by simp
qed

lemma mapping_step_skip:
  assumes "mapping_inv cs i mp new" and "0 \<le> mp ! i"
  shows "mapping_inv cs (Suc i) mp new"
  using assms by (auto simp: mapping_inv_def less_Suc_eq)

lemma mapping_loop_inv:
  assumes "mapping_inv cs i mp new" and "i \<le> length cs" and "mapping_loop i (drop i cs) mp new = (mp', new')"
  shows "mapping_inv cs (length cs) mp' new'"
  using assms
proof (induction "length cs - i" arbitrary: i mp new)
  case 0
  then show ?case by simp
next
  case (Suc n)
  then have i: "i < length cs" by simp
  then have d: "drop i cs = cs ! i # drop (Suc i) cs" by (simp add: Cons_nth_drop_Suc)
  show ?case
  proof (cases "0 \<le> mp ! i")
    case True
    then show ?thesis
      using Suc.hyps(1)[of "Suc i", OF _ mapping_step_skip[OF Suc.prems(1) True]] Suc.hyps(2) Suc.prems(3) i d by simp
  next
    case False
    then have "mp ! i < 0" by simp
    from Suc.hyps(1)[of "Suc i", OF _ mapping_step_new[OF Suc.prems(1) i this]] show ?thesis
      using Suc.hyps(2) Suc.prems(3) i d False by (simp add: Let_def)
  qed
qed

lemma mapping_loop_correct:
  assumes "mapping_loop 0 cs (replicate (length cs) (- 1)) [] = (mp, new)"
  shows "mapping_inv cs (length cs) mp new"
  using mapping_loop_inv[of cs 0 "replicate (length cs) (- 1)" "[]" mp new] assms by (simp add: mapping_inv_def)


text \<open>What an instruction may become: same opcode, same operands, except that an index of a constant refers to an
  equal constant of the new pool.\<close>

definition same_instr :: "const_value list \<Rightarrow> const_value list \<Rightarrow> instr \<Rightarrow> instr \<Rightarrow> bool" where
  "same_instr cs new x y \<longleftrightarrow> fst y = fst x \<and> length (snd y) = length (snd x) \<and>
     (\<forall>j < length (snd x).
        if j \<in> set (const_positions (fst x))
        then 0 \<le> snd y ! j \<and> nat (snd y ! j) < length new \<and> same_const (new ! nat (snd y ! j)) (cs ! nat (snd x ! j))
        else snd y ! j = snd x ! j)"

definition remap_instr :: "int list \<Rightarrow> instr \<Rightarrow> instr" where
  "remap_instr mp x = (fst x, remap_operands mp (const_positions (fst x)) (snd x))"

lemma distinct_const_positions_from: "distinct (const_positions_from k cs)"
  by (induction cs arbitrary: k) (auto dest: const_positions_from_bound)

lemma distinct_const_positions [simp]: "distinct (const_positions op)"
  by (simp add: const_positions_def distinct_const_positions_from split: option.split)

lemma length_remap_operands [simp]: "length (remap_operands mp js os) = length os"
  by (induction js arbitrary: os) auto

lemma remap_operands_nth:
  "distinct js \<Longrightarrow> i < length os \<Longrightarrow>
   remap_operands mp js os ! i = (if i \<in> set js then mp ! nat (os ! i) else os ! i)"
proof (induction js arbitrary: os)
  case (Cons a js)
  then show ?case by (cases "i = a") auto
qed simp

lemma valid_instrD:
  assumes "valid_instr (op, os)"
  obtains ws flags where "OpcodeOperands op = Some ws" "length os = length ws" "OpcodeConstantIndexes op = Some flags"
    "\<And>j. j < length ws \<Longrightarrow> 0 \<le> os ! j \<and> os ! j < 256 ^ (ws ! j)"
    "\<And>j. j \<in> set (const_positions op) \<Longrightarrow> j < length ws \<and> ws ! j = 2"
proof -
  from assms obtain ws where ws: "OpcodeOperands op = Some ws" "length os = length ws"
    "list_all2 (\<lambda>w o'. 0 \<le> o' \<and> o' < 256 ^ w) ws os"
    by (auto simp: valid_instr_def split: option.splits)
  have "op < 150" using ws(1) OpcodeOperands_Some_iff by blast
  then obtain flags where f: "OpcodeConstantIndexes op = Some flags" "agree ws flags"
    using tables_agree ws(1) by fastforce
  have "j < length ws \<and> ws ! j = 2" if "j \<in> set (const_positions op)" for j
    using that f const_positions_from_bound[of j 0 flags]
    by (auto simp: const_positions_def agree_def list_all_length)
  then show thesis using that ws f by (auto simp: list_all2_conv_all_nth)
qed

lemma remap_instr_correct:
  assumes "valid_instr x" and "consts_in_range cs x" and "mapping_inv cs (length cs) mp new" and "length cs \<le> 65536"
  shows "valid_instr (remap_instr mp x) \<and> same_instr cs new x (remap_instr mp x)"
proof -
  obtain op os where x: "x = (op, os)" by (cases x)
  from valid_instrD[OF assms(1)[unfolded x]] obtain ws flags where ws: "OpcodeOperands op = Some ws" "length os = length ws"
    and fit: "\<And>j. j < length ws \<Longrightarrow> 0 \<le> os ! j \<and> os ! j < 256 ^ (ws ! j)"
    and two: "\<And>j. j \<in> set (const_positions op) \<Longrightarrow> j < length ws \<and> ws ! j = 2" by blast
  note I = assms(3)[unfolded mapping_inv_def]
  have m: "0 \<le> mp ! nat (os ! j) \<and> nat (mp ! nat (os ! j)) < length new \<and>
      same_const (new ! nat (mp ! nat (os ! j))) (cs ! nat (os ! j))" if "j \<in> set (const_positions op)" for j
    using that assms(2) I x by (auto simp: consts_in_range_def list_all_iff)
  have "length new \<le> 65536" using I assms(4) by auto
  then have small: "mp ! nat (os ! j) < 65536" if "j \<in> set (const_positions op)" for j using m[OF that] by auto
  let ?os = "remap_operands mp (const_positions op) os"
  have nth: "?os ! j = (if j \<in> set (const_positions op) then mp ! nat (os ! j) else os ! j)" if "j < length ws" for j
    using remap_operands_nth[of "const_positions op" j os mp] that ws(2) by simp
  have "0 \<le> ?os ! j \<and> ?os ! j < 256 ^ (ws ! j)" if "j < length ws" for j
    using nth[OF that] fit[OF that] m small two by auto
  then have "valid_instr (op, ?os)" using ws by (simp add: valid_instr_def list_all2_conv_all_nth)
  moreover have "same_instr cs new (op, os) (op, ?os)"
    using nth m ws(2) by (simp add: same_instr_def)
  ultimately show ?thesis by (simp add: remap_instr_def x)
qed

lemma updateCallback_each:
  assumes "list_all valid_instr xs" and "list_all (consts_in_range cs) xs"
  shows "each_instr cs (updateCallback mp) i xs new () = (Inr (new @ asm (map (remap_instr mp) xs)), ())"
  using assms
proof (induction xs arbitrary: i new)
  case (Cons x xs)
  obtain op os where x: "x = (op, os)" by (cases x)
  from Cons.prems(1) x obtain ws where ws: "OpcodeOperands op = Some ws" "length os = length ws"
    by (auto simp: valid_instr_def split: option.splits)
  have js: "(if cs = [] then [] else const_positions op) = const_positions op"
    using Cons.prems(2) x by (cases "const_positions op") (auto simp: consts_in_range_def)
  have mk: "MakeInstruction op (remap_operands mp (const_positions op) os) = Some (enc (remap_instr mp x))"
    using MakeInstruction_enc[OF ws(1), of "remap_operands mp (const_positions op) os"] ws(2) x by (simp add: remap_instr_def)
  have cb: "updateCallback mp (enc x) op os (const_positions op) vs i () = (Inr (enc (remap_instr mp x)), ())" for vs
    using mk by (simp add: updateCallback_def)
  have "each_instr cs (updateCallback mp) i (x # xs) new () =
      each_instr cs (updateCallback mp) (i + length (enc x)) xs (new @ enc (remap_instr mp x)) ()"
    by (simp only: each_instr.simps Let_def) (simp only: x fst_conv snd_conv js cb[unfolded x] prod.case sum.case)
  also have "\<dots> = (Inr ((new @ enc (remap_instr mp x)) @ asm (map (remap_instr mp) xs)), ())"
    using Cons.prems by (intro Cons.IH) auto
  finally show ?case by (simp add: asm_def)
qed (simp add: asm_def)

lemma updateConstantReferences_correct:
  assumes "list_all valid_instr xs" and "list_all (consts_in_range cs) xs"
  shows "updateConstantReferences mp cs (asm xs) = Inr (asm (map (remap_instr mp) xs))"
  using MapInstructions_loop_asm[OF assms, of "[]" "updateCallback mp" "[]" "()"] updateCallback_each[OF assms, of mp 0 "[]"]
  by (simp add: updateConstantReferences_def MapInstructions_def)

fun fn_addrs :: "const_value list \<Rightarrow> nat list" where
  "fn_addrs [] = []"
| "fn_addrs (CFunction a # cs) = a # fn_addrs cs"
| "fn_addrs (_ # cs) = fn_addrs cs"

lemma update_functions_correct:
  assumes "distinct (fn_addrs rest)"
    and "\<And>a. a \<in> set (fn_addrs rest) \<Longrightarrow> fns a = map_option asm (src a)"
    and "\<And>a xs. a \<in> set (fn_addrs rest) \<Longrightarrow> src a = Some xs \<Longrightarrow> list_all valid_instr xs \<and> list_all (consts_in_range cs) xs"
  shows "\<exists>fns'. update_functions mp cs rest fns = Inr fns' \<and>
     (\<forall>a \<in> set (fn_addrs rest). fns' a = map_option (\<lambda>xs. asm (map (remap_instr mp) xs)) (src a)) \<and>
     (\<forall>a. a \<notin> set (fn_addrs rest) \<longrightarrow> fns' a = fns a)"
  using assms
proof (induction rest arbitrary: fns rule: fn_addrs.induct)
  case (2 a rest)
  have d: "distinct (fn_addrs rest)" "a \<notin> set (fn_addrs rest)" using "2.prems"(1) by auto
  show ?case
  proof (cases "src a")
    case None
    then have n: "fns a = None" using "2.prems"(2)[of a] by simp
    obtain fns' where f: "update_functions mp cs rest fns = Inr fns'"
      "\<forall>a \<in> set (fn_addrs rest). fns' a = map_option (\<lambda>xs. asm (map (remap_instr mp) xs)) (src a)"
      "\<forall>a. a \<notin> set (fn_addrs rest) \<longrightarrow> fns' a = fns a"
      using "2.IH"[of fns] d(1) "2.prems"(2,3) by auto
    then show ?thesis using n None d(2) by (intro exI[of _ fns']) auto
  next
    case (Some xs)
    then have s: "fns a = Some (asm xs)" using "2.prems"(2)[of a] by simp
    have u: "updateConstantReferences mp cs (asm xs) = Inr (asm (map (remap_instr mp) xs))"
      using updateConstantReferences_correct "2.prems"(3)[of a xs] Some by simp
    let ?fns = "fns(a \<mapsto> asm (map (remap_instr mp) xs))"
    have pre: "?fns b = map_option asm (src b)" if "b \<in> set (fn_addrs rest)" for b
      using that d(2) "2.prems"(2)[of b] by auto
    have valid: "list_all valid_instr ys \<and> list_all (consts_in_range cs) ys" if "b \<in> set (fn_addrs rest)" "src b = Some ys" for b ys
      using that "2.prems"(3)[of b ys] by simp
    have "\<exists>fns'. update_functions mp cs rest ?fns = Inr fns' \<and>
       (\<forall>a \<in> set (fn_addrs rest). fns' a = map_option (\<lambda>xs. asm (map (remap_instr mp) xs)) (src a)) \<and>
       (\<forall>b. b \<notin> set (fn_addrs rest) \<longrightarrow> fns' b = ?fns b)"
      by (rule "2.IH"[OF d(1)]) (fact pre, fact valid)
    then obtain fns' where f: "update_functions mp cs rest ?fns = Inr fns'"
      "\<forall>a \<in> set (fn_addrs rest). fns' a = map_option (\<lambda>xs. asm (map (remap_instr mp) xs)) (src a)"
      "\<forall>b. b \<notin> set (fn_addrs rest) \<longrightarrow> fns' b = ?fns b" by blast
    then show ?thesis using s u Some d(2) by (intro exI[of _ fns']) auto
  qed
qed auto


lemma length_asm_same:
  "list_all valid_instr xs \<Longrightarrow> list_all valid_instr ys \<Longrightarrow> list_all2 (same_instr cs new) xs ys \<Longrightarrow> length (asm ys) = length (asm xs)"
proof (induction xs arbitrary: ys)
  case (Cons x xs)
  then obtain y ys' where ys: "ys = y # ys'" "same_instr cs new x y" "list_all2 (same_instr cs new) xs ys'"
    by (auto simp: list_all2_Cons1)
  have "length (enc x) = length (enc y)"
    using Cons.prems(1,2) ys length_enc[of "fst x" _ "snd x"] length_enc[of "fst y" _ "snd y"]
    unfolding prod.collapse by (auto simp: valid_instr_def same_instr_def split: option.splits)
  then show ?case using Cons.IH[of ys'] Cons.prems ys by (simp add: asm_def)
qed (simp add: asm_def)

lemma remap_list_correct:
  assumes "list_all valid_instr xs" and "list_all (consts_in_range cs) xs"
    and "mapping_inv cs (length cs) mp new" and "length cs \<le> 65536"
  shows "list_all valid_instr (map (remap_instr mp) xs) \<and> list_all2 (same_instr cs new) xs (map (remap_instr mp) xs)"
  using assms(1,2) remap_instr_correct[OF _ _ assms(3,4)] by (induction xs) auto

section \<open>Properties\<close>

text \<open>
  (C24) Encoding and decoding: an opcode with one operand per width of its table row gives an instruction of the
  announced length that starts with the opcode, and \<open>ReadOperands\<close> reads back every operand modulo the range of its
  width, whatever follows. So an operand that fits comes back unchanged, and one that does not (a jump target or a
  constant index above 65535) is silently truncated.
\<close>

theorem make_read_roundtrip:
  assumes "OpcodeOperands op = Some ws" and "length operands = length ws"
  shows "\<exists>ins. MakeInstruction op operands = Some ins \<and> length ins = 1 + sum_list ws \<and> unat (hd ins) = op \<and>
     ReadOperands ws (tl ins @ rest) 0 = Some (map2 (\<lambda>w x. x mod 256 ^ w) ws operands, sum_list ws) \<and>
     (list_all2 (\<lambda>w x. 0 \<le> x \<and> x < 256 ^ w) ws operands \<longrightarrow>
        ReadOperands ws (tl ins @ rest) 0 = Some (operands, sum_list ws))"
proof -
  have "op < 150" using assms(1) OpcodeOperands_Some_iff by blast
  then have "unat (of_nat op :: code_byte) = op" by (simp add: unat_of_nat)
  moreover have "ReadOperands ws (enc_operands ws operands @ rest) 0 = Some (map2 (\<lambda>w x. x mod 256 ^ w) ws operands, sum_list ws)"
    using ReadOperands_enc[OF operand_widths[OF assms(1)] assms(2), of "[]" rest] by simp
  ultimately show ?thesis
    using MakeInstruction_enc[OF assms] length_enc[OF assms] operands_fit[of ws operands] assms(1)
    by (intro exI[of _ "enc (op, operands)"]) (auto simp: enc_def)
qed

theorem make_read_roundtrip_witness:
  "\<exists>ins. MakeInstruction OpCreateXMLelem [70000, 2, 513, 255] = Some ins \<and>
     ReadOperands [2, 1, 2, 1] (tl ins) 0 = Some ([4464, 2, 513, 255], 6)"
  using make_read_roundtrip[of OpCreateXMLelem "[2, 1, 2, 1]" "[70000, 2, 513, 255]" "[]"]
  by (auto simp: sample_rows simp del: ReadOperands.simps)

text \<open>
  (C35) \<open>MapInstructions\<close> on assembled code calls the callback on every instruction, in order, with the instruction's
  bytes, opcode, operands, address and the constants it refers to, and concatenates what the callback returns; it
  never fails by itself.
\<close>

theorem MapInstructions_visits_all:
  assumes "list_all valid_instr xs" and "list_all (consts_in_range constants) xs"
  shows "MapInstructions (asm xs) constants f s = each_instr constants f 0 xs [] s"
  using MapInstructions_loop_asm[OF assms, of "[]" f "[]" s] by (simp add: MapInstructions_def)

theorem MapInstructions_visits_all_witness:
  "MapInstructions (asm [(OpPop, []), (OpPushConstant, [1])]) [True, False]
     (\<lambda>instr op operands js vs i s. (Inr instr, s @ [(i, op, vs)])) []
   = (Inr (asm [(OpPop, []), (OpPushConstant, [1])]), [(0, OpPop, []), (1, OpPushConstant, [False])])"
  using MapInstructions_visits_all[of "[(OpPop, []), (OpPushConstant, [1])]" "[True, False]"
      "\<lambda>instr op operands js vs i s. (Inr instr, s @ [(i, op, vs)])" "[]"]
  by (simp add: sample_rows[simplified] valid_instr_def consts_in_range_def const_positions_def asm_def enc_def)

text \<open>
  Patching a jump: \<open>changeOperand\<close> at the address of an instruction of assembled code replaces the operands of that
  instruction and of no other; addresses of all the instructions stay as they were.
\<close>

theorem changeOperand_patches:
  assumes "OpcodeOperands op = Some ws" and "length old = length ws" and "length new = length ws"
    and "instructions c = asm pre @ enc (op, old) @ asm post"
  shows "changeOperand (length (asm pre)) new c = Some (c\<lparr>instructions := asm (pre @ [(op, new)] @ post)\<rparr>)"
  using changeOperand_bytes[OF assms] by (simp add: asm_def)

theorem changeOperand_patches_witness:
  "map_option instructions (changeOperand 1 [300]
      \<lparr>instructions = asm [(OpPop, []), (OpJump, [0]), (OpPop, [])], sourceMap = (\<lambda>_. None :: unit option), lastOp = OpPop\<rparr>)
   = Some (asm [(OpPop, []), (OpJump, [300]), (OpPop, [])])"
  using changeOperand_patches[of OpJump "[2]" "[0]" "[300]"
      "\<lparr>instructions = asm [(OpPop, []), (OpJump, [0]), (OpPop, [])], sourceMap = (\<lambda>_. None :: unit option), lastOp = OpPop\<rparr>"
      "[(OpPop, [])]" "[(OpPop, [])]"]
  by (simp add: sample_rows[simplified] asm_def enc_def)

text \<open>
  (C6) Constant deduplication preserves the program. On a bytecode whose main function and compiled functions are
  assembled code that refers to existing constants, and with at most 65536 constants, the optimisation succeeds; every
  instruction keeps its opcode, address and ordinary operands, and every constant it refers to is the same constant or
  one that \<open>Equal\<close> identifies with it. Two booleans, numbers or strings of the new pool are never equal.
\<close>

theorem deduplicateConstants_correct:
  assumes "bc_main b = asm main" and "list_all valid_instr main" and "list_all (consts_in_range (bc_constants b)) main"
    and "distinct (fn_addrs (bc_constants b))" and "length (bc_constants b) \<le> 65536"
    and "\<And>a. a \<in> set (fn_addrs (bc_constants b)) \<Longrightarrow> bc_functions b a = map_option asm (src a)"
    and "\<And>a xs. a \<in> set (fn_addrs (bc_constants b)) \<Longrightarrow> src a = Some xs \<Longrightarrow>
           list_all valid_instr xs \<and> list_all (consts_in_range (bc_constants b)) xs"
  shows "\<exists>b'. deduplicateConstants b = Inr b' \<and>
     (\<exists>ys. bc_main b' = asm ys \<and> list_all2 (same_instr (bc_constants b) (bc_constants b')) main ys \<and>
           length (bc_main b') = length (bc_main b)) \<and>
     (\<forall>a \<in> set (fn_addrs (bc_constants b)).
        rel_option (\<lambda>xs code. \<exists>ys. code = asm ys \<and> list_all2 (same_instr (bc_constants b) (bc_constants b')) xs ys \<and>
                      length code = length (asm xs)) (src a) (bc_functions b' a)) \<and>
     (\<forall>k < length (bc_constants b'). \<forall>j < k. dedupable (bc_constants b' ! j) \<longrightarrow>
        \<not> const_Equal (bc_constants b' ! j) (bc_constants b' ! k))"
proof -
  let ?cs = "bc_constants b"
  obtain mp new where ml: "mapping_loop 0 ?cs (replicate (length ?cs) (- 1)) [] = (mp, new)" by (metis prod.exhaust)
  note I = mapping_loop_correct[OF ml]
  have "\<exists>fns'. update_functions mp ?cs ?cs (bc_functions b) = Inr fns' \<and>
     (\<forall>a \<in> set (fn_addrs ?cs). fns' a = map_option (\<lambda>xs. asm (map (remap_instr mp) xs)) (src a)) \<and>
     (\<forall>a. a \<notin> set (fn_addrs ?cs) \<longrightarrow> fns' a = bc_functions b a)"
    by (rule update_functions_correct) (fact assms(4), fact assms(6), fact assms(7))
  then obtain fns where f: "update_functions mp ?cs ?cs (bc_functions b) = Inr fns"
    and fa: "\<And>a. a \<in> set (fn_addrs ?cs) \<Longrightarrow> fns a = map_option (\<lambda>xs. asm (map (remap_instr mp) xs)) (src a)" by blast
  let ?b = "b\<lparr>bc_functions := fns, bc_main := asm (map (remap_instr mp) main), bc_constants := new\<rparr>"
  have run: "deduplicateConstants b = Inr ?b"
    using ml f updateConstantReferences_correct[OF assms(2,3), of mp] by (simp add: deduplicateConstants_def assms(1))
  have code: "list_all2 (same_instr ?cs new) xs (map (remap_instr mp) xs) \<and>
      length (asm (map (remap_instr mp) xs)) = length (asm xs)"
    if "list_all valid_instr xs" "list_all (consts_in_range ?cs) xs" for xs
    using remap_list_correct[OF that I assms(5)] length_asm_same that by blast
  have "\<forall>k < length new. \<forall>j < k. dedupable (new ! j) \<longrightarrow> \<not> const_Equal (new ! j) (new ! k)"
    using I by (simp add: mapping_inv_def)
  moreover have "rel_option (\<lambda>xs code. \<exists>ys. code = asm ys \<and> list_all2 (same_instr ?cs new) xs ys \<and>
                      length code = length (asm xs)) (src a) (fns a)" if "a \<in> set (fn_addrs ?cs)" for a
    using fa[OF that] assms(7)[OF that] code by (cases "src a") auto
  ultimately show ?thesis
    using run code[OF assms(2,3)] by (intro exI[of _ ?b]) (auto simp: assms(1))
qed

theorem deduplicateConstants_correct_witness:
  "\<exists>b'. deduplicateConstants \<lparr>bc_constants = [CInt ''Int'' 1, CFunction 9, CInt ''Int'' 1],
        bc_main = asm [(OpPushConstant, [0]), (OpPushConstant, [2])],
        bc_functions = [9 \<mapsto> asm [(OpPushConstant, [2])]]\<rparr> = Inr b' \<and>
     (\<forall>k < length (bc_constants b'). \<forall>j < k. dedupable (bc_constants b' ! j) \<longrightarrow>
        \<not> const_Equal (bc_constants b' ! j) (bc_constants b' ! k))"
proof -
  let ?b = "\<lparr>bc_constants = [CInt ''Int'' 1, CFunction 9, CInt ''Int'' 1],
        bc_main = asm [(OpPushConstant, [0]), (OpPushConstant, [2])],
        bc_functions = [9 \<mapsto> asm [(OpPushConstant, [2])]]\<rparr>"
  show ?thesis
    using deduplicateConstants_correct[of ?b "[(OpPushConstant, [0]), (OpPushConstant, [2])]" "[9 \<mapsto> [(OpPushConstant, [2])]]"] sample_rows
    by (fastforce simp: valid_instr_def consts_in_range_def const_positions_def split: if_splits)
qed

text \<open>
  The deduplication merges positive and negative zero: \<open>Equal\<close> compares floats numerically, so a program with the
  constants \<open>0.0\<close> and \<open>-0.0\<close> uses the first for both, although division tells them apart.
\<close>

theorem deduplicateConstants_merges_zeros:
  "map_sum id bc_constants (deduplicateConstants \<lparr>bc_constants = [CFloat t 0, CFloat t (push_bit 63 1)],
      bc_main = [], bc_functions = fns\<rparr>) = Inr [CFloat t 0] \<and> (0 :: 64 word) \<noteq> push_bit 63 1"
proof -
  have fin: "float_finite 0" "float_finite (push_bit 63 1)" "float_eq 0 (push_bit 63 1)"
    by (simp_all add: float_finite_def float_eq_def)
  then show ?thesis
    by (simp add: deduplicateConstants_def updateConstantReferences_def MapInstructions_def MapInstructions_loop.simps)
qed

end
