(* ===== verification/Permissions.thy ===== *)
theory Permissions
  imports Prelude "HOL-Library.Sublist"
begin

unbundle bit_operations_syntax

text \<open>
  Permissions (\<open>internal/core/permkind/permission_kind.go\<close>, \<open>internal/core/permissions.go\<close> and the path
  patterns of \<open>internal/core/resource.go\<close>): permission kinds as bit sets, path patterns, the
  \<open>Includes\<close> method of each kind of permission that does not involve URLs, and the interface \<open>Permission\<close> as the
  locale \<open>permission_order\<close>. Glob matching is \<open>doublestar.Match\<close>, a third-party function: it is the argument \<open>glob\<close>
  (true when the match succeeds without error). A panic is \<open>None\<close>.
\<close>

section \<open>Permission kinds\<close>

type_synonym PermissionKind = int

definition Read :: PermissionKind where "Read = push_bit 0 1"
definition Write :: PermissionKind where "Write = push_bit 1 1"
definition Delete :: PermissionKind where "Delete = push_bit 2 1"
definition Use :: PermissionKind where "Use = push_bit 3 1"
definition Consume :: PermissionKind where "Consume = push_bit 4 1"
definition Provide :: PermissionKind where "Provide = push_bit 5 1"
definition See :: PermissionKind where "See = push_bit 6 1"
definition Update :: PermissionKind where "Update = Write + push_bit 16 1"
definition Create :: PermissionKind where "Create = Write + push_bit 16 2"
definition WriteStream :: PermissionKind where "WriteStream = Write + push_bit 16 4"

lemmas kind_defs = Read_def Write_def Delete_def Use_def Consume_def Provide_def See_def Update_def Create_def WriteStream_def

definition PERMISSION_KINDS :: "(PermissionKind \<times> string) list" where
  "PERMISSION_KINDS = [(Read, ''read''), (Write, ''write''), (Delete, ''delete''), (Use, ''use''),
     (Consume, ''consume''), (Provide, ''provide''), (See, ''see''),
     (Update, ''update''), (Create, ''create''), (WriteStream, ''write-stream'')]"

definition kind_Major :: "PermissionKind \<Rightarrow> PermissionKind" where
  "kind_Major k = k AND 0xffff"

definition kind_IsMajor :: "PermissionKind \<Rightarrow> bool" where
  "kind_IsMajor k \<longleftrightarrow> k = k AND 0xffff"

definition kind_IsMinor :: "PermissionKind \<Rightarrow> bool" where
  "kind_IsMinor k \<longleftrightarrow> \<not> kind_IsMajor k"

definition kind_Includes :: "PermissionKind \<Rightarrow> PermissionKind \<Rightarrow> bool" where
  "kind_Includes k otherKind \<longleftrightarrow>
     kind_Major k = kind_Major otherKind \<and> ((kind_IsMajor k \<and> kind_IsMinor otherKind) \<or> k = otherKind)"

fun find_name :: "(PermissionKind \<times> string) list \<Rightarrow> PermissionKind \<Rightarrow> string" where
  "find_name [] kind = ''<invalid permission kind>''"
| "find_name ((k, name) # es) kind = (if k = kind then name else find_name es kind)"

definition kind_String :: "PermissionKind \<Rightarrow> string" where
  "kind_String kind = (if kind < 0 then ''<invalid permission kind>'' else find_name PERMISSION_KINDS kind)"

fun find_kind :: "(PermissionKind \<times> string) list \<Rightarrow> string \<Rightarrow> PermissionKind option" where
  "find_kind [] s = None"
| "find_kind ((k, name) # es) s = (if name = s then Some k else find_kind es s)"

definition PermissionKindFromString :: "string \<Rightarrow> PermissionKind option" where
  "PermissionKindFromString s = find_kind PERMISSION_KINDS s"

lemma kind_Includes_refl [simp]: "kind_Includes k k"
  by (simp add: kind_Includes_def)

lemma kind_Includes_trans: "kind_Includes a b \<Longrightarrow> kind_Includes b c \<Longrightarrow> kind_Includes a c"
  by (auto simp: kind_Includes_def kind_IsMinor_def)

lemma kind_Includes_antisym: "kind_Includes a b \<Longrightarrow> kind_Includes b a \<Longrightarrow> a = b"
  by (auto simp: kind_Includes_def kind_IsMinor_def)

section \<open>Path patterns\<close>

definition PREFIX_PATH_PATTERN_SUFFIX :: string where
  "PREFIX_PATH_PATTERN_SUFFIX = ''/...''"

definition MAX_TESTED_PATH_BYTE_LENGTH :: nat where
  "MAX_TESTED_PATH_BYTE_LENGTH = 4095"

datatype WrappedString = Str string | Path string | PathPattern string | OtherWrapped string string

definition IsPrefixPattern :: "string \<Rightarrow> bool" where
  "IsPrefixPattern patt \<longleftrightarrow> suffix PREFIX_PATH_PATTERN_SUFFIX patt"

definition patt_Prefix :: "string \<Rightarrow> string" where
  "patt_Prefix patt = (if IsPrefixPattern patt then take (length patt - length ''...'') patt else patt)"

type_synonym glob = "string \<Rightarrow> string \<Rightarrow> bool"

definition PathPattern_Includes :: "glob \<Rightarrow> string \<Rightarrow> WrappedString \<Rightarrow> bool option" where
  "PathPattern_Includes glob patt v =
    (case v of
       Path other \<Rightarrow>
         (if IsPrefixPattern patt then Some (prefix (patt_Prefix patt) other)
          else if length other > MAX_TESTED_PATH_BYTE_LENGTH then None
          else Some (glob patt other))
     | PathPattern other \<Rightarrow>
         (if IsPrefixPattern patt then Some (prefix (patt_Prefix patt) other) else Some (patt = other))
     | _ \<Rightarrow> Some False)"

text \<open>\<open>Path.ToPrefixPattern\<close>: glob characters that are not escaped are escaped.\<close>

definition countPrevBackslashes :: "string \<Rightarrow> nat \<Rightarrow> nat" where
  "countPrevBackslashes s i = length (takeWhile (\<lambda>c. c = CHR 0x5C) (rev (take i s)))"

fun escape_loop :: "string \<Rightarrow> nat \<Rightarrow> string \<Rightarrow> string option \<Rightarrow> string option" where
  "escape_loop pth i [] escapedPath = escapedPath"
| "escape_loop pth i (b # bs) escapedPath =
    escape_loop pth (Suc i) bs
      (if b \<in> {CHR ''*'', CHR ''?'', CHR ''[''} then
         (if even (countPrevBackslashes pth i) then
            Some ((case escapedPath of None \<Rightarrow> take i pth | Some e \<Rightarrow> e) @ [CHR 0x5C, b])
          else escapedPath)
       else map_option (\<lambda>e. e @ [b]) escapedPath)"

definition ToPrefixPattern :: "string \<Rightarrow> string option" where
  "ToPrefixPattern pth =
    (if pth = [] \<or> last pth \<noteq> CHR ''/'' then None
     else Some ((case escape_loop pth 0 pth None of None \<Rightarrow> pth | Some e \<Rightarrow> e) @ ''...''))"

section \<open>Permissions\<close>

datatype Permission =
  GlobalVarPermission PermissionKind string
| EnvVarPermission PermissionKind string
| LThreadPermission PermissionKind
| FilesystemPermission PermissionKind WrappedString
| CommandPermission WrappedString "string list"
| SystemGraphAccessPermission PermissionKind

fun perm_Kind :: "Permission \<Rightarrow> PermissionKind" where
  "perm_Kind (GlobalVarPermission k _) = k"
| "perm_Kind (EnvVarPermission k _) = k"
| "perm_Kind (LThreadPermission k) = k"
| "perm_Kind (FilesystemPermission k _) = k"
| "perm_Kind (CommandPermission _ _) = Use"
| "perm_Kind (SystemGraphAccessPermission k) = k"

fun InternalPermTypename :: "Permission \<Rightarrow> string" where
  "InternalPermTypename (GlobalVarPermission _ _) = ''global-var''"
| "InternalPermTypename (EnvVarPermission _ _) = ''env''"
| "InternalPermTypename (LThreadPermission _) = ''threads''"
| "InternalPermTypename (FilesystemPermission _ _) = ''filesystem''"
| "InternalPermTypename (CommandPermission _ _) = ''threads''"
| "InternalPermTypename (SystemGraphAccessPermission _) = ''system-graph''"

fun command_name_includes :: "glob \<Rightarrow> WrappedString \<Rightarrow> WrappedString \<Rightarrow> bool option" where
  "command_name_includes glob (Str cmdName) other = Some (other = Str cmdName)"
| "command_name_includes glob (Path cmdName) other = Some (other = Path cmdName)"
| "command_name_includes glob (PathPattern cmdName) other =
    (case other of
       Path _ \<Rightarrow> PathPattern_Includes glob cmdName other
     | PathPattern _ \<Rightarrow> PathPattern_Includes glob cmdName other
     | _ \<Rightarrow> Some False)"
| "command_name_includes glob (OtherWrapped _ _) other = Some False"

fun entity_includes :: "glob \<Rightarrow> WrappedString \<Rightarrow> WrappedString \<Rightarrow> bool option" where
  "entity_includes glob (Path e) other = Some (other = Path e)"
| "entity_includes glob (PathPattern e) other = PathPattern_Includes glob e other"
| "entity_includes glob _ other = Some False"

definition GlobalVar_Includes :: "PermissionKind \<Rightarrow> string \<Rightarrow> Permission \<Rightarrow> bool option" where [simp]:
  "GlobalVar_Includes k name otherPerm =
    (case otherPerm of
       GlobalVarPermission k' name' \<Rightarrow> Some (kind_Includes k k' \<and> (name = ''*'' \<or> name = name'))
     | _ \<Rightarrow> Some False)"

definition EnvVar_Includes :: "PermissionKind \<Rightarrow> string \<Rightarrow> Permission \<Rightarrow> bool option" where [simp]:
  "EnvVar_Includes k name otherPerm =
    (case otherPerm of
       EnvVarPermission k' name' \<Rightarrow> Some (kind_Includes k k' \<and> (name = ''*'' \<or> name = name'))
     | _ \<Rightarrow> Some False)"

definition LThread_Includes :: "PermissionKind \<Rightarrow> Permission \<Rightarrow> bool option" where [simp]:
  "LThread_Includes k otherPerm =
    (case otherPerm of LThreadPermission k' \<Rightarrow> Some (kind_Includes k k') | _ \<Rightarrow> Some False)"

definition Filesystem_Includes :: "glob \<Rightarrow> PermissionKind \<Rightarrow> WrappedString \<Rightarrow> Permission \<Rightarrow> bool option" where [simp]:
  "Filesystem_Includes glob k e otherPerm =
    (case otherPerm of
       FilesystemPermission k' e' \<Rightarrow> (if kind_Includes k k' then entity_includes glob e e' else Some False)
     | _ \<Rightarrow> Some False)"

text \<open>The kind of a command permission is always \<open>Use\<close>, which includes itself.\<close>

definition Command_Includes :: "glob \<Rightarrow> WrappedString \<Rightarrow> string list \<Rightarrow> Permission \<Rightarrow> bool option" where [simp]:
  "Command_Includes glob n chain otherPerm =
    (case otherPerm of
       CommandPermission n' chain' \<Rightarrow>
         (if \<not> kind_Includes Use Use then Some False
          else (case command_name_includes glob n n' of
                  None \<Rightarrow> None
                | Some ok \<Rightarrow> Some (ok \<and> length chain' = length chain \<and> list_all2 (=) chain chain')))
     | _ \<Rightarrow> Some False)"

definition SystemGraph_Includes :: "PermissionKind \<Rightarrow> Permission \<Rightarrow> bool option" where [simp]:
  "SystemGraph_Includes k otherPerm =
    (case otherPerm of SystemGraphAccessPermission k' \<Rightarrow> Some (kind_Includes k k') | _ \<Rightarrow> Some False)"

text \<open>The method call on the interface.\<close>

fun perm_Includes :: "glob \<Rightarrow> Permission \<Rightarrow> Permission \<Rightarrow> bool option" where
  "perm_Includes glob (GlobalVarPermission k name) other = GlobalVar_Includes k name other"
| "perm_Includes glob (EnvVarPermission k name) other = EnvVar_Includes k name other"
| "perm_Includes glob (LThreadPermission k) other = LThread_Includes k other"
| "perm_Includes glob (FilesystemPermission k e) other = Filesystem_Includes glob k e other"
| "perm_Includes glob (CommandPermission n chain) other = Command_Includes glob n chain other"
| "perm_Includes glob (SystemGraphAccessPermission k) other = SystemGraph_Includes k other"

text \<open>\<open>Includes\<close> tried on a list, from the first permission on; a panic ends the search.\<close>

fun any_includes :: "('p \<Rightarrow> 'p \<Rightarrow> bool option) \<Rightarrow> 'p list \<Rightarrow> 'p \<Rightarrow> bool option" where
  "any_includes inc [] p = Some False"
| "any_includes inc (q # qs) p =
    (case inc q p of None \<Rightarrow> None | Some True \<Rightarrow> Some True | Some False \<Rightarrow> any_includes inc qs p)"

fun RemovePerms :: "('p \<Rightarrow> 'p \<Rightarrow> bool option) \<Rightarrow> 'p list \<Rightarrow> 'p list \<Rightarrow> 'p list option" where
  "RemovePerms inc [] removedPerms = Some []"
| "RemovePerms inc (perm # grantedPerms) removedPerms =
    (case any_includes inc removedPerms perm of
       None \<Rightarrow> None
     | Some True \<Rightarrow> RemovePerms inc grantedPerms removedPerms
     | Some False \<Rightarrow> map_option (\<lambda>ps. perm # ps) (RemovePerms inc grantedPerms removedPerms))"

section \<open>The interface\<close>

lemma any_includes_True_D: "any_includes inc qs p = Some True \<Longrightarrow> \<exists>q \<in> set qs. inc q p = Some True"
  by (induction qs) (auto split: option.splits bool.splits)

lemma any_includes_False_iff: "any_includes inc qs p = Some False \<longleftrightarrow> (\<forall>q \<in> set qs. inc q p = Some False)"
  by (induction qs) (auto split: option.splits bool.splits)

lemma any_includes_append_False:
  "any_includes inc (qs @ rs) p = Some False \<longleftrightarrow> any_includes inc qs p = Some False \<and> any_includes inc rs p = Some False"
  by (auto simp: any_includes_False_iff)

lemma any_includes_None_D: "any_includes inc qs p = None \<Longrightarrow> \<exists>q \<in> set qs. inc q p = None"
  by (induction qs) (auto split: option.splits bool.splits)

lemma RemovePerms_set:
  "RemovePerms inc gs rs = Some ps \<Longrightarrow> ps = filter (\<lambda>g. any_includes inc rs g = Some False) gs"
  by (induction gs arbitrary: ps) (auto split: option.splits bool.splits)

text \<open>
  What the clients of \<open>Permission.Includes\<close> rely on: reflexivity for the permissions that are \<open>ok\<close>, and transitivity through the
  permissions that are \<open>plain\<close>.
\<close>

locale permission_order =
  fixes inc :: "'p \<Rightarrow> 'p \<Rightarrow> bool option" and ok plain :: "'p \<Rightarrow> bool"
  assumes inc_refl: "ok a \<Longrightarrow> inc a a = Some True"
    and inc_trans: "plain b \<Longrightarrow> inc a b = Some True \<Longrightarrow> inc b c = Some True \<Longrightarrow> inc a c = Some True"
begin

lemma any_includes_trans:
  assumes "plain b" and "any_includes inc qs b = Some True" and "inc b c = Some True"
  shows "\<exists>q \<in> set qs. inc q c = Some True"
  using any_includes_True_D[OF assms(2)] inc_trans[OF assms(1) _ assms(3)] by blast

lemma removed_not_remaining:
  assumes "list_all ok rs" and "RemovePerms inc gs rs = Some ps" and "r \<in> set rs"
  shows "r \<notin> set ps"
  using RemovePerms_set[OF assms(2)] assms(1,3) inc_refl by (force simp: any_includes_False_iff list_all_iff)

end

section \<open>Permissions implement the interface\<close>

text \<open>
  Nothing is assumed of glob matching. Inclusion is transitive through paths and prefix patterns, but not through glob patterns:
  \<open>/a/...\<close> includes \<open>/a/**\<close>, which matches \<open>/a\<close>, but \<open>/a/...\<close> does not include \<open>/a\<close> (\<open>glob_breaks_transitivity\<close> below).
\<close>

fun entity_ok :: "WrappedString \<Rightarrow> bool" where
  "entity_ok (Path _) \<longleftrightarrow> True"
| "entity_ok (PathPattern p) \<longleftrightarrow> True"
| "entity_ok _ \<longleftrightarrow> False"

fun perm_ok :: "Permission \<Rightarrow> bool" where
  "perm_ok (FilesystemPermission _ e) \<longleftrightarrow> entity_ok e"
| "perm_ok (CommandPermission n _) \<longleftrightarrow> entity_ok n \<or> (\<exists>s. n = Str s)"
| "perm_ok _ \<longleftrightarrow> True"

fun glob_free_entity :: "WrappedString \<Rightarrow> bool" where
  "glob_free_entity (PathPattern p) \<longleftrightarrow> IsPrefixPattern p"
| "glob_free_entity _ \<longleftrightarrow> True"

fun glob_free :: "Permission \<Rightarrow> bool" where
  "glob_free (FilesystemPermission _ e) \<longleftrightarrow> glob_free_entity e"
| "glob_free (CommandPermission n _) \<longleftrightarrow> glob_free_entity n"
| "glob_free _ \<longleftrightarrow> True"

lemma prefix_pattern_split: "IsPrefixPattern p \<Longrightarrow> \<exists>d. p = d @ ''/...'' \<and> patt_Prefix p = d @ ''/''"
  by (auto simp: IsPrefixPattern_def patt_Prefix_def PREFIX_PATH_PATTERN_SUFFIX_def suffix_def)

lemma prefix_slash_dots:
  assumes "prefix (d @ ''/'') (e @ ''/...'')"
  shows "prefix (d @ ''/'') (e @ ''/'')"
proof -
  obtain r where r: "e @ ''/...'' = (d @ ''/'') @ r" using assms by (auto simp: prefix_def)
  have "prefix (d @ ''/'') (e @ ''/'') \<or> prefix (e @ ''/'') (d @ ''/'')"
    using assms by (metis append.assoc append_Cons append_Nil prefixI prefix_same_cases)
  then show ?thesis
  proof
    assume "prefix (e @ ''/'') (d @ ''/'')"
    then obtain t where t: "d @ ''/'' = (e @ ''/'') @ t" by (auto simp: prefix_def)
    have "t @ r = ''...''" using r unfolding t by simp
    then have "set t \<union> set r = {CHR ''.''}" by (metis set_append set_simps(1,2) insert_absorb2)
    then have "CHR ''/'' \<notin> set t" by auto
    then have "t = []" using t by (cases t rule: rev_cases) auto
    then show ?thesis using t by simp
  qed
qed

lemma PathPattern_Includes_self: "PathPattern_Includes glob p (PathPattern p) = Some True"
  using prefix_pattern_split[of p] by (auto simp: PathPattern_Includes_def)

lemma PathPattern_Includes_trans:
  assumes "IsPrefixPattern b" and "PathPattern_Includes glob a (PathPattern b) = Some True"
    and "PathPattern_Includes glob b c = Some True"
  shows "PathPattern_Includes glob a c = Some True"
proof (cases "IsPrefixPattern a")
  case False
  then show ?thesis using assms(2,3) by (auto simp: PathPattern_Includes_def)
next
  case True
  then have ab: "prefix (patt_Prefix a) b" using assms(2) by (auto simp: PathPattern_Includes_def)
  obtain d where d: "patt_Prefix a = d @ ''/''" using prefix_pattern_split[OF True] by blast
  obtain e where e: "b = e @ ''/...''" "patt_Prefix b = e @ ''/''" using prefix_pattern_split[OF assms(1)] by blast
  have "prefix (patt_Prefix a) (patt_Prefix b)" using prefix_slash_dots ab d e by simp
  then show ?thesis
    using True assms(1,3) prefix_order.trans by (auto simp: PathPattern_Includes_def split: WrappedString.splits)
qed

lemma entity_includes_trans:
  assumes "glob_free_entity b" and "entity_includes glob a b = Some True" and "entity_includes glob b c = Some True"
  shows "entity_includes glob a c = Some True"
proof (cases a)
  case (PathPattern p)
  show ?thesis
  proof (cases b)
    case (PathPattern q)
    then show ?thesis
      using assms \<open>a = PathPattern p\<close> PathPattern_Includes_trans[of q glob p c] by simp
  qed (use assms PathPattern in \<open>auto simp: PathPattern_Includes_def\<close>)
qed (use assms in auto)

lemma entity_includes_refl: "entity_ok a \<Longrightarrow> entity_includes glob a a = Some True"
  by (cases a) (auto simp: PathPattern_Includes_self)

lemma command_name_entity:
  "command_name_includes glob n n' = (case n of Str s \<Rightarrow> Some (n' = Str s) | _ \<Rightarrow> entity_includes glob n n')"
  by (cases n) (auto simp: PathPattern_Includes_def split: WrappedString.splits)

lemma command_name_trans:
  assumes "glob_free_entity b" and "command_name_includes glob a b = Some True" and "command_name_includes glob b c = Some True"
  shows "command_name_includes glob a c = Some True"
proof (cases "\<exists>s. b = Str s")
  case True
  then show ?thesis
    using assms by (cases a) (auto simp: PathPattern_Includes_def split: WrappedString.splits if_splits)
next
  case False
  then show ?thesis
    using assms entity_includes_trans[of b glob a c]
    by (cases a; cases b) (auto simp: command_name_entity)
qed

lemma fs_includes_iff:
  "perm_Includes glob (FilesystemPermission k e) b = Some True \<longleftrightarrow>
   (\<exists>k' e'. b = FilesystemPermission k' e' \<and> kind_Includes k k' \<and> entity_includes glob e e' = Some True)"
  by (cases b) auto

lemma command_includes_iff:
  "perm_Includes glob (CommandPermission n ch) b = Some True \<longleftrightarrow>
   (\<exists>n'. b = CommandPermission n' ch \<and> command_name_includes glob n n' = Some True)"
  by (cases b) (auto split: option.splits simp: list.rel_eq)

lemma simple_includes_iff:
  "perm_Includes glob (GlobalVarPermission k n) b = Some True \<longleftrightarrow>
     (\<exists>k' n'. b = GlobalVarPermission k' n' \<and> kind_Includes k k' \<and> (n = ''*'' \<or> n = n'))"
  "perm_Includes glob (EnvVarPermission k n) b = Some True \<longleftrightarrow>
     (\<exists>k' n'. b = EnvVarPermission k' n' \<and> kind_Includes k k' \<and> (n = ''*'' \<or> n = n'))"
  "perm_Includes glob (LThreadPermission k) b = Some True \<longleftrightarrow> (\<exists>k'. b = LThreadPermission k' \<and> kind_Includes k k')"
  "perm_Includes glob (SystemGraphAccessPermission k) b = Some True \<longleftrightarrow>
     (\<exists>k'. b = SystemGraphAccessPermission k' \<and> kind_Includes k k')"
  by (cases b; auto)+

interpretation perms: permission_order "perm_Includes glob" perm_ok glob_free for glob
proof
  fix a assume "perm_ok a"
  then show "perm_Includes glob a a = Some True"
    by (cases a) (auto simp: entity_includes_refl command_name_entity list_all2_refl
        PathPattern_Includes_self split: WrappedString.splits)
next
  fix a b c
  assume plain: "glob_free b" and ab: "perm_Includes glob a b = Some True" and bc: "perm_Includes glob b c = Some True"
  show "perm_Includes glob a c = Some True"
  proof (cases a)
    case (FilesystemPermission k e)
    then show ?thesis
      using plain ab bc by (auto simp: fs_includes_iff simp del: perm_Includes.simps) (blast intro: kind_Includes_trans entity_includes_trans)+
  next
    case (CommandPermission n ch)
    then show ?thesis
      using plain ab bc by (auto simp: command_includes_iff simp del: perm_Includes.simps) (blast intro: command_name_trans)+
  qed (use ab bc in \<open>auto simp: simple_includes_iff simp del: perm_Includes.simps\<close>, (blast intro: kind_Includes_trans)+)
qed

section \<open>Properties\<close>

text \<open>
  (C21) Inclusion of the permissions on global variables, environment variables, threads, files, commands and the system graph:
  every such permission (on a path or path pattern, for files, and on a path, path pattern or name, for commands) includes itself, and if \<open>a\<close> includes
  \<open>b\<close> and \<open>b\<close> includes \<open>c\<close> then \<open>a\<close> includes \<open>c\<close>, provided that \<open>b\<close> is not on a glob pattern (a path pattern that is not a prefix
  pattern). It holds whatever the glob matcher does. Permissions on URLs, hosts, databases and
  values are not covered.
\<close>

theorem Includes_is_preorder:
  assumes "perm_ok a" and "glob_free b"
  shows "perm_Includes glob a a = Some True \<and>
         (\<forall>p c. perm_Includes glob p b = Some True \<longrightarrow> perm_Includes glob b c = Some True \<longrightarrow>
                perm_Includes glob p c = Some True)"
  using perms.inc_refl[OF assms(1)] perms.inc_trans[OF assms(2)] by blast

theorem Includes_is_preorder_witness:
  "perm_Includes (\<lambda>p s. p = s) (FilesystemPermission Write (PathPattern ''/a/...''))
     (FilesystemPermission Update (Path ''/a/b/c'')) = Some True"
proof -
  have ok: "perm_ok (FilesystemPermission Write (PathPattern ''/a/...''))" by simp
  have free: "glob_free (FilesystemPermission Write (PathPattern ''/a/b/...''))"
    by (simp add: IsPrefixPattern_def PREFIX_PATH_PATTERN_SUFFIX_def suffix_def)
  have "perm_Includes (\<lambda>p s. p = s) (FilesystemPermission Write (PathPattern ''/a/...''))
     (FilesystemPermission Write (PathPattern ''/a/b/...'')) = Some True"
   "perm_Includes (\<lambda>p s. p = s) (FilesystemPermission Write (PathPattern ''/a/b/...''))
     (FilesystemPermission Update (Path ''/a/b/c'')) = Some True"
    by code_simp+
  then show ?thesis using Includes_is_preorder[OF ok free] by blast
qed

text \<open>
  Through a glob pattern inclusion is not transitive: the matcher lets \<open>/a/**\<close> match \<open>/a\<close> itself, and a prefix pattern includes every
  pattern that starts with its directory, but not the directory.
\<close>

theorem glob_breaks_transitivity:
  assumes "glob ''/a/**'' ''/a''"
  shows "perm_Includes glob (FilesystemPermission Read (PathPattern ''/a/...'')) (FilesystemPermission Read (PathPattern ''/a/**'')) = Some True \<and>
    perm_Includes glob (FilesystemPermission Read (PathPattern ''/a/**'')) (FilesystemPermission Read (Path ''/a'')) = Some True \<and>
    perm_Includes glob (FilesystemPermission Read (PathPattern ''/a/...'')) (FilesystemPermission Read (Path ''/a'')) = Some False"
  using assms
  by (simp add: PathPattern_Includes_def IsPrefixPattern_def PREFIX_PATH_PATTERN_SUFFIX_def patt_Prefix_def suffix_def
      MAX_TESTED_PATH_BYTE_LENGTH_def)

text \<open>
  Kinds: inclusion of permission kinds is a partial order, a major kind includes exactly its minor kinds and
  itself, and the names of the kinds are read back as written.
\<close>

theorem kinds_partial_order:
  "kind_Includes a a \<and>
   (kind_Includes a b \<and> kind_Includes b c \<longrightarrow> kind_Includes a c) \<and>
   (kind_Includes a b \<and> kind_Includes b a \<longrightarrow> a = b) \<and>
   (\<forall>(k, name) \<in> set PERMISSION_KINDS. PermissionKindFromString (kind_String k) = Some k \<and> kind_String k = name) \<and>
   filter (\<lambda>k. kind_Includes Write k) (map fst PERMISSION_KINDS) = [Write, Update, Create, WriteStream]"
proof -
  have "\<forall>(k, name) \<in> set PERMISSION_KINDS. PermissionKindFromString (kind_String k) = Some k \<and> kind_String k = name"
    by code_simp
  moreover have "filter (\<lambda>k. kind_Includes Write k) (map fst PERMISSION_KINDS) = [Write, Update, Create, WriteStream]"
    by code_simp
  ultimately show ?thesis using kind_Includes_trans kind_Includes_antisym kind_Includes_refl by blast
qed

theorem kinds_partial_order_witness:
  "PermissionKindFromString (kind_String Update) = Some Update \<and> (kind_Includes Write Update \<and> kind_Includes Update Update)"
proof -
  have mem: "(Update, ''update'') \<in> set PERMISSION_KINDS" and inc: "kind_Includes Write Update" by code_simp+
  note all = kinds_partial_order[of Write Update Update, THEN conjunct2, THEN conjunct2, THEN conjunct2, THEN conjunct1]
  show ?thesis using bspec[OF all mem, unfolded prod.case] inc kind_Includes_refl by (elim conjE) (intro conjI)
qed

text \<open>
  A prefix pattern made by \<open>ToPrefixPattern\<close> from a directory whose name contains a glob character does not include
  the entries of that directory: the character is escaped in the pattern, but \<open>Includes\<close> compares the prefix literally.
\<close>

theorem escaped_prefix_pattern_misses_entries:
  "ToPrefixPattern ''/a*/'' = Some (''/a'' @ [CHR 0x5C] @ ''*/...'') \<and>
   PathPattern_Includes glob (''/a'' @ [CHR 0x5C] @ ''*/...'') (Path (''/a*/'' @ name)) = Some False"
proof
  show "ToPrefixPattern ''/a*/'' = Some (''/a'' @ [CHR 0x5C] @ ''*/...'')" by code_simp
  show "PathPattern_Includes glob (''/a'' @ [CHR 0x5C] @ ''*/...'') (Path (''/a*/'' @ name)) = Some False"
    by (simp add: PathPattern_Includes_def patt_Prefix_def IsPrefixPattern_def PREFIX_PATH_PATTERN_SUFFIX_def suffix_def)
qed

end
