(* ===== verification/Limits.thy ===== *)
theory Limits
  imports TokenBuckets
begin

text \<open>
  Limits and limiters (\<open>internal/core/limit.go\<close>): the registry of limit names, the translation of a manifest value into
  a \<open>Limit\<close>, and the limiter that a context keeps for each limit, in front of a token bucket that child limiters share.
  A limiter operation takes and returns the limiter together with its bucket.
\<close>

section \<open>Limits\<close>

datatype LimitKind = FrequencyLimit | ByteRateLimit | TotalLimit

record Limit =
  lim_Name :: string
  lim_Kind :: LimitKind
  lim_Value :: int
  lim_DecrementFn :: "TokenDepletionFn option"

datatype limit_error =
  DifferentName | DifferentKind | DifferentRegistration
| NotRegistered | InvalidValue | InvalidType | TooLow | TooHigh | ShouldHaveTotal
| AutoDepletion | StateIdNotSet | AlreadyPaused | NotPaused | NotTotalLimit
| NotEnoughTokens | BucketPanic tb_panic

definition LessOrAsRestrictiveAs :: "Limit \<Rightarrow> Limit \<Rightarrow> limit_error + bool" where
  "LessOrAsRestrictiveAs l other =
    (if lim_Name other \<noteq> lim_Name l then Inl DifferentName
     else if lim_Kind other \<noteq> lim_Kind l then Inl DifferentKind
     else Inr (lim_Value l \<ge> lim_Value other))"

definition MoreRestrictiveThan :: "Limit \<Rightarrow> Limit \<Rightarrow> limit_error + bool" where
  "MoreRestrictiveThan l other =
    (if lim_Name other \<noteq> lim_Name l then Inl DifferentName
     else if lim_Kind other \<noteq> lim_Kind l then Inl DifferentKind
     else Inr (lim_Value l < lim_Value other))"

definition THREADS_SIMULTANEOUS_INSTANCES_LIMIT_NAME :: string where
  "THREADS_SIMULTANEOUS_INSTANCES_LIMIT_NAME = ''threads/simul-instances''"

definition EXECUTION_TOTAL_LIMIT_NAME :: string where
  "EXECUTION_TOTAL_LIMIT_NAME = ''execution/total-time''"

definition EXECUTION_CPU_TIME_LIMIT_NAME :: string where
  "EXECUTION_CPU_TIME_LIMIT_NAME = ''execution/cpu-time''"

definition MAX_LIMIT_VALUE :: int where
  "MAX_LIMIT_VALUE = tdiv (2 ^ 63 - 1) CAPACITY_SCALE"

section \<open>The registry\<close>

record limitRegistry =
  reg_kinds :: "string \<rightharpoonup> LimitKind"
  minimumLimits :: "string \<rightharpoonup> int"

definition registerLimit :: "string \<Rightarrow> LimitKind \<Rightarrow> int \<Rightarrow> limitRegistry \<Rightarrow> limit_error + limitRegistry" where
  "registerLimit name kind minimumLimit r =
    (case reg_kinds r name of
       Some registeredKind \<Rightarrow>
         (if registeredKind \<noteq> kind \<or>
             minimumLimit \<noteq> (case minimumLimits r name of Some m \<Rightarrow> m | None \<Rightarrow> 0)
          then Inl DifferentRegistration else Inr r)
     | None \<Rightarrow> Inr (r\<lparr>reg_kinds := (reg_kinds r)(name \<mapsto> kind),
                     minimumLimits := (minimumLimits r)(name \<mapsto> minimumLimit)\<rparr>))"

definition getLimitInfo :: "string \<Rightarrow> limitRegistry \<Rightarrow> (LimitKind \<times> int) option" where
  "getLimitInfo name r =
    (case reg_kinds r name of
       None \<Rightarrow> None
     | Some k \<Rightarrow> Some (k, case minimumLimits r name of Some m \<Rightarrow> m | None \<Rightarrow> 0))"

definition reg_clear :: "limitRegistry \<Rightarrow> limitRegistry" where
  "reg_clear r = r\<lparr>reg_kinds := (\<lambda>_. None), minimumLimits := (\<lambda>_. None)\<rparr>"

definition resetLimitRegistry :: "limitRegistry \<Rightarrow> limit_error + limitRegistry" where
  "resetLimitRegistry r0 =
    (case registerLimit THREADS_SIMULTANEOUS_INSTANCES_LIMIT_NAME TotalLimit 0 (reg_clear r0) of
       Inl e \<Rightarrow> Inl e
     | Inr r1 \<Rightarrow>
         (case registerLimit EXECUTION_TOTAL_LIMIT_NAME TotalLimit 0 r1 of
            Inl e \<Rightarrow> Inl e
          | Inr r2 \<Rightarrow> registerLimit EXECUTION_CPU_TIME_LIMIT_NAME TotalLimit 0 r2))"

definition isLimitWithAutoDepletion :: "string \<Rightarrow> bool" where
  "isLimitWithAutoDepletion limitName \<longleftrightarrow>
     limitName = EXECUTION_TOTAL_LIMIT_NAME \<or> limitName = EXECUTION_CPU_TIME_LIMIT_NAME"

definition MustMakeNotAutoDepletingCountLimit :: "string \<Rightarrow> int \<Rightarrow> limitRegistry \<Rightarrow> limit_error + Limit" where
  "MustMakeNotAutoDepletingCountLimit limitName value r =
    (if isLimitWithAutoDepletion limitName then Inl AutoDepletion
     else (case getLimitInfo limitName r of
             None \<Rightarrow> Inl NotRegistered
           | Some (kind, minimum) \<Rightarrow>
               if value < minimum then Inl TooLow
               else Inr \<lparr>lim_Name = limitName, lim_Kind = kind, lim_Value = value, lim_DecrementFn = None\<rparr>))"

definition mustGetMinimumNotAutoDepletingCountLimit :: "string \<Rightarrow> limitRegistry \<Rightarrow> limit_error + Limit" where
  "mustGetMinimumNotAutoDepletingCountLimit limitName r =
    (if isLimitWithAutoDepletion limitName then Inl AutoDepletion
     else (case getLimitInfo limitName r of
             None \<Rightarrow> Inl NotRegistered
           | Some (kind, minimum) \<Rightarrow>
               Inr \<lparr>lim_Name = limitName, lim_Kind = kind, lim_Value = minimum, lim_DecrementFn = None\<rparr>))"

text \<open>
  The value given for a limit in a manifest. A frequency is a float: the constructor carries the result of
  \<open>int64(r * FREQ_LIMIT_SCALE)\<close>.
\<close>

datatype limit_value = ByteRateValue int | FrequencyValue int | OtherRate | IntValue int | DurationValue int | OtherValue

definition GetLimit :: "string \<Rightarrow> limit_value \<Rightarrow> limitRegistry \<Rightarrow> limit_error + Limit" where
  "GetLimit limitName limitValue r =
    (case (case limitValue of
             ByteRateValue v \<Rightarrow> Some (ByteRateLimit, v)
           | FrequencyValue v \<Rightarrow> Some (FrequencyLimit, v)
           | IntValue v \<Rightarrow> Some (TotalLimit, v)
           | DurationValue v \<Rightarrow> Some (TotalLimit, v)
           | _ \<Rightarrow> None) of
       None \<Rightarrow> Inl InvalidValue
     | Some (kind, value) \<Rightarrow>
         (case getLimitInfo limitName r of
            None \<Rightarrow> Inl NotRegistered
          | Some (registeredKind, registeredMinimum) \<Rightarrow>
              if kind \<noteq> registeredKind then Inl InvalidType
              else if registeredMinimum > 0 \<and> value < registeredMinimum then Inl TooLow
              else if value > MAX_LIMIT_VALUE then Inl TooHigh
              else if limitName = EXECUTION_TOTAL_LIMIT_NAME then
                (if value = 0 then Inl ShouldHaveTotal
                 else Inr \<lparr>lim_Name = limitName, lim_Kind = kind, lim_Value = value,
                           lim_DecrementFn = Some (\<lambda>now last states. now - last)\<rparr>)
              else if limitName = EXECUTION_CPU_TIME_LIMIT_NAME then
                (if value = 0 then Inl ShouldHaveTotal
                 else Inr \<lparr>lim_Name = limitName, lim_Kind = kind, lim_Value = value,
                           lim_DecrementFn = Some (\<lambda>now last states. i64 ((now - last) * states))\<rparr>)
              else Inr \<lparr>lim_Name = limitName, lim_Kind = kind, lim_Value = value, lim_DecrementFn = None\<rparr>))"

section \<open>Limiters\<close>

record limiter =
  lm_limit :: Limit
  lm_isChild :: bool
  stateId :: nat
  pausedDepletion :: bool
  definitelyStopped :: bool

definition SetStateOnce :: "nat \<Rightarrow> limiter \<Rightarrow> tokenBucket \<Rightarrow> limiter \<times> tokenBucket" where
  "SetStateOnce sid l tb =
    (l\<lparr>stateId := sid\<rparr>, if lim_DecrementFn (lm_limit l) \<noteq> None then ResumeOneStateDepletion tb else tb)"

definition SetContextIfNotChild :: "ctx_id \<Rightarrow> limiter \<Rightarrow> tokenBucket \<Rightarrow> tokenBucket" where
  "SetContextIfNotChild ctx l tb = (if \<not> lm_isChild l then tb_SetContext ctx tb else tb)"

definition lm_Child :: "limiter \<Rightarrow> limiter" where
  "lm_Child l = \<lparr>lm_limit = lm_limit l, lm_isChild = True, stateId = 0, pausedDepletion = False, definitelyStopped = False\<rparr>"

definition lm_Destroy :: "limiter \<Rightarrow> tokenBucket \<Rightarrow> limiter \<times> tokenBucket" where
  "lm_Destroy l tb =
    (if \<not> lm_isChild l then (l\<lparr>definitelyStopped := True\<rparr>, tb_Destroy tb)
     else if \<not> definitelyStopped l then
       (l\<lparr>definitelyStopped := True\<rparr>, if \<not> pausedDepletion l then PauseOneStateDepletion tb else tb)
     else (l, tb))"

definition lm_Available :: "tokenBucket \<Rightarrow> int" where
  "lm_Available tb = tb_Available tb"

definition lm_Total :: "limiter \<Rightarrow> tokenBucket \<Rightarrow> limit_error + int" where
  "lm_Total l tb = (if lim_Kind (lm_limit l) \<noteq> TotalLimit then Inl NotTotalLimit else Inr (tb_Available tb))"

definition lm_Take :: "int \<Rightarrow> limiter \<Rightarrow> tokenBucket \<Rightarrow> chans \<Rightarrow> limit_error + (wait_outcome \<times> tokenBucket \<times> chans)" where
  "lm_Take count l tb m =
    (if lim_Kind (lm_limit l) = TotalLimit \<and> lim_Value (lm_limit l) \<noteq> 0 \<and> tb_Available tb < count then Inl NotEnoughTokens
     else map_sum BucketPanic id (tb_Take count tb m))"

definition lm_GiveBack :: "int \<Rightarrow> tokenBucket \<Rightarrow> limit_error + tokenBucket" where
  "lm_GiveBack count tb = map_sum BucketPanic id (tb_GiveBack count tb)"

definition PauseDepletion :: "limiter \<Rightarrow> tokenBucket \<Rightarrow> limit_error + (limiter \<times> tokenBucket)" where
  "PauseDepletion l tb =
    (if stateId l = 0 then Inl StateIdNotSet
     else if pausedDepletion l then Inl AlreadyPaused
     else Inr (l\<lparr>pausedDepletion := True\<rparr>, PauseOneStateDepletion tb))"

definition PauseDepletionIfNotPaused :: "limiter \<Rightarrow> tokenBucket \<Rightarrow> limit_error + (limiter \<times> tokenBucket)" where
  "PauseDepletionIfNotPaused l tb = (if pausedDepletion l then Inr (l, tb) else PauseDepletion l tb)"

definition DefinitelyStopDepletion :: "limiter \<Rightarrow> tokenBucket \<Rightarrow> limiter \<times> tokenBucket" where
  "DefinitelyStopDepletion l tb =
    (if \<not> definitelyStopped l then
       (l\<lparr>definitelyStopped := True\<rparr>, if \<not> pausedDepletion l then PauseOneStateDepletion tb else tb)
     else (l, tb))"

definition ResumeDepletion :: "limiter \<Rightarrow> tokenBucket \<Rightarrow> limit_error + (limiter \<times> tokenBucket)" where
  "ResumeDepletion l tb =
    (if stateId l = 0 then Inl StateIdNotSet
     else if \<not> pausedDepletion l then Inl NotPaused
     else Inr (l\<lparr>pausedDepletion := False\<rparr>, ResumeOneStateDepletion tb))"

section \<open>Depletion is balanced\<close>

text \<open>
  The life of a limiter with a depletion function: while the state runs it may be paused and resumed; then it is
  stopped, by \<open>DefinitelyStopDepletion\<close>, by \<open>Destroy\<close> or by both. A call that panics changes nothing.
\<close>

datatype run_op = Pause | PauseIfNotPaused | Resume
datatype stop_op = Stop | Destroy

fun run_step :: "run_op \<Rightarrow> limiter \<times> tokenBucket \<Rightarrow> limiter \<times> tokenBucket" where
  "run_step Pause (l, tb) = (case PauseDepletion l tb of Inl _ \<Rightarrow> (l, tb) | Inr x \<Rightarrow> x)"
| "run_step PauseIfNotPaused (l, tb) = (case PauseDepletionIfNotPaused l tb of Inl _ \<Rightarrow> (l, tb) | Inr x \<Rightarrow> x)"
| "run_step Resume (l, tb) = (case ResumeDepletion l tb of Inl _ \<Rightarrow> (l, tb) | Inr x \<Rightarrow> x)"

fun stop_step :: "stop_op \<Rightarrow> limiter \<times> tokenBucket \<Rightarrow> limiter \<times> tokenBucket" where
  "stop_step Stop (l, tb) = DefinitelyStopDepletion l tb"
| "stop_step Destroy (l, tb) = lm_Destroy l tb"

text \<open>What the limiter adds to the number of depleting states.\<close>

definition share :: "limiter \<Rightarrow> int" where
  "share l = (if pausedDepletion l \<or> definitelyStopped l then 0 else 1)"

lemma pause_resume_count:
  "in_i32 n \<Longrightarrow> in_i32 (n - 1) \<Longrightarrow> depletingStateCount tb = n \<Longrightarrow> depletingStateCount (PauseOneStateDepletion tb) = n - 1"
  "in_i32 (n + 1) \<Longrightarrow> depletingStateCount tb = n \<Longrightarrow> depletingStateCount (ResumeOneStateDepletion tb) = n + 1"
  by (simp_all add: PauseOneStateDepletion_def ResumeOneStateDepletion_def)

lemma run_step_share:
  assumes "0 \<le> n" and "n < 2 ^ 31 - 1" and "\<not> definitelyStopped l" and "depletingStateCount tb = n + share l"
    and "run_step op (l, tb) = (l', tb')"
  shows "\<not> definitelyStopped l' \<and> depletingStateCount tb' = n + share l' \<and> lm_isChild l' = lm_isChild l"
  using assms
  by (cases op) (auto simp: PauseDepletion_def PauseDepletionIfNotPaused_def ResumeDepletion_def share_def in_i32_def
      PauseOneStateDepletion_def ResumeOneStateDepletion_def split: if_splits)

lemma stop_step_share:
  assumes "0 \<le> n" and "n < 2 ^ 31 - 1" and "lm_isChild l" and "depletingStateCount tb = n + share l"
    and "stop_step op (l, tb) = (l', tb')"
  shows "definitelyStopped l' \<and> depletingStateCount tb' = n \<and> lm_isChild l' \<and> share l' = 0"
  using assms
  by (cases op) (auto simp: DefinitelyStopDepletion_def lm_Destroy_def share_def in_i32_def
      PauseOneStateDepletion_def split: if_splits)

lemma run_steps_share:
  assumes "0 \<le> n" and "n < 2 ^ 31 - 1" and "\<not> definitelyStopped l" and "depletingStateCount tb = n + share l"
    and "fold run_step ops (l, tb) = (l', tb')"
  shows "\<not> definitelyStopped l' \<and> depletingStateCount tb' = n + share l' \<and> lm_isChild l' = lm_isChild l"
  using assms(3-)
proof (induction ops arbitrary: l tb)
  case (Cons op ops)
  obtain l1 tb1 where s: "run_step op (l, tb) = (l1, tb1)" by (cases "run_step op (l, tb)")
  then show ?case
    using run_step_share[OF assms(1,2) Cons.prems(1,2) s] Cons.IH[of l1 tb1] Cons.prems(3) by simp
qed simp

lemma stop_steps_share:
  assumes "0 \<le> n" and "n < 2 ^ 31 - 1" and "lm_isChild l" and "depletingStateCount tb = n + share l"
    and "fold stop_step ops (l, tb) = (l', tb')" and "ops \<noteq> []"
  shows "depletingStateCount tb' = n"
  using assms(3-)
proof (induction ops arbitrary: l tb)
  case (Cons op ops)
  obtain l1 tb1 where s: "stop_step op (l, tb) = (l1, tb1)" by (cases "stop_step op (l, tb)")
  have "depletingStateCount tb1 = n" "lm_isChild l1" "share l1 = 0"
    using stop_step_share[OF assms(1,2) Cons.prems(1,2) s] by auto
  then show ?case
    using Cons.IH[of l1 tb1] Cons.prems(3) s by (cases "ops = []") auto
qed simp


section \<open>Properties\<close>

definition sample_limit :: Limit where
  "sample_limit = \<lparr>lim_Name = EXECUTION_CPU_TIME_LIMIT_NAME, lim_Kind = TotalLimit, lim_Value = 2,
     lim_DecrementFn = Some (\<lambda>now last states. (now - last) * states)\<rparr>"

definition sample_limiter :: limiter where
  "sample_limiter = \<lparr>lm_limit = sample_limit, lm_isChild = False, stateId = 0, pausedDepletion = False, definitelyStopped = False\<rparr>"

text \<open>
  (C22) Depletion is balanced. Take a child limiter of a limit with a depletion function (the execution time limits), on a
  bucket that already counts \<open>n\<close> depleting states. Attaching the state makes it \<open>n + 1\<close>; while it runs, any sequence of
  pauses and resumes leaves the count at \<open>n + 1\<close> or, when paused, at \<open>n\<close>; and however often and in whatever order
  \<open>DefinitelyStopDepletion\<close> and \<open>Destroy\<close> are called at the end, the state's share is returned exactly once. Pauses and resumes
  after the first stop are excluded: a resume then counts the state again (\<open>resume_undoes_stop\<close>).
\<close>

theorem depletion_balanced:
  assumes "lim_DecrementFn (lm_limit parent) \<noteq> None" and "depletingStateCount tb = n" and "0 \<le> n" and "n < 2 ^ 31 - 1"
    and "fold run_step ops (SetStateOnce sid (lm_Child parent) tb) = (l, tb1)"
  shows "depletingStateCount tb1 = n + (if pausedDepletion l then 0 else 1) \<and>
         (stops \<noteq> [] \<longrightarrow> depletingStateCount (snd (fold stop_step stops (l, tb1))) = n)"
proof -
  obtain l0 tb0 where s: "SetStateOnce sid (lm_Child parent) tb = (l0, tb0)"
    by (cases "SetStateOnce sid (lm_Child parent) tb")
  then have l0: "\<not> definitelyStopped l0" "depletingStateCount tb0 = n + share l0" "lm_isChild l0"
    using assms(1-4) by (auto simp: SetStateOnce_def lm_Child_def share_def ResumeOneStateDepletion_def in_i32_def)
  have r: "\<not> definitelyStopped l \<and> depletingStateCount tb1 = n + share l \<and> lm_isChild l"
    using run_steps_share[OF assms(3,4) l0(1,2) assms(5)[unfolded s]] l0(3) by simp
  obtain l2 tb2 where f: "fold stop_step stops (l, tb1) = (l2, tb2)" by (cases "fold stop_step stops (l, tb1)")
  show ?thesis
    using r f stop_steps_share[OF assms(3,4) _ _ f] by (auto simp: share_def)
qed

theorem depletion_balanced_witness:
  "depletingStateCount (snd (fold stop_step [Destroy, Stop]
     (fold run_step [Pause, Resume, PauseIfNotPaused] (SetStateOnce 1 (lm_Child sample_limiter) sample_bucket)))) = 0"
  using depletion_balanced[of sample_limiter sample_bucket 0 "[Pause, Resume, PauseIfNotPaused]" 1
      "fst (fold run_step [Pause, Resume, PauseIfNotPaused] (SetStateOnce 1 (lm_Child sample_limiter) sample_bucket))"
      "snd (fold run_step [Pause, Resume, PauseIfNotPaused] (SetStateOnce 1 (lm_Child sample_limiter) sample_bucket))"
      "[Destroy, Stop]"]
  by (simp add: sample_limiter_def sample_limit_def sample_bucket_def)

text \<open>
  The stop is not definite: \<open>ResumeDepletion\<close> does not look at \<open>definitelyStopped\<close>, so a limiter stopped while paused
  and then resumed depletes its bucket again, and no later \<open>DefinitelyStopDepletion\<close> or \<open>Destroy\<close> of the child stops it.
\<close>

theorem resume_undoes_stop:
  assumes "lm_isChild l" and "stateId l \<noteq> 0" and "pausedDepletion l" and "\<not> definitelyStopped l"
    and "0 \<le> depletingStateCount tb" and "depletingStateCount tb < 2 ^ 31 - 1"
    and "DefinitelyStopDepletion l tb = (l1, tb1)"
  shows "\<exists>l2 tb2. ResumeDepletion l1 tb1 = Inr (l2, tb2) \<and> definitelyStopped l2 \<and>
     depletingStateCount tb2 = depletingStateCount tb + 1 \<and>
     DefinitelyStopDepletion l2 tb2 = (l2, tb2) \<and> lm_Destroy l2 tb2 = (l2, tb2)"
  using assms by (auto simp: DefinitelyStopDepletion_def ResumeDepletion_def ResumeOneStateDepletion_def lm_Destroy_def in_i32_def)

theorem resume_undoes_stop_witness:
  "\<exists>l2 tb2. ResumeDepletion ((lm_Child sample_limiter)\<lparr>stateId := 1, pausedDepletion := True, definitelyStopped := True\<rparr>) sample_bucket
      = Inr (l2, tb2) \<and> depletingStateCount tb2 = 1"
  using resume_undoes_stop[of "(lm_Child sample_limiter)\<lparr>stateId := 1, pausedDepletion := True\<rparr>" sample_bucket
      "(lm_Child sample_limiter)\<lparr>stateId := 1, pausedDepletion := True, definitelyStopped := True\<rparr>" sample_bucket]
  by (auto simp: sample_limiter_def sample_bucket_def lm_Child_def DefinitelyStopDepletion_def)

text \<open>
  Taking from a total limit never waits: on a live bucket a take of a non-negative count either panics, because the
  tokens are not there, or gets its tokens at once, and the available count decreases by exactly what was taken.
\<close>

theorem total_limit_never_waits:
  assumes "tb_inv tb" and "lim_Kind (lm_limit l) = TotalLimit" and "lim_Value (lm_limit l) \<noteq> 0" and "0 \<le> count"
    and "notDestroyed tb" and "count * CAPACITY_SCALE \<le> tb_capacity tb"
  shows "if tb_Available tb < count then lm_Take count l tb m = Inl NotEnoughTokens
         else lm_Take count l tb m = Inr (Taken, tb\<lparr>tb_available := tb_available tb - count * CAPACITY_SCALE\<rparr>, m)"
proof (cases "tb_Available tb < count")
  case True
  then show ?thesis using assms by (simp add: lm_Take_def)
next
  case False
  have av: "0 \<le> tb_available tb" "tb_capacity tb < 2 ^ 63" using assms(1) by (auto simp: tb_inv_def)
  have "tb_Available tb = tb_available tb div 1000"
    using av by (simp add: tb_Available_def RealCount_def CAPACITY_SCALE_def tdiv_nonneg)
  then have le: "count * CAPACITY_SCALE \<le> tb_available tb" using False by (simp add: CAPACITY_SCALE_def)
  have c: "i64 (count * CAPACITY_SCALE) = count * CAPACITY_SCALE" "0 \<le> count * CAPACITY_SCALE"
    using assms(4,6) av by (auto intro!: i64_id simp: in_i64_def CAPACITY_SCALE_def)
  show ?thesis
    using False le c assms(5,6) tb_inv_take(1)[OF assms(1) c(2) le]
    by (simp add: lm_Take_def tb_Take_def waitAndTake_def tryTake_def checkCount_bounds Let_def)
qed

theorem total_limit_never_waits_witness:
  "lm_Take 1 sample_limiter sample_bucket no_chans = Inr (Taken, sample_bucket\<lparr>tb_available := 0\<rparr>, no_chans)"
  using total_limit_never_waits[of sample_bucket sample_limiter 1 no_chans]
  by (simp add: sample_limiter_def sample_limit_def sample_bucket_def tb_inv_def notDestroyed_def CAPACITY_SCALE_def
      tb_Available_def RealCount_def tdiv_nonneg)

end
