(* ===== verification/Contexts.thy ===== *)
theory Contexts
  imports Permissions Limits
begin

text \<open>
  Contexts (\<open>internal/core/context.go\<close>): the part of a context that enforces permissions and limits, the creation of a
  context (\<open>NewContext\<close>, \<open>ContextConfig.Check\<close>, \<open>boundChild\<close>), \<open>DropPermissions\<close>, taking and giving back
  tokens, and the contexts the virtual machine creates for a spawned thread (\<open>internal/core/vm.go\<close>). The permission
  type is a parameter with its \<open>Includes\<close> function, as in the code, where it is an interface. Token buckets are shared
  between contexts: a limiter refers to its bucket by position in a store.
\<close>

section \<open>State\<close>

record 'p Context =
  ctx_done :: bool
  grantedPermissions :: "'p list"
  forbiddenPermissions :: "'p list"
  ctx_limits :: "Limit list"
  ctx_limiters :: "(string \<times> limiter \<times> nat) list"
  hostDefinitions :: "string list"

text \<open>
  \<open>cfg_exemptDbPerm\<close> holds for the database permissions that the configuration exempts from the check
  (\<open>DoNotCheckDatabasePerms\<close>, \<open>OwnedDatabases\<close>).
\<close>

record 'p ContextConfig =
  cfg_Permissions :: "'p list"
  cfg_ForbiddenPermissions :: "'p list"
  cfg_Limits :: "Limit list"
  cfg_LimitTokens :: "(string \<rightharpoonup> int) option"
  cfg_HostDefinitions :: "string list"
  cfg_exemptDbPerm :: "'p \<Rightarrow> bool"
  cfg_ParentContext :: "'p Context option"

datatype limiter_error = DuplicateLimit string | BucketCreation tb_panic

datatype 'p ctx_error =
  DoneContext | NotAllowed 'p | PermissionPanic
| LimitNotLessRestrictive string | HostAlreadyDefined string | LimiterCreation limiter_error
| LimitTokensForChild | LimitNotPresent string | LimitFailure limit_error

section \<open>Permissions of a context\<close>

definition hasPermission :: "('p \<Rightarrow> 'p \<Rightarrow> bool option) \<Rightarrow> 'p Context \<Rightarrow> 'p \<Rightarrow> bool option" where
  "hasPermission inc ctx perm =
    (case any_includes inc (forbiddenPermissions ctx) perm of
       None \<Rightarrow> None
     | Some True \<Rightarrow> Some False
     | Some False \<Rightarrow> any_includes inc (grantedPermissions ctx) perm)"

definition CheckHasPermission :: "('p \<Rightarrow> 'p \<Rightarrow> bool option) \<Rightarrow> 'p Context \<Rightarrow> 'p \<Rightarrow> 'p ctx_error option" where
  "CheckHasPermission inc ctx perm =
    (if ctx_done ctx then Some DoneContext
     else (case hasPermission inc ctx perm of
             None \<Rightarrow> Some PermissionPanic
           | Some False \<Rightarrow> Some (NotAllowed perm)
           | Some True \<Rightarrow> None))"

definition HasAPermissionWithKindAndType :: "PermissionKind \<Rightarrow> string \<Rightarrow> Permission Context \<Rightarrow> bool" where
  "HasAPermissionWithKindAndType kind typename ctx \<longleftrightarrow>
     list_ex (\<lambda>g. perm_Kind g = kind \<and> InternalPermTypename g = typename) (grantedPermissions ctx)"

definition DropPermissions :: "('p \<Rightarrow> 'p \<Rightarrow> bool option) \<Rightarrow> 'p list \<Rightarrow> 'p Context \<Rightarrow> 'p ctx_error + 'p Context" where
  "DropPermissions inc droppedPermissions ctx =
    (if ctx_done ctx then Inl DoneContext
     else (case RemovePerms inc (grantedPermissions ctx) droppedPermissions of
             None \<Rightarrow> Inl PermissionPanic
           | Some grantedPerms \<Rightarrow>
               Inr (ctx\<lparr>grantedPermissions := grantedPerms,
                        forbiddenPermissions := forbiddenPermissions ctx @ droppedPermissions\<rparr>)))"

section \<open>Creation of a context\<close>

fun check_perms :: "('p \<Rightarrow> 'p \<Rightarrow> bool option) \<Rightarrow> ('p \<Rightarrow> bool) \<Rightarrow> 'p Context \<Rightarrow> 'p list \<Rightarrow> 'p ctx_error option" where
  "check_perms inc exempt parent [] = None"
| "check_perms inc exempt parent (perm # perms) =
    (if exempt perm then check_perms inc exempt parent perms
     else (case CheckHasPermission inc parent perm of
             Some err \<Rightarrow> Some err
           | None \<Rightarrow> check_perms inc exempt parent perms))"

fun check_limits :: "(string \<times> limiter \<times> nat) list \<Rightarrow> Limit list \<Rightarrow> 'p ctx_error option" where
  "check_limits parentLimiters [] = None"
| "check_limits parentLimiters (limit # limits) =
    (case map_of parentLimiters (lim_Name limit) of
       None \<Rightarrow> check_limits parentLimiters limits
     | Some (pl, _) \<Rightarrow>
         (case LessOrAsRestrictiveAs (lm_limit pl) limit of
            Inl e \<Rightarrow> Some (LimitFailure e)
          | Inr False \<Rightarrow> Some (LimitNotLessRestrictive (lim_Name limit))
          | Inr True \<Rightarrow> check_limits parentLimiters limits))"

definition check_hosts :: "string list \<Rightarrow> string list \<Rightarrow> 'p ctx_error option" where
  "check_hosts parentHosts hosts =
    (case find (\<lambda>h. h \<in> set hosts) parentHosts of None \<Rightarrow> None | Some h \<Rightarrow> Some (HostAlreadyDefined h))"

definition config_Check :: "('p \<Rightarrow> 'p \<Rightarrow> bool option) \<Rightarrow> 'p ContextConfig \<Rightarrow> 'p ctx_error option" where
  "config_Check inc c =
    (case cfg_ParentContext c of
       None \<Rightarrow> None
     | Some parent \<Rightarrow>
         (case check_perms inc (cfg_exemptDbPerm c) parent (cfg_Permissions c) of
            Some err \<Rightarrow> Some err
          | None \<Rightarrow>
              (case check_limits (ctx_limiters parent) (cfg_Limits c) of
                 Some err \<Rightarrow> Some err
               | None \<Rightarrow> check_hosts (hostDefinitions parent) (cfg_HostDefinitions c))))"

definition limit_bucket_config :: "(string \<rightharpoonup> int) option \<Rightarrow> Limit \<Rightarrow> tokenBucketConfig" where
  "limit_bucket_config tokens l =
    \<lparr>cfg_cap = lim_Value l,
     cfg_initialAvail = (case tokens of None \<Rightarrow> - 1
                         | Some t \<Rightarrow> (case t (lim_Name l) of None \<Rightarrow> - 1 | Some v \<Rightarrow> v)),
     cfg_fillRate = (case lim_Kind l of TotalLimit \<Rightarrow> 0 | _ \<Rightarrow> lim_Value l),
     cfg_depleteFn = lim_DecrementFn l,
     cfg_cancelContextOnNegativeCount = (lim_Kind l = TotalLimit)\<rparr>"

fun make_limiters :: "int \<Rightarrow> (string \<times> limiter \<times> nat) list \<Rightarrow> (string \<rightharpoonup> int) option \<Rightarrow> Limit list \<Rightarrow>
    (string \<times> limiter \<times> nat) list \<Rightarrow> tokenBucket list \<Rightarrow>
    limiter_error + ((string \<times> limiter \<times> nat) list \<times> tokenBucket list)" where
  "make_limiters now parentLimiters tokens [] limiters store = Inr (limiters, store)"
| "make_limiters now parentLimiters tokens (l # ls) limiters store =
    (if map_of limiters (lim_Name l) \<noteq> None then Inl (DuplicateLimit (lim_Name l))
     else (case map_of parentLimiters (lim_Name l) of
             Some (pl, b) \<Rightarrow>
               make_limiters now parentLimiters tokens ls (limiters @ [(lim_Name l, lm_Child pl, b)]) store
           | None \<Rightarrow>
               (case newBucket now (limit_bucket_config tokens l) of
                  Inl e \<Rightarrow> Inl (BucketCreation e)
                | Inr tb \<Rightarrow>
                    make_limiters now parentLimiters tokens ls
                      (limiters @ [(lim_Name l,
                         \<lparr>lm_limit = l, lm_isChild = False, stateId = 0, pausedDepletion = False, definitelyStopped = False\<rparr>,
                         length store)])
                      (store @ [tb]))))"

fun inherit_limiters :: "(string \<times> limiter \<times> nat) list \<Rightarrow> (string \<times> limiter \<times> nat) list \<Rightarrow> (string \<times> limiter \<times> nat) list" where
  "inherit_limiters [] limiters = limiters"
| "inherit_limiters ((_, pl, b) # ps) limiters =
    (let limitName = lim_Name (lm_limit pl) in
     inherit_limiters ps
       (if map_of limiters limitName = None then limiters @ [(limitName, lm_Child pl, b)] else limiters))"

definition NewContext :: "('p \<Rightarrow> 'p \<Rightarrow> bool option) \<Rightarrow> int \<Rightarrow> 'p ContextConfig \<Rightarrow> tokenBucket list \<Rightarrow>
    'p ctx_error + ('p Context \<times> tokenBucket list)" where
  "NewContext inc now c store =
    (let parentLimiters = (case cfg_ParentContext c of None \<Rightarrow> [] | Some parent \<Rightarrow> ctx_limiters parent) in
     case make_limiters now parentLimiters (cfg_LimitTokens c) (cfg_Limits c) [] store of
       Inl e \<Rightarrow> Inl (LimiterCreation e)
     | Inr (limiters, store') \<Rightarrow>
         (case cfg_ParentContext c of
            None \<Rightarrow>
              Inr (\<lparr>ctx_done = False, grantedPermissions = cfg_Permissions c,
                    forbiddenPermissions = cfg_ForbiddenPermissions c,
                    ctx_limits = map (\<lambda>(_, l, _). lm_limit l) limiters, ctx_limiters = limiters,
                    hostDefinitions = cfg_HostDefinitions c\<rparr>, store')
          | Some parent \<Rightarrow>
              (case config_Check inc c of
                 Some err \<Rightarrow> Inl err
               | None \<Rightarrow>
                   if cfg_LimitTokens c \<noteq> None then Inl LimitTokensForChild
                   else
                     (let limiters' = inherit_limiters (ctx_limiters parent) limiters in
                      Inr (\<lparr>ctx_done = False, grantedPermissions = cfg_Permissions c,
                            forbiddenPermissions = cfg_ForbiddenPermissions c,
                            ctx_limits = map (\<lambda>(_, l, _). lm_limit l) limiters', ctx_limiters = limiters',
                            hostDefinitions = cfg_HostDefinitions c @ hostDefinitions parent\<rparr>, store')))))"

definition child_config :: "'p list \<Rightarrow> 'p list \<Rightarrow> Limit list \<Rightarrow> 'p Context \<Rightarrow> 'p ContextConfig" where
  "child_config perms forbidden limits parent =
    \<lparr>cfg_Permissions = perms, cfg_ForbiddenPermissions = forbidden, cfg_Limits = limits, cfg_LimitTokens = None,
     cfg_HostDefinitions = [], cfg_exemptDbPerm = (\<lambda>_. False), cfg_ParentContext = Some parent\<rparr>"

definition boundChild :: "('p \<Rightarrow> 'p \<Rightarrow> bool option) \<Rightarrow> int \<Rightarrow> Limit list option \<Rightarrow> 'p Context \<Rightarrow> tokenBucket list \<Rightarrow>
    'p ctx_error + ('p Context \<times> tokenBucket list)" where
  "boundChild inc now opts_Limits ctx store =
    (if ctx_done ctx then Inl DoneContext
     else NewContext inc now
       (child_config (grantedPermissions ctx) (forbiddenPermissions ctx)
          (case opts_Limits of None \<Rightarrow> ctx_limits ctx | Some ls \<Rightarrow> ls) ctx) store)"

section \<open>Contexts of spawned threads\<close>

definition IMPLICITLY_REMOVED_ROUTINE_PERMS :: "Permission list" where
  "IMPLICITLY_REMOVED_ROUTINE_PERMS = [LThreadPermission Create]"

text \<open>A spawn expression with a permission listing, and one without.\<close>

definition spawn_ctx_with_listing :: "('p \<Rightarrow> 'p \<Rightarrow> bool option) \<Rightarrow> int \<Rightarrow> 'p list \<Rightarrow> 'p Context \<Rightarrow> tokenBucket list \<Rightarrow>
    'p ctx_error + ('p Context \<times> tokenBucket list)" where
  "spawn_ctx_with_listing inc now perms ctx store =
    (case check_perms inc (\<lambda>_. False) ctx perms of
       Some err \<Rightarrow> Inl err
     | None \<Rightarrow> NewContext inc now (child_config perms (forbiddenPermissions ctx) [] ctx) store)"

definition spawn_ctx_default :: "('p \<Rightarrow> 'p \<Rightarrow> bool option) \<Rightarrow> 'p list \<Rightarrow> int \<Rightarrow> 'p Context \<Rightarrow> tokenBucket list \<Rightarrow>
    'p ctx_error + ('p Context \<times> tokenBucket list)" where
  "spawn_ctx_default inc removedPerms now ctx store =
    (case RemovePerms inc (grantedPermissions ctx) removedPerms of
       None \<Rightarrow> Inl PermissionPanic
     | Some remainingPerms \<Rightarrow> NewContext inc now (child_config remainingPerms removedPerms [] ctx) store)"


section \<open>Tokens\<close>

definition set_limiter :: "string \<Rightarrow> limiter \<Rightarrow> 'p Context \<Rightarrow> 'p Context" where
  "set_limiter name l ctx =
     ctx\<lparr>ctx_limiters := map (\<lambda>(n, x, b). if n = name then (n, l, b) else (n, x, b)) (ctx_limiters ctx)\<rparr>"

text \<open>\<open>PauseTokenDepletion\<close> and \<open>ResumeDepletion\<close> of a context; a missing limit is an error the callers here ignore.\<close>

definition ctx_on_limiter :: "(limiter \<Rightarrow> tokenBucket \<Rightarrow> limit_error + (limiter \<times> tokenBucket)) \<Rightarrow> string \<Rightarrow>
    'p Context \<Rightarrow> tokenBucket list \<Rightarrow> limit_error + ('p Context \<times> tokenBucket list)" where
  "ctx_on_limiter f limitName ctx store =
    (case map_of (ctx_limiters ctx) limitName of
       None \<Rightarrow> Inr (ctx, store)
     | Some (l, b) \<Rightarrow>
         map_sum id (\<lambda>(l', tb'). (set_limiter limitName l' ctx, store[b := tb'])) (f l (store ! b)))"

definition PauseCPUTimeDepletion :: "'p Context \<Rightarrow> tokenBucket list \<Rightarrow> limit_error + ('p Context \<times> tokenBucket list)" where
  "PauseCPUTimeDepletion = ctx_on_limiter PauseDepletion EXECUTION_CPU_TIME_LIMIT_NAME"

definition ResumeCPUTimeDepletion :: "'p Context \<Rightarrow> tokenBucket list \<Rightarrow> limit_error + ('p Context \<times> tokenBucket list)" where
  "ResumeCPUTimeDepletion = ctx_on_limiter ResumeDepletion EXECUTION_CPU_TIME_LIMIT_NAME"

text \<open>\<open>Take\<close> runs the limiter's \<open>Take\<close> inside \<open>DoIO\<close>; when the goroutine has to wait, the depletion stays paused.\<close>

definition ctx_Take :: "string \<Rightarrow> int \<Rightarrow> 'p Context \<Rightarrow> tokenBucket list \<Rightarrow> chans \<Rightarrow>
    'p ctx_error + (wait_outcome \<times> 'p Context \<times> tokenBucket list \<times> chans)" where
  "ctx_Take limitName count ctx store m =
    (if ctx_done ctx then Inl DoneContext
     else (case map_of (ctx_limiters ctx) limitName of
             None \<Rightarrow> Inl (LimitNotPresent limitName)
           | Some (l, b) \<Rightarrow>
               (case PauseCPUTimeDepletion ctx store of
                  Inl e \<Rightarrow> Inl (LimitFailure e)
                | Inr (ctx1, store1) \<Rightarrow>
                    (case lm_Take count l (store1 ! b) m of
                       Inl e \<Rightarrow> Inl (LimitFailure e)
                     | Inr (out, tb', m') \<Rightarrow>
                         (let store2 = store1[b := tb'] in
                          case out of
                            Waiting _ \<Rightarrow> Inr (out, ctx1, store2, m')
                          | _ \<Rightarrow> (case ResumeCPUTimeDepletion ctx1 store2 of
                                    Inl e \<Rightarrow> Inl (LimitFailure e)
                                  | Inr (ctx3, store3) \<Rightarrow> Inr (out, ctx3, store3, m')))))))"

definition ctx_GiveBack :: "string \<Rightarrow> int \<Rightarrow> 'p Context \<Rightarrow> tokenBucket list \<Rightarrow> 'p ctx_error + tokenBucket list" where
  "ctx_GiveBack limitName count ctx store =
    (if ctx_done ctx then Inl DoneContext
     else
       (let scaledCount = i64 (CAPACITY_SCALE * count) in
        case map_of (ctx_limiters ctx) limitName of
          None \<Rightarrow> Inl (LimitNotPresent limitName)
        | Some (l, b) \<Rightarrow>
            (case lm_GiveBack scaledCount (store ! b) of
               Inl e \<Rightarrow> Inl (LimitFailure e)
             | Inr tb' \<Rightarrow> Inr (store[b := tb']))))"

section \<open>Lemmas\<close>

lemma hasPermission_True:
  assumes "hasPermission inc ctx p = Some True"
  shows "\<exists>g \<in> set (grantedPermissions ctx). inc g p = Some True"
    and "\<forall>f \<in> set (forbiddenPermissions ctx). inc f p = Some False"
proof -
  have f: "any_includes inc (forbiddenPermissions ctx) p = Some False"
    and g: "any_includes inc (grantedPermissions ctx) p = Some True"
    using assms by (auto simp: hasPermission_def split: option.splits bool.splits)
  show "\<exists>g \<in> set (grantedPermissions ctx). inc g p = Some True" using any_includes_True_D[OF g] .
  show "\<forall>f \<in> set (forbiddenPermissions ctx). inc f p = Some False" using f by (simp add: any_includes_False_iff)
qed

lemma hasPermission_not_False:
  assumes "\<forall>f \<in> set (forbiddenPermissions ctx). inc f p = Some False"
    and "g \<in> set (grantedPermissions ctx)" and "inc g p = Some True"
  shows "hasPermission inc ctx p \<noteq> Some False"
  using assms any_includes_False_iff[of inc "forbiddenPermissions ctx" p] any_includes_False_iff[of inc "grantedPermissions ctx" p]
  by (force simp: hasPermission_def)

lemma any_includes_total:
  "\<forall>g \<in> set gs. inc g p \<noteq> None \<Longrightarrow> g \<in> set gs \<Longrightarrow> inc g p = Some True \<Longrightarrow> any_includes inc gs p = Some True"
  using any_includes_None_D[of inc gs p] any_includes_False_iff[of inc gs p] by (cases "any_includes inc gs p") force+

lemma check_perms_None:
  "check_perms inc (\<lambda>_. False) parent perms = None \<Longrightarrow> q \<in> set perms \<Longrightarrow> hasPermission inc parent q = Some True"
  by (induction perms) (auto simp: CheckHasPermission_def split: option.splits bool.splits if_splits)

lemma NewContext_child:
  fixes inc :: "'p \<Rightarrow> 'p \<Rightarrow> bool option"
  assumes "NewContext inc now (child_config perms forb limits parent) store = Inr (child, store')"
  shows "grantedPermissions child = perms" and "forbiddenPermissions child = forb"
    and "check_perms inc (\<lambda>_. False) parent perms = None"
    and "\<exists>limiters. make_limiters now (ctx_limiters parent) None limits [] store = Inr (limiters, store') \<and>
                     ctx_limiters child = inherit_limiters (ctx_limiters parent) limiters"
  using assms
  by (auto simp: NewContext_def child_config_def config_Check_def Let_def split: option.splits sum.splits)

context permission_order
begin

lemma child_granted:
  assumes "NewContext inc now (child_config perms forb limits parent) store = Inr (child, store')"
    and "\<forall>q \<in> set (grantedPermissions child). plain q \<or> q \<in> set (grantedPermissions parent)" and "hasPermission inc child p = Some True"
  shows "\<exists>g \<in> set (grantedPermissions parent). inc g p = Some True"
proof -
  note c = NewContext_child[OF assms(1)]
  obtain q where q: "q \<in> set perms" "inc q p = Some True" using hasPermission_True(1)[OF assms(3)] unfolding c(1) by blast
  have "hasPermission inc parent q = Some True" using check_perms_None[OF c(3) q(1)] .
  then obtain g where "g \<in> set (grantedPermissions parent)" "inc g q = Some True"
    using hasPermission_True(1)[of inc parent q] by blast
  then show ?thesis using inc_trans[of q g p] q assms(2) unfolding c(1) by blast
qed

lemma child_not_escalated:
  assumes "NewContext inc now (child_config perms forb limits parent) store = Inr (child, store')"
    and "\<forall>q \<in> set (grantedPermissions child). plain q \<or> q \<in> set (grantedPermissions parent)" and "hasPermission inc child p = Some True"
    and "set (forbiddenPermissions parent) \<subseteq> set forb"
  shows "hasPermission inc parent p \<noteq> Some False"
proof -
  obtain g where g: "g \<in> set (grantedPermissions parent)" "inc g p = Some True"
    using child_granted[OF assms(1-3)] by blast
  have "\<forall>f \<in> set (forbiddenPermissions parent). inc f p = Some False"
    using hasPermission_True(2)[OF assms(3)] assms(4) unfolding NewContext_child(2)[OF assms(1)] by blast
  then show ?thesis using hasPermission_not_False[of parent inc p g] g by blast
qed

end

section \<open>Properties\<close>

text \<open>
  (C19) \<open>DropPermissions\<close> for any permission type: what a dropped permission includes is denied from then on; nothing that
  was denied becomes allowed; and a permission that no dropped permission includes, and that is granted by a permission
  that is itself not dropped, is still allowed.
\<close>

theorem DropPermissions_revokes:
  assumes "DropPermissions inc ds ctx = Inr ctx'"
  shows "(\<forall>d p. d \<in> set ds \<longrightarrow> inc d p = Some True \<longrightarrow> hasPermission inc ctx' p \<noteq> Some True) \<and>
    (\<forall>p. hasPermission inc ctx' p = Some True \<longrightarrow> hasPermission inc ctx p \<noteq> Some False) \<and>
    (\<forall>p g. hasPermission inc ctx p = Some True \<longrightarrow> any_includes inc ds p = Some False \<longrightarrow>
       g \<in> set (grantedPermissions ctx) \<longrightarrow> inc g p = Some True \<longrightarrow> any_includes inc ds g = Some False \<longrightarrow>
       (\<forall>g \<in> set (grantedPermissions ctx). inc g p \<noteq> None) \<longrightarrow> hasPermission inc ctx' p = Some True)"
proof -
  obtain gs where gs: "RemovePerms inc (grantedPermissions ctx) ds = Some gs"
    and ctx': "ctx' = ctx\<lparr>grantedPermissions := gs, forbiddenPermissions := forbiddenPermissions ctx @ ds\<rparr>"
    using assms by (auto simp: DropPermissions_def split: if_splits option.splits)
  have gset: "gs = filter (\<lambda>g. any_includes inc ds g = Some False) (grantedPermissions ctx)" using RemovePerms_set[OF gs] .
  have a: "hasPermission inc ctx' p \<noteq> Some True" if "d \<in> set ds" "inc d p = Some True" for d p
    using hasPermission_True(2)[of inc ctx' p] that by (force simp: ctx')
  have b: "hasPermission inc ctx p \<noteq> Some False" if h: "hasPermission inc ctx' p = Some True" for p
  proof -
    obtain g where "g \<in> set gs" "inc g p = Some True" using hasPermission_True(1)[OF h] ctx' by auto
    then show ?thesis using hasPermission_True(2)[OF h] hasPermission_not_False[of ctx inc p g] by (simp add: ctx' gset)
  qed
  have c: "hasPermission inc ctx' p = Some True"
    if "hasPermission inc ctx p = Some True" "any_includes inc ds p = Some False" "g \<in> set (grantedPermissions ctx)"
      "inc g p = Some True" "any_includes inc ds g = Some False" "\<forall>g \<in> set (grantedPermissions ctx). inc g p \<noteq> None" for p g
  proof -
    have "any_includes inc (forbiddenPermissions ctx @ ds) p = Some False"
      using hasPermission_True(2)[OF that(1)] that(2) unfolding any_includes_append_False
      by (simp add: any_includes_False_iff)
    moreover have "any_includes inc gs p = Some True"
      using any_includes_total[of gs inc p g] that gset by auto
    ultimately show ?thesis by (simp add: hasPermission_def ctx')
  qed
  show ?thesis using a b c by blast
qed

lemmas sample_perm_simps = hasPermission_def PathPattern_Includes_def patt_Prefix_def IsPrefixPattern_def
  PREFIX_PATH_PATTERN_SUFFIX_def suffix_def

definition sample_ctx :: "Permission Context" where
  "sample_ctx = \<lparr>ctx_done = False, grantedPermissions = [FilesystemPermission Read (PathPattern ''/...'')],
     forbiddenPermissions = [], ctx_limits = [], ctx_limiters = [], hostDefinitions = []\<rparr>"

definition sample_dropped :: "Permission Context" where
  "sample_dropped = sample_ctx\<lparr>forbiddenPermissions := [FilesystemPermission Read (PathPattern ''/s/...'')]\<rparr>"

theorem DropPermissions_revokes_witness:
  "hasPermission (perm_Includes (\<lambda>p s. p = s)) sample_dropped (FilesystemPermission Read (Path ''/s/k'')) \<noteq> Some True"
proof -
  have drop: "DropPermissions (perm_Includes (\<lambda>p s. p = s)) [FilesystemPermission Read (PathPattern ''/s/...'')] sample_ctx = Inr sample_dropped"
    by (simp add: sample_ctx_def sample_dropped_def DropPermissions_def sample_perm_simps)
  have "perm_Includes (\<lambda>p s. p = s) (FilesystemPermission Read (PathPattern ''/s/...'')) (FilesystemPermission Read (Path ''/s/k'')) = Some True"
    by code_simp
  then show ?thesis using DropPermissions_revokes[OF drop, THEN conjunct1] by (meson list.set_intros(1))
qed

text \<open>
  (C20) No privilege escalation through children that inherit the forbidden permissions: when a thread is spawned with a
  permission listing, or a bound child is created, every permission the child has is one the parent is not denied. The hypothesis is that
  a permission of the child on a glob pattern is one of the parent's own (through other glob patterns inclusion is not
  transitive). It holds whatever the glob matcher does, for the permissions of the theory Permissions; permissions on URLs, hosts and
  databases are not covered.
\<close>

theorem children_not_escalated:
  assumes "spawn_ctx_with_listing (perm_Includes glob) now perms ctx store = Inr (child, store') \<or>
         boundChild (perm_Includes glob) now limits ctx store = Inr (child, store')"
    and "\<forall>q \<in> set (grantedPermissions child). glob_free q \<or> q \<in> set (grantedPermissions ctx)"
    and "hasPermission (perm_Includes glob) child p = Some True"
  shows "hasPermission (perm_Includes glob) ctx p \<noteq> Some False"
proof -
  obtain perms limits where
    c: "NewContext (perm_Includes glob) now (child_config perms (forbiddenPermissions ctx) limits ctx) store = Inr (child, store')"
    using assms(1) by (auto simp: spawn_ctx_with_listing_def boundChild_def split: option.splits if_splits)
  show ?thesis by (rule perms.child_not_escalated[OF c assms(2,3) order_refl])
qed

theorem children_not_escalated_witness:
  "hasPermission (perm_Includes (\<lambda>p s. p = s)) sample_dropped (FilesystemPermission Read (Path ''/a'')) \<noteq> Some False"
proof -
  let ?glob = "\<lambda>p s. p = (s :: string)"
  let ?child = "sample_dropped\<lparr>ctx_limits := [], ctx_limiters := [], hostDefinitions := []\<rparr>"
  have ok: "\<forall>q \<in> set (grantedPermissions ?child). glob_free q \<or> q \<in> set (grantedPermissions sample_dropped)"
    by simp
  have "boundChild (perm_Includes ?glob) 0 None sample_dropped [] = Inr (?child, [])"
    by (simp add: boundChild_def sample_ctx_def sample_dropped_def sample_perm_simps NewContext_def child_config_def
        config_Check_def check_hosts_def CheckHasPermission_def)
  moreover have "hasPermission (perm_Includes ?glob) ?child (FilesystemPermission Read (Path ''/a'')) = Some True"
    by (simp add: sample_ctx_def sample_dropped_def sample_perm_simps)
  ultimately show ?thesis using children_not_escalated[OF disjI2 ok] by blast
qed

text \<open>
  A thread spawned without a permission listing escapes \<open>DropPermissions\<close>: its context gets the granted permissions
  of the parent but not the forbidden ones, so a file the parent has given up and is denied is readable in the thread.
\<close>

theorem spawn_default_regains_dropped:
  "hasPermission (perm_Includes glob) sample_ctx (FilesystemPermission Read (Path ''/s/k'')) = Some True \<and>
   DropPermissions (perm_Includes glob) [FilesystemPermission Read (PathPattern ''/s/...'')] sample_ctx = Inr sample_dropped \<and>
   hasPermission (perm_Includes glob) sample_dropped (FilesystemPermission Read (Path ''/s/k'')) = Some False \<and>
   (\<exists>child. spawn_ctx_default (perm_Includes glob) IMPLICITLY_REMOVED_ROUTINE_PERMS now sample_dropped store = Inr (child, store) \<and>
      hasPermission (perm_Includes glob) child (FilesystemPermission Read (Path ''/s/k'')) = Some True)"
  by (simp add: sample_ctx_def sample_dropped_def DropPermissions_def spawn_ctx_default_def sample_perm_simps
      IMPLICITLY_REMOVED_ROUTINE_PERMS_def NewContext_def child_config_def config_Check_def check_hosts_def CheckHasPermission_def)


text \<open>A limiter list is a map from the name of a limit to the limiter of that limit.\<close>

definition limiters_wf :: "(string \<times> limiter \<times> nat) list \<Rightarrow> bool" where
  "limiters_wf ls \<longleftrightarrow> distinct (map fst ls) \<and> list_all (\<lambda>(n, l, b). lim_Name (lm_limit l) = n) ls"

lemma inherit_keeps: "map_of acc n = Some x \<Longrightarrow> map_of (inherit_limiters ps acc) n = Some x"
  by (induction ps acc rule: inherit_limiters.induct) (auto simp: Let_def map_add_Some_iff)

lemma inherit_adds:
  "limiters_wf ps \<Longrightarrow> map_of acc n = None \<Longrightarrow> map_of ps n = Some (pl, b) \<Longrightarrow>
   map_of (inherit_limiters ps acc) n = Some (lm_Child pl, b)"
proof (induction ps acc rule: inherit_limiters.induct)
  case (2 m q c ps acc)
  have m: "lim_Name (lm_limit q) = m" using "2.prems"(1) by (simp add: limiters_wf_def)
  show ?case
  proof (cases "m = n")
    case True
    then have "q = pl" "c = b" using "2.prems"(3) by auto
    then show ?thesis using True m "2.prems"(2) inherit_keeps[of "acc @ [(n, lm_Child pl, b)]" n "(lm_Child pl, b)" ps]
      by (simp add: Let_def map_add_def)
  next
    case False
    then show ?thesis using "2.IH"[OF refl] "2.prems" m by (auto simp: limiters_wf_def Let_def map_add_def split: option.splits)
  qed
qed simp

lemma make_limiters_parent:
  "make_limiters now pls tokens ls acc store = Inr (limiters, store') \<Longrightarrow>
   (\<forall>n pl b. map_of pls n = Some (pl, b) \<longrightarrow> map_of acc n = None \<or> map_of acc n = Some (lm_Child pl, b)) \<Longrightarrow>
   (\<forall>n pl b. map_of pls n = Some (pl, b) \<longrightarrow> map_of limiters n = None \<or> map_of limiters n = Some (lm_Child pl, b)) \<and>
   take (length store) store' = store"
proof (induction now pls tokens ls acc store rule: make_limiters.induct)
  case (2 now pls tokens l ls acc store)
  have a: "map_of acc (lim_Name l) = None" using "2.prems"(1) by (cases "map_of acc (lim_Name l)") auto
  show ?case
  proof (cases "map_of pls (lim_Name l)")
    case (Some x)
    obtain pl b where x: "x = (pl, b)" by (cases x)
    have "make_limiters now pls tokens ls (acc @ [(lim_Name l, lm_Child pl, b)]) store = Inr (limiters, store')"
      using "2.prems"(1) Some x by (simp split: if_splits)
    moreover have "\<forall>n pl' b'. map_of pls n = Some (pl', b') \<longrightarrow>
        map_of (acc @ [(lim_Name l, lm_Child pl, b)]) n = None \<or> map_of (acc @ [(lim_Name l, lm_Child pl, b)]) n = Some (lm_Child pl', b')"
      using "2.prems"(2) Some x a by (fastforce simp: map_add_def split: option.splits)
    ultimately show ?thesis using "2.IH"(2)[OF _ _ refl] a Some x by blast
  next
    case None
    then obtain tb where tb: "newBucket now (limit_bucket_config tokens l) = Inr tb"
      using "2.prems"(1) by (auto split: if_splits sum.splits)
    let ?acc = "acc @ [(lim_Name l, \<lparr>lm_limit = l, lm_isChild = False, stateId = 0, pausedDepletion = False, definitelyStopped = False\<rparr>, length store)]"
    have "make_limiters now pls tokens ls ?acc (store @ [tb]) = Inr (limiters, store')"
      using "2.prems"(1) None tb a by simp
    moreover have "\<forall>n pl b. map_of pls n = Some (pl, b) \<longrightarrow> map_of ?acc n = None \<or> map_of ?acc n = Some (lm_Child pl, b)"
      using "2.prems"(2) None by (fastforce simp: map_add_def split: option.splits)
    ultimately have ih: "(\<forall>n pl b. map_of pls n = Some (pl, b) \<longrightarrow> map_of limiters n = None \<or> map_of limiters n = Some (lm_Child pl, b)) \<and>
        take (length (store @ [tb])) store' = store @ [tb]"
      using "2.IH"(1)[OF _ None tb] a by blast
    then have "take (length store) (take (length (store @ [tb])) store') = store" by simp
    then show ?thesis using ih by simp
  qed
qed simp

text \<open>
  (C34) A child context cannot escape the limits of its parent: for every limit of the parent, the child has a limiter that
  is a child of the parent's limiter, on the parent's own bucket, and the existing buckets are untouched. The limit is
  the parent's even when the child's configuration asks for a lower value.
\<close>

theorem child_shares_parent_buckets:
  assumes "NewContext inc now (child_config perms forb limits parent) store = Inr (child, store')"
    and "limiters_wf (ctx_limiters parent)" and "map_of (ctx_limiters parent) name = Some (pl, b)"
  shows "map_of (ctx_limiters child) name = Some (lm_Child pl, b) \<and> lm_limit (lm_Child pl) = lm_limit pl \<and>
         take (length store) store' = store"
proof -
  obtain limiters where m: "make_limiters now (ctx_limiters parent) None limits [] store = Inr (limiters, store')"
    and c: "ctx_limiters child = inherit_limiters (ctx_limiters parent) limiters"
    using NewContext_child(4)[OF assms(1)] by blast
  have "map_of limiters name = None \<or> map_of limiters name = Some (lm_Child pl, b)" "take (length store) store' = store"
    using make_limiters_parent[OF m] assms(3) by auto
  then show ?thesis
    using inherit_keeps[of limiters name] inherit_adds[OF assms(2) _ assms(3)] c by (auto simp: lm_Child_def)
qed


definition sample_limited :: "Permission Context" where
  "sample_limited = sample_ctx\<lparr>ctx_limits := [sample_limit], ctx_limiters := [(lim_Name sample_limit, sample_limiter, 0)]\<rparr>"

theorem child_shares_parent_buckets_witness:
  "\<exists>child store'. boundChild (perm_Includes (\<lambda>p s. p = s)) 0 (Some [sample_limit\<lparr>lim_Value := 1\<rparr>]) sample_limited [sample_bucket]
       = Inr (child, store') \<and>
     map_of (ctx_limiters child) (lim_Name sample_limit) = Some (lm_Child sample_limiter, 0)"
proof -
  let ?inc = "perm_Includes (\<lambda>p s. p = (s :: string))"
  let ?limits = "[sample_limit\<lparr>lim_Value := 1\<rparr>]"
  have b: "boundChild ?inc 0 (Some ?limits) sample_limited [sample_bucket] =
     NewContext ?inc 0 (child_config (grantedPermissions sample_limited) (forbiddenPermissions sample_limited) ?limits sample_limited) [sample_bucket]"
    by (simp add: boundChild_def sample_limited_def sample_ctx_def)
  have "\<exists>child store'. NewContext ?inc 0 (child_config (grantedPermissions sample_limited) (forbiddenPermissions sample_limited) ?limits sample_limited) [sample_bucket]
      = Inr (child, store')"
    by (simp add: sample_limited_def sample_ctx_def sample_perm_simps NewContext_def child_config_def config_Check_def check_hosts_def
        CheckHasPermission_def sample_limit_def sample_limiter_def LessOrAsRestrictiveAs_def lm_Child_def)
  then obtain child store' where n: "NewContext ?inc 0 (child_config (grantedPermissions sample_limited) (forbiddenPermissions sample_limited) ?limits sample_limited) [sample_bucket]
      = Inr (child, store')" by blast
  have wf: "limiters_wf (ctx_limiters sample_limited)" "map_of (ctx_limiters sample_limited) (lim_Name sample_limit) = Some (sample_limiter, 0)"
    by (simp_all add: limiters_wf_def sample_limited_def sample_limiter_def)
  show ?thesis using child_shares_parent_buckets[OF n wf] b n by auto
qed

text \<open>
  A limit that comes from a manifest (\<open>GetLimit\<close>) gives a bucket whose counts are in range: as long as the value is
  not negative and, for a rate, a full bucket plus one refill fits in 64 bits, the new bucket satisfies the bucket
  invariant with the capacity the limit asks for, so all the theorems on buckets apply to it.
\<close>

theorem manifest_limit_bucket:
  assumes "GetLimit name v reg = Inr l" and "0 \<le> lim_Value l"
    and "lim_Kind l = TotalLimit \<or> lim_Value l * (CAPACITY_SCALE + 1) < 2 ^ 63"
  shows "\<exists>tb. newBucket now (limit_bucket_config None l) = Inr tb \<and> tb_inv tb \<and>
     tb_capacity tb = lim_Value l * CAPACITY_SCALE \<and> tb_available tb = tb_capacity tb \<and>
     tb_increment tb = (if lim_Kind l = TotalLimit then 0 else lim_Value l)"
proof -
  have max: "lim_Value l \<le> MAX_LIMIT_VALUE"
    using assms(1) by (auto simp: GetLimit_def split: option.splits limit_value.splits if_splits)
  have sz: "lim_Value l * CAPACITY_SCALE < 2 ^ 63"
    using max by (simp add: MAX_LIMIT_VALUE_def CAPACITY_SCALE_def tdiv_nonneg)
  let ?c = "limit_bucket_config None l"
  have f: "0 \<le> cfg_fillRate ?c" "cfg_initialAvail ?c \<le> cfg_cap ?c" "cfg_cap ?c * CAPACITY_SCALE + cfg_fillRate ?c < 2 ^ 63"
    using assms(2,3) sz by (auto simp: limit_bucket_config_def algebra_simps split: LimitKind.split)
  obtain tb where tb: "newBucket now ?c = Inr tb"
    using assms(2) by (simp add: newBucket_def limit_bucket_config_def Let_def)
  have "tb_available tb = tb_capacity tb"
    using tb assms(2) by (auto simp: newBucket_def limit_bucket_config_def Let_def split: if_splits)
  then show ?thesis
    using newBucket_inv[OF tb f] tb by (auto simp: limit_bucket_config_def split: LimitKind.splits)
qed

theorem manifest_limit_bucket_witness:
  "\<exists>tb. newBucket 0 (limit_bucket_config None \<lparr>lim_Name = ''http/rate'', lim_Kind = ByteRateLimit, lim_Value = 1000, lim_DecrementFn = None\<rparr>)
      = Inr tb \<and> tb_inv tb \<and> tb_capacity tb = 1000000"
  using manifest_limit_bucket[of "''http/rate''" "ByteRateValue 1000" "\<lparr>reg_kinds = [''http/rate'' \<mapsto> ByteRateLimit], minimumLimits = [''http/rate'' \<mapsto> 10]\<rparr>"
      "\<lparr>lim_Name = ''http/rate'', lim_Kind = ByteRateLimit, lim_Value = 1000, lim_DecrementFn = None\<rparr>" 0]
  by (auto simp: GetLimit_def getLimitInfo_def MAX_LIMIT_VALUE_def CAPACITY_SCALE_def tdiv_nonneg EXECUTION_TOTAL_LIMIT_NAME_def
      EXECUTION_CPU_TIME_LIMIT_NAME_def)

text \<open>
  The hard maximum does not exclude overflow: with the greatest byte rate \<open>GetLimit\<close> accepts, one token taken and one
  tick of refill wrap the available count around to a negative number, and the bucket ends up empty.
\<close>

theorem max_rate_refill_wraps:
  assumes "l = \<lparr>lim_Name = name, lim_Kind = ByteRateLimit, lim_Value = MAX_LIMIT_VALUE, lim_DecrementFn = None\<rparr>"
    and "newBucket now (limit_bucket_config None l) = Inr tb" and "tb_TryTake 1 tb = Inr (True, tb1)"
  shows "tickAvailable env tb1 < 0 \<and> tb_available (tr_bucket (updateBucketState env tb1 m)) = 0"
proof -
  have tb1: "tb_available tb1 = 9223372036854774000" "tb_capacity tb1 = 9223372036854775000" "tb_increment tb1 = 9223372036854775"
    "decrementFn tb1 = None" "waitChans tb1 = []" "tb_context tb1 = None" "\<not> shouldBeDestroyed tb1"
    using assms by (auto simp: newBucket_def limit_bucket_config_def MAX_LIMIT_VALUE_def CAPACITY_SCALE_def tdiv_nonneg i64_def
        tb_TryTake_def tryTake_def checkCount_def notDestroyed_def Let_def)
  then have neg: "tickAvailable env tb1 = -9214148664817922841" by (simp add: tickAvailable_def i64_def)
  then show ?thesis using tb1 by (simp add: updateBucketState_def wakeLoop.simps Let_def)
qed

theorem max_rate_refill_wraps_witness:
  "\<exists>tb tb1. newBucket 0 (limit_bucket_config None \<lparr>lim_Name = ''r'', lim_Kind = ByteRateLimit, lim_Value = MAX_LIMIT_VALUE, lim_DecrementFn = None\<rparr>)
      = Inr tb \<and> tb_TryTake 1 tb = Inr (True, tb1) \<and> tb_available (tr_bucket (updateBucketState quiet tb1 no_chans)) = 0"
proof -
  let ?l = "\<lparr>lim_Name = ''r'', lim_Kind = ByteRateLimit, lim_Value = MAX_LIMIT_VALUE, lim_DecrementFn = None\<rparr>"
  have "\<exists>tb tb1. newBucket 0 (limit_bucket_config None ?l) = Inr tb \<and> tb_TryTake 1 tb = Inr (True, tb1)"
    by (simp add: newBucket_def limit_bucket_config_def MAX_LIMIT_VALUE_def CAPACITY_SCALE_def tdiv_nonneg i64_def
        tb_TryTake_def tryTake_def checkCount_def notDestroyed_def Let_def)
  then show ?thesis using max_rate_refill_wraps[OF refl, where env = quiet and m = no_chans] by blast
qed

text \<open>
  \<open>Context.GiveBack\<close> scales the count before the limiter's bucket scales it again: a take of a count from a bucket
  followed by giving the same count back fills the bucket with a thousand times what was taken, up to its capacity.
\<close>

theorem context_GiveBack_overpays:
  assumes "\<not> ctx_done ctx" and "map_of (ctx_limiters ctx) name = Some (l, b)" and "b < length store"
    and "tb_inv (store ! b)" and "tb_Take count (store ! b) m = Inr (Taken, tb1, m1)" and "0 \<le> count"
    and "tb_capacity (store ! b) + tb_increment (store ! b) + count * CAPACITY_SCALE * CAPACITY_SCALE < 2 ^ 63"
  shows "tb_available tb1 = tb_available (store ! b) - count * CAPACITY_SCALE \<and>
     (\<exists>store'. ctx_GiveBack name count ctx (store[b := tb1]) = Inr store' \<and>
        tb_available (store' ! b) =
          min (tb_capacity (store ! b)) (tb_available (store ! b) - count * CAPACITY_SCALE + count * CAPACITY_SCALE * CAPACITY_SCALE))"
proof -
  let ?tb = "store ! b"
  have cap: "0 \<le> tb_increment ?tb" "0 \<le> tb_capacity ?tb" "0 \<le> tb_available ?tb" "tb_available ?tb \<le> tb_capacity ?tb + tb_increment ?tb"
    using assms(4) by (auto simp: tb_inv_def)
  have big: "0 \<le> count * 1000000" "count * 1000000 < 2 ^ 63" using assms(6,7) cap by (auto simp: CAPACITY_SCALE_def)
  then have c: "i64 (count * CAPACITY_SCALE) = count * CAPACITY_SCALE" "i64 (CAPACITY_SCALE * count) = count * CAPACITY_SCALE"
    "i64 (count * CAPACITY_SCALE * CAPACITY_SCALE) = count * CAPACITY_SCALE * CAPACITY_SCALE"
    using assms(6) by (auto intro!: i64_id simp: in_i64_def CAPACITY_SCALE_def)
  note t = tb_Take_cases[OF assms(4,5)]
  have tb1: "tb_available tb1 = tb_available ?tb - count * CAPACITY_SCALE" "tb_capacity tb1 = tb_capacity ?tb" "tb_inv tb1"
    using t c(1) by auto
  have nd: "notDestroyed tb1"
    using assms(5) by (auto simp: tb_Take_def waitAndTake_def tryTake_def notDestroyed_def Let_def split: if_splits prod.splits)
  have sum: "i64 (tb_available tb1 + count * CAPACITY_SCALE * CAPACITY_SCALE) = tb_available tb1 + count * CAPACITY_SCALE * CAPACITY_SCALE"
    using tb1 assms(6,7) cap by (intro i64_id) (auto simp: in_i64_def CAPACITY_SCALE_def tb_inv_def)
  show ?thesis
    using assms(1-3) nd c sum tb1 by (simp add: ctx_GiveBack_def lm_GiveBack_def tb_GiveBack_def Let_def)
qed

theorem context_GiveBack_overpays_witness:
  "\<exists>store'. ctx_GiveBack (lim_Name sample_limit) 1 sample_limited [sample_bucket\<lparr>tb_available := 0\<rparr>] = Inr store' \<and>
     tb_available (store' ! 0) = 2000"
  using context_GiveBack_overpays[of sample_limited "lim_Name sample_limit" sample_limiter 0 "[sample_bucket]" 1 no_chans
      "sample_bucket\<lparr>tb_available := 0\<rparr>" no_chans]
  by (simp add: sample_limited_def sample_ctx_def tb_inv_def sample_bucket_def tb_Take_def waitAndTake_def tryTake_def checkCount_def
      notDestroyed_def CAPACITY_SCALE_def i64_def)

end
