(* ===== verification/DirectedGraphs.thy ===== *)
theory DirectedGraphs
  imports Prelude
begin

text \<open>
  The directed graph of \<open>internal/memds/directed_graph.go\<close> and its variant with unique string data,
  \<open>internal/memds/directed_graph_unique_string.go\<close>. Go maps are partial functions; the hooks of a graph are a record of
  functions on the additional data, which is all they may change. Every method holds the graph's lock for its whole body
  except \<open>SetEdge\<close>, which takes no lock: here each is one step. A panic is a value of \<open>dg_panic\<close>.
\<close>

section \<open>Graphs\<close>

type_synonym NodeId = int

datatype dg_panic = ErrSelfEdgeNotSupportedYet | ErrSrcNodeNotExist | ErrDestNodeNotExist | HookError

datatype node_error = ErrNodeNotFound | ErrUnsupportedSingleNodeRetrieval

record ('n, 'e, 'i) DirectedGraph =
  dg_nodes :: "NodeId \<rightharpoonup> 'n"
  dg_from :: "NodeId \<rightharpoonup> (NodeId \<rightharpoonup> 'e)"
  dg_to :: "NodeId \<rightharpoonup> (NodeId \<rightharpoonup> 'e)"
  currId :: NodeId
  availableIds :: "NodeId list"
  edgeCount :: int
  additionalData :: 'i

record ('n, 'e, 'i) hooks =
  beforeAddingNode :: "('i \<Rightarrow> 'n \<Rightarrow> bool) option"
  afterNodeAdded :: "(NodeId \<Rightarrow> 'n \<Rightarrow> 'i \<Rightarrow> 'i) option"
  afterNodeRemoved :: "(NodeId \<Rightarrow> 'n \<Rightarrow> 'i \<Rightarrow> 'i) option"
  getNodeWith :: "(int \<Rightarrow> 'n \<Rightarrow> ('n, 'e, 'i) DirectedGraph \<Rightarrow> node_error + (NodeId \<times> 'n)) option"

definition no_hooks :: "('n, 'e, 'i) hooks" where
  "no_hooks = \<lparr>beforeAddingNode = None, afterNodeAdded = None, afterNodeRemoved = None, getNodeWith = None\<rparr>"

definition newDirectedGraph :: "'i \<Rightarrow> ('n, 'e, 'i) DirectedGraph" where
  "newDirectedGraph i = \<lparr>dg_nodes = (\<lambda>_. None), dg_from = (\<lambda>_. None), dg_to = (\<lambda>_. None), currId = - 1,
     availableIds = [], edgeCount = 0, additionalData = i\<rparr>"

definition dg_NodeCount :: "('n, 'e, 'i) DirectedGraph \<Rightarrow> nat" where
  "dg_NodeCount g = card (dom (dg_nodes g))"

definition dg_EdgeCount :: "('n, 'e, 'i) DirectedGraph \<Rightarrow> int" where
  "dg_EdgeCount g = edgeCount g"

definition dg_AddNode :: "('n, 'e, 'i) hooks \<Rightarrow> 'n \<Rightarrow> ('n, 'e, 'i) DirectedGraph \<Rightarrow> dg_panic + (NodeId \<times> ('n, 'e, 'i) DirectedGraph)" where
  "dg_AddNode h data g =
    (if (case beforeAddingNode h of None \<Rightarrow> False | Some f \<Rightarrow> f (additionalData g) data) then Inl HookError
     else
       (let (nid, g1) = (case availableIds g of
                          [] \<Rightarrow> (i64 (currId g + 1), g\<lparr>currId := i64 (currId g + 1)\<rparr>)
                        | a # as \<Rightarrow> (a, g\<lparr>availableIds := as\<rparr>));
            g2 = g1\<lparr>dg_nodes := (dg_nodes g1)(nid \<mapsto> data)\<rparr>
        in Inr (nid, case afterNodeAdded h of
                       None \<Rightarrow> g2
                     | Some f \<Rightarrow> g2\<lparr>additionalData := f nid data (additionalData g2)\<rparr>)))"

text \<open>\<open>m[x][y]\<close> for a map of maps: a missing inner map reads as empty.\<close>

definition lookup2 :: "(NodeId \<rightharpoonup> (NodeId \<rightharpoonup> 'e)) \<Rightarrow> NodeId \<Rightarrow> NodeId \<Rightarrow> 'e option" where
  "lookup2 m x y = (case m x of None \<Rightarrow> None | Some inner \<Rightarrow> inner y)"

definition dg_Edge :: "NodeId \<Rightarrow> NodeId \<Rightarrow> ('n, 'e, 'i) DirectedGraph \<Rightarrow> (NodeId \<times> NodeId \<times> 'e) option" where
  "dg_Edge srcId destId g = map_option (\<lambda>data. (srcId, destId, data)) (lookup2 (dg_from g) srcId destId)"

text \<open>
  A Go map is ranged over in an unspecified order, so the methods that return a slice of edges or nodes are modelled by
  the set of its elements; \<open>utils.MustGet\<close> panics on a node that is missing.
\<close>

definition dg_Edges :: "('n, 'e, 'i) DirectedGraph \<Rightarrow> (NodeId \<times> NodeId \<times> 'e) set" where
  "dg_Edges g = {(s, d, data). dg_nodes g s \<noteq> None \<and> lookup2 (dg_from g) s d = Some data}"

definition must_get_nodes :: "('n, 'e, 'i) DirectedGraph \<Rightarrow> (NodeId \<rightharpoonup> 'e) option \<Rightarrow> ((NodeId \<times> 'n) set) option" where
  "must_get_nodes g ids =
    (case ids of
       None \<Rightarrow> Some {}
     | Some m \<Rightarrow> if \<exists>k \<in> dom m. dg_nodes g k = None then None else Some {(k, data). k \<in> dom m \<and> dg_nodes g k = Some data})"

definition dg_DestinationNodes :: "NodeId \<Rightarrow> ('n, 'e, 'i) DirectedGraph \<Rightarrow> ((NodeId \<times> 'n) set) option" where
  "dg_DestinationNodes nid g = must_get_nodes g (dg_from g nid)"

definition dg_DestinationIds :: "NodeId \<Rightarrow> ('n, 'e, 'i) DirectedGraph \<Rightarrow> NodeId set" where
  "dg_DestinationIds nid g = (case dg_from g nid of None \<Rightarrow> {} | Some m \<Rightarrow> dom m)"

definition dg_SourceNodes :: "NodeId \<Rightarrow> ('n, 'e, 'i) DirectedGraph \<Rightarrow> ((NodeId \<times> 'n) set) option" where
  "dg_SourceNodes nid g = must_get_nodes g (dg_to g nid)"

definition dg_CountSourceNodes :: "NodeId \<Rightarrow> ('n, 'e, 'i) DirectedGraph \<Rightarrow> nat" where
  "dg_CountSourceNodes nid g = (case dg_to g nid of None \<Rightarrow> 0 | Some m \<Rightarrow> card (dom m))"

definition dg_HasEdgeBetween :: "NodeId \<Rightarrow> NodeId \<Rightarrow> ('n, 'e, 'i) DirectedGraph \<Rightarrow> bool" where
  "dg_HasEdgeBetween xid yid g \<longleftrightarrow>
     (if lookup2 (dg_from g) xid yid \<noteq> None then True else lookup2 (dg_from g) yid xid \<noteq> None)"

definition dg_HasEdgeFromTo :: "NodeId \<Rightarrow> NodeId \<Rightarrow> ('n, 'e, 'i) DirectedGraph \<Rightarrow> bool" where
  "dg_HasEdgeFromTo srcId destId g \<longleftrightarrow> lookup2 (dg_from g) srcId destId \<noteq> None"

definition dg_Node :: "NodeId \<Rightarrow> ('n, 'e, 'i) DirectedGraph \<Rightarrow> (NodeId \<times> 'n) option" where
  "dg_Node nid g = map_option (\<lambda>data. (nid, data)) (dg_nodes g nid)"

definition dg_NodeData :: "NodeId \<Rightarrow> ('n, 'e, 'i) DirectedGraph \<Rightarrow> 'n option" where
  "dg_NodeData nid g = dg_nodes g nid"

text \<open>\<open>NodeWithID\<close> returns the node, and false as its second result when it is there.\<close>

definition dg_NodeWithID :: "NodeId \<Rightarrow> ('n, 'e, 'i) DirectedGraph \<Rightarrow> (NodeId \<times> 'n) option \<times> bool" where
  "dg_NodeWithID nid g = (case dg_nodes g nid of Some data \<Rightarrow> (Some (nid, data), False) | None \<Rightarrow> (None, False))"

definition delete2 :: "(NodeId \<rightharpoonup> (NodeId \<rightharpoonup> 'e)) \<Rightarrow> NodeId \<Rightarrow> NodeId \<Rightarrow> (NodeId \<rightharpoonup> (NodeId \<rightharpoonup> 'e))" where
  "delete2 m x y = (case m x of None \<Rightarrow> m | Some inner \<Rightarrow> m(x \<mapsto> inner(y := None)))"

definition dg_RemoveEdge :: "NodeId \<Rightarrow> NodeId \<Rightarrow> ('n, 'e, 'i) DirectedGraph \<Rightarrow> ('n, 'e, 'i) DirectedGraph" where
  "dg_RemoveEdge srcId destId g =
    (if dg_nodes g srcId = None then g
     else if dg_nodes g destId = None then g
     else
       g\<lparr>edgeCount := (if dg_from g srcId \<noteq> None then i64 (edgeCount g - 1) else edgeCount g),
         dg_from := delete2 (dg_from g) srcId destId,
         dg_to := delete2 (dg_to g) destId srcId\<rparr>)"

text \<open>\<open>for k := range keys { delete(m[k], x) }\<close>\<close>

definition delete_in_all :: "(NodeId \<rightharpoonup> 'e) \<Rightarrow> NodeId \<Rightarrow> (NodeId \<rightharpoonup> (NodeId \<rightharpoonup> 'e)) \<Rightarrow> (NodeId \<rightharpoonup> (NodeId \<rightharpoonup> 'e))" where
  "delete_in_all keys x m =
     (\<lambda>k. if keys k \<noteq> None then map_option (\<lambda>inner. inner(x := None)) (m k) else m k)"

definition dg_RemoveNode :: "('n, 'e, 'i) hooks \<Rightarrow> NodeId \<Rightarrow> ('n, 'e, 'i) DirectedGraph \<Rightarrow> ('n, 'e, 'i) DirectedGraph" where
  "dg_RemoveNode h nid g =
    (case dg_nodes g nid of
       None \<Rightarrow> g
     | Some data \<Rightarrow>
         (let g1 = g\<lparr>dg_nodes := (dg_nodes g)(nid := None)\<rparr>;
              g2 = g1\<lparr>dg_to := (case dg_from g1 nid of None \<Rightarrow> dg_to g1 | Some ds \<Rightarrow> delete_in_all ds nid (dg_to g1))\<rparr>;
              g3 = g2\<lparr>dg_from := (dg_from g2)(nid := None)\<rparr>;
              g4 = g3\<lparr>dg_from := (case dg_to g3 nid of None \<Rightarrow> dg_from g3 | Some ss \<Rightarrow> delete_in_all ss nid (dg_from g3))\<rparr>;
              g5 = g4\<lparr>dg_to := (dg_to g4)(nid := None)\<rparr>;
              g6 = (case afterNodeRemoved h of None \<Rightarrow> g5 | Some f \<Rightarrow> g5\<lparr>additionalData := f nid data (additionalData g5)\<rparr>)
          in g6\<lparr>availableIds := availableIds g6 @ [nid]\<rparr>))"

definition dg_SetEdge :: "NodeId \<Rightarrow> NodeId \<Rightarrow> 'e \<Rightarrow> ('n, 'e, 'i) DirectedGraph \<Rightarrow> dg_panic + ('n, 'e, 'i) DirectedGraph" where
  "dg_SetEdge src dest data g =
    (if src = dest then Inl ErrSelfEdgeNotSupportedYet
     else if dg_nodes g src = None then Inl ErrSrcNodeNotExist
     else if dg_nodes g dest = None then Inl ErrDestNodeNotExist
     else
       (let g1 = (case dg_from g src of
                    Some fromMap \<Rightarrow>
                      g\<lparr>edgeCount := (if fromMap dest = None then i64 (edgeCount g + 1) else edgeCount g),
                        dg_from := (dg_from g)(src \<mapsto> fromMap(dest \<mapsto> data))\<rparr>
                  | None \<Rightarrow>
                      g\<lparr>edgeCount := i64 (edgeCount g + 1),
                        dg_from := (dg_from g)(src \<mapsto> [dest \<mapsto> data])\<rparr>)
        in Inr (case dg_to g1 dest of
                  Some toMap \<Rightarrow> g1\<lparr>dg_to := (dg_to g1)(dest \<mapsto> toMap(src \<mapsto> data))\<rparr>
                | None \<Rightarrow> g1\<lparr>dg_to := (dg_to g1)(dest \<mapsto> [src \<mapsto> data])\<rparr>)))"

definition dg_GetNode :: "('n, 'e, 'i) hooks \<Rightarrow> int \<Rightarrow> 'n \<Rightarrow> ('n, 'e, 'i) DirectedGraph \<Rightarrow> node_error + (NodeId \<times> 'n)" where
  "dg_GetNode h retrievalType data g =
    (case getNodeWith h of None \<Rightarrow> Inl ErrUnsupportedSingleNodeRetrieval | Some f \<Rightarrow> f retrievalType data g)"

definition dg_HasNode :: "('n, 'e, 'i) hooks \<Rightarrow> int \<Rightarrow> 'n \<Rightarrow> ('n, 'e, 'i) DirectedGraph \<Rightarrow> node_error + bool" where
  "dg_HasNode h retrievalType data g =
    (case getNodeWith h of
       None \<Rightarrow> Inl ErrUnsupportedSingleNodeRetrieval
     | Some f \<Rightarrow> (case f retrievalType data g of
                    Inl ErrNodeNotFound \<Rightarrow> Inr False
                  | Inl err \<Rightarrow> Inl err
                  | Inr _ \<Rightarrow> Inr True))"

section \<open>Unique string data\<close>

definition WithData :: int where
  "WithData = 1"

definition unique_getNodeWith :: "int \<Rightarrow> string \<Rightarrow> (string, 'e, string \<rightharpoonup> NodeId) DirectedGraph \<Rightarrow> node_error + (NodeId \<times> string)" where
  "unique_getNodeWith retrieval arg g =
    (if retrieval = WithData then
       (case additionalData g arg of
          None \<Rightarrow> Inl ErrNodeNotFound
        | Some nid \<Rightarrow> (case dg_nodes g nid of None \<Rightarrow> Inl ErrNodeNotFound | Some data \<Rightarrow> Inr (nid, data)))
     else Inl ErrUnsupportedSingleNodeRetrieval)"

definition unique_hooks :: "(string, 'e, string \<rightharpoonup> NodeId) hooks" where
  "unique_hooks = \<lparr>
     beforeAddingNode = Some (\<lambda>index data. index data \<noteq> None),
     afterNodeAdded = Some (\<lambda>nid data index. index(data \<mapsto> nid)),
     afterNodeRemoved = Some (\<lambda>nid data index. index(data := None)),
     getNodeWith = Some unique_getNodeWith\<rparr>"

definition NewDirectedGraphUniqueString :: "(string, 'e, string \<rightharpoonup> NodeId) DirectedGraph" where
  "NewDirectedGraphUniqueString = newDirectedGraph (\<lambda>_. None)"

section \<open>Invariant\<close>

definition edges :: "('n, 'e, 'i) DirectedGraph \<Rightarrow> (NodeId \<times> NodeId) set" where
  "edges g = {(s, d). lookup2 (dg_from g) s d \<noteq> None}"

definition dg_inv :: "('n, 'e, 'i) DirectedGraph \<Rightarrow> bool" where
  "dg_inv g \<longleftrightarrow>
     (\<forall>s d. lookup2 (dg_from g) s d = lookup2 (dg_to g) d s) \<and>
     (\<forall>s d. lookup2 (dg_from g) s d \<noteq> None \<longrightarrow> dg_nodes g s \<noteq> None \<and> dg_nodes g d \<noteq> None \<and> s \<noteq> d) \<and>
     (\<forall>n. dg_nodes g n \<noteq> None \<longrightarrow> 0 \<le> n \<and> n \<le> currId g \<and> n \<notin> set (availableIds g)) \<and>
     distinct (availableIds g) \<and> (\<forall>a \<in> set (availableIds g). 0 \<le> a \<and> a \<le> currId g) \<and> - 1 \<le> currId g"

lemma dg_invD:
  assumes "dg_inv g"
  shows "lookup2 (dg_from g) s d = lookup2 (dg_to g) d s"
    and "lookup2 (dg_from g) s d \<noteq> None \<Longrightarrow> dg_nodes g s \<noteq> None \<and> dg_nodes g d \<noteq> None \<and> s \<noteq> d"
    and "dg_nodes g n \<noteq> None \<Longrightarrow> 0 \<le> n \<and> n \<le> currId g \<and> n \<notin> set (availableIds g)"
    and "distinct (availableIds g)" and "a \<in> set (availableIds g) \<Longrightarrow> 0 \<le> a \<and> a \<le> currId g" and "- 1 \<le> currId g"
  using assms unfolding dg_inv_def by blast+

lemma lookup2_update:
  "lookup2 (m(x \<mapsto> inner)) y z = (if y = x then inner z else lookup2 m y z)"
  "lookup2 (m(x := None)) y z = (if y = x then None else lookup2 m y z)"
  by (simp_all add: lookup2_def)

lemma lookup2_delete2: "lookup2 (delete2 m x y) a b = (if a = x \<and> b = y then None else lookup2 m a b)"
  by (auto simp: delete2_def lookup2_def split: option.splits)

lemma lookup2_delete_in_all:
  "lookup2 (case m' n of None \<Rightarrow> m | Some keys \<Rightarrow> delete_in_all keys x m) a b =
     (if b = x \<and> lookup2 m' n a \<noteq> None then None else lookup2 m a b)"
  by (auto simp: delete_in_all_def lookup2_def split: option.splits)

lemma SetEdge_lookup:
  assumes "dg_SetEdge src dest data g = Inr g'"
  shows "lookup2 (dg_from g') s d = (if s = src \<and> d = dest then Some data else lookup2 (dg_from g) s d)"
    and "lookup2 (dg_to g') d s = (if s = src \<and> d = dest then Some data else lookup2 (dg_to g) d s)"
    and "dg_nodes g' = dg_nodes g" "currId g' = currId g" "availableIds g' = availableIds g" "additionalData g' = additionalData g"
    and "src \<noteq> dest" "dg_nodes g src \<noteq> None" "dg_nodes g dest \<noteq> None"
    and "edgeCount g' = (if lookup2 (dg_from g) src dest = None then i64 (edgeCount g + 1) else edgeCount g)"
  using assms
  by (auto simp: dg_SetEdge_def lookup2_update lookup2_def Let_def split: if_splits option.splits)

lemma SetEdge_inv: "dg_inv g \<Longrightarrow> dg_SetEdge src dest data g = Inr g' \<Longrightarrow> dg_inv g'"
  unfolding dg_inv_def using SetEdge_lookup[of src dest data g g'] by simp

lemma RemoveEdge_lookup:
  assumes "dg_inv g"
  shows "lookup2 (dg_from (dg_RemoveEdge src dest g)) s d = (if s = src \<and> d = dest then None else lookup2 (dg_from g) s d)"
    and "lookup2 (dg_to (dg_RemoveEdge src dest g)) d s = (if s = src \<and> d = dest then None else lookup2 (dg_to g) d s)"
proof -
  have "lookup2 (dg_from g) src dest = None" if "dg_nodes g src = None \<or> dg_nodes g dest = None"
    using assms that unfolding dg_inv_def by blast
  moreover have "lookup2 (dg_to g) dest src = lookup2 (dg_from g) src dest" using assms by (simp add: dg_inv_def)
  ultimately show "lookup2 (dg_from (dg_RemoveEdge src dest g)) s d = (if s = src \<and> d = dest then None else lookup2 (dg_from g) s d)"
    "lookup2 (dg_to (dg_RemoveEdge src dest g)) d s = (if s = src \<and> d = dest then None else lookup2 (dg_to g) d s)"
    by (auto simp: dg_RemoveEdge_def lookup2_delete2)
qed

lemma RemoveEdge_inv: "dg_inv g \<Longrightarrow> dg_inv (dg_RemoveEdge src dest g)"
proof -
  assume a: "dg_inv g"
  have "dg_nodes (dg_RemoveEdge src dest g) = dg_nodes g" "currId (dg_RemoveEdge src dest g) = currId g"
    "availableIds (dg_RemoveEdge src dest g) = availableIds g"
    by (simp_all add: dg_RemoveEdge_def)
  then show ?thesis using a RemoveEdge_lookup[OF a, of src dest] unfolding dg_inv_def by simp
qed

lemma AddNode_fields:
  assumes "dg_AddNode h data g = Inr (nid, g')"
  shows "nid = (case availableIds g of [] \<Rightarrow> i64 (currId g + 1) | a # _ \<Rightarrow> a)"
    and "currId g' = (case availableIds g of [] \<Rightarrow> i64 (currId g + 1) | _ \<Rightarrow> currId g)"
    and "availableIds g' = tl (availableIds g)"
    and "dg_nodes g' = (dg_nodes g)(nid \<mapsto> data)" "dg_from g' = dg_from g" "dg_to g' = dg_to g" "edgeCount g' = edgeCount g"
    and "additionalData g' = (case afterNodeAdded h of None \<Rightarrow> additionalData g | Some f \<Rightarrow> f nid data (additionalData g))"
  using assms by (auto simp: dg_AddNode_def Let_def split: if_splits option.splits list.splits)

lemma AddNode_inv:
  assumes "dg_inv g" and "dg_AddNode h data g = Inr (nid, g')" and "currId g < 2 ^ 63 - 1"
  shows "dg_inv g' \<and> dg_nodes g nid = None"
proof -
  have next_id: "i64 (currId g + 1) = currId g + 1" using dg_invD(6)[OF assms(1)] assms(3) by (intro i64_id) (simp add: in_i64_def)
  note I = dg_invD[OF assms(1)]
  note F = AddNode_fields[OF assms(2)]
  have fresh: "dg_nodes g nid = None \<and> nid \<notin> set (availableIds g') \<and> 0 \<le> nid \<and> nid \<le> currId g' \<and> currId g \<le> currId g'"
  proof (cases "availableIds g")
    case Nil
    have "dg_nodes g (currId g + 1) = None" using I(3)[of "currId g + 1"] by (cases "dg_nodes g (currId g + 1)") auto
    then show ?thesis using Nil F(1-3) I(6) next_id by simp
  next
    case (Cons a as)
    then have "dg_nodes g a = None" using I(3)[of a] by (cases "dg_nodes g a") auto
    then show ?thesis using Cons F(1-3) I(4) I(5)[of a] by simp
  qed
  have avail: "distinct (availableIds g')" "set (availableIds g') \<subseteq> set (availableIds g)"
    using I(4) F(3) by (cases "availableIds g"; simp add: subset_insertI)+
  have nodes: "0 \<le> n \<and> n \<le> currId g' \<and> n \<notin> set (availableIds g')" if "dg_nodes g' n \<noteq> None" for n
  proof (cases "n = nid")
    case False
    then have "dg_nodes g n \<noteq> None" using that F(4) by simp
    then show ?thesis using I(3)[of n] fresh avail(2) by auto
  qed (use fresh in simp)
  have ends: "dg_nodes g' s \<noteq> None \<and> dg_nodes g' d \<noteq> None \<and> s \<noteq> d" if "lookup2 (dg_from g') s d \<noteq> None" for s d
    using I(2)[of s d] that F(4,5) by simp
  have av: "0 \<le> a \<and> a \<le> currId g'" if "a \<in> set (availableIds g')" for a
    using I(5)[of a] that avail(2) fresh by auto
  have "- 1 \<le> currId g'" using fresh by linarith
  then have "dg_inv g'"
    unfolding dg_inv_def using I(1) ends nodes av avail(1) F(5,6) by simp
  then show ?thesis using fresh by blast
qed

lemma RemoveNode_lookup:
  assumes "dg_inv g" and "dg_nodes g nid \<noteq> None"
  shows "lookup2 (dg_from (dg_RemoveNode h nid g)) s d = (if s = nid \<or> d = nid then None else lookup2 (dg_from g) s d)"
    and "lookup2 (dg_to (dg_RemoveNode h nid g)) d s = (if s = nid \<or> d = nid then None else lookup2 (dg_to g) d s)"
    and "dg_nodes (dg_RemoveNode h nid g) = (dg_nodes g)(nid := None)"
    and "currId (dg_RemoveNode h nid g) = currId g"
    and "availableIds (dg_RemoveNode h nid g) = availableIds g @ [nid]"
    and "edgeCount (dg_RemoveNode h nid g) = edgeCount g"
    and "additionalData (dg_RemoveNode h nid g) =
           (case afterNodeRemoved h of None \<Rightarrow> additionalData g | Some f \<Rightarrow> f nid (the (dg_nodes g nid)) (additionalData g))"
proof -
  note sym = dg_invD(1)[OF assms(1)]
  obtain data where data: "dg_nodes g nid = Some data" using assms(2) by blast
  have "dg_to (dg_RemoveNode h nid g) =
      (case dg_from g nid of None \<Rightarrow> dg_to g | Some ds \<Rightarrow> delete_in_all ds nid (dg_to g))(nid := None)"
    by (simp add: dg_RemoveNode_def Let_def data split: option.split)
  then show "lookup2 (dg_to (dg_RemoveNode h nid g)) d s = (if s = nid \<or> d = nid then None else lookup2 (dg_to g) d s)"
    using sym[of nid d] by (auto simp: lookup2_update lookup2_delete_in_all)
  define t where "t = (case dg_from g nid of None \<Rightarrow> dg_to g | Some ds \<Rightarrow> delete_in_all ds nid (dg_to g))"
  have "dg_from (dg_RemoveNode h nid g) =
      (case t nid of None \<Rightarrow> (dg_from g)(nid := None) | Some ss \<Rightarrow> delete_in_all ss nid ((dg_from g)(nid := None)))"
    by (simp add: dg_RemoveNode_def Let_def data t_def split: option.split)
  moreover have "lookup2 t nid s = (if s = nid \<and> lookup2 (dg_from g) nid nid \<noteq> None then None else lookup2 (dg_to g) nid s)"
    unfolding t_def by (simp add: lookup2_delete_in_all)
  ultimately show "lookup2 (dg_from (dg_RemoveNode h nid g)) s d = (if s = nid \<or> d = nid then None else lookup2 (dg_from g) s d)"
    using sym[of s nid] by (simp add: lookup2_update lookup2_delete_in_all)
qed (use assms(2) in \<open>auto simp: dg_RemoveNode_def Let_def split: option.splits\<close>)

lemma RemoveNode_inv:
  assumes "dg_inv g"
  shows "dg_inv (dg_RemoveNode h nid g)"
proof (cases "dg_nodes g nid")
  case None
  then show ?thesis using assms by (simp add: dg_RemoveNode_def)
next
  case (Some data)
  then have n: "dg_nodes g nid \<noteq> None" by simp
  note I = dg_invD[OF assms]
  have nid: "nid \<notin> set (availableIds g)" "0 \<le> nid" "nid \<le> currId g" using I(3)[OF n] by auto
  have ends: "dg_nodes g s \<noteq> None \<and> dg_nodes g d \<noteq> None \<and> s \<noteq> d" if "lookup2 (dg_from g) s d \<noteq> None" for s d using I(2)[OF that] .
  have nodes: "0 \<le> m \<and> m \<le> currId g \<and> m \<notin> set (availableIds g)" if "dg_nodes g m \<noteq> None" for m using I(3)[OF that] .
  show ?thesis
    unfolding dg_inv_def RemoveNode_lookup[OF assms n] using nid ends nodes I(1,4,5,6) by auto
qed

section \<open>Reachable graphs\<close>

text \<open>
  The graphs a program can build with the methods of a graph whose hooks are \<open>h\<close>, starting from additional data \<open>i\<close>: fewer
  than \<open>2\<^sup>63\<close> identifiers are handed out.
\<close>

inductive graph_reachable :: "('n, 'e, 'i) hooks \<Rightarrow> 'i \<Rightarrow> ('n, 'e, 'i) DirectedGraph \<Rightarrow> bool" for h i where
  reach_new: "graph_reachable h i (newDirectedGraph i)"
| reach_AddNode: "graph_reachable h i g \<Longrightarrow> currId g < 2 ^ 63 - 1 \<Longrightarrow> dg_AddNode h data g = Inr (nid, g') \<Longrightarrow> graph_reachable h i g'"
| reach_SetEdge: "graph_reachable h i g \<Longrightarrow> dg_SetEdge src dest e g = Inr g' \<Longrightarrow> graph_reachable h i g'"
| reach_RemoveEdge: "graph_reachable h i g \<Longrightarrow> graph_reachable h i (dg_RemoveEdge src dest g)"
| reach_RemoveNode: "graph_reachable h i g \<Longrightarrow> graph_reachable h i (dg_RemoveNode h nid g)"

lemma newDirectedGraph_inv: "dg_inv (newDirectedGraph i)"
  by (simp add: dg_inv_def newDirectedGraph_def lookup2_def)

lemma reachable_inv: "graph_reachable h i g \<Longrightarrow> dg_inv g"
  by (induction rule: graph_reachable.induct)
    (blast intro: newDirectedGraph_inv dest: AddNode_inv SetEdge_inv RemoveEdge_inv RemoveNode_inv)+

definition sample_graph :: "(string, nat, string \<rightharpoonup> NodeId) DirectedGraph" where
  "sample_graph = (case dg_AddNode unique_hooks ''a'' NewDirectedGraphUniqueString of Inr (_, g1) \<Rightarrow>
     (case dg_AddNode unique_hooks ''b'' g1 of Inr (_, g2) \<Rightarrow>
     (case dg_AddNode unique_hooks ''c'' g2 of Inr (_, g3) \<Rightarrow>
     (case dg_SetEdge 0 1 7 g3 of Inr g4 \<Rightarrow> g4 | Inl _ \<Rightarrow> g3) | Inl _ \<Rightarrow> g2) | Inl _ \<Rightarrow> g1) | Inl _ \<Rightarrow> NewDirectedGraphUniqueString)"

lemma sample_graph_eq:
  "sample_graph = \<lparr>dg_nodes = [0 \<mapsto> ''a'', 1 \<mapsto> ''b'', 2 \<mapsto> ''c''], dg_from = [0 \<mapsto> [1 \<mapsto> 7]], dg_to = [1 \<mapsto> [0 \<mapsto> 7]],
     currId = 2, availableIds = [], edgeCount = 1, additionalData = [''a'' \<mapsto> 0, ''b'' \<mapsto> 1, ''c'' \<mapsto> 2]\<rparr>"
  by (simp add: sample_graph_def NewDirectedGraphUniqueString_def newDirectedGraph_def dg_AddNode_def unique_hooks_def dg_SetEdge_def
      i64_def Let_def fun_eq_iff)

lemma sample_graph_reachable: "graph_reachable unique_hooks (\<lambda>_. None) sample_graph"
proof -
  let ?h = "unique_hooks :: (string, nat, string \<rightharpoonup> NodeId) hooks"
  define g0 :: "(string, nat, string \<rightharpoonup> NodeId) DirectedGraph" where "g0 = newDirectedGraph (\<lambda>_. None)"
  define g1 where "g1 = snd (projr (dg_AddNode ?h ''a'' g0))"
  define g2 where "g2 = snd (projr (dg_AddNode ?h ''b'' g1))"
  define g3 where "g3 = snd (projr (dg_AddNode ?h ''c'' g2))"
  note defs = g3_def g2_def g1_def g0_def newDirectedGraph_def dg_AddNode_def unique_hooks_def i64_def Let_def
  have adds: "dg_AddNode ?h ''a'' g0 = Inr (0, g1)" "dg_AddNode ?h ''b'' g1 = Inr (1, g2)" "dg_AddNode ?h ''c'' g2 = Inr (2, g3)"
    and ids: "currId g0 < 2 ^ 63 - 1" "currId g1 < 2 ^ 63 - 1" "currId g2 < 2 ^ 63 - 1"
    by (simp_all add: defs)
  have edge: "dg_SetEdge 0 1 7 g3 = Inr sample_graph"
    unfolding sample_graph_eq by (simp add: defs dg_SetEdge_def fun_eq_iff)
  have "graph_reachable ?h (\<lambda>_. None) g0" unfolding g0_def by (rule reach_new)
  then have "graph_reachable ?h (\<lambda>_. None) g1" by (rule reach_AddNode) (fact ids adds)+
  then have "graph_reachable ?h (\<lambda>_. None) g2" by (rule reach_AddNode) (fact ids adds)+
  then have "graph_reachable ?h (\<lambda>_. None) g3" by (rule reach_AddNode) (fact ids adds)+
  then show ?thesis by (rule reach_SetEdge) (fact edge)
qed

section \<open>The edge counter and the index of unique data\<close>

definition exact_count :: "('n, 'e, 'i) DirectedGraph \<Rightarrow> bool" where
  "exact_count g \<longleftrightarrow> finite (edges g) \<and> dg_EdgeCount g = int (card (edges g))"

lemma SetEdge_edges: "dg_SetEdge src dest data g = Inr g' \<Longrightarrow> edges g' = insert (src, dest) (edges g)"
  using SetEdge_lookup(1)[of src dest data g g'] by (auto simp: edges_def)

lemma RemoveEdge_edges: "dg_inv g \<Longrightarrow> edges (dg_RemoveEdge src dest g) = edges g - {(src, dest)}"
  using RemoveEdge_lookup(1)[of g src dest] by (auto simp: edges_def split: if_splits)

lemma RemoveNode_edges:
  "dg_inv g \<Longrightarrow> dg_nodes g nid \<noteq> None \<Longrightarrow> edges (dg_RemoveNode h nid g) = {(s, d) \<in> edges g. s \<noteq> nid \<and> d \<noteq> nid}"
  using RemoveNode_lookup(1)[of g nid h] by (auto simp: edges_def split: if_splits)

lemma SetEdge_count:
  assumes "exact_count g" and "card (edges g) < 2 ^ 63 - 1" and "dg_SetEdge src dest data g = Inr g'"
  shows "exact_count g'"
proof -
  have "i64 (int (card (edges g)) + 1) = int (card (edges g)) + 1"
    using assms(2) by (intro i64_id) (auto simp: in_i64_def)
  then show ?thesis
    using assms(1) SetEdge_edges[OF assms(3)] SetEdge_lookup(10)[OF assms(3)]
    by (auto simp: exact_count_def dg_EdgeCount_def edges_def insert_absorb)
qed

lemma RemoveEdge_count:
  assumes "dg_inv g" and "exact_count g" and "card (edges g) < 2 ^ 63" and "(src, dest) \<in> edges g"
  shows "exact_count (dg_RemoveEdge src dest g)"
proof -
  have l: "lookup2 (dg_from g) src dest \<noteq> None" using assms(4) by (simp add: edges_def)
  then have "dg_nodes g src \<noteq> None" "dg_nodes g dest \<noteq> None" "dg_from g src \<noteq> None"
    using dg_invD(2)[OF assms(1) l] l by (simp_all add: lookup2_def split: option.splits)
  then have "edgeCount (dg_RemoveEdge src dest g) = i64 (edgeCount g - 1)" by (auto simp: dg_RemoveEdge_def)
  moreover have c: "edgeCount g = int (card (edges g))" "finite (edges g)" "0 < card (edges g)"
    using assms(2,4) by (auto simp: exact_count_def dg_EdgeCount_def card_gt_0_iff)
  moreover have "i64 (edgeCount g - 1) = edgeCount g - 1" using c assms(3) by (intro i64_id) (auto simp: in_i64_def)
  ultimately show ?thesis
    using assms(4) by (simp add: exact_count_def dg_EdgeCount_def RemoveEdge_edges[OF assms(1)] of_nat_diff)
qed

lemma AddNode_count: "exact_count g \<Longrightarrow> dg_AddNode h data g = Inr (nid, g') \<Longrightarrow> exact_count g'"
  using AddNode_fields(5,7)[of h data g nid g'] by (simp add: exact_count_def edges_def dg_EdgeCount_def)

definition index_exact :: "(string, 'e, string \<rightharpoonup> NodeId) DirectedGraph \<Rightarrow> bool" where
  "index_exact g \<longleftrightarrow> (\<forall>s n. additionalData g s = Some n \<longleftrightarrow> dg_nodes g n = Some s)"

lemma unique_AddNode_index:
  assumes "dg_inv g" "index_exact g" "currId g < 2 ^ 63 - 1" and add: "dg_AddNode unique_hooks data g = Inr (nid, g')"
  shows "index_exact g'"
proof -
  have fresh: "additionalData g data = None" using add by (auto simp: dg_AddNode_def unique_hooks_def split: if_splits)
  have free: "dg_nodes g nid = None" using AddNode_inv[OF assms(1) add assms(3)] by blast
  have new: "additionalData g' = (additionalData g)(data \<mapsto> nid)" "dg_nodes g' = (dg_nodes g)(nid \<mapsto> data)"
    using AddNode_fields(4,8)[OF add] by (simp_all add: unique_hooks_def)
  have ix: "additionalData g s = Some n \<longleftrightarrow> dg_nodes g n = Some s" for s n using assms(2) unfolding index_exact_def by blast
  have "((additionalData g)(data \<mapsto> nid)) s = Some n \<longleftrightarrow> ((dg_nodes g)(nid \<mapsto> data)) n = Some s" for s n
    using ix[of s n] fresh free by (cases "s = data"; cases "n = nid") (auto simp: ix)
  then show ?thesis unfolding index_exact_def new by blast
qed

lemma unique_RemoveNode_index:
  assumes "dg_inv g" "index_exact g"
  shows "index_exact (dg_RemoveNode unique_hooks nid g)"
proof (cases "dg_nodes g nid")
  case (Some data)
  then have "dg_nodes g nid \<noteq> None" by simp
  note R = RemoveNode_lookup(3,7)[OF assms(1) this, of unique_hooks]
  have only: "n = nid" if "dg_nodes g n = Some data" for n
  proof -
    have "additionalData g data = Some nid" "additionalData g data = Some n" using assms(2) Some that unfolding index_exact_def by blast+
    then show ?thesis by simp
  qed
  have R7: "additionalData (dg_RemoveNode unique_hooks nid g) = (additionalData g)(data := None)"
    unfolding R(2) by (simp add: unique_hooks_def Some)
  have "((additionalData g)(data := None)) s = Some n \<longleftrightarrow> ((dg_nodes g)(nid := None)) n = Some s" for s n
    using assms(2) only[of n] Some unfolding index_exact_def by (cases "n = nid") auto
  then show ?thesis unfolding index_exact_def R(1) R7 by blast
qed (use assms in \<open>simp add: dg_RemoveNode_def\<close>)

lemma reachable_index: "graph_reachable unique_hooks (\<lambda>_. None) g \<Longrightarrow> index_exact g"
proof (induction rule: graph_reachable.induct)
  case (reach_AddNode g data nid g')
  show ?case by (rule unique_AddNode_index[OF reachable_inv]) (fact reach_AddNode)+
next
  case (reach_SetEdge g src dest e g')
  then show ?case using SetEdge_lookup(3,6)[OF reach_SetEdge.hyps(2)] by (simp add: index_exact_def)
next
  case (reach_RemoveNode g nid)
  show ?case by (rule unique_RemoveNode_index[OF reachable_inv]) (fact reach_RemoveNode)+
qed (simp_all add: index_exact_def newDirectedGraph_def dg_RemoveEdge_def)

section \<open>Properties\<close>

text \<open>
  (C23) In every graph reachable by any sequence of AddNode, SetEdge, RemoveEdge and RemoveNode, whatever the hooks do, the two adjacency maps
  agree (the edge s to d is in \<open>from\<close> with the data it has in \<open>to\<close>), every edge joins two distinct nodes that are in the
  graph, and the free list holds distinct identifiers that were handed out and belong to no node, so that AddNode never
  overwrites a node.
\<close>

theorem graph_well_formed:
  assumes "graph_reachable h i g"
  shows "dg_Edge s d g = map_option (\<lambda>data. (s, d, data)) (lookup2 (dg_to g) d s) \<and>
    (dg_HasEdgeFromTo s d g \<longrightarrow> dg_Node s g \<noteq> None \<and> dg_Node d g \<noteq> None \<and> s \<noteq> d) \<and>
    distinct (availableIds g) \<and> (\<forall>a \<in> set (availableIds g). dg_Node a g = None \<and> 0 \<le> a \<and> a \<le> currId g) \<and>
    (currId g < 2 ^ 63 - 1 \<longrightarrow> dg_AddNode h data g = Inr (nid, g') \<longrightarrow> dg_Node nid g = None \<and> dg_Node nid g' = Some (nid, data))"
proof -
  note inv = reachable_inv[OF assms]
  have "dg_Node a g = None \<and> 0 \<le> a \<and> a \<le> currId g" if "a \<in> set (availableIds g)" for a
    using dg_invD(5)[OF inv that] dg_invD(3)[OF inv, of a] that by (cases "dg_nodes g a") (auto simp: dg_Node_def)
  moreover have "dg_Node nid g = None \<and> dg_Node nid g' = Some (nid, data)"
    if "currId g < 2 ^ 63 - 1" "dg_AddNode h data g = Inr (nid, g')"
    using AddNode_inv[OF inv that(2,1)] AddNode_fields(4)[OF that(2)] by (simp add: dg_Node_def)
  ultimately show ?thesis
    using dg_invD(1,2)[OF inv, of s d] dg_invD(4)[OF inv] by (simp add: dg_Edge_def dg_HasEdgeFromTo_def dg_Node_def)
qed

theorem graph_well_formed_witness:
  "dg_Edge 0 1 sample_graph = map_option (\<lambda>data. (0, 1, data)) (lookup2 (dg_to sample_graph) 1 0) \<and>
   dg_Node 1 sample_graph \<noteq> None"
proof -
  have "dg_HasEdgeFromTo 0 1 sample_graph" by (simp add: sample_graph_eq dg_HasEdgeFromTo_def lookup2_def)
  then show ?thesis
    using graph_well_formed[OF sample_graph_reachable, of 0 1 "''d''" 3 sample_graph] by blast
qed

lemma must_get_nodes_source:
  assumes "dg_inv g"
  shows "dg_SourceNodes d g = Some {(s, data). lookup2 (dg_from g) s d \<noteq> None \<and> dg_nodes g s = Some data}"
proof -
  note sym = dg_invD(1)[OF assms, of _ d, symmetric] and ends = dg_invD(2)[OF assms, of _ d]
  show ?thesis
    using ends unfolding dg_SourceNodes_def must_get_nodes_def sym[symmetric]
    by (cases "dg_to g d") (fastforce simp: lookup2_def sym)+
qed

lemma must_get_nodes_destination:
  assumes "dg_inv g"
  shows "dg_DestinationNodes s g = Some {(d, data). lookup2 (dg_from g) s d \<noteq> None \<and> dg_nodes g d = Some data}"
  using dg_invD(2)[OF assms, of s]
  unfolding dg_DestinationNodes_def must_get_nodes_def by (cases "dg_from g s") (fastforce simp: lookup2_def)+

text \<open>
  The queries of a reachable graph agree with each other and never panic: DestinationNodes and SourceNodes return exactly
  the nodes, with their data, that HasEdgeFromTo relates to the argument, Edges lists exactly the edges that Edge reports,
  and DestinationIds and CountSourceNodes are the identifiers and the number of those nodes.
\<close>

theorem graph_queries_agree:
  assumes "graph_reachable h i g"
  shows "dg_DestinationNodes n g = Some {(d, data). dg_HasEdgeFromTo n d g \<and> dg_Node d g = Some (d, data)} \<and>
    dg_SourceNodes n g = Some {(s, data). dg_HasEdgeFromTo s n g \<and> dg_Node s g = Some (s, data)} \<and>
    dg_DestinationIds n g = {d. dg_HasEdgeFromTo n d g} \<and>
    dg_CountSourceNodes n g = card {s. dg_HasEdgeFromTo s n g} \<and>
    dg_Edges g = {e. \<exists>s d. dg_Edge s d g = Some e}"
proof -
  note inv = reachable_inv[OF assms]
  have "dg_DestinationNodes n g = Some {(d, data). dg_HasEdgeFromTo n d g \<and> dg_Node d g = Some (d, data)}"
    by (auto simp: must_get_nodes_destination[OF inv] dg_HasEdgeFromTo_def dg_Node_def)
  moreover have "dg_SourceNodes n g = Some {(s, data). dg_HasEdgeFromTo s n g \<and> dg_Node s g = Some (s, data)}"
    by (auto simp: must_get_nodes_source[OF inv] dg_HasEdgeFromTo_def dg_Node_def)
  moreover have "dg_DestinationIds n g = {d. dg_HasEdgeFromTo n d g}"
    by (auto simp: dg_DestinationIds_def dg_HasEdgeFromTo_def lookup2_def split: option.splits)
  moreover have "dg_CountSourceNodes n g = card {s. dg_HasEdgeFromTo s n g}"
    unfolding dg_CountSourceNodes_def dg_HasEdgeFromTo_def dg_invD(1)[OF inv]
    by (auto simp: lookup2_def dom_def split: option.splits)
  moreover have "dg_Edges g = {e. \<exists>s d. dg_Edge s d g = Some e}"
    using dg_invD(2)[OF inv] by (auto simp: dg_Edges_def dg_Edge_def)
  ultimately show ?thesis by blast
qed

theorem graph_queries_agree_witness:
  "dg_DestinationIds 0 sample_graph = {d. dg_HasEdgeFromTo 0 d sample_graph} \<and> dg_HasEdgeFromTo 0 1 sample_graph"
  using graph_queries_agree[OF sample_graph_reachable, of 0]
  by (simp add: sample_graph_eq dg_HasEdgeFromTo_def lookup2_def)

text \<open>
  Removing a node of a reachable graph removes the node and exactly the edges attached to it, leaves every other node
  and edge as it was, and frees the identifier for a later AddNode.
\<close>

theorem RemoveNode_detaches:
  assumes "graph_reachable h i g" and "dg_Node n g \<noteq> None"
  shows "dg_Node m (dg_RemoveNode h n g) = (if m = n then None else dg_Node m g) \<and>
    dg_Edge s d (dg_RemoveNode h n g) = (if s = n \<or> d = n then None else dg_Edge s d g) \<and>
    set (availableIds (dg_RemoveNode h n g)) = insert n (set (availableIds g))"
proof -
  have n: "dg_nodes g n \<noteq> None" using assms(2) by (simp add: dg_Node_def)
  show ?thesis
    using RemoveNode_lookup(1)[OF reachable_inv[OF assms(1)] n, of h s d] RemoveNode_lookup(3,5)[OF reachable_inv[OF assms(1)] n, of h]
    by (simp add: dg_Node_def dg_Edge_def)
qed

theorem RemoveNode_detaches_witness:
  "dg_Edge 0 1 sample_graph = Some (0, 1, 7) \<and> dg_Edge 0 1 (dg_RemoveNode unique_hooks 1 sample_graph) = None"
proof -
  have "dg_Node 1 sample_graph \<noteq> None" "dg_Edge 0 1 sample_graph = Some (0, 1, 7)"
    by (simp_all add: sample_graph_eq dg_Node_def dg_Edge_def lookup2_def)
  then show ?thesis using RemoveNode_detaches[OF sample_graph_reachable, of 1 0 0 1] by simp
qed

text \<open>
  The edge counter stays equal to the number of edges through AddNode, SetEdge (which may replace an edge) and the removal of
  an edge that is in the graph.
\<close>

theorem edge_counter_exact:
  assumes "graph_reachable h i g" and "exact_count g" and "card (edges g) < 2 ^ 63 - 1"
  shows "(dg_AddNode h data g = Inr (nid, g1) \<longrightarrow> exact_count g1) \<and>
    (dg_SetEdge src dest e g = Inr g2 \<longrightarrow> exact_count g2) \<and>
    (dg_HasEdgeFromTo s d g \<longrightarrow> exact_count (dg_RemoveEdge s d g))"
proof -
  have "exact_count (dg_RemoveEdge s d g)" if "dg_HasEdgeFromTo s d g"
    using that assms(3) by (intro RemoveEdge_count[OF reachable_inv[OF assms(1)] assms(2)]) (simp_all add: edges_def dg_HasEdgeFromTo_def)
  then show ?thesis using AddNode_count[OF assms(2)] SetEdge_count[OF assms(2,3)] by blast
qed

lemma sample_edges: "edges sample_graph = {(0, 1)}"
  by (auto simp: sample_graph_eq edges_def lookup2_def split: if_splits option.splits)

theorem edge_counter_exact_witness:
  "dg_HasEdgeFromTo 0 1 sample_graph \<and> exact_count (dg_RemoveEdge 0 1 sample_graph)"
proof -
  have "exact_count sample_graph" "card (edges sample_graph) < 2 ^ 63 - 1"
    by (simp_all add: exact_count_def sample_edges dg_EdgeCount_def) (simp add: sample_graph_eq)
  moreover have "dg_HasEdgeFromTo 0 1 sample_graph" by (simp add: sample_graph_eq dg_HasEdgeFromTo_def lookup2_def)
  ultimately show ?thesis
    using edge_counter_exact[OF sample_graph_reachable, where s = 0 and d = 1] by blast
qed

text \<open>
  The counter drifts in the two other cases: RemoveEdge of an edge that is not in the graph decrements it when the source
  has had an outgoing edge, although the edges stay the same, and RemoveNode never changes it, although the edges of the node
  are gone.
\<close>

theorem edge_counter_drifts:
  assumes "graph_reachable h i g" and "exact_count g" and "dg_Node s g \<noteq> None" and "dg_Node d g \<noteq> None"
    and "dg_from g s \<noteq> None" and "\<not> dg_HasEdgeFromTo s d g" and "dg_HasEdgeFromTo a b g" and "card (edges g) < 2 ^ 63"
  shows "edges (dg_RemoveEdge s d g) = edges g \<and> dg_EdgeCount (dg_RemoveEdge s d g) = int (card (edges g)) - 1 \<and>
    card (edges (dg_RemoveNode h b g)) < card (edges g) \<and> dg_EdgeCount (dg_RemoveNode h b g) = int (card (edges g))"
proof -
  note inv = reachable_inv[OF assms(1)]
  have c: "finite (edges g)" "edgeCount g = int (card (edges g))" using assms(2) by (simp_all add: exact_count_def dg_EdgeCount_def)
  have "edges (dg_RemoveEdge s d g) = edges g"
    using assms(6) unfolding RemoveEdge_edges[OF inv] by (auto simp: edges_def dg_HasEdgeFromTo_def)
  moreover have "i64 (edgeCount g - 1) = edgeCount g - 1" using c assms(8) by (intro i64_id) (auto simp: in_i64_def)
  then have "dg_EdgeCount (dg_RemoveEdge s d g) = int (card (edges g)) - 1"
    using assms(3-5) c(2) by (auto simp: dg_EdgeCount_def dg_RemoveEdge_def dg_Node_def)
  moreover have ab: "(a, b) \<in> edges g" "dg_nodes g b \<noteq> None"
    using assms(7) dg_invD(2)[OF inv, of a b] by (simp_all add: edges_def dg_HasEdgeFromTo_def)
  then have "edges (dg_RemoveNode h b g) \<subset> edges g" by (auto simp: RemoveNode_edges[OF inv])
  then have "card (edges (dg_RemoveNode h b g)) < card (edges g)" using c(1) by (simp add: psubset_card_mono)
  moreover have "dg_EdgeCount (dg_RemoveNode h b g) = int (card (edges g))"
    using RemoveNode_lookup(6)[OF inv ab(2), of h] c(2) by (simp add: dg_EdgeCount_def)
  ultimately show ?thesis by blast
qed

theorem edge_counter_drifts_witness:
  "dg_EdgeCount (dg_RemoveEdge 0 2 sample_graph) = 0 \<and> edges (dg_RemoveEdge 0 2 sample_graph) = {(0, 1)} \<and>
   dg_EdgeCount (dg_RemoveNode unique_hooks 1 sample_graph) = 1"
proof -
  have "exact_count sample_graph" "card (edges sample_graph) < 2 ^ 63"
    by (simp_all add: exact_count_def sample_edges dg_EdgeCount_def) (simp add: sample_graph_eq)
  moreover have "dg_Node 0 sample_graph \<noteq> None" "dg_Node 2 sample_graph \<noteq> None" "dg_from sample_graph 0 \<noteq> None"
    "\<not> dg_HasEdgeFromTo 0 2 sample_graph" "dg_HasEdgeFromTo 0 1 sample_graph"
    by (simp_all add: sample_graph_eq dg_Node_def dg_HasEdgeFromTo_def lookup2_def)
  ultimately show ?thesis
    using edge_counter_drifts[OF sample_graph_reachable, of 0 2 0 1] by (simp add: sample_edges)
qed

text \<open>
  In every reachable graph with unique string data, the index is exact: GetNode with WithData returns a node exactly when the
  node is in the graph with that data, HasNode says whether there is one, two nodes never share their data, and AddNode panics
  exactly when a node with the same data is in the graph.
\<close>

theorem unique_string_index:
  assumes "graph_reachable unique_hooks (\<lambda>_. None) g"
  shows "(dg_GetNode unique_hooks WithData s g = Inr (n, t) \<longleftrightarrow> dg_NodeData n g = Some s \<and> t = s) \<and>
    dg_HasNode unique_hooks WithData s g = Inr (\<exists>n. dg_NodeData n g = Some s) \<and>
    (dg_NodeData n g = Some s \<longrightarrow> dg_NodeData m g = Some s \<longrightarrow> m = n) \<and>
    (dg_AddNode unique_hooks s g = Inl HookError \<longleftrightarrow> (\<exists>n. dg_NodeData n g = Some s))"
proof -
  have ix: "additionalData g s = Some n \<longleftrightarrow> dg_nodes g n = Some s" for s n
    using reachable_index[OF assms] unfolding index_exact_def by blast
  have "dg_NodeData n g = Some s \<longrightarrow> dg_NodeData m g = Some s \<longrightarrow> m = n"
    unfolding dg_NodeData_def ix[symmetric] by simp
  moreover have "dg_GetNode unique_hooks WithData s g = Inr (n, t) \<longleftrightarrow> dg_NodeData n g = Some s \<and> t = s"
  proof (cases "additionalData g s")
    case (Some k)
    then have "dg_nodes g k = Some s" by (simp add: ix)
    then show ?thesis using Some ix[of s n] by (auto simp: dg_GetNode_def unique_hooks_def unique_getNodeWith_def dg_NodeData_def)
  qed (use ix[of s n] in \<open>auto simp: dg_GetNode_def unique_hooks_def unique_getNodeWith_def dg_NodeData_def\<close>)
  moreover have "dg_HasNode unique_hooks WithData s g = Inr (\<exists>n. dg_NodeData n g = Some s)"
  proof (cases "additionalData g s")
    case (Some k)
    then have "dg_nodes g k = Some s" by (simp add: ix)
    then show ?thesis using Some by (auto simp: dg_HasNode_def unique_hooks_def unique_getNodeWith_def dg_NodeData_def)
  qed (use ix[of s] in \<open>auto simp: dg_HasNode_def unique_hooks_def unique_getNodeWith_def dg_NodeData_def\<close>)
  moreover have "dg_AddNode unique_hooks s g = Inl HookError \<longleftrightarrow> (\<exists>n. dg_NodeData n g = Some s)"
    by (cases "additionalData g s") (auto simp: dg_AddNode_def unique_hooks_def dg_NodeData_def ix[symmetric] Let_def split: list.splits)
  ultimately show ?thesis by blast
qed

theorem unique_string_index_witness:
  "dg_GetNode unique_hooks WithData ''b'' sample_graph = Inr (1, ''b'') \<and> dg_AddNode unique_hooks ''b'' sample_graph = Inl HookError"
proof -
  have "dg_NodeData 1 sample_graph = Some ''b''" by (simp add: sample_graph_eq dg_NodeData_def)
  then show ?thesis using unique_string_index[OF sample_graph_reachable, of "''b''" 1 "''b''" 1] by blast
qed

end
