(* ===== verification/SmallCollections.thy ===== *)
theory SmallCollections
  imports Prelude "HOL-Library.Word"
begin

unbundle bit_operations_syntax

text \<open>
  The allocation-free collections of \<open>internal/memds\<close>: \<open>BitSet32\<close> (\<open>bitset32.go\<close>), the sorted map \<open>Map32\<close> (\<open>map32.go\<close>) and
  the graph \<open>Graph32\<close> with its iterators (\<open>graph32.go\<close>). A bit set is a 32-bit word, an array of 32 elements is a list of
  that length, and \<open>slices.BinarySearchFunc\<close>, which comes from another module, is the parameter \<open>search\<close>. \<open>None\<close> and the
  values of \<open>panic32\<close> are panics.
\<close>

section \<open>BitSet32\<close>

type_synonym BitSet32 = "32 word"

type_synonym Bit32Index = nat

definition checkInBounds :: "Bit32Index \<Rightarrow> bool" where
  "checkInBounds i \<longleftrightarrow> \<not> i > 31"

definition bs_IsSet :: "Bit32Index \<Rightarrow> BitSet32 \<Rightarrow> bool option" where
  "bs_IsSet index s = (if checkInBounds index then Some (s AND push_bit index 1 \<noteq> 0) else None)"

definition bs_Set :: "Bit32Index \<Rightarrow> BitSet32 \<Rightarrow> BitSet32 option" where
  "bs_Set index s = (if checkInBounds index then Some (s OR push_bit index 1) else None)"

definition bs_SetAll :: "BitSet32 \<Rightarrow> BitSet32" where
  "bs_SetAll s = 0xffffffff"

definition bs_Unset :: "Bit32Index \<Rightarrow> BitSet32 \<Rightarrow> BitSet32 option" where
  "bs_Unset index s = (if checkInBounds index then Some (s AND (0xffffffff XOR push_bit index 1)) else None)"

function count_from :: "nat \<Rightarrow> BitSet32 \<Rightarrow> int \<Rightarrow> int" where
  "count_from i s count =
    (if i < 32 then count_from (i + 1) s (if bs_IsSet i s = Some True then count + 1 else count) else count)"
  by auto
termination by (relation "measure (\<lambda>(i, _, _). 32 - i)") auto

definition bs_CountSet :: "BitSet32 \<Rightarrow> int" where
  "bs_CountSet s = count_from 0 s 0"

text \<open>
  \<open>ForEachSet\<close> reads the set through its pointer at every turn, so a callback that changes the set changes the rest of the
  iteration: the state \<open>st\<close> is all the callback may change, and \<open>get\<close> finds the set in it.
\<close>

function for_each_set_from :: "nat \<Rightarrow> ('s \<Rightarrow> BitSet32) \<Rightarrow> (Bit32Index \<Rightarrow> 's \<Rightarrow> 'err option \<times> 's) \<Rightarrow> 's \<Rightarrow> 'err option \<times> 's" where
  "for_each_set_from i get fn st =
    (if i < 32 then
       (if bs_IsSet i (get st) = Some True then
          (case fn i st of
             (Some err, st') \<Rightarrow> (Some err, st')
           | (None, st') \<Rightarrow> for_each_set_from (i + 1) get fn st')
        else for_each_set_from (i + 1) get fn st)
     else (None, st))"
  by auto
termination by (relation "measure (\<lambda>(i, _, _, _). 32 - i)") auto

definition bs_ForEachSet :: "('s \<Rightarrow> BitSet32) \<Rightarrow> (Bit32Index \<Rightarrow> 's \<Rightarrow> 'err option \<times> 's) \<Rightarrow> 's \<Rightarrow> 'err option \<times> 's" where
  "bs_ForEachSet get fn st = for_each_set_from 0 get fn st"

declare count_from.simps [simp del] for_each_set_from.simps [simp del]

section \<open>Map32\<close>

record ('k, 'v) Map32 =
  m_size :: int
  m_entries :: "('k \<times> 'v) list"

datatype map32_error = ErrFullMap32 | IndexOutOfRange

text \<open>\<open>slices.BinarySearchFunc (m.entries[:m.size], key, compare)\<close>: an index and whether the key was found.\<close>

type_synonym ('k, 'v) search = "('k \<times> 'v) list \<Rightarrow> 'k \<Rightarrow> nat \<times> bool"

definition i8 :: "int \<Rightarrow> int" where
  "i8 x = (x + 128) mod 256 - 128"

definition newMap32 :: "'k \<times> 'v \<Rightarrow> ('k, 'v) Map32" where
  "newMap32 zero = \<lparr>m_size = 0, m_entries = replicate 32 zero\<rparr>"

definition getEntryIndex :: "('k, 'v) search \<Rightarrow> 'k \<Rightarrow> ('k, 'v) Map32 \<Rightarrow> nat \<times> bool" where
  "getEntryIndex search key m = search (take (nat (m_size m)) (m_entries m)) key"

definition map32_Get :: "('k, 'v) search \<Rightarrow> 'k \<Rightarrow> ('k, 'v) Map32 \<Rightarrow> map32_error + 'v option" where
  "map32_Get search key m =
    (case getEntryIndex search key m of
       (index, ok) \<Rightarrow>
         if \<not> ok then Inr None
         else if index < 32 then Inr (Some (snd (m_entries m ! index)))
         else Inl IndexOutOfRange)"

definition map32_IsFull :: "('k, 'v) Map32 \<Rightarrow> bool" where
  "map32_IsFull m \<longleftrightarrow> m_size m = int (length (m_entries m))"

definition map32_Set :: "('k, 'v) search \<Rightarrow> 'k \<Rightarrow> 'v \<Rightarrow> ('k, 'v) Map32 \<Rightarrow> map32_error + ('k, 'v) Map32" where
  "map32_Set search key v m =
    (case getEntryIndex search key m of
       (index, ok) \<Rightarrow>
         if ok then
           (if index < 32 then Inr (m\<lparr>m_entries := (m_entries m)[index := (key, v)]\<rparr>) else Inl IndexOutOfRange)
         else if map32_IsFull m then Inl ErrFullMap32
         else if index < 32 then
           (let m1 = m\<lparr>m_size := i8 (m_size m + 1)\<rparr>;
                m2 = m1\<lparr>m_entries := go_copy_at (m_entries m1) (index + 1) (drop index (m_entries m1))\<rparr>
            in Inr (m2\<lparr>m_entries := (m_entries m2)[index := (key, v)]\<rparr>))
         else Inl IndexOutOfRange)"

definition map32_Size :: "('k, 'v) Map32 \<Rightarrow> int" where
  "map32_Size m = m_size m"

section \<open>Graph32\<close>

datatype panic32 = ErrFullGraph32 | ErrInvalidOrOutOfBoundsNodeId | NotFound

record 'a Graph32 =
  g_size :: int
  g_edges :: "BitSet32 list"
  g_nodeData :: "'a list"

definition newGraph32 :: "'a \<Rightarrow> 'a Graph32" where
  "newGraph32 zero = \<lparr>g_size = 0, g_edges = replicate 32 0, g_nodeData = replicate 32 zero\<rparr>"

definition HasNodeOfId :: "int \<Rightarrow> 'a Graph32 \<Rightarrow> bool" where
  "HasNodeOfId nid g \<longleftrightarrow> nid \<ge> 0 \<and> nid < g_size g"

definition NodeOfId :: "int \<Rightarrow> 'a Graph32 \<Rightarrow> (Bit32Index \<times> 'a) option" where
  "NodeOfId nid g = (if \<not> HasNodeOfId nid g then None else Some (nat (nid mod 256), g_nodeData g ! nat nid))"

definition g32_AddNode :: "'a \<Rightarrow> 'a Graph32 \<Rightarrow> panic32 + ((Bit32Index \<times> 'a) \<times> 'a Graph32)" where
  "g32_AddNode data g =
    (if g_size g \<ge> int (length (g_edges g)) then Inl ErrFullGraph32
     else
       (let nid = nat (g_size g mod 256);
            g1 = g\<lparr>g_size := i64 (g_size g + 1)\<rparr>
        in Inr ((nid, data), g1\<lparr>g_nodeData := (g_nodeData g1)[nid := data], g_edges := (g_edges g1)[nid := 0]\<rparr>)))"

function idOfNode_from :: "nat \<Rightarrow> 'a \<Rightarrow> 'a list \<Rightarrow> nat option" where
  "idOfNode_from nid v xs =
    (if nid < length xs then (if xs ! nid = v then Some nid else idOfNode_from (nid + 1) v xs) else None)"
  by auto
termination by (relation "measure (\<lambda>(nid, _, xs). length xs - nid)") auto

declare idOfNode_from.simps [simp del]

definition IdOfNode :: "'a \<Rightarrow> 'a Graph32 \<Rightarrow> int \<times> bool" where
  "IdOfNode v g = (case idOfNode_from 0 v (g_nodeData g) of Some nid \<Rightarrow> (int nid, True) | None \<Rightarrow> (0, False))"

definition MustGetIdOfNode :: "'a \<Rightarrow> 'a Graph32 \<Rightarrow> panic32 + int" where
  "MustGetIdOfNode v g = (case IdOfNode v g of (nid, found) \<Rightarrow> if found then Inr nid else Inl NotFound)"

definition maxAllowedId :: "'a Graph32 \<Rightarrow> int" where
  "maxAllowedId g = i64 (g_size g - 1)"

definition isValidNodeId :: "int \<Rightarrow> 'a Graph32 \<Rightarrow> bool" where
  "isValidNodeId nodeId g \<longleftrightarrow> nodeId \<ge> 0 \<and> nodeId \<le> maxAllowedId g"

text \<open>The bit operations called with a converted identifier; the index is in range once the guards have passed.\<close>

definition bs_set_or_keep :: "Bit32Index \<Rightarrow> BitSet32 \<Rightarrow> BitSet32" where
  "bs_set_or_keep i s = (case bs_Set i s of Some s' \<Rightarrow> s' | None \<Rightarrow> s)"

definition AddEdge :: "int \<Rightarrow> int \<Rightarrow> 'a Graph32 \<Rightarrow> panic32 + 'a Graph32" where
  "AddEdge fromNodeId toNodeId g =
    (if fromNodeId < 0 \<or> fromNodeId > maxAllowedId g \<or> toNodeId < 0 \<or> toNodeId > maxAllowedId g
     then Inl ErrInvalidOrOutOfBoundsNodeId
     else (case bs_Set (nat (toNodeId mod 256)) (g_edges g ! nat fromNodeId) of
             None \<Rightarrow> Inl ErrInvalidOrOutOfBoundsNodeId
           | Some s \<Rightarrow> Inr (g\<lparr>g_edges := (g_edges g)[nat fromNodeId := s]\<rparr>)))"

definition HasEdgeFromTo :: "int \<Rightarrow> int \<Rightarrow> 'a Graph32 \<Rightarrow> panic32 + bool" where
  "HasEdgeFromTo fromNodeId toNodeId g =
    (if \<not> isValidNodeId fromNodeId g \<or> \<not> isValidNodeId toNodeId g then Inl ErrInvalidOrOutOfBoundsNodeId
     else (case bs_IsSet (nat (toNodeId mod 256)) (g_edges g ! nat fromNodeId) of
             None \<Rightarrow> Inl ErrInvalidOrOutOfBoundsNodeId
           | Some b \<Rightarrow> Inr b))"

record 'a Graph32Iterator =
  it_copy :: "'a Graph32"
  it_currentNodes :: BitSet32
  it_currentNode :: Bit32Index
  it_visited :: BitSet32
  it_finished :: bool

definition zero_iterator :: "'a \<Rightarrow> 'a Graph32Iterator" where
  "zero_iterator zero = \<lparr>it_copy = newGraph32 zero, it_currentNodes = 0, it_currentNode = 0, it_visited = 0, it_finished = False\<rparr>"

definition IteratorFrom :: "'a \<Rightarrow> int \<Rightarrow> 'a Graph32 \<Rightarrow> panic32 + 'a Graph32Iterator" where
  "IteratorFrom zero fromNodeId g =
    (if \<not> isValidNodeId fromNodeId g then Inl ErrInvalidOrOutOfBoundsNodeId
     else if \<not> HasNodeOfId fromNodeId g then Inr ((zero_iterator zero)\<lparr>it_visited := bs_SetAll 0\<rparr>)
     else
       (let nodes = g_edges g ! nat fromNodeId;
            it = (zero_iterator zero)\<lparr>it_copy := g, it_visited := 0\<rparr>
        in Inr (snd (bs_ForEachSet (\<lambda>_. nodes)
                 (\<lambda>index st. (None :: unit option, st\<lparr>it_currentNodes := bs_set_or_keep index (it_currentNodes st)\<rparr>)) it))))"

definition bs_unset_or_keep :: "Bit32Index \<Rightarrow> BitSet32 \<Rightarrow> BitSet32" where
  "bs_unset_or_keep i s = (case bs_Unset i s of Some s' \<Rightarrow> s' | None \<Rightarrow> s)"

definition IteratorDirectlyReachableNodes :: "'a \<Rightarrow> int \<Rightarrow> 'a Graph32 \<Rightarrow> panic32 + 'a Graph32Iterator" where
  "IteratorDirectlyReachableNodes zero fromNodeId g =
    (if \<not> isValidNodeId fromNodeId g then Inl ErrInvalidOrOutOfBoundsNodeId
     else if \<not> HasNodeOfId fromNodeId g then Inr ((zero_iterator zero)\<lparr>it_finished := True\<rparr>)
     else
       (let nodes = g_edges g ! nat fromNodeId;
            it = (zero_iterator zero)\<lparr>it_copy := g, it_visited := bs_SetAll 0\<rparr>
        in Inr (snd (bs_ForEachSet (\<lambda>_. nodes)
                 (\<lambda>index st. (None :: unit option,
                    st\<lparr>it_visited := bs_unset_or_keep index (it_visited st),
                       it_currentNodes := bs_set_or_keep index (it_currentNodes st)\<rparr>)) it))))"

definition g32_Node :: "'a Graph32Iterator \<Rightarrow> panic32 + (Bit32Index \<times> 'a)" where
  "g32_Node it = (case NodeOfId (int (it_currentNode it)) (it_copy it) of Some n \<Rightarrow> Inr n | None \<Rightarrow> Inl NotFound)"

text \<open>The callback of \<open>Next\<close>, on the pair of the local \<open>ok\<close> and the iterator.\<close>

definition next_visit :: "Bit32Index \<Rightarrow> bool \<times> 'a Graph32Iterator \<Rightarrow> unit option \<times> bool \<times> 'a Graph32Iterator" where
  "next_visit index st =
    (case st of (ok, it) \<Rightarrow>
       if bs_IsSet index (it_visited it) = Some True then (None, st)
       else
         (let it1 = it\<lparr>it_visited := bs_set_or_keep index (it_visited it), it_currentNode := index\<rparr>;
              edges = g_edges (it_copy it1) ! index
          in (None, True,
              snd (bs_ForEachSet (\<lambda>_. edges)
                (\<lambda>linkedNode it2. (None :: unit option,
                   if bs_IsSet linkedNode (it_visited it2) = Some True then it2
                   else it2\<lparr>it_currentNodes := bs_set_or_keep linkedNode (it_currentNodes it2)\<rparr>)) it1))))"

definition g32_Next :: "'a Graph32Iterator \<Rightarrow> bool \<times> 'a Graph32Iterator" where
  "g32_Next it = snd (bs_ForEachSet (\<lambda>st. it_currentNodes (snd st)) next_visit (False, it))"

section \<open>Bit sets as sets\<close>

definition members :: "BitSet32 \<Rightarrow> Bit32Index set" where
  "members s = {i. bs_IsSet i s = Some True}"

definition sorted_members :: "BitSet32 \<Rightarrow> Bit32Index list" where
  "sorted_members s = filter (\<lambda>i. bs_IsSet i s = Some True) [0..<32]"

lemma and_exp: "(s :: 'a :: len word) AND 2 ^ i \<noteq> 0 \<longleftrightarrow> bit s i"
proof
  assume "bit s i"
  then have "bit (s AND 2 ^ i) i" using bit_imp_le_length[of s i] by (simp add: bit_and_iff bit_exp_iff)
  then show "s AND 2 ^ i \<noteq> 0" by auto
next
  assume "s AND 2 ^ i \<noteq> 0"
  then obtain n where "bit (s AND 2 ^ i) n" by (metis bit_word_eqI bit_0_eq bot_apply bot_bool_def)
  then show "bit s i" by (auto simp: bit_and_iff bit_exp_iff)
qed

lemma IsSet_bit: "bs_IsSet i s = (if i < 32 then Some (bit s i) else None)"
  by (simp add: bs_IsSet_def checkInBounds_def and_exp not_less)

lemma members_bit: "members s = {i. bit s i}"
  using bit_imp_le_length[of s] by (auto simp: members_def IsSet_bit)

lemma Set_bit: "bs_Set i s = Some s' \<Longrightarrow> bit s' j \<longleftrightarrow> bit s j \<or> j = i"
  by (auto simp: bs_Set_def checkInBounds_def bit_or_iff bit_exp_iff split: if_splits)

lemma SetAll_bit: "bit (bs_SetAll s) j \<longleftrightarrow> j < 32"
proof -
  have "bs_SetAll s = mask 32" by (simp add: bs_SetAll_def mask_eq_exp_minus_1)
  then show ?thesis by (simp add: bit_mask_iff)
qed

lemma Unset_bit: "bs_Unset i s = Some s' \<Longrightarrow> bit s' j \<longleftrightarrow> bit s j \<and> j \<noteq> i"
  using SetAll_bit[of 0 j] bit_imp_le_length[of s j]
  by (auto simp: bs_Unset_def bs_SetAll_def checkInBounds_def bit_and_iff bit_xor_iff bit_exp_iff split: if_splits)

lemma set_or_keep_bit: "i < 32 \<Longrightarrow> bit (bs_set_or_keep i s) j \<longleftrightarrow> bit s j \<or> j = i"
  using Set_bit[of i s _ j] by (auto simp: bs_set_or_keep_def bs_Set_def checkInBounds_def split: option.splits)

lemma unset_or_keep_bit: "i < 32 \<Longrightarrow> bit (bs_unset_or_keep i s) j \<longleftrightarrow> bit s j \<and> j \<noteq> i"
  using Unset_bit[of i s _ j] by (auto simp: bs_unset_or_keep_def bs_Unset_def checkInBounds_def split: option.splits)

lemma set_or_keep_id: "bit s i \<Longrightarrow> bs_set_or_keep i s = s"
  using bit_imp_le_length[of s i] by (intro bit_word_eqI) (auto simp: set_or_keep_bit)

lemma upt_32_Cons: "i < 32 \<Longrightarrow> [i..<32] = i # [i + 1..<32]"
  by (simp add: upt_conv_Cons)

lemma count_from_filter: "count_from i s c = c + int (length (filter (\<lambda>j. bs_IsSet j s = Some True) [i..<32]))"
proof (induction i s c rule: count_from.induct)
  case (1 i s c)
  then show ?case by (cases "i < 32") (simp_all add: count_from.simps[of i] upt_32_Cons)
qed

text \<open>Running a callback on a list of indexes, stopping at the first error.\<close>

fun each_until :: "(Bit32Index \<Rightarrow> 's \<Rightarrow> 'err option \<times> 's) \<Rightarrow> Bit32Index list \<Rightarrow> 's \<Rightarrow> 'err option \<times> 's" where
  "each_until fn [] st = (None, st)"
| "each_until fn (i # is) st = (case fn i st of (Some err, st') \<Rightarrow> (Some err, st') | (None, st') \<Rightarrow> each_until fn is st')"

lemma for_each_set_filter:
  assumes "\<And>j st. j < 32 \<Longrightarrow> get (snd (fn j st)) = get st"
  shows "for_each_set_from i get fn st = each_until fn (filter (\<lambda>j. bs_IsSet j (get st) = Some True) [i..<32]) st"
proof (induction "32 - i" arbitrary: i st)
  case (Suc k)
  then have i: "i < 32" and k: "k = 32 - (i + 1)" by simp_all
  show ?case
  proof (cases "bs_IsSet i (get st) = Some True")
    case True
    obtain r st' where r: "fn i st = (r, st')" by fastforce
    then have "get st' = get st" using assms[OF i, of st] by simp
    then show ?thesis
      using Suc.hyps(1)[OF k, of st'] True
      by (simp add: for_each_set_from.simps[of i] upt_32_Cons i r split: option.split)
  qed (use Suc.hyps(1)[OF k, of st] in \<open>simp add: for_each_set_from.simps[of i] upt_32_Cons i\<close>)
qed (simp add: for_each_set_from.simps)

lemma sorted_members_set: "set (sorted_members s) = members s" "sorted (sorted_members s)" "distinct (sorted_members s)"
  using bit_imp_le_length[of s] by (auto simp: sorted_members_def members_bit IsSet_bit sorted_filter[of id, simplified])

lemma CountSet_card: "bs_CountSet s = int (card (members s))"
proof -
  have "bs_CountSet s = int (length (sorted_members s))" by (simp add: bs_CountSet_def count_from_filter sorted_members_def)
  then show ?thesis using sorted_members_set[of s] distinct_card by metis
qed

section \<open>Map32 as a sorted map\<close>

text \<open>
  What \<open>slices.BinarySearchFunc\<close> documents: on a slice in strictly increasing order it returns the position at which the key is
  found, or at which it would be inserted, and whether the key is in the slice.
\<close>

definition documented_search :: "('k :: linorder, 'v) search \<Rightarrow> bool" where
  "documented_search search \<longleftrightarrow>
     (\<forall>es k. sorted_wrt (<) (map fst es) \<longrightarrow> search es k = (length (takeWhile (\<lambda>e. fst e < k) es), k \<in> fst ` set es))"

definition live :: "('k, 'v) Map32 \<Rightarrow> ('k \<times> 'v) list" where
  "live m = take (nat (m_size m)) (m_entries m)"

definition map32_inv :: "('k :: linorder, 'v) Map32 \<Rightarrow> bool" where
  "map32_inv m \<longleftrightarrow> length (m_entries m) = 32 \<and> 0 \<le> m_size m \<and> m_size m \<le> 32 \<and> sorted_wrt (<) (map fst (live m))"

lemma live_length: "map32_inv m \<Longrightarrow> length (live m) = nat (m_size m)"
  by (auto simp: map32_inv_def live_def)

lemma search_index:
  assumes "documented_search search" "map32_inv m"
  shows "getEntryIndex search key m = (length (takeWhile (\<lambda>e. fst e < key) (live m)), key \<in> fst ` set (live m))"
  using assms by (simp add: getEntryIndex_def documented_search_def map32_inv_def live_def)

lemma sorted_split:
  fixes es :: "('k :: linorder \<times> 'v) list"
  assumes "sorted_wrt (<) (map fst es)"
  obtains as bs where "es = as @ bs" "length as = length (takeWhile (\<lambda>e. fst e < key) es)"
    "\<forall>e \<in> set as. fst e < key" "\<forall>e \<in> set bs. key \<le> fst e" "key \<in> fst ` set es \<Longrightarrow> bs \<noteq> [] \<and> fst (hd bs) = key"
    "sorted_wrt (<) (map fst as)" "sorted_wrt (<) (map fst bs)"
proof
  let ?P = "\<lambda>e :: 'k \<times> 'v. fst e < key"
  let ?as = "takeWhile ?P es" and ?bs = "dropWhile ?P es"
  show es: "es = ?as @ ?bs" by simp
  have s: "sorted_wrt (<) (map fst ?as @ map fst ?bs)" using assms by (metis es map_append)
  then show "sorted_wrt (<) (map fst ?as)" "sorted_wrt (<) (map fst ?bs)" by (simp_all add: sorted_wrt_append)
  show lt: "\<forall>e \<in> set ?as. fst e < key" by (auto dest: set_takeWhileD)
  show ge: "\<forall>e \<in> set ?bs. key \<le> fst e"
  proof (cases ?bs)
    case (Cons b bs)
    have "\<not> fst b < key" using hd_dropWhile[of ?P es] Cons by simp
    then show ?thesis using s Cons by (auto simp: sorted_wrt_append)
  next
    case Nil
    then show ?thesis by (simp only:) simp
  qed
  show "?bs \<noteq> [] \<and> fst (hd ?bs) = key" if found: "key \<in> fst ` set es"
  proof -
    obtain e where e: "e \<in> set es" "fst e = key" using found by blast
    have "e \<in> set ?as \<union> set ?bs" using e(1) unfolding set_append[symmetric] es[symmetric] .
    then have mem: "e \<in> set ?bs" using lt e(2) by auto
    show ?thesis
    proof (cases ?bs)
      case (Cons b bs)
      have "fst b < fst x" if "x \<in> set bs" for x using s Cons that by (simp add: sorted_wrt_append)
      moreover have "key \<le> fst b" using ge Cons by simp
      ultimately show ?thesis using mem e(2) unfolding Cons by (fastforce dest: leD)
    next
      case Nil
      then show ?thesis using mem by (simp only:) simp
    qed
  qed
qed simp

lemma map_of_sorted_hd:
  fixes bs :: "('k :: linorder \<times> 'v) list"
  assumes "\<forall>e \<in> set as. fst e < key"
  shows "map_of (as @ bs) k = (if k < key then (case map_of as k of Some v \<Rightarrow> Some v | None \<Rightarrow> map_of bs k) else map_of bs k)"
proof -
  have "map_of as k = None" if "\<not> k < key" using assms that by (auto simp: map_of_eq_None_iff)
  then show ?thesis by (auto simp: map_add_def split: option.splits)
qed

lemma map_of_middle:
  fixes as :: "('k :: linorder \<times> 'v) list"
  assumes "\<forall>e \<in> set as. fst e < key" and "map_of bs = (if w then (map_of cs)(key := map_of bs key) else map_of cs)"
  shows "map_of (as @ (key, v) # cs) = (map_of (as @ bs))(key \<mapsto> v)"
proof -
  have "map_of as key = None" using assms(1) by (auto simp: map_of_eq_None_iff)
  then show ?thesis using assms(2) by (cases w) (auto simp: fun_eq_iff map_add_def split: option.splits)
qed

lemma Get_map_of:
  assumes "documented_search search" "map32_inv m"
  shows "map32_Get search key m = Inr (map_of (live m) key)"
proof -
  have len: "length (live m) \<le> 32" "length (m_entries m) = 32" using assms(2) live_length[OF assms(2)] by (auto simp: map32_inv_def)
  obtain as bs where es: "live m = as @ bs" "length as = length (takeWhile (\<lambda>e. fst e < key) (live m))"
    "\<forall>e \<in> set as. fst e < key" "key \<in> fst ` set (live m) \<Longrightarrow> bs \<noteq> [] \<and> fst (hd bs) = key"
    using sorted_split[of "live m" key] assms(2) unfolding map32_inv_def by metis
  show ?thesis
  proof (cases "key \<in> fst ` set (live m)")
    case True
    then obtain v bs' where bs: "bs = (key, v) # bs'" using es(4) by (cases bs) auto
    have "length as < length (live m)" using es(1) bs by simp
    then have "m_entries m ! length as = live m ! length as" by (simp add: live_def)
    also have "\<dots> = (key, v)" using es(1) bs by simp
    finally show ?thesis
      using search_index[OF assms, of key] True es(2) len(1) \<open>length as < length (live m)\<close> map_of_sorted_hd[OF es(3), of bs key]
      by (simp add: map32_Get_def es(1) bs)
  next
    case False
    then have "map_of (live m) key = None" by (auto simp: map_of_eq_None_iff)
    then show ?thesis using search_index[OF assms, of key] False by (simp add: map32_Get_def)
  qed
qed

lemma live_replace: "i < length (live m) \<Longrightarrow> live (m\<lparr>m_entries := (m_entries m)[i := e]\<rparr>) = (live m)[i := e]"
  by (simp add: live_def take_update_swap)

text \<open>Shifting the tail of the array by one and storing the new entry inserts it in the used part.\<close>

lemma shift_insert:
  assumes "length es = 32" "i \<le> n" "n < 32"
  shows "take (Suc n) ((go_copy_at es (i + 1) (drop i es))[i := e]) = take i (take n es) @ e # drop i (take n es)"
    and "length ((go_copy_at es (i + 1) (drop i es))[i := e]) = 32"
proof -
  have "go_copy_at es (i + 1) (drop i es) = take (i + 1) es @ take (31 - i) (drop i es)"
    using assms by (simp add: go_copy_at_def go_copy_def)
  also have "take (i + 1) es = take i es @ [es ! i]" using assms by (simp add: take_Suc_conv_app_nth)
  finally have "(go_copy_at es (i + 1) (drop i es))[i := e] = take i es @ e # take (31 - i) (drop i es)"
    using assms by (simp add: list_update_append)
  then show "take (Suc n) ((go_copy_at es (i + 1) (drop i es))[i := e]) = take i (take n es) @ e # drop i (take n es)"
    using assms by (simp add: drop_take min_def Suc_diff_le)
qed (simp add: assms)

lemma Set_replaces:
  assumes "documented_search search" "map32_inv m" "key \<in> fst ` set (live m)"
  shows "\<exists>m'. map32_Set search key v m = Inr m' \<and> map32_inv m' \<and> m_size m' = m_size m \<and>
    map_of (live m') = (map_of (live m))(key \<mapsto> v)"
proof -
  have len: "length (live m) \<le> 32" using assms(2) live_length[OF assms(2)] by (auto simp: map32_inv_def)
  obtain as bs where es: "live m = as @ bs" "length as = length (takeWhile (\<lambda>e. fst e < key) (live m))"
    "\<forall>e \<in> set as. fst e < key" "bs \<noteq> [] \<and> fst (hd bs) = key"
    using sorted_split[of "live m" key] assms(2,3) unfolding map32_inv_def by metis
  obtain w bs' where bs: "bs = (key, w) # bs'" using es(4) by (cases bs) auto
  let ?m = "m\<lparr>m_entries := (m_entries m)[length as := (key, v)]\<rparr>"
  have lt: "length as < length (live m)" using es(1) bs by simp
  have l': "live ?m = as @ (key, v) # bs'" unfolding live_replace[OF lt] es(1) bs by simp
  have "map fst (live ?m) = map fst (live m)" unfolding l' es(1) bs by simp
  then have "map32_inv ?m" using assms(2) by (simp add: map32_inv_def)
  moreover have "map32_Set search key v m = Inr ?m"
    using search_index[OF assms(1,2), of key] assms(3) es(2) lt len by (simp add: map32_Set_def)
  moreover have "map_of (live ?m) = (map_of (live m))(key \<mapsto> v)"
    unfolding l' es(1) by (rule map_of_middle[OF es(3), where w = True]) (simp add: bs fun_eq_iff)
  ultimately show ?thesis by auto
qed

lemma Set_inserts:
  assumes "documented_search search" "map32_inv m" "key \<notin> fst ` set (live m)" "m_size m < 32"
  shows "\<exists>m'. map32_Set search key v m = Inr m' \<and> map32_inv m' \<and> m_size m' = m_size m + 1 \<and>
    map_of (live m') = (map_of (live m))(key \<mapsto> v)"
proof -
  have len: "length (live m) < 32" "length (m_entries m) = 32" "0 \<le> m_size m" "sorted_wrt (<) (map fst (live m))"
    using assms(2,4) live_length[OF assms(2)] by (auto simp: map32_inv_def)
  obtain as bs where es: "live m = as @ bs" "length as = length (takeWhile (\<lambda>e. fst e < key) (live m))"
    "\<forall>e \<in> set as. fst e < key" "\<forall>e \<in> set bs. key \<le> fst e"
    using sorted_split[OF len(4), of key] by metis
  let ?es = "(go_copy_at (m_entries m) (length as + 1) (drop (length as) (m_entries m)))[length as := (key, v)]"
  let ?m = "m\<lparr>m_size := m_size m + 1, m_entries := ?es\<rparr>"
  have le: "length as \<le> nat (m_size m)" "nat (m_size m) < 32" using es(1) live_length[OF assms(2)] len(1) by auto
  have tk: "take (nat (m_size m)) (m_entries m) = as @ bs" using es(1) by (simp add: live_def)
  have sz: "nat (m_size m + 1) = Suc (nat (m_size m))" using len(3) by simp
  have l': "live ?m = as @ (key, v) # bs"
    unfolding live_def using shift_insert(1)[OF len(2) le] by (simp add: sz tk)
  have "key \<notin> fst ` set bs" using assms(3) es(1) by auto
  then have gt: "\<forall>e \<in> set bs. key < fst e" using es(4) by (metis image_eqI order.not_eq_order_implies_strict)
  have "sorted_wrt (<) (map fst (live ?m))"
    using len(4) es(1,3) gt unfolding l' by (auto simp: sorted_wrt_append)
  then have "map32_inv ?m" using shift_insert(2)[OF len(2) le] len(3) assms(4) by (simp add: map32_inv_def)
  moreover have "i8 (m_size m + 1) = m_size m + 1" using len(3) assms(4) by (simp add: i8_def)
  then have "map32_Set search key v m = Inr ?m"
    using search_index[OF assms(1,2), of key] assms(3,4) es(2) le len(2)
    by (simp add: map32_Set_def map32_IsFull_def Let_def)
  moreover have "map_of (live ?m) = (map_of (live m))(key \<mapsto> v)"
    unfolding l' es(1) by (rule map_of_middle[OF es(3), where w = False]) simp
  ultimately show ?thesis by auto
qed

lemma Set_full:
  assumes "documented_search search" "map32_inv m" "key \<notin> fst ` set (live m)" "m_size m = 32"
  shows "map32_Set search key v m = Inl ErrFullMap32"
  using search_index[OF assms(1,2), of key] assms by (simp add: map32_Set_def map32_IsFull_def map32_inv_def)

section \<open>Graph32\<close>

definition g32_inv :: "'a Graph32 \<Rightarrow> bool" where
  "g32_inv g \<longleftrightarrow> length (g_edges g) = 32 \<and> length (g_nodeData g) = 32 \<and> 0 \<le> g_size g \<and> g_size g \<le> 32 \<and>
     (\<forall>i < 32. \<forall>j. bit (g_edges g ! i) j \<longrightarrow> int i < g_size g \<and> int j < g_size g)"

lemma maxAllowedId_inv: "g32_inv g \<Longrightarrow> maxAllowedId g = g_size g - 1"
  unfolding maxAllowedId_def by (rule i64_id) (auto simp: g32_inv_def in_i64_def)

lemma valid_has_node: "g32_inv g \<Longrightarrow> isValidNodeId n g \<longleftrightarrow> HasNodeOfId n g"
  by (auto simp: isValidNodeId_def HasNodeOfId_def maxAllowedId_inv)

lemma node_id_range: "g32_inv g \<Longrightarrow> HasNodeOfId n g \<Longrightarrow> 0 \<le> n \<and> n < 32 \<and> nat (n mod 256) = nat n \<and> nat n < 32"
  by (auto simp: HasNodeOfId_def g32_inv_def)

lemma HasEdgeFromTo_bit:
  assumes "g32_inv g" "HasNodeOfId a g" "HasNodeOfId b g"
  shows "HasEdgeFromTo a b g = Inr (bit (g_edges g ! nat a) (nat b))"
  using assms node_id_range[OF assms(1,3)] by (simp add: HasEdgeFromTo_def valid_has_node IsSet_bit)

lemma AddEdge_ok:
  assumes "g32_inv g" "HasNodeOfId a g" "HasNodeOfId b g"
  shows "\<exists>s. bs_Set (nat b) (g_edges g ! nat a) = Some s \<and> AddEdge a b g = Inr (g\<lparr>g_edges := (g_edges g)[nat a := s]\<rparr>)"
  using assms node_id_range[OF assms(1,3)] node_id_range[OF assms(1,2)]
  by (auto simp: AddEdge_def maxAllowedId_inv HasNodeOfId_def bs_Set_def checkInBounds_def)

lemma AddEdge_inv:
  assumes "g32_inv g" "AddEdge a b g = Inr g'"
  shows "g32_inv g' \<and> HasNodeOfId a g \<and> HasNodeOfId b g \<and> g_size g' = g_size g \<and>
    (\<forall>i < 32. \<forall>j. bit (g_edges g' ! i) j \<longleftrightarrow> bit (g_edges g ! i) j \<or> i = nat a \<and> j = nat b)"
proof -
  have n: "HasNodeOfId a g" "HasNodeOfId b g"
    using assms by (auto simp: AddEdge_def HasNodeOfId_def maxAllowedId_inv split: if_splits)
  obtain s where s: "bs_Set (nat b) (g_edges g ! nat a) = Some s" "g' = g\<lparr>g_edges := (g_edges g)[nat a := s]\<rparr>"
    using AddEdge_ok[OF assms(1) n] assms(2) by auto
  have bits: "\<forall>i < 32. \<forall>j. bit (g_edges g' ! i) j \<longleftrightarrow> bit (g_edges g ! i) j \<or> i = nat a \<and> j = nat b"
  proof (intro allI impI)
    fix i j :: nat
    assume "i < 32"
    then show "bit (g_edges g' ! i) j \<longleftrightarrow> bit (g_edges g ! i) j \<or> i = nat a \<and> j = nat b"
      using Set_bit[OF s(1), of j] s(2) assms(1) by (cases "i = nat a") (simp_all add: g32_inv_def)
  qed
  moreover have "int (nat a) < g_size g" "int (nat b) < g_size g" using n by (auto simp: HasNodeOfId_def)
  ultimately have "g32_inv g'" using assms(1) s(2) unfolding g32_inv_def by auto
  then show ?thesis using bits n s(2) by simp
qed

lemma AddNode32_inv:
  assumes "g32_inv g" "g32_AddNode data g = Inr ((nid, d), g')"
  shows "g32_inv g' \<and> int nid = g_size g \<and> d = data \<and> g_size g < 32 \<and> g_size g' = g_size g + 1 \<and> g_edges g' = g_edges g \<and>
    g_nodeData g' = (g_nodeData g)[nid := data]"
proof -
  have lt: "0 \<le> g_size g" "g_size g < 32" using assms by (auto simp: g32_AddNode_def g32_inv_def split: if_splits)
  then have nid: "nid = nat (g_size g)" "d = data" using assms by (auto simp: g32_AddNode_def g32_inv_def Let_def)
  have "i64 (g_size g + 1) = g_size g + 1" using lt by (intro i64_id) (simp add: in_i64_def)
  moreover have "g_edges g ! nid = 0"
  proof (rule bit_word_eqI)
    fix j
    have "nid < 32" "int nid = g_size g" using nid lt by auto
    then show "bit (g_edges g ! nid) j \<longleftrightarrow> bit 0 j" using assms(1) by (auto simp: g32_inv_def)
  qed
  then have "(g_edges g)[nid := 0] = g_edges g" using list_update_id[of "g_edges g" nid] by simp
  ultimately have g': "g' = g\<lparr>g_size := g_size g + 1, g_nodeData := (g_nodeData g)[nid := data]\<rparr>"
    using assms(2) lt nid by (auto simp: g32_AddNode_def Let_def split: if_splits)
  have "g32_inv g'" using assms(1) lt unfolding g' g32_inv_def by fastforce
  then show ?thesis using nid lt g' by simp
qed

inductive g32_reachable :: "'a \<Rightarrow> 'a Graph32 \<Rightarrow> bool" for zero where
  g32_new: "g32_reachable zero (newGraph32 zero)"
| g32_node: "g32_reachable zero g \<Longrightarrow> g32_AddNode data g = Inr (n, g') \<Longrightarrow> g32_reachable zero g'"
| g32_edge: "g32_reachable zero g \<Longrightarrow> AddEdge a b g = Inr g' \<Longrightarrow> g32_reachable zero g'"

lemma g32_reachable_inv: "g32_reachable zero g \<Longrightarrow> g32_inv g"
proof (induction rule: g32_reachable.induct)
  case (g32_node g data n g')
  then show ?case by (cases n) (blast dest: AddNode32_inv)
next
  case (g32_edge g a b g')
  then show ?case by (blast dest: AddEdge_inv)
qed (simp add: g32_inv_def newGraph32_def)

section \<open>Iteration over the directly reachable nodes\<close>

text \<open>The callback of the inner loop of \<open>Next\<close> changes nothing when every node left to visit is already in \<open>currentNodes\<close>.\<close>

lemma inner_loop_idle:
  assumes "\<And>j. j < 32 \<Longrightarrow> \<not> bit (it_visited it) j \<Longrightarrow> bit (it_currentNodes it) j"
  shows "for_each_set_from i (\<lambda>_. edges)
    (\<lambda>linkedNode it2. (None :: unit option,
       if bs_IsSet linkedNode (it_visited it2) = Some True then it2
       else it2\<lparr>it_currentNodes := bs_set_or_keep linkedNode (it_currentNodes it2)\<rparr>)) it = (None, it)"
proof (induction "32 - i" arbitrary: i)
  case (Suc k)
  then have i: "i < 32" and k: "k = 32 - (i + 1)" by simp_all
  have "(if bs_IsSet i (it_visited it) = Some True then it
     else it\<lparr>it_currentNodes := bs_set_or_keep i (it_currentNodes it)\<rparr>) = it"
    using assms[OF i] i by (auto simp: IsSet_bit set_or_keep_id)
  then show ?case using Suc.hyps(1)[OF k] i by (simp add: for_each_set_from.simps[of i])
qed (simp add: for_each_set_from.simps)

text \<open>What one pass of \<open>Next\<close> over the successors \<open>S\<close> has done when it reaches the index \<open>i\<close>.\<close>

definition pass_state :: "BitSet32 \<Rightarrow> nat \<Rightarrow> bool \<times> 'a Graph32Iterator \<Rightarrow> bool" where
  "pass_state S i st \<longleftrightarrow>
     it_currentNodes (snd st) = S \<and> (\<forall>j < 32. bit (it_visited (snd st)) j \<longleftrightarrow> \<not> bit S j \<or> j < i) \<and>
     (fst st \<longleftrightarrow> (\<exists>j < i. bit S j)) \<and>
     (fst st \<longrightarrow> bit S (it_currentNode (snd st)) \<and> (\<forall>j < i. bit S j \<longrightarrow> j \<le> it_currentNode (snd st)))"

lemma next_visit_step:
  assumes "i < 32" "bit S i" "pass_state S i (ok, it)"
  shows "next_visit i (ok, it) = (None, True, it\<lparr>it_visited := bs_set_or_keep i (it_visited it), it_currentNode := i\<rparr>)"
    (is "_ = (None, True, ?it)")
proof -
  have "\<not> bit (it_visited it) i" using assms by (auto simp: pass_state_def)
  moreover have "bit (it_currentNodes ?it) j" if "j < 32" "\<not> bit (it_visited ?it) j" for j
    using that assms by (auto simp: pass_state_def set_or_keep_bit)
  ultimately show ?thesis
    using assms(1) inner_loop_idle[of ?it 0] by (simp add: next_visit_def IsSet_bit Let_def bs_ForEachSet_def)
qed

lemma pass_complete:
  assumes "i \<le> 32" "pass_state S i st"
  shows "pass_state S 32 (snd (for_each_set_from i (\<lambda>st. it_currentNodes (snd st)) next_visit st))"
  using assms
proof (induction "32 - i" arbitrary: i st)
  case (Suc k)
  then have i: "i < 32" and k: "k = 32 - (i + 1)" by simp_all
  obtain ok it where st: "st = (ok, it)" by fastforce
  have S: "it_currentNodes it = S" using Suc.prems(2) st by (simp add: pass_state_def)
  show ?case
  proof (cases "bit S i")
    case True
    let ?it = "it\<lparr>it_visited := bs_set_or_keep i (it_visited it), it_currentNode := i\<rparr>"
    have "pass_state S (i + 1) (True, ?it)"
      using Suc.prems(2) True i unfolding st by (auto simp: pass_state_def set_or_keep_bit less_Suc_eq)
    then have "pass_state S 32 (snd (for_each_set_from (i + 1) (\<lambda>st. it_currentNodes (snd st)) next_visit (True, ?it)))"
      using Suc.hyps(1)[OF k] i by simp
    then show ?thesis
      using next_visit_step[OF i True Suc.prems(2)[unfolded st]] i S True
      by (simp add: for_each_set_from.simps[of i] st IsSet_bit)
  next
    case False
    then have "pass_state S (i + 1) st"
      using Suc.prems(2) unfolding pass_state_def by (auto simp: less_Suc_eq)
    then show ?thesis
      using Suc.hyps(1)[OF k, of st] i S False by (simp add: for_each_set_from.simps[of i] st IsSet_bit)
  qed
qed (simp add: for_each_set_from.simps)

lemma pass_all_visited:
  assumes "\<forall>j < 32. bit (it_visited it) j"
  shows "for_each_set_from i (\<lambda>st. it_currentNodes (snd st)) next_visit (ok, it) = (None, ok, it)"
proof (induction "32 - i" arbitrary: i)
  case (Suc k)
  then have i: "i < 32" and k: "k = 32 - (i + 1)" by simp_all
  have "next_visit i (ok, it) = (None, ok, it)" using assms i by (simp add: next_visit_def IsSet_bit)
  then show ?case using Suc.hyps(1)[OF k] i by (simp add: for_each_set_from.simps[of i])
qed (simp add: for_each_set_from.simps)

lemma fill_loops:
  assumes "i \<le> 32" and "it' = snd (for_each_set_from i (\<lambda>_. nodes)
      (\<lambda>index st. (None :: unit option,
         st\<lparr>it_visited := bs_unset_or_keep index (it_visited st), it_currentNodes := bs_set_or_keep index (it_currentNodes st)\<rparr>)) it)"
  shows "(bit (it_currentNodes it') j \<longleftrightarrow> bit (it_currentNodes it) j \<or> i \<le> j \<and> bit nodes j) \<and>
    (bit (it_visited it') j \<longleftrightarrow> bit (it_visited it) j \<and> \<not> (i \<le> j \<and> bit nodes j)) \<and> it_copy it' = it_copy it"
  using assms
proof (induction "32 - i" arbitrary: i it)
  case 0
  then show ?case using bit_imp_le_length[of nodes j] by (auto simp: for_each_set_from.simps)
next
  case (Suc k)
  then have i: "i < 32" and k: "k = 32 - (i + 1)" by simp_all
  have step: "i \<le> j \<longleftrightarrow> j = i \<or> i + 1 \<le> j" by auto
  show ?case
  proof (cases "bit nodes i")
    case True
    let ?it = "it\<lparr>it_visited := bs_unset_or_keep i (it_visited it), it_currentNodes := bs_set_or_keep i (it_currentNodes it)\<rparr>"
    show ?thesis
      using Suc.hyps(1)[OF k, of ?it] Suc.prems(2) i True unfolding step
      by (auto simp: for_each_set_from.simps[of i] IsSet_bit set_or_keep_bit unset_or_keep_bit)
  next
    case False
    then show ?thesis
      using Suc.hyps(1)[OF k, of it] Suc.prems(2) i unfolding step
      by (auto simp: for_each_set_from.simps[of i] IsSet_bit)
  qed
qed

lemma direct_iterator_start:
  assumes "g32_inv g" "HasNodeOfId n g"
  shows "\<exists>it. IteratorDirectlyReachableNodes zero n g = Inr it \<and> pass_state (g_edges g ! nat n) 0 (False, it) \<and> it_copy it = g"
proof -
  let ?it0 = "(zero_iterator zero)\<lparr>it_copy := g, it_visited := bs_SetAll 0\<rparr>"
  obtain it where it: "IteratorDirectlyReachableNodes zero n g = Inr it"
    "it = snd (for_each_set_from 0 (\<lambda>_. g_edges g ! nat n)
      (\<lambda>index st. (None :: unit option,
         st\<lparr>it_visited := bs_unset_or_keep index (it_visited st), it_currentNodes := bs_set_or_keep index (it_currentNodes st)\<rparr>)) ?it0)"
    using assms by (simp add: IteratorDirectlyReachableNodes_def valid_has_node bs_ForEachSet_def Let_def)
  note F = fill_loops[OF _ it(2), simplified]
  have "it_currentNodes it = g_edges g ! nat n" by (rule bit_word_eqI) (use F in \<open>simp add: zero_iterator_def\<close>)
  moreover have "bit (it_visited it) j \<longleftrightarrow> \<not> bit (g_edges g ! nat n) j" if "j < 32" for j
    using F that by (simp add: SetAll_bit)
  ultimately show ?thesis using it(1) F by (auto simp: pass_state_def)
qed

section \<open>Properties\<close>

text \<open>
  A BitSet32 is a finite set of the indexes 0 to 31: for an index in range Set, Unset and IsSet insert, delete and test it,
  CountSet is the number of members, SetAll makes every index a member, and ForEachSet runs a callback that leaves the set
  alone on the members in increasing order, stopping at the first error; an index above 31 panics.
\<close>

theorem bitset32_is_a_set:
  shows "(i \<le> 31 \<longrightarrow> map_option members (bs_Set i s) = Some (insert i (members s)) \<and>
       map_option members (bs_Unset i s) = Some (members s - {i}) \<and> bs_IsSet i s = Some (i \<in> members s)) \<and>
    (i > 31 \<longrightarrow> bs_Set i s = None \<and> bs_Unset i s = None \<and> bs_IsSet i s = None) \<and>
    bs_CountSet s = int (card (members s)) \<and> members (bs_SetAll s) = {0..31} \<and>
    set (sorted_members s) = members s \<and> sorted (sorted_members s) \<and> distinct (sorted_members s) \<and>
    bs_ForEachSet (\<lambda>_. s) fn st = each_until fn (sorted_members s) st"
proof -
  have "map_option members (bs_Set i s) = Some (insert i (members s)) \<and>
       map_option members (bs_Unset i s) = Some (members s - {i}) \<and> bs_IsSet i s = Some (i \<in> members s)" if "i \<le> 31"
  proof -
    have c: "checkInBounds i" "i < 32" using that by (auto simp: checkInBounds_def)
    then obtain s1 s2 where "bs_Set i s = Some s1" "bs_Unset i s = Some s2" by (simp add: bs_Set_def bs_Unset_def)
    then show ?thesis using c Set_bit[of i s s1] Unset_bit[of i s s2] by (auto simp: members_bit IsSet_bit)
  qed
  moreover have "members (bs_SetAll s) = {0..31}" by (auto simp: members_bit SetAll_bit)
  moreover have "bs_ForEachSet (\<lambda>_. s) fn st = each_until fn (sorted_members s) st"
    by (simp add: bs_ForEachSet_def sorted_members_def for_each_set_filter)
  moreover have "i > 31 \<longrightarrow> bs_Set i s = None \<and> bs_Unset i s = None \<and> bs_IsSet i s = None"
    by (simp add: bs_Set_def bs_Unset_def bs_IsSet_def checkInBounds_def)
  ultimately show ?thesis using CountSet_card[of s] sorted_members_set[of s] by blast
qed

theorem bitset32_is_a_set_witness: "map_option members (bs_Set 3 5) = Some (insert 3 (members 5))"
  using bitset32_is_a_set[where i = 3 and s = 5 and fn = "\<lambda>_ st. (None :: unit option, st)" and st = "()"] by simp

text \<open>
  (C29) With a binary search that behaves as documented, a Map32 in which the used entries are strictly increasing is a finite map
  of at most 32 keys: Set of a present key replaces its value, Set of a new key inserts it and increments the size unless the map
  is full, in which case it fails with ErrFullMap32; afterwards Get returns the new value for that key and the old result for
  every other key, and the entries are still strictly increasing.
\<close>

theorem map32_is_a_map:
  assumes "documented_search search" and "map32_inv m"
  shows "(case map32_Set search key v m of
      Inl err \<Rightarrow> err = ErrFullMap32 \<and> map32_Size m = 32 \<and> map32_Get search key m = Inr None
    | Inr m' \<Rightarrow> map32_inv m' \<and>
        map32_Get search k m' = (if k = key then Inr (Some v) else map32_Get search k m) \<and>
        map32_Size m' = (if map32_Get search key m = Inr None then map32_Size m + 1 else map32_Size m) \<and>
        map32_Size m' \<le> 32)"
proof -
  note G = Get_map_of[OF assms(1)]
  have none: "map_of (live m) key = None \<longleftrightarrow> key \<notin> fst ` set (live m)" by (simp add: map_of_eq_None_iff)
  consider "key \<in> fst ` set (live m)" | "key \<notin> fst ` set (live m)" "m_size m < 32" | "key \<notin> fst ` set (live m)" "m_size m = 32"
    using assms(2) unfolding map32_inv_def by linarith
  then show ?thesis
  proof cases
    case 1
    then obtain m' where m': "map32_Set search key v m = Inr m'" "map32_inv m'" "m_size m' = m_size m" "map_of (live m') = (map_of (live m))(key \<mapsto> v)"
      using Set_replaces[OF assms] by blast
    moreover have "m_size m' \<le> 32" using m'(2) by (simp add: map32_inv_def)
    ultimately show ?thesis using 1 none by (auto simp: G[OF m'(2)] G[OF assms(2)] map32_Size_def)
  next
    case 2
    then obtain m' where m': "map32_Set search key v m = Inr m'" "map32_inv m'" "m_size m' = m_size m + 1" "map_of (live m') = (map_of (live m))(key \<mapsto> v)"
      using Set_inserts[OF assms] by blast
    moreover have "m_size m' \<le> 32" using m'(2) by (simp add: map32_inv_def)
    ultimately show ?thesis using 2 none by (auto simp: G[OF m'(2)] G[OF assms(2)] map32_Size_def)
  next
    case 3
    then show ?thesis using Set_full[OF assms] none by (simp add: G[OF assms(2)] map32_Size_def)
  qed
qed

definition linear_search :: "('k :: linorder, 'v) search" where
  "linear_search es k = (length (takeWhile (\<lambda>e. fst e < k) es), k \<in> fst ` set es)"

theorem map32_is_a_map_witness:
  "\<exists>m'. map32_Set linear_search (2 :: int) True (newMap32 (0, False)) = Inr m' \<and> map32_Get linear_search 2 m' = Inr (Some True)"
proof -
  have d: "documented_search (linear_search :: (int, bool) search)" by (simp add: documented_search_def linear_search_def)
  have i: "map32_inv (newMap32 (0 :: int, False))" by (simp add: map32_inv_def newMap32_def live_def)
  have ne: "map32_Size (newMap32 (0 :: int, False)) \<noteq> 32" by (simp add: map32_Size_def newMap32_def)
  show ?thesis
    using map32_is_a_map[OF d i, where key = 2 and v = True and k = 2] ne
    by (cases "map32_Set linear_search 2 True (newMap32 (0 :: int, False))") simp_all
qed

text \<open>
  In every graph reachable with AddNode and AddEdge, AddEdge succeeds exactly when both identifiers are nodes of the graph and
  then adds that edge and no other; the node a successful AddNode returns has the next identifier, carries the data, and has no
  edge to or from any node; AddNode panics with ErrFullGraph32 exactly on a graph of 32 nodes.
\<close>

theorem graph32_edges:
  assumes "g32_reachable zero g"
  shows "((\<exists>g'. AddEdge a b g = Inr g') \<longleftrightarrow> HasNodeOfId a g \<and> HasNodeOfId b g) \<and>
    (AddEdge a b g = Inr g1 \<longrightarrow> HasNodeOfId x g \<longrightarrow> HasNodeOfId y g \<longrightarrow>
       HasEdgeFromTo x y g1 = (if x = a \<and> y = b then Inr True else HasEdgeFromTo x y g)) \<and>
    (g32_AddNode data g = Inr ((nid, d), g2) \<longrightarrow>
       int nid = g_size g \<and> NodeOfId (int nid) g2 = Some (nid, data) \<and>
       (HasNodeOfId x g2 \<longrightarrow> HasEdgeFromTo (int nid) x g2 = Inr False \<and> HasEdgeFromTo x (int nid) g2 = Inr False)) \<and>
    (g32_AddNode data g = Inl ErrFullGraph32 \<longleftrightarrow> g_size g = 32)"
proof -
  note inv = g32_reachable_inv[OF assms]
  have "(\<exists>g'. AddEdge a b g = Inr g') \<longleftrightarrow> HasNodeOfId a g \<and> HasNodeOfId b g"
    using AddEdge_inv[OF inv] AddEdge_ok[OF inv] by blast
  moreover have "HasEdgeFromTo x y g1 = (if x = a \<and> y = b then Inr True else HasEdgeFromTo x y g)"
    if e: "AddEdge a b g = Inr g1" and xy: "HasNodeOfId x g" "HasNodeOfId y g"
  proof -
    note A = AddEdge_inv[OF inv e]
    have "HasNodeOfId x g1" "HasNodeOfId y g1" using xy A by (simp_all add: HasNodeOfId_def)
    moreover have "nat x < 32" using node_id_range[OF inv xy(1)] by simp
    moreover have "nat x = nat a \<longleftrightarrow> x = a" "nat y = nat b \<longleftrightarrow> y = b" using xy A by (auto simp: HasNodeOfId_def)
    ultimately show ?thesis using A xy HasEdgeFromTo_bit[of g1 x y] HasEdgeFromTo_bit[OF inv xy] by auto
  qed
  moreover have "int nid = g_size g \<and> NodeOfId (int nid) g2 = Some (nid, data) \<and>
       (HasNodeOfId x g2 \<longrightarrow> HasEdgeFromTo (int nid) x g2 = Inr False \<and> HasEdgeFromTo x (int nid) g2 = Inr False)"
    if n: "g32_AddNode data g = Inr ((nid, d), g2)"
  proof -
    note A = AddNode32_inv[OF inv n]
    have nid: "HasNodeOfId (int nid) g2" "nid < 32" using A by (auto simp: HasNodeOfId_def)
    have "nid < length (g_nodeData g)" "g_nodeData g2 = (g_nodeData g)[nid := data]" using inv nid(2) A by (auto simp: g32_inv_def)
    moreover have "nat (int nid mod 256) = nid" using nid(2) by simp
    ultimately have "NodeOfId (int nid) g2 = Some (nid, data)" using nid(1) by (simp add: NodeOfId_def)
    moreover have bits: "\<not> bit (g_edges g2 ! nid) j" "\<not> bit (g_edges g2 ! i) nid" if "i < 32" for i j
    proof -
      have "int i < g_size g \<and> int j < g_size g" if "i < 32" "bit (g_edges g ! i) j" for i j using inv that by (simp add: g32_inv_def)
      then show "\<not> bit (g_edges g2 ! nid) j" "\<not> bit (g_edges g2 ! i) nid" using A nid(2) that by fastforce+
    qed
    moreover have "HasEdgeFromTo (int nid) x g2 = Inr False \<and> HasEdgeFromTo x (int nid) g2 = Inr False" if x: "HasNodeOfId x g2"
    proof -
      have i2: "g32_inv g2" using A by blast
      have "nat x < 32" using node_id_range[OF i2 x] by blast
      then have "bit (g_edges g2 ! nid) (nat x) = False" "bit (g_edges g2 ! nat x) nid = False" using bits by blast+
      then show ?thesis unfolding HasEdgeFromTo_bit[OF i2 nid(1) x] HasEdgeFromTo_bit[OF i2 x nid(1)] nat_int by blast
    qed
    ultimately show ?thesis using A by blast
  qed
  moreover have "g32_AddNode data g = Inl ErrFullGraph32 \<longleftrightarrow> g_size g = 32"
    using inv by (auto simp: g32_AddNode_def g32_inv_def Let_def)
  ultimately show ?thesis by blast
qed

definition sample32 :: "nat Graph32" where
  "sample32 = (newGraph32 0)\<lparr>g_size := 3, g_nodeData := 5 # 6 # 7 # replicate 29 0, g_edges := 6 # 0 # 0 # replicate 29 0\<rparr>"

lemma sample32_reachable: "g32_reachable 0 sample32"
proof -
  let ?d = "\<lambda>n es ds. (newGraph32 (0 :: nat))\<lparr>g_size := n, g_nodeData := ds @ replicate (32 - length ds) 0, g_edges := es @ replicate (32 - length es) 0\<rparr>"
  have r: "replicate 32 x = x # x # x # replicate 29 x" for x :: 'x by (simp add: numeral_eq_Suc)
  have "g32_AddNode 5 (newGraph32 0) = Inr ((0, 5), ?d 1 [0, 0, 0] [5, 0, 0])"
    "g32_AddNode 6 (?d 1 [0, 0, 0] [5, 0, 0]) = Inr ((1, 6), ?d 2 [0, 0, 0] [5, 6, 0])"
    "g32_AddNode 7 (?d 2 [0, 0, 0] [5, 6, 0]) = Inr ((2, 7), ?d 3 [0, 0, 0] [5, 6, 7])"
    by (simp_all add: g32_AddNode_def newGraph32_def r i64_def Let_def)
  moreover have "AddEdge 0 1 (?d 3 [0, 0, 0] [5, 6, 7]) = Inr (?d 3 [2, 0, 0] [5, 6, 7])"
    "AddEdge 0 2 (?d 3 [2, 0, 0] [5, 6, 7]) = Inr sample32"
    by (simp_all add: AddEdge_def newGraph32_def maxAllowedId_def i64_def bs_Set_def checkInBounds_def sample32_def)
  ultimately show ?thesis by (meson g32_new g32_node g32_edge)
qed

theorem graph32_edges_witness:
  "HasEdgeFromTo 0 1 sample32 = Inr True \<and> (\<exists>g'. AddEdge 1 2 sample32 = Inr g') \<and> \<not> (\<exists>g'. AddEdge 1 3 sample32 = Inr g')"
proof -
  have "HasNodeOfId 1 sample32" "HasNodeOfId 2 sample32" "\<not> HasNodeOfId 3 sample32" by (simp_all add: HasNodeOfId_def sample32_def)
  moreover have "HasEdgeFromTo 0 1 sample32 = Inr True"
    by (simp add: HasEdgeFromTo_def isValidNodeId_def maxAllowedId_def i64_def sample32_def bs_IsSet_def checkInBounds_def)
  ultimately show ?thesis
    using graph32_edges[OF sample32_reachable, of 1 2] graph32_edges[OF sample32_reachable, of 1 3] by blast
qed

text \<open>
  The iterator over the nodes directly reachable from a node yields only one of them: when the node has an outgoing edge, the
  first call of Next returns true with the successor of greatest identifier as the current node and marks every successor as
  visited, so that the second call returns false, however many successors there are.
\<close>

theorem direct_iterator_yields_last:
  assumes "g32_reachable zero g" and "HasNodeOfId n g" and "HasEdgeFromTo n m g = Inr True"
    and "IteratorDirectlyReachableNodes zero n g = Inr it"
  shows "fst (g32_Next it) \<and> HasEdgeFromTo n (int (it_currentNode (snd (g32_Next it)))) g = Inr True \<and>
    m \<le> int (it_currentNode (snd (g32_Next it))) \<and> \<not> fst (g32_Next (snd (g32_Next it)))"
proof -
  note inv = g32_reachable_inv[OF assms(1)]
  let ?S = "g_edges g ! nat n"
  have m: "HasNodeOfId m g" using assms(3) valid_has_node[OF inv] by (auto simp: HasEdgeFromTo_def split: if_splits)
  have bm: "bit ?S (nat m)" "nat m < 32" using assms(3) HasEdgeFromTo_bit[OF inv assms(2) m] node_id_range[OF inv m] by auto
  have "pass_state ?S 0 (False, it)" using direct_iterator_start[OF inv assms(2), of zero] assms(4) by auto
  then have P: "pass_state ?S 32 (g32_Next it)" using pass_complete[of 0 ?S] by (simp add: g32_Next_def bs_ForEachSet_def)
  let ?c = "it_currentNode (snd (g32_Next it))"
  have ok: "fst (g32_Next it)" and c: "bit ?S ?c" "nat m \<le> ?c" using P bm by (auto simp: pass_state_def)
  have "HasNodeOfId (int ?c) g" using inv c(1) node_id_range[OF inv assms(2)] by (auto simp: g32_inv_def HasNodeOfId_def)
  then have "HasEdgeFromTo n (int ?c) g = Inr True" using HasEdgeFromTo_bit[OF inv assms(2)] c(1) by simp
  moreover have "\<forall>j < 32. bit (it_visited (snd (g32_Next it))) j" using P by (auto simp: pass_state_def)
  then have "\<not> fst (g32_Next (snd (g32_Next it)))"
    using pass_all_visited[of "snd (g32_Next it)" 0 False] by (simp add: g32_Next_def[of "snd (g32_Next it)"] bs_ForEachSet_def)
  moreover have "m \<le> int ?c" using c(2) m by (auto simp: HasNodeOfId_def)
  ultimately show ?thesis using ok by blast
qed

theorem direct_iterator_yields_last_witness:
  "HasEdgeFromTo 0 1 sample32 = Inr True \<and> HasEdgeFromTo 0 2 sample32 = Inr True \<and>
   (\<exists>it. IteratorDirectlyReachableNodes 0 0 sample32 = Inr it \<and> fst (g32_Next it) \<and> \<not> fst (g32_Next (snd (g32_Next it))))"
proof -
  have e: "HasNodeOfId 0 sample32" "HasEdgeFromTo 0 1 sample32 = Inr True" "HasEdgeFromTo 0 2 sample32 = Inr True"
    by (simp_all add: HasNodeOfId_def HasEdgeFromTo_def isValidNodeId_def maxAllowedId_def i64_def sample32_def bs_IsSet_def checkInBounds_def)
  obtain it where it: "IteratorDirectlyReachableNodes 0 0 sample32 = Inr it"
    using direct_iterator_start[OF g32_reachable_inv[OF sample32_reachable] e(1)] by blast
  then show ?thesis using e direct_iterator_yields_last[OF sample32_reachable e(1,2) it] by blast
qed

text \<open>\<open>IdOfNode\<close> also scans the unused slots, which hold zero values.\<close>

lemma IdOfNode_finds_unused_slot: "IdOfNode zero (newGraph32 zero) = (0, True) \<and> \<not> HasNodeOfId 0 (newGraph32 zero)"
  by (simp add: IdOfNode_def newGraph32_def idOfNode_from.simps[of 0] HasNodeOfId_def)

end
