(* ===== verification/Transactions.thy ===== *)
theory Transactions
  imports Prelude
begin

text \<open>
  Transactions, \<open>internal/core/transaction.go\<close>, with the part of \<open>Context\<close> that tracks the current transaction
  (\<open>internal/core/context.go\<close>: \<open>setTx\<close>). The world holds the transactions, the current transaction of each context and the log
  of what the effects and the end callbacks were asked to do; effects and callbacks are implemented elsewhere, so their
  outcomes, and the order in which Go ranges over the map of callbacks, are given by an environment. The fields \<open>ulid\<close> and
  \<open>values\<close> play no part in these operations and are left out.

  The methods test \<open>finished\<close> and \<open>finishing\<close> before they take the lock: the test and the locked part of each method are
  separate definitions, which the step relation interleaves.
\<close>

section \<open>Data\<close>

type_synonym TxId = nat

type_synonym CtxId = nat

datatype finished_chan = NoChan | OpenChan | ClosedChan

datatype Reversability = Irreversible | SomewhatReversible | Reversible

record ('eff, 'key) Transaction =
  tx_ctx :: CtxId
  startTime :: "int option"
  endTime :: "int option"
  effects :: "'eff list"
  endCallbackFns :: "'key list option"
  finished :: finished_chan
  finishing :: bool
  timeout :: int
  isReadonly :: bool

datatype ('eff, 'key) event =
    Applied TxId 'eff
  | ApplyFailed TxId 'eff
  | Reversed TxId 'eff
  | ReverseFailed TxId 'eff
  | Ended TxId 'key bool

record ('eff, 'key) world =
  txs :: "TxId \<rightharpoonup> ('eff, 'key) Transaction"
  currentTx :: "CtxId \<rightharpoonup> TxId"
  events :: "('eff, 'key) event list"

record ('eff, 'key) env =
  reversability :: "'eff \<Rightarrow> Reversability"
  apply_fails :: "'eff \<Rightarrow> bool"
  reverse_fails :: "'eff \<Rightarrow> bool"
  callback_panics :: "'key \<Rightarrow> bool \<Rightarrow> bool"
  range_order :: "'key list \<Rightarrow> 'key list"

datatype 'eff tx_error =
    ErrTransactionAlreadyStarted
  | ErrTransactionShouldBeStartedBySameContext
  | ErrCannotAddIrreversibleEffect
  | ErrCtxAlreadyHasTransaction
  | ErrFinishedTransaction
  | ErrFinishingTransaction
  | ErrAlreadySetTransactionEndCallback
  | ErrEffectsNotAllowedInReadonlyTransaction
  | ErrApplyingEffect 'eff
  | ErrReversingEffect 'eff
  | ErrCallbacks nat

text \<open>A call returns nil or an error, or panics.\<close>

datatype 'eff tx_result = Ok | Fails "'eff tx_error" | Panics "'eff tx_error" | NilMapPanic | CallbackPanic

section \<open>Life cycle\<close>

definition DEFAULT_TRANSACTION_TIMEOUT :: int where
  "DEFAULT_TRANSACTION_TIMEOUT = 20 * 1000000000"

definition newTransaction :: "CtxId \<Rightarrow> bool \<Rightarrow> int list \<Rightarrow> ('eff, 'key) Transaction" where
  "newTransaction ctx readonly timeout_options =
     \<lparr>tx_ctx = ctx, startTime = None, endTime = None, effects = [], endCallbackFns = Some [], finished = NoChan, finishing = False,
      timeout = (if timeout_options = [] then DEFAULT_TRANSACTION_TIMEOUT else last timeout_options), isReadonly = readonly\<rparr>"

text \<open>\<open>Finished\<close> creates the channel on the first call, so \<open>IsFinished\<close>, which calls it, does too.\<close>

definition tx_Finished :: "('eff, 'key) Transaction \<Rightarrow> finished_chan \<times> ('eff, 'key) Transaction" where
  "tx_Finished tx = (case finished tx of NoChan \<Rightarrow> (OpenChan, tx\<lparr>finished := OpenChan\<rparr>) | d \<Rightarrow> (d, tx))"

definition IsFinished :: "('eff, 'key) Transaction \<Rightarrow> bool \<times> ('eff, 'key) Transaction" where
  "IsFinished tx = (case tx_Finished tx of (d, tx') \<Rightarrow> (d = ClosedChan, tx'))"

definition IsFinishing :: "('eff, 'key) Transaction \<Rightarrow> bool" where
  "IsFinishing tx = finishing tx"

definition put_tx :: "TxId \<Rightarrow> ('eff, 'key) Transaction \<Rightarrow> ('eff, 'key) world \<Rightarrow> ('eff, 'key) world" where
  "put_tx t tx w = w\<lparr>txs := (txs w)(t \<mapsto> tx)\<rparr>"

definition setTx :: "CtxId \<Rightarrow> TxId option \<Rightarrow> ('eff, 'key) world \<Rightarrow> ('eff, 'key) world" where
  "setTx ctx t w = w\<lparr>currentTx := (currentTx w)(ctx := t)\<rparr>"

definition tx_Start :: "int \<Rightarrow> CtxId \<Rightarrow> TxId \<Rightarrow> ('eff, 'key) Transaction \<Rightarrow> ('eff, 'key) world \<Rightarrow> 'eff tx_result \<times> ('eff, 'key) world" where
  "tx_Start now ctx t tx0 w0 =
    (let (fin, tx) = IsFinished tx0; w = put_tx t tx w0 in
     if fin then (Fails ErrFinishedTransaction, w)
     else if IsFinishing tx then (Fails ErrFinishingTransaction, w)
     else if ctx \<noteq> tx_ctx tx then (Panics ErrTransactionShouldBeStartedBySameContext, w)
     else if startTime tx \<noteq> None then (Panics ErrTransactionAlreadyStarted, w)
     else if currentTx w (tx_ctx tx) \<noteq> None then (Panics ErrCtxAlreadyHasTransaction, w)
     else (Ok, setTx (tx_ctx tx) (Some t) (put_tx t (tx\<lparr>startTime := Some now\<rparr>) w)))"

definition OnEnd_check :: "('eff, 'key) Transaction \<Rightarrow> 'eff tx_result \<times> ('eff, 'key) Transaction" where
  "OnEnd_check tx0 =
    (let (fin, tx) = IsFinished tx0 in
     if fin then (Fails ErrFinishedTransaction, tx)
     else if IsFinishing tx then (Fails ErrFinishingTransaction, tx)
     else (Ok, tx))"

definition OnEnd_locked :: "'key \<Rightarrow> ('eff, 'key) Transaction \<Rightarrow> 'eff tx_result \<times> ('eff, 'key) Transaction" where
  "OnEnd_locked k tx =
    (case endCallbackFns tx of
       None \<Rightarrow> (NilMapPanic, tx)
     | Some ks \<Rightarrow> if k \<in> set ks then (Fails ErrAlreadySetTransactionEndCallback, tx)
                  else (Ok, tx\<lparr>endCallbackFns := Some (ks @ [k])\<rparr>))"

definition AddEffect_check :: "('eff, 'key) Transaction \<Rightarrow> 'eff tx_result \<times> ('eff, 'key) Transaction" where
  "AddEffect_check tx0 =
    (let (fin, tx) = IsFinished tx0 in
     if fin then (Fails ErrFinishedTransaction, tx)
     else if IsFinishing tx then (Fails ErrFinishingTransaction, tx)
     else if isReadonly tx then (Fails ErrEffectsNotAllowedInReadonlyTransaction, tx)
     else (Ok, tx))"

definition AddEffect_locked :: "('eff, 'key) env \<Rightarrow> 'eff \<Rightarrow> ('eff, 'key) Transaction \<Rightarrow> 'eff tx_result \<times> ('eff, 'key) Transaction" where
  "AddEffect_locked E e tx =
    (if reversability E e = Irreversible then (Fails ErrCannotAddIrreversibleEffect, tx)
     else (Ok, tx\<lparr>effects := effects tx @ [e]\<rparr>))"

text \<open>A whole call that nothing interrupts: the test, then the locked part.\<close>

definition then_locked ::
  "('eff tx_result \<times> ('eff, 'key) Transaction) \<Rightarrow> (('eff, 'key) Transaction \<Rightarrow> 'eff tx_result \<times> ('eff, 'key) Transaction) \<Rightarrow>
   'eff tx_result \<times> ('eff, 'key) Transaction" where
  "then_locked checked body = (case checked of (r, tx) \<Rightarrow> if r = Ok then body tx else (r, tx))"

definition OnEnd :: "'key \<Rightarrow> ('eff, 'key) Transaction \<Rightarrow> 'eff tx_result \<times> ('eff, 'key) Transaction" where
  "OnEnd k tx = then_locked (OnEnd_check tx) (OnEnd_locked k)"

definition AddEffect :: "('eff, 'key) env \<Rightarrow> 'eff \<Rightarrow> ('eff, 'key) Transaction \<Rightarrow> 'eff tx_result \<times> ('eff, 'key) Transaction" where
  "AddEffect E e tx = then_locked (AddEffect_check tx) (AddEffect_locked E e)"

section \<open>Commit and rollback\<close>

text \<open>Both start with the same test and the compare-and-swap of \<open>finishing\<close>.\<close>

definition begin_end :: "('eff, 'key) Transaction \<Rightarrow> 'eff tx_result \<times> ('eff, 'key) Transaction" where
  "begin_end tx0 =
    (let (fin, tx) = IsFinished tx0 in
     if fin then (Fails ErrFinishedTransaction, tx)
     else if finishing tx then (Fails ErrFinishingTransaction, tx)
     else (Ok, tx\<lparr>finishing := True\<rparr>))"

text \<open>The deferred function of both.\<close>

definition finish_tx :: "('eff, 'key) Transaction \<Rightarrow> ('eff, 'key) Transaction" where
  "finish_tx tx = tx\<lparr>finished := ClosedChan, finishing := True\<rparr>"

fun apply_effects :: "('eff, 'key) env \<Rightarrow> TxId \<Rightarrow> 'eff list \<Rightarrow> ('eff, 'key) event list \<times> 'eff option" where
  "apply_effects E t [] = ([], None)"
| "apply_effects E t (e # es) =
    (if apply_fails E e then ([ApplyFailed t e], Some e)
     else (case apply_effects E t es of (evs, failed) \<Rightarrow> (Applied t e # evs, failed)))"

fun reverse_effects :: "('eff, 'key) env \<Rightarrow> TxId \<Rightarrow> 'eff list \<Rightarrow> ('eff, 'key) event list \<times> 'eff option" where
  "reverse_effects E t [] = ([], None)"
| "reverse_effects E t (e # es) =
    (if reverse_fails E e then ([ReverseFailed t e], Some e)
     else (case reverse_effects E t es of (evs, failed) \<Rightarrow> (Reversed t e # evs, failed)))"

text \<open>The callbacks with no \<open>recover\<close>: the first panic ends the loop.\<close>

fun call_unprotected :: "('eff, 'key) env \<Rightarrow> TxId \<Rightarrow> bool \<Rightarrow> 'key list \<Rightarrow> ('eff, 'key) event list \<times> bool" where
  "call_unprotected E t success [] = ([], False)"
| "call_unprotected E t success (k # ks) =
    (if callback_panics E k success then ([Ended t k success], True)
     else (case call_unprotected E t success ks of (evs, panicked) \<Rightarrow> (Ended t k success # evs, panicked)))"

definition call_protected :: "('eff, 'key) env \<Rightarrow> TxId \<Rightarrow> bool \<Rightarrow> 'key list \<Rightarrow> ('eff, 'key) event list \<times> nat" where
  "call_protected E t success ks =
    (map (\<lambda>k. Ended t k success) ks, length (filter (\<lambda>k. callback_panics E k success) ks))"

definition registered :: "('eff, 'key) env \<Rightarrow> ('eff, 'key) Transaction \<Rightarrow> 'key list" where
  "registered E tx = (case endCallbackFns tx of None \<Rightarrow> [] | Some ks \<Rightarrow> range_order E ks)"

definition callbacks_result :: "nat \<Rightarrow> 'eff tx_result" where
  "callbacks_result errs = (if errs = 0 then Ok else Fails (ErrCallbacks errs))"

definition commit_locked :: "('eff, 'key) env \<Rightarrow> int \<Rightarrow> TxId \<Rightarrow> ('eff, 'key) Transaction \<Rightarrow>
    'eff tx_result \<times> ('eff, 'key) event list \<times> ('eff, 'key) Transaction" where
  "commit_locked E now t tx =
    (let tx1 = tx\<lparr>endTime := Some now\<rparr> in
     case apply_effects E t (effects tx1) of
       (evs, Some e) \<Rightarrow>
         (case call_unprotected E t True (registered E tx1) of
            (cevs, panicked) \<Rightarrow> (if panicked then CallbackPanic else Fails (ErrApplyingEffect e), evs @ cevs, finish_tx tx1))
     | (evs, None) \<Rightarrow>
         (case call_protected E t True (registered E tx1) of
            (cevs, errs) \<Rightarrow> (callbacks_result errs, evs @ cevs, finish_tx (tx1\<lparr>endCallbackFns := None\<rparr>))))"

definition rollback_locked :: "('eff, 'key) env \<Rightarrow> int \<Rightarrow> TxId \<Rightarrow> ('eff, 'key) Transaction \<Rightarrow>
    'eff tx_result \<times> ('eff, 'key) event list \<times> ('eff, 'key) Transaction" where
  "rollback_locked E now t tx =
    (let tx1 = tx\<lparr>endTime := Some now\<rparr> in
     case call_protected E t False (registered E tx1) of
       (cevs, errs) \<Rightarrow>
         (let tx2 = tx1\<lparr>endCallbackFns := None\<rparr> in
          case reverse_effects E t (effects tx2) of
            (evs, Some e) \<Rightarrow> (Fails (ErrReversingEffect e), cevs @ evs, finish_tx tx2)
          | (evs, None) \<Rightarrow> (callbacks_result errs, cevs @ evs, finish_tx tx2)))"

datatype end_kind = Commits | RollsBack

definition end_locked :: "('eff, 'key) env \<Rightarrow> int \<Rightarrow> end_kind \<Rightarrow> TxId \<Rightarrow> ('eff, 'key) Transaction \<Rightarrow>
    'eff tx_result \<times> ('eff, 'key) event list \<times> ('eff, 'key) Transaction" where
  "end_locked E now kind t tx = (case kind of Commits \<Rightarrow> commit_locked E now t tx | RollsBack \<Rightarrow> rollback_locked E now t tx)"

definition end_in_world :: "('eff, 'key) env \<Rightarrow> int \<Rightarrow> end_kind \<Rightarrow> TxId \<Rightarrow> ('eff, 'key) Transaction \<Rightarrow> ('eff, 'key) world \<Rightarrow>
    'eff tx_result \<times> ('eff, 'key) world" where
  "end_in_world E now kind t tx w =
    (case end_locked E now kind t tx of
       (r, evs, tx') \<Rightarrow> (r, setTx (tx_ctx tx) None (put_tx t tx' (w\<lparr>events := events w @ evs\<rparr>))))"

definition tx_end :: "('eff, 'key) env \<Rightarrow> int \<Rightarrow> end_kind \<Rightarrow> TxId \<Rightarrow> ('eff, 'key) Transaction \<Rightarrow> ('eff, 'key) world \<Rightarrow>
    'eff tx_result \<times> ('eff, 'key) world" where
  "tx_end E now kind t tx0 w =
    (case begin_end tx0 of
       (r, tx) \<Rightarrow> if r = Ok then end_in_world E now kind t tx w else (r, put_tx t tx w))"

definition tx_Commit :: "('eff, 'key) env \<Rightarrow> int \<Rightarrow> TxId \<Rightarrow> ('eff, 'key) Transaction \<Rightarrow> ('eff, 'key) world \<Rightarrow> 'eff tx_result \<times> ('eff, 'key) world" where
  "tx_Commit E now t tx w = tx_end E now Commits t tx w"

definition tx_Rollback :: "('eff, 'key) env \<Rightarrow> int \<Rightarrow> TxId \<Rightarrow> ('eff, 'key) Transaction \<Rightarrow> ('eff, 'key) world \<Rightarrow> 'eff tx_result \<times> ('eff, 'key) world" where
  "tx_Rollback E now t tx w = tx_end E now RollsBack t tx w"

text \<open>The goroutine of \<open>Start\<close>: it rolls back when the context is done or the timeout has elapsed.\<close>

datatype wakeup = ContextDone | TimeoutElapsed

definition watch :: "('eff, 'key) env \<Rightarrow> int \<Rightarrow> wakeup \<Rightarrow> TxId \<Rightarrow> ('eff, 'key) Transaction \<Rightarrow> ('eff, 'key) world \<Rightarrow> ('eff, 'key) world" where
  "watch E now reason t tx w =
    (case reason of
       ContextDone \<Rightarrow> snd (tx_Rollback E now t tx w)
     | TimeoutElapsed \<Rightarrow>
         (case IsFinished tx of (fin, tx') \<Rightarrow>
            if fin then put_tx t tx' w else snd (tx_Rollback E now t tx' (put_tx t tx' w))))"

section \<open>Sequential behaviour\<close>

text \<open>A range over a map visits every key once, in some order.\<close>

definition ranges_once :: "('eff, 'key) env \<Rightarrow> bool" where
  "ranges_once E \<longleftrightarrow> (\<forall>ks. distinct ks \<longrightarrow> distinct (range_order E ks) \<and> set (range_order E ks) = set ks)"

definition active :: "('eff, 'key) Transaction \<Rightarrow> bool" where
  "active tx \<longleftrightarrow> \<not> fst (IsFinished tx) \<and> \<not> IsFinishing tx"

lemma IsFinished_iff: "fst (IsFinished tx) \<longleftrightarrow> finished tx = ClosedChan"
  by (simp add: IsFinished_def tx_Finished_def split: finished_chan.split)

lemma IsFinished_cases:
  assumes "IsFinished tx = (fin, tx')"
  shows "fin \<longleftrightarrow> finished tx = ClosedChan" "tx' = tx \<or> tx' = tx\<lparr>finished := OpenChan\<rparr> \<and> finished tx = NoChan"
  using assms by (auto simp: IsFinished_def tx_Finished_def split: finished_chan.splits)

lemma begin_end_active:
  "active tx \<Longrightarrow> \<exists>c. c \<noteq> ClosedChan \<and> begin_end tx = (Ok, tx\<lparr>finished := c, finishing := True\<rparr>)"
  by (cases "finished tx") (auto simp: active_def IsFinished_def IsFinishing_def tx_Finished_def begin_end_def)

lemma apply_effects_ok: "\<forall>e \<in> set es. \<not> apply_fails E e \<Longrightarrow> apply_effects E t es = (map (Applied t) es, None)"
  by (induction es) auto

lemma apply_effects_failing:
  "\<forall>e \<in> set es. \<not> apply_fails E e \<Longrightarrow> apply_fails E e \<Longrightarrow>
   apply_effects E t (es @ e # es') = (map (Applied t) es @ [ApplyFailed t e], Some e)"
  by (induction es) auto

lemma reverse_effects_ok: "\<forall>e \<in> set es. \<not> reverse_fails E e \<Longrightarrow> reverse_effects E t es = (map (Reversed t) es, None)"
  by (induction es) auto

lemma call_unprotected_ok:
  "\<forall>k \<in> set ks. \<not> callback_panics E k b \<Longrightarrow> call_unprotected E t b ks = (map (\<lambda>k. Ended t k b) ks, False)"
  by (induction ks) auto

lemma finished_calls_fail:
  assumes "finished tx = ClosedChan"
  shows "tx_end E now kind t tx w = (Fails ErrFinishedTransaction, put_tx t tx w)"
    and "AddEffect E e tx = (Fails ErrFinishedTransaction, tx)" and "OnEnd k tx = (Fails ErrFinishedTransaction, tx)"
  using assms
  by (simp_all add: tx_end_def begin_end_def IsFinished_def tx_Finished_def AddEffect_def AddEffect_check_def OnEnd_def OnEnd_check_def then_locked_def)

lemma filter_empty_iff: "length (filter P xs) = 0 \<longleftrightarrow> (\<forall>x \<in> set xs. \<not> P x)"
  by (simp add: filter_empty_conv)

section \<open>Interleavings\<close>

text \<open>What a goroutine still has to do after its test has passed.\<close>

datatype ('eff, 'key) pend = PAdd TxId 'eff | POnEnd TxId 'key | PEnd end_kind TxId

inductive tx_reachable :: "('eff, 'key) env \<Rightarrow> ('eff, 'key) world \<Rightarrow> ('eff, 'key) pend list \<Rightarrow> bool" for E where
  tx_init: "tx_reachable E \<lparr>txs = (\<lambda>_. None), currentTx = (\<lambda>_. None), events = []\<rparr> []"
| tx_new: "tx_reachable E w p \<Longrightarrow> txs w t = None \<Longrightarrow> tx_reachable E (put_tx t (newTransaction ctx ro opts) w) p"
| tx_start: "tx_reachable E w p \<Longrightarrow> txs w t = Some tx \<Longrightarrow> tx_Start now ctx t tx w = (r, w') \<Longrightarrow> tx_reachable E w' p"
| tx_observe: "tx_reachable E w p \<Longrightarrow> txs w t = Some tx \<Longrightarrow> tx_reachable E (put_tx t (snd (IsFinished tx)) w) p"
| tx_add_check: "tx_reachable E w p \<Longrightarrow> txs w t = Some tx \<Longrightarrow> AddEffect_check tx = (r, tx') \<Longrightarrow>
    tx_reachable E (put_tx t tx' w) (if r = Ok then PAdd t e # p else p)"
| tx_add: "tx_reachable E w p \<Longrightarrow> PAdd t e \<in> set p \<Longrightarrow> txs w t = Some tx \<Longrightarrow> AddEffect_locked E e tx = (r, tx') \<Longrightarrow>
    tx_reachable E (put_tx t tx' w) (remove1 (PAdd t e) p)"
| tx_onend_check: "tx_reachable E w p \<Longrightarrow> txs w t = Some tx \<Longrightarrow> OnEnd_check tx = (r, tx') \<Longrightarrow>
    tx_reachable E (put_tx t tx' w) (if r = Ok then POnEnd t k # p else p)"
| tx_onend: "tx_reachable E w p \<Longrightarrow> POnEnd t k \<in> set p \<Longrightarrow> txs w t = Some tx \<Longrightarrow> OnEnd_locked k tx = (r, tx') \<Longrightarrow>
    tx_reachable E (put_tx t tx' w) (remove1 (POnEnd t k) p)"
| tx_begin: "tx_reachable E w p \<Longrightarrow> txs w t = Some tx \<Longrightarrow> begin_end tx = (r, tx') \<Longrightarrow>
    tx_reachable E (put_tx t tx' w) (if r = Ok then PEnd kind t # p else p)"
| tx_finish: "tx_reachable E w p \<Longrightarrow> PEnd kind t \<in> set p \<Longrightarrow> txs w t = Some tx \<Longrightarrow> end_in_world E now kind t tx w = (r, w') \<Longrightarrow>
    tx_reachable E w' (remove1 (PEnd kind t) p)"

fun event_tx :: "('eff, 'key) event \<Rightarrow> TxId" where
  "event_tx (Applied t _) = t"
| "event_tx (ApplyFailed t _) = t"
| "event_tx (Reversed t _) = t"
| "event_tx (ReverseFailed t _) = t"
| "event_tx (Ended t _ _) = t"

definition events_of :: "TxId \<Rightarrow> ('eff, 'key) event list \<Rightarrow> ('eff, 'key) event list" where
  "events_of t evs = filter (\<lambda>ev. event_tx ev = t) evs"

definition enders :: "TxId \<Rightarrow> ('eff, 'key) pend list \<Rightarrow> nat" where
  "enders t p = length (filter (\<lambda>x. \<exists>kind. x = PEnd kind t) p)"

definition ended_keys :: "('eff, 'key) event list \<Rightarrow> 'key list" where
  "ended_keys evs = concat (map (\<lambda>ev. case ev of Ended _ k _ \<Rightarrow> [k] | _ \<Rightarrow> []) evs)"

text \<open>The events of one commit, or of one rollback.\<close>

fun commit_event :: "('eff, 'key) event \<Rightarrow> bool" where
  "commit_event (Applied _ _) = True"
| "commit_event (ApplyFailed _ _) = True"
| "commit_event (Ended _ _ b) = b"
| "commit_event _ = False"

fun rollback_event :: "('eff, 'key) event \<Rightarrow> bool" where
  "rollback_event (Reversed _ _) = True"
| "rollback_event (ReverseFailed _ _) = True"
| "rollback_event (Ended _ _ b) = (\<not> b)"
| "rollback_event _ = False"

definition one_end :: "bool \<Rightarrow> ('eff, 'key) event list \<Rightarrow> bool" where
  "one_end readonly evs \<longleftrightarrow> distinct (ended_keys evs) \<and> (list_all commit_event evs \<or> list_all rollback_event evs) \<and>
     (readonly \<longrightarrow> length (ended_keys evs) = length evs)"

definition tx_ok :: "('eff, 'key) Transaction option \<Rightarrow> nat \<Rightarrow> ('eff, 'key) event list \<Rightarrow> bool \<Rightarrow> bool" where
  "tx_ok otx n evs adding =
    (case otx of
       None \<Rightarrow> n = 0 \<and> evs = [] \<and> \<not> adding
     | Some tx \<Rightarrow>
         (if finished tx = ClosedChan then finishing tx \<and> n = 0 \<and> one_end (isReadonly tx) evs
          else evs = [] \<and> n = (if finishing tx then 1 else 0)) \<and>
         (case endCallbackFns tx of None \<Rightarrow> True | Some ks \<Rightarrow> distinct ks) \<and>
         (isReadonly tx \<longrightarrow> effects tx = [] \<and> \<not> adding))"

definition adding :: "TxId \<Rightarrow> ('eff, 'key) pend list \<Rightarrow> bool" where
  "adding t p \<longleftrightarrow> (\<exists>e. PAdd t e \<in> set p)"

definition tx_inv :: "('eff, 'key) world \<Rightarrow> ('eff, 'key) pend list \<Rightarrow> bool" where
  "tx_inv w p \<longleftrightarrow> (\<forall>t. tx_ok (txs w t) (enders t p) (events_of t (events w)) (adding t p))"

lemma ended_keys_simps [simp]:
  "ended_keys [] = []" "ended_keys (xs @ ys) = ended_keys xs @ ended_keys ys"
  "ended_keys (map (\<lambda>k. Ended t k b) ks) = ks" "ended_keys (map (Applied t) es) = []" "ended_keys (map (Reversed t) es) = []"
  by (simp_all add: ended_keys_def) (induction ks; simp)+

lemma ended_keys_Cons: "ended_keys (ev # evs) = (case ev of Ended _ k _ \<Rightarrow> k # ended_keys evs | _ \<Rightarrow> ended_keys evs)"
  by (simp add: ended_keys_def split: event.split)

lemma apply_effects_events:
  "apply_effects E t es = (evs, failed) \<Longrightarrow>
   list_all (\<lambda>ev. commit_event ev \<and> event_tx ev = t) evs \<and> ended_keys evs = [] \<and> (es = [] \<longrightarrow> evs = [])"
  by (induction es arbitrary: evs failed) (auto simp: ended_keys_Cons split: if_splits prod.splits)

lemma reverse_effects_events:
  "reverse_effects E t es = (evs, failed) \<Longrightarrow>
   list_all (\<lambda>ev. rollback_event ev \<and> event_tx ev = t) evs \<and> ended_keys evs = [] \<and> (es = [] \<longrightarrow> evs = [])"
  by (induction es arbitrary: evs failed) (auto simp: ended_keys_Cons split: if_splits prod.splits)

lemma call_unprotected_events:
  "call_unprotected E t b ks = (evs, panicked) \<Longrightarrow> \<exists>n. evs = map (\<lambda>k. Ended t k b) (take n ks)"
proof (induction ks arbitrary: evs panicked)
  case (Cons k ks)
  show ?case
  proof (cases "callback_panics E k b")
    case True
    then have "evs = map (\<lambda>k. Ended t k b) (take 1 (k # ks))" using Cons.prems by simp
    then show ?thesis by blast
  next
    case False
    then obtain evs' where "call_unprotected E t b ks = (evs', panicked)" "evs = Ended t k b # evs'"
      using Cons.prems by (auto split: prod.splits)
    moreover then obtain n where "evs' = map (\<lambda>k. Ended t k b) (take n ks)" using Cons.IH by blast
    ultimately have "evs = map (\<lambda>k. Ended t k b) (take (Suc n) (k # ks))" by simp
    then show ?thesis by blast
  qed
qed simp

lemma registered_distinct:
  "ranges_once E \<Longrightarrow> (case endCallbackFns tx of None \<Rightarrow> True | Some ks \<Rightarrow> distinct ks) \<Longrightarrow> distinct (registered E tx)"
  by (simp add: registered_def ranges_once_def split: option.splits)

lemma one_end_commit:
  assumes "list_all (\<lambda>ev. commit_event ev \<and> event_tx ev = t) evs" "ended_keys evs = []" "distinct ks" "ro \<longrightarrow> evs = []"
  shows "one_end ro (evs @ map (\<lambda>k. Ended t k True) ks) \<and> list_all (\<lambda>ev. event_tx ev = t) (evs @ map (\<lambda>k. Ended t k True) ks)"
  using assms by (auto simp: one_end_def list_all_iff)

lemma one_end_rollback:
  assumes "list_all (\<lambda>ev. rollback_event ev \<and> event_tx ev = t) evs" "ended_keys evs = []" "distinct ks" "ro \<longrightarrow> evs = []"
  shows "one_end ro (map (\<lambda>k. Ended t k False) ks @ evs) \<and> list_all (\<lambda>ev. event_tx ev = t) (map (\<lambda>k. Ended t k False) ks @ evs)"
  using assms by (auto simp: one_end_def list_all_iff)

definition same_frame :: "('eff, 'key) Transaction \<Rightarrow> ('eff, 'key) Transaction \<Rightarrow> bool" where
  "same_frame tx tx' \<longleftrightarrow> isReadonly tx' = isReadonly tx \<and> effects tx' = effects tx \<and> tx_ctx tx' = tx_ctx tx \<and>
     (endCallbackFns tx' = endCallbackFns tx \<or> endCallbackFns tx' = None)"

lemma commit_locked_events:
  assumes "ranges_once E" "case endCallbackFns tx of None \<Rightarrow> True | Some ks \<Rightarrow> distinct ks" "isReadonly tx \<longrightarrow> effects tx = []"
    and c: "commit_locked E now t tx = (r, evs, tx')"
  shows "one_end (isReadonly tx) evs \<and> list_all (\<lambda>ev. event_tx ev = t) evs \<and> finished tx' = ClosedChan \<and> finishing tx' \<and> same_frame tx tx'"
proof -
  let ?tx1 = "tx\<lparr>endTime := Some now\<rparr>"
  have d: "distinct (registered E ?tx1)" using registered_distinct[OF assms(1), of ?tx1] assms(2) by simp
  obtain aevs failed where a: "apply_effects E t (effects tx) = (aevs, failed)" by fastforce
  note A = apply_effects_events[OF a]
  have ro: "isReadonly tx \<longrightarrow> aevs = []" using A assms(3) by blast
  show ?thesis
  proof (cases failed)
    case None
    then show ?thesis
      using c a one_end_commit[of t aevs "registered E ?tx1", OF _ _ d ro] A
      by (auto simp: commit_locked_def call_protected_def finish_tx_def same_frame_def Let_def)
  next
    case (Some e)
    obtain cevs b where u: "call_unprotected E t True (registered E ?tx1) = (cevs, b)" by fastforce
    then obtain n where n: "cevs = map (\<lambda>k. Ended t k True) (take n (registered E ?tx1))" using call_unprotected_events by blast
    have "distinct (take n (registered E ?tx1))" using d by simp
    note O = one_end_commit[of t aevs _, OF _ _ this ro]
    have "evs = aevs @ cevs" "tx' = finish_tx ?tx1" using c a u Some by (simp_all add: commit_locked_def Let_def)
    then show ?thesis using O A n by (auto simp: finish_tx_def same_frame_def)
  qed
qed

lemma rollback_locked_events:
  assumes "ranges_once E" "case endCallbackFns tx of None \<Rightarrow> True | Some ks \<Rightarrow> distinct ks" "isReadonly tx \<longrightarrow> effects tx = []"
    and c: "rollback_locked E now t tx = (r, evs, tx')"
  shows "one_end (isReadonly tx) evs \<and> list_all (\<lambda>ev. event_tx ev = t) evs \<and> finished tx' = ClosedChan \<and> finishing tx' \<and> same_frame tx tx'"
proof -
  let ?tx1 = "tx\<lparr>endTime := Some now\<rparr>"
  have d: "distinct (registered E ?tx1)" using registered_distinct[OF assms(1), of ?tx1] assms(2) by simp
  obtain aevs failed where a: "reverse_effects E t (effects tx) = (aevs, failed)" by fastforce
  note A = reverse_effects_events[OF a]
  have ro: "isReadonly tx \<longrightarrow> aevs = []" using A assms(3) by blast
  have "evs = map (\<lambda>k. Ended t k False) (registered E ?tx1) @ aevs" "tx' = finish_tx (?tx1\<lparr>endCallbackFns := None\<rparr>)"
    using c a by (auto simp: rollback_locked_def call_protected_def Let_def split: option.splits)
  then show ?thesis
    using one_end_rollback[of t aevs "registered E ?tx1", OF _ _ d ro] A by (auto simp: finish_tx_def same_frame_def)
qed

lemma tx_invI:
  assumes "tx_inv w p"
    and "tx_ok (txs w t) (enders t p) (events_of t (events w)) (adding t p) \<Longrightarrow>
         tx_ok (txs w' t) (enders t p') (events_of t (events w')) (adding t p')"
    and "\<And>u. u \<noteq> t \<Longrightarrow> txs w' u = txs w u \<and> enders u p' = enders u p \<and> events_of u (events w') = events_of u (events w) \<and>
           (adding u p' \<longrightarrow> adding u p)"
  shows "tx_inv w' p'"
  unfolding tx_inv_def
proof
  fix u
  have ok: "tx_ok (txs w u) (enders u p) (events_of u (events w)) (adding u p)" using assms(1) by (simp add: tx_inv_def)
  show "tx_ok (txs w' u) (enders u p') (events_of u (events w')) (adding u p')"
  proof (cases "u = t")
    case False
    then show ?thesis using ok assms(3)[OF False] by (auto simp: tx_ok_def split: option.splits)
  qed (use assms(2) ok in simp)
qed

lemma put_tx_simps [simp]:
  "txs (put_tx t tx w) = (txs w)(t \<mapsto> tx)" "events (put_tx t tx w) = events w" "currentTx (put_tx t tx w) = currentTx w"
  "txs (setTx c o' w) = txs w" "events (setTx c o' w) = events w" "currentTx (setTx c o' w) = (currentTx w)(c := o')"
  by (simp_all add: put_tx_def setTx_def)

lemma pend_simps [simp]:
  "enders u (PAdd t e # p) = enders u p" "enders u (POnEnd t k # p) = enders u p"
  "enders u (PEnd kind t # p) = (if u = t then Suc (enders u p) else enders u p)"
  "adding u (PAdd t e # p) \<longleftrightarrow> u = t \<or> adding u p" "adding u (POnEnd t k # p) = adding u p" "adding u (PEnd kind t # p) = adding u p"
  by (auto simp: enders_def adding_def)

lemma pend_remove [simp]:
  "enders u (remove1 (PAdd t e) p) = enders u p" "enders u (remove1 (POnEnd t k) p) = enders u p"
  "PEnd kind t \<in> set p \<Longrightarrow> enders u (remove1 (PEnd kind t) p) = (if u = t then enders u p - 1 else enders u p)"
  by (auto simp: enders_def filter_remove1 length_remove1)

lemma enders_pos: "PEnd kind t \<in> set p \<Longrightarrow> 0 < enders t p"
  by (auto simp: enders_def filter_empty_conv)

lemma adding_remove: "adding u (remove1 x p) \<Longrightarrow> adding u p"
  unfolding adding_def by (meson notin_set_remove1)

text \<open>The steps that change nothing but the channel, the start time, the effects or the callbacks of an unfinished transaction.\<close>

lemma IsFinished_ok: "tx_ok (Some tx) n evs a \<Longrightarrow> IsFinished tx = (fin, tx') \<Longrightarrow> tx_ok (Some tx') n evs a"
  using IsFinished_cases[of tx fin tx'] by (auto simp: tx_ok_def split: option.splits)

lemma check_ok:
  assumes "tx_ok (Some tx) n evs a"
  shows "AddEffect_check tx = (r, tx') \<Longrightarrow> tx_ok (Some tx') n evs a \<and> (r = Ok \<longrightarrow> \<not> isReadonly tx')"
    and "OnEnd_check tx = (r, tx') \<Longrightarrow> tx_ok (Some tx') n evs a"
    and "begin_end tx = (r, tx') \<Longrightarrow> tx_ok (Some tx') (if r = Ok then Suc n else n) evs a"
proof -
  obtain fin tx1 where f: "IsFinished tx = (fin, tx1)" by fastforce
  note ok = IsFinished_ok[OF assms f] and c = IsFinished_cases[OF f]
  show "AddEffect_check tx = (r, tx') \<Longrightarrow> tx_ok (Some tx') n evs a \<and> (r = Ok \<longrightarrow> \<not> isReadonly tx')"
    using ok by (auto simp: AddEffect_check_def f split: if_splits)
  show "OnEnd_check tx = (r, tx') \<Longrightarrow> tx_ok (Some tx') n evs a"
    using ok by (auto simp: OnEnd_check_def f split: if_splits)
  show "begin_end tx = (r, tx') \<Longrightarrow> tx_ok (Some tx') (if r = Ok then Suc n else n) evs a"
    using ok c by (auto simp: begin_end_def f tx_ok_def split: if_splits)
qed

lemma locked_ok:
  assumes "tx_ok (Some tx) n evs a"
  shows "AddEffect_locked E e tx = (r, tx') \<Longrightarrow> a \<Longrightarrow> tx_ok (Some tx') n evs a"
    and "OnEnd_locked k tx = (r, tx') \<Longrightarrow> tx_ok (Some tx') n evs a"
  using assms by (auto simp: AddEffect_locked_def OnEnd_locked_def tx_ok_def split: if_splits option.splits)

lemma tx_ok_less_adding: "tx_ok otx n evs a \<Longrightarrow> (a' \<longrightarrow> a) \<Longrightarrow> tx_ok otx n evs a'"
  by (auto simp: tx_ok_def split: option.splits)

lemma tx_ok_more_adding: "tx_ok (Some tx) n evs a \<Longrightarrow> \<not> isReadonly tx \<Longrightarrow> tx_ok (Some tx) n evs a'"
  by (auto simp: tx_ok_def)

lemma Start_ok:
  assumes "tx_ok (Some tx) n evs a" "tx_Start now ctx t tx w = (r, w')"
  shows "\<exists>tx'. txs w' = (txs w)(t \<mapsto> tx') \<and> tx_ok (Some tx') n evs a \<and> events w' = events w"
proof -
  obtain fin tx1 where f: "IsFinished tx = (fin, tx1)" by fastforce
  note ok = IsFinished_ok[OF assms(1) f]
  then have "tx_ok (Some (tx1\<lparr>startTime := Some now\<rparr>)) n evs a" by (simp add: tx_ok_def)
  then show ?thesis using assms(2) ok by (auto simp: tx_Start_def f Let_def split: if_splits)
qed

lemma end_ok:
  assumes "ranges_once E" "tx_ok (Some tx) n evs a" "0 < n" "end_in_world E now kind t tx w = (r, w')" "evs = events_of t (events w)"
  shows "\<exists>tx' new. txs w' = (txs w)(t \<mapsto> tx') \<and> events w' = events w @ new \<and> list_all (\<lambda>ev. event_tx ev = t) new \<and>
    tx_ok (Some tx') (n - 1) (events_of t (events w')) a"
proof -
  obtain new tx' where l: "end_locked E now kind t tx = (r, new, tx')" and
    w': "w' = setTx (tx_ctx tx) None (put_tx t tx' (w\<lparr>events := events w @ new\<rparr>))"
    using assms(4) by (auto simp: end_in_world_def split: prod.splits)
  have pre: "case endCallbackFns tx of None \<Rightarrow> True | Some ks \<Rightarrow> distinct ks" "isReadonly tx \<longrightarrow> effects tx = []" "evs = []" "n = 1"
    "isReadonly tx \<longrightarrow> \<not> a"
    using assms(2,3) by (auto simp: tx_ok_def split: if_splits)
  have ev: "one_end (isReadonly tx) new \<and> list_all (\<lambda>ev. event_tx ev = t) new \<and> finished tx' = ClosedChan \<and> finishing tx' \<and> same_frame tx tx'"
    using l commit_locked_events[OF assms(1) pre(1,2)] rollback_locked_events[OF assms(1) pre(1,2)]
    by (cases kind) (auto simp: end_locked_def)
  have "events_of t (events w') = new"
    using ev pre(3) assms(5) by (simp add: w' events_of_def list_all_iff)
  moreover have "tx_ok (Some tx') 0 new a"
    using ev pre by (auto simp: tx_ok_def same_frame_def)
  ultimately show ?thesis using w' ev pre(4) by auto
qed

lemma tx_reachable_inv:
  assumes "tx_reachable E w p" "ranges_once E"
  shows "tx_inv w p"
  using assms(1)
proof (induction rule: tx_reachable.induct)
  case tx_init
  show ?case by (simp add: tx_inv_def tx_ok_def events_of_def enders_def adding_def)
next
  case (tx_new w p t ctx ro opts)
  show ?case by (rule tx_invI[OF tx_new.IH, of t]) (use tx_new.hyps in \<open>auto simp: tx_ok_def newTransaction_def\<close>)
next
  case (tx_start w p t tx now ctx r w')
  have "tx_ok (Some tx) (enders t p) (events_of t (events w)) (adding t p)" using tx_start.IH tx_start.hyps(2) by (metis tx_inv_def)
  from Start_ok[OF this tx_start.hyps(3)]
  obtain tx' where "txs w' = (txs w)(t \<mapsto> tx')" "tx_ok (Some tx') (enders t p) (events_of t (events w)) (adding t p)" "events w' = events w"
    by blast
  then show ?case by (intro tx_invI[OF tx_start.IH, of t]) simp_all
next
  case (tx_observe w p t tx)
  show ?case
    by (rule tx_invI[OF tx_observe.IH, of t]) (use tx_observe.hyps IsFinished_ok[of tx _ _ _ "fst (IsFinished tx)"] in auto)
next
  case (tx_add_check w p t tx r tx' e)
  have "tx_ok (Some tx) (enders t p) (events_of t (events w)) (adding t p)" using tx_add_check.IH tx_add_check.hyps(2) by (metis tx_inv_def)
  note C = check_ok(1)[OF this tx_add_check.hyps(3)]
  then have "tx_ok (Some tx') (enders t p) (events_of t (events w)) (adding t (if r = Ok then PAdd t e # p else p))"
    by (cases "r = Ok") (auto intro: tx_ok_more_adding)
  then show ?case by (intro tx_invI[OF tx_add_check.IH, of t]) (simp_all split: if_splits)
next
  case (tx_add w p t e tx r tx')
  have a: "adding t p" using tx_add.hyps(2) by (auto simp: adding_def)
  have "tx_ok (Some tx) (enders t p) (events_of t (events w)) (adding t p)" using tx_add.IH tx_add.hyps(3) by (metis tx_inv_def)
  note L = locked_ok(1)[OF this tx_add.hyps(4) a]
  have "tx_ok (Some tx') (enders t p) (events_of t (events w)) (adding t (remove1 (PAdd t e) p))"
    by (rule tx_ok_less_adding[OF L]) (blast dest: adding_remove)
  then show ?case by (intro tx_invI[OF tx_add.IH, of t]) (simp_all add: adding_remove)
next
  case (tx_onend_check w p t tx r tx' k)
  have "tx_ok (Some tx) (enders t p) (events_of t (events w)) (adding t p)" using tx_onend_check.IH tx_onend_check.hyps(2) by (metis tx_inv_def)
  note C = check_ok(2)[OF this tx_onend_check.hyps(3)]
  then show ?case by (intro tx_invI[OF tx_onend_check.IH, of t]) simp_all
next
  case (tx_onend w p t k tx r tx')
  have "tx_ok (Some tx) (enders t p) (events_of t (events w)) (adding t p)" using tx_onend.IH tx_onend.hyps(3) by (metis tx_inv_def)
  note L = locked_ok(2)[OF this tx_onend.hyps(4)]
  have "tx_ok (Some tx') (enders t p) (events_of t (events w)) (adding t (remove1 (POnEnd t k) p))"
    by (rule tx_ok_less_adding[OF L]) (blast dest: adding_remove)
  then show ?case by (intro tx_invI[OF tx_onend.IH, of t]) (simp_all add: adding_remove)
next
  case (tx_begin w p t tx r tx' kind)
  have "tx_ok (Some tx) (enders t p) (events_of t (events w)) (adding t p)" using tx_begin.IH tx_begin.hyps(2) by (metis tx_inv_def)
  note C = check_ok(3)[OF this tx_begin.hyps(3)]
  then show ?case by (intro tx_invI[OF tx_begin.IH, of t]) (simp_all split: if_splits)
next
  case (tx_finish w p kind t tx now r w')
  have "tx_ok (Some tx) (enders t p) (events_of t (events w)) (adding t p)" using tx_finish.IH tx_finish.hyps(3) by (metis tx_inv_def)
  from end_ok[OF assms(2) this enders_pos[OF tx_finish.hyps(2)] tx_finish.hyps(4) refl]
  obtain tx' new where w': "txs w' = (txs w)(t \<mapsto> tx')" "events w' = events w @ new" "list_all (\<lambda>ev. event_tx ev = t) new"
    "tx_ok (Some tx') (enders t p - 1) (events_of t (events w')) (adding t p)" by blast
  have "events_of u (events w') = events_of u (events w)" if "u \<noteq> t" for u
    using w'(2,3) that by (auto simp: events_of_def list_all_iff)
  moreover have "tx_ok (Some tx') (enders t p - 1) (events_of t (events w')) (adding t (remove1 (PEnd kind t) p))"
    by (rule tx_ok_less_adding[OF w'(4)]) (blast dest: adding_remove)
  ultimately show ?case
    using w'(1) tx_finish.hyps(2) by (intro tx_invI[OF tx_finish.IH, of t]) (simp_all add: adding_remove)
qed

section \<open>Properties\<close>

definition sample_env :: "(nat, nat) env" where
  "sample_env = \<lparr>reversability = (\<lambda>_. Reversible), apply_fails = (\<lambda>e. e = 9), reverse_fails = (\<lambda>_. False),
     callback_panics = (\<lambda>_ _. False), range_order = rev\<rparr>"

definition sample_tx :: "nat list \<Rightarrow> (nat, nat) Transaction" where
  "sample_tx es = (newTransaction 0 False [])\<lparr>startTime := Some 1, effects := es, endCallbackFns := Some [10, 20]\<rparr>"

definition sample_world :: "nat list \<Rightarrow> (nat, nat) world" where
  "sample_world es = \<lparr>txs = [0 \<mapsto> sample_tx es], currentTx = [0 \<mapsto> 0], events = []\<rparr>"

lemma sample_active [simp]: "active (sample_tx es)"
  by (simp add: active_def IsFinished_iff IsFinishing_def sample_tx_def newTransaction_def)

text \<open>
  (C30) Committing an active transaction whose effects can all be applied applies every effect once, in the order in which they were
  added, then calls every registered end callback once with success = true, detaches the transaction from its context and
  finishes it; the commit returns nil exactly when no callback panics, and every later Commit, Rollback, AddEffect or OnEnd
  returns ErrFinishedTransaction and does nothing else.
\<close>

theorem commit_applies_effects:
  assumes "active tx" and "ranges_once E" and "endCallbackFns tx = Some ks" and "distinct ks" and "\<forall>e \<in> set (effects tx). \<not> apply_fails E e"
    and "tx_Commit E now t tx w = (r, w')"
  shows "\<exists>calls. events w' = events w @ map (Applied t) (effects tx) @ map (\<lambda>k. Ended t k True) calls \<and> distinct calls \<and> set calls = set ks \<and>
    (r = Ok \<longleftrightarrow> (\<forall>k \<in> set ks. \<not> callback_panics E k True)) \<and> currentTx w' (tx_ctx tx) = None \<and>
    (\<exists>tx'. txs w' t = Some tx' \<and> fst (IsFinished tx') \<and>
       tx_Commit E now' t tx' w' = (Fails ErrFinishedTransaction, w') \<and> tx_Rollback E now' t tx' w' = (Fails ErrFinishedTransaction, w') \<and>
       AddEffect E e tx' = (Fails ErrFinishedTransaction, tx') \<and> OnEnd k tx' = (Fails ErrFinishedTransaction, tx'))"
proof -
  obtain c where b: "begin_end tx = (Ok, tx\<lparr>finished := c, finishing := True\<rparr>)" using begin_end_active[OF assms(1)] by blast
  let ?calls = "range_order E ks"
  let ?tx' = "finish_tx (tx\<lparr>finished := c, finishing := True, endTime := Some now, endCallbackFns := None\<rparr>)"
  have calls: "distinct ?calls" "set ?calls = set ks" using assms(2,4) by (simp_all add: ranges_once_def)
  have w': "w' = setTx (tx_ctx tx) None (put_tx t ?tx' (w\<lparr>events := events w @ map (Applied t) (effects tx) @ map (\<lambda>k. Ended t k True) ?calls\<rparr>))"
    and r: "r = callbacks_result (length (filter (\<lambda>k. callback_panics E k True) ?calls))"
    using assms(6) b apply_effects_ok[OF assms(5), of t]
    by (simp_all add: tx_Commit_def tx_end_def end_in_world_def end_locked_def commit_locked_def call_protected_def registered_def assms(3) Let_def)
  have fin: "finished ?tx' = ClosedChan" "txs w' t = Some ?tx'" "put_tx t ?tx' w' = w'"
    by (simp_all add: w' finish_tx_def put_tx_def setTx_def)
  have "r = Ok \<longleftrightarrow> (\<forall>k \<in> set ks. \<not> callback_panics E k True)"
    unfolding r callbacks_result_def filter_empty_iff calls(2) by simp
  moreover have "events w' = events w @ map (Applied t) (effects tx) @ map (\<lambda>k. Ended t k True) ?calls" "currentTx w' (tx_ctx tx) = None"
    by (simp_all add: w')
  moreover have "fst (IsFinished ?tx')" using fin(1) by (simp add: IsFinished_iff)
  moreover have "tx_Commit E now' t ?tx' w' = (Fails ErrFinishedTransaction, w')" "tx_Rollback E now' t ?tx' w' = (Fails ErrFinishedTransaction, w')"
    using finished_calls_fail(1)[OF fin(1)] fin(3) by (simp_all add: tx_Commit_def tx_Rollback_def)
  ultimately show ?thesis using calls fin(2) finished_calls_fail(2,3)[OF fin(1)] by blast
qed

theorem commit_applies_effects_witness:
  "\<exists>calls. events (snd (tx_Commit sample_env 5 0 (sample_tx [1, 2]) (sample_world [1, 2]))) =
     [Applied 0 1, Applied 0 2] @ map (\<lambda>k. Ended 0 k True) calls \<and> set calls = {10, 20}"
proof -
  obtain r w' where c: "tx_Commit sample_env 5 0 (sample_tx [1, 2]) (sample_world [1, 2]) = (r, w')" by fastforce
  have h: "ranges_once sample_env" "endCallbackFns (sample_tx [1, 2]) = Some [10, 20]" "distinct [10 :: nat, 20]"
    "\<forall>e \<in> set (effects (sample_tx [1, 2])). \<not> apply_fails sample_env e"
    by (simp_all add: ranges_once_def sample_env_def sample_tx_def)
  show ?thesis
    using commit_applies_effects[OF sample_active h c, of 6 0 0] c by (auto simp: sample_world_def sample_tx_def)
qed

text \<open>
  When an effect fails during a commit, the effects before it stay applied, none is reversed and the remaining ones are not
  tried; every end callback is nevertheless called with success = true, the transaction is finished, and the commit returns the
  error.
\<close>

theorem failing_commit_reports_success:
  assumes "active tx" and "endCallbackFns tx = Some ks" and "effects tx = done @ e # rest" and "\<forall>e' \<in> set done. \<not> apply_fails E e'"
    and "apply_fails E e" and "\<forall>k \<in> set (range_order E ks). \<not> callback_panics E k True" and "tx_Commit E now t tx w = (r, w')"
  shows "r = Fails (ErrApplyingEffect e) \<and>
    events w' = events w @ map (Applied t) done @ [ApplyFailed t e] @ map (\<lambda>k. Ended t k True) (range_order E ks) \<and>
    currentTx w' (tx_ctx tx) = None \<and> (\<exists>tx'. txs w' t = Some tx' \<and> fst (IsFinished tx'))"
proof -
  obtain c where b: "begin_end tx = (Ok, tx\<lparr>finished := c, finishing := True\<rparr>)" using begin_end_active[OF assms(1)] by blast
  show ?thesis
    using assms(7) b apply_effects_failing[OF assms(4,5), of t rest] call_unprotected_ok[OF assms(6), of t]
    by (auto simp: tx_Commit_def tx_end_def end_in_world_def end_locked_def commit_locked_def registered_def assms(2,3) Let_def
        IsFinished_iff finish_tx_def)
qed

theorem failing_commit_reports_success_witness:
  "events (snd (tx_Commit sample_env 5 0 (sample_tx [1, 9, 2]) (sample_world [1, 9, 2]))) =
     [Applied 0 1, ApplyFailed 0 9, Ended 0 20 True, Ended 0 10 True]"
proof -
  obtain r w' where c: "tx_Commit sample_env 5 0 (sample_tx [1, 9, 2]) (sample_world [1, 9, 2]) = (r, w')" by fastforce
  have h: "endCallbackFns (sample_tx [1, 9, 2]) = Some [10, 20]" "effects (sample_tx [1, 9, 2]) = [1] @ 9 # [2]"
    "\<forall>e' \<in> set [1 :: nat]. \<not> apply_fails sample_env e'" "apply_fails sample_env 9"
    "\<forall>k \<in> set (range_order sample_env [10, 20]). \<not> callback_panics sample_env k True"
    by (simp_all add: sample_env_def sample_tx_def)
  show ?thesis
    using failing_commit_reports_success[OF sample_active h c] c by (simp add: sample_world_def sample_env_def)
qed

text \<open>
  (C31) Rolling back an active transaction calls every end callback once with success = false, even when some of them panic, then
  calls \<open>Reverse\<close> on every registered effect in the order in which they were added (none of them has been applied, since effects
  are only applied by a commit), detaches the transaction and finishes it, if no \<open>Reverse\<close> fails (the code stops at the first
  failure). The goroutine started by Start does exactly this when the context is done or the timeout elapses, and nothing to a
  finished transaction.
\<close>

theorem rollback_reverses_effects:
  assumes "active tx" and "ranges_once E" and "endCallbackFns tx = Some ks" and "distinct ks" and "\<forall>e \<in> set (effects tx). \<not> reverse_fails E e"
    and "tx_Rollback E now t tx w = (r, w')"
  shows "\<exists>calls tx'. events w' = events w @ map (\<lambda>k. Ended t k False) calls @ map (Reversed t) (effects tx) \<and> distinct calls \<and> set calls = set ks \<and>
    (r = Ok \<longleftrightarrow> (\<forall>k \<in> set ks. \<not> callback_panics E k False)) \<and> currentTx w' (tx_ctx tx) = None \<and>
    txs w' t = Some tx' \<and> fst (IsFinished tx') \<and>
    watch E now ContextDone t tx w = w' \<and> events (watch E now TimeoutElapsed t tx w) = events w' \<and>
    watch E now' reason t tx' w' = w'"
proof -
  obtain c where b: "c \<noteq> ClosedChan" "begin_end tx = (Ok, tx\<lparr>finished := c, finishing := True\<rparr>)" using begin_end_active[OF assms(1)] by blast
  let ?calls = "range_order E ks"
  let ?tx' = "finish_tx (tx\<lparr>finished := c, finishing := True, endTime := Some now, endCallbackFns := None\<rparr>)"
  let ?evs = "map (\<lambda>k. Ended t k False) ?calls @ map (Reversed t) (effects tx)"
  have calls: "distinct ?calls" "set ?calls = set ks" using assms(2,4) by (simp_all add: ranges_once_def)
  have w': "w' = setTx (tx_ctx tx) None (put_tx t ?tx' (w\<lparr>events := events w @ ?evs\<rparr>))"
    and r: "r = callbacks_result (length (filter (\<lambda>k. callback_panics E k False) ?calls))"
    using assms(6) b reverse_effects_ok[OF assms(5), of t]
    by (simp_all add: tx_Rollback_def tx_end_def end_in_world_def end_locked_def rollback_locked_def call_protected_def registered_def assms(3) Let_def)
  have fin: "finished ?tx' = ClosedChan" "txs w' t = Some ?tx'" "put_tx t ?tx' w' = w'"
    by (simp_all add: w' finish_tx_def put_tx_def setTx_def)
  have idle: "watch E now' reason t ?tx' w' = w'"
    using finished_calls_fail(1)[OF fin(1), of E now' RollsBack t w'] fin
    by (auto simp: watch_def tx_Rollback_def IsFinished_def tx_Finished_def split: wakeup.split)
  have "r = Ok \<longleftrightarrow> (\<forall>k \<in> set ks. \<not> callback_panics E k False)"
    unfolding r callbacks_result_def filter_empty_iff calls(2) by simp
  moreover have "events w' = events w @ ?evs" "currentTx w' (tx_ctx tx) = None" by (simp_all add: w')
  moreover have "fst (IsFinished ?tx')" using fin(1) by (simp add: IsFinished_iff)
  moreover have "watch E now ContextDone t tx w = w'" using assms(6) by (simp add: watch_def)
  moreover have "events (watch E now TimeoutElapsed t tx w) = events w'"
  proof -
    obtain fin2 tx2 where f: "IsFinished tx = (fin2, tx2)" by fastforce
    note F = IsFinished_cases[OF f]
    have nf: "\<not> fin2" using assms(1) f by (simp add: active_def)
    then have a2: "active tx2" and same: "effects tx2 = effects tx" "endCallbackFns tx2 = Some ks"
      using F assms(1,3) by (auto simp: active_def IsFinished_iff IsFinishing_def)
    obtain c2 where b2: "begin_end tx2 = (Ok, tx2\<lparr>finished := c2, finishing := True\<rparr>)" using begin_end_active[OF a2] by blast
    show ?thesis
      using nf b2 same reverse_effects_ok[OF assms(5), of t]
      by (simp add: watch_def f tx_Rollback_def tx_end_def end_in_world_def end_locked_def rollback_locked_def call_protected_def registered_def Let_def w')
  qed
  ultimately show ?thesis using calls fin(2) idle by (intro exI[of _ ?calls] exI[of _ ?tx']) simp
qed

theorem rollback_reverses_effects_witness:
  "\<exists>calls. events (snd (tx_Rollback sample_env 5 0 (sample_tx [1, 2]) (sample_world [1, 2]))) =
     map (\<lambda>k. Ended 0 k False) calls @ [Reversed 0 1, Reversed 0 2] \<and> set calls = {10, 20}"
proof -
  obtain r w' where c: "tx_Rollback sample_env 5 0 (sample_tx [1, 2]) (sample_world [1, 2]) = (r, w')" by fastforce
  have h: "ranges_once sample_env" "endCallbackFns (sample_tx [1, 2]) = Some [10, 20]" "distinct [10 :: nat, 20]"
    "\<forall>e \<in> set (effects (sample_tx [1, 2])). \<not> reverse_fails sample_env e"
    by (simp_all add: ranges_once_def sample_env_def sample_tx_def)
  show ?thesis
    using rollback_reverses_effects[OF sample_active h c, of 6 ContextDone] c by (auto simp: sample_world_def sample_tx_def)
qed

lemma distinct_filter_eq: "distinct xs \<Longrightarrow> length (filter (\<lambda>y. y = x) xs) \<le> 1"
proof (induction xs)
  case (Cons y ys)
  then show ?case by (cases "y = x") (auto simp: filter_empty_conv)
qed simp

lemma ended_keys_filter:
  assumes "distinct (ended_keys evs)"
  shows "length (filter (\<lambda>ev. \<exists>b. ev = Ended t k b) evs) \<le> 1"
proof -
  have "length (filter (\<lambda>ev. \<exists>b. ev = Ended t k b) evs) \<le> length (filter (\<lambda>k'. k' = k) (ended_keys evs))"
    by (induction evs) (auto simp: ended_keys_Cons split: event.split)
  then show ?thesis using distinct_filter_eq[OF assms, of k] by linarith
qed

lemma readonly_events:
  "length (ended_keys evs) = length evs \<Longrightarrow> ev \<in> set evs \<Longrightarrow> \<exists>t k b. ev = Ended t k b"
proof (induction evs)
  case (Cons a evs)
  have "length (ended_keys evs) \<le> length evs" by (induction evs) (auto simp: ended_keys_Cons split: event.split)
  then show ?case using Cons by (cases a) (auto simp: ended_keys_Cons)
qed simp

text \<open>
  (C18) However the calls of several goroutines interleave, with the test and the locked part of every method as separate steps, a
  transaction ends at most once: each end callback is called at most once, all of them are told the same outcome, the effects of
  one transaction are never both applied and reversed, a finished transaction is also marked as finishing and no goroutine is
  about to end it again, and a readonly transaction applies nothing.
\<close>

theorem transaction_ends_once:
  assumes "tx_reachable E w p" and "ranges_once E"
  shows "length (filter (\<lambda>ev. \<exists>b. ev = Ended t k b) (events w)) \<le> 1 \<and>
    \<not> (Ended t k True \<in> set (events w) \<and> Ended t k' False \<in> set (events w)) \<and>
    \<not> (Applied t e \<in> set (events w) \<and> Reversed t e' \<in> set (events w)) \<and>
    (txs w t = Some tx \<longrightarrow> fst (IsFinished tx) \<longrightarrow> IsFinishing tx \<and> PEnd kind t \<notin> set p) \<and>
    (txs w t = Some tx \<longrightarrow> isReadonly tx \<longrightarrow> Applied t e \<notin> set (events w))"
proof -
  let ?evs = "events_of t (events w)"
  have ok: "tx_ok (txs w t) (enders t p) ?evs (adding t p)" using tx_reachable_inv[OF assms] by (simp add: tx_inv_def)
  have one: "\<exists>ro. one_end ro ?evs" "txs w t = Some tx \<Longrightarrow> isReadonly tx \<Longrightarrow> one_end True ?evs"
    using ok by (auto simp: tx_ok_def one_end_def split: option.splits if_splits)
  have mem: "ev \<in> set (events w) \<longleftrightarrow> ev \<in> set ?evs" if "event_tx ev = t" for ev using that by (simp add: events_of_def)
  have flt: "filter (\<lambda>ev. \<exists>b. ev = Ended t k b) (events w) = filter (\<lambda>ev. \<exists>b. ev = Ended t k b) ?evs"
    unfolding events_of_def filter_filter by (rule filter_cong) auto
  have kinds: "list_all commit_event ?evs \<or> list_all rollback_event ?evs" and d: "distinct (ended_keys ?evs)"
    using one(1) by (auto simp: one_end_def)
  have "IsFinishing tx \<and> PEnd kind t \<notin> set p" if "txs w t = Some tx" "fst (IsFinished tx)"
    using ok that enders_pos[of kind t p] by (auto simp: tx_ok_def IsFinished_iff IsFinishing_def)
  moreover have "Applied t e \<notin> set (events w)" if "txs w t = Some tx" "isReadonly tx"
    using one(2)[OF that] readonly_events[of ?evs "Applied t e"] mem[of "Applied t e"] by (auto simp: one_end_def)
  moreover have "\<not> (Ended t k True \<in> set (events w) \<and> Ended t k' False \<in> set (events w))"
    "\<not> (Applied t e \<in> set (events w) \<and> Reversed t e' \<in> set (events w))"
    using kinds mem by (auto simp: list_all_iff)
  ultimately show ?thesis using ended_keys_filter[OF d, of t k] flt by simp
qed

lemma sample_reachable:
  "\<exists>w. tx_reachable sample_env w [] \<and> events w = [Ended 0 10 True] \<and> (\<exists>tx. txs w 0 = Some tx \<and> fst (IsFinished tx))"
proof -
  define w0 :: "(nat, nat) world" where "w0 = \<lparr>txs = (\<lambda>_. None), currentTx = (\<lambda>_. None), events = []\<rparr>"
  define a :: "(nat, nat) Transaction" where "a = newTransaction 0 False []"
  define b where "b = a\<lparr>finished := OpenChan\<rparr>"
  define c where "c = b\<lparr>endCallbackFns := Some [10]\<rparr>"
  define d where "d = c\<lparr>finishing := True\<rparr>"
  note defs = w0_def a_def b_def c_def d_def newTransaction_def put_tx_def
  define w1 where "w1 = put_tx 0 a w0"
  define w2 where "w2 = put_tx 0 b w1"
  define w3 where "w3 = put_tx 0 c w2"
  define w4 where "w4 = put_tx 0 d w3"
  obtain r w5 where f: "end_in_world sample_env 5 Commits 0 d w4 = (r, w5)" by fastforce
  have steps: "OnEnd_check a = (Ok, b)" "OnEnd_locked 10 b = (Ok, c)" "begin_end c = (Ok, d)"
    "txs w1 0 = Some a" "txs w2 0 = Some b" "txs w3 0 = Some c" "txs w4 0 = Some d"
    by (simp_all add: OnEnd_check_def OnEnd_locked_def begin_end_def IsFinished_def tx_Finished_def IsFinishing_def defs w1_def w2_def w3_def w4_def)
  have "tx_reachable sample_env w0 []" unfolding w0_def by (rule tx_init)
  then have "tx_reachable sample_env w1 []" unfolding w1_def a_def by (rule tx_new) (simp add: w0_def)
  from tx_onend_check[OF this steps(4,1), of 10] have "tx_reachable sample_env w2 [POnEnd 0 10]" by (simp add: w2_def)
  from tx_onend[OF this _ steps(5,2)] have "tx_reachable sample_env w3 []" by (simp add: w3_def)
  from tx_begin[OF this steps(6,3), of Commits] have "tx_reachable sample_env w4 [PEnd Commits 0]" by (simp add: w4_def)
  from tx_finish[OF this _ steps(7) f] have "tx_reachable sample_env w5 []" by simp
  moreover have "events w5 = [Ended 0 10 True] \<and> (\<exists>tx. txs w5 0 = Some tx \<and> fst (IsFinished tx))"
    using f by (auto simp: end_in_world_def end_locked_def commit_locked_def call_protected_def registered_def sample_env_def Let_def
        defs w1_def w2_def w3_def w4_def setTx_def finish_tx_def IsFinished_def tx_Finished_def)
  ultimately show ?thesis by blast
qed

theorem transaction_ends_once_witness:
  "\<exists>w. Ended 0 10 True \<in> set (events w) \<and> length (filter (\<lambda>ev. \<exists>b. ev = Ended 0 (10 :: nat) b) (events (w :: (nat, nat) world))) \<le> 1"
proof -
  obtain w where w: "tx_reachable sample_env w []" "events w = [Ended 0 10 True]" using sample_reachable by blast
  have "ranges_once sample_env" by (simp add: ranges_once_def sample_env_def)
  then have "length (filter (\<lambda>ev. \<exists>b. ev = Ended 0 10 b) (events w)) \<le> 1"
    using transaction_ends_once[OF w(1), where t = 0 and k = 10] by blast
  moreover have "Ended 0 10 True \<in> set (events w)" using w(2) by simp
  ultimately show ?thesis by blast
qed

text \<open>Ending a transaction that was never started clears the current transaction of its context, whichever it is.\<close>

lemma unstarted_end_detaches_current:
  assumes "active tx" "startTime tx = None" "currentTx w (tx_ctx tx) = Some other"
  shows "currentTx (snd (tx_end E now kind t tx w)) (tx_ctx tx) = None"
proof -
  obtain c where b: "begin_end tx = (Ok, tx\<lparr>finished := c, finishing := True\<rparr>)" using begin_end_active[OF assms(1)] by blast
  then show ?thesis by (simp add: tx_end_def end_in_world_def split: prod.split)
qed

text \<open>A registration whose test passed before the commit panics on the nil map that the commit leaves behind.\<close>

lemma late_OnEnd_panics:
  assumes "fst (OnEnd_check tx) = Ok" "commit_locked E now t tx = (Ok, evs, tx')"
  shows "OnEnd_locked k tx' = (NilMapPanic, tx')"
  using assms(2)
  by (auto simp: commit_locked_def Let_def call_protected_def finish_tx_def OnEnd_locked_def split: prod.splits option.splits if_splits)

end
