(* ===== verification/TxIsolation.thy ===== *)
theory TxIsolation
  imports Transactions
begin

text \<open>
  The transaction isolators, \<open>internal/core/transaction_isolation.go\<close>. A transaction is known here by its identifier, by the
  immutable \<open>readonly\<close> flag (a function of the identifier) and by whether its \<open>Finished\<close> channel is closed (membership of the set
  \<open>fin\<close>). One pass of a wait function, up to the point where it returns or blocks, holds the isolator's lock and is one definition;
  blocking, waking up and timing out are steps of the relations below. The recursion of the wait functions is the counter
  \<open>depth\<close> carried by a blocked call. The list of readonly transactions is a Go slice: a read-write transaction that waits for them
  ranges, without the lock, over a slice of the same array that \<open>removeFinishedTxs\<close> shifts, one element after the other.
\<close>

section \<open>Definitions\<close>

definition MAX_SUBSEQUENT_WAIT_WRITE_TX_COUNT :: nat where
  "MAX_SUBSEQUENT_WAIT_WRITE_TX_COUNT = 100"

datatype iso_error = ErrTooManyWriteTxsWaited | ErrWaitReadonlyTxsTimeout | CtxError

datatype verdict =
    Returns "TxId option"
  | WaitForWriter TxId
  | WaitForReaders TxId nat
  | ReturnsError iso_error
  | RunningTransactionExpected
  | NilDereference

record LiteTransactionIsolator =
  lite_currentWriteTx :: "TxId option"

definition not_running :: "TxId set \<Rightarrow> TxId option \<Rightarrow> bool" where
  "not_running fin otx \<longleftrightarrow> (case otx of None \<Rightarrow> True | Some t \<Rightarrow> t \<in> fin)"

definition clear_finished :: "TxId set \<Rightarrow> TxId option \<Rightarrow> TxId option" where
  "clear_finished fin cur = (case cur of None \<Rightarrow> None | Some c \<Rightarrow> if c \<in> fin then None else Some c)"

definition lite_attempt :: "(TxId \<Rightarrow> bool) \<Rightarrow> TxId set \<Rightarrow> TxId option \<Rightarrow> bool \<Rightarrow> nat \<Rightarrow> LiteTransactionIsolator \<Rightarrow>
    verdict \<times> LiteTransactionIsolator" where
  "lite_attempt readonly fin otx requireRunningTx depth isol =
    (if depth \<ge> MAX_SUBSEQUENT_WAIT_WRITE_TX_COUNT then (ReturnsError ErrTooManyWriteTxsWaited, isol)
     else if requireRunningTx \<and> not_running fin otx then (RunningTransactionExpected, isol)
     else
       (let iso1 = isol\<lparr>lite_currentWriteTx := clear_finished fin (lite_currentWriteTx isol)\<rparr> in
        case lite_currentWriteTx iso1 of
          None \<Rightarrow>
            (case otx of
               None \<Rightarrow> (Returns None, iso1)
             | Some t \<Rightarrow>
                 if t \<in> fin then (Returns None, iso1)
                 else if \<not> readonly t then (Returns (Some t), iso1\<lparr>lite_currentWriteTx := Some t\<rparr>)
                 else (Returns (Some t), iso1))
        | Some c \<Rightarrow>
            if otx = Some c then (Returns otx, iso1)
            else (case otx of
                    None \<Rightarrow> (NilDereference, iso1)
                  | Some t \<Rightarrow> if readonly t then (Returns otx, iso1) else (WaitForWriter c, iso1))))"

record StrongTransactionIsolator =
  currentWriteTx :: "TxId option"
  readonlyTxs :: "TxId slice"

definition new_strong_isolator :: StrongTransactionIsolator where
  "new_strong_isolator = \<lparr>currentWriteTx = None, readonlyTxs = nil_slice\<rparr>"

definition hasUnfinishedReadonlyTxs :: "TxId set \<Rightarrow> StrongTransactionIsolator \<Rightarrow> bool" where
  "hasUnfinishedReadonlyTxs fin isol \<longleftrightarrow> list_ex (\<lambda>r. r \<notin> fin) (elems (readonlyTxs isol))"

text \<open>The removal of position \<open>i\<close> copies the elements after it one cell to the left; the last cell of the array keeps its value.\<close>

definition remove_cell :: "nat \<Rightarrow> TxId slice \<Rightarrow> TxId slice" where
  "remove_cell i s = (set_elems s (go_copy_at (elems s) i (drop (i + 1) (elems s))))\<lparr>slen := slen s - 1\<rparr>"

function remove_done :: "TxId set \<Rightarrow> nat \<Rightarrow> TxId slice \<Rightarrow> TxId slice" where
  "remove_done fin i s =
    (if i < slen s then
       (if elems s ! i \<in> fin then remove_done fin i (remove_cell i s) else remove_done fin (i + 1) s)
     else s)"
  by auto
termination by (relation "measure (\<lambda>(_, i, s). slen s - i)") (auto simp: remove_cell_def)

declare remove_done.simps [simp del]

definition removeFinishedTxs :: "TxId set \<Rightarrow> StrongTransactionIsolator \<Rightarrow> StrongTransactionIsolator" where
  "removeFinishedTxs fin isol =
     isol\<lparr>currentWriteTx := clear_finished fin (currentWriteTx isol), readonlyTxs := remove_done fin 0 (readonlyTxs isol)\<rparr>"

text \<open>
  The capacity that the run-time chooses when the list grows is not observable: a transaction is only added when no unfinished
  read-write transaction is tracked, hence when no unfinished one ranges over the array.
\<close>

definition append_reader :: "TxId \<Rightarrow> TxId slice \<Rightarrow> TxId slice" where
  "append_reader t s = slice_append (\<lambda>_ n. n) t s [t]"

text \<open>\<open>WaitForReaders t n\<close>: the call goes on to range over the first \<open>n\<close> cells of the array.\<close>

definition strong_attempt :: "(TxId \<Rightarrow> bool) \<Rightarrow> TxId set \<Rightarrow> TxId option \<Rightarrow> bool \<Rightarrow> nat \<Rightarrow> StrongTransactionIsolator \<Rightarrow>
    verdict \<times> StrongTransactionIsolator" where
  "strong_attempt readonly fin otx requireRunningTx depth isol =
    (if depth \<ge> MAX_SUBSEQUENT_WAIT_WRITE_TX_COUNT then (ReturnsError ErrTooManyWriteTxsWaited, isol)
     else if requireRunningTx \<and> not_running fin otx then (RunningTransactionExpected, isol)
     else
       (let iso1 = removeFinishedTxs fin isol in
        case currentWriteTx iso1 of
          None \<Rightarrow>
            (case otx of
               None \<Rightarrow> (Returns None, iso1)
             | Some t \<Rightarrow>
                 if t \<in> fin then (Returns None, iso1)
                 else if readonly t then
                   (Returns (Some t),
                    iso1\<lparr>readonlyTxs := (if t \<in> set (elems (readonlyTxs iso1)) then readonlyTxs iso1
                                         else append_reader t (readonlyTxs iso1))\<rparr>)
                 else
                   (let iso2 = iso1\<lparr>currentWriteTx := Some t\<rparr> in
                    if list_ex (\<lambda>r. r \<notin> fin) (elems (readonlyTxs iso2))
                    then (WaitForReaders t (slen (readonlyTxs iso2)), iso2)
                    else (Returns (Some t), iso2)))
        | Some c \<Rightarrow> if otx = Some c then (Returns otx, iso1) else (WaitForWriter c, iso1)))"

section \<open>Calls and their interleavings\<close>

text \<open>
  A call is about to make its pass number \<open>depth\<close>, waits for a read-write transaction, or is a read-write transaction \<open>t\<close> that
  ranges over the \<open>n\<close> cells of its view of the list of readonly ones: \<open>AwaitsReaders t n i None\<close> is about to read cell \<open>i\<close>, and
  \<open>AwaitsReaders t n i (Some r)\<close> has read \<open>r\<close> there and receives from its channel. \<open>granted\<close> collects the transactions to which a call
  has returned, \<open>timed_out\<close> those that got \<open>ErrWaitReadonlyTxsTimeout\<close>.
\<close>

datatype call = Trying nat | AwaitsWriter nat TxId | AwaitsReaders TxId nat nat "TxId option"

record 'iso sys =
  s_iso :: 'iso
  s_fin :: "TxId set"
  s_calls :: "call list"
  granted :: "TxId set"
  timed_out :: "TxId set"

definition settle :: "verdict \<Rightarrow> nat \<Rightarrow> 'iso \<Rightarrow> call list \<Rightarrow> 'iso sys \<Rightarrow> 'iso sys" where
  "settle v depth isol others s =
    (case v of
       Returns (Some t) \<Rightarrow> s\<lparr>s_iso := isol, s_calls := others, granted := insert t (granted s)\<rparr>
     | WaitForWriter c \<Rightarrow> s\<lparr>s_iso := isol, s_calls := AwaitsWriter depth c # others\<rparr>
     | WaitForReaders t n \<Rightarrow> s\<lparr>s_iso := isol, s_calls := AwaitsReaders t n 0 None # others\<rparr>
     | _ \<Rightarrow> s\<lparr>s_iso := isol, s_calls := others\<rparr>)"

text \<open>
  The discipline under which the strong isolator isolates: a transaction makes one call at a time and none after a timeout, and
  no call makes a pass while an unfinished read-write transaction ranges over more than two readonly ones.
\<close>

definition disciplined :: "TxId option \<Rightarrow> 'iso sys \<Rightarrow> bool" where
  "disciplined otx s \<longleftrightarrow>
     (case otx of None \<Rightarrow> True | Some t \<Rightarrow> t \<notin> timed_out s \<and> list_all (\<lambda>c. case c of AwaitsReaders t' _ _ _ \<Rightarrow> t' \<noteq> t | _ \<Rightarrow> True) (s_calls s)) \<and>
     list_all (\<lambda>c. case c of AwaitsReaders t n _ _ \<Rightarrow> t \<in> s_fin s \<or> n \<le> 2 | _ \<Rightarrow> True) (s_calls s)"

text \<open>
  \<open>st_read\<close> reads a cell of the shared array as it is at that moment. A call of a transaction that is finished in the meantime may return
  at any time (\<open>st_stale\<close>), whatever the array it ranges over has become.
\<close>

inductive strong_reachable :: "(TxId \<Rightarrow> bool) \<Rightarrow> bool \<Rightarrow> StrongTransactionIsolator sys \<Rightarrow> bool" for readonly careful where
  st_init: "strong_reachable readonly careful
    \<lparr>s_iso = new_strong_isolator, s_fin = {}, s_calls = [], granted = {}, timed_out = {}\<rparr>"
| st_call: "strong_reachable readonly careful s \<Longrightarrow> strong_reachable readonly careful (s\<lparr>s_calls := Trying 0 # s_calls s\<rparr>)"
| st_attempt: "strong_reachable readonly careful s \<Longrightarrow> Trying depth \<in> set (s_calls s) \<Longrightarrow> (careful \<longrightarrow> disciplined otx s) \<Longrightarrow>
    strong_attempt readonly (s_fin s) otx req depth (s_iso s) = (v, isol) \<Longrightarrow>
    strong_reachable readonly careful (settle v depth isol (remove1 (Trying depth) (s_calls s)) s)"
| st_finish: "strong_reachable readonly careful s \<Longrightarrow> strong_reachable readonly careful (s\<lparr>s_fin := insert t (s_fin s)\<rparr>)"
| st_writer_done: "strong_reachable readonly careful s \<Longrightarrow> AwaitsWriter depth c \<in> set (s_calls s) \<Longrightarrow> c \<in> s_fin s \<Longrightarrow>
    strong_reachable readonly careful (s\<lparr>s_calls := Trying (depth + 1) # remove1 (AwaitsWriter depth c) (s_calls s)\<rparr>)"
| st_ctx_done: "strong_reachable readonly careful s \<Longrightarrow> AwaitsWriter depth c \<in> set (s_calls s) \<Longrightarrow>
    strong_reachable readonly careful (s\<lparr>s_calls := remove1 (AwaitsWriter depth c) (s_calls s)\<rparr>)"
| st_read: "strong_reachable readonly careful s \<Longrightarrow> AwaitsReaders t n i None \<in> set (s_calls s) \<Longrightarrow> i < n \<Longrightarrow> t \<notin> s_fin s \<Longrightarrow>
    strong_reachable readonly careful
      (s\<lparr>s_calls := AwaitsReaders t n i (Some (backing (readonlyTxs (s_iso s)) ! i)) # remove1 (AwaitsReaders t n i None) (s_calls s)\<rparr>)"
| st_reader_done: "strong_reachable readonly careful s \<Longrightarrow> AwaitsReaders t n i (Some r) \<in> set (s_calls s) \<Longrightarrow> r \<in> s_fin s \<Longrightarrow>
    strong_reachable readonly careful
      (s\<lparr>s_calls := AwaitsReaders t n (i + 1) None # remove1 (AwaitsReaders t n i (Some r)) (s_calls s)\<rparr>)"
| st_readers_done: "strong_reachable readonly careful s \<Longrightarrow> AwaitsReaders t n n None \<in> set (s_calls s) \<Longrightarrow>
    strong_reachable readonly careful (s\<lparr>s_calls := remove1 (AwaitsReaders t n n None) (s_calls s), granted := insert t (granted s)\<rparr>)"
| st_stale: "strong_reachable readonly careful s \<Longrightarrow> AwaitsReaders t n i x \<in> set (s_calls s) \<Longrightarrow> t \<in> s_fin s \<Longrightarrow>
    strong_reachable readonly careful (s\<lparr>s_calls := remove1 (AwaitsReaders t n i x) (s_calls s), granted := insert t (granted s)\<rparr>)"
| st_timeout: "strong_reachable readonly careful s \<Longrightarrow> AwaitsReaders t n i x \<in> set (s_calls s) \<Longrightarrow>
    strong_reachable readonly careful (s\<lparr>s_calls := remove1 (AwaitsReaders t n i x) (s_calls s), timed_out := insert t (timed_out s)\<rparr>)"

inductive lite_reachable :: "(TxId \<Rightarrow> bool) \<Rightarrow> LiteTransactionIsolator sys \<Rightarrow> bool" for readonly where
  li_init: "lite_reachable readonly \<lparr>s_iso = \<lparr>lite_currentWriteTx = None\<rparr>, s_fin = {}, s_calls = [], granted = {}, timed_out = {}\<rparr>"
| li_call: "lite_reachable readonly s \<Longrightarrow> lite_reachable readonly (s\<lparr>s_calls := Trying 0 # s_calls s\<rparr>)"
| li_attempt: "lite_reachable readonly s \<Longrightarrow> Trying depth \<in> set (s_calls s) \<Longrightarrow>
    lite_attempt readonly (s_fin s) otx req depth (s_iso s) = (v, isol) \<Longrightarrow>
    lite_reachable readonly (settle v depth isol (remove1 (Trying depth) (s_calls s)) s)"
| li_finish: "lite_reachable readonly s \<Longrightarrow> lite_reachable readonly (s\<lparr>s_fin := insert t (s_fin s)\<rparr>)"
| li_writer_done: "lite_reachable readonly s \<Longrightarrow> AwaitsWriter depth c \<in> set (s_calls s) \<Longrightarrow> c \<in> s_fin s \<Longrightarrow>
    lite_reachable readonly (s\<lparr>s_calls := Trying (depth + 1) # remove1 (AwaitsWriter depth c) (s_calls s)\<rparr>)"
| li_ctx_done: "lite_reachable readonly s \<Longrightarrow> AwaitsWriter depth c \<in> set (s_calls s) \<Longrightarrow>
    lite_reachable readonly (s\<lparr>s_calls := remove1 (AwaitsWriter depth c) (s_calls s)\<rparr>)"

section \<open>Removal of the finished transactions\<close>

lemma remove_cell_props:
  assumes "slice_wf s" and "i < slen s"
  shows "slice_wf (remove_cell i s)" and "elems (remove_cell i s) = take i (elems s) @ drop (i + 1) (elems s)"
    and "slen (remove_cell i s) = slen s - 1" and "length (backing (remove_cell i s)) = length (backing s)"
proof -
  have len: "length (elems s) = slen s" "slen s \<le> length (backing s)" using assms(1) by (simp_all add: slice_wf_def elems_def)
  let ?x = "go_copy_at (elems s) i (drop (i + 1) (elems s))"
  have x: "take (slen s - 1) ?x = take i (elems s) @ drop (i + 1) (elems s)" "length ?x = slen s"
    using len assms(2) by (simp_all add: go_copy_at_def go_copy_def)
  then show "slice_wf (remove_cell i s)" "elems (remove_cell i s) = take i (elems s) @ drop (i + 1) (elems s)"
    using assms len by (simp_all add: remove_cell_def)
  show "slen (remove_cell i s) = slen s - 1" "length (backing (remove_cell i s)) = length (backing s)"
    using x len by (simp_all add: remove_cell_def set_elems_def)
qed

lemma remove_done_props:
  assumes "slice_wf s" and "i \<le> slen s"
  shows "slice_wf (remove_done fin i s) \<and> length (backing (remove_done fin i s)) = length (backing s) \<and>
         slen (remove_done fin i s) \<le> slen s \<and>
         elems (remove_done fin i s) = take i (elems s) @ filter (\<lambda>r. r \<notin> fin) (drop i (elems s))"
  using assms
proof (induction fin i s rule: remove_done.induct)
  case (1 fin i s)
  have len: "length (elems s) = slen s" using "1.prems"(1) by simp
  show ?case
  proof (cases "i < slen s")
    case True
    have d: "drop i (elems s) = elems s ! i # drop (i + 1) (elems s)" using True len by (simp add: Cons_nth_drop_Suc)
    show ?thesis
    proof (cases "elems s ! i \<in> fin")
      case fin: True
      note c = remove_cell_props[OF "1.prems"(1) True]
      have "remove_done fin i s = remove_done fin i (remove_cell i s)"
        using True fin by (simp add: remove_done.simps[of fin i s])
      moreover have "i \<le> slen (remove_cell i s)" using c(3) True by simp
      ultimately show ?thesis
        using "1.IH"(1)[OF True fin c(1)] c True d fin len by auto
    next
      case False
      have "remove_done fin i s = remove_done fin (i + 1) s"
        using True False by (simp add: remove_done.simps[of fin i s])
      then show ?thesis
        using "1.IH"(2)[OF True False "1.prems"(1)] True d False len by (simp add: take_Suc_conv_app_nth)
    qed
  qed (use "1.prems" len in \<open>simp add: remove_done.simps\<close>)
qed

lemma removeFinishedTxs_writer [simp]: "currentWriteTx (removeFinishedTxs fin isol) = clear_finished fin (currentWriteTx isol)"
  by (simp add: removeFinishedTxs_def)

lemma removeFinishedTxs_readers:
  assumes "slice_wf (readonlyTxs isol)"
  shows "slice_wf (readonlyTxs (removeFinishedTxs fin isol))"
    and "elems (readonlyTxs (removeFinishedTxs fin isol)) = filter (\<lambda>r. r \<notin> fin) (elems (readonlyTxs isol))"
    and "length (backing (readonlyTxs (removeFinishedTxs fin isol))) = length (backing (readonlyTxs isol))"
    and "slen (readonlyTxs (removeFinishedTxs fin isol)) \<le> slen (readonlyTxs isol)"
  using remove_done_props[OF assms, of 0 fin] by (simp_all add: removeFinishedTxs_def)

lemma remove_done_none [simp]: "remove_done {} i s = s"
proof (induction "{} :: TxId set" i s rule: remove_done.induct)
  case (1 i s)
  then show ?case by (subst remove_done.simps) simp
qed

lemma remove_done_nil [simp]: "remove_done fin i nil_slice = nil_slice"
  by (simp add: remove_done.simps nil_slice_def)

lemma removeFinishedTxs_nil [simp]:
  "removeFinishedTxs fin \<lparr>currentWriteTx = c, readonlyTxs = nil_slice\<rparr> = \<lparr>currentWriteTx = clear_finished fin c, readonlyTxs = nil_slice\<rparr>"
  by (simp add: removeFinishedTxs_def)

section \<open>What a waiting call still sees\<close>

text \<open>
  Every unfinished transaction of the list is in a cell that the call has yet to read. A removal may move a transaction to a cell that
  the call has already read, unless the list has at most two elements.
\<close>

definition covers :: "TxId set \<Rightarrow> nat \<Rightarrow> nat \<Rightarrow> TxId slice \<Rightarrow> bool" where
  "covers fin i n s \<longleftrightarrow> (\<forall>r \<in> set (elems s). r \<in> fin \<or> (\<exists>j. i \<le> j \<and> j < n \<and> backing s ! j = r))"

lemma remove_cell_covers:
  assumes "slice_wf s" and "k < slen s" and "slen s \<le> 2" and "elems s ! k \<in> fin" and "covers fin i n s"
  shows "covers fin i n (remove_cell k s)"
proof -
  consider a where "elems s = [a]" "slen s = 1" | a b where "elems s = [a, b]" "slen s = 2"
  proof -
    have "length (elems s) = 1 \<or> length (elems s) = 2" using assms(1-3) by auto
    then show thesis using that assms(1) by (auto simp: length_Suc_conv numeral_2_eq_2 simp flip: length_elems)
  qed
  then show ?thesis
  proof cases
    case (1 a)
    then show ?thesis using remove_cell_props(2)[OF assms(1,2)] assms(2) by (simp add: covers_def)
  next
    case (2 a b)
    obtain rest where cells: "backing s = a # b # rest"
      using 2 append_take_drop_id[of 2 "backing s"] by (metis append_Cons append_Nil elems_def)
    have "k = 0 \<or> k = 1" using assms(2) 2 by auto
    then show ?thesis
    proof
      assume k: "k = 0"
      have r: "backing (remove_cell k s) = b # b # rest"
        using 2 cells k by (simp add: remove_cell_def set_elems_def go_copy_at_def go_copy_def)
      have "elems (remove_cell k s) = [b]" using remove_cell_props(2)[OF assms(1,2)] 2 k by simp
      moreover have "(b # b # rest) ! j = b" if "(a # b # rest) ! j = b" for j
        using that by (cases j) auto
      ultimately show ?thesis using assms(5) 2 unfolding covers_def r cells by auto
    next
      assume k: "k = 1"
      have r: "backing (remove_cell k s) = a # b # rest"
        using 2 cells k by (simp add: remove_cell_def set_elems_def go_copy_at_def go_copy_def)
      have "elems (remove_cell k s) = [a]" using remove_cell_props(2)[OF assms(1,2)] 2 k by simp
      then show ?thesis using assms(5) 2 unfolding covers_def r cells by auto
    qed
  qed
qed

lemma remove_done_covers:
  assumes "slice_wf s" and "slen s \<le> 2" and "fin \<subseteq> F" and "covers F i n s"
  shows "covers F i n (remove_done fin k s)"
  using assms
proof (induction fin k s rule: remove_done.induct)
  case (1 fin k s)
  show ?case
  proof (cases "k < slen s")
    case True
    note c = remove_cell_props[OF "1.prems"(1) True]
    show ?thesis
    proof (cases "elems s ! k \<in> fin")
      case fin: True
      have "covers F i n (remove_cell k s)" using remove_cell_covers[OF "1.prems"(1) True "1.prems"(2) _ "1.prems"(4)] fin "1.prems"(3) by blast
      then show ?thesis
        using "1.IH"(1)[OF True fin c(1)] c(3) "1.prems"(2,3) True fin by (simp add: remove_done.simps[of fin k s])
    next
      case False
      then show ?thesis using "1.IH"(2)[OF True False "1.prems"] True by (simp add: remove_done.simps[of fin k s])
    qed
  qed (use "1.prems" in \<open>simp add: remove_done.simps\<close>)
qed

text \<open>The cells that a call in a given position still has to wait for, and the transactions it need not wait for.\<close>

definition waits :: "TxId set \<Rightarrow> nat \<Rightarrow> nat \<Rightarrow> TxId option \<Rightarrow> TxId slice \<Rightarrow> bool" where
  "waits fin n i x s \<longleftrightarrow> slen s \<le> n \<and>
     (case x of None \<Rightarrow> covers fin i n s | Some r \<Rightarrow> covers (insert r fin) (i + 1) n s)"

lemma waits_remove:
  assumes "slice_wf s" and "n \<le> 2" and "waits fin n i x s"
  shows "waits fin n i x (remove_done fin 0 s)"
proof -
  have "slen (remove_done fin 0 s) \<le> slen s" "slen s \<le> 2"
    using assms remove_done_props[OF assms(1), of 0 fin] by (auto simp: waits_def)
  then show ?thesis
    using assms(3) remove_done_covers[OF assms(1) _ subset_refl] remove_done_covers[OF assms(1) _ subset_insertI]
    by (auto simp: waits_def split: option.splits)
qed

lemma waits_read: "waits fin n i None s \<Longrightarrow> waits fin n i (Some (backing s ! i)) s"
  unfolding waits_def covers_def option.case by (metis Suc_eq_plus1 insertCI le_antisym not_less_eq_eq)

lemma waits_done: "r \<in> fin \<Longrightarrow> waits fin n i (Some r) s \<Longrightarrow> waits fin n (i + 1) None s"
  by (simp add: waits_def insert_absorb)

lemma waits_finish: "waits fin n i x s \<Longrightarrow> waits (insert f fin) n i x s"
  by (auto simp: waits_def covers_def split: option.splits)

lemma waits_end: "waits fin n n None s \<Longrightarrow> set (elems s) \<subseteq> fin"
  by (auto simp: waits_def covers_def)

lemma waits_start: "slice_wf s \<Longrightarrow> waits fin (slen s) 0 None s"
  by (simp add: waits_def covers_def elems_def slice_wf_def) (metis in_set_conv_nth length_take min.absorb2 nth_take)

section \<open>The invariant of the strong isolator\<close>

definition strong_inv :: "(TxId \<Rightarrow> bool) \<Rightarrow> bool \<Rightarrow> StrongTransactionIsolator sys \<Rightarrow> bool" where
  "strong_inv readonly careful s \<longleftrightarrow>
     slice_wf (readonlyTxs (s_iso s)) \<and>
     (\<forall>t \<in> granted s. \<not> readonly t \<longrightarrow> t \<notin> s_fin s \<longrightarrow> currentWriteTx (s_iso s) = Some t) \<and>
     (\<forall>r \<in> granted s. readonly r \<longrightarrow> r \<notin> s_fin s \<longrightarrow> r \<in> set (elems (readonlyTxs (s_iso s)))) \<and>
     (\<forall>t n i x. AwaitsReaders t n i x \<in> set (s_calls s) \<longrightarrow> \<not> readonly t \<and>
        (t \<notin> s_fin s \<longrightarrow> currentWriteTx (s_iso s) = Some t \<and> (careful \<longrightarrow> waits (s_fin s) n i x (readonlyTxs (s_iso s))))) \<and>
     (careful \<longrightarrow> (\<forall>t \<in> granted s. \<not> readonly t \<longrightarrow> t \<notin> s_fin s \<longrightarrow> set (elems (readonlyTxs (s_iso s))) \<subseteq> s_fin s)) \<and>
     (\<forall>t. currentWriteTx (s_iso s) = Some t \<longrightarrow> \<not> readonly t \<and>
        (t \<notin> s_fin s \<longrightarrow> t \<in> granted s \<or> t \<in> timed_out s \<or> (\<exists>n i x. AwaitsReaders t n i x \<in> set (s_calls s))))"

lemma strong_invD:
  assumes "strong_inv readonly careful s"
  shows "t \<in> granted s \<Longrightarrow> \<not> readonly t \<Longrightarrow> t \<notin> s_fin s \<Longrightarrow> currentWriteTx (s_iso s) = Some t"
    and "t \<in> granted s \<Longrightarrow> readonly t \<Longrightarrow> t \<notin> s_fin s \<Longrightarrow> t \<in> set (elems (readonlyTxs (s_iso s)))"
    and "AwaitsReaders t n i x \<in> set (s_calls s) \<Longrightarrow> \<not> readonly t"
    and "AwaitsReaders t n i x \<in> set (s_calls s) \<Longrightarrow> t \<notin> s_fin s \<Longrightarrow>
         currentWriteTx (s_iso s) = Some t \<and> (careful \<longrightarrow> waits (s_fin s) n i x (readonlyTxs (s_iso s)))"
    and "careful \<Longrightarrow> t \<in> granted s \<Longrightarrow> \<not> readonly t \<Longrightarrow> t \<notin> s_fin s \<Longrightarrow> set (elems (readonlyTxs (s_iso s))) \<subseteq> s_fin s"
    and "currentWriteTx (s_iso s) = Some t \<Longrightarrow> \<not> readonly t"
    and "currentWriteTx (s_iso s) = Some t \<Longrightarrow> t \<notin> s_fin s \<Longrightarrow>
         t \<in> granted s \<or> t \<in> timed_out s \<or> (\<exists>n i x. AwaitsReaders t n i x \<in> set (s_calls s))"
    and "slice_wf (readonlyTxs (s_iso s))"
  using assms unfolding strong_inv_def by blast+

lemma strong_invI:
  assumes "\<And>t. t \<in> granted s \<Longrightarrow> \<not> readonly t \<Longrightarrow> t \<notin> s_fin s \<Longrightarrow> currentWriteTx (s_iso s) = Some t"
    and "\<And>t. t \<in> granted s \<Longrightarrow> readonly t \<Longrightarrow> t \<notin> s_fin s \<Longrightarrow> t \<in> set (elems (readonlyTxs (s_iso s)))"
    and "\<And>t n i x. AwaitsReaders t n i x \<in> set (s_calls s) \<Longrightarrow> \<not> readonly t"
    and "\<And>t n i x. AwaitsReaders t n i x \<in> set (s_calls s) \<Longrightarrow> t \<notin> s_fin s \<Longrightarrow>
         currentWriteTx (s_iso s) = Some t \<and> (careful \<longrightarrow> waits (s_fin s) n i x (readonlyTxs (s_iso s)))"
    and "\<And>t. careful \<Longrightarrow> t \<in> granted s \<Longrightarrow> \<not> readonly t \<Longrightarrow> t \<notin> s_fin s \<Longrightarrow> set (elems (readonlyTxs (s_iso s))) \<subseteq> s_fin s"
    and "\<And>t. currentWriteTx (s_iso s) = Some t \<Longrightarrow> \<not> readonly t"
    and "\<And>t. currentWriteTx (s_iso s) = Some t \<Longrightarrow> t \<notin> s_fin s \<Longrightarrow>
         t \<in> granted s \<or> t \<in> timed_out s \<or> (\<exists>n i x. AwaitsReaders t n i x \<in> set (s_calls s))"
    and "slice_wf (readonlyTxs (s_iso s))"
  shows "strong_inv readonly careful s"
  unfolding strong_inv_def using assms by blast

lemma clear_finished_iff: "clear_finished fin cur = Some c \<longleftrightarrow> cur = Some c \<and> c \<notin> fin"
  by (auto simp: clear_finished_def split: option.splits)

text \<open>Dropping the finished transactions keeps the invariant, and so does any change of the calls that wait for no reader.\<close>

lemma strong_inv_cleanup:
  assumes I: "strong_inv readonly careful s"
    and few: "\<And>t n i x. careful \<Longrightarrow> AwaitsReaders t n i x \<in> set (s_calls s) \<Longrightarrow> t \<notin> s_fin s \<Longrightarrow> n \<le> 2"
  shows "strong_inv readonly careful (s\<lparr>s_iso := removeFinishedTxs (s_fin s) (s_iso s)\<rparr>)"
proof -
  note D = strong_invD[OF I] and R = removeFinishedTxs_readers[OF strong_invD(8)[OF I], of "s_fin s"]
  show ?thesis
  proof (rule strong_invI, goal_cases)
    case (1 t) then show ?case using D(1)[of t] by (simp add: clear_finished_iff)
  next
    case (2 t) then show ?case using D(2)[of t] R(2) by simp
  next
    case (3 t n i x) then show ?case using D(3)[of t n i x] by simp
  next
    case (4 t n i x)
    then have "careful \<longrightarrow> waits (s_fin s) n i x (readonlyTxs (removeFinishedTxs (s_fin s) (s_iso s)))"
      using D(4)[of t n i x] few[of t n i x] waits_remove[OF D(8), of n "s_fin s" i x] by (simp add: removeFinishedTxs_def)
    then show ?case using 4 D(4)[of t n i x] by (simp add: clear_finished_iff)
  next
    case (5 t) then show ?case using D(5)[of t] R(2) by auto
  next
    case (6 t) then show ?case using D(6)[of t] by (simp add: clear_finished_iff)
  next
    case (7 t) then show ?case using D(7)[of t] by (simp add: clear_finished_iff)
  next
    case 8 then show ?case using R(1) by simp
  qed
qed

lemma strong_inv_calls:
  assumes "strong_inv readonly careful s"
    and "\<And>t n i x. AwaitsReaders t n i x \<in> set calls \<longleftrightarrow> AwaitsReaders t n i x \<in> set (s_calls s)"
  shows "strong_inv readonly careful (s\<lparr>s_calls := calls\<rparr>)"
proof -
  have "strong_inv readonly careful (s\<lparr>s_calls := calls\<rparr>) \<longleftrightarrow> strong_inv readonly careful s"
    unfolding strong_inv_def by (simp add: assms(2))
  then show ?thesis using assms(1) by blast
qed

text \<open>A call that waits for readers is replaced by the same call in a later position.\<close>

lemma strong_inv_advance:
  assumes I: "strong_inv readonly careful s" and m: "AwaitsReaders t n i x \<in> set (s_calls s)"
    and w: "\<And>s'. s' = readonlyTxs (s_iso s) \<Longrightarrow> t \<notin> s_fin s \<Longrightarrow> waits (s_fin s) n i x s' \<Longrightarrow> waits (s_fin s) n i' x' s'"
  shows "strong_inv readonly careful (s\<lparr>s_calls := AwaitsReaders t n i' x' # remove1 (AwaitsReaders t n i x) (s_calls s)\<rparr>)"
proof -
  note D = strong_invD[OF I]
  let ?calls = "AwaitsReaders t n i' x' # remove1 (AwaitsReaders t n i x) (s_calls s)"
  have calls: "u = t \<and> k = n \<and> j = i' \<and> y = x' \<or> AwaitsReaders u k j y \<in> set (s_calls s)"
    if "AwaitsReaders u k j y \<in> set ?calls" for u k j y
    using that by (auto dest: notin_set_remove1)
  have stays: "\<exists>n i x. AwaitsReaders u n i x \<in> set ?calls" if "AwaitsReaders u k j y \<in> set (s_calls s)" for u k j y
    using that by (cases "u = t") (force simp: in_set_remove1)+
  show ?thesis
  proof (rule strong_invI, goal_cases)
    case (1 u) then show ?case using D(1)[of u] by simp
  next
    case (2 u) then show ?case using D(2)[of u] by simp
  next
    case (3 u k j y)
    then have "AwaitsReaders u k j y \<in> set ?calls" by simp
    then show ?case using calls[of u k j y] D(3)[of u k j y] D(3)[OF m] by blast
  next
    case (4 u k j y)
    then have "AwaitsReaders u k j y \<in> set ?calls" "u \<notin> s_fin s" by simp_all
    then show ?case using calls[of u k j y] D(4)[of u k j y] D(4)[OF m] w[OF refl] by auto
  next
    case (5 u) then show ?case using D(5)[of u] by simp
  next
    case (6 u) then show ?case using D(6)[of u] by simp
  next
    case (7 u)
    then have "u \<in> granted s \<or> u \<in> timed_out s \<or> (\<exists>n i x. AwaitsReaders u n i x \<in> set (s_calls s))" using D(7)[of u] by simp
    then show ?case using stays by simp blast
  next
    case 8 then show ?case using D(8) by simp
  qed
qed

lemma strong_inv_finish:
  assumes "strong_inv readonly careful s"
  shows "strong_inv readonly careful (s\<lparr>s_fin := insert f (s_fin s)\<rparr>)"
proof (rule strong_invI, goal_cases)
  case (1 t) then show ?case using strong_invD(1)[OF assms, of t] by simp
next
  case (2 t) then show ?case using strong_invD(2)[OF assms, of t] by simp
next
  case (3 t n i x) then show ?case using strong_invD(3)[OF assms, of t n i x] by simp
next
  case (4 t n i x) then show ?case using strong_invD(4)[OF assms, of t n i x] by (simp add: waits_finish)
next
  case (5 t) then show ?case using strong_invD(5)[OF assms _, of t] by auto
next
  case (6 t) then show ?case using strong_invD(6)[OF assms, of t] by simp
next
  case (7 t) then show ?case using strong_invD(7)[OF assms, of t] by simp
next
  case 8 then show ?case using strong_invD(8)[OF assms] by simp
qed

lemma readers_remove1:
  "c \<noteq> AwaitsReaders t n i x \<Longrightarrow> AwaitsReaders t n i x \<in> set (remove1 c calls) \<longleftrightarrow> AwaitsReaders t n i x \<in> set calls"
  by (simp add: in_set_remove1)

text \<open>One pass, on a state from which the finished transactions have been dropped.\<close>

lemma no_writer_facts:
  assumes "strong_inv readonly careful s" "currentWriteTx (s_iso s) = None"
  shows "t \<in> granted s \<Longrightarrow> \<not> readonly t \<Longrightarrow> t \<in> s_fin s" and "AwaitsReaders t n i x \<in> set (s_calls s) \<Longrightarrow> t \<in> s_fin s"
  using strong_invD(1,4)[OF assms(1)] assms(2) by fastforce+

lemma grant_reader:
  assumes I: "strong_inv readonly careful s" and no: "currentWriteTx (s_iso s) = None" and t: "readonly t"
    and rs: "set (elems rs') = insert t (set (elems (readonlyTxs (s_iso s))))" "slice_wf rs'"
  shows "strong_inv readonly careful (s\<lparr>s_iso := (s_iso s)\<lparr>readonlyTxs := rs'\<rparr>, granted := insert t (granted s)\<rparr>)"
proof (rule strong_invI)
  note F = no_writer_facts[OF I no]
  fix u n i x
  let ?s = "s\<lparr>s_iso := (s_iso s)\<lparr>readonlyTxs := rs'\<rparr>, granted := insert t (granted s)\<rparr>"
  show "u \<in> granted ?s \<Longrightarrow> \<not> readonly u \<Longrightarrow> u \<notin> s_fin ?s \<Longrightarrow> currentWriteTx (s_iso ?s) = Some u" using F(1)[of u] t by auto
  show "u \<in> granted ?s \<Longrightarrow> readonly u \<Longrightarrow> u \<notin> s_fin ?s \<Longrightarrow> u \<in> set (elems (readonlyTxs (s_iso ?s)))"
    using strong_invD(2)[OF I, of u] rs(1) by auto
  show "AwaitsReaders u n i x \<in> set (s_calls ?s) \<Longrightarrow> \<not> readonly u" using strong_invD(3)[OF I, of u n i x] by simp
qed (use no_writer_facts[OF I no] no t rs(2) in auto)

lemma become_writer:
  assumes I: "strong_inv readonly careful s" and no: "currentWriteTx (s_iso s) = None" and t: "\<not> readonly t"
    and rs: "set (elems (readonlyTxs (s_iso s))) \<subseteq> s_fin s"
  shows "strong_inv readonly careful (s\<lparr>s_iso := (s_iso s)\<lparr>currentWriteTx := Some t\<rparr>, granted := insert t (granted s)\<rparr>)"
proof (rule strong_invI)
  note F = no_writer_facts[OF I no]
  fix u n i x
  let ?s = "s\<lparr>s_iso := (s_iso s)\<lparr>currentWriteTx := Some t\<rparr>, granted := insert t (granted s)\<rparr>"
  show "u \<in> granted ?s \<Longrightarrow> \<not> readonly u \<Longrightarrow> u \<notin> s_fin ?s \<Longrightarrow> currentWriteTx (s_iso ?s) = Some u" using F(1)[of u] by auto
  show "u \<in> granted ?s \<Longrightarrow> readonly u \<Longrightarrow> u \<notin> s_fin ?s \<Longrightarrow> u \<in> set (elems (readonlyTxs (s_iso ?s)))" using strong_invD(2)[OF I, of u] t by auto
  show "AwaitsReaders u n i x \<in> set (s_calls ?s) \<Longrightarrow> \<not> readonly u" using strong_invD(3)[OF I, of u n i x] by simp
qed (use no_writer_facts(2)[OF I no] t rs strong_invD(8)[OF I] in auto)

lemma await_readers:
  assumes I: "strong_inv readonly careful s" and no: "currentWriteTx (s_iso s) = None" and t: "\<not> readonly t"
  shows "strong_inv readonly careful
    (s\<lparr>s_iso := (s_iso s)\<lparr>currentWriteTx := Some t\<rparr>,
       s_calls := AwaitsReaders t (slen (readonlyTxs (s_iso s))) 0 None # s_calls s\<rparr>)"
proof (rule strong_invI)
  note F = no_writer_facts[OF I no]
  fix u n i x
  let ?s = "s\<lparr>s_iso := (s_iso s)\<lparr>currentWriteTx := Some t\<rparr>,
       s_calls := AwaitsReaders t (slen (readonlyTxs (s_iso s))) 0 None # s_calls s\<rparr>"
  show "u \<in> granted ?s \<Longrightarrow> \<not> readonly u \<Longrightarrow> u \<notin> s_fin ?s \<Longrightarrow> currentWriteTx (s_iso ?s) = Some u" using F(1)[of u] by simp
  show "u \<in> granted ?s \<Longrightarrow> readonly u \<Longrightarrow> u \<notin> s_fin ?s \<Longrightarrow> u \<in> set (elems (readonlyTxs (s_iso ?s)))" using strong_invD(2)[OF I, of u] by simp
  show "AwaitsReaders u n i x \<in> set (s_calls ?s) \<Longrightarrow> \<not> readonly u" using strong_invD(3)[OF I, of u n i x] t by auto
  show "AwaitsReaders u n i x \<in> set (s_calls ?s) \<Longrightarrow> u \<notin> s_fin ?s \<Longrightarrow>
      currentWriteTx (s_iso ?s) = Some u \<and> (careful \<longrightarrow> waits (s_fin ?s) n i x (readonlyTxs (s_iso ?s)))"
    using F(2)[of u n i x] waits_start[OF strong_invD(8)[OF I], of "s_fin s"] by auto
  show "careful \<Longrightarrow> u \<in> granted ?s \<Longrightarrow> \<not> readonly u \<Longrightarrow> u \<notin> s_fin ?s \<Longrightarrow> set (elems (readonlyTxs (s_iso ?s))) \<subseteq> s_fin ?s" using F(1)[of u] by simp
qed (use t strong_invD(8)[OF I] in auto)

lemma disciplined_fewer_calls:
  assumes "set (s_calls s') \<subseteq> set (s_calls s)" and "s_fin s' = s_fin s" and "timed_out s' = timed_out s" and "disciplined otx s"
  shows "disciplined otx s'"
  using assms(1,4) unfolding disciplined_def assms(2,3) list_all_iff by (cases otx) (simp; blast)+

lemma writer_again:
  assumes I: "strong_inv readonly careful s" and c: "currentWriteTx (s_iso s) = Some c" "c \<notin> s_fin s"
    and "careful \<longrightarrow> disciplined (Some c) s"
  shows "strong_inv readonly careful (s\<lparr>granted := insert c (granted s)\<rparr>)"
proof -
  have "c \<in> granted s" if careful
    using strong_invD(7)[OF I c] assms(4) that by (force simp: disciplined_def list_all_iff)
  then have "set (elems (readonlyTxs (s_iso s))) \<subseteq> s_fin s" if careful
    using strong_invD(5,6)[OF I] c that by blast
  then show ?thesis using I c strong_invD(6)[OF I c(1)] unfolding strong_inv_def by auto
qed

lemma attempt_inv:
  assumes I: "strong_inv readonly careful s" and "careful \<longrightarrow> disciplined otx s"
    and a: "strong_attempt readonly (s_fin s) otx req depth (s_iso s) = (v, isol)"
  shows "strong_inv readonly careful (settle v depth isol (remove1 (Trying depth) (s_calls s)) s)"
proof -
  let ?calls = "remove1 (Trying depth) (s_calls s)"
  define s1 where "s1 = s\<lparr>s_calls := ?calls\<rparr>"
  define s2 where "s2 = s1\<lparr>s_iso := removeFinishedTxs (s_fin s1) (s_iso s1)\<rparr>"
  have I1: "strong_inv readonly careful s1" unfolding s1_def by (rule strong_inv_calls[OF I]) (simp add: readers_remove1)
  have I2: "strong_inv readonly careful s2"
    unfolding s2_def
  proof (rule strong_inv_cleanup[OF I1])
    fix t n i x
    assume "careful" "AwaitsReaders t n i x \<in> set (s_calls s1)" "t \<notin> s_fin s1"
    then show "n \<le> 2" using assms(2) by (force simp: s1_def disciplined_def list_all_iff readers_remove1)
  qed
  have eqs: "removeFinishedTxs (s_fin s) (s_iso s) = s_iso s2" "s_fin s2 = s_fin s" "s_calls s2 = ?calls" "granted s2 = granted s"
    "s\<lparr>s_iso := s_iso s2, s_calls := ?calls\<rparr> = s2" "s\<lparr>s_iso := s_iso s, s_calls := ?calls\<rparr> = s1"
    by (simp_all add: s2_def s1_def)
  have one: "careful \<longrightarrow> disciplined otx s2"
    using assms(2) disciplined_fewer_calls[of s2 s otx] set_remove1_subset[of "Trying depth" "s_calls s"] by (simp add: s2_def s1_def)
  define cur where "cur = currentWriteTx (s_iso s2)"
  note C = cur_def[symmetric]
  consider (early) "depth \<ge> MAX_SUBSEQUENT_WAIT_WRITE_TX_COUNT \<or> req \<and> not_running (s_fin s) otx"
    | (idle) "\<not> (depth \<ge> MAX_SUBSEQUENT_WAIT_WRITE_TX_COUNT \<or> req \<and> not_running (s_fin s) otx)" "cur = None" "not_running (s_fin s) otx"
    | (reader) t where "\<not> (depth \<ge> MAX_SUBSEQUENT_WAIT_WRITE_TX_COUNT \<or> req \<and> not_running (s_fin s) otx)" "cur = None"
        "otx = Some t" "t \<notin> s_fin s" "readonly t"
    | (writer) t where "\<not> (depth \<ge> MAX_SUBSEQUENT_WAIT_WRITE_TX_COUNT \<or> req \<and> not_running (s_fin s) otx)" "cur = None"
        "otx = Some t" "t \<notin> s_fin s" "\<not> readonly t"
    | (busy) c where "\<not> (depth \<ge> MAX_SUBSEQUENT_WAIT_WRITE_TX_COUNT \<or> req \<and> not_running (s_fin s) otx)" "cur = Some c"
    by (cases cur; cases otx) (auto simp: not_running_def)
  then show ?thesis
  proof cases
    case early
    then have "v = ReturnsError ErrTooManyWriteTxsWaited \<or> v = RunningTransactionExpected" "isol = s_iso s"
      using a unfolding strong_attempt_def by (simp_all split: if_splits)
    then have "settle v depth isol ?calls s = s1" by (auto simp: settle_def s1_def)
    then show ?thesis using I1 by simp
  next
    case idle
    then have "v = Returns None" "isol = s_iso s2"
      using a unfolding strong_attempt_def eqs(1) Let_def C by (cases req; cases otx; simp add: not_running_def)+
    then show ?thesis using I2 eqs(5) by (simp add: settle_def)
  next
    case (reader t)
    let ?rs = "if t \<in> set (elems (readonlyTxs (s_iso s2))) then readonlyTxs (s_iso s2) else append_reader t (readonlyTxs (s_iso s2))"
    have "v = Returns (Some t)" "isol = (s_iso s2)\<lparr>readonlyTxs := ?rs\<rparr>"
      using a reader unfolding strong_attempt_def eqs(1) Let_def C by (cases req; simp)+
    then have "settle v depth isol ?calls s = s2\<lparr>s_iso := (s_iso s2)\<lparr>readonlyTxs := ?rs\<rparr>, granted := insert t (granted s2)\<rparr>"
      by (simp add: settle_def s2_def s1_def)
    moreover have "set (elems ?rs) = insert t (set (elems (readonlyTxs (s_iso s2))))" "slice_wf ?rs"
      using strong_invD(8)[OF I2] by (auto simp: append_reader_def)
    ultimately show ?thesis using grant_reader[OF I2, of t ?rs] reader(2,5) C by simp
  next
    case (writer t)
    show ?thesis
    proof (cases "list_ex (\<lambda>r. r \<notin> s_fin s) (elems (readonlyTxs (s_iso s2)))")
      case True
      then have "v = WaitForReaders t (slen (readonlyTxs (s_iso s2)))" "isol = (s_iso s2)\<lparr>currentWriteTx := Some t\<rparr>"
        using a writer unfolding strong_attempt_def eqs(1) Let_def C by (cases req; simp)+
      then have "settle v depth isol ?calls s =
          s2\<lparr>s_iso := (s_iso s2)\<lparr>currentWriteTx := Some t\<rparr>, s_calls := AwaitsReaders t (slen (readonlyTxs (s_iso s2))) 0 None # s_calls s2\<rparr>"
        by (simp add: settle_def s2_def s1_def)
      then show ?thesis using await_readers[OF I2, of t] writer(2,5) C by simp
    next
      case False
      then have "v = Returns (Some t)" "isol = (s_iso s2)\<lparr>currentWriteTx := Some t\<rparr>"
        using a writer unfolding strong_attempt_def eqs(1) Let_def C by (cases req; simp)+
      then have "settle v depth isol ?calls s = s2\<lparr>s_iso := (s_iso s2)\<lparr>currentWriteTx := Some t\<rparr>, granted := insert t (granted s2)\<rparr>"
        by (simp add: settle_def s2_def s1_def)
      moreover have "set (elems (readonlyTxs (s_iso s2))) \<subseteq> s_fin s2" using False by (auto simp: list_ex_iff eqs(2))
      ultimately show ?thesis using become_writer[OF I2, of t] writer(2,5) C by simp
    qed
  next
    case (busy c)
    show ?thesis
    proof (cases "otx = Some c")
      case True
      then have "v = Returns (Some c)" "isol = s_iso s2"
        using a busy unfolding strong_attempt_def eqs(1) Let_def C by (cases req; simp)+
      then have "settle v depth isol ?calls s = s2\<lparr>granted := insert c (granted s2)\<rparr>"
        by (simp add: settle_def s2_def s1_def)
      moreover have "c \<notin> s_fin s2" using busy(2) unfolding cur_def by (simp add: s2_def s1_def clear_finished_iff)
      ultimately show ?thesis using writer_again[OF I2, of c] one True busy(2) C by simp
    next
      case False
      then have "v = WaitForWriter c" "isol = s_iso s2"
        using a busy unfolding strong_attempt_def eqs(1) Let_def C by (cases req; simp)+
      then have "settle v depth isol ?calls s = s2\<lparr>s_calls := AwaitsWriter depth c # s_calls s2\<rparr>"
        by (simp add: settle_def s2_def s1_def)
      then show ?thesis using strong_inv_calls[OF I2, of "AwaitsWriter depth c # s_calls s2"] by simp
    qed
  qed
qed

lemma strong_inv_leave:
  assumes I: "strong_inv readonly careful s" and m: "AwaitsReaders t n i x \<in> set (s_calls s)"
  defines "calls \<equiv> remove1 (AwaitsReaders t n i x) (s_calls s)"
  shows "(t \<notin> s_fin s \<Longrightarrow> i = n \<and> x = None) \<Longrightarrow> strong_inv readonly careful (s\<lparr>s_calls := calls, granted := insert t (granted s)\<rparr>)"
    and "strong_inv readonly careful (s\<lparr>s_calls := calls, timed_out := insert t (timed_out s)\<rparr>)"
proof -
  note D = strong_invD[OF I]
  have calls: "AwaitsReaders u k j y \<in> set calls \<Longrightarrow> AwaitsReaders u k j y \<in> set (s_calls s)"
    "u \<noteq> t \<Longrightarrow> AwaitsReaders u k j y \<in> set (s_calls s) \<Longrightarrow> AwaitsReaders u k j y \<in> set calls" for u k j y
    unfolding calls_def by (meson notin_set_remove1) (simp add: in_set_remove1)
  show "strong_inv readonly careful (s\<lparr>s_calls := calls, timed_out := insert t (timed_out s)\<rparr>)"
  proof (rule strong_invI, goal_cases)
    case (1 u) then show ?case using D(1)[of u] by simp
  next
    case (2 u) then show ?case using D(2)[of u] by simp
  next
    case (3 u k j y) then show ?case using D(3)[of u k j y] calls(1) by simp
  next
    case (4 u k j y) then show ?case using D(4)[of u k j y] calls(1) by simp
  next
    case (5 u) then show ?case using D(5)[of u] by simp
  next
    case (6 u) then show ?case using D(6)[of u] by simp
  next
    case (7 u)
    then have "u \<in> granted s \<or> u \<in> timed_out s \<or> (\<exists>k j y. AwaitsReaders u k j y \<in> set (s_calls s))" using D(7)[of u] by simp
    then show ?case using calls(2) by (cases "u = t") (auto, blast)
  next
    case 8 then show ?case using D(8) by simp
  qed
  assume "t \<notin> s_fin s \<Longrightarrow> i = n \<and> x = None"
  then have all: "set (elems (readonlyTxs (s_iso s))) \<subseteq> s_fin s" if "t \<notin> s_fin s" careful
    using D(4)[OF m that(1)] that waits_end by auto
  show "strong_inv readonly careful (s\<lparr>s_calls := calls, granted := insert t (granted s)\<rparr>)"
  proof (rule strong_invI, goal_cases)
    case (1 u) then show ?case using D(1)[of u] D(4)[OF m] by (cases "u = t") simp_all
  next
    case (2 u) then show ?case using D(2)[of u] D(3)[OF m] by (cases "u = t") simp_all
  next
    case (3 u k j y) then show ?case using D(3)[of u k j y] calls(1) by simp
  next
    case (4 u k j y) then show ?case using D(4)[of u k j y] calls(1) by simp
  next
    case (5 u) then show ?case using D(5)[of u] all by (cases "u = t") simp_all
  next
    case (6 u) then show ?case using D(6)[of u] by simp
  next
    case (7 u)
    then have "u \<in> granted s \<or> u \<in> timed_out s \<or> (\<exists>k j y. AwaitsReaders u k j y \<in> set (s_calls s))" using D(7)[of u] by simp
    then show ?case using calls(2) by (cases "u = t") (auto, blast)
  next
    case 8 then show ?case using D(8) by simp
  qed
qed

lemma strong_reachable_inv: "strong_reachable readonly careful s \<Longrightarrow> strong_inv readonly careful s"
proof (induction rule: strong_reachable.induct)
  case st_init
  show ?case by (rule strong_invI) (simp_all add: new_strong_isolator_def)
next
  case (st_call s)
  show ?case by (rule strong_inv_calls[OF st_call.IH]) simp
next
  case (st_attempt s depth otx req v isol)
  show ?case by (rule attempt_inv[OF st_attempt.IH st_attempt.hyps(3,4)])
next
  case (st_finish s t)
  show ?case by (rule strong_inv_finish[OF st_finish.IH])
next
  case (st_writer_done s depth c)
  show ?case by (rule strong_inv_calls[OF st_writer_done.IH]) (simp add: readers_remove1)
next
  case (st_ctx_done s depth c)
  show ?case by (rule strong_inv_calls[OF st_ctx_done.IH]) (simp add: readers_remove1)
next
  case (st_read s t n i)
  show ?case by (rule strong_inv_advance[OF st_read.IH st_read.hyps(2)]) (simp add: waits_read)
next
  case (st_reader_done s t n i r)
  show ?case by (rule strong_inv_advance[OF st_reader_done.IH st_reader_done.hyps(2)]) (rule waits_done[OF st_reader_done.hyps(3)])
next
  case (st_readers_done s t n)
  show ?case by (rule strong_inv_leave(1)[OF st_readers_done.IH st_readers_done.hyps(2)]) simp
next
  case (st_stale s t n i x)
  show ?case by (rule strong_inv_leave(1)[OF st_stale.IH st_stale.hyps(2)]) (use st_stale.hyps(3) in simp)
next
  case (st_timeout s t n i x)
  show ?case by (rule strong_inv_leave(2)[OF st_timeout.IH st_timeout.hyps(2)])
qed

section \<open>The lite isolator\<close>

definition lite_inv :: "(TxId \<Rightarrow> bool) \<Rightarrow> LiteTransactionIsolator sys \<Rightarrow> bool" where
  "lite_inv readonly s \<longleftrightarrow>
     (\<forall>t \<in> granted s. \<not> readonly t \<longrightarrow> t \<notin> s_fin s \<longrightarrow> lite_currentWriteTx (s_iso s) = Some t)"

lemma lite_attempt_inv:
  assumes I: "lite_inv readonly s" and a: "lite_attempt readonly (s_fin s) otx req depth (s_iso s) = (v, isol)"
  shows "lite_inv readonly (settle v depth isol calls s)"
proof -
  define cur where "cur = clear_finished (s_fin s) (lite_currentWriteTx (s_iso s))"
  have cur: "cur = Some t" if "t \<in> granted s" "\<not> readonly t" "t \<notin> s_fin s" for t
    using I that unfolding lite_inv_def cur_def by (simp add: clear_finished_iff)
  have same: "lite_inv readonly (s\<lparr>s_iso := isol', s_calls := c'\<rparr>)" if "lite_currentWriteTx isol' = cur \<or> isol' = s_iso s" for isol' c'
    using that cur I unfolding lite_inv_def by auto
  have keep: "lite_inv readonly (s\<lparr>s_calls := c'\<rparr>)" for c' using I unfolding lite_inv_def by simp
  have grant: "lite_inv readonly (s\<lparr>s_iso := isol', s_calls := c', granted := insert t (granted s)\<rparr>)"
    if "lite_currentWriteTx isol' = cur" "readonly t \<or> cur = Some t" for isol' c' t
    using that cur unfolding lite_inv_def by auto
  have take: "lite_inv readonly (s\<lparr>s_iso := isol', s_calls := c', granted := insert t (granted s)\<rparr>)"
    if "cur = None" "lite_currentWriteTx isol' = Some t" for isol' c' t
    using that cur unfolding lite_inv_def by fastforce
  show ?thesis
    using a same grant take keep unfolding lite_attempt_def Let_def cur_def[symmetric]
    by (cases cur; cases otx) (auto simp: settle_def cur_def[symmetric] split: if_splits)
qed

lemma lite_reachable_inv: "lite_reachable readonly s \<Longrightarrow> lite_inv readonly s"
proof (induction rule: lite_reachable.induct)
  case (li_attempt s depth otx req v isol)
  show ?case by (rule lite_attempt_inv[OF li_attempt.IH li_attempt.hyps(3)])
qed (auto simp: lite_inv_def)

section \<open>Properties\<close>

text \<open>
  (C8) Two read-write transactions never hold the same isolator at the same time: however the calls interleave, and whatever
  timeouts happen, if calls of a StrongTransactionIsolator have returned two unfinished read-write transactions, they are the
  same one; the same holds for a LiteTransactionIsolator.
\<close>

theorem writers_exclusive:
  assumes "strong_reachable readonly careful s" and "lite_reachable readonly l"
  shows "(t \<in> granted s \<longrightarrow> u \<in> granted s \<longrightarrow> \<not> readonly t \<longrightarrow> \<not> readonly u \<longrightarrow> t \<notin> s_fin s \<longrightarrow> u \<notin> s_fin s \<longrightarrow> t = u) \<and>
    (t \<in> granted l \<longrightarrow> u \<in> granted l \<longrightarrow> \<not> readonly t \<longrightarrow> \<not> readonly u \<longrightarrow> t \<notin> s_fin l \<longrightarrow> u \<notin> s_fin l \<longrightarrow> t = u)"
proof -
  note D = strong_invD(1)[OF strong_reachable_inv[OF assms(1)]]
  have "t = u" if "t \<in> granted s" "u \<in> granted s" "\<not> readonly t" "\<not> readonly u" "t \<notin> s_fin s" "u \<notin> s_fin s"
    using D[of t] D[of u] that by simp
  moreover have "t = u" if "t \<in> granted l" "u \<in> granted l" "\<not> readonly t" "\<not> readonly u" "t \<notin> s_fin l" "u \<notin> s_fin l"
  proof -
    have "lite_currentWriteTx (s_iso l) = Some t" "lite_currentWriteTx (s_iso l) = Some u"
      using lite_reachable_inv[OF assms(2)] that unfolding lite_inv_def by blast+
    then show ?thesis by simp
  qed
  ultimately show ?thesis by blast
qed

text \<open>
  (C7) With a StrongTransactionIsolator, an unfinished read-write transaction to which a call has returned excludes every unfinished
  readonly transaction to which one has, under three hypotheses: a transaction makes one call at a time, it makes none after its
  wait for readonly transactions has timed out, and no call makes a pass while an unfinished read-write transaction waits for more
  than two readonly ones. The next two theorems show what happens without the last two.
\<close>

theorem strong_isolation:
  assumes "strong_reachable readonly True s" and "t \<in> granted s" and "\<not> readonly t" and "t \<notin> s_fin s"
    and "r \<in> granted s" and "readonly r"
  shows "r \<in> s_fin s"
proof (rule ccontr)
  assume "r \<notin> s_fin s"
  note I = strong_reachable_inv[OF assms(1)]
  have "r \<in> set (elems (readonlyTxs (s_iso s)))" using strong_invD(2)[OF I assms(5,6) \<open>r \<notin> s_fin s\<close>] .
  moreover have "set (elems (readonlyTxs (s_iso s))) \<subseteq> s_fin s" using strong_invD(5)[OF I _ assms(2-4)] by simp
  ultimately show False using \<open>r \<notin> s_fin s\<close> by blast
qed

text \<open>A state of the system, for the runs below.\<close>

definition iso_state :: "TxId option \<Rightarrow> TxId slice \<Rightarrow> TxId set \<Rightarrow> call list \<Rightarrow> TxId set \<Rightarrow> TxId set \<Rightarrow> StrongTransactionIsolator sys" where
  "iso_state cur rs fin calls gr to =
     \<lparr>s_iso = \<lparr>currentWriteTx = cur, readonlyTxs = rs\<rparr>, s_fin = fin, s_calls = calls, granted = gr, timed_out = to\<rparr>"

lemma iso_start: "strong_reachable readonly careful (iso_state None nil_slice {} [] {} {})"
  using st_init[of readonly careful] by (simp add: iso_state_def new_strong_isolator_def)

lemma iso_pass:
  assumes "strong_reachable readonly careful (iso_state cur rs fin calls gr to)"
    and "careful \<longrightarrow> disciplined otx (iso_state cur rs fin (Trying 0 # calls) gr to)"
    and "strong_attempt readonly fin otx False 0 \<lparr>currentWriteTx = cur, readonlyTxs = rs\<rparr> = (v, isol)"
  shows "strong_reachable readonly careful (settle v 0 isol calls (iso_state cur rs fin calls gr to))"
proof -
  have "strong_reachable readonly careful (iso_state cur rs fin (Trying 0 # calls) gr to)"
    using st_call[OF assms(1)] by (simp add: iso_state_def)
  from st_attempt[OF this, of 0 otx False v isol] show ?thesis
    using assms(2,3) by (simp add: iso_state_def settle_def split: verdict.splits option.splits)
qed

lemma iso_finish:
  "strong_reachable readonly careful (iso_state cur rs fin calls gr to) \<Longrightarrow>
   strong_reachable readonly careful (iso_state cur rs (insert t fin) calls gr to)"
  using st_finish[of readonly careful "iso_state cur rs fin calls gr to" t] by (simp add: iso_state_def)

lemmas pass_simps = iso_state_def settle_def strong_attempt_def removeFinishedTxs_def append_reader_def
  slice_append_def slice_cap_def set_elems_def elems_def nil_slice_def go_copy_at_def go_copy_def clear_finished_def
  MAX_SUBSEQUENT_WAIT_WRITE_TX_COUNT_def disciplined_def Let_def

text \<open>A readonly transaction that starts adds itself to the list.\<close>

lemma iso_reader_joins:
  assumes "strong_reachable readonly careful (iso_state None (slice_of rs) {} [] gr {})" and "readonly t" and "t \<notin> set rs"
  shows "strong_reachable readonly careful (iso_state None (slice_of (rs @ [t])) {} [] (insert t gr) {})"
proof -
  have a: "strong_attempt readonly {} (Some t) False 0 \<lparr>currentWriteTx = None, readonlyTxs = slice_of rs\<rparr> =
      (Returns (Some t), \<lparr>currentWriteTx = None, readonlyTxs = slice_of (rs @ [t])\<rparr>)"
    using assms(2,3)
    by (simp add: strong_attempt_def removeFinishedTxs_def clear_finished_def append_reader_def slice_append_def slice_cap_def
        slice_of_def elems_def MAX_SUBSEQUENT_WAIT_WRITE_TX_COUNT_def)
  show ?thesis
    using iso_pass[OF assms(1) _ a] by (simp add: disciplined_def settle_def iso_state_def)
qed

lemma iso_no_readers: "strong_reachable readonly careful (iso_state None (slice_of []) {} [] {} {})"
  using iso_start[of readonly careful] by (simp add: slice_of_def nil_slice_def)

text \<open>
  Without the second hypothesis the isolation is lost: after a read-write transaction has timed out waiting for a readonly one, the
  isolator still tracks it as the current read-write transaction, so that its next call returns at once although the readonly
  transaction, to which a call has returned too, is not finished.
\<close>

theorem timeout_breaks_isolation:
  "\<exists>readonly s t r. strong_reachable readonly False s \<and> t \<in> granted s \<and> r \<in> granted s \<and> \<not> readonly t \<and> readonly r \<and>
     t \<notin> s_fin s \<and> r \<notin> s_fin s \<and> t \<in> timed_out s"
proof -
  define readonly where "readonly = (\<lambda>t :: TxId. t = 0)"
  let ?R = "strong_reachable readonly False"
  have "?R (iso_state None (slice_of [0]) {} [] {0} {})"
    using iso_reader_joins[of readonly False "[]" "{}" 0] iso_no_readers[of readonly False] by (simp add: readonly_def)
  from iso_pass[OF this, of "Some 1"]
  have "?R (iso_state (Some 1) (slice_of [0]) {} [AwaitsReaders 1 1 0 None] {0} {})"
    by (simp add: pass_simps slice_of_def readonly_def)
  from st_timeout[OF this, of 1 1 0 None] have "?R (iso_state (Some 1) (slice_of [0]) {} [] {0} {1})" by (simp add: iso_state_def)
  from iso_pass[OF this, of "Some 1"]
  have "?R (iso_state (Some 1) (slice_of [0]) {} [] {1, 0} {1})" by (simp add: pass_simps slice_of_def readonly_def)
  then show ?thesis
    by (intro exI[of _ readonly] exI[of _ "iso_state (Some 1) (slice_of [0]) {} [] {1, 0} {1}"] exI[of _ "1 :: TxId"] exI[of _ "0 :: TxId"])
      (simp add: iso_state_def readonly_def)
qed

text \<open>
  Without the third one it is lost too, because the slice that a read-write transaction ranges over shares its array with the list:
  it waits for the readonly transactions 0, 1 and 2; 0 finishes and a call without transaction removes it from the list, which
  moves 1 to the cell that the waiting call has left; the waiting call goes on with 2 and returns when 2 is finished,
  although 1 is not. Nothing timed out, and no transaction made two calls.
\<close>

theorem shifted_reader_skipped:
  "\<exists>readonly s t r. strong_reachable readonly False s \<and> t \<in> granted s \<and> r \<in> granted s \<and> \<not> readonly t \<and> readonly r \<and>
     t \<notin> s_fin s \<and> r \<notin> s_fin s \<and> timed_out s = {}"
proof -
  define readonly where "readonly = (\<lambda>t :: TxId. t \<le> 2)"
  let ?R = "strong_reachable readonly False"
  have ro: "readonly 0" "readonly 1" "readonly 2" by (simp_all add: readonly_def)
  have "?R (iso_state None (slice_of [0, 1, 2]) {} [] {2, 1, 0} {})"
    using iso_no_readers[of readonly False] iso_reader_joins[of readonly False "[]" "{}" 0] iso_reader_joins[of readonly False "[0]" "{0}" 1]
      iso_reader_joins[of readonly False "[0, 1]" "{1, 0}" 2] ro by simp
  from iso_pass[OF this, of "Some 3"]
  have "?R (iso_state (Some 3) (slice_of [0, 1, 2]) {} [AwaitsReaders 3 3 0 None] {2, 1, 0} {})"
    by (simp add: pass_simps slice_of_def readonly_def numeral_3_eq_3)
  from st_read[OF this, of 3 3 0] have "?R (iso_state (Some 3) (slice_of [0, 1, 2]) {} [AwaitsReaders 3 3 0 (Some 0)] {2, 1, 0} {})"
    by (simp add: iso_state_def slice_of_def)
  from st_reader_done[OF iso_finish[OF this, of 0], of 3 3 0 0]
  have run: "?R (iso_state (Some 3) (slice_of [0, 1, 2]) {0} [AwaitsReaders 3 3 1 None] {2, 1, 0} {})" by (simp add: iso_state_def)
  have "remove_done {0} 2 \<lparr>backing = [1, 2, 2], slen = 2\<rparr> = \<lparr>backing = [1, 2, 2], slen = 2\<rparr>"
    by (simp add: remove_done.simps)
  then have "remove_done {0} 1 \<lparr>backing = [1, 2, 2], slen = 2\<rparr> = \<lparr>backing = [1, 2, 2], slen = 2\<rparr>"
    by (subst remove_done.simps) (simp add: elems_def numeral_2_eq_2)
  then have "remove_done {0} 0 \<lparr>backing = [1, 2, 2], slen = 2\<rparr> = \<lparr>backing = [1, 2, 2], slen = 2\<rparr>"
    by (subst remove_done.simps) (simp add: elems_def)
  moreover have "remove_cell 0 (slice_of [0, 1, 2]) = \<lparr>backing = [1, 2, 2], slen = 2\<rparr>"
    by (simp add: remove_cell_def set_elems_def slice_of_def elems_def go_copy_at_def go_copy_def)
  ultimately have "remove_done {0} 0 (slice_of [0, 1, 2]) = \<lparr>backing = [1, 2, 2], slen = 2\<rparr>"
    by (subst remove_done.simps) (simp add: slice_of_def elems_def)
  with iso_pass[OF run, of None]
  have "?R (iso_state (Some 3) \<lparr>backing = [1, 2, 2], slen = 2\<rparr> {0} [AwaitsWriter 0 3, AwaitsReaders 3 3 1 None] {2, 1, 0} {})"
    by (simp add: iso_state_def settle_def strong_attempt_def removeFinishedTxs_def clear_finished_def MAX_SUBSEQUENT_WAIT_WRITE_TX_COUNT_def)
  from st_read[OF this, of 3 3 1]
  have "?R (iso_state (Some 3) \<lparr>backing = [1, 2, 2], slen = 2\<rparr> {0} [AwaitsReaders 3 3 1 (Some 2), AwaitsWriter 0 3] {2, 1, 0} {})"
    by (simp add: iso_state_def)
  from st_reader_done[OF iso_finish[OF this, of 2], of 3 3 1 2]
  have "?R (iso_state (Some 3) \<lparr>backing = [1, 2, 2], slen = 2\<rparr> {2, 0} [AwaitsReaders 3 3 2 None, AwaitsWriter 0 3] {2, 1, 0} {})"
    by (simp add: iso_state_def numeral_2_eq_2)
  from st_read[OF this, of 3 3 2]
  have "?R (iso_state (Some 3) \<lparr>backing = [1, 2, 2], slen = 2\<rparr> {2, 0} [AwaitsReaders 3 3 2 (Some 2), AwaitsWriter 0 3] {2, 1, 0} {})"
    by (simp add: iso_state_def)
  from st_reader_done[OF this, of 3 3 2 2]
  have "?R (iso_state (Some 3) \<lparr>backing = [1, 2, 2], slen = 2\<rparr> {2, 0} [AwaitsReaders 3 3 3 None, AwaitsWriter 0 3] {2, 1, 0} {})"
    by (simp add: iso_state_def)
  from st_readers_done[OF this, of 3 3]
  have "?R (iso_state (Some 3) \<lparr>backing = [1, 2, 2], slen = 2\<rparr> {2, 0} [AwaitsWriter 0 3] {3, 2, 1, 0} {})" by (simp add: iso_state_def)
  then show ?thesis
    by (intro exI[of _ readonly] exI[of _ "iso_state (Some 3) \<lparr>backing = [1, 2, 2], slen = 2\<rparr> {2, 0} [AwaitsWriter 0 3] {3, 2, 1, 0} {}"]
        exI[of _ "3 :: TxId"] exI[of _ "1 :: TxId"]) (simp add: iso_state_def readonly_def)
qed

lemma sample_strong:
  "\<exists>s. strong_reachable (\<lambda>t. t = 0) True s \<and> granted s = {1} \<and> s_fin s = {}"
proof -
  have "strong_reachable (\<lambda>t. t = 0) True (iso_state (Some 1) nil_slice {} [] {1} {})"
    using iso_pass[OF iso_start, of True "Some 1" "\<lambda>t. t = 0"] by (simp add: pass_simps)
  then show ?thesis by (intro exI[of _ "iso_state (Some 1) nil_slice {} [] {1} {}"]) (simp add: iso_state_def)
qed

theorem writers_exclusive_witness:
  "\<exists>s. granted s = {1} \<and> (\<forall>u. u \<in> granted s \<longrightarrow> u \<noteq> 0 \<longrightarrow> u \<notin> s_fin (s :: StrongTransactionIsolator sys) \<longrightarrow> 1 = u)"
proof -
  obtain s where s: "strong_reachable (\<lambda>t. t = 0) True s" "granted s = {1}" "s_fin s = {}" using sample_strong by blast
  have "1 = u" if "u \<in> granted s" "u \<noteq> 0" "u \<notin> s_fin s" for u
    using writers_exclusive[OF s(1) li_init, of 1 u] s(2,3) that by simp
  then show ?thesis using s(2) by blast
qed

lemma sample_strong_readers:
  "\<exists>s. strong_reachable (\<lambda>t. t = 0) True s \<and> granted s = {1, 0} \<and> s_fin s = {0}"
proof -
  let ?R = "strong_reachable (\<lambda>t :: TxId. t = 0) True"
  have "?R (iso_state None (slice_of [0]) {} [] {0} {})"
    using iso_reader_joins[of "\<lambda>t. t = 0" True "[]" "{}" 0] iso_no_readers[of "\<lambda>t. t = 0" True] by simp
  from iso_pass[OF this, of "Some 1"]
  have "?R (iso_state (Some 1) (slice_of [0]) {} [AwaitsReaders 1 1 0 None] {0} {})"
    by (simp add: pass_simps slice_of_def)
  from st_read[OF this, of 1 1 0] have "?R (iso_state (Some 1) (slice_of [0]) {} [AwaitsReaders 1 1 0 (Some 0)] {0} {})"
    by (simp add: iso_state_def slice_of_def)
  from st_reader_done[OF iso_finish[OF this, of 0], of 1 1 0 0]
  have "?R (iso_state (Some 1) (slice_of [0]) {0} [AwaitsReaders 1 1 1 None] {0} {})" by (simp add: iso_state_def)
  from st_readers_done[OF this, of 1 1] have "?R (iso_state (Some 1) (slice_of [0]) {0} [] {1, 0} {})" by (simp add: iso_state_def)
  then show ?thesis by (intro exI[of _ "iso_state (Some 1) (slice_of [0]) {0} [] {1, 0} {}"]) (simp add: iso_state_def)
qed

theorem strong_isolation_witness:
  "\<exists>s. strong_reachable (\<lambda>t. t = 0) True s \<and> granted s = {1, 0} \<and> 1 \<notin> s_fin s \<and> 0 \<in> s_fin s"
proof -
  obtain s where s: "strong_reachable (\<lambda>t. t = 0) True s" "granted s = {1, 0}" "s_fin s = {0}" using sample_strong_readers by blast
  have "0 \<in> s_fin s" using strong_isolation[OF s(1), of 1 0] s(2,3) by simp
  then show ?thesis using s by auto
qed

text \<open>
  A call never waits for nothing: one pass below the limit of waits returns the transaction of the context, or nil when it has
  no running one, unless the isolator tracks another unfinished read-write transaction, which it then waits for, or the
  transaction is read-write and a tracked readonly transaction is unfinished; the list of tracked readonly transactions is
  cleared of finished ones.
\<close>

theorem strong_attempt_progress:
  assumes "depth < MAX_SUBSEQUENT_WAIT_WRITE_TX_COUNT" and "\<not> (req \<and> not_running fin otx)" and "slice_wf (readonlyTxs isol)"
    and "strong_attempt readonly fin otx req depth isol = (v, isol')"
  shows "(case v of
       Returns ot \<Rightarrow> ot = (if not_running fin otx then None else otx)
     | WaitForWriter c \<Rightarrow> currentWriteTx isol = Some c \<and> c \<notin> fin \<and> otx \<noteq> Some c
     | WaitForReaders t n \<Rightarrow> otx = Some t \<and> \<not> readonly t \<and> currentWriteTx isol' = Some t \<and> hasUnfinishedReadonlyTxs fin isol' \<and>
         n = slen (readonlyTxs isol')
     | _ \<Rightarrow> False) \<and>
    (\<forall>r \<in> set (elems (readonlyTxs isol')). r \<notin> fin)"
proof -
  define iso1 where "iso1 = removeFinishedTxs fin isol"
  have cur: "currentWriteTx iso1 = Some c \<longleftrightarrow> currentWriteTx isol = Some c \<and> c \<notin> fin" for c
    unfolding iso1_def by (simp add: clear_finished_iff)
  have wf: "slice_wf (readonlyTxs iso1)" using removeFinishedTxs_readers(1)[OF assms(3)] by (simp add: iso1_def)
  have rs: "\<forall>r \<in> set (elems (readonlyTxs iso1)). r \<notin> fin"
    using removeFinishedTxs_readers(2)[OF assms(3), of fin] by (simp add: iso1_def)
  have pass: "\<not> depth \<ge> MAX_SUBSEQUENT_WAIT_WRITE_TX_COUNT" "(req \<and> not_running fin otx) = False" using assms(1,2) by auto
  note eq = assms(4)[unfolded strong_attempt_def iso1_def[symmetric] Let_def pass(2) if_False if_not_P[OF pass(1)]]
  show ?thesis
  proof (cases "currentWriteTx iso1")
    case (Some c)
    then show ?thesis
      using eq cur[of c] rs by (cases "otx = Some c") (auto simp: not_running_def)
  next
    case None
    show ?thesis
    proof (cases otx)
      case (Some t)
      consider "t \<in> fin" | "t \<notin> fin" "readonly t" | "t \<notin> fin" "\<not> readonly t" by blast
      then show ?thesis
        using eq rs wf None Some
        by cases (auto simp: not_running_def hasUnfinishedReadonlyTxs_def append_reader_def split: if_splits)
    qed (use eq rs None in \<open>auto simp: not_running_def\<close>)
  qed
qed

theorem strong_attempt_progress_witness:
  "strong_attempt (\<lambda>_. False) {5} (Some 1) True 3 \<lparr>currentWriteTx = Some 5, readonlyTxs = slice_of [5]\<rparr> =
     (Returns (Some 1), \<lparr>currentWriteTx = Some 1, readonlyTxs = \<lparr>backing = [5], slen = 0\<rparr>\<rparr>) \<and>
   (3 :: nat) < MAX_SUBSEQUENT_WAIT_WRITE_TX_COUNT"
proof -
  have e: "strong_attempt (\<lambda>_. False) {5} (Some 1) True 3 \<lparr>currentWriteTx = Some 5, readonlyTxs = slice_of [5]\<rparr> =
     (Returns (Some 1), \<lparr>currentWriteTx = Some 1, readonlyTxs = \<lparr>backing = [5], slen = 0\<rparr>\<rparr>)"
    by (simp add: pass_simps slice_of_def not_running_def remove_done.simps remove_cell_def)
  have h: "(3 :: nat) < MAX_SUBSEQUENT_WAIT_WRITE_TX_COUNT" "\<not> (True \<and> not_running {5} (Some 1))"
    by (simp_all add: MAX_SUBSEQUENT_WAIT_WRITE_TX_COUNT_def not_running_def)
  show ?thesis using strong_attempt_progress[OF h _ e] e h(1) by simp
qed

text \<open>A context without a transaction makes the lite isolator dereference nil while a read-write transaction is tracked.\<close>

lemma lite_nil_dereference:
  "c \<notin> fin \<Longrightarrow> fst (lite_attempt readonly fin None False 0 \<lparr>lite_currentWriteTx = Some c\<rparr>) = NilDereference"
  by (simp add: lite_attempt_def clear_finished_def MAX_SUBSEQUENT_WAIT_WRITE_TX_COUNT_def)

end
