(* ===== verification/Numbers.thy ===== *)
theory Numbers
  imports Bytecode
begin

unbundle bit_operations_syntax

text \<open>
  The simple values of the language and the primitives that both interpreters use on them: the checked integer arithmetic of
  \<open>internal/core/number.go\<close>, the comparisons of \<open>comparable.go\<close> and the equality of \<open>equal.go\<close>. Floats are IEEE double bit
  patterns; Go's \<open>+\<close>, \<open>-\<close>, \<open>*\<close> and \<open>/\<close> on finite floats are exact results rounded to the nearest even. The natural order of
  strings comes from a third-party package and is a parameter.
\<close>

datatype eval_error =
  ErrIntOverflow
| ErrIntUnderflow
| ErrIntDivisionByZero
| ErrNegationWithOverflow
| ErrNaNinfinityOperand
| ErrNaNinfinityResult
| ErrNotComparable
| NotDeclared string
| NotABoolean
| InvalidOperand
| ContextDone
| GoPanic

datatype Value = NilV | BoolV bool | IntV int | FloatV "64 word" | StringV string

abbreviation MaxInt64 :: int where "MaxInt64 \<equiv> 2 ^ 63 - 1"
abbreviation MinInt64 :: int where "MinInt64 \<equiv> - (2 ^ 63)"

section \<open>Checked integer arithmetic\<close>

definition intAdd :: "int \<Rightarrow> int \<Rightarrow> eval_error + int" where
  "intAdd l r =
    (if r > 0 \<and> l > i64 (MaxInt64 - r) then Inl ErrIntOverflow
     else if r \<le> 0 \<and> l < i64 (MinInt64 - r) then Inl ErrIntUnderflow
     else Inr (i64 (l + r)))"

definition intSub :: "int \<Rightarrow> int \<Rightarrow> eval_error + int" where
  "intSub l r =
    (if r < 0 \<and> l > i64 (MaxInt64 + r) then Inl ErrIntOverflow
     else if r \<ge> 0 \<and> l < i64 (MinInt64 + r) then Inl ErrIntUnderflow
     else Inr (i64 (l - r)))"

definition intMul :: "int \<Rightarrow> int \<Rightarrow> eval_error + int" where
  "intMul l r =
    (if r > 0 \<and> (l > tdiv MaxInt64 r \<or> l < tdiv MinInt64 r) then Inl ErrIntOverflow
     else if r = -1 \<and> l = MinInt64 then Inl ErrIntOverflow
     else if r < -1 \<and> (l < tdiv MaxInt64 r \<or> l > tdiv MinInt64 r) then Inl ErrIntUnderflow
     else Inr (i64 (l * r)))"

definition intDiv :: "int \<Rightarrow> int \<Rightarrow> eval_error + int" where
  "intDiv l r =
    (if r = 0 then Inl ErrIntDivisionByZero
     else if l = MinInt64 \<and> r = -1 then Inl ErrIntOverflow
     else Inr (i64 (tdiv l r)))"

section \<open>Floats\<close>

text \<open>Sign, significand and exponent of a finite float: its absolute value is \<open>float_mant f * 2 ^ float_exp f\<close>.\<close>

definition float_neg :: "64 word \<Rightarrow> bool" where
  "float_neg f \<longleftrightarrow> bit f 63"

definition float_mant :: "64 word \<Rightarrow> nat" where
  "float_mant f = unat (take_bit 52 f) + (if drop_bit 52 f AND 2047 = 0 then 0 else 2 ^ 52)"

definition float_exp :: "64 word \<Rightarrow> int" where
  "float_exp f = (if drop_bit 52 f AND 2047 = 0 then - 1074 else uint (drop_bit 52 f AND 2047) - 1075)"

fun bit_len :: "nat \<Rightarrow> nat" where
  "bit_len n = (if n = 0 then 0 else Suc (bit_len (n div 2)))"

declare bit_len.simps [simp del]

text \<open>
  The float nearest to \<open>n * 2 ^ e\<close>, ties to even; \<open>sticky\<close> says that the exact magnitude is strictly between \<open>n * 2 ^ e\<close> and
  \<open>(n + 1) * 2 ^ e\<close>. The biased exponent is added to the significand, whose leading bit carries into it.
\<close>

definition round_float :: "bool \<Rightarrow> nat \<Rightarrow> int \<Rightarrow> bool \<Rightarrow> 64 word" where
  "round_float neg n e sticky =
    (let q = max (e + int (bit_len n) - 53) (- 1074);
         m = (if q \<le> e then n * 2 ^ nat (e - q)
              else (let shift = nat (q - e); d = n div 2 ^ shift; r = n mod 2 ^ shift; half = 2 ^ (shift - 1)
                    in if r > half \<or> r = half \<and> (sticky \<or> odd d) then d + 1 else d));
         magnitude = (q + 1074) * 2 ^ 52 + int m
     in word_of_int ((if neg then 2 ^ 63 else 0) + min magnitude (2047 * 2 ^ 52)))"

definition float_minus :: "64 word \<Rightarrow> 64 word" where
  "float_minus f = f XOR push_bit 63 1"

definition float_add :: "64 word \<Rightarrow> 64 word \<Rightarrow> 64 word" where
  "float_add f g =
    (let e = min (float_exp f) (float_exp g);
         x = (\<lambda>h. (if float_neg h then - 1 else 1) * int (float_mant h) * 2 ^ nat (float_exp h - e));
         s = x f + x g
     in if s = 0 then (if float_neg f \<and> float_neg g then push_bit 63 1 else 0)
        else round_float (s < 0) (nat \<bar>s\<bar>) e False)"

definition float_sub :: "64 word \<Rightarrow> 64 word \<Rightarrow> 64 word" where
  "float_sub f g = float_add f (float_minus g)"

definition float_mul :: "64 word \<Rightarrow> 64 word \<Rightarrow> 64 word" where
  "float_mul f g =
    (let neg = (float_neg f \<noteq> float_neg g); n = float_mant f * float_mant g
     in if n = 0 then (if neg then push_bit 63 1 else 0)
        else round_float neg n (float_exp f + float_exp g) False)"

text \<open>A quotient of non-zero significands shifted by 130 bits has more than the 53 bits that are kept.\<close>

definition float_div :: "64 word \<Rightarrow> 64 word \<Rightarrow> 64 word" where
  "float_div f g =
    (let neg = (float_neg f \<noteq> float_neg g); a = float_mant f; b = float_mant g;
         sign = (if neg then 2 ^ 63 else 0)
     in if b = 0 then (if a = 0 then word_of_int (2047 * 2 ^ 52 + 1) else word_of_int (sign + 2047 * 2 ^ 52))
        else if a = 0 then word_of_int sign
        else round_float neg (a * 2 ^ 130 div b) (float_exp f - float_exp g - 130) (a * 2 ^ 130 mod b \<noteq> 0))"

definition float_nan :: "64 word \<Rightarrow> bool" where
  "float_nan f \<longleftrightarrow> \<not> float_finite f \<and> take_bit 52 f \<noteq> 0"

definition float_key :: "64 word \<Rightarrow> int" where
  "float_key f = (if float_neg f then - uint (take_bit 63 f) else uint (take_bit 63 f))"

definition float_less :: "64 word \<Rightarrow> 64 word \<Rightarrow> bool" where
  "float_less f g \<longleftrightarrow> float_key f < float_key g"

section \<open>Comparison and equality\<close>

type_synonym natural_less = "string \<Rightarrow> string \<Rightarrow> bool"

definition intCompare :: "int \<Rightarrow> Value \<Rightarrow> int option" where
  "intCompare i other = (case other of IntV j \<Rightarrow> Some (if i < j then - 1 else if i = j then 0 else 1) | _ \<Rightarrow> None)"

definition float64Compare :: "64 word \<Rightarrow> Value \<Rightarrow> int option" where
  "float64Compare f other =
    (case other of
       FloatV g \<Rightarrow>
         if float_finite f \<and> float_finite g then Some (if float_less f g then - 1 else if float_eq f g then 0 else 1)
         else None
     | _ \<Rightarrow> None)"

definition stringCompareNaturalSortOrder :: "natural_less \<Rightarrow> string \<Rightarrow> Value \<Rightarrow> int option" where
  "stringCompareNaturalSortOrder natural s other =
    (case other of StringV t \<Rightarrow> Some (if s = t then 0 else if natural s t then - 1 else 1) | _ \<Rightarrow> None)"

text \<open>The type assertion to \<open>Comparable\<close>, which \<open>None\<close> makes panic, then \<open>Compare\<close>.\<close>

fun val_Compare :: "natural_less \<Rightarrow> Value \<Rightarrow> (Value \<Rightarrow> int option) option" where
  "val_Compare natural (IntV i) = Some (intCompare i)"
| "val_Compare natural (FloatV f) = Some (float64Compare f)"
| "val_Compare natural (StringV s) = Some (stringCompareNaturalSortOrder natural s)"
| "val_Compare natural _ = None"

fun val_Equal :: "Value \<Rightarrow> Value \<Rightarrow> bool" where
  "val_Equal NilV w \<longleftrightarrow> w = NilV"
| "val_Equal (BoolV b) w \<longleftrightarrow> w = BoolV b"
| "val_Equal (IntV i) w \<longleftrightarrow> intCompare i w = Some 0"
| "val_Equal (FloatV f) w \<longleftrightarrow> float64Compare f w = Some 0"
| "val_Equal (StringV s) w \<longleftrightarrow> w = StringV s"

text \<open>Go's \<open>==\<close> on two interface values that hold simple values.\<close>

fun go_eq :: "Value \<Rightarrow> Value \<Rightarrow> bool" where
  "go_eq (FloatV f) (FloatV g) \<longleftrightarrow> \<not> float_nan f \<and> \<not> float_nan g \<and> float_eq f g"
| "go_eq v w \<longleftrightarrow> v = w"

fun finite_value :: "Value \<Rightarrow> bool" where
  "finite_value (FloatV f) \<longleftrightarrow> float_finite f"
| "finite_value (IntV i) \<longleftrightarrow> in_i64 i"
| "finite_value _ \<longleftrightarrow> True"

section \<open>Lemmas\<close>

lemma tdiv_pos: "0 < r \<Longrightarrow> tdiv l r = (if 0 \<le> l then l div r else - (- l div r))"
  by (cases "l = 0") (auto simp: tdiv_def sgn_if)

lemma tdiv_neg: "r < 0 \<Longrightarrow> tdiv l r = (if 0 \<le> l then - (l div - r) else - l div - r)"
  by (cases "l = 0") (auto simp: tdiv_def sgn_if)

lemma le_div_iff:
  assumes "0 < (r :: int)"
  shows "l \<le> m div r \<longleftrightarrow> l * r \<le> m"
proof
  assume "l \<le> m div r"
  then have "l * r \<le> m div r * r" using assms by (simp add: mult_right_mono)
  also have "\<dots> \<le> m" using assms div_mult_mod_eq[of m r] pos_mod_sign[of r m] by linarith
  finally show "l * r \<le> m" .
next
  assume "l * r \<le> m"
  then have "l * r div r \<le> m div r" by (rule zdiv_mono1[OF _ assms])
  then show "l \<le> m div r" using assms by simp
qed

lemma in_i64_iff: "in_i64 x \<longleftrightarrow> MinInt64 \<le> x \<and> x \<le> MaxInt64"
  by (auto simp: in_i64_def)

lemma abs_tdiv_le:
  assumes "r \<noteq> 0"
  shows "\<bar>tdiv l r\<bar> \<le> \<bar>l\<bar>"
proof -
  have "\<bar>l\<bar> div \<bar>r\<bar> \<le> \<bar>l\<bar> div 1" using assms by (intro zdiv_mono2) auto
  then show ?thesis using assms by (auto simp: tdiv_def abs_mult pos_imp_zdiv_nonneg_iff)
qed

lemma intAdd_exact:
  "in_i64 l \<Longrightarrow> in_i64 r \<Longrightarrow> intAdd l r =
    (if l + r > MaxInt64 then Inl ErrIntOverflow else if l + r < MinInt64 then Inl ErrIntUnderflow else Inr (l + r))"
  by (auto simp: intAdd_def in_i64_def)

lemma intSub_exact:
  "in_i64 l \<Longrightarrow> in_i64 r \<Longrightarrow> intSub l r =
    (if l - r > MaxInt64 then Inl ErrIntOverflow else if l - r < MinInt64 then Inl ErrIntUnderflow else Inr (l - r))"
  by (auto simp: intSub_def in_i64_def)

lemma intMul_test_pos:
  assumes "0 < r"
  shows "l > tdiv MaxInt64 r \<or> l < tdiv MinInt64 r \<longleftrightarrow> \<not> in_i64 (l * r)"
  using assms le_div_iff[OF assms, of l MaxInt64] le_div_iff[OF assms, of "- l" "- MinInt64"]
  unfolding in_i64_iff by (simp add: tdiv_pos not_le) linarith

lemma intMul_test_neg:
  assumes "r < 0"
  shows "l < tdiv MaxInt64 r \<or> l > tdiv MinInt64 r \<longleftrightarrow> \<not> in_i64 (l * r)"
proof -
  have r: "0 < - r" using assms by simp
  show ?thesis
    using assms le_div_iff[OF r, of "- l" MaxInt64] le_div_iff[OF r, of l "- MinInt64"]
    unfolding in_i64_iff by (simp add: tdiv_neg not_le) linarith
qed

lemma intMul_exact:
  assumes "in_i64 l" and "in_i64 r"
  shows "intMul l r =
    (if in_i64 (l * r) then Inr (l * r) else Inl (if r < - 1 then ErrIntUnderflow else ErrIntOverflow))"
proof -
  consider "r > 0" | "r = 0" | "r = - 1" | "r < - 1" by linarith
  then show ?thesis
  proof cases
    case 1
    then show ?thesis using intMul_test_pos[OF 1, of l] by (simp add: intMul_def)
  next
    case 2
    then show ?thesis by (simp add: intMul_def in_i64_def)
  next
    case 3
    then show ?thesis using assms(1) by (auto simp: intMul_def in_i64_def)
  next
    case 4
    then show ?thesis using intMul_test_neg[of r l] by (simp add: intMul_def)
  qed
qed

lemma intDiv_exact:
  assumes "in_i64 l" and "in_i64 r"
  shows "intDiv l r =
    (if r = 0 then Inl ErrIntDivisionByZero else if in_i64 (tdiv l r) then Inr (tdiv l r) else Inl ErrIntOverflow)"
proof (cases "r = 0 \<or> l = MinInt64 \<and> r = - 1")
  case True
  then show ?thesis by (auto simp: intDiv_def tdiv_def in_i64_def)
next
  case False
  have "in_i64 (tdiv l r)"
  proof (cases "l = MinInt64")
    case True
    then have "\<bar>r\<bar> \<ge> 2 \<or> r = 1" using False by linarith
    then show ?thesis
    proof
      assume "2 \<le> \<bar>r\<bar>"
      then have "\<bar>l\<bar> div \<bar>r\<bar> \<le> \<bar>l\<bar> div 2" by (intro zdiv_mono2) auto
      then have "\<bar>tdiv l r\<bar> \<le> 2 ^ 62"
        using True False by (auto simp: tdiv_def abs_mult pos_imp_zdiv_nonneg_iff)
      then show ?thesis by (simp add: in_i64_def abs_le_iff)
    qed (use True in \<open>simp add: tdiv_def in_i64_def\<close>)
  next
    case neq: False
    then show ?thesis using abs_tdiv_le[of r l] False assms(1) unfolding in_i64_def by linarith
  qed
  then show ?thesis using False by (auto simp: intDiv_def)
qed

lemma intCompare_0 [simp]: "intCompare i w = Some 0 \<longleftrightarrow> w = IntV i"
  by (cases w) (auto simp: intCompare_def)

lemma float_zero_finite: "take_bit 63 f = 0 \<Longrightarrow> float_finite f"
proof -
  assume z: "take_bit 63 f = 0"
  have "drop_bit 52 f AND 2047 = take_bit 11 (drop_bit 52 f)"
    using take_bit_eq_mask[of 11 "drop_bit 52 f"] by (simp add: mask_eq_exp_minus_1)
  also have "\<dots> = drop_bit 52 (take_bit 63 f)" by (simp add: drop_bit_take_bit)
  finally show "float_finite f" using z by (simp add: float_finite_def)
qed

lemma float_eq_finite: "float_eq f g \<Longrightarrow> float_finite g \<Longrightarrow> float_finite f"
  using float_zero_finite by (auto simp: float_eq_def)

lemma float64Compare_0 [simp]:
  "float64Compare f (FloatV g) = Some 0 \<longleftrightarrow> float_finite f \<and> float_finite g \<and> float_eq f g"
proof -
  have "float_eq f g \<Longrightarrow> \<not> float_less f g" by (auto simp: float_eq_def float_less_def float_key_def)
  then show ?thesis by (auto simp: float64Compare_def)
qed

section \<open>Properties\<close>

text \<open>
  (C38) The checked arithmetic is exact: on 64-bit operands, addition, subtraction, multiplication and division return the
  mathematical result (the quotient truncated towards zero) exactly when it fits in 64 bits; otherwise they return an error.
  Addition and subtraction distinguish overflow from underflow; a product that does not fit is reported as an underflow when
  the right operand is less than -1, and as an overflow otherwise, whatever the sign of the product.
\<close>

theorem checked_arithmetic_exact:
  assumes "in_i64 l" and "in_i64 r"
  shows "intAdd l r = (if l + r > MaxInt64 then Inl ErrIntOverflow else if l + r < MinInt64 then Inl ErrIntUnderflow else Inr (l + r)) \<and>
    intSub l r = (if l - r > MaxInt64 then Inl ErrIntOverflow else if l - r < MinInt64 then Inl ErrIntUnderflow else Inr (l - r)) \<and>
    intMul l r = (if in_i64 (l * r) then Inr (l * r) else Inl (if r < - 1 then ErrIntUnderflow else ErrIntOverflow)) \<and>
    intDiv l r = (if r = 0 then Inl ErrIntDivisionByZero
      else if in_i64 (tdiv l r) then Inr (tdiv l r) else Inl ErrIntOverflow)"
  using intAdd_exact[OF assms] intSub_exact[OF assms] intMul_exact[OF assms] intDiv_exact[OF assms] by blast

theorem checked_arithmetic_exact_witness:
  "intAdd MaxInt64 1 = Inl ErrIntOverflow \<and> intSub MinInt64 1 = Inl ErrIntUnderflow \<and>
   intMul (- (2 ^ 62)) (- 4) = Inl ErrIntUnderflow \<and> intDiv (- 7) 2 = Inr (- 3)"
  using checked_arithmetic_exact[of MaxInt64 1] checked_arithmetic_exact[of MinInt64 1]
    checked_arithmetic_exact[of "- (2 ^ 62)" "- 4"] checked_arithmetic_exact[of "- 7" 2]
  by (simp add: in_i64_def tdiv_def)

text \<open>Multiplication reports an underflow for a product above the greatest integer, and an overflow for one below the least.\<close>

lemma intMul_misnames_error:
  "intMul (- (2 ^ 62)) (- 4) = Inl ErrIntUnderflow \<and> - (2 ^ 62) * - 4 > MaxInt64 \<and>
   intMul (- (2 ^ 62)) 4 = Inl ErrIntOverflow \<and> - (2 ^ 62) * 4 < MinInt64"
  by (simp add: intMul_exact in_i64_def)

end
