(* ===== verification/TreeWalk.thy ===== *)
theory TreeWalk
  imports Numbers
begin

text \<open>
  A part of the syntax tree (\<open>internal/parse/ast.go\<close>) and its evaluation by the tree-walking interpreter
  (\<open>internal/core/tree_walk_eval.go\<close>: \<open>TreeWalkEval\<close>, \<open>evalBinaryExpression\<close>, \<open>evalArithmeticBinaryExpression\<close>): simple
  literals, variables, unary, binary and conditional expressions, declarations of and assignments to local variables,
  conditionals, switches, blocks and return statements. A panic is recovered by the interpreter and becomes an error. The
  expressions of this part do not change the state.
\<close>

section \<open>Syntax\<close>

type_synonym NodeSpan = "int \<times> int"

datatype UnaryOperator = BoolNegate | NumberNegate

datatype BinaryOperator = Add | Sub | Mul | Div | LessThan | LessOrEqual | GreaterThan | GreaterOrEqual
  | Equal | NotEqual | And | Or | NilCoalescing

datatype AssignmentOperator = Assign | PlusAssign | MinusAssign | MulAssign | DivAssign

text \<open>The position of an operator in the enumeration.\<close>

fun BinaryOperator_iota :: "BinaryOperator \<Rightarrow> nat" where
  "BinaryOperator_iota Add = 0"
| "BinaryOperator_iota Sub = 2"
| "BinaryOperator_iota Mul = 4"
| "BinaryOperator_iota Div = 6"
| "BinaryOperator_iota LessThan = 9"
| "BinaryOperator_iota LessOrEqual = 11"
| "BinaryOperator_iota GreaterThan = 13"
| "BinaryOperator_iota GreaterOrEqual = 15"
| "BinaryOperator_iota Equal = 17"
| "BinaryOperator_iota NotEqual = 18"
| "BinaryOperator_iota And = 28"
| "BinaryOperator_iota Or = 29"
| "BinaryOperator_iota NilCoalescing = 34"

datatype expr =
  IntLiteral NodeSpan int
| FloatLiteral NodeSpan "64 word"
| BooleanLiteral NodeSpan bool
| NilLiteral NodeSpan
| QuotedStringLiteral NodeSpan string
| IdentifierLiteral NodeSpan string
| Variable NodeSpan string
| UnaryExpression NodeSpan UnaryOperator expr
| BinaryExpression NodeSpan BinaryOperator expr expr
| IfExpression NodeSpan expr expr "expr option"

text \<open>
  The left side of an assignment is an identifier or a local variable; a case of a switch has its values and its block.
\<close>

datatype assignee = IdentifierLeft string | VariableLeft string

primrec GetVariableName :: "assignee \<Rightarrow> string" where
  "GetVariableName (IdentifierLeft name) = name"
| "GetVariableName (VariableLeft name) = name"

datatype stmt =
  ExprStatement expr
| LocalVariableDeclarations NodeSpan "(string \<times> expr) list"
| Assignment NodeSpan AssignmentOperator assignee expr
| IfStatement NodeSpan expr stmt "stmt option"
| SwitchStatement NodeSpan expr "(expr list \<times> stmt) list" "stmt list"
| Block NodeSpan "stmt list"
| ReturnStatement NodeSpan "expr option"

text \<open>\<open>Kind() == Expr\<close>: an \<open>IfExpression\<close> says that it is a statement.\<close>

fun expr_kind :: "expr \<Rightarrow> bool" where
  "expr_kind (IfExpression _ _ _ _) \<longleftrightarrow> False"
| "expr_kind _ \<longleftrightarrow> True"

fun is_expr :: "stmt \<Rightarrow> bool" where
  "is_expr (ExprStatement e) \<longleftrightarrow> expr_kind e"
| "is_expr _ \<longleftrightarrow> False"

section \<open>Sequencing of results\<close>

definition ebind :: "'e + 'a \<Rightarrow> ('a \<Rightarrow> 'e + 'b) \<Rightarrow> 'e + 'b" where
  "ebind m f = (case m of Inl e \<Rightarrow> Inl e | Inr x \<Rightarrow> f x)"

lemma ebind_simps [simp]: "ebind (Inl e) f = Inl e" "ebind (Inr x) f = f x"
  by (simp_all add: ebind_def)

lemma ebind_cong [fundef_cong]: "m = m' \<Longrightarrow> (\<And>x. m' = Inr x \<Longrightarrow> f x = f' x) \<Longrightarrow> ebind m f = ebind m' f'"
  by (cases m') simp_all

lemma ebind_eq_Inr [simp]: "ebind m f = Inr y \<longleftrightarrow> (\<exists>x. m = Inr x \<and> f x = Inr y)"
  by (cases m) simp_all

section \<open>Expressions\<close>

definition comparison_error :: "Value \<Rightarrow> Value \<Rightarrow> eval_error" where
  "comparison_error left right =
    (case left of
       FloatV f \<Rightarrow> if \<not> float_finite f then ErrNaNinfinityOperand
                   else (case right of FloatV g \<Rightarrow> if \<not> float_finite g then ErrNaNinfinityOperand else ErrNotComparable
                         | _ \<Rightarrow> ErrNotComparable)
     | _ \<Rightarrow> (case right of FloatV g \<Rightarrow> if \<not> float_finite g then ErrNaNinfinityOperand else ErrNotComparable
             | _ \<Rightarrow> ErrNotComparable))"

definition compare_with :: "natural_less \<Rightarrow> (int \<Rightarrow> bool) \<Rightarrow> Value \<Rightarrow> Value \<Rightarrow> eval_error + Value" where
  "compare_with natural test left right =
    (case val_Compare natural left of
       None \<Rightarrow> Inl GoPanic
     | Some compare \<Rightarrow>
         (case compare right of None \<Rightarrow> Inl (comparison_error left right) | Some c \<Rightarrow> Inr (BoolV (test c))))"

definition checked_float :: "64 word \<Rightarrow> eval_error + Value" where
  "checked_float f = (if float_finite f then Inr (FloatV f) else Inl ErrNaNinfinityResult)"

fun int_op :: "BinaryOperator \<Rightarrow> int \<Rightarrow> int \<Rightarrow> eval_error + int" where
  "int_op Add l r = intAdd l r"
| "int_op Sub l r = intSub l r"
| "int_op Mul l r = intMul l r"
| "int_op Div l r = intDiv l r"
| "int_op _ l r = Inl GoPanic"

fun float_op :: "BinaryOperator \<Rightarrow> 64 word \<Rightarrow> 64 word \<Rightarrow> eval_error + Value" where
  "float_op Add l r = Inr (FloatV (float_add l r))"
| "float_op Sub l r = Inr (FloatV (float_sub l r))"
| "float_op Mul l r = checked_float (float_mul l r)"
| "float_op Div l r = checked_float (float_div l r)"
| "float_op _ l r = Inl GoPanic"

text \<open>None of the other simple values implements \<open>IPseudoAdd\<close> or \<open>IPseudoSub\<close>.\<close>

definition evalArithmeticBinaryExpression :: "Value \<Rightarrow> Value \<Rightarrow> BinaryOperator \<Rightarrow> eval_error + Value" where
  "evalArithmeticBinaryExpression left right operator =
    (case left of
       IntV l \<Rightarrow> (case right of IntV r \<Rightarrow> ebind (int_op operator l r) (\<lambda>i. Inr (IntV i)) | _ \<Rightarrow> Inl GoPanic)
     | FloatV l \<Rightarrow>
         (case right of
            FloatV r \<Rightarrow> if \<not> float_finite l \<or> \<not> float_finite r then Inl ErrNaNinfinityOperand else float_op operator l r
          | _ \<Rightarrow> Inl GoPanic)
     | _ \<Rightarrow> Inl GoPanic)"

fun bool_of :: "Value \<Rightarrow> eval_error + bool" where
  "bool_of (BoolV b) = Inr b"
| "bool_of _ = Inl GoPanic"

fun binary_result :: "natural_less \<Rightarrow> BinaryOperator \<Rightarrow> Value \<Rightarrow> Value \<Rightarrow> eval_error + Value" where
  "binary_result natural GreaterThan left right = compare_with natural (\<lambda>c. c > 0) left right"
| "binary_result natural GreaterOrEqual left right = compare_with natural (\<lambda>c. c \<ge> 0) left right"
| "binary_result natural LessThan left right = compare_with natural (\<lambda>c. c < 0) left right"
| "binary_result natural LessOrEqual left right = compare_with natural (\<lambda>c. c \<le> 0) left right"
| "binary_result natural Equal left right = Inr (BoolV (val_Equal left right))"
| "binary_result natural NotEqual left right = Inr (BoolV (\<not> val_Equal left right))"
| "binary_result natural And left right =
     ebind (bool_of left) (\<lambda>a. if \<not> a then Inr (BoolV False) else ebind (bool_of right) (\<lambda>b. Inr (BoolV b)))"
| "binary_result natural Or left right =
     ebind (bool_of left) (\<lambda>a. if a then Inr (BoolV True) else ebind (bool_of right) (\<lambda>b. Inr (BoolV b)))"
| "binary_result natural NilCoalescing left right = Inr (if left \<noteq> NilV then left else right)"
| "binary_result natural operator left right = evalArithmeticBinaryExpression left right operator"

fun unary_result :: "UnaryOperator \<Rightarrow> Value \<Rightarrow> eval_error + Value" where
  "unary_result NumberNegate (IntV i) =
     (if i = i64 (- i) \<and> i \<noteq> 0 then Inl ErrNegationWithOverflow else Inr (IntV (i64 (- i))))"
| "unary_result NumberNegate (FloatV f) = Inr (FloatV (float_minus f))"
| "unary_result NumberNegate _ = Inl GoPanic"
| "unary_result BoolNegate (BoolV b) = Inr (BoolV (\<not> b))"
| "unary_result BoolNegate _ = Inl GoPanic"

record TreeWalkState =
  tw_globals :: "string \<rightharpoonup> Value"
  tw_locals :: "string \<rightharpoonup> Value"
  tw_returnValue :: "Value option"

definition eval_IdentifierLiteral :: "string \<Rightarrow> TreeWalkState \<Rightarrow> eval_error + Value" where [simp]:
  "eval_IdentifierLiteral name st =
    (case tw_globals st name of
       Some v \<Rightarrow> Inr v
     | None \<Rightarrow> (case tw_locals st name of Some v \<Rightarrow> Inr v | None \<Rightarrow> Inl (NotDeclared name)))"

definition eval_Variable :: "string \<Rightarrow> TreeWalkState \<Rightarrow> eval_error + Value" where [simp]:
  "eval_Variable name st = (case tw_locals st name of Some v \<Rightarrow> Inr v | None \<Rightarrow> Inl (NotDeclared name))"

fun eval_expr :: "natural_less \<Rightarrow> TreeWalkState \<Rightarrow> expr \<Rightarrow> eval_error + Value" where
  "eval_expr natural st (IntLiteral _ i) = Inr (IntV i)"
| "eval_expr natural st (FloatLiteral _ f) = Inr (FloatV f)"
| "eval_expr natural st (BooleanLiteral _ b) = Inr (BoolV b)"
| "eval_expr natural st (NilLiteral _) = Inr NilV"
| "eval_expr natural st (QuotedStringLiteral _ s) = Inr (StringV s)"
| "eval_expr natural st (IdentifierLiteral _ name) = eval_IdentifierLiteral name st"
| "eval_expr natural st (Variable _ name) = eval_Variable name st"
| "eval_expr natural st (UnaryExpression _ operator operand) =
    ebind (eval_expr natural st operand) (unary_result operator)"
| "eval_expr natural st (BinaryExpression _ operator left right) =
    ebind (eval_expr natural st left) (\<lambda>l. ebind (eval_expr natural st right) (binary_result natural operator l))"
| "eval_expr natural st (IfExpression _ test consequent alternate) =
    ebind (eval_expr natural st test) (\<lambda>t.
      case t of
        BoolV True \<Rightarrow> eval_expr natural st consequent
      | BoolV False \<Rightarrow> (case alternate of Some e \<Rightarrow> eval_expr natural st e | None \<Rightarrow> Inr NilV)
      | _ \<Rightarrow> Inl NotABoolean)"

section \<open>Statements\<close>

fun assignment_result :: "AssignmentOperator \<Rightarrow> Value option \<Rightarrow> Value \<Rightarrow> eval_error + Value" where
  "assignment_result Assign left right = Inr right"
| "assignment_result PlusAssign (Some (IntV l)) (IntV r) = ebind (intAdd l r) (\<lambda>i. Inr (IntV i))"
| "assignment_result MinusAssign (Some (IntV l)) (IntV r) = ebind (intSub l r) (\<lambda>i. Inr (IntV i))"
| "assignment_result MulAssign (Some (IntV l)) (IntV r) = ebind (intMul l r) (\<lambda>i. Inr (IntV i))"
| "assignment_result DivAssign (Some (IntV l)) (IntV r) = ebind (intMul l r) (\<lambda>i. Inr (IntV i))"
| "assignment_result _ _ _ = Inl GoPanic"

definition set_local :: "string \<Rightarrow> Value \<Rightarrow> TreeWalkState \<Rightarrow> TreeWalkState" where
  "set_local name v st = st\<lparr>tw_locals := (tw_locals st)(name \<mapsto> v)\<rparr>"

fun eval_declarations :: "natural_less \<Rightarrow> (string \<times> expr) list \<Rightarrow> TreeWalkState \<Rightarrow> eval_error + TreeWalkState" where
  "eval_declarations natural [] st = Inr st"
| "eval_declarations natural ((name, right) # decls) st =
    ebind (eval_expr natural st right) (\<lambda>v. eval_declarations natural decls (set_local name v st))"

text \<open>
  The first component is the value of the statement, \<open>None\<close> for Go's nil. \<open>eval_cases\<close> returns \<open>None\<close> when no value of a
  case is equal to the discriminant.
\<close>

fun eval_stmt :: "natural_less \<Rightarrow> stmt \<Rightarrow> TreeWalkState \<Rightarrow> eval_error + (Value option \<times> TreeWalkState)"
  and eval_block :: "natural_less \<Rightarrow> stmt list \<Rightarrow> TreeWalkState \<Rightarrow> eval_error + TreeWalkState"
  and eval_cases :: "natural_less \<Rightarrow> Value \<Rightarrow> (expr list \<times> stmt) list \<Rightarrow> TreeWalkState \<Rightarrow> eval_error + (TreeWalkState option)"
where
  "eval_stmt natural (ExprStatement e) st = ebind (eval_expr natural st e) (\<lambda>v. Inr (Some v, st))"
| "eval_stmt natural (LocalVariableDeclarations _ decls) st =
    ebind (eval_declarations natural decls st) (\<lambda>st'. Inr (None, st'))"
| "eval_stmt natural (Assignment _ operator left right) st =
    ebind (eval_expr natural st right) (\<lambda>r.
      ebind (assignment_result operator (tw_locals st (GetVariableName left)) r)
        (\<lambda>v. Inr (Some NilV, set_local (GetVariableName left) v st)))"
| "eval_stmt natural (IfStatement _ test consequent alternate) st =
    ebind (eval_expr natural st test) (\<lambda>t.
      case t of
        BoolV True \<Rightarrow> ebind (eval_stmt natural consequent st) (\<lambda>(_, st'). Inr (Some NilV, st'))
      | BoolV False \<Rightarrow>
          (case alternate of
             Some s \<Rightarrow> ebind (eval_stmt natural s st) (\<lambda>(_, st'). Inr (Some NilV, st'))
           | None \<Rightarrow> Inr (Some NilV, st))
      | _ \<Rightarrow> Inl NotABoolean)"
| "eval_stmt natural (SwitchStatement _ discriminant cases defaults) st =
    ebind (eval_expr natural st discriminant) (\<lambda>d.
      ebind (eval_cases natural d cases st) (\<lambda>matched.
        case matched of
          Some st' \<Rightarrow> Inr (Some NilV, st')
        | None \<Rightarrow>
            (case defaults of
               s # _ \<Rightarrow> ebind (eval_stmt natural s st) (\<lambda>(_, st'). Inr (Some NilV, st'))
             | [] \<Rightarrow> Inr (Some NilV, st))))"
| "eval_stmt natural (Block _ stmts) st = ebind (eval_block natural stmts st) (\<lambda>st'. Inr (Some NilV, st'))"
| "eval_stmt natural (ReturnStatement _ None) st = Inr (Some NilV, st\<lparr>tw_returnValue := Some NilV\<rparr>)"
| "eval_stmt natural (ReturnStatement _ (Some e)) st =
    ebind (eval_expr natural st e) (\<lambda>v. Inr (Some NilV, st\<lparr>tw_returnValue := Some v\<rparr>))"
| "eval_block natural [] st = Inr st"
| "eval_block natural (s # ss) st =
    ebind (eval_stmt natural s st) (\<lambda>(_, st'). if tw_returnValue st' \<noteq> None then Inr st' else eval_block natural ss st')"
| "eval_cases natural d [] st = Inr None"
| "eval_cases natural d (([], block) # cases) st = eval_cases natural d cases st"
| "eval_cases natural d ((value # values, block) # cases) st =
    ebind (eval_expr natural st value) (\<lambda>v.
      if go_eq d v then ebind (eval_stmt natural block st) (\<lambda>(_, st'). Inr (Some st'))
      else eval_cases natural d ((values, block) # cases) st)"

text \<open>
  A module without constant declarations: a new local scope, and the value of the only statement when there is just one.
\<close>

definition eval_chunk :: "natural_less \<Rightarrow> (string \<rightharpoonup> Value) \<Rightarrow> stmt list \<Rightarrow> eval_error + Value option" where
  "eval_chunk natural globals stmts =
    (let st = \<lparr>tw_globals = globals, tw_locals = (\<lambda>_. None), tw_returnValue = None\<rparr> in
     case stmts of
       [s] \<Rightarrow> ebind (eval_stmt natural s st) (\<lambda>(res, st').
                Inr (if tw_returnValue st' \<noteq> None then tw_returnValue st' else res))
     | _ \<Rightarrow> ebind (eval_block natural stmts st) (\<lambda>st'.
                Inr (if tw_returnValue st' \<noteq> None then tw_returnValue st' else Some NilV)))"

end
