(* ===== verification/Compiler.thy ===== *)
theory Compiler
  imports TreeWalk
begin

text \<open>
  The compilation of the statements and expressions of the theory TreeWalk (\<open>internal/core/compiler.go\<close>, with the symbol
  tables of \<open>symbol_table.go\<close>): one pass that appends instructions and constants and patches the operands of forward jumps.
  What the symbolic evaluation knows about the left operand of an arithmetic expression is a parameter.
\<close>

section \<open>Symbol tables\<close>

record symbolTable =
  st_store :: "string \<rightharpoonup> nat"
  nextSymbolIndex :: nat

definition newSymbolTable :: symbolTable where
  "newSymbolTable = \<lparr>st_store = (\<lambda>_. None), nextSymbolIndex = 0\<rparr>"

definition st_Define :: "string \<Rightarrow> symbolTable \<Rightarrow> nat \<times> symbolTable" where
  "st_Define name t =
    (nextSymbolIndex t, t\<lparr>nextSymbolIndex := nextSymbolIndex t + 1, st_store := (st_store t)(name \<mapsto> nextSymbolIndex t)\<rparr>)"

definition st_Resolve :: "string \<Rightarrow> symbolTable \<Rightarrow> nat option" where
  "st_Resolve name t = st_store t name"

section \<open>The compiler\<close>

datatype compile_error = UnresolvedReference string | NoSymbolicInformation | CompilePanic

text \<open>
  The current scope, the constants, the names of the globals and the table of the local variables. \<open>symbolic_data\<close> gives the
  most specific symbolic value known for a node: an integer, a float, or neither.
\<close>

record compiler =
  c_scope :: "NodeSpan compiler_scope"
  c_constants :: "Value list"
  globalSymbols :: symbolTable
  localSymbols :: symbolTable

datatype symbolic_value = SymbolicInt | SymbolicFloat | SymbolicOther

type_synonym symbolic_data = "expr \<Rightarrow> symbolic_value option"

definition c_emit :: "NodeSpan \<Rightarrow> nat \<Rightarrow> int list \<Rightarrow> compiler \<Rightarrow> compile_error + (nat \<times> compiler)" where
  "c_emit span op operands c =
    (case emit span op operands (c_scope c) of
       None \<Rightarrow> Inl CompilePanic
     | Some (pos, scope) \<Rightarrow> Inr (pos, c\<lparr>c_scope := scope\<rparr>))"

definition c_emit0 :: "NodeSpan \<Rightarrow> nat \<Rightarrow> int list \<Rightarrow> compiler \<Rightarrow> compile_error + compiler" where
  "c_emit0 span op operands c = ebind (c_emit span op operands c) (\<lambda>(_, c'). Inr c')"

definition c_changeOperand :: "nat \<Rightarrow> int \<Rightarrow> compiler \<Rightarrow> compile_error + compiler" where
  "c_changeOperand pos operand c =
    (case changeOperand pos [operand] (c_scope c) of None \<Rightarrow> Inl CompilePanic | Some scope \<Rightarrow> Inr (c\<lparr>c_scope := scope\<rparr>))"

definition push_constant :: "NodeSpan \<Rightarrow> nat \<Rightarrow> Value \<Rightarrow> compiler \<Rightarrow> compile_error + compiler" where
  "push_constant span op v c =
    (case addConstant v (c_constants c) of (index, cs) \<Rightarrow> c_emit0 span op [int index] (c\<lparr>c_constants := cs\<rparr>))"

abbreviation currentPos :: "compiler \<Rightarrow> nat" where
  "currentPos c \<equiv> length (instructions (c_scope c))"

text \<open>\<open>CompileVar\<close> and the case of \<open>parse.Variable\<close> emit the same instructions.\<close>

definition CompileVar :: "NodeSpan \<Rightarrow> string \<Rightarrow> compiler \<Rightarrow> compile_error + compiler" where
  "CompileVar span name c =
    (if st_Resolve name (globalSymbols c) \<noteq> None then push_constant span OpGetGlobal (StringV name) c
     else (case st_Resolve name (localSymbols c) of
             None \<Rightarrow> Inl (UnresolvedReference name)
           | Some index \<Rightarrow> c_emit0 span OpGetLocal [int index] c))"

fun simple_operator_op :: "BinaryOperator \<Rightarrow> nat" where
  "simple_operator_op LessThan = OpLess"
| "simple_operator_op LessOrEqual = OpLessEqual"
| "simple_operator_op GreaterThan = OpGreater"
| "simple_operator_op GreaterOrEqual = OpGreaterEqual"
| "simple_operator_op Equal = OpEqual"
| "simple_operator_op NotEqual = OpNotEqual"
| "simple_operator_op _ = OpNilCoalesce"

definition is_arithmetic :: "BinaryOperator \<Rightarrow> bool" where
  "is_arithmetic operator \<longleftrightarrow> operator \<in> {Add, Sub, Mul, Div}"

definition is_logical :: "BinaryOperator \<Rightarrow> bool" where
  "is_logical operator \<longleftrightarrow> operator = And \<or> operator = Or"

definition emit_binary :: "symbolic_data \<Rightarrow> NodeSpan \<Rightarrow> BinaryOperator \<Rightarrow> expr \<Rightarrow> compiler \<Rightarrow> compile_error + compiler" where [simp]:
  "emit_binary sd span operator left c =
    (if is_arithmetic operator then
       (case sd left of
          None \<Rightarrow> Inl NoSymbolicInformation
        | Some SymbolicOther \<Rightarrow> c_emit0 span OpPseudoArith [int (BinaryOperator_iota operator)] c
        | Some _ \<Rightarrow> c_emit0 span OpNumBin [int (BinaryOperator_iota operator)] c)
     else c_emit0 span (simple_operator_op operator) [] c)"

fun compile_expr :: "symbolic_data \<Rightarrow> expr \<Rightarrow> compiler \<Rightarrow> compile_error + compiler" where
  "compile_expr sd (IntLiteral span i) c = push_constant span OpPushConstant (IntV i) c"
| "compile_expr sd (FloatLiteral span f) c = push_constant span OpPushConstant (FloatV f) c"
| "compile_expr sd (BooleanLiteral span b) c = c_emit0 span (if b then OpPushTrue else OpPushFalse) [] c"
| "compile_expr sd (NilLiteral span) c = c_emit0 span OpPushNil [] c"
| "compile_expr sd (QuotedStringLiteral span s) c = push_constant span OpPushConstant (StringV s) c"
| "compile_expr sd (IdentifierLiteral span name) c = CompileVar span name c"
| "compile_expr sd (Variable span name) c = CompileVar span name c"
| "compile_expr sd (UnaryExpression span operator operand) c =
    ebind (compile_expr sd operand c) (c_emit0 span (case operator of NumberNegate \<Rightarrow> OpMinus | BoolNegate \<Rightarrow> OpBooleanNot) [])"
| "compile_expr sd (BinaryExpression span operator left right) c =
    (if is_logical operator then
       ebind (compile_expr sd left c) (\<lambda>c1.
       ebind (c_emit span (if operator = And then OpAndJump else OpOrJump) [0] c1) (\<lambda>(jumpPos, c2).
       ebind (compile_expr sd right c2) (\<lambda>c3. c_changeOperand jumpPos (int (currentPos c3)) c3)))
     else
       ebind (compile_expr sd left c) (\<lambda>c1.
       ebind (compile_expr sd right c1) (emit_binary sd span operator left)))"
| "compile_expr sd (IfExpression span test consequent alternate) c =
    ebind (compile_expr sd test c) (\<lambda>c1.
    ebind (c_emit span OpJumpIfFalse [0] c1) (\<lambda>(jumpPos1, c2).
    ebind (compile_expr sd consequent c2) (\<lambda>c3.
    ebind (c_emit span OpJump [0] c3) (\<lambda>(jumpPos2, c4).
    ebind (c_changeOperand jumpPos1 (int (currentPos c4)) c4) (\<lambda>c5.
    ebind (case alternate of Some e \<Rightarrow> compile_expr sd e c5 | None \<Rightarrow> c_emit0 span OpPushNil [] c5) (\<lambda>c6.
      c_changeOperand jumpPos2 (int (currentPos c6)) c6))))))"

definition c_Define :: "string \<Rightarrow> compiler \<Rightarrow> nat \<times> compiler" where
  "c_Define name c = (case st_Define name (localSymbols c) of (i, t) \<Rightarrow> (i, c\<lparr>localSymbols := t\<rparr>))"

definition resolve_or_define :: "string \<Rightarrow> compiler \<Rightarrow> nat \<times> compiler" where
  "resolve_or_define name c = (case st_Resolve name (localSymbols c) of Some i \<Rightarrow> (i, c) | None \<Rightarrow> c_Define name c)"

fun assign_operator :: "AssignmentOperator \<Rightarrow> BinaryOperator option" where
  "assign_operator Assign = None"
| "assign_operator PlusAssign = Some Add"
| "assign_operator MinusAssign = Some Sub"
| "assign_operator MulAssign = Some Mul"
| "assign_operator DivAssign = Some Div"

definition compileAssignOperation :: "symbolic_data \<Rightarrow> NodeSpan \<Rightarrow> AssignmentOperator \<Rightarrow> expr \<Rightarrow> compiler \<Rightarrow> compile_error + compiler" where
  "compileAssignOperation sd span operator rhs c =
    ebind (compile_expr sd rhs c) (\<lambda>c1.
      case assign_operator operator of
        None \<Rightarrow> Inr c1
      | Some b \<Rightarrow> c_emit0 span OpIntBin [int (BinaryOperator_iota b)] c1)"

definition compileAssign :: "symbolic_data \<Rightarrow> NodeSpan \<Rightarrow> AssignmentOperator \<Rightarrow> string \<Rightarrow> expr \<Rightarrow> compiler \<Rightarrow> compile_error + compiler" where
  "compileAssign sd span operator name rhs c =
    (case resolve_or_define name c of
       (i, c1) \<Rightarrow>
         ebind (if operator \<noteq> Assign then c_emit0 span OpGetLocal [int i] c1 else Inr c1) (\<lambda>c2.
         ebind (compileAssignOperation sd span operator rhs c2) (c_emit0 span OpSetLocal [int i])))"

fun compile_declarations :: "symbolic_data \<Rightarrow> NodeSpan \<Rightarrow> (string \<times> expr) list \<Rightarrow> compiler \<Rightarrow> compile_error + compiler" where
  "compile_declarations sd span [] c = Inr c"
| "compile_declarations sd span ((name, right) # decls) c =
    (case c_Define name c of
       (i, c1) \<Rightarrow>
         ebind (compile_expr sd right c1) (\<lambda>c2.
         ebind (c_emit0 span OpSetLocal [int i] c2) (compile_declarations sd span decls)))"

text \<open>\<open>change_all\<close> is the loop that patches the jumps to the end of a switch.\<close>

fun change_all :: "nat list \<Rightarrow> int \<Rightarrow> compiler \<Rightarrow> compile_error + compiler" where
  "change_all [] operand c = Inr c"
| "change_all (pos # ps) operand c = ebind (c_changeOperand pos operand c) (change_all ps operand)"

text \<open>
  \<open>compile_cases\<close> returns the positions of the jumps to the end of the switch; the discriminant is copied for every value but
  the last value of the last case.
\<close>

fun compile_stmt :: "symbolic_data \<Rightarrow> stmt \<Rightarrow> compiler \<Rightarrow> compile_error + compiler"
  and compile_block :: "symbolic_data \<Rightarrow> NodeSpan \<Rightarrow> stmt list \<Rightarrow> compiler \<Rightarrow> compile_error + compiler"
  and compile_cases :: "symbolic_data \<Rightarrow> NodeSpan \<Rightarrow> (expr list \<times> stmt) list \<Rightarrow> nat list \<Rightarrow> compiler
    \<Rightarrow> compile_error + (nat list \<times> compiler)"
where
  "compile_stmt sd (ExprStatement e) c = compile_expr sd e c"
| "compile_stmt sd (LocalVariableDeclarations span decls) c = compile_declarations sd span decls c"
| "compile_stmt sd (Assignment span operator left right) c = compileAssign sd span operator (GetVariableName left) right c"
| "compile_stmt sd (IfStatement span test consequent alternate) c =
    ebind (compile_expr sd test c) (\<lambda>c1.
    ebind (c_emit span OpJumpIfFalse [0] c1) (\<lambda>(jumpPos1, c2).
    ebind (compile_stmt sd consequent c2) (\<lambda>c3.
      case alternate of
        Some s \<Rightarrow>
          ebind (c_emit span OpJump [0] c3) (\<lambda>(jumpPos2, c4).
          ebind (c_changeOperand jumpPos1 (int (currentPos c4)) c4) (\<lambda>c5.
          ebind (compile_stmt sd s c5) (\<lambda>c6. c_changeOperand jumpPos2 (int (currentPos c6)) c6)))
      | None \<Rightarrow> c_changeOperand jumpPos1 (int (currentPos c3)) c3)))"
| "compile_stmt sd (SwitchStatement span discriminant cases defaults) c =
    (if cases = [] then Inr c
     else
       ebind (compile_expr sd discriminant c) (\<lambda>c1.
       ebind (compile_cases sd span cases [] c1) (\<lambda>(jumps, c2).
       ebind (case defaults of s # _ \<Rightarrow> compile_stmt sd s c2 | [] \<Rightarrow> Inr c2) (\<lambda>c3.
         change_all jumps (int (currentPos c3)) c3))))"
| "compile_stmt sd (Block span stmts) c = compile_block sd span stmts c"
| "compile_stmt sd (ReturnStatement span None) c = c_emit0 span OpReturn [0] c"
| "compile_stmt sd (ReturnStatement span (Some e)) c = ebind (compile_expr sd e c) (c_emit0 span OpReturn [1])"
| "compile_block sd span [] c = Inr c"
| "compile_block sd span (s # ss) c =
    ebind (compile_stmt sd s c) (\<lambda>c1.
    ebind (if is_expr s then c_emit0 span OpPop [] c1 else Inr c1) (compile_block sd span ss))"
| "compile_cases sd span [] jumps c = Inr (jumps, c)"
| "compile_cases sd span (([], block) # cases) jumps c = compile_cases sd span cases jumps c"
| "compile_cases sd span ((value # values, block) # cases) jumps c =
    ebind (if cases \<noteq> [] \<or> values \<noteq> [] then c_emit0 span OpCopyTop [] c else Inr c) (\<lambda>c1.
    ebind (compile_expr sd value c1) (\<lambda>c2.
    ebind (c_emit0 span OpEqual [] c2) (\<lambda>c3.
    ebind (c_emit span OpJumpIfFalse [0] c3) (\<lambda>(jumpPos, c4).
    ebind (compile_stmt sd block c4) (\<lambda>c5.
    ebind (c_emit span OpJump [0] c5) (\<lambda>(jumpEnd, c6).
    ebind (c_changeOperand jumpPos (int (currentPos c6)) c6) (\<lambda>c7.
      compile_cases sd span ((values, block) # cases) (jumps @ [jumpEnd]) c7)))))))"

text \<open>
  The compiled module: instructions, constants and number of locals. A panic for too many constants is \<open>CompilePanic\<close>.
\<close>

record compiled =
  cm_code :: "code_byte list"
  cm_constants :: "Value list"
  cm_locals :: nat

definition newCompiler :: "symbolTable \<Rightarrow> compiler" where
  "newCompiler globals = \<lparr>c_scope = \<lparr>instructions = [], sourceMap = (\<lambda>_. None), lastOp = 0\<rparr>, c_constants = [],
     globalSymbols = globals, localSymbols = newSymbolTable\<rparr>"

definition compileMainChunk :: "symbolic_data \<Rightarrow> symbolTable \<Rightarrow> NodeSpan \<Rightarrow> stmt list \<Rightarrow> compile_error + compiled" where
  "compileMainChunk sd globals span stmts =
    ebind (case stmts of
             [] \<Rightarrow> c_emit0 span OpPushNil [] (newCompiler globals)
           | [s] \<Rightarrow> compile_stmt sd s (newCompiler globals)
           | _ \<Rightarrow> compile_block sd span stmts (newCompiler globals)) (\<lambda>c.
      if length (c_constants c) > 65535 then Inl CompilePanic
      else Inr \<lparr>cm_code = instructions (c_scope c) @ [of_nat OpSuspendVM], cm_constants = c_constants c,
                cm_locals = nextSymbolIndex (localSymbols c)\<rparr>)"

end
