(* ===== verification/CodeGen.thy ===== *)
theory CodeGen
  imports Compiler
begin

text \<open>
  A reference code generator for the statements of the theory TreeWalk: it computes the length of every piece of code first, so
  that the targets of jumps are known when they are written, and never patches an instruction. The compiler produces exactly its
  code, constants and symbol table.
\<close>

section \<open>Expressions\<close>

type_synonym global_names = "string \<Rightarrow> bool"

fun expr_consts :: "global_names \<Rightarrow> expr \<Rightarrow> Value list" where
  "expr_consts G (IntLiteral _ i) = [IntV i]"
| "expr_consts G (FloatLiteral _ f) = [FloatV f]"
| "expr_consts G (QuotedStringLiteral _ s) = [StringV s]"
| "expr_consts G (IdentifierLiteral _ name) = (if G name then [StringV name] else [])"
| "expr_consts G (Variable _ name) = (if G name then [StringV name] else [])"
| "expr_consts G (UnaryExpression _ _ e) = expr_consts G e"
| "expr_consts G (BinaryExpression _ _ l r) = expr_consts G l @ expr_consts G r"
| "expr_consts G (IfExpression _ t c alt) =
     expr_consts G t @ expr_consts G c @ (case alt of Some e \<Rightarrow> expr_consts G e | None \<Rightarrow> [])"
| "expr_consts G _ = []"

fun expr_len :: "global_names \<Rightarrow> expr \<Rightarrow> nat" where
  "expr_len G (BooleanLiteral _ _) = 1"
| "expr_len G (NilLiteral _) = 1"
| "expr_len G (IdentifierLiteral _ name) = (if G name then 3 else 2)"
| "expr_len G (Variable _ name) = (if G name then 3 else 2)"
| "expr_len G (UnaryExpression _ _ e) = expr_len G e + 1"
| "expr_len G (BinaryExpression _ operator l r) =
     expr_len G l + expr_len G r + (if is_logical operator then 3 else if is_arithmetic operator then 2 else 1)"
| "expr_len G (IfExpression _ t c alt) =
     expr_len G t + 3 + expr_len G c + 3 + (case alt of Some e \<Rightarrow> expr_len G e | None \<Rightarrow> 1)"
| "expr_len G _ = 3"

definition var_code :: "global_names \<Rightarrow> (string \<rightharpoonup> nat) \<Rightarrow> nat \<Rightarrow> string \<Rightarrow> instr list" where
  "var_code G L k name = (if G name then [(OpGetGlobal, [int k])] else [(OpGetLocal, [int (the (L name))])])"

definition arith_op :: "symbolic_data \<Rightarrow> expr \<Rightarrow> nat" where
  "arith_op sd left = (if sd left = Some SymbolicOther then OpPseudoArith else OpNumBin)"

text \<open>The code at address \<open>a\<close> when \<open>k\<close> constants precede.\<close>

fun expr_code :: "symbolic_data \<Rightarrow> global_names \<Rightarrow> (string \<rightharpoonup> nat) \<Rightarrow> nat \<Rightarrow> nat \<Rightarrow> expr \<Rightarrow> instr list" where
  "expr_code sd G L a k (BooleanLiteral _ b) = [(if b then OpPushTrue else OpPushFalse, [])]"
| "expr_code sd G L a k (NilLiteral _) = [(OpPushNil, [])]"
| "expr_code sd G L a k (IdentifierLiteral _ name) = var_code G L k name"
| "expr_code sd G L a k (Variable _ name) = var_code G L k name"
| "expr_code sd G L a k (UnaryExpression _ operator e) =
     expr_code sd G L a k e @ [(case operator of NumberNegate \<Rightarrow> OpMinus | BoolNegate \<Rightarrow> OpBooleanNot, [])]"
| "expr_code sd G L a k (BinaryExpression _ operator l r) =
    (if is_logical operator then
       expr_code sd G L a k l @
       [(if operator = And then OpAndJump else OpOrJump, [int (a + expr_len G l + 3 + expr_len G r)])] @
       expr_code sd G L (a + expr_len G l + 3) (k + length (expr_consts G l)) r
     else
       expr_code sd G L a k l @ expr_code sd G L (a + expr_len G l) (k + length (expr_consts G l)) r @
       [if is_arithmetic operator then (arith_op sd l, [int (BinaryOperator_iota operator)]) else (simple_operator_op operator, [])])"
| "expr_code sd G L a k (IfExpression _ t c alt) =
    (let a1 = a + expr_len G t + 3; k1 = k + length (expr_consts G t);
         a2 = a1 + expr_len G c + 3; k2 = k1 + length (expr_consts G c);
         a3 = a2 + (case alt of Some e \<Rightarrow> expr_len G e | None \<Rightarrow> 1)
     in expr_code sd G L a k t @ [(OpJumpIfFalse, [int a2])] @ expr_code sd G L a1 k1 c @ [(OpJump, [int a3])] @
        (case alt of Some e \<Rightarrow> expr_code sd G L a2 k2 e | None \<Rightarrow> [(OpPushNil, [])]))"
| "expr_code sd G L a k _ = [(OpPushConstant, [int k])]"

section \<open>Statements\<close>

fun decls_consts :: "global_names \<Rightarrow> (string \<times> expr) list \<Rightarrow> Value list" where
  "decls_consts G [] = []"
| "decls_consts G ((_, e) # ds) = expr_consts G e @ decls_consts G ds"

fun decls_len :: "global_names \<Rightarrow> (string \<times> expr) list \<Rightarrow> nat" where
  "decls_len G [] = 0"
| "decls_len G ((_, e) # ds) = expr_len G e + 2 + decls_len G ds"

definition define_local :: "string \<Rightarrow> symbolTable \<Rightarrow> symbolTable" where
  "define_local name T = snd (st_Define name T)"

definition assign_local :: "string \<Rightarrow> symbolTable \<Rightarrow> symbolTable" where
  "assign_local name T = (if st_store T name = None then define_local name T else T)"

fun decls_table :: "(string \<times> expr) list \<Rightarrow> symbolTable \<Rightarrow> symbolTable" where
  "decls_table [] T = T"
| "decls_table ((name, _) # ds) T = decls_table ds (define_local name T)"

fun decls_code :: "symbolic_data \<Rightarrow> global_names \<Rightarrow> symbolTable \<Rightarrow> nat \<Rightarrow> nat \<Rightarrow> (string \<times> expr) list \<Rightarrow> instr list" where
  "decls_code sd G T a k [] = []"
| "decls_code sd G T a k ((name, e) # ds) =
    (let T' = define_local name T in
     expr_code sd G (st_store T') a k e @ [(OpSetLocal, [int (nextSymbolIndex T)])] @
     decls_code sd G T' (a + expr_len G e + 2) (k + length (expr_consts G e)) ds)"

definition assign_code :: "symbolic_data \<Rightarrow> global_names \<Rightarrow> symbolTable \<Rightarrow> nat \<Rightarrow> nat \<Rightarrow> AssignmentOperator \<Rightarrow> string \<Rightarrow> expr \<Rightarrow> instr list" where
  "assign_code sd G T a k operator name e =
    (let T' = assign_local name T; i = int (the (st_store T' name)) in
     case assign_operator operator of
       None \<Rightarrow> expr_code sd G (st_store T') a k e @ [(OpSetLocal, [i])]
     | Some b \<Rightarrow> [(OpGetLocal, [i])] @ expr_code sd G (st_store T') (a + 2) k e @
                [(OpIntBin, [int (BinaryOperator_iota b)]), (OpSetLocal, [i])])"

fun stmt_consts :: "global_names \<Rightarrow> stmt \<Rightarrow> Value list"
  and block_consts :: "global_names \<Rightarrow> stmt list \<Rightarrow> Value list"
  and cases_consts :: "global_names \<Rightarrow> (expr list \<times> stmt) list \<Rightarrow> Value list"
where
  "stmt_consts G (ExprStatement e) = expr_consts G e"
| "stmt_consts G (LocalVariableDeclarations _ ds) = decls_consts G ds"
| "stmt_consts G (Assignment _ _ _ e) = expr_consts G e"
| "stmt_consts G (IfStatement _ t c alt) =
     expr_consts G t @ stmt_consts G c @ (case alt of Some s \<Rightarrow> stmt_consts G s | None \<Rightarrow> [])"
| "stmt_consts G (SwitchStatement _ d cs defs) =
     (if cs = [] then []
      else expr_consts G d @ cases_consts G cs @ (case defs of s # _ \<Rightarrow> stmt_consts G s | [] \<Rightarrow> []))"
| "stmt_consts G (Block _ ss) = block_consts G ss"
| "stmt_consts G (ReturnStatement _ None) = []"
| "stmt_consts G (ReturnStatement _ (Some e)) = expr_consts G e"
| "block_consts G [] = []"
| "block_consts G (s # ss) = stmt_consts G s @ block_consts G ss"
| "cases_consts G [] = []"
| "cases_consts G (([], b) # cs) = cases_consts G cs"
| "cases_consts G ((v # vs, b) # cs) = expr_consts G v @ stmt_consts G b @ cases_consts G ((vs, b) # cs)"

fun stmt_len :: "global_names \<Rightarrow> stmt \<Rightarrow> nat"
  and block_len :: "global_names \<Rightarrow> stmt list \<Rightarrow> nat"
  and cases_len :: "global_names \<Rightarrow> (expr list \<times> stmt) list \<Rightarrow> nat"
where
  "stmt_len G (ExprStatement e) = expr_len G e"
| "stmt_len G (LocalVariableDeclarations _ ds) = decls_len G ds"
| "stmt_len G (Assignment _ operator _ e) = expr_len G e + (if operator = Assign then 2 else 6)"
| "stmt_len G (IfStatement _ t c alt) =
     expr_len G t + 3 + stmt_len G c + (case alt of Some s \<Rightarrow> 3 + stmt_len G s | None \<Rightarrow> 0)"
| "stmt_len G (SwitchStatement _ d cs defs) =
     (if cs = [] then 0
      else expr_len G d + cases_len G cs + (case defs of s # _ \<Rightarrow> stmt_len G s | [] \<Rightarrow> 0))"
| "stmt_len G (Block _ ss) = block_len G ss"
| "stmt_len G (ReturnStatement _ None) = 2"
| "stmt_len G (ReturnStatement _ (Some e)) = expr_len G e + 2"
| "block_len G [] = 0"
| "block_len G (s # ss) = stmt_len G s + (if is_expr s then 1 else 0) + block_len G ss"
| "cases_len G [] = 0"
| "cases_len G (([], b) # cs) = cases_len G cs"
| "cases_len G ((v # vs, b) # cs) =
     (if cs \<noteq> [] \<or> vs \<noteq> [] then 1 else 0) + expr_len G v + 4 + stmt_len G b + 3 + cases_len G ((vs, b) # cs)"

fun stmt_table :: "stmt \<Rightarrow> symbolTable \<Rightarrow> symbolTable"
  and block_table :: "stmt list \<Rightarrow> symbolTable \<Rightarrow> symbolTable"
  and cases_table :: "(expr list \<times> stmt) list \<Rightarrow> symbolTable \<Rightarrow> symbolTable"
where
  "stmt_table (ExprStatement _) T = T"
| "stmt_table (LocalVariableDeclarations _ ds) T = decls_table ds T"
| "stmt_table (Assignment _ _ left _) T = assign_local (GetVariableName left) T"
| "stmt_table (IfStatement _ _ c alt) T = (case alt of Some s \<Rightarrow> stmt_table s (stmt_table c T) | None \<Rightarrow> stmt_table c T)"
| "stmt_table (SwitchStatement _ _ cs defs) T =
     (if cs = [] then T
      else (case defs of s # _ \<Rightarrow> stmt_table s (cases_table cs T) | [] \<Rightarrow> cases_table cs T))"
| "stmt_table (Block _ ss) T = block_table ss T"
| "stmt_table (ReturnStatement _ _) T = T"
| "block_table [] T = T"
| "block_table (s # ss) T = block_table ss (stmt_table s T)"
| "cases_table [] T = T"
| "cases_table (([], b) # cs) T = cases_table cs T"
| "cases_table ((v # vs, b) # cs) T = cases_table ((vs, b) # cs) (stmt_table b T)"

fun stmt_code :: "symbolic_data \<Rightarrow> global_names \<Rightarrow> symbolTable \<Rightarrow> nat \<Rightarrow> nat \<Rightarrow> stmt \<Rightarrow> instr list"
  and block_code :: "symbolic_data \<Rightarrow> global_names \<Rightarrow> symbolTable \<Rightarrow> nat \<Rightarrow> nat \<Rightarrow> stmt list \<Rightarrow> instr list"
  and cases_code :: "symbolic_data \<Rightarrow> global_names \<Rightarrow> symbolTable \<Rightarrow> nat \<Rightarrow> nat \<Rightarrow> nat \<Rightarrow> (expr list \<times> stmt) list \<Rightarrow> instr list"
where
  "stmt_code sd G T a k (ExprStatement e) = expr_code sd G (st_store T) a k e"
| "stmt_code sd G T a k (LocalVariableDeclarations _ ds) = decls_code sd G T a k ds"
| "stmt_code sd G T a k (Assignment _ operator left e) = assign_code sd G T a k operator (GetVariableName left) e"
| "stmt_code sd G T a k (IfStatement _ t c alt) =
    (let a1 = a + expr_len G t + 3; k1 = k + length (expr_consts G t);
         a2 = a1 + stmt_len G c; k2 = k1 + length (stmt_consts G c)
     in expr_code sd G (st_store T) a k t @
        (case alt of
           Some s \<Rightarrow> [(OpJumpIfFalse, [int (a2 + 3)])] @ stmt_code sd G T a1 k1 c @
                     [(OpJump, [int (a2 + 3 + stmt_len G s)])] @ stmt_code sd G (stmt_table c T) (a2 + 3) k2 s
         | None \<Rightarrow> [(OpJumpIfFalse, [int a2])] @ stmt_code sd G T a1 k1 c))"
| "stmt_code sd G T a k (SwitchStatement _ d cs defs) =
    (if cs = [] then []
     else
       (let a1 = a + expr_len G d; k1 = k + length (expr_consts G d);
            a2 = a1 + cases_len G cs; k2 = k1 + length (cases_consts G cs);
            a3 = a2 + (case defs of s # _ \<Rightarrow> stmt_len G s | [] \<Rightarrow> 0)
        in expr_code sd G (st_store T) a k d @ cases_code sd G T a1 k1 a3 cs @
           (case defs of s # _ \<Rightarrow> stmt_code sd G (cases_table cs T) a2 k2 s | [] \<Rightarrow> [])))"
| "stmt_code sd G T a k (Block _ ss) = block_code sd G T a k ss"
| "stmt_code sd G T a k (ReturnStatement _ None) = [(OpReturn, [0])]"
| "stmt_code sd G T a k (ReturnStatement _ (Some e)) = expr_code sd G (st_store T) a k e @ [(OpReturn, [1])]"
| "block_code sd G T a k [] = []"
| "block_code sd G T a k (s # ss) =
     stmt_code sd G T a k s @ (if is_expr s then [(OpPop, [])] else []) @
     block_code sd G (stmt_table s T) (a + stmt_len G s + (if is_expr s then 1 else 0)) (k + length (stmt_consts G s)) ss"
| "cases_code sd G T a k a_end [] = []"
| "cases_code sd G T a k a_end (([], b) # cs) = cases_code sd G T a k a_end cs"
| "cases_code sd G T a k a_end ((v # vs, b) # cs) =
    (let copy = (if cs \<noteq> [] \<or> vs \<noteq> [] then [(OpCopyTop, [])] else []);
         a0 = a + length copy; a1 = a0 + expr_len G v + 4; k1 = k + length (expr_consts G v);
         a2 = a1 + stmt_len G b + 3; k2 = k1 + length (stmt_consts G b)
     in copy @ expr_code sd G (st_store T) a0 k v @ [(OpEqual, []), (OpJumpIfFalse, [int a2])] @
        stmt_code sd G T a1 k1 b @ [(OpJump, [int a_end])] @
        cases_code sd G (stmt_table b T) a2 k2 a_end ((vs, b) # cs))"

section \<open>Lengths\<close>

lemma rows [simp]:
  "OpcodeOperands OpPushConstant = Some [2]" "OpcodeOperands OpPushNil = Some []" "OpcodeOperands OpPop = Some []"
  "OpcodeOperands OpCopyTop = Some []" "OpcodeOperands OpPushTrue = Some []" "OpcodeOperands OpPushFalse = Some []"
  "OpcodeOperands OpJumpIfFalse = Some [2]" "OpcodeOperands OpAndJump = Some [2]" "OpcodeOperands OpOrJump = Some [2]"
  "OpcodeOperands OpJump = Some [2]" "OpcodeOperands OpReturn = Some [1]" "OpcodeOperands OpLess = Some []"
  "OpcodeOperands OpLessEqual = Some []" "OpcodeOperands OpGreater = Some []" "OpcodeOperands OpGreaterEqual = Some []"
  "OpcodeOperands OpIntBin = Some [1]" "OpcodeOperands OpNumBin = Some [1]" "OpcodeOperands OpPseudoArith = Some [1]"
  "OpcodeOperands OpMinus = Some []" "OpcodeOperands OpEqual = Some []" "OpcodeOperands OpNotEqual = Some []"
  "OpcodeOperands OpBooleanNot = Some []" "OpcodeOperands OpNilCoalesce = Some []" "OpcodeOperands OpSetLocal = Some [1]"
  "OpcodeOperands OpGetLocal = Some [1]" "OpcodeOperands OpGetGlobal = Some [2]"
  unfolding OpcodeOperands_def array_index_def array_lens by (simp_all add: OpcodeOperands_table_def)

lemma row_Pop [simp]: "OpcodeOperands (Suc 0) = Some []"
  using rows(3) by simp

lemma asm_simps [simp]: "asm [] = []" "asm (x # xs) = enc x @ asm xs" "asm (xs @ ys) = asm xs @ asm ys"
  by (simp_all add: asm_def)

lemma len_enc [simp]:
  "OpcodeOperands op = Some [] \<Longrightarrow> length (enc (op, [])) = 1"
  "OpcodeOperands op = Some [1] \<Longrightarrow> length (enc (op, [x])) = 2"
  "OpcodeOperands op = Some [2] \<Longrightarrow> length (enc (op, [x])) = 3"
  using length_enc[of op "[]" "[]"] length_enc[of op "[1]" "[x]"] length_enc[of op "[2]" "[x]"] by simp_all

lemma simple_operator_row [simp]: "OpcodeOperands (simple_operator_op operator) = Some []"
  by (cases operator) simp_all

lemma arith_op_row [simp]: "OpcodeOperands (arith_op sd l) = Some [1]"
  by (simp add: arith_op_def)

lemma length_expr_code [simp]: "length (asm (expr_code sd G L a k e)) = expr_len G e"
  by (induction sd G L a k e rule: expr_code.induct)
    (auto simp: var_code_def Let_def split: option.splits UnaryOperator.splits)

lemma length_decls_code [simp]: "length (asm (decls_code sd G T a k ds)) = decls_len G ds"
  by (induction sd G T a k ds rule: decls_code.induct) (auto simp: Let_def)

lemma length_assign_code [simp]:
  "length (asm (assign_code sd G T a k operator name e)) = expr_len G e + (if operator = Assign then 2 else 6)"
  by (cases operator) (simp_all add: assign_code_def Let_def)

lemma length_stmt_code [simp]:
  "length (asm (stmt_code sd G T a k s)) = stmt_len G s"
  "length (asm (block_code sd G T a k ss)) = block_len G ss"
  "length (asm (cases_code sd G T a k a_end cs)) = cases_len G cs"
  by (induction sd G T a k s and sd G T a k ss and sd G T a k a_end cs rule: stmt_code_block_code_cases_code.induct)
    (auto simp: Let_def split: option.splits list.splits)

section \<open>The compiler generates this code\<close>

text \<open>What a piece of compilation adds to the state of the compiler.\<close>

definition globals_of :: "compiler \<Rightarrow> global_names" where
  "globals_of c name \<longleftrightarrow> st_Resolve name (globalSymbols c) \<noteq> None"

definition adds :: "compiler \<Rightarrow> code_byte list \<Rightarrow> Value list \<Rightarrow> symbolTable \<Rightarrow> compiler \<Rightarrow> bool" where
  "adds c bs vs T c' \<longleftrightarrow> instructions (c_scope c') = instructions (c_scope c) @ bs \<and>
     c_constants c' = c_constants c @ vs \<and> globalSymbols c' = globalSymbols c \<and> localSymbols c' = T"

lemma adds_trans:
  "adds c bs vs T c1 \<Longrightarrow> adds c1 bs' vs' T' c2 \<Longrightarrow> adds c (bs @ bs') (vs @ vs') T' c2"
  by (simp add: adds_def)

lemma addsD:
  assumes "adds c bs vs T c'"
  shows "currentPos c' = currentPos c + length bs" "length (c_constants c') = length (c_constants c) + length vs"
    "globals_of c' = globals_of c" "localSymbols c' = T"
  using assms by (auto simp: adds_def globals_of_def fun_eq_iff)

lemma c_emit_adds:
  assumes "c_emit span op os c = Inr (pos, c')" and "OpcodeOperands op = Some ws" and "length os = length ws"
  shows "pos = currentPos c \<and> adds c (enc (op, os)) [] (localSymbols c) c'"
  using assms MakeInstruction_enc[OF assms(2,3)]
  by (auto simp: c_emit_def emit_def addInstruction_def adds_def)

lemma c_emit0_adds:
  assumes "c_emit0 span op os c = Inr c'" and "OpcodeOperands op = Some ws" and "length os = length ws"
  shows "adds c (enc (op, os)) [] (localSymbols c) c'"
  using assms c_emit_adds[of span op os c _ c' ws] by (auto simp: c_emit0_def)

lemma push_constant_adds:
  assumes "push_constant span op v c = Inr c'" and "OpcodeOperands op = Some [2]"
  shows "adds c (enc (op, [int (length (c_constants c))])) [v] (localSymbols c) c'"
  using assms(1) c_emit0_adds[OF _ assms(2), of span _ _ c'] assms(2)
  by (fastforce simp: push_constant_def addConstant_def adds_def)

lemma adds_patch:
  assumes "adds c (pre @ enc (op, [x]) @ post) vs T c1" and "OpcodeOperands op = Some [2]"
    and "c_changeOperand pos y c1 = Inr c2" and "pos = currentPos c + length pre"
  shows "adds c (pre @ enc (op, [y]) @ post) vs T c2"
proof -
  have "instructions (c_scope c1) = (instructions (c_scope c) @ pre) @ enc (op, [x]) @ post"
    using assms(1) by (simp add: adds_def)
  from changeOperand_bytes[OF assms(2) _ _ this, of "[y]"] show ?thesis
    using assms(1,3,4) by (auto simp: c_changeOperand_def adds_def)
qed

lemma patch_succeeds:
  assumes "adds c (pre @ enc (op, [x]) @ post) vs T c1" and "OpcodeOperands op = Some [2]" and "pos = currentPos c + length pre"
  shows "\<exists>c2. c_changeOperand pos y c1 = Inr c2"
proof -
  have "instructions (c_scope c1) = (instructions (c_scope c) @ pre) @ enc (op, [x]) @ post"
    using assms(1) by (simp add: adds_def)
  from changeOperand_bytes[OF assms(2) _ _ this, of "[y]"] show ?thesis using assms(3) by (simp add: c_changeOperand_def)
qed

lemma CompileVar_adds:
  assumes "CompileVar span name c = Inr c'"
  shows "adds c (asm (var_code (globals_of c) (st_store (localSymbols c)) (length (c_constants c)) name))
    (if globals_of c name then [StringV name] else []) (localSymbols c) c'"
proof (cases "st_Resolve name (globalSymbols c) = None")
  case True
  then show ?thesis using assms
    by (auto simp: CompileVar_def var_code_def globals_of_def st_Resolve_def split: option.splits dest!: c_emit0_adds[where ws = "[1]"])
next
  case False
  then show ?thesis using assms push_constant_adds[of span OpGetGlobal "StringV name" c c']
    by (auto simp: CompileVar_def var_code_def globals_of_def)
qed

lemma compile_expr_adds:
  assumes "compile_expr sd e c = Inr c'"
  shows "adds c (asm (expr_code sd (globals_of c) (st_store (localSymbols c)) (currentPos c) (length (c_constants c)) e))
    (expr_consts (globals_of c) e) (localSymbols c) c'"
  using assms
proof (induction sd e c arbitrary: c' rule: compile_expr.induct)
  case (8 sd span operator operand c)
  then obtain c1 where c1: "compile_expr sd operand c = Inr c1"
    and e: "c_emit0 span (case operator of NumberNegate \<Rightarrow> OpMinus | BoolNegate \<Rightarrow> OpBooleanNot) [] c1 = Inr c'"
    by auto
  show ?case using "8.IH"[OF c1] c_emit0_adds[OF e, of "[]"] by (cases operator) (simp_all add: adds_def)
next
  case (9 sd span operator left right c)
  show ?case
  proof (cases "is_logical operator")
    case True
    let ?op = "if operator = And then OpAndJump else OpOrJump"
    from True "9.prems" obtain c1 jumpPos c2 c3 where
      c1: "compile_expr sd left c = Inr c1" and c2: "c_emit span ?op [0] c1 = Inr (jumpPos, c2)" and
      c3: "compile_expr sd right c2 = Inr c3" and c4: "c_changeOperand jumpPos (int (currentPos c3)) c3 = Inr c'"
      by auto
    note A1 = "9.IH"(1)[OF True c1]
    have A2: "jumpPos = currentPos c1" "adds c1 (enc (?op, [0])) [] (localSymbols c1) c2"
      using c_emit_adds[OF c2, of "[2]"] by simp_all
    note A3 = "9.IH"(2)[OF True c1 c2 refl c3]
    have row: "OpcodeOperands ?op = Some [2]" by simp
    note A = adds_trans[OF A1 adds_trans[OF A2(2) A3]]
    show ?thesis
      using adds_patch[OF A row c4] True
      by (cases "operator = And") (simp_all add: addsD[OF A1] addsD[OF A2(2)] addsD[OF A3] A2(1) ac_simps numeral_3_eq_3)
  next
    case False
    from False "9.prems" obtain c1 c2 where
      c1: "compile_expr sd left c = Inr c1" and c2: "compile_expr sd right c1 = Inr c2"
      by (auto split: if_splits)
    note A1 = "9.IH"(3)[OF False c1]
    note A2 = "9.IH"(4)[OF False c1 c2]
    define x where "x = (if is_arithmetic operator then (arith_op sd left, [int (BinaryOperator_iota operator)])
      else (simple_operator_op operator, []))"
    have "c_emit0 span (fst x) (snd x) c2 = Inr c'"
      using False "9.prems" c1 c2
      by (cases "sd left") (auto simp: x_def arith_op_def split: if_splits symbolic_value.splits)
    from c_emit0_adds[OF this, of "if is_arithmetic operator then [1] else []"]
    have "adds c2 (enc x) [] (localSymbols c2) c'" by (simp add: x_def split: if_splits)
    from adds_trans[OF A1 adds_trans[OF A2 this]] False
    show ?thesis by (simp add: x_def addsD[OF A1] addsD[OF A2])
  qed
next
  case (10 sd span test consequent alternate c)
  then obtain c1 j1 c2 c3 j2 c4 c5 c6 where
    c1: "compile_expr sd test c = Inr c1" and c2: "c_emit span OpJumpIfFalse [0] c1 = Inr (j1, c2)" and
    c3: "compile_expr sd consequent c2 = Inr c3" and c4: "c_emit span OpJump [0] c3 = Inr (j2, c4)" and
    c5: "c_changeOperand j1 (int (currentPos c4)) c4 = Inr c5" and
    c6: "(case alternate of Some e \<Rightarrow> compile_expr sd e c5 | None \<Rightarrow> c_emit0 span OpPushNil [] c5) = Inr c6" and
    c7: "c_changeOperand j2 (int (currentPos c6)) c6 = Inr c'"
    by auto
  note A1 = "10.IH"(1)[OF c1]
  have A2: "j1 = currentPos c1" "adds c1 (enc (OpJumpIfFalse, [0])) [] (localSymbols c1) c2"
    using c_emit_adds[OF c2, of "[2]"] by simp_all
  note A3 = "10.IH"(2)[OF c1 c2 refl c3]
  have A4: "j2 = currentPos c3" "adds c3 (enc (OpJump, [0])) [] (localSymbols c3) c4"
    using c_emit_adds[OF c4, of "[2]"] by simp_all
  note A14 = adds_trans[OF A1 adds_trans[OF A2(2) adds_trans[OF A3 A4(2)]]]
  have A5: "adds c (asm (expr_code sd (globals_of c) (st_store (localSymbols c)) (currentPos c) (length (c_constants c)) test) @
      enc (OpJumpIfFalse, [int (currentPos c4)]) @
      asm (expr_code sd (globals_of c2) (st_store (localSymbols c2)) (currentPos c2) (length (c_constants c2)) consequent) @
      enc (OpJump, [0])) (expr_consts (globals_of c) test @ expr_consts (globals_of c2) consequent) (localSymbols c3) c5"
    using adds_patch[OF A14 rows(7) c5] by (simp add: A2(1) addsD(1)[OF A1])
  have A6: "adds c5 (asm (case alternate of
        Some e \<Rightarrow> expr_code sd (globals_of c5) (st_store (localSymbols c5)) (currentPos c5) (length (c_constants c5)) e
      | None \<Rightarrow> [(OpPushNil, [])])) (case alternate of Some e \<Rightarrow> expr_consts (globals_of c5) e | None \<Rightarrow> []) (localSymbols c5) c6"
    using c6 "10.IH"(3)[OF c1 c2 refl c3 c4 refl c5] c_emit0_adds[of span OpPushNil "[]" c5 c6 "[]"]
    by (cases alternate) simp_all
  have A56: "adds c ((asm (expr_code sd (globals_of c) (st_store (localSymbols c)) (currentPos c) (length (c_constants c)) test) @
      enc (OpJumpIfFalse, [int (currentPos c4)]) @
      asm (expr_code sd (globals_of c2) (st_store (localSymbols c2)) (currentPos c2) (length (c_constants c2)) consequent)) @
      enc (OpJump, [0]) @ asm (case alternate of
        Some e \<Rightarrow> expr_code sd (globals_of c5) (st_store (localSymbols c5)) (currentPos c5) (length (c_constants c5)) e
      | None \<Rightarrow> [(OpPushNil, [])]))
      ((expr_consts (globals_of c) test @ expr_consts (globals_of c2) consequent) @
       (case alternate of Some e \<Rightarrow> expr_consts (globals_of c5) e | None \<Rightarrow> [])) (localSymbols c5) c6"
    using adds_trans[OF A5 A6] by simp
  show ?case
    using adds_patch[OF A56 rows(10) c7]
    by (cases alternate) (simp_all add: addsD[OF A1] addsD[OF A2(2)] addsD[OF A3] addsD[OF A4(2)] addsD[OF A5] addsD[OF A6] A4(1)
        Let_def ac_simps numeral_3_eq_3)
qed (auto simp: adds_def dest!: push_constant_adds c_emit0_adds[where ws = "[]"] CompileVar_adds)

lemma c_Define_adds: "c_Define name c = (i, c') \<Longrightarrow> i = nextSymbolIndex (localSymbols c) \<and> adds c [] [] (define_local name (localSymbols c)) c'"
  by (auto simp: c_Define_def define_local_def st_Define_def adds_def)

lemma compile_declarations_adds:
  assumes "compile_declarations sd span ds c = Inr c'"
  shows "adds c (asm (decls_code sd (globals_of c) (localSymbols c) (currentPos c) (length (c_constants c)) ds))
    (decls_consts (globals_of c) ds) (decls_table ds (localSymbols c)) c'"
  using assms
proof (induction sd span ds c arbitrary: c' rule: compile_declarations.induct)
  case (2 sd span name right ds c)
  obtain i c1 where d: "c_Define name c = (i, c1)" by fastforce
  with "2.prems" obtain c2 c3 where c2: "compile_expr sd right c1 = Inr c2" and
    c3: "c_emit0 span OpSetLocal [int i] c2 = Inr c3" and c4: "compile_declarations sd span ds c3 = Inr c'"
    by auto
  have A1: "i = nextSymbolIndex (localSymbols c)" "adds c [] [] (define_local name (localSymbols c)) c1"
    using c_Define_adds[OF d] by simp_all
  note A2 = compile_expr_adds[OF c2]
  have A3: "adds c2 (enc (OpSetLocal, [int i])) [] (localSymbols c2) c3"
    by (rule c_emit0_adds[OF c3, of "[1]"]) simp_all
  note A4 = "2.IH"[OF d[symmetric] c2 c3 c4]
  show ?case
    using adds_trans[OF A1(2) adds_trans[OF A2 adds_trans[OF A3 A4]]]
    by (simp add: addsD[OF A1(2)] addsD[OF A2] addsD[OF A3] A1(1) Let_def numeral_2_eq_2)
qed (simp add: adds_def)

lemma resolve_or_define_adds:
  assumes "resolve_or_define name c = (i, c')"
  shows "i = the (st_store (assign_local name (localSymbols c)) name) \<and> adds c [] [] (assign_local name (localSymbols c)) c'"
  using assms c_Define_adds[of name c i c']
  by (auto simp: resolve_or_define_def assign_local_def define_local_def st_Define_def st_Resolve_def adds_def split: option.splits)

lemma compileAssign_adds:
  assumes "compileAssign sd span operator name e c = Inr c'"
  shows "adds c (asm (assign_code sd (globals_of c) (localSymbols c) (currentPos c) (length (c_constants c)) operator name e))
    (expr_consts (globals_of c) e) (assign_local name (localSymbols c)) c'"
proof -
  obtain i c1 where d: "resolve_or_define name c = (i, c1)" by fastforce
  with assms obtain c2 c3 c4 where
    c2: "(if operator \<noteq> Assign then c_emit0 span OpGetLocal [int i] c1 else Inr c1) = Inr c2" and
    c3: "compile_expr sd e c2 = Inr c3" and
    c4: "(case assign_operator operator of None \<Rightarrow> Inr c3 | Some b \<Rightarrow> c_emit0 span OpIntBin [int (BinaryOperator_iota b)] c3) = Inr c4" and
    c5: "c_emit0 span OpSetLocal [int i] c4 = Inr c'"
    by (auto simp: compileAssign_def compileAssignOperation_def)
  have A1: "i = the (st_store (assign_local name (localSymbols c)) name)" "adds c [] [] (assign_local name (localSymbols c)) c1"
    using resolve_or_define_adds[OF d] by simp_all
  have A2: "adds c1 (if operator \<noteq> Assign then enc (OpGetLocal, [int i]) else []) [] (localSymbols c1) c2"
    using c2 c_emit0_adds[of span OpGetLocal "[int i]" c1 c2 "[1]"] by (auto simp: adds_def split: if_splits)
  note A3 = compile_expr_adds[OF c3]
  have A4: "adds c3 (case assign_operator operator of None \<Rightarrow> [] | Some b \<Rightarrow> enc (OpIntBin, [int (BinaryOperator_iota b)])) []
      (localSymbols c3) c4"
    using c4 c_emit0_adds[of span OpIntBin _ c3 c4 "[1]"] by (auto simp: adds_def split: option.splits)
  have A5: "adds c4 (enc (OpSetLocal, [int i])) [] (localSymbols c4) c'"
    by (rule c_emit0_adds[OF c5, of "[1]"]) simp_all
  show ?thesis
    using adds_trans[OF A1(2) adds_trans[OF A2 adds_trans[OF A3 adds_trans[OF A4 A5]]]]
    by (cases operator) (simp_all add: assign_code_def addsD[OF A1(2)] addsD[OF A2] addsD[OF A3] addsD[OF A4] A1(1) Let_def)
qed

section \<open>Switches\<close>

fun cases_jumps :: "global_names \<Rightarrow> nat \<Rightarrow> (expr list \<times> stmt) list \<Rightarrow> nat list" where
  "cases_jumps G a [] = []"
| "cases_jumps G a (([], b) # cs) = cases_jumps G a cs"
| "cases_jumps G a ((v # vs, b) # cs) =
    (let j = a + (if cs \<noteq> [] \<or> vs \<noteq> [] then 1 else 0) + expr_len G v + 4 + stmt_len G b
     in j # cases_jumps G (j + 3) ((vs, b) # cs))"

lemma asm_case:
  assumes "j = a + (if cs \<noteq> [] \<or> vs \<noteq> [] then 1 else 0) + expr_len G v + 4 + stmt_len G b"
  obtains X where "a + length X = j" and
    "\<And>y. asm (cases_code sd G T a k y ((v # vs, b) # cs)) = X @ enc (OpJump, [int y]) @
       asm (cases_code sd G (stmt_table b T) (j + 3) (k + length (expr_consts G v) + length (stmt_consts G b)) y ((vs, b) # cs))"
proof -
  let ?copy = "(if cs \<noteq> [] \<or> vs \<noteq> [] then [(OpCopyTop, [])] else []) :: instr list"
  let ?X = "asm ?copy @ asm (expr_code sd G (st_store T) (a + length ?copy) k v) @
     asm [(OpEqual, []), (OpJumpIfFalse, [int (j + 3)])] @ asm (stmt_code sd G T (j - stmt_len G b) (k + length (expr_consts G v)) b)"
  show ?thesis by (rule that[of ?X]) (use assms in \<open>simp_all add: Let_def\<close>)
qed

text \<open>Patching the jumps to the end of a switch gives the code of the cases with this end.\<close>

lemma change_all_step:
  assumes "adds c (pre @ asm (cases_code sd G T a k x ((v # vs, b) # cs)) @ post) ws T' c1" and "a = currentPos c + length pre"
    and "j = a + (if cs \<noteq> [] \<or> vs \<noteq> [] then 1 else 0) + expr_len G v + 4 + stmt_len G b"
  obtains X c3 where "c_changeOperand j (int y) c1 = Inr c3" and "a + length X = j" and
    "\<And>z. asm (cases_code sd G T a k z ((v # vs, b) # cs)) = X @ enc (OpJump, [int z]) @
       asm (cases_code sd G (stmt_table b T) (j + 3) (k + length (expr_consts G v) + length (stmt_consts G b)) z ((vs, b) # cs))" and
    "adds c ((pre @ X @ enc (OpJump, [int y])) @
       asm (cases_code sd G (stmt_table b T) (j + 3) (k + length (expr_consts G v) + length (stmt_consts G b)) x ((vs, b) # cs)) @ post) ws T' c3"
proof -
  obtain X where X: "a + length X = j" "\<And>z. asm (cases_code sd G T a k z ((v # vs, b) # cs)) = X @ enc (OpJump, [int z]) @
       asm (cases_code sd G (stmt_table b T) (j + 3) (k + length (expr_consts G v) + length (stmt_consts G b)) z ((vs, b) # cs))"
    using asm_case[OF assms(3)] by blast
  have A: "adds c ((pre @ X) @ enc (OpJump, [int x]) @
      asm (cases_code sd G (stmt_table b T) (j + 3) (k + length (expr_consts G v) + length (stmt_consts G b)) x ((vs, b) # cs)) @ post) ws T' c1"
    using assms(1) unfolding X(2) by simp
  have j: "j = currentPos c + length (pre @ X)" using X(1) assms(2) by simp
  obtain c3 where c3: "c_changeOperand j (int y) c1 = Inr c3" using patch_succeeds[OF A rows(10) j] by blast
  show ?thesis using that[OF c3 X] adds_patch[OF A rows(10) c3 j] by simp
qed

lemma change_all_patches:
  assumes "adds c (pre @ asm (cases_code sd G T a k x cs) @ post) ws T' c1" and "a = currentPos c + length pre"
  shows "\<exists>c2. change_all (cases_jumps G a cs) (int y) c1 = Inr c2 \<and> adds c (pre @ asm (cases_code sd G T a k y cs) @ post) ws T' c2"
  using assms
proof (induction G a cs arbitrary: pre T k c1 rule: cases_jumps.induct)
  case (3 G a v vs b cs)
  let ?j = "a + (if cs \<noteq> [] \<or> vs \<noteq> [] then 1 else 0) + expr_len G v + 4 + stmt_len G b"
  from change_all_step[OF "3.prems" refl] obtain X c3 where c3: "c_changeOperand ?j (int y) c1 = Inr c3" and X: "a + length X = ?j"
    "\<And>z. asm (cases_code sd G T a k z ((v # vs, b) # cs)) = X @ enc (OpJump, [int z]) @
       asm (cases_code sd G (stmt_table b T) (?j + 3) (k + length (expr_consts G v) + length (stmt_consts G b)) z ((vs, b) # cs))" and
    A: "adds c ((pre @ X @ enc (OpJump, [int y])) @
       asm (cases_code sd G (stmt_table b T) (?j + 3) (k + length (expr_consts G v) + length (stmt_consts G b)) x ((vs, b) # cs)) @ post) ws T' c3"
    by blast
  have "?j + 3 = currentPos c + length (pre @ X @ enc (OpJump, [int y]))" using X(1) "3.prems"(2) by simp
  from "3.IH"[OF refl A this] c3 show ?case unfolding X(2) by (simp add: Let_def)
qed auto

section \<open>Statements\<close>

abbreviation at_expr :: "symbolic_data \<Rightarrow> compiler \<Rightarrow> expr \<Rightarrow> code_byte list" where
  "at_expr sd c e \<equiv> asm (expr_code sd (globals_of c) (st_store (localSymbols c)) (currentPos c) (length (c_constants c)) e)"

abbreviation at_stmt :: "symbolic_data \<Rightarrow> compiler \<Rightarrow> stmt \<Rightarrow> code_byte list" where
  "at_stmt sd c s \<equiv> asm (stmt_code sd (globals_of c) (localSymbols c) (currentPos c) (length (c_constants c)) s)"

abbreviation at_block :: "symbolic_data \<Rightarrow> compiler \<Rightarrow> stmt list \<Rightarrow> code_byte list" where
  "at_block sd c ss \<equiv> asm (block_code sd (globals_of c) (localSymbols c) (currentPos c) (length (c_constants c)) ss)"

abbreviation at_cases :: "symbolic_data \<Rightarrow> compiler \<Rightarrow> nat \<Rightarrow> (expr list \<times> stmt) list \<Rightarrow> code_byte list" where
  "at_cases sd c a_end cs \<equiv> asm (cases_code sd (globals_of c) (localSymbols c) (currentPos c) (length (c_constants c)) a_end cs)"

lemma compile_if_adds:
  assumes c1: "compile_expr sd test c = Inr c1" and c2: "c_emit span OpJumpIfFalse [0] c1 = Inr (j1, c2)"
    and A3: "adds c2 (at_stmt sd c2 s) (stmt_consts (globals_of c2) s) (stmt_table s (localSymbols c2)) c3"
    and c4: "c_changeOperand j1 (int (currentPos c3)) c3 = Inr c'"
  shows "adds c (at_stmt sd c (IfStatement span test s None)) (stmt_consts (globals_of c) (IfStatement span test s None))
    (stmt_table (IfStatement span test s None) (localSymbols c)) c'"
proof -
  note A1 = compile_expr_adds[OF c1]
  have A2: "j1 = currentPos c1" "adds c1 (enc (OpJumpIfFalse, [0])) [] (localSymbols c1) c2"
    using c_emit_adds[OF c2, of "[2]"] by simp_all
  show ?thesis
    using adds_patch[OF adds_trans[OF A1 adds_trans[OF A2(2) A3]] rows(7) c4]
    by (simp add: addsD[OF A1] addsD[OF A2(2)] addsD[OF A3] A2(1) Let_def ac_simps numeral_3_eq_3)
qed

lemma compile_if_else_adds:
  assumes c1: "compile_expr sd test c = Inr c1" and c2: "c_emit span OpJumpIfFalse [0] c1 = Inr (j1, c2)"
    and A3: "adds c2 (at_stmt sd c2 s) (stmt_consts (globals_of c2) s) (stmt_table s (localSymbols c2)) c3"
    and c4: "c_emit span OpJump [0] c3 = Inr (j2, c4)" and c5: "c_changeOperand j1 (int (currentPos c4)) c4 = Inr c5"
    and A6: "adds c5 (at_stmt sd c5 t) (stmt_consts (globals_of c5) t) (stmt_table t (localSymbols c5)) c6"
    and c7: "c_changeOperand j2 (int (currentPos c6)) c6 = Inr c'"
  shows "adds c (at_stmt sd c (IfStatement span test s (Some t))) (stmt_consts (globals_of c) (IfStatement span test s (Some t)))
    (stmt_table (IfStatement span test s (Some t)) (localSymbols c)) c'"
proof -
  note A1 = compile_expr_adds[OF c1]
  have A2: "j1 = currentPos c1" "adds c1 (enc (OpJumpIfFalse, [0])) [] (localSymbols c1) c2"
    using c_emit_adds[OF c2, of "[2]"] by simp_all
  have A4: "j2 = currentPos c3" "adds c3 (enc (OpJump, [0])) [] (localSymbols c3) c4"
    using c_emit_adds[OF c4, of "[2]"] by simp_all
  have A5: "adds c (at_expr sd c test @ enc (OpJumpIfFalse, [int (currentPos c4)]) @ at_stmt sd c2 s @ enc (OpJump, [0]))
      (expr_consts (globals_of c) test @ stmt_consts (globals_of c2) s) (localSymbols c3) c5"
    using adds_patch[OF adds_trans[OF A1 adds_trans[OF A2(2) adds_trans[OF A3 A4(2)]]] rows(7) c5]
    by (simp add: A2(1) addsD(1)[OF A1])
  have "adds c ((at_expr sd c test @ enc (OpJumpIfFalse, [int (currentPos c4)]) @ at_stmt sd c2 s) @ enc (OpJump, [0]) @ at_stmt sd c5 t)
      ((expr_consts (globals_of c) test @ stmt_consts (globals_of c2) s) @ stmt_consts (globals_of c5) t)
      (stmt_table t (localSymbols c5)) c6"
    using adds_trans[OF A5 A6] by simp
  from adds_patch[OF this rows(10) c7] show ?thesis
    by (simp add: addsD[OF A1] addsD[OF A2(2)] addsD[OF A3] addsD[OF A4(2)] addsD[OF A5] addsD[OF A6] A4(1)
        Let_def ac_simps numeral_3_eq_3)
qed

lemma compile_case_adds:
  assumes c1: "(if cs \<noteq> [] \<or> vs \<noteq> [] then c_emit0 span OpCopyTop [] c else Inr c) = Inr c1"
    and c2: "compile_expr sd v c1 = Inr c2" and c3: "c_emit0 span OpEqual [] c2 = Inr c3"
    and c4: "c_emit span OpJumpIfFalse [0] c3 = Inr (j1, c4)"
    and A5: "adds c4 (at_stmt sd c4 b) (stmt_consts (globals_of c4) b) (stmt_table b (localSymbols c4)) c5"
    and c6: "c_emit span OpJump [0] c5 = Inr (j2, c6)" and c7: "c_changeOperand j1 (int (currentPos c6)) c6 = Inr c7"
    and A8: "adds c7 (at_cases sd c7 0 ((vs, b) # cs)) (cases_consts (globals_of c7) ((vs, b) # cs))
      (cases_table ((vs, b) # cs) (localSymbols c7)) c8"
    and jumps: "js = cases_jumps (globals_of c7) (currentPos c7) ((vs, b) # cs)"
  shows "adds c (at_cases sd c 0 ((v # vs, b) # cs)) (cases_consts (globals_of c) ((v # vs, b) # cs))
      (cases_table ((v # vs, b) # cs) (localSymbols c)) c8 \<and> j2 # js = cases_jumps (globals_of c) (currentPos c) ((v # vs, b) # cs)"
proof -
  let ?copy = "(if cs \<noteq> [] \<or> vs \<noteq> [] then [(OpCopyTop, [])] else []) :: instr list"
  have A1: "adds c (asm ?copy) [] (localSymbols c) c1"
    using c1 c_emit0_adds[of span OpCopyTop "[]" c c1 "[]"] by (auto simp: adds_def split: if_splits)
  have l: "length (asm ?copy) = length ?copy" by simp
  have four: "(4 :: nat) = Suc (Suc (Suc (Suc 0)))" by simp
  note A2 = compile_expr_adds[OF c2]
  have A3: "adds c2 (enc (OpEqual, [])) [] (localSymbols c2) c3" by (rule c_emit0_adds[OF c3, of "[]"]) simp_all
  have A4: "j1 = currentPos c3" "adds c3 (enc (OpJumpIfFalse, [0])) [] (localSymbols c3) c4"
    using c_emit_adds[OF c4, of "[2]"] by simp_all
  have A6: "j2 = currentPos c5" "adds c5 (enc (OpJump, [0])) [] (localSymbols c5) c6"
    using c_emit_adds[OF c6, of "[2]"] by simp_all
  have "adds c ((asm ?copy @ at_expr sd c1 v @ enc (OpEqual, [])) @ enc (OpJumpIfFalse, [0]) @ at_stmt sd c4 b @ enc (OpJump, [0]))
      (expr_consts (globals_of c1) v @ stmt_consts (globals_of c4) b) (localSymbols c5) c6"
    using adds_trans[OF A1 adds_trans[OF A2 adds_trans[OF A3 adds_trans[OF A4(2) adds_trans[OF A5 A6(2)]]]]] by simp
  from adds_patch[OF this rows(7) c7]
  have A7: "adds c ((asm ?copy @ at_expr sd c1 v @ enc (OpEqual, [])) @ enc (OpJumpIfFalse, [int (currentPos c6)]) @ at_stmt sd c4 b @
      enc (OpJump, [0])) (expr_consts (globals_of c1) v @ stmt_consts (globals_of c4) b) (localSymbols c5) c7"
    by (simp add: addsD[OF A1] addsD[OF A2] addsD[OF A3] A4(1))
  show ?thesis
  proof
    show "adds c (at_cases sd c 0 ((v # vs, b) # cs)) (cases_consts (globals_of c) ((v # vs, b) # cs))
      (cases_table ((v # vs, b) # cs) (localSymbols c)) c8"
      using adds_trans[OF A7 A8] l
      by (cases "cs \<noteq> [] \<or> vs \<noteq> []") (simp_all add: addsD[OF A1] addsD[OF A2] addsD[OF A3] addsD[OF A4(2)] addsD[OF A5] addsD[OF A6(2)] addsD[OF A7] Let_def
          ac_simps numeral_3_eq_3 four)
    show "j2 # js = cases_jumps (globals_of c) (currentPos c) ((v # vs, b) # cs)"
      using l by (simp add: jumps addsD[OF A1] addsD[OF A2] addsD[OF A3] addsD[OF A4(2)] addsD[OF A5] addsD[OF A6(2)] addsD[OF A7] A6(1)
          Let_def ac_simps numeral_3_eq_3 four)
  qed
qed

lemma compile_switch_adds:
  assumes "cs \<noteq> []" and c1: "compile_expr sd d c = Inr c1"
    and A2: "adds c1 (at_cases sd c1 0 cs) (cases_consts (globals_of c1) cs) (cases_table cs (localSymbols c1)) c2"
    and js: "js = cases_jumps (globals_of c1) (currentPos c1) cs"
    and A3: "adds c2 (case defs of s # _ \<Rightarrow> at_stmt sd c2 s | [] \<Rightarrow> []) (case defs of s # _ \<Rightarrow> stmt_consts (globals_of c2) s | [] \<Rightarrow> [])
      (case defs of s # _ \<Rightarrow> stmt_table s (localSymbols c2) | [] \<Rightarrow> localSymbols c2) c3"
    and c4: "change_all js (int (currentPos c3)) c3 = Inr c'"
  shows "adds c (at_stmt sd c (SwitchStatement span d cs defs)) (stmt_consts (globals_of c) (SwitchStatement span d cs defs))
    (stmt_table (SwitchStatement span d cs defs) (localSymbols c)) c'"
proof -
  note A1 = compile_expr_adds[OF c1]
  have "currentPos c1 = currentPos c + length (at_expr sd c d)" using addsD(1)[OF A1] .
  from change_all_patches[OF adds_trans[OF A1 adds_trans[OF A2 A3]] this, of "currentPos c3"] c4
  have "adds c (at_expr sd c d @ at_cases sd c1 (currentPos c3) cs @ (case defs of s # _ \<Rightarrow> at_stmt sd c2 s | [] \<Rightarrow> []))
      (expr_consts (globals_of c) d @ cases_consts (globals_of c1) cs @ (case defs of s # _ \<Rightarrow> stmt_consts (globals_of c2) s | [] \<Rightarrow> []))
      (case defs of s # _ \<Rightarrow> stmt_table s (localSymbols c2) | [] \<Rightarrow> localSymbols c2) c'"
    by (auto simp: js)
  then show ?thesis
    using assms(1)
    by (cases defs) (simp_all add: addsD[OF A1] addsD[OF A2] addsD[OF A3] Let_def ac_simps)
qed

lemma compile_stmt_adds:
  "compile_stmt sd s c = Inr c' \<Longrightarrow>
     adds c (at_stmt sd c s) (stmt_consts (globals_of c) s) (stmt_table s (localSymbols c)) c'"
  "compile_block sd span ss c = Inr c' \<Longrightarrow>
     adds c (at_block sd c ss) (block_consts (globals_of c) ss) (block_table ss (localSymbols c)) c'"
  "compile_cases sd span cs jumps c = Inr (jumps', c') \<Longrightarrow>
     adds c (at_cases sd c 0 cs) (cases_consts (globals_of c) cs) (cases_table cs (localSymbols c)) c' \<and>
     jumps' = jumps @ cases_jumps (globals_of c) (currentPos c) cs"
proof (induction sd s c and sd span ss c and sd span cs jumps c arbitrary: c' and c' and jumps' c'
    rule: compile_stmt_compile_block_compile_cases.induct)
  case (1 sd e c)
  then show ?case using compile_expr_adds[of sd e c c'] by simp
next
  case (2 sd span ds c)
  then show ?case using compile_declarations_adds[of sd span ds c c'] by simp
next
  case (3 sd span operator name right c)
  then show ?case using compileAssign_adds[of sd span operator "GetVariableName name" right c c'] by simp
next
  case (4 sd span test s alternate c)
  then obtain c1 j1 c2 c3 where c1: "compile_expr sd test c = Inr c1" and
    c2: "c_emit span OpJumpIfFalse [0] c1 = Inr (j1, c2)" and c3: "compile_stmt sd s c2 = Inr c3"
    by auto
  note A3 = "4.IH"(1)[OF c1 c2 refl c3]
  show ?case
  proof (cases alternate)
    case None
    then show ?thesis using compile_if_adds[OF c1 c2 A3] "4.prems" c1 c2 c3 by simp
  next
    case (Some t)
    with "4.prems" c1 c2 c3 obtain j2 c4 c5 c6 where c4: "c_emit span OpJump [0] c3 = Inr (j2, c4)" and
      c5: "c_changeOperand j1 (int (currentPos c4)) c4 = Inr c5" and c6: "compile_stmt sd t c5 = Inr c6" and
      c7: "c_changeOperand j2 (int (currentPos c6)) c6 = Inr c'"
      by auto
    show ?thesis
      using compile_if_else_adds[OF c1 c2 A3 c4 c5 "4.IH"(2)[OF c1 c2 refl c3 Some c4 refl c5 c6] c7] Some by simp
  qed
next
  case (5 sd span d cs defs c)
  show ?case
  proof (cases "cs = []")
    case True
    then show ?thesis using "5.prems" by (simp add: adds_def)
  next
    case False
    with "5.prems" obtain c1 js c2 c3 where c1: "compile_expr sd d c = Inr c1" and
      c2: "compile_cases sd span cs [] c1 = Inr (js, c2)" and
      c3: "(case defs of s # _ \<Rightarrow> compile_stmt sd s c2 | [] \<Rightarrow> Inr c2) = Inr c3" and
      c4: "change_all js (int (currentPos c3)) c3 = Inr c'"
      by auto
    note A2 = "5.IH"(1)[OF False c1 c2]
    have A3: "adds c2 (case defs of s # _ \<Rightarrow> at_stmt sd c2 s | [] \<Rightarrow> []) (case defs of s # _ \<Rightarrow> stmt_consts (globals_of c2) s | [] \<Rightarrow> [])
      (case defs of s # _ \<Rightarrow> stmt_table s (localSymbols c2) | [] \<Rightarrow> localSymbols c2) c3"
    proof (cases defs)
      case Nil
      then show ?thesis using c3 by (simp add: adds_def)
    next
      case (Cons s ss)
      then have "compile_stmt sd s c2 = Inr c3" using c3 by simp
      from "5.IH"(2)[OF False c1 c2 refl Cons this] Cons show ?thesis by simp
    qed
    show ?thesis by (rule compile_switch_adds[OF False c1 conjunct1[OF A2] _ A3 c4]) (use A2 in simp)
  qed
next
  case (6 sd span ss c)
  then show ?case by simp
next
  case (7 sd span c)
  then show ?case using c_emit0_adds[of span OpReturn "[0]" c c' "[1]"] by simp
next
  case (8 sd span e c)
  then obtain c1 where c1: "compile_expr sd e c = Inr c1" and c2: "c_emit0 span OpReturn [1] c1 = Inr c'" by auto
  note A1 = compile_expr_adds[OF c1]
  show ?case using adds_trans[OF A1 c_emit0_adds[OF c2, of "[1]"]] by (simp add: addsD[OF A1])
next
  case (9 sd span c)
  then show ?case by (simp add: adds_def)
next
  case (10 sd span s ss c)
  then obtain c1 c2 where c1: "compile_stmt sd s c = Inr c1" and
    c2: "(if is_expr s then c_emit0 span OpPop [] c1 else Inr c1) = Inr c2" and c3: "compile_block sd span ss c2 = Inr c'"
    by auto
  note A1 = "10.IH"(1)[OF c1]
  have A2: "adds c1 (asm (if is_expr s then [(OpPop, [])] else [])) [] (localSymbols c1) c2"
    using c2 c_emit0_adds[of span OpPop "[]" c1 c2 "[]"] by (auto simp: adds_def split: if_splits)
  note A3 = "10.IH"(2)[OF c1 c2 c3]
  show ?case
    using adds_trans[OF A1 adds_trans[OF A2 A3]]
    by (cases "is_expr s") (simp_all add: addsD[OF A1] addsD[OF A2])
next
  case (11 sd span jumps c)
  then show ?case by (simp add: adds_def)
next
  case (12 sd span b cs jumps c)
  then show ?case by simp
next
  case (13 sd span v vs b cs jumps c)
  from "13.prems" obtain c1 c2 c3 j1 c4 c5 j2 c6 c7 where
    c1: "(if cs \<noteq> [] \<or> vs \<noteq> [] then c_emit0 span OpCopyTop [] c else Inr c) = Inr c1" and
    c2: "compile_expr sd v c1 = Inr c2" and c3: "c_emit0 span OpEqual [] c2 = Inr c3" and
    c4: "c_emit span OpJumpIfFalse [0] c3 = Inr (j1, c4)" and c5: "compile_stmt sd b c4 = Inr c5" and
    c6: "c_emit span OpJump [0] c5 = Inr (j2, c6)" and c7: "c_changeOperand j1 (int (currentPos c6)) c6 = Inr c7" and
    c8: "compile_cases sd span ((vs, b) # cs) (jumps @ [j2]) c7 = Inr (jumps', c')"
    by (auto split del: if_split)
  note A5 = "13.IH"(1)[OF c1 c2 c3 c4 refl c5]
  note A8 = "13.IH"(2)[OF c1 c2 c3 c4 refl c5 c6 refl c7 c8]
  show ?case
    using compile_case_adds[OF c1 c2 c3 c4 A5 c6 c7 conjunct1[OF A8] refl] A8 by simp
qed

section \<open>Modules\<close>

text \<open>An empty module pushes nil; the value of the only statement of a module is not popped.\<close>

fun chunk_code :: "symbolic_data \<Rightarrow> global_names \<Rightarrow> stmt list \<Rightarrow> instr list" where
  "chunk_code sd G [] = [(OpPushNil, [])]"
| "chunk_code sd G [s] = stmt_code sd G newSymbolTable 0 0 s"
| "chunk_code sd G ss = block_code sd G newSymbolTable 0 0 ss"

lemma compileMainChunk_reference:
  assumes "compileMainChunk sd gtab span stmts = Inr m" and "G = (\<lambda>x. st_Resolve x gtab \<noteq> None)"
  shows "cm_code m = asm (chunk_code sd G stmts) @ [of_nat OpSuspendVM]" "cm_constants m = block_consts G stmts"
    "cm_locals m = nextSymbolIndex (block_table stmts newSymbolTable)" "length (cm_constants m) \<le> 65535"
proof -
  let ?c = "newCompiler gtab"
  have init: "instructions (c_scope ?c) = []" "c_constants ?c = []" "localSymbols ?c = newSymbolTable" "globals_of ?c = G"
    by (simp_all add: newCompiler_def assms(2) globals_of_def fun_eq_iff)
  from assms(1) obtain c where
    c: "(case stmts of [] \<Rightarrow> c_emit0 span OpPushNil [] ?c | [s] \<Rightarrow> compile_stmt sd s ?c | _ \<Rightarrow> compile_block sd span stmts ?c) = Inr c" and
    m: "length (c_constants c) \<le> 65535" "cm_code m = instructions (c_scope c) @ [of_nat OpSuspendVM]" "cm_constants m = c_constants c"
      "cm_locals m = nextSymbolIndex (localSymbols c)"
    unfolding compileMainChunk_def by (auto split: if_splits)
  have "adds ?c (asm (chunk_code sd G stmts)) (block_consts G stmts) (block_table stmts newSymbolTable) c"
  proof (cases "(sd, G, stmts)" rule: chunk_code.cases)
    case 1
    then show ?thesis using c c_emit0_adds[of span OpPushNil "[]" ?c c "[]"] init by simp
  next
    case 2
    then show ?thesis using c compile_stmt_adds(1)[of sd _ ?c c] init by simp
  next
    case 3
    then show ?thesis using c compile_stmt_adds(2)[of sd span stmts ?c c] init by simp
  qed
  then show "cm_code m = asm (chunk_code sd G stmts) @ [of_nat OpSuspendVM]" "cm_constants m = block_consts G stmts"
    "cm_locals m = nextSymbolIndex (block_table stmts newSymbolTable)" "length (cm_constants m) \<le> 65535"
    using m init by (auto simp: adds_def)
qed

end
