(* ===== verification/Machine.thy ===== *)
theory Machine
  imports Compiler
begin

unbundle bit_operations_syntax

text \<open>
  The bytecode interpreter (\<open>internal/core/vm.go\<close>): the state of the virtual machine while it executes the main function of a
  module, the instructions that the theory Compiler emits, the loop and \<open>Run\<close>. A run-time panic is recovered by
  \<open>run\<close> and becomes an error. Instructions that are not modelled end in \<open>NotModelled\<close>.
\<close>

definition VM_STACK_SIZE :: nat where
  "VM_STACK_SIZE = 200"

text \<open>A slot that was never written holds Go's nil, \<open>None\<close>. The base pointer of the module's frame is 0.\<close>

record VM =
  vm_constants :: "Value list"
  vm_stack :: "Value option list"
  vm_sp :: nat
  vm_insts :: "code_byte list"
  vm_ip :: int
  vm_globals :: "string \<rightharpoonup> Value"
  vm_moduleLocalCount :: nat
  vm_err :: "eval_error option"
  vm_aborting :: bool
  vm_ctxDone :: bool

datatype outcome = Running VM | Returned VM | Failed eval_error | NotModelled nat

section \<open>Access to the code and to the stack\<close>

definition byte_at :: "VM \<Rightarrow> int \<Rightarrow> code_byte option" where
  "byte_at v i = (if 0 \<le> i \<and> nat i < length (vm_insts v) then Some (vm_insts v ! nat i) else None)"

definition with_operand1 :: "VM \<Rightarrow> (nat \<Rightarrow> VM \<Rightarrow> outcome) \<Rightarrow> outcome" where
  "with_operand1 v k =
    (case byte_at v (vm_ip v + 1) of None \<Rightarrow> Failed GoPanic | Some b \<Rightarrow> k (unat b) (v\<lparr>vm_ip := vm_ip v + 1\<rparr>))"

definition with_operand2 :: "VM \<Rightarrow> (nat \<Rightarrow> VM \<Rightarrow> outcome) \<Rightarrow> outcome" where
  "with_operand2 v k =
    (case (byte_at v (vm_ip v + 2), byte_at v (vm_ip v + 1)) of
       (Some lo, Some hi) \<Rightarrow> k (nat (uint lo OR push_bit 8 (uint hi))) (v\<lparr>vm_ip := vm_ip v + 2\<rparr>)
     | _ \<Rightarrow> Failed GoPanic)"

text \<open>\<open>v.stack[v.sp-n]\<close>\<close>

definition with_stack :: "nat \<Rightarrow> VM \<Rightarrow> (Value option \<Rightarrow> outcome) \<Rightarrow> outcome" where
  "with_stack n v k =
    (if n \<le> vm_sp v \<and> vm_sp v - n < length (vm_stack v) then k (vm_stack v ! (vm_sp v - n)) else Failed GoPanic)"

definition set_stack :: "nat \<Rightarrow> Value option \<Rightarrow> VM \<Rightarrow> (VM \<Rightarrow> outcome) \<Rightarrow> outcome" where
  "set_stack i x v k =
    (if i < length (vm_stack v) then k (v\<lparr>vm_stack := (vm_stack v)[i := x]\<rparr>) else Failed GoPanic)"

definition vm_push :: "Value option \<Rightarrow> VM \<Rightarrow> outcome" where
  "vm_push x v = set_stack (vm_sp v) x v (\<lambda>v'. Running (v'\<lparr>vm_sp := vm_sp v' + 1\<rparr>))"

text \<open>Replaces the two operands on top of the stack by a result.\<close>

definition binary_push :: "Value \<Rightarrow> VM \<Rightarrow> outcome" where
  "binary_push x v = set_stack (vm_sp v - 2) (Some x) v (\<lambda>v'. Running (v'\<lparr>vm_sp := vm_sp v' - 1\<rparr>))"

definition with_operands :: "VM \<Rightarrow> (Value option \<Rightarrow> Value option \<Rightarrow> outcome) \<Rightarrow> outcome" where
  "with_operands v k = with_stack 2 v (\<lambda>l. with_stack 1 v (\<lambda>r. k l r))"

section \<open>Instructions\<close>

definition op_push_constant :: "VM \<Rightarrow> outcome" where
  "op_push_constant v = with_operand2 v (\<lambda>cidx v'.
     if cidx < length (vm_constants v') then vm_push (Some (vm_constants v' ! cidx)) v' else Failed GoPanic)"

text \<open>Negative stack pointers are not represented.\<close>

definition op_pop :: "VM \<Rightarrow> outcome" where
  "op_pop v = (if vm_sp v = 0 then NotModelled OpPop else Running (v\<lparr>vm_sp := vm_sp v - 1\<rparr>))"

definition op_copy_top :: "VM \<Rightarrow> outcome" where
  "op_copy_top v = with_stack 1 v (\<lambda>x. vm_push x v)"

definition op_jump_if_false :: "VM \<Rightarrow> outcome" where
  "op_jump_if_false v = with_stack 1 v (\<lambda>x. with_operand2 v (\<lambda>pos v'.
     case x of
       Some (BoolV b) \<Rightarrow> Running (v'\<lparr>vm_sp := vm_sp v' - 1, vm_ip := (if b then vm_ip v' else int pos - 1)\<rparr>)
     | _ \<Rightarrow> Failed GoPanic))"

definition op_and_jump :: "VM \<Rightarrow> outcome" where
  "op_and_jump v = with_stack 1 v (\<lambda>x. with_operand2 v (\<lambda>pos v'.
     case x of
       Some (BoolV b) \<Rightarrow> Running (if b then v'\<lparr>vm_sp := vm_sp v' - 1\<rparr> else v'\<lparr>vm_ip := int pos - 1\<rparr>)
     | _ \<Rightarrow> Failed GoPanic))"

definition op_or_jump :: "VM \<Rightarrow> outcome" where
  "op_or_jump v = with_stack 1 v (\<lambda>x. with_operand2 v (\<lambda>pos v'.
     case x of
       Some (BoolV b) \<Rightarrow> Running (if b then v'\<lparr>vm_ip := int pos - 1\<rparr> else v'\<lparr>vm_sp := vm_sp v' - 1\<rparr>)
     | _ \<Rightarrow> Failed GoPanic))"

definition op_jump :: "VM \<Rightarrow> outcome" where
  "op_jump v = with_operand2 v (\<lambda>pos v'. Running (v'\<lparr>vm_ip := int pos - 1\<rparr>))"

text \<open>\<open>OpReturn\<close> in the frame of the module.\<close>

definition op_return :: "VM \<Rightarrow> outcome" where
  "op_return v = with_operand1 v (\<lambda>isVal v'.
     if isVal = 1 then with_stack 1 v' (\<lambda>x. Returned v')
     else set_stack (vm_sp v') (Some NilV) v' (\<lambda>v''. Returned (v''\<lparr>vm_sp := vm_sp v'' + 1\<rparr>)))"

text \<open>
  The error of an incomparable pair: it is set, and overwritten, only when the left operand is not finite (both tests of
  \<open>checkComparisonOperands\<close> look at the left operand); otherwise \<open>run\<close> returns without an error.
\<close>

fun checkComparisonOperands :: "Value \<Rightarrow> bool" where
  "checkComparisonOperands (FloatV f) \<longleftrightarrow> float_finite f"
| "checkComparisonOperands _ \<longleftrightarrow> True"

definition op_compare :: "natural_less \<Rightarrow> (int \<Rightarrow> bool) \<Rightarrow> VM \<Rightarrow> outcome" where
  "op_compare natural test v = with_operands v (\<lambda>l r.
     case l of
       None \<Rightarrow> Failed GoPanic
     | Some left \<Rightarrow>
         (case val_Compare natural left of
            None \<Rightarrow> Failed GoPanic
          | Some compare \<Rightarrow>
              (case (case r of None \<Rightarrow> None | Some right \<Rightarrow> compare right) of
                 None \<Rightarrow> if checkComparisonOperands left then Returned v else Failed ErrNotComparable
               | Some c \<Rightarrow> binary_push (BoolV (test c)) v)))"

definition doSafeIntBinOp :: "VM \<Rightarrow> outcome" where
  "doSafeIntBinOp v = with_operands v (\<lambda>l r. with_operand1 v (\<lambda>operator v'.
     case (l, r) of
       (Some (IntV left), Some (IntV right)) \<Rightarrow>
         (let checked = (\<lambda>w res. case res of Inl e \<Rightarrow> Failed e | Inr i \<Rightarrow> binary_push (IntV i) w) in
          if operator = BinaryOperator_iota Add then checked (v'\<lparr>vm_err := None\<rparr>) (intAdd left right)
          else if operator = BinaryOperator_iota Sub then checked (v'\<lparr>vm_err := None\<rparr>) (intSub left right)
          else if operator = BinaryOperator_iota Mul then checked v' (intMul left right)
          else if operator = BinaryOperator_iota Div then checked v' (intDiv left right)
          else if operator = BinaryOperator_iota LessThan then binary_push (BoolV (left < right)) v'
          else if operator = BinaryOperator_iota LessOrEqual then binary_push (BoolV (left \<le> right)) v'
          else if operator = BinaryOperator_iota GreaterThan then binary_push (BoolV (left > right)) v'
          else if operator = BinaryOperator_iota GreaterOrEqual then binary_push (BoolV (left \<ge> right)) v'
          else Failed InvalidOperand)
     | _ \<Rightarrow> Failed GoPanic))"

definition doSafeFloatBinOp :: "VM \<Rightarrow> outcome" where
  "doSafeFloatBinOp v = with_operands v (\<lambda>l r. with_operand1 v (\<lambda>operator v'.
     case (l, r) of
       (Some (FloatV left), Some (FloatV right)) \<Rightarrow>
         (let checked = (\<lambda>f. if float_finite f then binary_push (FloatV f) v' else Failed ErrNaNinfinityResult) in
          if \<not> float_finite left \<or> \<not> float_finite right then Failed ErrNaNinfinityOperand
          else if operator = BinaryOperator_iota Add then binary_push (FloatV (float_add left right)) v'
          else if operator = BinaryOperator_iota Sub then binary_push (FloatV (float_sub left right)) v'
          else if operator = BinaryOperator_iota Mul then checked (float_mul left right)
          else if operator = BinaryOperator_iota Div then checked (float_div left right)
          else if operator = BinaryOperator_iota LessThan then binary_push (BoolV (float_less left right)) v'
          else if operator = BinaryOperator_iota LessOrEqual then binary_push (BoolV (float_less left right \<or> float_eq left right)) v'
          else if operator = BinaryOperator_iota GreaterThan then binary_push (BoolV (float_less right left)) v'
          else if operator = BinaryOperator_iota GreaterOrEqual then binary_push (BoolV (float_less right left \<or> float_eq left right)) v'
          else Failed InvalidOperand)
     | _ \<Rightarrow> Failed GoPanic))"

definition op_num_bin :: "VM \<Rightarrow> outcome" where
  "op_num_bin v = with_stack 2 v (\<lambda>l. case l of Some (IntV _) \<Rightarrow> doSafeIntBinOp v | _ \<Rightarrow> doSafeFloatBinOp v)"

text \<open>
  None of the simple values implements \<open>IPseudoAdd\<close> or \<open>IPseudoSub\<close>. For the other operators the error is recorded, but the
  loop does not test it after this instruction.
\<close>

definition doSafePseudoArithBinOp :: "VM \<Rightarrow> outcome" where
  "doSafePseudoArithBinOp v = with_operands v (\<lambda>l r. with_operand1 v (\<lambda>operator v'.
     if operator \<in> {BinaryOperator_iota Add, BinaryOperator_iota Sub} then Failed GoPanic
     else Running (v'\<lparr>vm_err := Some InvalidOperand\<rparr>)))"

definition op_minus :: "VM \<Rightarrow> outcome" where
  "op_minus v = with_stack 1 v (\<lambda>x.
     let v' = v\<lparr>vm_sp := vm_sp v - 1\<rparr> in
     case x of
       Some (IntV i) \<Rightarrow>
         if i = i64 (- i) \<and> i \<noteq> 0 then Failed ErrNegationWithOverflow else vm_push (Some (IntV (i64 (- i)))) v'
     | Some (FloatV f) \<Rightarrow> vm_push (Some (FloatV (float_minus f))) v'
     | _ \<Rightarrow> Failed InvalidOperand)"

definition op_equal :: "bool \<Rightarrow> VM \<Rightarrow> outcome" where
  "op_equal eq v = with_operands v (\<lambda>l r.
     case l of
       None \<Rightarrow> Failed GoPanic
     | Some left \<Rightarrow>
         let equal = (case r of None \<Rightarrow> False | Some right \<Rightarrow> val_Equal left right)
         in vm_push (Some (BoolV (equal = eq))) (v\<lparr>vm_sp := vm_sp v - 2\<rparr>))"

definition op_boolean_not :: "VM \<Rightarrow> outcome" where
  "op_boolean_not v = with_stack 1 v (\<lambda>x.
     case x of
       Some (BoolV b) \<Rightarrow> vm_push (Some (BoolV (\<not> b))) (v\<lparr>vm_sp := vm_sp v - 1\<rparr>)
     | _ \<Rightarrow> Failed GoPanic)"

definition op_nil_coalesce :: "VM \<Rightarrow> outcome" where
  "op_nil_coalesce v = with_operands v (\<lambda>l r. vm_push (if l = Some NilV then r else l) (v\<lparr>vm_sp := vm_sp v - 2\<rparr>))"

definition op_set_local :: "VM \<Rightarrow> outcome" where
  "op_set_local v = with_operand1 v (\<lambda>localIndex v'. with_stack 1 v' (\<lambda>x.
     set_stack localIndex x (v'\<lparr>vm_sp := vm_sp v' - 1\<rparr>) Running))"

definition op_get_local :: "VM \<Rightarrow> outcome" where
  "op_get_local v = with_operand1 v (\<lambda>localIndex v'.
     if localIndex < length (vm_stack v') then vm_push (vm_stack v' ! localIndex) v' else Failed GoPanic)"

definition op_get_global :: "VM \<Rightarrow> outcome" where
  "op_get_global v = with_operand2 v (\<lambda>globalNameIndex v'.
     if globalNameIndex < length (vm_constants v') then
       (case vm_constants v' ! globalNameIndex of
          StringV name \<Rightarrow>
            (case vm_globals v' name of None \<Rightarrow> Failed (NotDeclared name) | Some x \<Rightarrow> vm_push (Some x) v')
        | _ \<Rightarrow> Failed GoPanic)
     else Failed GoPanic)"

section \<open>The loop\<close>

text \<open>The test of \<open>v.err\<close> after an arithmetic instruction.\<close>

fun stop_on_error :: "outcome \<Rightarrow> outcome" where
  "stop_on_error (Running v) = (case vm_err v of Some e \<Rightarrow> Failed e | None \<Rightarrow> Running v)"
| "stop_on_error out = out"

definition vm_exec :: "natural_less \<Rightarrow> nat \<Rightarrow> VM \<Rightarrow> outcome" where
  "vm_exec natural op v =
    (if op = OpPushConstant then op_push_constant v
     else if op = OpPushNil then vm_push (Some NilV) v
     else if op = OpPop then op_pop v
     else if op = OpCopyTop then op_copy_top v
     else if op = OpPushTrue then vm_push (Some (BoolV True)) v
     else if op = OpPushFalse then vm_push (Some (BoolV False)) v
     else if op = OpJumpIfFalse then op_jump_if_false v
     else if op = OpAndJump then op_and_jump v
     else if op = OpOrJump then op_or_jump v
     else if op = OpJump then op_jump v
     else if op = OpReturn then op_return v
     else if op = OpLess then op_compare natural (\<lambda>c. c < 0) v
     else if op = OpLessEqual then op_compare natural (\<lambda>c. c \<le> 0) v
     else if op = OpGreater then op_compare natural (\<lambda>c. c > 0) v
     else if op = OpGreaterEqual then op_compare natural (\<lambda>c. c \<ge> 0) v
     else if op = OpIntBin then stop_on_error (doSafeIntBinOp v)
     else if op = OpFloatBin then stop_on_error (doSafeFloatBinOp v)
     else if op = OpNumBin then stop_on_error (op_num_bin v)
     else if op = OpPseudoArith then doSafePseudoArithBinOp v
     else if op = OpMinus then op_minus v
     else if op = OpEqual then op_equal True v
     else if op = OpNotEqual then op_equal False v
     else if op = OpBooleanNot then op_boolean_not v
     else if op = OpNilCoalesce then op_nil_coalesce v
     else if op = OpSetLocal then op_set_local v
     else if op = OpGetLocal then op_get_local v
     else if op = OpGetGlobal then op_get_global v
     else if op = OpNoOp then Running v
     else if op = OpSuspendVM then Returned v
     else NotModelled op)"

definition vm_step :: "natural_less \<Rightarrow> VM \<Rightarrow> outcome" where
  "vm_step natural v0 =
    (if vm_aborting v0 then Returned v0
     else
       (let v = v0\<lparr>vm_ip := vm_ip v0 + 1\<rparr> in
        if vm_ctxDone v then Failed ContextDone
        else (case byte_at v (vm_ip v) of None \<Rightarrow> Failed GoPanic | Some b \<Rightarrow> vm_exec natural (unat b) v)))"

partial_function (option) vm_run :: "natural_less \<Rightarrow> VM \<Rightarrow> outcome option" where
  "vm_run natural v = (case vm_step natural v of Running v' \<Rightarrow> vm_run natural v' | out \<Rightarrow> Some out)"

definition newVM :: "compiled \<Rightarrow> (string \<rightharpoonup> Value) \<Rightarrow> VM" where
  "newVM m globals = \<lparr>vm_constants = cm_constants m, vm_stack = replicate VM_STACK_SIZE None, vm_sp = 0, vm_insts = cm_code m,
     vm_ip = - 1, vm_globals = globals, vm_moduleLocalCount = cm_locals m, vm_err = None, vm_aborting = False, vm_ctxDone = False\<rparr>"

datatype run_result = Result "Value option" | RunError eval_error | UnknownInstruction nat

fun module_result :: "outcome \<Rightarrow> run_result" where
  "module_result (Failed e) = RunError e"
| "module_result (NotModelled op) = UnknownInstruction op"
| "module_result (Returned v) =
    (if vm_err v \<noteq> None then RunError (the (vm_err v))
     else if vm_sp v \<le> vm_moduleLocalCount v then Result (Some NilV)
     else if vm_sp v - 1 < length (vm_stack v) then Result (vm_stack v ! (vm_sp v - 1)) else RunError GoPanic)"
| "module_result (Running v) = RunError GoPanic"

definition vm_Run :: "natural_less \<Rightarrow> VM \<Rightarrow> run_result option" where
  "vm_Run natural v = map_option module_result (vm_run natural (v\<lparr>vm_sp := vm_moduleLocalCount v, vm_ip := - 1\<rparr>))"

end
