(* ===== verification/Execution.thy ===== *)
theory Execution
  imports CodeGen Machine
begin

unbundle bit_operations_syntax

text \<open>
  Rules for the execution of instructions: \<open>runs\<close> says that the machine goes, in finitely many steps, from an address and the
  live part of the stack to another address and live part.
\<close>

section \<open>Configurations\<close>

definition code_at :: "'a list \<Rightarrow> nat \<Rightarrow> 'a list \<Rightarrow> bool" where
  "code_at P a bs \<longleftrightarrow> (\<exists>pre post. P = pre @ bs @ post \<and> length pre = a)"

lemma code_at_append: "code_at P a (xs @ ys) \<longleftrightarrow> code_at P a xs \<and> code_at P (a + length xs) ys"
proof
  assume "code_at P a (xs @ ys)"
  then obtain pre post where P: "P = pre @ (xs @ ys) @ post" "length pre = a" unfolding code_at_def by blast
  have "P = pre @ xs @ (ys @ post)" "P = (pre @ xs) @ ys @ post" using P by simp_all
  then show "code_at P a xs \<and> code_at P (a + length xs) ys" using P(2) unfolding code_at_def by fastforce
next
  assume "code_at P a xs \<and> code_at P (a + length xs) ys"
  then obtain pre post pre' post' where P: "P = pre @ xs @ post" "length pre = a" "P = pre' @ ys @ post'" "length pre' = a + length xs"
    unfolding code_at_def by blast
  then have "pre @ xs = pre'" by (metis append.assoc append_eq_append_conv length_append)
  then show "code_at P a (xs @ ys)" using P unfolding code_at_def by fastforce
qed

lemma code_at_Cons: "code_at P a (x # xs) \<longleftrightarrow> a < length P \<and> P ! a = x \<and> code_at P (a + 1) xs"
proof -
  have "code_at P a [x] \<longleftrightarrow> a < length P \<and> P ! a = x"
    unfolding code_at_def by (auto simp: nth_append) (metis Cons_nth_drop_Suc append_Cons append_Nil append_take_drop_id length_take min.absorb2 less_imp_le)
  then show ?thesis using code_at_append[of P a "[x]" xs] by simp
qed

lemma code_at_le: "code_at P a bs \<Longrightarrow> a + length bs \<le> length P"
  by (auto simp: code_at_def)

definition conf :: "VM \<Rightarrow> int \<Rightarrow> nat \<Rightarrow> Value option list \<Rightarrow> VM" where
  "conf v0 i n stk = v0\<lparr>vm_ip := i, vm_sp := n, vm_stack := stk\<rparr>"

lemma conf_simps [simp]:
  "vm_ip (conf v0 i n stk) = i" "vm_sp (conf v0 i n stk) = n" "vm_stack (conf v0 i n stk) = stk"
  "vm_insts (conf v0 i n stk) = vm_insts v0" "vm_constants (conf v0 i n stk) = vm_constants v0"
  "vm_globals (conf v0 i n stk) = vm_globals v0" "vm_moduleLocalCount (conf v0 i n stk) = vm_moduleLocalCount v0"
  "vm_err (conf v0 i n stk) = vm_err v0" "vm_aborting (conf v0 i n stk) = vm_aborting v0" "vm_ctxDone (conf v0 i n stk) = vm_ctxDone v0"
  "conf v0 i n stk\<lparr>vm_ip := j\<rparr> = conf v0 j n stk" "conf v0 i n stk\<lparr>vm_sp := m\<rparr> = conf v0 i m stk"
  "conf v0 i n stk\<lparr>vm_stack := stk'\<rparr> = conf v0 i n stk'"
  by (simp_all add: conf_def)

lemma conf_err [simp]: "vm_err v0 = None \<Longrightarrow> conf v0 i n stk\<lparr>vm_err := None\<rparr> = conf v0 i n stk"
  by (cases v0) (simp add: conf_def)

definition at :: "VM \<Rightarrow> nat \<Rightarrow> Value option list \<Rightarrow> VM \<Rightarrow> bool" where
  "at v0 a S v \<longleftrightarrow> (\<exists>junk. length S + length junk = VM_STACK_SIZE \<and>
     v = conf v0 (int a - 1) (length S) (S @ junk))"

definition ready :: "VM \<Rightarrow> bool" where
  "ready v0 \<longleftrightarrow> vm_err v0 = None \<and> \<not> vm_aborting v0 \<and> \<not> vm_ctxDone v0 \<and> length (vm_insts v0) < 65536 \<and> length (vm_constants v0) < 65536"

definition goes :: "natural_less \<Rightarrow> VM \<Rightarrow> VM \<Rightarrow> bool" where
  "goes natural = (\<lambda>v v'. vm_step natural v = Running v')\<^sup>*\<^sup>*"

definition runs :: "natural_less \<Rightarrow> VM \<Rightarrow> nat \<Rightarrow> Value option list \<Rightarrow> nat \<Rightarrow> Value option list \<Rightarrow> bool" where
  "runs natural v0 a S a' S' \<longleftrightarrow> (\<forall>v. at v0 a S v \<longrightarrow> (\<exists>v'. goes natural v v' \<and> at v0 a' S' v'))"

definition returns :: "natural_less \<Rightarrow> VM \<Rightarrow> nat \<Rightarrow> Value option list \<Rightarrow> Value option \<Rightarrow> bool" where
  "returns natural v0 a S x \<longleftrightarrow> (\<forall>v. at v0 a S v \<longrightarrow>
     (\<exists>v' w. goes natural v v' \<and> vm_step natural v' = Returned w \<and> module_result (Returned w) = Result x))"

lemma goes_trans: "goes natural u v \<Longrightarrow> goes natural v w \<Longrightarrow> goes natural u w"
  by (simp add: goes_def)

lemma runs_refl [simp]: "runs natural v0 a S a S"
  unfolding runs_def goes_def by blast

lemma runs_trans: "runs natural v0 a S b T \<Longrightarrow> runs natural v0 b T c U \<Longrightarrow> runs natural v0 a S c U"
  unfolding runs_def using goes_trans by blast

lemma runs_returns: "runs natural v0 a S b T \<Longrightarrow> returns natural v0 b T x \<Longrightarrow> returns natural v0 a S x"
  unfolding runs_def returns_def using goes_trans by blast

lemma runs_step:
  assumes "\<And>junk. length S + length junk = VM_STACK_SIZE \<Longrightarrow>
    \<exists>junk'. vm_step natural (conf v0 (int a - 1) (length S) (S @ junk)) =
        Running (conf v0 (int a' - 1) (length S') (S' @ junk')) \<and> length S' + length junk' = VM_STACK_SIZE"
  shows "runs natural v0 a S a' S'"
proof -
  have "\<exists>v'. goes natural v v' \<and> at v0 a' S' v'" if "at v0 a S v" for v
  proof -
    from that obtain junk where j: "length S + length junk = VM_STACK_SIZE"
      "v = conf v0 (int a - 1) (length S) (S @ junk)"
      unfolding at_def by blast
    from assms[OF j(1)] obtain junk' where
      "vm_step natural v = Running (conf v0 (int a' - 1) (length S') (S' @ junk'))"
      "length S' + length junk' = VM_STACK_SIZE"
      using j(2) by blast
    then show ?thesis unfolding goes_def at_def by blast
  qed
  then show ?thesis unfolding runs_def by blast
qed

section \<open>Fetching\<close>

lemma unat_opcode: "op < 256 \<Longrightarrow> unat (of_nat op :: code_byte) = op"
  by (simp add: unat_of_nat)

lemma step_exec:
  assumes "ready v0" and "code_at (vm_insts v0) a (enc (op, os))" and "op < 256"
  shows "vm_step natural (conf v0 (int a - 1) n stk) =
    vm_exec natural op (conf v0 (int a) n stk)"
  using assms by (auto simp: vm_step_def ready_def byte_at_def enc_def code_at_Cons unat_opcode Let_def)

lemma fetch1:
  assumes "code_at (vm_insts v) a (enc (op, [x]))" and "OpcodeOperands op = Some [1]" and "vm_ip v = int a" and "0 \<le> x" and "x < 256"
  shows "with_operand1 v k = k (nat x) (v\<lparr>vm_ip := int a + 1\<rparr>)"
proof -
  have "code_at (vm_insts v) a (of_nat op # [word_of_int x])"
    using assms(1,2) by (simp add: enc_def enc_operand_def)
  then have "byte_at v (vm_ip v + 1) = Some (word_of_int x)"
    using assms(3) by (auto simp: byte_at_def code_at_Cons nat_add_distrib)
  moreover have "unat (word_of_int x :: code_byte) = nat x"
    using assms(4,5) by (simp add: unat_eq_nat_uint uint_byte)
  ultimately show ?thesis using assms(3) by (simp add: with_operand1_def)
qed

lemma fetch2:
  assumes "code_at (vm_insts v) a (enc (op, [x]))" and "OpcodeOperands op = Some [2]" and "vm_ip v = int a" and "0 \<le> x" and "x < 65536"
  shows "with_operand2 v k = k (nat x) (v\<lparr>vm_ip := int a + 2\<rparr>)"
proof -
  let ?w = "word_of_int x :: 16 word"
  have "code_at (vm_insts v) a (of_nat op # [ucast (drop_bit 8 ?w), ucast ?w])"
    using assms(1,2) by (simp add: enc_def enc_operand_def)
  then have "byte_at v (vm_ip v + 1) = Some (ucast (drop_bit 8 ?w))" "byte_at v (vm_ip v + 2) = Some (ucast ?w)"
    using assms(3) by (auto simp: byte_at_def code_at_Cons nat_add_distrib)
  then show ?thesis using assms(3-5) uint_two_bytes[of x] by (simp add: with_operand2_def)
qed

section \<open>The stack\<close>

lemma push_conf: "vm_push x (conf v0 i (length S) (S @ y # junk)) = Running (conf v0 i (Suc (length S)) (S @ x # junk))"
  by (simp add: vm_push_def set_stack_def)

lemma top_conf [simp]: "with_stack (Suc 0) (conf v0 i (Suc (length S)) (S @ x # junk)) k = k x"
  by (simp add: with_stack_def nth_append)

lemma two_conf [simp]:
  "with_stack 2 (conf v0 i (Suc (Suc (length S))) (S @ l # r # junk)) k = k l"
  "with_stack (Suc 0) (conf v0 i (Suc (Suc (length S))) (S @ l # r # junk)) k = k r"
  "with_operands (conf v0 i (Suc (Suc (length S))) (S @ l # r # junk)) h = h l r"
  by (simp_all add: with_stack_def with_operands_def nth_append)

lemma binary_conf: "binary_push x (conf v0 i (Suc (Suc (length S))) (S @ l # r # junk)) = Running (conf v0 i (Suc (length S)) (S @ Some x # r # junk))"
  by (simp add: binary_push_def set_stack_def)

text \<open>An instruction that pushes a value, one that replaces the top, and one that replaces the two topmost values.\<close>

lemma runs_push:
  assumes "length S < VM_STACK_SIZE"
    and "\<And>y junk. vm_step natural (conf v0 (int a - 1) (length S) (S @ y # junk)) = Running (conf v0 (int a' - 1) (Suc (length S)) (S @ x # junk))"
  shows "runs natural v0 a S a' (S @ [x])"
proof (rule runs_step)
  fix junk :: "Value option list"
  assume j: "length S + length junk = VM_STACK_SIZE"
  then obtain y junk' where "junk = y # junk'" using assms(1) by (cases junk) auto
  then show "\<exists>junk'. vm_step natural (conf v0 (int a - 1) (length S) (S @ junk)) =
      Running (conf v0 (int a' - 1) (length (S @ [x])) ((S @ [x]) @ junk')) \<and> length (S @ [x]) + length junk' = VM_STACK_SIZE"
    using assms(2)[of y junk'] j by (intro exI[of _ junk']) simp
qed

lemma runs_replace:
  assumes "\<And>junk. vm_step natural (conf v0 (int a - 1) (Suc (length S)) (S @ x # junk)) = Running (conf v0 (int a' - 1) (Suc (length S)) (S @ y # junk))"
  shows "runs natural v0 a (S @ [x]) a' (S @ [y])"
  by (rule runs_step) (use assms in \<open>auto intro!: exI\<close>)

lemma runs_drop:
  assumes "\<And>junk. vm_step natural (conf v0 (int a - 1) (Suc (length S)) (S @ x # junk)) = Running (conf v0 (int a' - 1) (length S) (S @ x # junk))"
  shows "runs natural v0 a (S @ [x]) a' S"
proof (rule runs_step)
  fix junk :: "Value option list"
  assume "length (S @ [x]) + length junk = VM_STACK_SIZE"
  then show "\<exists>junk'. vm_step natural (conf v0 (int a - 1) (length (S @ [x])) ((S @ [x]) @ junk)) =
      Running (conf v0 (int a' - 1) (length S) (S @ junk')) \<and> length S + length junk' = VM_STACK_SIZE"
    using assms[of junk] by (intro exI[of _ "x # junk"]) simp
qed

lemma runs_combine:
  assumes "\<And>junk. vm_step natural (conf v0 (int a - 1) (Suc (Suc (length S))) (S @ l # r # junk)) =
    Running (conf v0 (int a' - 1) (Suc (length S)) (S @ x # r # junk))"
  shows "runs natural v0 a (S @ [l, r]) a' (S @ [x])"
proof (rule runs_step)
  fix junk :: "Value option list"
  assume "length (S @ [l, r]) + length junk = VM_STACK_SIZE"
  then show "\<exists>junk'. vm_step natural (conf v0 (int a - 1) (length (S @ [l, r])) ((S @ [l, r]) @ junk)) =
      Running (conf v0 (int a' - 1) (length (S @ [x])) ((S @ [x]) @ junk')) \<and> length (S @ [x]) + length junk' = VM_STACK_SIZE"
    using assms[of junk] by (intro exI[of _ "r # junk"]) simp
qed

section \<open>Instructions\<close>

lemma run_push_constant:
  assumes "ready v0" and "code_at (vm_insts v0) a (enc (OpPushConstant, [int k]))" and "k < length (vm_constants v0)" and "length S < VM_STACK_SIZE"
  shows "runs natural v0 a S (a + 3) (S @ [Some (vm_constants v0 ! k)])"
  using assms
  by (intro runs_push) (auto simp: step_exec vm_exec_def op_push_constant_def fetch2[where a = a and op = 0] push_conf ready_def)

lemma run_push_simple:
  assumes "ready v0" and "code_at (vm_insts v0) a (enc (op, []))" and "length S < VM_STACK_SIZE"
    and "(op, x) \<in> {(OpPushNil, NilV), (OpPushTrue, BoolV True), (OpPushFalse, BoolV False)}"
  shows "runs natural v0 a S (a + 1) (S @ [Some x])"
  using assms by (intro runs_push) (auto simp: step_exec vm_exec_def push_conf)

lemma run_pop:
  assumes "ready v0" and "code_at (vm_insts v0) a (enc (OpPop, []))"
  shows "runs natural v0 a (S @ [x]) (a + 1) S"
  using assms by (intro runs_drop) (simp add: step_exec vm_exec_def op_pop_def)

lemma run_copy_top:
  assumes "ready v0" and "code_at (vm_insts v0) a (enc (OpCopyTop, []))" and "length S + 1 < VM_STACK_SIZE"
  shows "runs natural v0 a (S @ [x]) (a + 1) (S @ [x, x])"
proof -
  have "runs natural v0 a (S @ [x]) (a + 1) ((S @ [x]) @ [x])"
    using assms push_conf[of x v0 "int a" "S @ [x]"] by (intro runs_push) (simp_all add: step_exec vm_exec_def op_copy_top_def)
  then show ?thesis by simp
qed

lemma run_jump:
  assumes "ready v0" and "code_at (vm_insts v0) a (enc (OpJump, [int t]))" and "t < 65536"
  shows "runs natural v0 a S t S"
  using assms by (intro runs_step) (auto simp: step_exec vm_exec_def op_jump_def fetch2[where a = a and op = OpJump])

lemma run_jump_if_false:
  assumes "ready v0" and "code_at (vm_insts v0) a (enc (OpJumpIfFalse, [int t]))" and "t < 65536"
  shows "runs natural v0 a (S @ [Some (BoolV b)]) (if b then a + 3 else t) S"
  using assms
  by (intro runs_drop) (auto simp: step_exec vm_exec_def op_jump_if_false_def fetch2[where a = a and op = OpJumpIfFalse])

lemma run_and_jump:
  assumes "ready v0" and "code_at (vm_insts v0) a (enc (OpAndJump, [int t]))" and "t < 65536"
  shows "runs natural v0 a (S @ [Some (BoolV True)]) (a + 3) S" "runs natural v0 a (S @ [Some (BoolV False)]) t (S @ [Some (BoolV False)])"
  using assms
  by (intro runs_drop runs_replace; simp add: step_exec vm_exec_def op_and_jump_def fetch2[where a = a and op = OpAndJump])+

lemma run_or_jump:
  assumes "ready v0" and "code_at (vm_insts v0) a (enc (OpOrJump, [int t]))" and "t < 65536"
  shows "runs natural v0 a (S @ [Some (BoolV False)]) (a + 3) S" "runs natural v0 a (S @ [Some (BoolV True)]) t (S @ [Some (BoolV True)])"
  using assms
  by (intro runs_drop runs_replace; simp add: step_exec vm_exec_def op_or_jump_def fetch2[where a = a and op = OpOrJump])+

lemma run_minus:
  assumes "ready v0" and "code_at (vm_insts v0) a (enc (OpMinus, []))" and "unary_result NumberNegate x = Inr y"
  shows "runs natural v0 a (S @ [Some x]) (a + 1) (S @ [Some y])"
  using assms
  by (intro runs_replace; cases x) (auto simp: step_exec vm_exec_def op_minus_def push_conf Let_def split: if_splits)

lemma run_boolean_not:
  assumes "ready v0" and "code_at (vm_insts v0) a (enc (OpBooleanNot, []))" and "unary_result BoolNegate x = Inr y"
  shows "runs natural v0 a (S @ [Some x]) (a + 1) (S @ [Some y])"
  using assms
  by (intro runs_replace; cases x) (auto simp: step_exec vm_exec_def op_boolean_not_def push_conf)

lemma run_set_local:
  assumes "ready v0" and "code_at (vm_insts v0) a (enc (OpSetLocal, [int i]))" and "i < 256" and "i < length S"
  shows "runs natural v0 a (S @ [x]) (a + 2) (S[i := x])"
proof (rule runs_step)
  fix junk :: "Value option list"
  assume "length (S @ [x]) + length junk = VM_STACK_SIZE"
  then show "\<exists>junk'. vm_step natural (conf v0 (int a - 1) (length (S @ [x])) ((S @ [x]) @ junk)) =
      Running (conf v0 (int (a + 2) - 1) (length (S[i := x])) (S[i := x] @ junk')) \<and> length (S[i := x]) + length junk' = VM_STACK_SIZE"
    using assms
    by (intro exI[of _ "x # junk"])
      (simp add: step_exec vm_exec_def op_set_local_def fetch1[where a = a and op = OpSetLocal] set_stack_def list_update_append)
qed

lemma run_get_local:
  assumes "ready v0" and "code_at (vm_insts v0) a (enc (OpGetLocal, [int i]))" and "i < 256" and "i < length S" and "length S < VM_STACK_SIZE"
  shows "runs natural v0 a S (a + 2) (S @ [S ! i])"
  using assms
  by (intro runs_push)
    (simp_all add: step_exec vm_exec_def op_get_local_def fetch1[where a = a and op = OpGetLocal] push_conf nth_append)

lemma run_get_global:
  assumes "ready v0" and "code_at (vm_insts v0) a (enc (OpGetGlobal, [int k]))" and "k < length (vm_constants v0)"
    and "vm_constants v0 ! k = StringV name" and "vm_globals v0 name = Some x" and "length S < VM_STACK_SIZE"
  shows "runs natural v0 a S (a + 3) (S @ [Some x])"
  using assms
  by (intro runs_push)
    (auto simp: step_exec vm_exec_def op_get_global_def fetch2[where a = a and op = OpGetGlobal] push_conf ready_def)

lemma run_simple_operator:
  assumes "ready v0" and "code_at (vm_insts v0) a (enc (simple_operator_op operator, []))"
    and "\<not> is_logical operator" and "\<not> is_arithmetic operator" and "binary_result natural operator l r = Inr y"
  shows "runs natural v0 a (S @ [Some l, Some r]) (a + 1) (S @ [Some y])"
proof (rule runs_combine)
  fix junk :: "Value option list"
  show "vm_step natural (conf v0 (int a - 1) (Suc (Suc (length S))) (S @ Some l # Some r # junk)) =
    Running (conf v0 (int (a + 1) - 1) (Suc (length S)) (S @ Some y # Some r # junk))"
    using assms
    by (cases operator)
      (auto simp: is_logical_def is_arithmetic_def step_exec vm_exec_def op_compare_def op_equal_def op_nil_coalesce_def compare_with_def
        binary_conf push_conf Let_def split: option.splits)
qed

lemma run_int_op:
  assumes "ready v0" and "code_at (vm_insts v0) a (enc (op, [int (BinaryOperator_iota operator)]))" and "op \<in> {OpIntBin, OpNumBin}"
    and "is_arithmetic operator" and "int_op operator l r = Inr y"
  shows "runs natural v0 a (S @ [Some (IntV l), Some (IntV r)]) (a + 2) (S @ [Some (IntV y)])"
proof (rule runs_combine)
  fix junk :: "Value option list"
  have "vm_err v0 = None" using assms(1) by (simp add: ready_def)
  then show "vm_step natural (conf v0 (int a - 1) (Suc (Suc (length S))) (S @ Some (IntV l) # Some (IntV r) # junk)) =
    Running (conf v0 (int (a + 2) - 1) (Suc (length S)) (S @ Some (IntV y) # Some (IntV r) # junk))"
    using assms
    by (cases operator)
      (auto simp: is_arithmetic_def step_exec vm_exec_def op_num_bin_def doSafeIntBinOp_def binary_conf Let_def
        fetch1[where a = a and op = OpIntBin] fetch1[where a = a and op = OpNumBin])
qed

lemma run_num_bin:
  assumes "ready v0" and "code_at (vm_insts v0) a (enc (OpNumBin, [int (BinaryOperator_iota operator)]))"
    and "is_arithmetic operator" and "binary_result natural operator l r = Inr y"
  shows "runs natural v0 a (S @ [Some l, Some r]) (a + 2) (S @ [Some y])"
proof -
  have e: "evalArithmeticBinaryExpression l r operator = Inr y"
    using assms(3,4) by (cases operator) (simp_all add: is_arithmetic_def)
  show ?thesis
  proof (cases l)
    case (IntV i)
    with e obtain j z where "r = IntV j" "int_op operator i j = Inr z" "y = IntV z"
      by (cases r) (auto simp: evalArithmeticBinaryExpression_def)
    then show ?thesis using run_int_op[OF assms(1,2) _ assms(3)] IntV by simp
  next
    case (FloatV f)
    with e obtain g where g: "r = FloatV g" "float_finite f" "float_finite g" "float_op operator f g = Inr y"
      by (cases r) (auto simp: evalArithmeticBinaryExpression_def split: if_splits)
    have "vm_err v0 = None" using assms(1) by (simp add: ready_def)
    then show ?thesis
      using g FloatV assms(1-3)
      by (intro runs_combine; cases operator)
        (auto simp: is_arithmetic_def step_exec vm_exec_def op_num_bin_def doSafeFloatBinOp_def binary_conf Let_def checked_float_def
          fetch1[where a = a and op = OpNumBin] split: if_splits)
  qed (use e in \<open>auto simp: evalArithmeticBinaryExpression_def\<close>)
qed

lemma run_return:
  assumes "ready v0" and "code_at (vm_insts v0) a (enc (OpReturn, [1]))" and "vm_moduleLocalCount v0 \<le> length S"
  shows "returns natural v0 a (S @ [x]) x"
proof -
  have "vm_err v0 = None" using assms(1) by (simp add: ready_def)
  then have "vm_step natural (conf v0 (int a - 1) (Suc (length S)) (S @ x # junk)) = Returned (conf v0 (int a + 1) (Suc (length S)) (S @ x # junk)) \<and>
      module_result (Returned (conf v0 (int a + 1) (Suc (length S)) (S @ x # junk))) = Result x" for junk
    using assms by (simp add: step_exec vm_exec_def op_return_def fetch1[where a = a and op = OpReturn] nth_append)
  then show ?thesis unfolding returns_def at_def goes_def by fastforce
qed

lemma run_return_nil:
  assumes "ready v0" and "code_at (vm_insts v0) a (enc (OpReturn, [0]))" and "vm_moduleLocalCount v0 \<le> length S"
    and "length S < VM_STACK_SIZE"
  shows "returns natural v0 a S (Some NilV)"
proof -
  have "vm_err v0 = None" using assms(1) by (simp add: ready_def)
  then have r: "vm_step natural (conf v0 (int a - 1) (length S) (S @ y # junk)) = Returned (conf v0 (int a + 1) (Suc (length S)) (S @ Some NilV # junk)) \<and>
      module_result (Returned (conf v0 (int a + 1) (Suc (length S)) (S @ Some NilV # junk))) = Result (Some NilV)" for y junk
    using assms by (simp add: step_exec vm_exec_def op_return_def fetch1[where a = a and op = OpReturn] set_stack_def nth_append)
  have "\<exists>v' w. goes natural v v' \<and> vm_step natural v' = Returned w \<and> module_result (Returned w) = Result (Some NilV)" if v: "at v0 a S v" for v
  proof -
    from v obtain junk where "length S + length junk = VM_STACK_SIZE" "v = conf v0 (int a - 1) (length S) (S @ junk)"
      unfolding at_def by blast
    then obtain y junk' where "v = conf v0 (int a - 1) (length S) (S @ y # junk')" using assms(4) by (cases junk) auto
    then show ?thesis using r[of y junk'] unfolding goes_def by blast
  qed
  then show ?thesis unfolding returns_def by blast
qed

lemma run_suspend:
  assumes "ready v0" and "code_at (vm_insts v0) a [of_nat OpSuspendVM]"
  shows "returns natural v0 a S (if length S \<le> vm_moduleLocalCount v0 then Some NilV else last S)"
proof -
  have e: "vm_err v0 = None" using assms(1) by (simp add: ready_def)
  have s: "vm_step natural (conf v0 (int a - 1) (length S) (S @ junk)) = Returned (conf v0 (int a) (length S) (S @ junk))" for junk
    using assms by (auto simp: vm_step_def ready_def byte_at_def code_at_Cons unat_opcode Let_def vm_exec_def)
  have m: "module_result (Returned (conf v0 (int a) (length S) (S @ junk))) =
      Result (if length S \<le> vm_moduleLocalCount v0 then Some NilV else last S)" if "length S + length junk = VM_STACK_SIZE" for junk
    using e that by (cases "S = []") (auto simp: nth_append last_conv_nth)
  show ?thesis
    unfolding returns_def
  proof (intro allI impI)
    fix v
    assume "at v0 a S v"
    then obtain junk where j: "length S + length junk = VM_STACK_SIZE" "v = conf v0 (int a - 1) (length S) (S @ junk)"
      unfolding at_def by blast
    show "\<exists>v' w. goes natural v v' \<and> vm_step natural v' = Returned w \<and>
        module_result (Returned w) = Result (if length S \<le> vm_moduleLocalCount v0 then Some NilV else last S)"
      using s[of junk] m[OF j(1)] j(2) unfolding goes_def by blast
  qed
qed

text \<open>A machine that returns yields its result from the loop.\<close>

lemma goes_run:
  assumes "goes natural v v'"
  shows "vm_run natural v = vm_run natural v'"
  using assms unfolding goes_def
  by (induction rule: converse_rtranclp_induct) (simp_all add: vm_run.simps[of natural "_ :: VM"])

lemma returns_Run:
  assumes "returns natural v 0 (replicate (vm_moduleLocalCount v) None) x"
    and "vm_stack v = replicate VM_STACK_SIZE None" and "vm_moduleLocalCount v \<le> VM_STACK_SIZE"
  shows "vm_Run natural v = Some (Result x)"
proof -
  let ?n = "vm_moduleLocalCount v"
  have "at v 0 (replicate ?n None) (v\<lparr>vm_sp := ?n, vm_ip := - 1\<rparr>)"
    unfolding at_def conf_def using assms(2,3)
    by (intro exI[of _ "replicate (VM_STACK_SIZE - ?n) None"]) (cases v, simp add: replicate_add[symmetric])
  with assms(1) obtain v' w where "goes natural (v\<lparr>vm_sp := ?n, vm_ip := - 1\<rparr>) v'" "vm_step natural v' = Returned w"
    "module_result (Returned w) = Result x"
    unfolding returns_def by blast
  then show ?thesis using goes_run[of natural] by (simp add: vm_Run_def vm_run.simps[of natural v'] del: module_result.simps)
qed

end
