(* ===== verification/Compilable.thy ===== *)
theory Compilable
  imports CodeGen
begin

text \<open>
  When compilation succeeds: every name is a global or a local that is declared before, the symbolic evaluation has a value for
  the left operand of every arithmetic expression, and there are at most 65535 constants. In particular no instruction is ever
  emitted or patched with a wrong number of operands.
\<close>

section \<open>Resolved programs\<close>

fun resolves :: "symbolic_data \<Rightarrow> global_names \<Rightarrow> (string \<rightharpoonup> nat) \<Rightarrow> expr \<Rightarrow> bool" where
  "resolves sd G L (IdentifierLiteral _ name) \<longleftrightarrow> G name \<or> L name \<noteq> None"
| "resolves sd G L (Variable _ name) \<longleftrightarrow> G name \<or> L name \<noteq> None"
| "resolves sd G L (UnaryExpression _ _ e) \<longleftrightarrow> resolves sd G L e"
| "resolves sd G L (BinaryExpression _ operator l r) \<longleftrightarrow>
     resolves sd G L l \<and> resolves sd G L r \<and> (if is_arithmetic operator then sd l \<noteq> None else True)"
| "resolves sd G L (IfExpression _ t c alt) \<longleftrightarrow>
     resolves sd G L t \<and> resolves sd G L c \<and> (case alt of Some e \<Rightarrow> resolves sd G L e | None \<Rightarrow> True)"
| "resolves sd G L _ \<longleftrightarrow> True"

fun decls_resolve :: "symbolic_data \<Rightarrow> global_names \<Rightarrow> symbolTable \<Rightarrow> (string \<times> expr) list \<Rightarrow> bool" where
  "decls_resolve sd G T [] \<longleftrightarrow> True"
| "decls_resolve sd G T ((name, e) # ds) \<longleftrightarrow>
     resolves sd G (st_store (define_local name T)) e \<and> decls_resolve sd G (define_local name T) ds"

fun stmt_resolves :: "symbolic_data \<Rightarrow> global_names \<Rightarrow> symbolTable \<Rightarrow> stmt \<Rightarrow> bool"
  and block_resolves :: "symbolic_data \<Rightarrow> global_names \<Rightarrow> symbolTable \<Rightarrow> stmt list \<Rightarrow> bool"
  and cases_resolve :: "symbolic_data \<Rightarrow> global_names \<Rightarrow> symbolTable \<Rightarrow> (expr list \<times> stmt) list \<Rightarrow> bool"
where
  "stmt_resolves sd G T (ExprStatement e) \<longleftrightarrow> resolves sd G (st_store T) e"
| "stmt_resolves sd G T (LocalVariableDeclarations _ ds) \<longleftrightarrow> decls_resolve sd G T ds"
| "stmt_resolves sd G T (Assignment _ _ left e) \<longleftrightarrow> resolves sd G (st_store (assign_local (GetVariableName left) T)) e"
| "stmt_resolves sd G T (IfStatement _ t c alt) \<longleftrightarrow>
     resolves sd G (st_store T) t \<and> stmt_resolves sd G T c \<and>
     (case alt of Some s \<Rightarrow> stmt_resolves sd G (stmt_table c T) s | None \<Rightarrow> True)"
| "stmt_resolves sd G T (SwitchStatement _ d cs defs) \<longleftrightarrow>
     (if cs = [] then True
      else resolves sd G (st_store T) d \<and> cases_resolve sd G T cs \<and>
        (case defs of s # _ \<Rightarrow> stmt_resolves sd G (cases_table cs T) s | [] \<Rightarrow> True))"
| "stmt_resolves sd G T (Block _ ss) \<longleftrightarrow> block_resolves sd G T ss"
| "stmt_resolves sd G T (ReturnStatement _ None) \<longleftrightarrow> True"
| "stmt_resolves sd G T (ReturnStatement _ (Some e)) \<longleftrightarrow> resolves sd G (st_store T) e"
| "block_resolves sd G T [] \<longleftrightarrow> True"
| "block_resolves sd G T (s # ss) \<longleftrightarrow> stmt_resolves sd G T s \<and> block_resolves sd G (stmt_table s T) ss"
| "cases_resolve sd G T [] \<longleftrightarrow> True"
| "cases_resolve sd G T (([], b) # cs) \<longleftrightarrow> cases_resolve sd G T cs"
| "cases_resolve sd G T ((v # vs, b) # cs) \<longleftrightarrow>
     resolves sd G (st_store T) v \<and> stmt_resolves sd G T b \<and> cases_resolve sd G (stmt_table b T) ((vs, b) # cs)"

section \<open>Single operations\<close>

lemma c_emit_succeeds:
  assumes "OpcodeOperands op = Some ws" and "length os = length ws"
  shows "\<exists>c'. c_emit span op os c = Inr (currentPos c, c')"
  using MakeInstruction_enc[OF assms] by (simp add: c_emit_def emit_def addInstruction_def)

lemma c_emit0_succeeds:
  assumes "OpcodeOperands op = Some ws" and "length os = length ws"
  shows "\<exists>c'. c_emit0 span op os c = Inr c'"
  using c_emit_succeeds[OF assms, of span c] by (auto simp: c_emit0_def)

lemma emit_succeeds:
  "OpcodeOperands op = Some [] \<Longrightarrow> \<exists>c'. c_emit0 span op [] c = Inr c'"
  "OpcodeOperands op = Some [1] \<Longrightarrow> \<exists>c'. c_emit0 span op [x] c = Inr c'"
  "OpcodeOperands op = Some [2] \<Longrightarrow> \<exists>c'. c_emit span op [x] c = Inr (currentPos c, c')"
  using c_emit0_succeeds[of op "[]" "[]"] c_emit0_succeeds[of op "[1]" "[x]"] c_emit_succeeds[of op "[2]" "[x]"] by simp_all

lemma push_constant_succeeds:
  assumes "OpcodeOperands op = Some [2]"
  shows "\<exists>c'. push_constant span op v c = Inr c'"
  using c_emit0_succeeds[OF assms] by (simp add: push_constant_def addConstant_def)

lemma CompileVar_succeeds:
  assumes "globals_of c name \<or> st_store (localSymbols c) name \<noteq> None"
  shows "\<exists>c'. CompileVar span name c = Inr c'"
proof (cases "globals_of c name")
  case True
  then show ?thesis using push_constant_succeeds[of OpGetGlobal] by (simp add: CompileVar_def globals_of_def)
next
  case False
  then show ?thesis
    using assms emit_succeeds(2)[OF rows(25), of span _ c] by (auto simp: CompileVar_def globals_of_def st_Resolve_def)
qed

text \<open>A jump that was emitted before a piece of code can be patched; so can both jumps of a conditional.\<close>

lemma jump_succeeds:
  assumes A1: "adds c bs vs T c1" and e: "c_emit span op [0] c1 = Inr (j, c2)" and "adds c2 bs2 vs2 T2 c3" and row: "OpcodeOperands op = Some [2]"
  shows "\<exists>c4. c_changeOperand j y c3 = Inr c4"
proof -
  have A2: "j = currentPos c1" "adds c1 (enc (op, [0])) [] (localSymbols c1) c2" using c_emit_adds[OF e row] by simp_all
  from patch_succeeds[OF adds_trans[OF A1 adds_trans[OF A2(2) assms(3)]] row] show ?thesis by (simp add: A2(1) addsD[OF A1])
qed

lemma two_jumps_succeed:
  assumes A1: "adds c bs vs T c1" and e: "c_emit span OpJumpIfFalse [0] c1 = Inr (j1, c2)" and A3: "adds c2 bs3 vs3 T3 c3"
    and e2: "c_emit span OpJump [0] c3 = Inr (j2, c4)"
  shows "\<exists>c5. c_changeOperand j1 y c4 = Inr c5 \<and> j2 = currentPos c + length bs + 3 + length bs3 \<and>
    adds c ((bs @ enc (OpJumpIfFalse, [y]) @ bs3) @ enc (OpJump, [0])) (vs @ vs3) T3 c5"
proof -
  have A2: "j1 = currentPos c1" "adds c1 (enc (OpJumpIfFalse, [0])) [] (localSymbols c1) c2" using c_emit_adds[OF e, of "[2]"] by simp_all
  have A4: "j2 = currentPos c3" "adds c3 (enc (OpJump, [0])) [] (localSymbols c3) c4" using c_emit_adds[OF e2, of "[2]"] by simp_all
  note A = adds_trans[OF A1 adds_trans[OF A2(2) adds_trans[OF A3 A4(2)]]]
  have j1: "j1 = currentPos c + length bs" using A2(1) addsD(1)[OF A1] by simp
  from patch_succeeds[OF A rows(7) j1, of y] obtain c5 where c5: "c_changeOperand j1 y c4 = Inr c5" by blast
  from adds_patch[OF A rows(7) c5 j1] c5 show ?thesis
    by (simp add: A4(1) addsD[OF A1] addsD[OF A2(2)] addsD[OF A3])
qed

lemma second_jump_succeeds:
  assumes "adds c ((bs @ enc (OpJumpIfFalse, [y]) @ bs3) @ enc (OpJump, [0])) vs T c5" and "adds c5 bs6 vs6 T6 c6"
    and "j2 = currentPos c + length bs + 3 + length bs3"
  shows "\<exists>c7. c_changeOperand j2 z c6 = Inr c7"
proof -
  note A = adds_trans[OF assms(1,2)]
  have "adds c ((bs @ enc (OpJumpIfFalse, [y]) @ bs3) @ enc (OpJump, [0]) @ bs6) (vs @ vs6) T6 c6" using A by simp
  from patch_succeeds[OF this rows(10), of j2 z] assms(3) show ?thesis by simp
qed

section \<open>Expressions\<close>

lemma compile_expr_succeeds:
  assumes "resolves sd (globals_of c) (st_store (localSymbols c)) e"
  shows "\<exists>c'. compile_expr sd e c = Inr c'"
  using assms
proof (induction sd e c rule: compile_expr.induct)
  case (8 sd span operator operand c)
  then obtain c1 where "compile_expr sd operand c = Inr c1" by auto
  then show ?case using emit_succeeds(1)[of _ span c1] by (cases operator) simp_all
next
  case (9 sd span operator left right c)
  show ?case
  proof (cases "is_logical operator")
    case True
    let ?op = "if operator = And then OpAndJump else OpOrJump"
    have row: "OpcodeOperands ?op = Some [2]" by simp
    obtain c1 where c1: "compile_expr sd left c = Inr c1" using "9.IH"(1)[OF True] "9.prems" by auto
    note A1 = compile_expr_adds[OF c1]
    obtain c2 where c2: "c_emit span ?op [0] c1 = Inr (currentPos c1, c2)" using emit_succeeds(3)[OF row] by blast
    have A2: "adds c1 (enc (?op, [0])) [] (localSymbols c1) c2" using c_emit_adds[OF c2 row] by simp
    have "resolves sd (globals_of c2) (st_store (localSymbols c2)) right" using "9.prems" by (simp add: addsD[OF A1] addsD[OF A2])
    then obtain c3 where c3: "compile_expr sd right c2 = Inr c3" using "9.IH"(2)[OF True c1 c2 refl] by auto
    show ?thesis using jump_succeeds[OF A1 c2 compile_expr_adds[OF c3] row] True c1 c2 c3 by simp
  next
    case False
    obtain c1 where c1: "compile_expr sd left c = Inr c1" using "9.IH"(3)[OF False] "9.prems" by auto
    note A1 = compile_expr_adds[OF c1]
    have "resolves sd (globals_of c1) (st_store (localSymbols c1)) right" using "9.prems" by (simp add: addsD[OF A1])
    then obtain c2 where c2: "compile_expr sd right c1 = Inr c2" using "9.IH"(4)[OF False c1] by auto
    show ?thesis
      using False c1 c2 "9.prems" emit_succeeds(1)[OF simple_operator_row] emit_succeeds(2)[OF rows(17)] emit_succeeds(2)[OF rows(18)]
      by (cases "sd left") (auto split: symbolic_value.splits)
  qed
next
  case (10 sd span test consequent alternate c)
  obtain c1 where c1: "compile_expr sd test c = Inr c1" using "10.IH"(1) "10.prems" by auto
  note A1 = compile_expr_adds[OF c1]
  obtain c2 where c2: "c_emit span OpJumpIfFalse [0] c1 = Inr (currentPos c1, c2)" using emit_succeeds(3)[OF rows(7)] by blast
  have A2: "adds c1 (enc (OpJumpIfFalse, [0])) [] (localSymbols c1) c2" using c_emit_adds[OF c2, of "[2]"] by simp
  have "resolves sd (globals_of c2) (st_store (localSymbols c2)) consequent" using "10.prems" by (simp add: addsD[OF A1] addsD[OF A2])
  then obtain c3 where c3: "compile_expr sd consequent c2 = Inr c3" using "10.IH"(2)[OF c1 c2 refl] by auto
  note A3 = compile_expr_adds[OF c3]
  obtain c4 where c4: "c_emit span OpJump [0] c3 = Inr (currentPos c3, c4)" using emit_succeeds(3)[OF rows(10)] by blast
  obtain c5 where c5: "c_changeOperand (currentPos c1) (int (currentPos c4)) c4 = Inr c5"
    "currentPos c3 = currentPos c + length (at_expr sd c test) + 3 + length (at_expr sd c2 consequent)" and
    A5: "adds c ((at_expr sd c test @ enc (OpJumpIfFalse, [int (currentPos c4)]) @ at_expr sd c2 consequent) @ enc (OpJump, [0]))
      (expr_consts (globals_of c) test @ expr_consts (globals_of c2) consequent) (localSymbols c2) c5"
    using two_jumps_succeed[OF A1 c2 A3 c4] by blast
  have s5: "globals_of c5 = globals_of c" "localSymbols c5 = localSymbols c" using addsD(3,4)[OF A5] addsD(4)[OF A1] addsD(4)[OF A2] by simp_all
  have "\<exists>bs vs c6. (case alternate of Some e \<Rightarrow> compile_expr sd e c5 | None \<Rightarrow> c_emit0 span OpPushNil [] c5) = Inr c6 \<and> adds c5 bs vs (localSymbols c5) c6"
  proof (cases alternate)
    case None
    obtain c6 where "c_emit0 span OpPushNil [] c5 = Inr c6" using emit_succeeds(1)[OF rows(2)] by blast
    then show ?thesis using c_emit0_adds[of span OpPushNil "[]" c5 c6 "[]"] None by auto
  next
    case (Some e)
    then obtain c6 where "compile_expr sd e c5 = Inr c6"
      using "10.IH"(3)[OF c1 c2 refl c3 c4 refl c5(1) Some] "10.prems" s5 by auto
    then show ?thesis using compile_expr_adds[of sd e c5 c6] Some by auto
  qed
  then obtain bs vs c6 where c6: "(case alternate of Some e \<Rightarrow> compile_expr sd e c5 | None \<Rightarrow> c_emit0 span OpPushNil [] c5) = Inr c6"
    "adds c5 bs vs (localSymbols c5) c6" by blast
  then show ?case using second_jump_succeeds[OF A5 c6(2) c5(2)] c1 c2 c3 c4 c5(1) by simp
qed (use push_constant_succeeds[OF rows(1)] emit_succeeds(1) CompileVar_succeeds in auto)

section \<open>Statements\<close>

lemma compile_declarations_succeeds:
  assumes "decls_resolve sd (globals_of c) (localSymbols c) ds"
  shows "\<exists>c'. compile_declarations sd span ds c = Inr c'"
  using assms
proof (induction sd span ds c rule: compile_declarations.induct)
  case (2 sd span name right ds c)
  obtain i c1 where d: "c_Define name c = (i, c1)" by fastforce
  have A1: "adds c [] [] (define_local name (localSymbols c)) c1" using c_Define_adds[OF d] by simp
  obtain c2 where c2: "compile_expr sd right c1 = Inr c2"
    using compile_expr_succeeds[of sd c1 right] "2.prems" by (auto simp: addsD[OF A1])
  note A2 = compile_expr_adds[OF c2]
  obtain c3 where c3: "c_emit0 span OpSetLocal [int i] c2 = Inr c3" using emit_succeeds(2)[OF rows(24)] by blast
  have A3: "adds c2 (enc (OpSetLocal, [int i])) [] (localSymbols c2) c3" by (rule c_emit0_adds[OF c3, of "[1]"]) simp_all
  show ?case
    using "2.IH"[OF d[symmetric] c2 c3] "2.prems" d c2 c3 by (auto simp: addsD[OF A1] addsD[OF A2] addsD[OF A3])
qed simp

lemma compileAssign_succeeds:
  assumes "resolves sd (globals_of c) (st_store (assign_local name (localSymbols c))) e"
  shows "\<exists>c'. compileAssign sd span operator name e c = Inr c'"
proof -
  obtain i c1 where d: "resolve_or_define name c = (i, c1)" by fastforce
  have A1: "adds c [] [] (assign_local name (localSymbols c)) c1" using resolve_or_define_adds[OF d] by simp
  obtain c2 where c2: "(if operator \<noteq> Assign then c_emit0 span OpGetLocal [int i] c1 else Inr c1) = Inr c2"
    using emit_succeeds(2)[OF rows(25), of span "int i" c1] by (cases "operator = Assign") auto
  have "globals_of c2 = globals_of c1" "localSymbols c2 = localSymbols c1"
    using c2 c_emit0_adds[of span OpGetLocal "[int i]" c1 c2 "[1]"] addsD(3,4) by (auto split: if_splits)
  then obtain c3 where c3: "compile_expr sd e c2 = Inr c3" using compile_expr_succeeds[of sd c2 e] assms by (auto simp: addsD[OF A1])
  obtain c4 where c4: "(case assign_operator operator of None \<Rightarrow> Inr c3 | Some b \<Rightarrow> c_emit0 span OpIntBin [int (BinaryOperator_iota b)] c3) = Inr c4"
    using emit_succeeds(2)[OF rows(16), of span _ c3] by (cases "assign_operator operator") auto
  obtain c5 where "c_emit0 span OpSetLocal [int i] c4 = Inr c5" using emit_succeeds(2)[OF rows(24)] by blast
  then show ?thesis using d c2 c3 c4 by (auto simp: compileAssign_def compileAssignOperation_def)
qed

lemma emitE:
  assumes "OpcodeOperands op = Some [2]"
  obtains c' where "c_emit span op [x] c = Inr (currentPos c, c')" and "globals_of c' = globals_of c" and "localSymbols c' = localSymbols c"
proof -
  obtain c' where c': "c_emit span op [x] c = Inr (currentPos c, c')" using emit_succeeds(3)[OF assms] by blast
  then show ?thesis using that c_emit_adds[OF c' assms] addsD(3,4) by fastforce
qed

lemma emit0E:
  assumes "OpcodeOperands op = Some []"
  obtains c' where "c_emit0 span op [] c = Inr c'" and "globals_of c' = globals_of c" and "localSymbols c' = localSymbols c"
proof -
  obtain c' where c': "c_emit0 span op [] c = Inr c'" using emit_succeeds(1)[OF assms] by blast
  then show ?thesis using that c_emit0_adds[OF c' assms] addsD(3,4) by fastforce
qed

lemma emit_ifE:
  assumes "OpcodeOperands op = Some []"
  obtains c' where "(if p then c_emit0 span op [] c else Inr c) = Inr c'" and "globals_of c' = globals_of c" and "localSymbols c' = localSymbols c"
  using emit0E[OF assms, of span c] by metis

lemma compile_exprE:
  assumes "resolves sd (globals_of c) (st_store (localSymbols c)) e"
  obtains c' where "compile_expr sd e c = Inr c'" and "globals_of c' = globals_of c" and "localSymbols c' = localSymbols c"
proof -
  obtain c' where c': "compile_expr sd e c = Inr c'" using compile_expr_succeeds[OF assms] by blast
  then show ?thesis using that addsD(3,4)[OF compile_expr_adds[OF c']] by blast
qed

lemma compile_stmt_succeeds:
  "stmt_resolves sd (globals_of c) (localSymbols c) s \<Longrightarrow> \<exists>c'. compile_stmt sd s c = Inr c'"
  "block_resolves sd (globals_of c) (localSymbols c) ss \<Longrightarrow> \<exists>c'. compile_block sd span ss c = Inr c'"
  "cases_resolve sd (globals_of c) (localSymbols c) cs \<Longrightarrow> \<exists>js c'. compile_cases sd span cs jumps c = Inr (js, c')"
proof (induction sd s c and sd span ss c and sd span cs jumps c rule: compile_stmt_compile_block_compile_cases.induct)
  case (1 sd e c)
  then show ?case using compile_expr_succeeds[of sd c e] by simp
next
  case (2 sd span ds c)
  then show ?case using compile_declarations_succeeds[of sd c ds span] by simp
next
  case (3 sd span operator name right c)
  then show ?case using compileAssign_succeeds[of sd c "GetVariableName name" right span operator] by simp
next
  case (4 sd span test s alternate c)
  obtain c1 where c1: "compile_expr sd test c = Inr c1" "globals_of c1 = globals_of c" "localSymbols c1 = localSymbols c"
    using compile_exprE[of sd c test] "4.prems" by auto
  obtain c2 where c2: "c_emit span OpJumpIfFalse [0] c1 = Inr (currentPos c1, c2)" "globals_of c2 = globals_of c1" "localSymbols c2 = localSymbols c1"
    using emitE[OF rows(7)] by blast
  obtain c3 where c3: "compile_stmt sd s c2 = Inr c3" using "4.IH"(1)[OF c1(1) c2(1) refl] "4.prems" c1 c2 by auto
  note A1 = compile_expr_adds[OF c1(1)] and A3 = compile_stmt_adds(1)[OF c3]
  show ?case
  proof (cases alternate)
    case None
    then show ?thesis using jump_succeeds[OF A1 c2(1) A3 rows(7)] c1 c2 c3 by simp
  next
    case (Some t)
    obtain c4 where c4: "c_emit span OpJump [0] c3 = Inr (currentPos c3, c4)" "globals_of c4 = globals_of c3" "localSymbols c4 = localSymbols c3"
      using emitE[OF rows(10)] by blast
    obtain c5 where c5: "c_changeOperand (currentPos c1) (int (currentPos c4)) c4 = Inr c5"
      "currentPos c3 = currentPos c + length (at_expr sd c test) + 3 + length (at_stmt sd c2 s)" and
      A5: "adds c ((at_expr sd c test @ enc (OpJumpIfFalse, [int (currentPos c4)]) @ at_stmt sd c2 s) @ enc (OpJump, [0]))
        (expr_consts (globals_of c) test @ stmt_consts (globals_of c2) s) (stmt_table s (localSymbols c2)) c5"
      using two_jumps_succeed[OF A1 c2(1) A3 c4(1)] by blast
    have "stmt_resolves sd (globals_of c5) (localSymbols c5) t"
      using "4.prems" Some c1 c2 addsD(3,4)[OF A5] by simp
    then obtain c6 where c6: "compile_stmt sd t c5 = Inr c6" using "4.IH"(2)[OF c1(1) c2(1) refl c3 Some c4(1) refl c5(1)] by auto
    show ?thesis using second_jump_succeeds[OF A5 compile_stmt_adds(1)[OF c6] c5(2)] Some c1 c2 c3 c4 c5 c6 by simp
  qed
next
  case (5 sd span d cs defs c)
  show ?case
  proof (cases "cs = []")
    case False
    obtain c1 where c1: "compile_expr sd d c = Inr c1" "globals_of c1 = globals_of c" "localSymbols c1 = localSymbols c"
      using compile_exprE[of sd c d] "5.prems" False by auto
    obtain js c2 where c2: "compile_cases sd span cs [] c1 = Inr (js, c2)" using "5.IH"(1)[OF False c1(1)] "5.prems" False c1 by auto
    note A1 = compile_expr_adds[OF c1(1)]
    have A2: "adds c1 (at_cases sd c1 0 cs) (cases_consts (globals_of c1) cs) (cases_table cs (localSymbols c1)) c2"
      "js = cases_jumps (globals_of c1) (currentPos c1) cs"
      using compile_stmt_adds(3)[OF c2] by simp_all
    have "\<exists>c3 bs vs T. (case defs of s # _ \<Rightarrow> compile_stmt sd s c2 | [] \<Rightarrow> Inr c2) = Inr c3 \<and> adds c2 bs vs T c3"
    proof (cases defs)
      case Nil
      then show ?thesis by (auto simp: adds_def)
    next
      case (Cons s ss)
      have "stmt_resolves sd (globals_of c2) (localSymbols c2) s" using "5.prems" False Cons c1 addsD(3,4)[OF A2(1)] by simp
      then obtain c3 where "compile_stmt sd s c2 = Inr c3" using "5.IH"(2)[OF False c1(1) c2 refl Cons] by auto
      then show ?thesis using compile_stmt_adds(1)[of sd s c2 c3] Cons by auto
    qed
    then obtain c3 bs vs T where c3: "(case defs of s # _ \<Rightarrow> compile_stmt sd s c2 | [] \<Rightarrow> Inr c2) = Inr c3" "adds c2 bs vs T c3" by blast
    have "currentPos c1 = currentPos c + length (at_expr sd c d)" using addsD(1)[OF A1] .
    from change_all_patches[OF adds_trans[OF A1 adds_trans[OF A2(1) c3(2)]] this, of "currentPos c3"]
    show ?thesis using False c1(1) c2 c3(1) A2(2) by auto
  qed simp
next
  case (7 sd span c)
  then show ?case using emit_succeeds(2)[OF rows(11)] by simp
next
  case (8 sd span e c)
  then show ?case using compile_exprE[of sd c e] emit_succeeds(2)[OF rows(11)] by (metis stmt_resolves.simps(8) compile_stmt.simps(8) ebind_simps(2))
next
  case (10 sd span s ss c)
  obtain c1 where c1: "compile_stmt sd s c = Inr c1" using "10.IH"(1) "10.prems" by auto
  obtain c2 where c2: "(if is_expr s then c_emit0 span OpPop [] c1 else Inr c1) = Inr c2" "globals_of c2 = globals_of c1" "localSymbols c2 = localSymbols c1"
    using emit_ifE[OF rows(3)] by blast
  have "block_resolves sd (globals_of c2) (localSymbols c2) ss" using "10.prems" c2(2,3) addsD(3,4)[OF compile_stmt_adds(1)[OF c1]] by simp
  then obtain c3 where "compile_block sd span ss c2 = Inr c3" using "10.IH"(2)[OF c1 c2(1)] by auto
  then show ?case using c1 c2(1) by simp
next
  case (13 sd span v vs b cs jumps c)
  obtain c1 where c1: "(if cs \<noteq> [] \<or> vs \<noteq> [] then c_emit0 span OpCopyTop [] c else Inr c) = Inr c1" "globals_of c1 = globals_of c" "localSymbols c1 = localSymbols c"
    using emit_ifE[OF rows(4)] by blast
  obtain c2 where c2: "compile_expr sd v c1 = Inr c2" "globals_of c2 = globals_of c1" "localSymbols c2 = localSymbols c1"
    using compile_exprE[of sd c1 v] "13.prems" c1 by auto
  obtain c3 where c3: "c_emit0 span OpEqual [] c2 = Inr c3" "globals_of c3 = globals_of c2" "localSymbols c3 = localSymbols c2"
    using emit0E[OF rows(20)] by blast
  obtain c4 where c4: "c_emit span OpJumpIfFalse [0] c3 = Inr (currentPos c3, c4)" "globals_of c4 = globals_of c3" "localSymbols c4 = localSymbols c3"
    using emitE[OF rows(7)] by blast
  obtain c5 where c5: "compile_stmt sd b c4 = Inr c5" using "13.IH"(1)[OF c1(1) c2(1) c3(1) c4(1) refl] "13.prems" c1 c2 c3 c4 by auto
  obtain c6 where c6: "c_emit span OpJump [0] c5 = Inr (currentPos c5, c6)" using emitE[OF rows(10)] by blast
  have "adds c3 [] [] (localSymbols c3) c3" by (simp add: adds_def)
  from two_jumps_succeed[OF this c4(1) compile_stmt_adds(1)[OF c5] c6]
  obtain c7 bs vs2 where c7: "c_changeOperand (currentPos c3) (int (currentPos c6)) c6 = Inr c7" and
    A7: "adds c3 bs vs2 (stmt_table b (localSymbols c4)) c7" by blast
  have "cases_resolve sd (globals_of c7) (localSymbols c7) ((vs, b) # cs)"
    using "13.prems" addsD(3,4)[OF A7] c1 c2 c3 c4 by simp
  then obtain js c8 where "compile_cases sd span ((vs, b) # cs) (jumps @ [currentPos c5]) c7 = Inr (js, c8)"
    using "13.IH"(2)[OF c1(1) c2(1) c3(1) c4(1) refl c5 c6 refl c7] by auto
  then show ?case using c1 c2 c3 c4 c5 c6 c7 by (cases "cs \<noteq> [] \<or> vs \<noteq> []") auto
qed auto

section \<open>Modules\<close>

lemma compileMainChunk_succeeds:
  assumes "G = (\<lambda>x. st_Resolve x gtab \<noteq> None)" and "block_resolves sd G newSymbolTable stmts" and "length (block_consts G stmts) \<le> 65535"
  shows "\<exists>m. compileMainChunk sd gtab span stmts = Inr m"
proof -
  let ?c = "newCompiler gtab"
  have init: "localSymbols ?c = newSymbolTable" "globals_of ?c = G" "c_constants ?c = []"
    by (simp_all add: newCompiler_def assms(1) globals_of_def fun_eq_iff)
  have "\<exists>c. (case stmts of [] \<Rightarrow> c_emit0 span OpPushNil [] ?c | [s] \<Rightarrow> compile_stmt sd s ?c | _ \<Rightarrow> compile_block sd span stmts ?c) = Inr c \<and>
      c_constants c = block_consts G stmts"
  proof (cases stmts rule: remdups_adj.cases)
    case 1
    obtain c where c: "c_emit0 span OpPushNil [] ?c = Inr c" using emit_succeeds(1)[OF rows(2)] by blast
    then show ?thesis using 1 c_emit0_adds[OF c, of "[]"] init by (simp add: adds_def)
  next
    case (2 s)
    obtain c where c: "compile_stmt sd s ?c = Inr c" using compile_stmt_succeeds(1)[of sd ?c s] 2 assms(2) init by auto
    then show ?thesis using 2 compile_stmt_adds(1)[OF c] init by (simp add: adds_def)
  next
    case (3 s t ss)
    obtain c where c: "compile_block sd span stmts ?c = Inr c" using compile_stmt_succeeds(2)[of sd ?c stmts span] assms(2) init by auto
    moreover have "c_constants c = block_consts G stmts" using compile_stmt_adds(2)[OF c] init by (simp add: adds_def)
    ultimately show ?thesis unfolding 3 list.case by blast
  qed
  then obtain c where "(case stmts of [] \<Rightarrow> c_emit0 span OpPushNil [] ?c | [s] \<Rightarrow> compile_stmt sd s ?c | _ \<Rightarrow> compile_block sd span stmts ?c) = Inr c"
    and "c_constants c = block_consts G stmts" by blast
  then show ?thesis using assms(3) unfolding compileMainChunk_def by (simp only: ebind_simps) simp
qed

lemma compileMainChunk_eq:
  assumes "block_resolves sd (\<lambda>x. st_Resolve x gtab \<noteq> None) newSymbolTable stmts"
    and "length (block_consts (\<lambda>x. st_Resolve x gtab \<noteq> None) stmts) \<le> 65535"
  shows "compileMainChunk sd gtab span stmts =
    Inr \<lparr>cm_code = asm (chunk_code sd (\<lambda>x. st_Resolve x gtab \<noteq> None) stmts) @ [of_nat OpSuspendVM],
         cm_constants = block_consts (\<lambda>x. st_Resolve x gtab \<noteq> None) stmts,
         cm_locals = nextSymbolIndex (block_table stmts newSymbolTable)\<rparr>"
proof -
  obtain m where m: "compileMainChunk sd gtab span stmts = Inr m" using compileMainChunk_succeeds[OF refl assms] by blast
  then show ?thesis using compileMainChunk_reference[OF m refl] by (cases m) simp
qed

text \<open>A module with a declaration, a conditional with both branches, a switch and two return statements.\<close>

definition sample_module :: "stmt list" where
  "sample_module =
    [LocalVariableDeclarations (0, 0) [(''a'', IntLiteral (0, 0) 4)],
     IfStatement (0, 0) (BinaryExpression (0, 0) LessThan (IdentifierLiteral (0, 0) ''a'') (IntLiteral (0, 0) 5))
       (Block (0, 0) [Assignment (0, 0) PlusAssign (IdentifierLeft ''a'') (IdentifierLiteral (0, 0) ''g'')])
       (Some (Block (0, 0) [])),
     SwitchStatement (0, 0) (IdentifierLiteral (0, 0) ''a'')
       [([IntLiteral (0, 0) 7], Block (0, 0) [ReturnStatement (0, 0) (Some (IdentifierLiteral (0, 0) ''a''))])] [],
     ReturnStatement (0, 0) None]"

definition sample_globals :: symbolTable where
  "sample_globals = snd (st_Define ''g'' newSymbolTable)"

lemmas sample_table_defs = sample_module_def define_local_def assign_local_def st_Define_def newSymbolTable_def

lemma sample_globals_only: "(\<lambda>x. st_Resolve x sample_globals \<noteq> None) = (\<lambda>x. x = ''g'')"
  by (auto simp: sample_globals_def st_Define_def st_Resolve_def newSymbolTable_def)

lemma sample_module_facts:
  "block_resolves (\<lambda>_. Some SymbolicInt) (\<lambda>x. x = ''g'') newSymbolTable sample_module"
  "block_consts (\<lambda>x. x = ''g'') sample_module = [IntV 4, IntV 5, StringV ''g'', IntV 7]"
  "nextSymbolIndex (block_table sample_module newSymbolTable) = 1"
  by (simp_all add: sample_table_defs)

text \<open>
  (C3) A module in which every name is a global or a local declared before, and in which the symbolic evaluation has a value for
  the left operand of every arithmetic expression, compiles when it has at most 65535 constants. The compiler, which emits
  forward jumps with a zero operand and patches them later, then produces exactly the code of the reference generator, which
  computes every jump target in advance and patches nothing, followed by the suspension of the machine; the constants are those
  of the literals and global names in the order of the code, and there are as many local slots as the symbol table has symbols.
\<close>

theorem compiles_to_reference_code:
  assumes "block_resolves sd (\<lambda>x. st_Resolve x gtab \<noteq> None) newSymbolTable stmts"
    and "length (block_consts (\<lambda>x. st_Resolve x gtab \<noteq> None) stmts) \<le> 65535"
  shows "compileMainChunk sd gtab span stmts =
    Inr \<lparr>cm_code = asm (chunk_code sd (\<lambda>x. st_Resolve x gtab \<noteq> None) stmts) @ [of_nat OpSuspendVM],
         cm_constants = block_consts (\<lambda>x. st_Resolve x gtab \<noteq> None) stmts,
         cm_locals = nextSymbolIndex (block_table stmts newSymbolTable)\<rparr>"
  using assms by (rule compileMainChunk_eq)

theorem compiles_to_reference_code_witness:
  "compileMainChunk (\<lambda>_. Some SymbolicInt) sample_globals (0, 0) sample_module =
     Inr \<lparr>cm_code = asm (chunk_code (\<lambda>_. Some SymbolicInt) (\<lambda>x. x = ''g'') sample_module) @ [of_nat OpSuspendVM],
          cm_constants = [IntV 4, IntV 5, StringV ''g'', IntV 7], cm_locals = 1\<rparr>"
  using compiles_to_reference_code[of "\<lambda>_. Some SymbolicInt" sample_globals sample_module "(0, 0)", unfolded sample_globals_only]
  by (simp add: sample_module_facts)

end
