(* ===== verification/Simulation.thy ===== *)
theory Simulation
  imports Execution Compilable
begin

text \<open>
  The machine simulates the tree walk: when the tree-walking interpreter evaluates an expression, a statement, a block or the
  cases of a switch without error, the machine that executes the generated code reaches the end of this code with the same value
  or the same variables, or returns the same value. There is one rule per construct.
\<close>

section \<open>Side conditions\<close>

text \<open>The symbolic evaluation knows that the left operands of arithmetic operators are numbers.\<close>

fun numeric :: "symbolic_data \<Rightarrow> expr \<Rightarrow> bool" where
  "numeric sd (UnaryExpression _ _ e) \<longleftrightarrow> numeric sd e"
| "numeric sd (BinaryExpression _ operator l r) \<longleftrightarrow>
     numeric sd l \<and> numeric sd r \<and> (if is_arithmetic operator then sd l \<noteq> Some SymbolicOther else True)"
| "numeric sd (IfExpression _ t c alt) \<longleftrightarrow>
     numeric sd t \<and> numeric sd c \<and> (case alt of Some e \<Rightarrow> numeric sd e | None \<Rightarrow> True)"
| "numeric sd _ \<longleftrightarrow> True"

text \<open>How many stack slots the evaluation of an expression needs.\<close>

fun expr_need :: "expr \<Rightarrow> nat" where
  "expr_need (UnaryExpression _ _ e) = expr_need e"
| "expr_need (BinaryExpression _ operator l r) =
     (if is_logical operator then max (expr_need l) (expr_need r) else max (expr_need l) (1 + expr_need r))"
| "expr_need (IfExpression _ t c alt) =
     max (expr_need t) (max (expr_need c) (case alt of Some e \<Rightarrow> expr_need e | None \<Rightarrow> 1))"
| "expr_need _ = 1"

lemma expr_need_pos: "0 < expr_need e"
  by (induction e rule: expr_need.induct) (auto simp: less_max_iff_disj)

text \<open>The locals of the tree walk are in their slots, and no local has the name of a global.\<close>

definition env_ok :: "global_names \<Rightarrow> (string \<rightharpoonup> nat) \<Rightarrow> TreeWalkState \<Rightarrow> VM \<Rightarrow> Value option list \<Rightarrow> bool" where
  "env_ok G L st v0 S \<longleftrightarrow> tw_globals st = vm_globals v0 \<and> (\<forall>x. G x \<longleftrightarrow> vm_globals v0 x \<noteq> None) \<and>
     (\<forall>x w. tw_locals st x = Some w \<longrightarrow> \<not> G x \<and> (\<exists>i. L x = Some i \<and> i < length S \<and> S ! i = Some w))"

lemma env_ok_append: "env_ok G L st v0 S \<Longrightarrow> env_ok G L st v0 (S @ T)"
  unfolding env_ok_def by (auto simp: nth_append) (metis trans_less_add1)

section \<open>Expressions\<close>

lemma exec_var:
  assumes "ready v0" and "env_ok G L st v0 S" and "code_at (vm_insts v0) a (asm (var_code G L k name))"
    and "code_at (vm_constants v0) k (if G name then [StringV name] else [])" and "length S < VM_STACK_SIZE"
    and "tw_globals st name = Some x \<or> \<not> G name \<and> tw_locals st name = Some x"
  shows "runs natural v0 a S (a + (if G name then 3 else 2)) (S @ [Some x])"
proof (cases "G name")
  case True
  then have "vm_globals v0 name = Some x" using assms(2,6) unfolding env_ok_def by auto
  then show ?thesis
    using True assms run_get_global[of v0 a k name x S natural] by (simp add: var_code_def code_at_Cons)
next
  case False
  then have "tw_locals st name = Some x" using assms(2,6) unfolding env_ok_def by auto
  then obtain i where i: "L name = Some i" "i < length S" "S ! i = Some x" using assms(2) unfolding env_ok_def by blast
  then have "i < 256" using assms(5) by (simp add: VM_STACK_SIZE_def)
  then show ?thesis
    using False assms i run_get_local[of v0 a i S natural] by (simp add: var_code_def)
qed

text \<open>The code of an expression that evaluates to \<open>x\<close> pushes \<open>x\<close>.\<close>

definition executes_expr :: "natural_less \<Rightarrow> VM \<Rightarrow> TreeWalkState \<Rightarrow> symbolic_data \<Rightarrow> global_names \<Rightarrow> (string \<rightharpoonup> nat) \<Rightarrow> expr \<Rightarrow> bool" where
  "executes_expr natural v0 st sd G L e \<longleftrightarrow>
    (\<forall>a k S x. eval_expr natural st e = Inr x \<longrightarrow> code_at (vm_insts v0) a (asm (expr_code sd G L a k e)) \<longrightarrow>
      code_at (vm_constants v0) k (expr_consts G e) \<longrightarrow> numeric sd e \<longrightarrow> env_ok G L st v0 S \<longrightarrow> length S + expr_need e \<le> VM_STACK_SIZE \<longrightarrow>
      runs natural v0 a S (a + expr_len G e) (S @ [Some x]))"

lemma executes_exprI:
  assumes "\<And>a k S x. \<lbrakk>eval_expr natural st e = Inr x; code_at (vm_insts v0) a (asm (expr_code sd G L a k e));
    code_at (vm_constants v0) k (expr_consts G e); numeric sd e; env_ok G L st v0 S; length S + expr_need e \<le> VM_STACK_SIZE\<rbrakk>
    \<Longrightarrow> runs natural v0 a S (a + expr_len G e) (S @ [Some x])"
  shows "executes_expr natural v0 st sd G L e"
  using assms unfolding executes_expr_def by blast

lemma executes_exprD:
  assumes "executes_expr natural v0 st sd G L e" and "eval_expr natural st e = Inr x"
    and "code_at (vm_insts v0) a (asm (expr_code sd G L a k e))" and "code_at (vm_constants v0) k (expr_consts G e)"
    and "numeric sd e" and "env_ok G L st v0 S" and "length S + expr_need e \<le> VM_STACK_SIZE"
  shows "runs natural v0 a S (a + expr_len G e) (S @ [Some x])"
  using assms unfolding executes_expr_def by blast

lemma executes_literal:
  assumes "ready v0"
  shows "executes_expr natural v0 st sd G L (IntLiteral sp i)" "executes_expr natural v0 st sd G L (FloatLiteral sp f)"
    "executes_expr natural v0 st sd G L (QuotedStringLiteral sp s)" "executes_expr natural v0 st sd G L (BooleanLiteral sp b)"
    "executes_expr natural v0 st sd G L (NilLiteral sp)"
proof -
  have "runs natural v0 a S (a + 3) (S @ [Some x])"
    if "code_at (vm_insts v0) a (enc (OpPushConstant, [int k]))" "code_at (vm_constants v0) k [x]" "length S < VM_STACK_SIZE" for a k S x
    using run_push_constant[OF assms that(1) _ that(3), of natural] that(2) by (simp add: code_at_Cons)
  then show "executes_expr natural v0 st sd G L (IntLiteral sp i)" "executes_expr natural v0 st sd G L (FloatLiteral sp f)"
    "executes_expr natural v0 st sd G L (QuotedStringLiteral sp s)"
    by (auto intro!: executes_exprI)
  show "executes_expr natural v0 st sd G L (NilLiteral sp)" "executes_expr natural v0 st sd G L (BooleanLiteral sp b)"
    by (rule executes_exprI; use run_push_simple[OF assms] in \<open>cases b; fastforce\<close>)+
qed

lemma executes_name:
  assumes "ready v0" and "e = IdentifierLiteral sp name \<or> e = Variable sp name"
  shows "executes_expr natural v0 st sd G L e"
proof (rule executes_exprI, goal_cases)
  case (1 a k S x)
  then have "tw_globals st name = Some x \<or> \<not> G name \<and> tw_locals st name = Some x"
    using assms(2) by (auto simp: env_ok_def split: option.splits)
  then show ?case using exec_var[OF assms(1) "1"(5), of a k name x natural] 1 assms(2) by auto
qed

lemma executes_unary:
  assumes "ready v0" and e: "executes_expr natural v0 st sd G L e"
  shows "executes_expr natural v0 st sd G L (UnaryExpression sp operator e)"
proof (rule executes_exprI, goal_cases)
  case (1 a k S x)
  from "1"(1) obtain y where y: "eval_expr natural st e = Inr y" "unary_result operator y = Inr x" by auto
  have R: "runs natural v0 a S (a + expr_len G e) (S @ [Some y])"
    by (rule executes_exprD[OF e y(1)]) (use 1 in \<open>auto simp: code_at_append\<close>)
  have "runs natural v0 (a + expr_len G e) (S @ [Some y]) (a + expr_len G e + 1) (S @ [Some x])"
    using "1"(2) y(2) run_minus[OF assms(1), of "a + expr_len G e" y x natural S]
      run_boolean_not[OF assms(1), of "a + expr_len G e" y x natural S]
    by (cases operator) (simp_all add: code_at_append)
  from runs_trans[OF R this] show ?case by simp
qed

text \<open>The machine may skip the right operand of a logical operator; the tree walk has evaluated it to a boolean.\<close>

lemma executes_logical:
  assumes "ready v0" and lg: "is_logical operator" and l: "executes_expr natural v0 st sd G L l" and r: "executes_expr natural v0 st sd G L r"
  shows "executes_expr natural v0 st sd G L (BinaryExpression sp operator l r)"
proof (rule executes_exprI, goal_cases)
  case (1 a k S x)
  let ?b = "a + expr_len G l" and ?op = "if operator = And then OpAndJump else OpOrJump"
  let ?t = "?b + 3 + expr_len G r"
  from "1"(1) obtain y z where y: "eval_expr natural st l = Inr y" and z: "eval_expr natural st r = Inr z"
    and x: "binary_result natural operator y z = Inr x" by auto
  have R: "runs natural v0 a S ?b (S @ [Some y])"
    by (rule executes_exprD[OF l y]) (use 1 lg in \<open>auto simp: code_at_append split: if_splits\<close>)
  have C: "code_at (vm_insts v0) ?b (enc (?op, [int ?t]))"
    "code_at (vm_insts v0) (?b + 3) (asm (expr_code sd G L (?b + 3) (k + length (expr_consts G l)) r))"
    using "1"(2) lg by (simp_all add: code_at_append split: if_splits)
  have t: "?t < 65536" using code_at_le[OF C(2)] assms(1) unfolding ready_def by simp
  have R2: "runs natural v0 (?b + 3) S ?t (S @ [Some z])"
    by (rule executes_exprD[OF r z C(2)]) (use 1 lg in \<open>auto simp: code_at_append\<close>)
  obtain p where p: "y = BoolV p" using x lg by (cases y) (auto simp: is_logical_def)
  show ?case
  proof (cases "p = (operator = And)")
    case True
    then have "runs natural v0 ?b (S @ [Some y]) (?b + 3) S"
      using C(1) run_and_jump(1)[OF assms(1) _ t] run_or_jump(1)[OF assms(1) _ t] p by (cases "operator = And") simp_all
    moreover have "z = x" using x p True lg by (cases z) (auto simp: is_logical_def)
    ultimately show ?thesis using runs_trans[OF R runs_trans[OF _ R2]] lg by (simp add: ac_simps)
  next
    case False
    then have "runs natural v0 ?b (S @ [Some y]) ?t (S @ [Some y])"
      using C(1) run_and_jump(2)[OF assms(1) _ t] run_or_jump(2)[OF assms(1) _ t] p by (cases "operator = And") simp_all
    moreover have "y = x" using x p False lg by (auto simp: is_logical_def)
    ultimately show ?thesis using runs_trans[OF R] lg by (simp add: ac_simps)
  qed
qed

lemma executes_operator:
  assumes "ready v0" and nl: "\<not> is_logical operator" and l: "executes_expr natural v0 st sd G L l" and r: "executes_expr natural v0 st sd G L r"
  shows "executes_expr natural v0 st sd G L (BinaryExpression sp operator l r)"
proof (rule executes_exprI, goal_cases)
  case (1 a k S x)
  let ?b = "a + expr_len G l" and ?c = "a + expr_len G l + expr_len G r"
  from "1"(1) obtain y z where y: "eval_expr natural st l = Inr y" and z: "eval_expr natural st r = Inr z"
    and x: "binary_result natural operator y z = Inr x" by auto
  have R: "runs natural v0 a S ?b (S @ [Some y])"
    by (rule executes_exprD[OF l y]) (use 1 nl in \<open>auto simp: code_at_append split: if_splits\<close>)
  have R2: "runs natural v0 ?b (S @ [Some y]) ?c ((S @ [Some y]) @ [Some z])"
    by (rule executes_exprD[OF r z]) (use 1 nl in \<open>auto simp: code_at_append env_ok_append\<close>)
  have "runs natural v0 ?c (S @ [Some y, Some z]) (?c + (if is_arithmetic operator then 2 else 1)) (S @ [Some x])"
  proof (cases "is_arithmetic operator")
    case True
    then have "code_at (vm_insts v0) ?c (enc (OpNumBin, [int (BinaryOperator_iota operator)]))"
      using "1"(2,4) nl by (simp add: code_at_append arith_op_def)
    from run_num_bin[OF assms(1) this True x] True show ?thesis by simp
  next
    case False
    then have "code_at (vm_insts v0) ?c (enc (simple_operator_op operator, []))"
      using "1"(2) nl by (simp add: code_at_append)
    from run_simple_operator[OF assms(1) this nl False x] False show ?thesis by simp
  qed
  then show ?case using runs_trans[OF R runs_trans[OF R2]] nl by (simp add: ac_simps)
qed

text \<open>The alternative of a conditional expression, \<open>nil\<close> when there is none.\<close>

lemma executes_alternative:
  assumes "ready v0" and "\<And>e. alt = Some e \<Longrightarrow> executes_expr natural v0 st sd G L e"
    and "(case alt of Some e \<Rightarrow> eval_expr natural st e | None \<Rightarrow> Inr NilV) = Inr x"
    and "code_at (vm_insts v0) a (asm (case alt of Some e \<Rightarrow> expr_code sd G L a k e | None \<Rightarrow> [(OpPushNil, [])]))"
    and "code_at (vm_constants v0) k (case alt of Some e \<Rightarrow> expr_consts G e | None \<Rightarrow> [])" and "env_ok G L st v0 S"
    and "case alt of Some e \<Rightarrow> numeric sd e | None \<Rightarrow> True"
    and "length S + (case alt of Some e \<Rightarrow> expr_need e | None \<Rightarrow> 1) \<le> VM_STACK_SIZE"
  shows "runs natural v0 a S (a + (case alt of Some e \<Rightarrow> expr_len G e | None \<Rightarrow> 1)) (S @ [Some x])"
proof (cases alt)
  case None
  then show ?thesis using assms(3-) run_push_simple[OF assms(1), of a OpPushNil S x natural] by simp
next
  case (Some e)
  then show ?thesis using assms(3-) executes_exprD[OF assms(2)[OF Some], of x a k S] by simp
qed

lemma executes_conditional:
  assumes "ready v0" and t: "executes_expr natural v0 st sd G L t" and c: "executes_expr natural v0 st sd G L c"
    and alt: "\<And>e. alt = Some e \<Longrightarrow> executes_expr natural v0 st sd G L e"
  shows "executes_expr natural v0 st sd G L (IfExpression sp t c alt)"
proof (rule executes_exprI, goal_cases)
  case (1 a k S x)
  let ?a1 = "a + expr_len G t" and ?k1 = "k + length (expr_consts G t)"
  let ?a2 = "?a1 + 3 + expr_len G c + 3" and ?k2 = "?k1 + length (expr_consts G c)"
  let ?alt = "case alt of Some e \<Rightarrow> expr_code sd G L ?a2 ?k2 e | None \<Rightarrow> [(OpPushNil, [])]"
  let ?a3 = "?a2 + (case alt of Some e \<Rightarrow> expr_len G e | None \<Rightarrow> 1)"
  from "1"(1) obtain y where "eval_expr natural st t = Inr y" by auto
  with "1"(1) obtain b where b: "eval_expr natural st t = Inr (BoolV b)" by (cases y) auto
  have C: "code_at (vm_insts v0) ?a1 (enc (OpJumpIfFalse, [int ?a2]))"
    "code_at (vm_insts v0) (?a1 + 3) (asm (expr_code sd G L (?a1 + 3) ?k1 c))"
    "code_at (vm_insts v0) (?a1 + 3 + expr_len G c) (enc (OpJump, [int ?a3]))"
    "code_at (vm_insts v0) ?a2 (asm ?alt)"
    using "1"(2) by (cases alt; simp add: code_at_append Let_def ac_simps)+
  have "length (asm ?alt) = (case alt of Some e \<Rightarrow> expr_len G e | None \<Rightarrow> 1)" by (cases alt) simp_all
  then have a: "?a2 < 65536" "?a3 < 65536" using code_at_le[OF C(4)] assms(1) unfolding ready_def by simp_all
  have R: "runs natural v0 a S ?a1 (S @ [Some (BoolV b)])"
    by (rule executes_exprD[OF t b]) (use 1 in \<open>auto simp: code_at_append Let_def\<close>)
  note R1 = runs_trans[OF R run_jump_if_false[OF assms(1) C(1) a(1)]]
  show ?case
  proof (cases b)
    case True
    have "runs natural v0 (?a1 + 3) S (?a1 + 3 + expr_len G c) (S @ [Some x])"
      by (rule executes_exprD[OF c _ C(2)]) (use 1 b True in \<open>auto simp: code_at_append\<close>)
    from runs_trans[OF this run_jump[OF assms(1) C(3) a(2)]] R1 True show ?thesis
      using runs_trans by (fastforce simp: ac_simps)
  next
    case False
    have "runs natural v0 ?a2 S ?a3 (S @ [Some x])"
      by (rule executes_alternative[OF assms(1) alt _ C(4)]) (use 1 b False in \<open>auto simp: code_at_append\<close>)
    with R1 False show ?thesis using runs_trans by (fastforce simp: ac_simps)
  qed
qed

lemma executes: "ready v0 \<Longrightarrow> executes_expr natural v0 st sd G L e"
proof (induction e)
  case (BinaryExpression sp operator l r)
  then show ?case by (cases "is_logical operator") (simp_all add: executes_logical executes_operator)
qed (auto intro: executes_literal executes_name executes_unary executes_conditional)

lemmas exec_expr = executes_exprD[OF executes]


section \<open>Side conditions on statements\<close>

text \<open>
  A declared name is new in the table that the compiler has at that point, no local has the name of a global, a switch without
  cases has no default case, the values of cases are literals (finite ones, when they are floats), and \<open>/=\<close> is excluded.
\<close>

fun case_literal :: "expr \<Rightarrow> bool" where
  "case_literal (FloatLiteral _ f) \<longleftrightarrow> float_finite f"
| "case_literal (IntLiteral _ _) \<longleftrightarrow> True"
| "case_literal (BooleanLiteral _ _) \<longleftrightarrow> True"
| "case_literal (NilLiteral _) \<longleftrightarrow> True"
| "case_literal (QuotedStringLiteral _ _) \<longleftrightarrow> True"
| "case_literal _ \<longleftrightarrow> False"

fun decls_ok :: "symbolic_data \<Rightarrow> global_names \<Rightarrow> symbolTable \<Rightarrow> (string \<times> expr) list \<Rightarrow> bool" where
  "decls_ok sd G T [] \<longleftrightarrow> True"
| "decls_ok sd G T ((name, e) # ds) \<longleftrightarrow>
     \<not> G name \<and> st_store T name = None \<and> numeric sd e \<and> decls_ok sd G (define_local name T) ds"

fun stmt_ok :: "symbolic_data \<Rightarrow> global_names \<Rightarrow> symbolTable \<Rightarrow> stmt \<Rightarrow> bool"
  and block_ok :: "symbolic_data \<Rightarrow> global_names \<Rightarrow> symbolTable \<Rightarrow> stmt list \<Rightarrow> bool"
  and cases_ok :: "symbolic_data \<Rightarrow> global_names \<Rightarrow> symbolTable \<Rightarrow> (expr list \<times> stmt) list \<Rightarrow> bool"
where
  "stmt_ok sd G T (ExprStatement e) \<longleftrightarrow> numeric sd e"
| "stmt_ok sd G T (LocalVariableDeclarations _ ds) \<longleftrightarrow> decls_ok sd G T ds"
| "stmt_ok sd G T (Assignment _ operator left e) \<longleftrightarrow> \<not> G (GetVariableName left) \<and> operator \<noteq> DivAssign \<and> numeric sd e"
| "stmt_ok sd G T (IfStatement _ t c alt) \<longleftrightarrow>
     numeric sd t \<and> stmt_ok sd G T c \<and> (case alt of Some s \<Rightarrow> stmt_ok sd G (stmt_table c T) s | None \<Rightarrow> True)"
| "stmt_ok sd G T (SwitchStatement _ d cs defs) \<longleftrightarrow>
     (if cs = [] then defs = []
      else numeric sd d \<and> cases_ok sd G T cs \<and> (case defs of s # _ \<Rightarrow> stmt_ok sd G (cases_table cs T) s | [] \<Rightarrow> True))"
| "stmt_ok sd G T (Block _ ss) \<longleftrightarrow> block_ok sd G T ss"
| "stmt_ok sd G T (ReturnStatement _ None) \<longleftrightarrow> True"
| "stmt_ok sd G T (ReturnStatement _ (Some e)) \<longleftrightarrow> numeric sd e"
| "block_ok sd G T [] \<longleftrightarrow> True"
| "block_ok sd G T (s # ss) \<longleftrightarrow> stmt_ok sd G T s \<and> block_ok sd G (stmt_table s T) ss"
| "cases_ok sd G T [] \<longleftrightarrow> True"
| "cases_ok sd G T (([], b) # cs) \<longleftrightarrow> cases_ok sd G T cs"
| "cases_ok sd G T ((v # vs, b) # cs) \<longleftrightarrow>
     case_literal v \<and> stmt_ok sd G T b \<and> cases_ok sd G (stmt_table b T) ((vs, b) # cs)"

text \<open>
  How many values a statement may leave on the stack: a switch leaves its discriminant when a value that is not the last one
  matches, and an \<open>IfExpression\<close> in statement position is not popped.
\<close>

definition single_case :: "(expr list \<times> stmt) list \<Rightarrow> bool" where
  "single_case cs \<longleftrightarrow> (case cs of [([v], b)] \<Rightarrow> True | _ \<Rightarrow> False)"

fun stmt_grow :: "stmt \<Rightarrow> nat" and block_grow :: "stmt list \<Rightarrow> nat" and cases_grow :: "(expr list \<times> stmt) list \<Rightarrow> nat" where
  "stmt_grow (ExprStatement e) = 1"
| "stmt_grow (IfStatement _ _ c alt) = max (stmt_grow c) (case alt of Some s \<Rightarrow> stmt_grow s | None \<Rightarrow> 0)"
| "stmt_grow (SwitchStatement _ _ cs defs) =
     (if cs = [] then 0
      else (if single_case cs then 0 else 1) + max (cases_grow cs) (case defs of s # _ \<Rightarrow> stmt_grow s | [] \<Rightarrow> 0))"
| "stmt_grow (Block _ ss) = block_grow ss"
| "stmt_grow _ = 0"
| "block_grow [] = 0"
| "block_grow (s # ss) = (if is_expr s then 0 else stmt_grow s) + block_grow ss"
| "cases_grow [] = 0"
| "cases_grow (([], b) # cs) = cases_grow cs"
| "cases_grow ((v # vs, b) # cs) = max (stmt_grow b) (cases_grow ((vs, b) # cs))"

fun decls_need :: "(string \<times> expr) list \<Rightarrow> nat" where
  "decls_need [] = 0"
| "decls_need ((_, e) # ds) = max (expr_need e) (decls_need ds)"

fun stmt_need :: "stmt \<Rightarrow> nat" and block_need :: "stmt list \<Rightarrow> nat" and cases_need :: "(expr list \<times> stmt) list \<Rightarrow> nat" where
  "stmt_need (ExprStatement e) = expr_need e"
| "stmt_need (LocalVariableDeclarations _ ds) = decls_need ds"
| "stmt_need (Assignment _ operator _ e) = (if operator = Assign then 0 else 1) + expr_need e"
| "stmt_need (IfStatement _ t c alt) =
     max (expr_need t) (max (stmt_need c) (case alt of Some s \<Rightarrow> stmt_need s | None \<Rightarrow> 0))"
| "stmt_need (SwitchStatement _ d cs defs) =
     max (expr_need d) (1 + max (cases_need cs) (case defs of s # _ \<Rightarrow> stmt_need s | [] \<Rightarrow> 0))"
| "stmt_need (Block _ ss) = block_need ss"
| "stmt_need (ReturnStatement _ None) = 1"
| "stmt_need (ReturnStatement _ (Some e)) = expr_need e"
| "block_need [] = 0"
| "block_need (s # ss) = max (stmt_need s) ((if is_expr s then 0 else stmt_grow s) + block_need ss)"
| "cases_need [] = 0"
| "cases_need (([], b) # cs) = cases_need cs"
| "cases_need ((v # vs, b) # cs) = max (1 + expr_need v) (max (stmt_need b) (cases_need ((vs, b) # cs)))"

section \<open>Symbol tables\<close>

definition table_ok :: "symbolTable \<Rightarrow> bool" where
  "table_ok T \<longleftrightarrow> inj_on (st_store T) (dom (st_store T)) \<and> (\<forall>x i. st_store T x = Some i \<longrightarrow> i < nextSymbolIndex T)"

definition extends :: "symbolTable \<Rightarrow> symbolTable \<Rightarrow> bool" where
  "extends T T' \<longleftrightarrow> table_ok T' \<and> st_store T \<subseteq>\<^sub>m st_store T' \<and> nextSymbolIndex T \<le> nextSymbolIndex T'"

lemma extends_refl: "table_ok T \<Longrightarrow> extends T T"
  by (simp add: extends_def)

lemma extends_trans: "extends T U \<Longrightarrow> extends U V \<Longrightarrow> extends T V"
  unfolding extends_def using map_le_trans by fastforce

lemma extends_ok: "extends T U \<Longrightarrow> table_ok U"
  by (simp add: extends_def)

lemma extends_define:
  assumes "table_ok T" and "st_store T name = None"
  shows "extends T (define_local name T)"
  using assms unfolding extends_def table_ok_def define_local_def st_Define_def
  by (auto simp: inj_on_def map_le_def less_Suc_eq) (metis less_irrefl)+

lemma extends_assign: "table_ok T \<Longrightarrow> extends T (assign_local name T)"
  by (simp add: assign_local_def extends_refl extends_define)

lemma extends_decls: "decls_ok sd G T ds \<Longrightarrow> table_ok T \<Longrightarrow> extends T (decls_table ds T)"
proof (induction sd G T ds rule: decls_ok.induct)
  case (2 sd G T name e ds)
  then have "extends T (define_local name T)" by (simp add: extends_define)
  then show ?case using "2.IH"[OF _ extends_ok] "2.prems" extends_trans by fastforce
qed (simp add: extends_refl)

lemma extends_stmt:
  "stmt_ok sd G T s \<Longrightarrow> table_ok T \<Longrightarrow> extends T (stmt_table s T)"
  "block_ok sd G T ss \<Longrightarrow> table_ok T \<Longrightarrow> extends T (block_table ss T)"
  "cases_ok sd G T cs \<Longrightarrow> table_ok T \<Longrightarrow> extends T (cases_table cs T)"
proof (induction sd G T s and sd G T ss and sd G T cs rule: stmt_ok_block_ok_cases_ok.induct)
  case (4 sd G T sp t c alt)
  then have c: "extends T (stmt_table c T)" by simp
  then show ?case using 4 extends_trans[OF c] extends_ok[OF c] by (cases alt) simp_all
next
  case (5 sd G T sp d cs defs)
  show ?case
  proof (cases "cs = []")
    case False
    then have c: "extends T (cases_table cs T)" using 5 by simp
    then show ?thesis using 5 False extends_trans[OF c] extends_ok[OF c] by (cases defs) simp_all
  qed (use 5 in \<open>simp add: extends_refl\<close>)
next
  case (10 sd G T s ss)
  then have c: "extends T (stmt_table s T)" by simp
  then show ?case using 10 extends_trans[OF c] extends_ok[OF c] by simp
next
  case (13 sd G T v vs b cs)
  then have c: "extends T (stmt_table b T)" by simp
  then show ?case using 13 extends_trans[OF c] extends_ok[OF c] by simp
qed (auto simp: extends_refl extends_assign extends_decls)

lemma env_ok_extends:
  assumes "env_ok G (st_store T) st v0 S" and "extends T T'"
  shows "env_ok G (st_store T') st v0 S"
  using assms unfolding env_ok_def extends_def map_le_def dom_def by (metis (mono_tags, lifting) mem_Collect_eq option.distinct(1))

lemma env_ok_set:
  assumes "env_ok G (st_store T) st v0 S" and "table_ok T" and "st_store T name = Some i" and "\<not> G name" and "i < length S"
  shows "env_ok G (st_store T) (set_local name x st) v0 (S[i := Some x])"
proof -
  have "j \<noteq> i" if "st_store T y = Some j" "y \<noteq> name" for y j
    using assms(2,3) that unfolding table_ok_def inj_on_def dom_def by auto
  then show ?thesis using assms unfolding env_ok_def set_local_def by (auto simp: nth_list_update) metis+
qed

section \<open>Declarations and assignments\<close>

lemma exec_decls:
  assumes "ready v0" and "eval_declarations natural ds st = Inr st'"
    and "code_at (vm_insts v0) a (asm (decls_code sd G T a k ds))" and "code_at (vm_constants v0) k (decls_consts G ds)"
    and "decls_ok sd G T ds" and "table_ok T" and "nextSymbolIndex (decls_table ds T) \<le> length S"
    and "env_ok G (st_store T) st v0 S" and "length S + decls_need ds \<le> VM_STACK_SIZE"
  shows "\<exists>S'. runs natural v0 a S (a + decls_len G ds) S' \<and> length S' = length S \<and>
    env_ok G (st_store (decls_table ds T)) st' v0 S' \<and> tw_returnValue st' = tw_returnValue st"
  using assms(2-)
proof (induction sd G T a k ds arbitrary: st S rule: decls_code.induct)
  case (2 sd G T a k name e ds)
  let ?T = "define_local name T" and ?i = "nextSymbolIndex T"
  from "2.prems"(1) obtain x where x: "eval_expr natural st e = Inr x" and
    d: "eval_declarations natural ds (set_local name x st) = Inr st'" by auto
  have ext: "extends T ?T" "extends ?T (decls_table ds ?T)"
    using "2.prems"(4,5) extends_define[of T name] extends_decls[of sd G ?T ds] extends_ok by auto
  have i: "?i < length S" using "2.prems"(6) ext(2) unfolding extends_def by (simp add: define_local_def st_Define_def)
  then have i256: "?i < 256" using "2.prems"(8) by (simp add: VM_STACK_SIZE_def)
  have env: "env_ok G (st_store ?T) st v0 S" using env_ok_extends[OF "2.prems"(7) ext(1)] .
  have R: "runs natural v0 a S (a + expr_len G e) (S @ [Some x])"
    by (rule exec_expr[OF assms(1) x _ _ _ env]) (use "2.prems" in \<open>auto simp: code_at_append Let_def\<close>)
  have R2: "runs natural v0 (a + expr_len G e) (S @ [Some x]) (a + expr_len G e + 2) (S[?i := Some x])"
    by (rule run_set_local[OF assms(1) _ i256 i]) (use "2.prems"(2) in \<open>auto simp: code_at_append Let_def\<close>)
  have "st_store ?T name = Some ?i" by (simp add: define_local_def st_Define_def)
  then have env2: "env_ok G (st_store ?T) (set_local name x st) v0 (S[?i := Some x])"
    using env_ok_set[OF env extends_ok[OF ext(1)] _ _ i] "2.prems"(4) by simp
  have "\<exists>S'. runs natural v0 (a + expr_len G e + 2) (S[?i := Some x]) (a + expr_len G e + 2 + decls_len G ds) S' \<and>
      length S' = length (S[?i := Some x]) \<and> env_ok G (st_store (decls_table ds ?T)) st' v0 S' \<and>
      tw_returnValue st' = tw_returnValue (set_local name x st)"
    by (rule "2.IH"[OF refl d]) (use "2.prems" env2 extends_ok[OF ext(1)] in \<open>auto simp: code_at_append Let_def\<close>)
  then show ?case using runs_trans[OF R runs_trans[OF R2]] by (fastforce simp: set_local_def ac_simps)
next
  case (1 sd G T a k)
  then show ?case by (intro exI[of _ S]) simp
qed

lemma exec_assign:
  assumes "ready v0" and "eval_expr natural st e = Inr r" and "assignment_result operator (tw_locals st name) r = Inr x"
    and "code_at (vm_insts v0) a (asm (assign_code sd G T a k operator name e))" and "code_at (vm_constants v0) k (expr_consts G e)"
    and "\<not> G name" and "operator \<noteq> DivAssign" and "numeric sd e" and "table_ok T" and "nextSymbolIndex (assign_local name T) \<le> length S"
    and "env_ok G (st_store T) st v0 S" and "length S + (if operator = Assign then 0 else 1) + expr_need e \<le> VM_STACK_SIZE"
  shows "\<exists>S'. runs natural v0 a S (a + (expr_len G e + (if operator = Assign then 2 else 6))) S' \<and> length S' = length S \<and>
    env_ok G (st_store (assign_local name T)) (set_local name x st) v0 S'"
proof -
  let ?T = "assign_local name T"
  have ext: "extends T ?T" using extends_assign[OF assms(9)] .
  obtain i where i: "st_store ?T name = Some i" by (cases "st_store T name") (auto simp: assign_local_def define_local_def st_Define_def)
  have il: "i < length S" using i extends_ok[OF ext] assms(10) unfolding table_ok_def by fastforce
  have ne: "length S < VM_STACK_SIZE" using assms(12) expr_need_pos[of e] by linarith
  then have i256: "i < 256" using il by (simp add: VM_STACK_SIZE_def)
  have env: "env_ok G (st_store ?T) st v0 S" using env_ok_extends[OF assms(11) ext] .
  have env2: "env_ok G (st_store ?T) (set_local name x st) v0 (S[i := Some x])"
    by (rule env_ok_set[OF env extends_ok[OF ext] i assms(6) il])
  have "runs natural v0 a S (a + (expr_len G e + (if operator = Assign then 2 else 6))) (S[i := Some x])"
  proof (cases "assign_operator operator")
    case None
    then have o: "operator = Assign" by (cases operator) simp_all
    have "runs natural v0 a S (a + expr_len G e) (S @ [Some x])"
      using exec_expr[OF assms(1,2) _ assms(5,8) env, of a] assms(3,4,12) o by (simp add: assign_code_def code_at_append Let_def)
    moreover have "runs natural v0 (a + expr_len G e) (S @ [Some x]) (a + expr_len G e + 2) (S[i := Some x])"
      by (rule run_set_local[OF assms(1) _ i256 il]) (use assms(4) o i in \<open>auto simp: assign_code_def code_at_append Let_def\<close>)
    ultimately show ?thesis using runs_trans o by (fastforce simp: ac_simps)
  next
    case (Some b)
    then have o: "operator \<noteq> Assign" by auto
    have b: "is_arithmetic b" using Some by (cases operator) (auto simp: is_arithmetic_def)
    obtain l j y where v: "tw_locals st name = Some (IntV l)" "r = IntV j" "int_op b l j = Inr y" "x = IntV y"
      using assms(3,7) Some by (cases operator; cases "tw_locals st name"; cases r; cases "the (tw_locals st name)"; auto)
    have l: "S ! i = Some (IntV l)" using env v(1) i unfolding env_ok_def by fastforce
    have C: "code_at (vm_insts v0) a (enc (OpGetLocal, [int i]))"
      "code_at (vm_insts v0) (a + 2) (asm (expr_code sd G (st_store ?T) (a + 2) k e))"
      "code_at (vm_insts v0) (a + 2 + expr_len G e) (enc (OpIntBin, [int (BinaryOperator_iota b)]))"
      "code_at (vm_insts v0) (a + 2 + expr_len G e + 2) (enc (OpSetLocal, [int i]))"
      using assms(4) Some i by (simp_all add: assign_code_def code_at_append Let_def)
    have R1: "runs natural v0 a S (a + 2) (S @ [Some (IntV l)])"
      using run_get_local[OF assms(1) C(1) i256 il ne, of natural] l by simp
    have R2: "runs natural v0 (a + 2) (S @ [Some (IntV l)]) (a + 2 + expr_len G e) ((S @ [Some (IntV l)]) @ [Some r])"
      by (rule exec_expr[OF assms(1,2) C(2) assms(5,8) env_ok_append[OF env]]) (use assms(12) o in simp)
    have R3: "runs natural v0 (a + 2 + expr_len G e) (S @ [Some (IntV l), Some (IntV j)]) (a + 2 + expr_len G e + 2) (S @ [Some x])"
      using run_int_op[OF assms(1) C(3) _ b v(3)] v(4) by simp
    have R4: "runs natural v0 (a + 2 + expr_len G e + 2) (S @ [Some x]) (a + 2 + expr_len G e + 2 + 2) (S[i := Some x])"
      by (rule run_set_local[OF assms(1) C(4) i256 il])
    show ?thesis using runs_trans[OF R1 runs_trans[OF R2 runs_trans[OF _ R4]]] R3 v(2) o by (simp add: eval_nat_numeral)
  qed
  then show ?thesis using env2 by (intro exI[of _ "S[i := Some x]"]) simp
qed

section \<open>Statements\<close>

text \<open>
  What the machine does for a statement that the tree walk has evaluated to the state \<open>st\<close>: it returns the value of a return
  statement, or reaches the end of the code with at most \<open>n\<close> live slots.
\<close>

definition stmt_post :: "natural_less \<Rightarrow> VM \<Rightarrow> global_names \<Rightarrow> symbolTable \<Rightarrow> TreeWalkState \<Rightarrow> nat \<Rightarrow> Value option list \<Rightarrow> nat \<Rightarrow> nat \<Rightarrow> bool" where
  "stmt_post natural v0 G T st a S a' n \<longleftrightarrow>
    (case tw_returnValue st of
       Some x \<Rightarrow> returns natural v0 a S (Some x)
     | None \<Rightarrow> \<exists>S'. runs natural v0 a S a' S' \<and> env_ok G (st_store T) st v0 S' \<and> vm_moduleLocalCount v0 \<le> length S' \<and> length S' \<le> n)"

lemma post_runs: "runs natural v0 a S b S1 \<Longrightarrow> stmt_post natural v0 G T st b S1 c n \<Longrightarrow> stmt_post natural v0 G T st a S c n"
  unfolding stmt_post_def using runs_trans runs_returns by (fastforce split: option.splits)

lemma post_then:
  assumes "stmt_post natural v0 G T st a S b n" and "\<And>S'. runs natural v0 b S' c S'"
  shows "stmt_post natural v0 G T st a S c n"
  using assms(1) runs_trans[OF _ assms(2)] unfolding stmt_post_def by (fastforce split: option.splits)

lemma post_mono: "stmt_post natural v0 G T st a S b n \<Longrightarrow> n \<le> n' \<Longrightarrow> stmt_post natural v0 G T st a S b n'"
  unfolding stmt_post_def by (fastforce split: option.splits)

lemma post_extends: "stmt_post natural v0 G T st a S b n \<Longrightarrow> extends T T' \<Longrightarrow> stmt_post natural v0 G T' st a S b n"
  unfolding stmt_post_def using env_ok_extends by (fastforce split: option.splits)

lemma post_None:
  "tw_returnValue st = None \<Longrightarrow> runs natural v0 a S b S' \<Longrightarrow> env_ok G (st_store T) st v0 S' \<Longrightarrow> vm_moduleLocalCount v0 \<le> length S' \<Longrightarrow>
   length S' \<le> n \<Longrightarrow> stmt_post natural v0 G T st a S b n"
  unfolding stmt_post_def by auto

lemma go_eq_literal:
  assumes "case_literal v" and "eval_expr natural st v = Inr x"
  shows "go_eq d x = val_Equal d x"
  using assms
  by (cases v; cases d) (auto simp: float64Compare_def[of _ "IntV _"] float64Compare_def[of _ "BoolV _"] float64Compare_def[of _ NilV]
      float64Compare_def[of _ "StringV _"] float_nan_def dest: float_eq_finite)

lemma next_le:
  assumes "extends T T'"
  shows "nextSymbolIndex T \<le> nextSymbolIndex T'"
  using assms by (simp add: extends_def)

lemma exec_if:
  assumes "ready v0" and t: "eval_expr natural st t = Inr (BoolV p)"
    and C: "code_at (vm_insts v0) a (asm (expr_code sd G L a k t))" "code_at (vm_constants v0) k (expr_consts G t)"
      "code_at (vm_insts v0) (a + expr_len G t) (enc (OpJumpIfFalse, [int target]))"
    and "target < 65536" and "numeric sd t" and "env_ok G L st v0 S" and "length S + expr_need t \<le> VM_STACK_SIZE"
  shows "runs natural v0 a S (if p then a + expr_len G t + 3 else target) S"
  using runs_trans[OF exec_expr[OF assms(1) t C(1,2) assms(7-9)] run_jump_if_false[OF assms(1) C(3) assms(6)]] .

text \<open>The comparison of the discriminant with a value of a case; it is copied first unless it is the last value.\<close>

lemma exec_case:
  assumes "ready v0" and x: "eval_expr natural st v = Inr x" and "case_literal v" and "numeric sd v"
    and "B = (if copied then S @ [Some d] else S)" and "a0 = a + (if copied then 1 else 0)" and "a1 = a0 + expr_len G v"
    and C: "if copied then code_at (vm_insts v0) a (enc (OpCopyTop, [])) else True"
      "code_at (vm_insts v0) a0 (asm (expr_code sd G L a0 k v))" "code_at (vm_constants v0) k (expr_consts G v)"
      "code_at (vm_insts v0) a1 (enc (OpEqual, []))" "code_at (vm_insts v0) (a1 + 1) (enc (OpJumpIfFalse, [int a2]))"
    and "a2 < 65536" and "env_ok G L st v0 S" and "length S + 2 + expr_need v \<le> VM_STACK_SIZE"
  shows "runs natural v0 a (S @ [Some d]) (if go_eq d x then a1 + 4 else a2) B"
proof -
  have R1: "runs natural v0 a (S @ [Some d]) a0 (B @ [Some d])"
    using run_copy_top[OF assms(1), of a S natural "Some d"] C(1) assms(5,6,15) by (cases copied) simp_all
  have env: "env_ok G L st v0 (B @ [Some d])" using assms(5,14) by (simp add: env_ok_append)
  have "length (B @ [Some d]) + expr_need v \<le> VM_STACK_SIZE" using assms(5,15) by simp
  from exec_expr[OF assms(1) x C(2,3) assms(4) env this]
  have R2: "runs natural v0 a0 (B @ [Some d]) a1 (B @ [Some d, Some x])" using assms(7) by simp
  have R3: "runs natural v0 a1 (B @ [Some d, Some x]) (a1 + 1) (B @ [Some (BoolV (val_Equal d x))])"
    by (rule run_simple_operator[OF assms(1), of _ Equal]) (use C(4) in \<open>simp_all add: is_logical_def is_arithmetic_def\<close>)
  have R4: "runs natural v0 (a1 + 1) (B @ [Some (BoolV (val_Equal d x))]) (if val_Equal d x then a1 + 1 + 3 else a2) B"
    by (rule run_jump_if_false[OF assms(1) C(5) assms(13)])
  show ?thesis
    using runs_trans[OF R1 runs_trans[OF R2 runs_trans[OF R3 R4]]] go_eq_literal[OF assms(3) x, of d]
    by (cases "val_Equal d x") (simp_all add: eval_nat_numeral)
qed

lemma code_at_case:
  assumes "code_at P a (cp @ e @ eq @ jf @ b @ j @ rest)" and "length cp = n" and "length e = m" and "length b = l"
    and "length eq = 1" and "length jf = 3" and "length j = 3"
  shows "code_at P a cp" "code_at P (a + n) e" "code_at P (a + n + m) eq" "code_at P (a + n + m + 1) jf" "code_at P (a + n + m + 4) b"
    "code_at P (a + n + m + 4 + l) j" "code_at P (a + n + m + 4 + l + 3) rest"
  using assms by (simp_all add: code_at_append eval_nat_numeral)

lemma is_exprE: "is_expr s \<Longrightarrow> (\<And>e. s = ExprStatement e \<Longrightarrow> P) \<Longrightarrow> P"
  by (cases s) auto

text \<open>
  The code of a statement, of a block and of the cases of a switch simulates their evaluation. The cases start with the
  discriminant on the stack; when none matches, it has been consumed by the last comparison or there was nothing to compare.
\<close>

definition executes_stmt :: "natural_less \<Rightarrow> VM \<Rightarrow> symbolic_data \<Rightarrow> global_names \<Rightarrow> stmt \<Rightarrow> bool" where
  "executes_stmt natural v0 sd G s \<longleftrightarrow>
    (\<forall>T a k st S r st'. eval_stmt natural s st = Inr (r, st') \<longrightarrow> code_at (vm_insts v0) a (asm (stmt_code sd G T a k s)) \<longrightarrow>
      code_at (vm_constants v0) k (stmt_consts G s) \<longrightarrow> stmt_ok sd G T s \<longrightarrow> table_ok T \<longrightarrow>
      nextSymbolIndex (stmt_table s T) \<le> vm_moduleLocalCount v0 \<longrightarrow> vm_moduleLocalCount v0 \<le> length S \<longrightarrow>
      env_ok G (st_store T) st v0 S \<longrightarrow> tw_returnValue st = None \<longrightarrow> length S + stmt_need s \<le> VM_STACK_SIZE \<longrightarrow>
      stmt_post natural v0 G (stmt_table s T) st' a S (a + stmt_len G s) (length S + stmt_grow s))"

definition executes_block :: "natural_less \<Rightarrow> VM \<Rightarrow> symbolic_data \<Rightarrow> global_names \<Rightarrow> stmt list \<Rightarrow> bool" where
  "executes_block natural v0 sd G ss \<longleftrightarrow>
    (\<forall>T a k st S st'. eval_block natural ss st = Inr st' \<longrightarrow> code_at (vm_insts v0) a (asm (block_code sd G T a k ss)) \<longrightarrow>
      code_at (vm_constants v0) k (block_consts G ss) \<longrightarrow> block_ok sd G T ss \<longrightarrow> table_ok T \<longrightarrow>
      nextSymbolIndex (block_table ss T) \<le> vm_moduleLocalCount v0 \<longrightarrow> vm_moduleLocalCount v0 \<le> length S \<longrightarrow>
      env_ok G (st_store T) st v0 S \<longrightarrow> tw_returnValue st = None \<longrightarrow> length S + block_need ss \<le> VM_STACK_SIZE \<longrightarrow>
      stmt_post natural v0 G (block_table ss T) st' a S (a + block_len G ss) (length S + block_grow ss))"

definition cases_post :: "natural_less \<Rightarrow> VM \<Rightarrow> global_names \<Rightarrow> symbolTable \<Rightarrow> (expr list \<times> stmt) list \<Rightarrow> Value \<Rightarrow> nat \<Rightarrow> nat \<Rightarrow>
    Value option list \<Rightarrow> TreeWalkState option \<Rightarrow> bool" where
  "cases_post natural v0 G T cs d a a_end S m \<longleftrightarrow>
    (case m of
       Some st' \<Rightarrow> stmt_post natural v0 G (cases_table cs T) st' a (S @ [Some d]) a_end
         (length S + (if single_case cs then 0 else 1) + cases_grow cs)
     | None \<Rightarrow> \<exists>S'. runs natural v0 a (S @ [Some d]) (a + cases_len G cs) S' \<and> (S' = S \<or> S' = S @ [Some d] \<and> \<not> single_case cs))"

definition executes_cases :: "natural_less \<Rightarrow> VM \<Rightarrow> symbolic_data \<Rightarrow> global_names \<Rightarrow> (expr list \<times> stmt) list \<Rightarrow> bool" where
  "executes_cases natural v0 sd G cs \<longleftrightarrow>
    (\<forall>T a k a_end d st S m. eval_cases natural d cs st = Inr m \<longrightarrow> code_at (vm_insts v0) a (asm (cases_code sd G T a k a_end cs)) \<longrightarrow>
      code_at (vm_constants v0) k (cases_consts G cs) \<longrightarrow> cases_ok sd G T cs \<longrightarrow> table_ok T \<longrightarrow> a_end < 65536 \<longrightarrow>
      nextSymbolIndex (cases_table cs T) \<le> vm_moduleLocalCount v0 \<longrightarrow> vm_moduleLocalCount v0 \<le> length S \<longrightarrow>
      env_ok G (st_store T) st v0 S \<longrightarrow> tw_returnValue st = None \<longrightarrow> length S + 1 + cases_need cs \<le> VM_STACK_SIZE \<longrightarrow>
      cases_post natural v0 G T cs d a a_end S m)"

lemma executes_stmtI:
  assumes "\<And>T a k st S r st'. \<lbrakk>eval_stmt natural s st = Inr (r, st'); code_at (vm_insts v0) a (asm (stmt_code sd G T a k s));
    code_at (vm_constants v0) k (stmt_consts G s); stmt_ok sd G T s; table_ok T;
    nextSymbolIndex (stmt_table s T) \<le> vm_moduleLocalCount v0; vm_moduleLocalCount v0 \<le> length S;
    env_ok G (st_store T) st v0 S; tw_returnValue st = None; length S + stmt_need s \<le> VM_STACK_SIZE\<rbrakk>
    \<Longrightarrow> stmt_post natural v0 G (stmt_table s T) st' a S (a + stmt_len G s) (length S + stmt_grow s)"
  shows "executes_stmt natural v0 sd G s"
  using assms unfolding executes_stmt_def by blast

lemma executes_blockI:
  assumes "\<And>T a k st S st'. \<lbrakk>eval_block natural ss st = Inr st'; code_at (vm_insts v0) a (asm (block_code sd G T a k ss));
    code_at (vm_constants v0) k (block_consts G ss); block_ok sd G T ss; table_ok T;
    nextSymbolIndex (block_table ss T) \<le> vm_moduleLocalCount v0; vm_moduleLocalCount v0 \<le> length S;
    env_ok G (st_store T) st v0 S; tw_returnValue st = None; length S + block_need ss \<le> VM_STACK_SIZE\<rbrakk>
    \<Longrightarrow> stmt_post natural v0 G (block_table ss T) st' a S (a + block_len G ss) (length S + block_grow ss)"
  shows "executes_block natural v0 sd G ss"
  using assms unfolding executes_block_def by blast

lemma executes_casesI:
  assumes "\<And>T a k a_end d st S m. \<lbrakk>eval_cases natural d cs st = Inr m; code_at (vm_insts v0) a (asm (cases_code sd G T a k a_end cs));
    code_at (vm_constants v0) k (cases_consts G cs); cases_ok sd G T cs; table_ok T; a_end < 65536;
    nextSymbolIndex (cases_table cs T) \<le> vm_moduleLocalCount v0; vm_moduleLocalCount v0 \<le> length S;
    env_ok G (st_store T) st v0 S; tw_returnValue st = None; length S + 1 + cases_need cs \<le> VM_STACK_SIZE\<rbrakk>
    \<Longrightarrow> cases_post natural v0 G T cs d a a_end S m"
  shows "executes_cases natural v0 sd G cs"
  using assms unfolding executes_cases_def by blast

lemmas executes_stmtD = executes_stmt_def[THEN iffD1, rule_format]
lemmas executes_blockD = executes_block_def[THEN iffD1, rule_format]
lemmas executes_casesD = executes_cases_def[THEN iffD1, rule_format]

subsection \<open>Simple statements\<close>

lemma executes_simple:
  assumes ready: "ready v0"
  shows "executes_stmt natural v0 sd G (ExprStatement e)" "executes_stmt natural v0 sd G (LocalVariableDeclarations sp ds)"
    "executes_stmt natural v0 sd G (Assignment sp operator left e)"
proof -
  show "executes_stmt natural v0 sd G (ExprStatement e)"
  proof (rule executes_stmtI, goal_cases)
    case (1 T a k st S r st')
    then obtain x where x: "eval_expr natural st e = Inr x" "st' = st" by auto
    have R: "runs natural v0 a S (a + expr_len G e) (S @ [Some x])" using exec_expr[OF ready x(1)] 1 by simp
    show ?case unfolding stmt_len.simps by (rule post_None[OF _ R]) (use 1 x(2) in \<open>auto simp: env_ok_append\<close>)
  qed
  show "executes_stmt natural v0 sd G (LocalVariableDeclarations sp ds)"
  proof (rule executes_stmtI, goal_cases)
    case (1 T a k st S r st')
    then obtain S' where R: "runs natural v0 a S (a + decls_len G ds) S'" and "length S' = length S"
        "env_ok G (st_store (decls_table ds T)) st' v0 S'" "tw_returnValue st' = tw_returnValue st"
      using exec_decls[OF ready, of natural ds st st' a sd G T k S] by auto
    then show ?case unfolding stmt_len.simps by (intro post_None[OF _ R]) (use 1 in auto)
  qed
  show "executes_stmt natural v0 sd G (Assignment sp operator left e)"
  proof (rule executes_stmtI, goal_cases)
    case (1 T a k st S r st')
    let ?name = "GetVariableName left"
    from 1 obtain v x where v: "eval_expr natural st e = Inr v" "assignment_result operator (tw_locals st ?name) v = Inr x" "st' = set_local ?name x st"
      by auto
    with 1 obtain S' where R: "runs natural v0 a S (a + (expr_len G e + (if operator = Assign then 2 else 6))) S'" and "length S' = length S"
        "env_ok G (st_store (assign_local ?name T)) st' v0 S'"
      using exec_assign[OF ready, of natural st e v operator ?name x a sd G T k S] by auto
    then show ?case
      unfolding stmt_len.simps by (intro post_None[OF _ R]) (use 1 v(3) in \<open>auto simp: set_local_def\<close>)
  qed
qed

lemma executes_return:
  assumes ready: "ready v0"
  shows "executes_stmt natural v0 sd G (ReturnStatement sp v)"
proof (rule executes_stmtI, goal_cases)
  case (1 T a k st S r st')
  show ?case
  proof (cases v)
    case None
    then show ?thesis using 1 run_return_nil[OF ready, of a S natural] by (auto simp: stmt_post_def)
  next
    case (Some e)
    then obtain x where x: "eval_expr natural st e = Inr x" "st' = st\<lparr>tw_returnValue := Some x\<rparr>" using 1 by auto
    have "runs natural v0 a S (a + expr_len G e) (S @ [Some x])"
      using exec_expr[OF ready x(1), of a sd G "st_store T" k S] 1 Some by (simp add: code_at_append)
    moreover have "returns natural v0 (a + expr_len G e) (S @ [Some x]) (Some x)"
      using run_return[OF ready] 1 Some by (simp add: code_at_append)
    ultimately show ?thesis using runs_returns x(2) Some by (auto simp: stmt_post_def)
  qed
qed

subsection \<open>Conditionals\<close>

lemma executes_if:
  assumes ready: "ready v0" and c: "executes_stmt natural v0 sd G c"
  shows "executes_stmt natural v0 sd G (IfStatement sp t c None)"
proof (rule executes_stmtI, goal_cases)
  case (1 T a k st S r st')
  let ?a1 = "a + expr_len G t + 3" and ?k1 = "k + length (expr_consts G t)"
  let ?a2 = "?a1 + stmt_len G c"
  from "1"(1) obtain y where "eval_expr natural st t = Inr y" by auto
  with "1"(1) obtain p where p: "eval_expr natural st t = Inr (BoolV p)" by (cases y) auto
  have ok: "numeric sd t" "stmt_ok sd G T c" using "1"(4) by simp_all
  have C: "code_at (vm_insts v0) a (asm (expr_code sd G (st_store T) a k t))" "code_at (vm_constants v0) k (expr_consts G t)"
    "code_at (vm_insts v0) (a + expr_len G t) (enc (OpJumpIfFalse, [int ?a2]))"
    "code_at (vm_insts v0) ?a1 (asm (stmt_code sd G T ?a1 ?k1 c))"
    using "1"(2,3) by (simp_all add: code_at_append Let_def)
  have "?a2 < 65536" using code_at_le[OF C(4)] ready unfolding ready_def by simp
  from exec_if[OF ready p C(1-3) this ok(1) "1"(8)] have R: "runs natural v0 a S (if p then ?a1 else ?a2) S" using "1"(10) by simp
  show ?case
  proof (cases p)
    case True
    obtain r' where e: "eval_stmt natural c st = Inr (r', st')" using "1"(1) p True by auto
    have "stmt_post natural v0 G (stmt_table c T) st' ?a1 S ?a2 (length S + stmt_grow c)"
      by (rule executes_stmtD[OF c e C(4)]) (use 1 in \<open>auto simp: code_at_append\<close>)
    with R True show ?thesis using post_runs by (fastforce simp: ac_simps)
  next
    case False
    then have "st' = st" using "1"(1) p by simp
    then show ?thesis
      using post_None[OF _ R, of st G "stmt_table c T"] False 1 env_ok_extends[OF "1"(8) extends_stmt(1)[OF ok(2) "1"(5)]] by (simp add: ac_simps)
  qed
qed

lemma executes_if_else:
  assumes ready: "ready v0" and c: "executes_stmt natural v0 sd G c" and s: "executes_stmt natural v0 sd G s"
  shows "executes_stmt natural v0 sd G (IfStatement sp t c (Some s))"
proof (rule executes_stmtI, goal_cases)
  case (1 T a k st S r st')
  let ?a1 = "a + expr_len G t + 3" and ?k1 = "k + length (expr_consts G t)" and ?T = "stmt_table c T"
  let ?a2 = "?a1 + stmt_len G c" and ?k2 = "?k1 + length (stmt_consts G c)"
  let ?a3 = "?a2 + 3 + stmt_len G s"
  from "1"(1) obtain y where "eval_expr natural st t = Inr y" by auto
  with "1"(1) obtain p where p: "eval_expr natural st t = Inr (BoolV p)" by (cases y) auto
  have ok: "numeric sd t" "stmt_ok sd G T c" "stmt_ok sd G ?T s" using "1"(4) by simp_all
  note x = extends_stmt(1)[OF ok(2) "1"(5)]
  note x2 = extends_stmt(1)[OF ok(3) extends_ok[OF x]]
  have C: "code_at (vm_insts v0) a (asm (expr_code sd G (st_store T) a k t))" "code_at (vm_constants v0) k (expr_consts G t)"
    "code_at (vm_insts v0) (a + expr_len G t) (enc (OpJumpIfFalse, [int (?a2 + 3)]))"
    "code_at (vm_insts v0) ?a1 (asm (stmt_code sd G T ?a1 ?k1 c))" "code_at (vm_insts v0) ?a2 (enc (OpJump, [int ?a3]))"
    "code_at (vm_insts v0) (?a2 + 3) (asm (stmt_code sd G ?T (?a2 + 3) ?k2 s))"
    using "1"(2,3) by (simp_all add: code_at_append Let_def)
  have a3: "?a3 < 65536" using code_at_le[OF C(6)] ready unfolding ready_def by simp
  then have R: "runs natural v0 a S (if p then ?a1 else ?a2 + 3) S"
    using exec_if[OF ready p C(1-3) _ ok(1) "1"(8)] "1"(10) by simp
  show ?case
  proof (cases p)
    case True
    obtain r' where e: "eval_stmt natural c st = Inr (r', st')" using "1"(1) p True by auto
    have "stmt_post natural v0 G ?T st' ?a1 S ?a2 (length S + stmt_grow c)"
      by (rule executes_stmtD[OF c e C(4)]) (use 1 next_le[OF x2] in \<open>auto simp: code_at_append\<close>)
    from post_extends[OF post_then[OF this run_jump[OF ready C(5) a3]] x2] R True show ?thesis
      using post_runs post_mono by (fastforce simp: ac_simps)
  next
    case False
    obtain r' where e: "eval_stmt natural s st = Inr (r', st')" using "1"(1) p False by auto
    have "stmt_post natural v0 G (stmt_table s ?T) st' (?a2 + 3) S ?a3 (length S + stmt_grow s)"
      by (rule executes_stmtD[OF s e C(6)]) (use 1 extends_ok[OF x] env_ok_extends[OF "1"(8) x] in \<open>auto simp: code_at_append\<close>)
    with R False show ?thesis using post_runs post_mono by (fastforce simp: ac_simps)
  qed
qed

subsection \<open>Switches\<close>

text \<open>The default case, after the cases have left the stack \<open>S'\<close>.\<close>

lemma executes_default:
  assumes d: "\<And>s ss. defs = s # ss \<Longrightarrow> executes_stmt natural v0 sd G s"
    and e: "(case defs of s # _ \<Rightarrow> ebind (eval_stmt natural s st) (\<lambda>(_, st'). Inr st') | [] \<Rightarrow> Inr st) = Inr st'"
    and C: "code_at (vm_insts v0) a (asm (case defs of s # _ \<Rightarrow> stmt_code sd G T a k s | [] \<Rightarrow> []))"
      "code_at (vm_constants v0) k (case defs of s # _ \<Rightarrow> stmt_consts G s | [] \<Rightarrow> [])"
    and "case defs of s # _ \<Rightarrow> stmt_ok sd G T s | [] \<Rightarrow> True" and "table_ok T"
    and "nextSymbolIndex (case defs of s # _ \<Rightarrow> stmt_table s T | [] \<Rightarrow> T) \<le> vm_moduleLocalCount v0" and "vm_moduleLocalCount v0 \<le> length S"
    and "env_ok G (st_store T) st v0 S" and "tw_returnValue st = None"
    and "length S + (case defs of s # _ \<Rightarrow> stmt_need s | [] \<Rightarrow> 0) \<le> VM_STACK_SIZE"
  shows "stmt_post natural v0 G (case defs of s # _ \<Rightarrow> stmt_table s T | [] \<Rightarrow> T) st' a S
    (a + (case defs of s # _ \<Rightarrow> stmt_len G s | [] \<Rightarrow> 0)) (length S + (case defs of s # _ \<Rightarrow> stmt_grow s | [] \<Rightarrow> 0))"
proof (cases defs)
  case Nil
  then show ?thesis using assms post_None[OF assms(10) runs_refl assms(9,8)] by simp
next
  case (Cons s ss)
  then obtain r where "eval_stmt natural s st = Inr (r, st')" using e by auto
  from executes_stmtD[OF d[OF Cons] this] show ?thesis using assms(3-) Cons by simp
qed

lemma executes_switch:
  assumes ready: "ready v0" and cs: "executes_cases natural v0 sd G cs" and d: "\<And>s ss. defs = s # ss \<Longrightarrow> executes_stmt natural v0 sd G s"
  shows "executes_stmt natural v0 sd G (SwitchStatement sp disc cs defs)"
proof (rule executes_stmtI, goal_cases)
  case (1 T a k st S r st')
  let ?a1 = "a + expr_len G disc" and ?k1 = "k + length (expr_consts G disc)" and ?T = "cases_table cs T"
  let ?a2 = "?a1 + cases_len G cs" and ?k2 = "?k1 + length (cases_consts G cs)"
  let ?code = "case defs of s # _ \<Rightarrow> stmt_code sd G ?T ?a2 ?k2 s | [] \<Rightarrow> []"
  let ?a3 = "?a2 + (case defs of s # _ \<Rightarrow> stmt_len G s | [] \<Rightarrow> 0)"
  from "1"(1) obtain x m where x: "eval_expr natural st disc = Inr x" and m: "eval_cases natural x cs st = Inr m" by auto
  show ?case
  proof (cases "cs = []")
    case True
    then have "st' = st" using "1"(1,4) x by simp
    then show ?thesis using True 1 post_None[OF _ runs_refl] by simp
  next
    case False
    have ok: "numeric sd disc" "cases_ok sd G T cs" using "1"(4) False by simp_all
    have C: "code_at (vm_insts v0) a (asm (expr_code sd G (st_store T) a k disc))" "code_at (vm_constants v0) k (expr_consts G disc)"
      "code_at (vm_insts v0) ?a1 (asm (cases_code sd G T ?a1 ?k1 ?a3 cs))" "code_at (vm_constants v0) ?k1 (cases_consts G cs)"
      "code_at (vm_insts v0) ?a2 (asm ?code)"
      using "1"(2,3) False by (simp_all add: code_at_append Let_def)
    have "length (asm ?code) = (case defs of s # _ \<Rightarrow> stmt_len G s | [] \<Rightarrow> 0)" by (cases defs) simp_all
    then have a3: "?a3 < 65536" using code_at_le[OF C(5)] ready unfolding ready_def by simp
    have R: "runs natural v0 a S ?a1 (S @ [Some x])" by (rule exec_expr[OF ready x C(1,2) ok(1) "1"(8)]) (use "1"(10) in simp)
    note e = extends_stmt(3)[OF ok(2) "1"(5)]
    have e2: "extends ?T (stmt_table (SwitchStatement sp disc cs defs) T)"
      using False "1"(4) extends_stmt(1)[OF _ extends_ok[OF e], of sd G] extends_refl[OF extends_ok[OF e]] by (cases defs) simp_all
    have K: "cases_post natural v0 G T cs x ?a1 ?a3 S m"
      by (rule executes_casesD[OF cs m C(3,4) ok(2) "1"(5) a3]) (use 1 next_le[OF e2] in auto)
    show ?thesis
    proof (cases m)
      case (Some st2)
      then have "st' = st2" using "1"(1) x m by simp
      with K Some post_mono[OF post_extends[OF post_runs[OF R] e2]] show ?thesis
        using False unfolding cases_post_def by (fastforce simp: ac_simps)
    next
      case None
      with K obtain S' where S': "runs natural v0 ?a1 (S @ [Some x]) ?a2 S'" "S' = S \<or> S' = S @ [Some x] \<and> \<not> single_case cs"
        unfolding cases_post_def by auto
      have env: "env_ok G (st_store ?T) st v0 S'" using env_ok_extends[OF "1"(8) e] S'(2) by (auto simp: env_ok_append)
      have ev: "(case defs of s # _ \<Rightarrow> ebind (eval_stmt natural s st) (\<lambda>(_, st'). Inr st') | [] \<Rightarrow> Inr st) = Inr st'"
        using "1"(1) x m None by (cases defs) auto
      have C6: "code_at (vm_constants v0) ?k2 (case defs of s # _ \<Rightarrow> stmt_consts G s | [] \<Rightarrow> [])"
        using "1"(3) False by (simp add: code_at_append)
      have n: "length S \<le> length S'" "length S' \<le> length S + 1" "length S' \<le> length S + (if single_case cs then 0 else 1)"
        using S'(2) by auto
      have "stmt_post natural v0 G (case defs of s # _ \<Rightarrow> stmt_table s ?T | [] \<Rightarrow> ?T) st' ?a2 S' ?a3
          (length S' + (case defs of s # _ \<Rightarrow> stmt_grow s | [] \<Rightarrow> 0))"
        by (rule executes_default[OF d ev C(5) C6 _ extends_ok[OF e] _ _ env "1"(9)]) (use 1 False n in auto)
      from post_mono[OF post_runs[OF runs_trans[OF R S'(1)] this]] show ?thesis using False n(3) by (simp add: ac_simps)
    qed
  qed
qed

subsection \<open>Blocks\<close>

lemma executes_block_value:
  assumes ready: "ready v0" and ex: "is_expr (ExprStatement e)" and ss: "executes_block natural v0 sd G ss"
  shows "executes_block natural v0 sd G (ExprStatement e # ss)"
proof (rule executes_blockI, goal_cases)
  case (1 T a k st S st')
  let ?a1 = "a + expr_len G e"
  from "1"(1,9) obtain y where y: "eval_expr natural st e = Inr y" and e2: "eval_block natural ss st = Inr st'" by auto
  have R: "runs natural v0 a S ?a1 (S @ [Some y])" by (rule exec_expr[OF ready y]) (use 1 in \<open>auto simp: code_at_append\<close>)
  have "runs natural v0 ?a1 (S @ [Some y]) (?a1 + 1) S" using run_pop[OF ready] "1"(2) ex by (simp add: code_at_append)
  note R2 = runs_trans[OF R this]
  have "stmt_post natural v0 G (block_table ss T) st' (?a1 + 1) S (?a1 + 1 + block_len G ss) (length S + block_grow ss)"
    by (rule executes_blockD[OF ss e2]) (use 1 ex in \<open>auto simp: code_at_append\<close>)
  from post_runs[OF R2 this] show ?case using ex by (simp add: ac_simps)
qed

lemma executes_block_stmt:
  assumes ne: "\<not> is_expr s" and s: "executes_stmt natural v0 sd G s" and ss: "executes_block natural v0 sd G ss"
  shows "executes_block natural v0 sd G (s # ss)"
proof (rule executes_blockI, goal_cases)
  case (1 T a k st S st')
  let ?a1 = "a + stmt_len G s" and ?T = "stmt_table s T"
  from "1"(1) obtain r1 st1 where e: "eval_stmt natural s st = Inr (r1, st1)" and
    e2: "(if tw_returnValue st1 \<noteq> None then Inr st1 else eval_block natural ss st1) = Inr st'" by auto
  have ok: "stmt_ok sd G T s" "block_ok sd G ?T ss" using "1"(4) by simp_all
  have x: "extends T ?T" "extends ?T (block_table ss ?T)"
    using extends_stmt(1)[OF ok(1) "1"(5)] extends_stmt(2)[OF ok(2)] extends_ok by auto
  have C: "code_at (vm_insts v0) ?a1 (asm (block_code sd G ?T ?a1 (k + length (stmt_consts G s)) ss))"
    "code_at (vm_constants v0) (k + length (stmt_consts G s)) (block_consts G ss)"
    using "1"(2,3) ne by (simp_all add: code_at_append)
  have P: "stmt_post natural v0 G ?T st1 a S ?a1 (length S + stmt_grow s)"
    by (rule executes_stmtD[OF s e]) (use 1 next_le[OF x(2)] in \<open>auto simp: code_at_append\<close>)
  show ?case
  proof (cases "tw_returnValue st1")
    case (Some w)
    then show ?thesis using P e2 by (simp add: stmt_post_def)
  next
    case None
    then obtain S1 where S1: "runs natural v0 a S ?a1 S1" "env_ok G (st_store ?T) st1 v0 S1"
      "vm_moduleLocalCount v0 \<le> length S1" "length S1 \<le> length S + stmt_grow s" using P unfolding stmt_post_def by auto
    have e3: "eval_block natural ss st1 = Inr st'" using e2 None by simp
    have "stmt_post natural v0 G (block_table ss ?T) st' ?a1 S1 (?a1 + block_len G ss) (length S1 + block_grow ss)"
      by (rule executes_blockD[OF ss e3 C]) (use 1 None e2 ne S1 extends_ok[OF x(1)] in auto)
    from post_mono[OF post_runs[OF S1(1) this], of "length S + block_grow (s # ss)"] S1(4) ne show ?thesis by (simp add: ac_simps)
  qed
qed

subsection \<open>Cases\<close>

text \<open>The code of a value of a case, of the block of the case and of the remaining values and cases.\<close>

abbreviation copies :: "expr list \<Rightarrow> (expr list \<times> stmt) list \<Rightarrow> bool" where
  "copies vs cs \<equiv> cs \<noteq> [] \<or> vs \<noteq> []"

lemma cases_code_at:
  assumes "code_at P a (asm (cases_code sd G T a k a_end ((v # vs, b) # cs)))" and "a0 = a + (if copies vs cs then 1 else 0)"
    and "k1 = k + length (expr_consts G v)" and "k2 = k1 + length (stmt_consts G b)"
    and "a1 = a0 + expr_len G v + 4" and "a2 = a1 + stmt_len G b + 3"
  shows "if copies vs cs then code_at P a (enc (OpCopyTop, [])) else True"
    "code_at P a0 (asm (expr_code sd G (st_store T) a0 k v))" "code_at P (a0 + expr_len G v) (enc (OpEqual, []))"
    "code_at P (a0 + expr_len G v + 1) (enc (OpJumpIfFalse, [int a2]))" "code_at P a1 (asm (stmt_code sd G T a1 k1 b))"
    "code_at P (a1 + stmt_len G b) (enc (OpJump, [int a_end]))"
    "code_at P a2 (asm (cases_code sd G (stmt_table b T) a2 k2 a_end ((vs, b) # cs)))"
proof -
  let ?copy = "(if copies vs cs then [(OpCopyTop, [])] else []) :: instr list"
  have "code_at P a (asm ?copy @ asm (expr_code sd G (st_store T) a0 k v) @ enc (OpEqual, []) @ enc (OpJumpIfFalse, [int a2]) @
      asm (stmt_code sd G T a1 k1 b) @ enc (OpJump, [int a_end]) @ asm (cases_code sd G (stmt_table b T) a2 k2 a_end ((vs, b) # cs)))"
    using assms by (cases "copies vs cs") (simp_all add: Let_def ac_simps)
  note C = code_at_case[OF this, of "length ?copy" "expr_len G v" "stmt_len G b"]
  have a0: "a + length ?copy = a0" using assms(2) by simp
  show "if copies vs cs then code_at P a (enc (OpCopyTop, [])) else True" using C(1) by (cases "copies vs cs") simp_all
  show "code_at P a0 (asm (expr_code sd G (st_store T) a0 k v))" "code_at P (a0 + expr_len G v) (enc (OpEqual, []))"
    "code_at P (a0 + expr_len G v + 1) (enc (OpJumpIfFalse, [int a2]))" "code_at P a1 (asm (stmt_code sd G T a1 k1 b))"
    "code_at P (a1 + stmt_len G b) (enc (OpJump, [int a_end]))"
    "code_at P a2 (asm (cases_code sd G (stmt_table b T) a2 k2 a_end ((vs, b) # cs)))"
    using C(2-) unfolding a0 assms(5,6) by simp_all
qed

text \<open>What the remaining values and cases do after a comparison that failed with the discriminant still on the stack.\<close>

lemma cases_post_next:
  assumes "cases_post natural v0 G (stmt_table b T) ((vs, b) # cs) d a2 a_end S m" and R: "runs natural v0 a (S @ [Some d]) a2 (S @ [Some d])"
    and "copies vs cs" and "a2 + cases_len G ((vs, b) # cs) = a + cases_len G ((v # vs, b) # cs)"
  shows "cases_post natural v0 G T ((v # vs, b) # cs) d a a_end S m"
proof -
  have ns: "\<not> single_case ((v # vs, b) # cs)" using assms(3) by (auto simp: single_case_def split: list.splits)
  show ?thesis
  proof (cases m)
    case None
    then obtain S' where S': "runs natural v0 a2 (S @ [Some d]) (a + cases_len G ((v # vs, b) # cs)) S'" "S' = S \<or> S' = S @ [Some d]"
      using assms(1,4) unfolding cases_post_def by auto
    from runs_trans[OF R S'(1)] S'(2) ns show ?thesis unfolding cases_post_def None option.case by blast
  next
    case (Some st')
    have "stmt_post natural v0 G (cases_table ((v # vs, b) # cs) T) st' a (S @ [Some d]) a_end
        (length S + (if single_case ((vs, b) # cs) then 0 else 1) + cases_grow ((vs, b) # cs))"
      using assms(1) Some post_runs[OF R] unfolding cases_post_def by simp
    then have "stmt_post natural v0 G (cases_table ((v # vs, b) # cs) T) st' a (S @ [Some d]) a_end
        (length S + 1 + cases_grow ((v # vs, b) # cs))"
      by (rule post_mono) (simp, linarith)
    then show ?thesis using ns Some unfolding cases_post_def by simp
  qed
qed

lemma executes_case_value:
  assumes ready: "ready v0" and b: "executes_stmt natural v0 sd G b" and rest: "executes_cases natural v0 sd G ((vs, b) # cs)"
  shows "executes_cases natural v0 sd G ((v # vs, b) # cs)"
proof (rule executes_casesI, goal_cases)
  case (1 T a k a_end d st S m)
  define a0 where "a0 = a + (if copies vs cs then 1 else 0)"
  define k1 where "k1 = k + length (expr_consts G v)"
  define k2 where "k2 = k1 + length (stmt_consts G b)"
  define a1 where "a1 = a0 + expr_len G v + 4"
  define a2 where "a2 = a1 + stmt_len G b + 3"
  note C = cases_code_at[OF "1"(2) a0_def k1_def k2_def a1_def a2_def]
  let ?B = "if copies vs cs then S @ [Some d] else S" and ?T = "stmt_table b T"
  from "1"(1) obtain x where x: "eval_expr natural st v = Inr x" and
    e: "(if go_eq d x then ebind (eval_stmt natural b st) (\<lambda>(_, st'). Inr (Some st')) else eval_cases natural d ((vs, b) # cs) st) = Inr m"
    by auto
  have ok: "case_literal v" "stmt_ok sd G T b" "cases_ok sd G ?T ((vs, b) # cs)" "numeric sd v"
    using "1"(4) case_literal.elims(2)[of v "numeric sd v"] by auto
  note ext = extends_stmt(1)[OF ok(2) "1"(5)]
  note ext2 = extends_stmt(3)[OF ok(3) extends_ok[OF ext]]
  have K: "code_at (vm_constants v0) k (expr_consts G v)" "code_at (vm_constants v0) k1 (stmt_consts G b)"
    "code_at (vm_constants v0) k2 (cases_consts G ((vs, b) # cs))"
    using "1"(3) by (simp_all add: code_at_append k1_def k2_def)
  have len: "a2 + cases_len G ((vs, b) # cs) = a + cases_len G ((v # vs, b) # cs)" by (simp add: a2_def a1_def a0_def)
  have "a2 < 65536" using code_at_le[OF C(7)] ready unfolding ready_def by simp
  then have R: "runs natural v0 a (S @ [Some d]) (if go_eq d x then a1 else a2) ?B"
    unfolding a1_def by (intro exec_case[OF ready x ok(1,4) refl a0_def refl C(1,2) K(1) C(3,4) _ "1"(9)]) (use "1"(11) in auto)
  consider (match) r' st2 where "go_eq d x" "eval_stmt natural b st = Inr (r', st2)" "m = Some st2"
    | (next_value) "\<not> go_eq d x" "copies vs cs" | (last) "\<not> go_eq d x" "\<not> copies vs cs"
    using e by (auto split: if_splits)
  then show ?case
  proof cases
    case match
    have "stmt_post natural v0 G ?T st2 a1 ?B (a1 + stmt_len G b) (length ?B + stmt_grow b)"
      by (rule executes_stmtD[OF b match(2) C(5) K(2) ok(2) "1"(5)]) (use 1 next_le[OF ext2] in \<open>auto simp: env_ok_append\<close>)
    from post_extends[OF post_then[OF this run_jump[OF ready C(6) "1"(6)]] ext2]
    have "stmt_post natural v0 G (cases_table ((v # vs, b) # cs) T) st2 a (S @ [Some d]) a_end (length ?B + stmt_grow b)"
      using post_runs[OF R[unfolded if_P[OF match(1)]]] by simp
    then show ?thesis
      unfolding cases_post_def match(3) option.case by (rule post_mono) (auto simp: single_case_def split: list.splits)
  next
    case next_value
    have "cases_post natural v0 G ?T ((vs, b) # cs) d a2 a_end S m"
      by (rule executes_casesD[OF rest _ C(7) K(3) ok(3) extends_ok[OF ext] "1"(6)])
        (use 1 e next_value(1) env_ok_extends[OF "1"(9) ext] in auto)
    then show ?thesis by (rule cases_post_next[OF _ _ next_value(2) len]) (use R next_value in simp)
  next
    case last
    then have "m = None" using e by simp
    then show ?thesis using R last len unfolding cases_post_def by (auto intro!: exI[of _ S])
  qed
qed

lemma executes_case_end:
  assumes "executes_cases natural v0 sd G cs"
  shows "executes_cases natural v0 sd G (([], b) # cs)"
proof (rule executes_casesI, goal_cases)
  case (1 T a k a_end d st S m)
  have "\<not> single_case (([], b) # cs)" by (simp add: single_case_def)
  moreover have "cases_post natural v0 G T cs d a a_end S m" by (rule executes_casesD[OF assms]) (use 1 in auto)
  ultimately show ?case unfolding cases_post_def using post_mono by (fastforce split: option.splits)
qed

lemma executes_nothing: "executes_cases natural v0 sd G []" "executes_block natural v0 sd G []"
  by (auto intro!: executes_casesI executes_blockI post_None[OF _ runs_refl] simp: cases_post_def single_case_def) (blast intro: runs_refl)

subsection \<open>All statements\<close>

lemma executes_all:
  assumes "ready v0"
  shows "executes_stmt natural v0 sd G s" "executes_block natural v0 sd G ss" "executes_cases natural v0 sd G cs"
proof (induction s and ss and cs rule: stmt_need_block_need_cases_need.induct)
  case (4 sp t c alt)
  then show ?case using assms by (cases alt) (simp_all add: executes_if executes_if_else)
next
  case (6 sp ss)
  then show ?case by (auto simp: executes_stmt_def executes_block_def)
next
  case (10 s ss)
  then show ?case using assms executes_block_value executes_block_stmt by (metis is_exprE)
qed (use assms in \<open>auto intro: executes_simple executes_return executes_switch executes_nothing executes_case_end executes_case_value\<close>)

lemmas exec_stmt = executes_stmtD[OF executes_all(1)] executes_blockD[OF executes_all(2)]

end
