(* ===== verification/Correctness.thy ===== *)
theory Correctness
  imports Simulation
begin

text \<open>
  The two interpreters agree: whenever the tree-walking interpreter evaluates a module without error, the compiled module,
  executed by the virtual machine, terminates with the same result, provided that the code fits the operands of the
  instructions and the stack, and that the program uses none of the constructs on which they differ, which the theory
  Divergences shows.
\<close>

section \<open>Modules\<close>

text \<open>
  A module whose stack is balanced: its only statement is an expression, or no statement leaves a value on the stack.
\<close>

fun chunk_balanced :: "stmt list \<Rightarrow> bool" where
  "chunk_balanced [ExprStatement _] \<longleftrightarrow> True"
| "chunk_balanced [s] \<longleftrightarrow> stmt_grow s = 0"
| "chunk_balanced ss \<longleftrightarrow> block_grow ss = 0"

definition chunk_need :: "stmt list \<Rightarrow> nat" where
  "chunk_need ss = max 1 (block_need ss)"

lemma post_module:
  assumes "stmt_post natural v0 G T st a S b n" and "ready v0" and "code_at (vm_insts v0) b [of_nat OpSuspendVM]" and "n \<le> vm_moduleLocalCount v0"
  shows "returns natural v0 a S (Some (case tw_returnValue st of Some x \<Rightarrow> x | None \<Rightarrow> NilV))"
proof (cases "tw_returnValue st")
  case None
  then obtain S' where "runs natural v0 a S b S'" "length S' \<le> vm_moduleLocalCount v0" using assms(1,4) unfolding stmt_post_def by auto
  then show ?thesis using None runs_returns[OF _ run_suspend[OF assms(2,3)], of natural a S S'] by simp
qed (use assms(1) in \<open>simp add: stmt_post_def\<close>)

abbreviation module_value :: "Value option \<Rightarrow> Value" where
  "module_value r \<equiv> (case r of Some x \<Rightarrow> x | None \<Rightarrow> NilV)"

lemma statement_result:
  assumes "eval_stmt natural s st = Inr (r, st')" and "\<And>e. s \<noteq> ExprStatement e"
  shows "r = None \<or> r = Some NilV"
proof (cases s)
  case (ReturnStatement sp v)
  then show ?thesis using assms by (cases v) auto
next
  case (IfStatement sp t c alt)
  then obtain y where "eval_expr natural st t = Inr y" using assms(1) by auto
  with IfStatement show ?thesis using assms(1) by (cases y; cases alt) (auto split: bool.split_asm)
qed (use assms in \<open>auto split: Value.split_asm bool.split_asm option.split_asm list.split_asm\<close>)

lemma run_value:
  assumes "ready v0" and "runs natural v0 a S b (S @ [x])" and "code_at (vm_insts v0) b [of_nat OpSuspendVM]" and "vm_moduleLocalCount v0 \<le> length S"
  shows "returns natural v0 a S x"
  using runs_returns[OF assms(2) run_suspend[OF assms(1,3)]] assms(4) by simp

lemma module_agrees:
  assumes m: "compileMainChunk sd gtab span stmts = Inr m" and e: "eval_chunk natural globals stmts = Inr r"
    and g: "\<And>x. (st_Resolve x gtab \<noteq> None) = (globals x \<noteq> None)"
    and ok: "block_ok sd (\<lambda>x. st_Resolve x gtab \<noteq> None) newSymbolTable stmts" and bal: "chunk_balanced stmts"
    and len: "length (cm_code m) < 65536" and need: "cm_locals m + chunk_need stmts \<le> VM_STACK_SIZE"
  shows "vm_Run natural (newVM m globals) = Some (Result (Some (module_value r)))"
proof -
  define G where "G x = (st_Resolve x gtab \<noteq> None)" for x
  note R = compileMainChunk_reference[OF m, of G]
  let ?v = "newVM m globals" and ?S = "replicate (cm_locals m) None :: Value option list"
  let ?st = "\<lparr>tw_globals = globals, tw_locals = (\<lambda>_. None), tw_returnValue = None\<rparr>"
  have ready: "ready ?v" using len R(4) by (simp add: ready_def newVM_def G_def[abs_def])
  have env: "env_ok G (st_store newSymbolTable) ?st ?v ?S" using g by (simp add: env_ok_def newVM_def G_def newSymbolTable_def)
  have tab: "table_ok newSymbolTable" by (simp add: table_ok_def newSymbolTable_def)
  have code: "code_at (vm_insts ?v) 0 (asm (chunk_code sd G stmts))"
    "code_at (vm_insts ?v) (length (asm (chunk_code sd G stmts))) [of_nat OpSuspendVM]"
    "code_at (vm_constants ?v) 0 (block_consts G stmts)"
    using R(1,2) by (auto simp: newVM_def code_at_def G_def[abs_def])
  have loc: "vm_moduleLocalCount ?v = cm_locals m" "nextSymbolIndex (block_table stmts newSymbolTable) = cm_locals m"
    using R(3) by (simp_all add: newVM_def G_def[abs_def])
  have "returns natural ?v 0 ?S (Some (module_value r))"
  proof -
    consider (expr) x where "stmts = [ExprStatement x]" | (single) s where "stmts = [s]" "\<And>e. s \<noteq> ExprStatement e"
      | (none) "stmts = []" | (many) s t ss where "stmts = s # t # ss"
      by (metis neq_Nil_conv)
    then show ?thesis
    proof cases
      case (expr x)
      then have x: "eval_expr natural ?st x = Inr (module_value r)" using e by (auto simp: eval_chunk_def Let_def)
      have "runs natural ?v 0 ?S (0 + expr_len G x) (?S @ [Some (module_value r)])"
        by (rule exec_expr[OF ready x _ _ _ env]) (use expr code ok need in \<open>auto simp: chunk_need_def\<close>)
      from run_value[OF ready this] show ?thesis using expr code(2) loc by simp
    next
      case s: (single s)
      with e obtain r' st' where e': "eval_stmt natural s ?st = Inr (r', st')" and r: "r = (if tw_returnValue st' \<noteq> None then tw_returnValue st' else r')"
        by (auto simp: eval_chunk_def)
      have P: "stmt_post natural ?v G (stmt_table s newSymbolTable) st' 0 ?S (0 + stmt_len G s) (length ?S + stmt_grow s)"
        by (rule exec_stmt(1)[OF ready e' _ _ _ tab]) (use s code ok need loc env in \<open>auto simp: chunk_need_def G_def[abs_def]\<close>)
      have "stmt_grow s = 0" using bal s by (cases s) auto
      with post_module[OF P ready] show ?thesis
        using s code(2) loc statement_result[OF e' s(2)] r by (cases "tw_returnValue st'") auto
    next
      case none
      then have c: "code_at (vm_insts ?v) 0 [of_nat OpPushNil]" "code_at (vm_insts ?v) 1 [of_nat OpSuspendVM]" using code by (simp_all add: enc_def)
      have "runs natural ?v 0 ?S (0 + 1) (?S @ [Some NilV])"
        by (rule run_push_simple[OF ready, of _ OpPushNil]) (use none code need in \<open>auto simp: chunk_need_def\<close>)
      from run_value[OF ready this] show ?thesis using none e c loc by (auto simp: eval_chunk_def)
    next
      case (many s t ss)
      then obtain st' where e': "eval_block natural stmts ?st = Inr st'" and r: "r = (if tw_returnValue st' \<noteq> None then tw_returnValue st' else Some NilV)"
        using e by (auto simp: eval_chunk_def simp del: eval_block.simps)
      have P: "stmt_post natural ?v G (block_table stmts newSymbolTable) st' 0 ?S (0 + block_len G stmts) (length ?S + block_grow stmts)"
        by (rule exec_stmt(2)[OF ready e' _ code(3) _ tab]) (use many code ok need loc env in \<open>auto simp: chunk_need_def G_def[abs_def]\<close>)
      have "returns natural ?v 0 ?S (Some (module_value (tw_returnValue st')))"
        by (rule post_module[OF P ready]) (use many code(2) loc bal in auto)
      then show ?thesis using r by (cases "tw_returnValue st'") auto
    qed
  qed
  then show ?thesis using returns_Run[of natural ?v] need by (simp add: newVM_def chunk_need_def)
qed

text \<open>
  (C1) The two interpreters agree: when the tree-walking interpreter evaluates a module without error, the compiled module,
  executed by the virtual machine, stops with the same result (Go's nil read as Inox's nil). The hypotheses: the compiler knows the
  names of exactly the global variables that exist; the program redeclares no local, names no local like a global, uses no \<open>/=\<close>,
  has literal case values, has no switch that only consists of a default case and no arithmetic on operands that are not
  numbers; no switch with several values and no conditional expression in statement position leaves a value on the stack; the
  code has less than 65536 bytes, and the locals and temporary values fit the 200 slots of the stack.
\<close>

theorem interpreters_agree:
  assumes "compileMainChunk sd gtab span stmts = Inr m" and "eval_chunk natural globals stmts = Inr r"
    and "\<And>x. (st_Resolve x gtab \<noteq> None) = (globals x \<noteq> None)"
    and "block_ok sd (\<lambda>x. st_Resolve x gtab \<noteq> None) newSymbolTable stmts" and "chunk_balanced stmts"
    and "length (cm_code m) < 65536" and "cm_locals m + chunk_need stmts \<le> VM_STACK_SIZE"
  shows "vm_Run natural (newVM m globals) = Some (Result (Some (case r of Some x \<Rightarrow> x | None \<Rightarrow> NilV)))"
  by (rule module_agrees[OF assms])

theorem interpreters_agree_witness:
  "\<exists>m. compileMainChunk (\<lambda>_. Some SymbolicInt) sample_globals (0, 0) sample_module = Inr m \<and>
     eval_chunk (\<lambda>_ _. False) [''g'' \<mapsto> IntV 3] sample_module = Inr (Some (IntV 7)) \<and>
     vm_Run (\<lambda>_ _. False) (newVM m [''g'' \<mapsto> IntV 3]) = Some (Result (Some (IntV 7)))"
proof -
  let ?m = "\<lparr>cm_code = asm (chunk_code (\<lambda>_. Some SymbolicInt) (\<lambda>x. x = ''g'') sample_module) @ [of_nat OpSuspendVM],
    cm_constants = [IntV 4, IntV 5, StringV ''g'', IntV 7], cm_locals = 1\<rparr>"
  have c: "compileMainChunk (\<lambda>_. Some SymbolicInt) sample_globals (0, 0) sample_module = Inr ?m"
    using compileMainChunk_eq[of "\<lambda>_. Some SymbolicInt" sample_globals sample_module "(0, 0)", unfolded sample_globals_only]
    by (simp add: sample_module_facts)
  have e: "eval_chunk (\<lambda>_ _. False) [''g'' \<mapsto> IntV 3] sample_module = Inr (Some (IntV 7))"
    by (simp add: sample_module_def eval_chunk_def set_local_def compare_with_def intCompare_def intAdd_def i64_def)
  have g: "(st_Resolve x sample_globals \<noteq> None) = ([''g'' \<mapsto> IntV 3] x \<noteq> None)" for x
    using fun_cong[OF sample_globals_only, of x] by simp
  have ok: "block_ok (\<lambda>_. Some SymbolicInt) (\<lambda>x. st_Resolve x sample_globals \<noteq> None) newSymbolTable sample_module"
    unfolding sample_globals_only by (simp add: sample_table_defs)
  have b: "chunk_balanced sample_module" by (simp add: sample_module_def single_case_def)
  have n: "chunk_need sample_module = 3" by (simp add: sample_module_def chunk_need_def)
  have l: "length (asm (chunk_code (\<lambda>_. Some SymbolicInt) (\<lambda>x. x = ''g'') sample_module)) = 44"
    by (simp add: sample_module_def var_code_def is_arithmetic_def is_logical_def)
  have "vm_Run (\<lambda>_ _. False) (newVM ?m [''g'' \<mapsto> IntV 3]) = Some (Result (Some (case Some (IntV 7) of Some x \<Rightarrow> x | None \<Rightarrow> NilV)))"
    by (rule interpreters_agree[OF c e g ok b]) (use n l in \<open>simp_all add: VM_STACK_SIZE_def\<close>)
  then show ?thesis using c e by (intro exI[of _ ?m]) simp
qed

end
