(* ===== verification/Divergences.thy ===== *)
theory Divergences
  imports Correctness
begin

text \<open>
  Programs on which the tree-walking interpreter and the virtual machine differ: what the side conditions of the agreement of
  the two interpreters exclude.
\<close>

lemma start_of_module:
  assumes m: "compileMainChunk sd gtab span stmts = Inr m" and G: "G = (\<lambda>x. st_Resolve x gtab \<noteq> None)" and "length (cm_code m) < 65536"
  shows "ready (newVM m globals)" "code_at (vm_insts (newVM m globals)) 0 (asm (chunk_code sd G stmts) @ [of_nat OpSuspendVM])"
    "code_at (vm_constants (newVM m globals)) 0 (block_consts G stmts)" "vm_moduleLocalCount (newVM m globals) = cm_locals m"
  using compileMainChunk_reference[OF m G] assms(3) by (auto simp: ready_def newVM_def code_at_def)

lemma module_returns:
  assumes "returns natural (newVM m globals) 0 (replicate (cm_locals m) None) x" and "cm_locals m \<le> VM_STACK_SIZE"
  shows "vm_Run natural (newVM m globals) = Some (Result x)"
  using returns_Run[of natural "newVM m globals"] assms by (simp add: newVM_def)

lemma first_expression:
  assumes "code_at P 0 (asm (chunk_code sd G (ExprStatement e # ss)) @ xs)" and "code_at Q 0 (block_consts G (ExprStatement e # ss))"
  shows "code_at P 0 (asm (expr_code sd G (st_store newSymbolTable) 0 0 e))" "code_at Q 0 (expr_consts G e)"
proof -
  obtain rest where "chunk_code sd G (ExprStatement e # ss) = expr_code sd G (st_store newSymbolTable) 0 0 e @ rest" by (cases ss) simp_all
  then show "code_at P 0 (asm (expr_code sd G (st_store newSymbolTable) 0 0 e))" using assms(1) by (simp add: code_at_append)
  show "code_at Q 0 (expr_consts G e)" using assms(2) by (simp add: code_at_append)
qed

section \<open>Comparison of incomparable values\<close>

lemma returns_incomparable:
  assumes "ready v0" and "code_at (vm_insts v0) a (enc (simple_operator_op operator, []))"
    and "operator \<in> {LessThan, LessOrEqual, GreaterThan, GreaterOrEqual}" and "val_Compare natural l = Some compare" and "compare r = None"
    and "checkComparisonOperands l" and "vm_moduleLocalCount v0 \<le> length S"
  shows "returns natural v0 a (S @ [Some l, Some r]) (Some r)"
proof -
  have e: "vm_err v0 = None" using assms(1) by (simp add: ready_def)
  have "vm_step natural (conf v0 (int a - 1) (Suc (Suc (length S))) (S @ Some l # Some r # junk)) =
      Returned (conf v0 (int a) (Suc (Suc (length S))) (S @ Some l # Some r # junk)) \<and>
    module_result (Returned (conf v0 (int a) (Suc (Suc (length S))) (S @ Some l # Some r # junk))) = Result (Some r)" for junk
    using assms e by (auto simp: step_exec vm_exec_def op_compare_def nth_append)
  then show ?thesis unfolding returns_def at_def goes_def by fastforce
qed

text \<open>The state in which the tree walk evaluates the first statement, and the machine at the start of the module.\<close>

abbreviation first_state :: "(string \<rightharpoonup> Value) \<Rightarrow> TreeWalkState" where
  "first_state globals \<equiv> \<lparr>tw_globals = globals, tw_locals = (\<lambda>_. None), tw_returnValue = None\<rparr>"

lemma first_env:
  assumes "\<And>x. G x = (globals x \<noteq> None)"
  shows "env_ok G (st_store newSymbolTable) (first_state globals) (newVM m globals) S"
  using assms by (simp add: env_ok_def newVM_def newSymbolTable_def)

text \<open>
  (C39) Take a module that starts with a comparison of the values of two expressions, such that the left value can be compared
  (it is a number or a string) and is not an infinite float or NaN, and the right value is not comparable with it. The
  tree-walking interpreter fails with its comparison error; the virtual machine stops without an error, skips the rest of the module
  and returns the right value as the result of the module. The operands are expressions of the modelled language with numbers
  as left operands of arithmetic, the compiler knows the names of exactly the global variables that exist, the code has less than
  65536 bytes and the values fit the stack.
\<close>

theorem incomparable_operands_end_the_module:
  assumes "compileMainChunk sd gtab span (ExprStatement (BinaryExpression sp operator left right) # ss) = Inr m"
    and "operator \<in> {LessThan, LessOrEqual, GreaterThan, GreaterOrEqual}"
    and "eval_expr natural \<lparr>tw_globals = globals, tw_locals = (\<lambda>_. None), tw_returnValue = None\<rparr> left = Inr l"
    and "eval_expr natural \<lparr>tw_globals = globals, tw_locals = (\<lambda>_. None), tw_returnValue = None\<rparr> right = Inr r"
    and "val_Compare natural l = Some compare" and "compare r = None" and "checkComparisonOperands l"
    and "numeric sd left" and "numeric sd right" and "\<And>x. (st_Resolve x gtab \<noteq> None) = (globals x \<noteq> None)"
    and "length (cm_code m) < 65536" and "cm_locals m + expr_need (BinaryExpression sp operator left right) \<le> VM_STACK_SIZE"
  shows "eval_chunk natural globals (ExprStatement (BinaryExpression sp operator left right) # ss) = Inl (comparison_error l r) \<and>
    vm_Run natural (newVM m globals) = Some (Result (Some r))"
proof
  let ?e = "BinaryExpression sp operator left right" and ?v = "newVM m globals" and ?st = "first_state globals"
  let ?G = "\<lambda>x. st_Resolve x gtab \<noteq> None" and ?S = "replicate (cm_locals m) None :: Value option list"
  have op: "\<not> is_logical operator" "\<not> is_arithmetic operator" using assms(2) by (auto simp: is_logical_def is_arithmetic_def)
  have "eval_expr natural ?st ?e = Inl (comparison_error l r)"
    using assms(2-6) by (auto simp: compare_with_def)
  then show "eval_chunk natural globals (ExprStatement ?e # ss) = Inl (comparison_error l r)" by (cases ss) (simp_all add: eval_chunk_def Let_def)
  note v = start_of_module[OF assms(1) refl assms(11), of globals]
  have "code_at (vm_insts ?v) 0 (asm (expr_code sd ?G (st_store newSymbolTable) 0 0 ?e))" "code_at (vm_constants ?v) 0 (expr_consts ?G ?e)"
    using first_expression[OF v(2,3)] .
  then have C: "code_at (vm_insts ?v) 0 (asm (expr_code sd ?G (st_store newSymbolTable) 0 0 left))" "code_at (vm_constants ?v) 0 (expr_consts ?G left)"
    "code_at (vm_insts ?v) (expr_len ?G left) (asm (expr_code sd ?G (st_store newSymbolTable) (expr_len ?G left) (length (expr_consts ?G left)) right))"
    "code_at (vm_constants ?v) (length (expr_consts ?G left)) (expr_consts ?G right)"
    "code_at (vm_insts ?v) (expr_len ?G left + expr_len ?G right) (enc (simple_operator_op operator, []))"
    using op by (simp_all add: code_at_append Let_def)
  have env: "env_ok ?G (st_store newSymbolTable) ?st ?v S" for S by (rule first_env) (rule assms(10))
  have need: "cm_locals m + expr_need left \<le> VM_STACK_SIZE" "cm_locals m + 1 + expr_need right \<le> VM_STACK_SIZE" using assms(12) op by simp_all
  have R1: "runs natural ?v 0 ?S (0 + expr_len ?G left) (?S @ [Some l])"
    by (rule exec_expr[OF v(1) assms(3) C(1,2) assms(8) env]) (use need in simp)
  have R2: "runs natural ?v (expr_len ?G left) (?S @ [Some l]) (expr_len ?G left + expr_len ?G right) ((?S @ [Some l]) @ [Some r])"
    by (rule exec_expr[OF v(1) assms(4) C(3,4) assms(9) env]) (use need in simp)
  have R3: "returns natural ?v (expr_len ?G left + expr_len ?G right) (?S @ [Some l, Some r]) (Some r)"
    by (rule returns_incomparable[OF v(1) C(5) assms(2,5-7)]) (simp add: v(4))
  have "returns natural ?v 0 ?S (Some r)"
    using runs_returns[OF R1[unfolded add_0] runs_returns[OF R2[unfolded append_assoc append.simps] R3]] .
  then show "vm_Run natural ?v = Some (Result (Some r))" by (rule module_returns) (use need in simp)
qed

theorem incomparable_operands_end_the_module_witness:
  "\<exists>m. compileMainChunk (\<lambda>_. None) newSymbolTable (0, 0)
       [ExprStatement (BinaryExpression (0, 0) LessThan (IntLiteral (0, 0) 1) (FloatLiteral (0, 0) 0)), ReturnStatement (0, 0) None] = Inr m \<and>
     vm_Run (\<lambda>_ _. False) (newVM m (\<lambda>_. None)) = Some (Result (Some (FloatV 0)))"
proof -
  let ?ss = "[ExprStatement (BinaryExpression (0, 0) LessThan (IntLiteral (0, 0) 1) (FloatLiteral (0, 0) 0)), ReturnStatement (0, 0) None]"
  let ?m = "\<lparr>cm_code = asm (chunk_code (\<lambda>_. None) (\<lambda>_. False) ?ss) @ [of_nat OpSuspendVM], cm_constants = [IntV 1, FloatV 0], cm_locals = 0\<rparr>"
  have g: "(\<lambda>x. st_Resolve x newSymbolTable \<noteq> None) = (\<lambda>_. False)" by (simp add: st_Resolve_def newSymbolTable_def)
  have c: "compileMainChunk (\<lambda>_. None) newSymbolTable (0, 0) ?ss = Inr ?m"
    by (subst compileMainChunk_eq) (simp_all add: g is_arithmetic_def newSymbolTable_def st_Resolve_def)
  have len: "length (cm_code ?m) < 65536" by (simp add: is_arithmetic_def is_logical_def)
  have "vm_Run (\<lambda>_ _. False) (newVM ?m (\<lambda>_. None)) = Some (Result (Some (FloatV 0)))"
    using incomparable_operands_end_the_module[OF c _ _ _ _ _ _ _ _ _ len, of "\<lambda>_ _. False" "\<lambda>_. None" "IntV 1" "FloatV 0" "intCompare 1"] fun_cong[OF g]
    by (simp add: VM_STACK_SIZE_def intCompare_def is_logical_def)
  with c show ?thesis by (intro exI[of _ ?m]) blast
qed

section \<open>The discriminant of a switch\<close>

text \<open>
  (C40) Take a module that consists of a switch with several values, in one or more cases. When the first value is a literal that
  equals the discriminant and its block is empty, the compiled code leaves the discriminant on the stack: the machine returns the
  discriminant as the result of the module, where the tree-walking interpreter returns nil. The discriminant is an expression of the
  modelled language with numbers as left operands of arithmetic, the compiler knows the names of exactly the global
  variables that exist, the code has less than 65536 bytes and the values fit the stack.
\<close>

theorem switch_leaves_its_discriminant:
  assumes "compileMainChunk sd gtab span [SwitchStatement sp disc ((v # vs, Block s3 []) # cs) defs] = Inr m" and "cs \<noteq> [] \<or> vs \<noteq> []"
    and "eval_expr natural \<lparr>tw_globals = globals, tw_locals = (\<lambda>_. None), tw_returnValue = None\<rparr> disc = Inr d"
    and "eval_expr natural \<lparr>tw_globals = globals, tw_locals = (\<lambda>_. None), tw_returnValue = None\<rparr> v = Inr x"
    and "case_literal v" and "go_eq d x" and "numeric sd disc" and "\<And>x. (st_Resolve x gtab \<noteq> None) = (globals x \<noteq> None)"
    and "length (cm_code m) < 65536" and "cm_locals m + max 3 (expr_need disc) \<le> VM_STACK_SIZE"
  shows "eval_chunk natural globals [SwitchStatement sp disc ((v # vs, Block s3 []) # cs) defs] = Inr (Some NilV) \<and>
    vm_Run natural (newVM m globals) = Some (Result (Some d))"
proof
  let ?cs = "(v # vs, Block s3 []) # cs"
  let ?s = "SwitchStatement sp disc ?cs defs" and ?v = "newVM m globals" and ?st = "first_state globals" and ?T = newSymbolTable
  let ?G = "\<lambda>x. st_Resolve x gtab \<noteq> None" and ?S = "replicate (cm_locals m) None :: Value option list"
  show "eval_chunk natural globals [?s] = Inr (Some NilV)" using assms(3,4,6) by (simp add: eval_chunk_def)
  note v = start_of_module[OF assms(1) refl assms(9), of globals]
  define n where "n = stmt_len ?G ?s"
  define a where "a = expr_len ?G disc"
  define k where "k = length (expr_consts ?G disc)"
  have e: "code_at (vm_insts ?v) n [of_nat OpSuspendVM]" using v(2) by (simp add: code_at_append n_def del: stmt_code.simps stmt_len.simps)
  have D: "code_at (vm_insts ?v) 0 (asm (expr_code sd ?G (st_store ?T) 0 0 disc))" "code_at (vm_constants ?v) 0 (expr_consts ?G disc)"
    "code_at (vm_insts ?v) a (asm (cases_code sd ?G ?T a k n ?cs))" "code_at (vm_constants ?v) k (expr_consts ?G v)"
    using v(2,3) by (simp_all add: code_at_append Let_def a_def k_def n_def del: cases_code.simps)
  define a0 where "a0 = a + (if copies vs cs then 1 else 0)"
  define a1 where "a1 = a0 + expr_len ?G v + 4"
  define a2 where "a2 = a1 + stmt_len ?G (Block s3 []) + 3"
  note C = cases_code_at[OF D(3) a0_def refl refl a1_def a2_def]
  have ready: "n < 65536" "a2 < 65536" using code_at_le[OF e] code_at_le[OF C(7)] v(1) unfolding ready_def by simp_all
  have env: "env_ok ?G (st_store ?T) ?st ?v S" for S by (rule first_env) (rule assms(8))
  have num: "numeric sd v" "expr_need v = 1" using assms(5) by (auto elim: case_literal.elims(2))
  have R1: "runs natural ?v 0 ?S (0 + a) (?S @ [Some d])"
    unfolding a_def by (rule exec_expr[OF v(1) assms(3) D(1,2) assms(7) env]) (use assms(10) in simp)
  have R2: "runs natural ?v a (?S @ [Some d]) (if go_eq d x then a1 else a2) (if copies vs cs then ?S @ [Some d] else ?S)"
    unfolding a1_def
    by (rule exec_case[OF v(1) assms(4,5) num(1) refl a0_def refl C(1,2) D(4) C(3,4) ready(2) env]) (use assms(10) num(2) in simp)
  have R3: "runs natural ?v a1 (?S @ [Some d]) n (?S @ [Some d])"
    using run_jump[OF v(1) _ ready(1), of a1] C(6) by simp
  have "runs natural ?v 0 ?S n (?S @ [Some d])"
    using runs_trans[OF R1[unfolded add_0] runs_trans[OF R2 _]] R3 assms(2,6) by simp
  from run_value[OF v(1) this e] have "returns natural ?v 0 ?S (Some d)" by (simp add: v(4))
  then show "vm_Run natural ?v = Some (Result (Some d))" by (rule module_returns) (use assms(10) in simp)
qed

theorem switch_leaves_its_discriminant_witness:
  "\<exists>m. compileMainChunk (\<lambda>_. None) newSymbolTable (0, 0)
       [SwitchStatement (0, 0) (IntLiteral (0, 0) 1) [([IntLiteral (0, 0) 1], Block (0, 0) []), ([IntLiteral (0, 0) 2], Block (0, 0) [])] []] = Inr m \<and>
     vm_Run (\<lambda>_ _. False) (newVM m (\<lambda>_. None)) = Some (Result (Some (IntV 1)))"
proof -
  let ?ss = "[SwitchStatement (0, 0) (IntLiteral (0, 0) 1) [([IntLiteral (0, 0) 1], Block (0, 0) []), ([IntLiteral (0, 0) 2], Block (0, 0) [])] []]"
  let ?m = "\<lparr>cm_code = asm (chunk_code (\<lambda>_. None) (\<lambda>_. False) ?ss) @ [of_nat OpSuspendVM], cm_constants = [IntV 1, IntV 1, IntV 2], cm_locals = 0\<rparr>"
  have g: "(\<lambda>x. st_Resolve x newSymbolTable \<noteq> None) = (\<lambda>_. False)" by (simp add: st_Resolve_def newSymbolTable_def)
  have c: "compileMainChunk (\<lambda>_. None) newSymbolTable (0, 0) ?ss = Inr ?m"
    by (subst compileMainChunk_eq) (simp_all add: g newSymbolTable_def st_Resolve_def)
  have len: "length (cm_code ?m) < 65536" by (simp add: Let_def)
  have "vm_Run (\<lambda>_ _. False) (newVM ?m (\<lambda>_. None)) = Some (Result (Some (IntV 1)))"
    using switch_leaves_its_discriminant[OF c _ _ _ _ _ _ _ len, of "\<lambda>_ _. False" "\<lambda>_. None" "IntV 1" "IntV 1"] fun_cong[OF g]
    by (simp add: VM_STACK_SIZE_def)
  with c show ?thesis by (intro exI[of _ ?m]) blast
qed

section \<open>Division\<close>

text \<open>The tree-walking interpreter executes \<open>a /= j\<close> as a multiplication; the machine divides.\<close>

lemma division_assignment_multiplies:
  "eval_chunk natural globals [LocalVariableDeclarations s1 [(''a'', IntLiteral s2 i)], Assignment s3 DivAssign (IdentifierLeft ''a'') (IntLiteral s4 j),
     ReturnStatement s5 (Some (Variable s6 ''a''))] = ebind (intMul i j) (\<lambda>k. Inr (Some (IntV k)))"
  by (cases "intMul i j") (simp_all add: eval_chunk_def set_local_def)

lemma division_assignment_compiles_to_division:
  "assign_code sd G T a k DivAssign name e =
    [(OpGetLocal, [int (the (st_store (assign_local name T) name))])] @ expr_code sd G (st_store (assign_local name T)) (a + 2) k e @
    [(OpIntBin, [int (BinaryOperator_iota Div)]), (OpSetLocal, [int (the (st_store (assign_local name T) name))])]"
  by (simp add: assign_code_def Let_def)

end
