(* ===== verification/StaticChecks.thy ===== *)
theory StaticChecks
  imports Divergences
begin

text \<open>
  The static check (\<open>internal/core/static_check.go\<close>) of the names of a module: \<open>checkLocalVarDecls\<close>, \<open>checkAssignment\<close>,
  \<open>checkIdentifier\<close> and \<open>checkVariable\<close>, called by the depth-first walk of the syntax tree (\<open>Walk\<close> of \<open>internal/parse/ast.go\<close>) on the
  expressions and statements of the theory TreeWalk. The scope of every local variable is the whole module. A checked module
  compiles, and the two interpreters agree on it.
\<close>

section \<open>The checker\<close>

datatype check_error =
  NameIsTooLong string
| VarIsNotDeclared string
| LocalVarIsNotDeclared string
| VarConstNotDeclared
| CannotShadowGlobalVariable string
| InvalidLocalVarDeclAlreadyDeclared string
| InvalidVariableAssignmentVarDoesNotExist string
| AnonymousVarCannotBeAssigned

definition MAX_NAME_BYTE_LEN :: nat where
  "MAX_NAME_BYTE_LEN = 64"

text \<open>The names of the globals and of the locals of the module, and the errors in the order in which they were added.\<close>

record checker =
  ck_globalVars :: "string set"
  ck_localVars :: "string set"
  ck_errors :: "check_error list"

definition addError :: "check_error \<Rightarrow> checker \<Rightarrow> checker" where
  "addError e c = c\<lparr>ck_errors := ck_errors c @ [e]\<rparr>"

definition varExists :: "string \<Rightarrow> checker \<Rightarrow> bool" where
  "varExists name c \<longleftrightarrow> name \<in> ck_localVars c \<or> name \<in> ck_globalVars c"

definition checkIdentifier :: "string \<Rightarrow> checker \<Rightarrow> checker" where
  "checkIdentifier name c =
    (if length name > MAX_NAME_BYTE_LEN then addError (NameIsTooLong name) c
     else if \<not> varExists name c then
       addError (if name = ''const'' then VarConstNotDeclared else VarIsNotDeclared name) c
     else c)"

definition checkVariable :: "string \<Rightarrow> checker \<Rightarrow> checker" where
  "checkVariable name c =
    (if length name > MAX_NAME_BYTE_LEN then addError (NameIsTooLong name) c
     else if name = '''' then c
     else if name \<notin> ck_localVars c then addError (LocalVarIsNotDeclared name) c
     else c)"

text \<open>The names of a declaration are declared in order, up to the first error.\<close>

fun checkLocalVarDecls :: "string list \<Rightarrow> checker \<Rightarrow> checker" where
  "checkLocalVarDecls [] c = c"
| "checkLocalVarDecls (name # names) c =
    (if name \<in> ck_globalVars c then addError (CannotShadowGlobalVariable name) c
     else if name \<in> ck_localVars c then addError (InvalidLocalVarDeclAlreadyDeclared name) c
     else checkLocalVarDecls names (c\<lparr>ck_localVars := insert name (ck_localVars c)\<rparr>))"

definition checkAssignment :: "AssignmentOperator \<Rightarrow> assignee \<Rightarrow> checker \<Rightarrow> checker" where
  "checkAssignment operator left c =
    (let name = GetVariableName left in
     if left = VariableLeft '''' then addError AnonymousVarCannotBeAssigned c
     else if name \<in> ck_globalVars c then addError (CannotShadowGlobalVariable name) c
     else
       (let c1 = (if name \<notin> ck_localVars c \<and> operator \<noteq> Assign
                  then addError (InvalidVariableAssignmentVarDoesNotExist name) c else c)
        in c1\<lparr>ck_localVars := insert name (ck_localVars c1)\<rparr>))"

section \<open>The walk\<close>

fun check_expr :: "expr \<Rightarrow> checker \<Rightarrow> checker" where
  "check_expr (IdentifierLiteral _ name) c = checkIdentifier name c"
| "check_expr (Variable _ name) c = checkVariable name c"
| "check_expr (UnaryExpression _ _ e) c = check_expr e c"
| "check_expr (BinaryExpression _ _ l r) c = check_expr r (check_expr l c)"
| "check_expr (IfExpression _ t e alt) c =
     (let c1 = check_expr e (check_expr t c) in case alt of Some a \<Rightarrow> check_expr a c1 | None \<Rightarrow> c1)"
| "check_expr _ c = c"

fun check_left :: "assignee \<Rightarrow> checker \<Rightarrow> checker" where
  "check_left (IdentifierLeft name) c = checkIdentifier name c"
| "check_left (VariableLeft name) c = checkVariable name c"

fun check_decls :: "(string \<times> expr) list \<Rightarrow> checker \<Rightarrow> checker" where
  "check_decls [] c = c"
| "check_decls ((name, e) # ds) c = check_decls ds (check_expr e (checkIdentifier name c))"

fun check_values :: "expr list \<Rightarrow> checker \<Rightarrow> checker" where
  "check_values [] c = c"
| "check_values (e # es) c = check_values es (check_expr e c)"

fun check_stmt :: "stmt \<Rightarrow> checker \<Rightarrow> checker"
  and check_block :: "stmt list \<Rightarrow> checker \<Rightarrow> checker"
  and check_cases :: "(expr list \<times> stmt) list \<Rightarrow> checker \<Rightarrow> checker"
where
  "check_stmt (ExprStatement e) c = check_expr e c"
| "check_stmt (LocalVariableDeclarations _ ds) c = check_decls ds (checkLocalVarDecls (map fst ds) c)"
| "check_stmt (Assignment _ operator left e) c = check_expr e (check_left left (checkAssignment operator left c))"
| "check_stmt (IfStatement _ t s alt) c =
     (let c1 = check_stmt s (check_expr t c) in case alt of Some a \<Rightarrow> check_stmt a c1 | None \<Rightarrow> c1)"
| "check_stmt (SwitchStatement _ d cs defs) c = check_block defs (check_cases cs (check_expr d c))"
| "check_stmt (Block _ ss) c = check_block ss c"
| "check_stmt (ReturnStatement _ None) c = c"
| "check_stmt (ReturnStatement _ (Some e)) c = check_expr e c"
| "check_block [] c = c"
| "check_block (s # ss) c = check_block ss (check_stmt s c)"
| "check_cases [] c = c"
| "check_cases ((vs, b) # cs) c = check_cases cs (check_stmt b (check_values vs c))"

text \<open>The errors of a module with the given global variables.\<close>

definition StaticCheck :: "string set \<Rightarrow> stmt list \<Rightarrow> check_error list" where
  "StaticCheck globals stmts = ck_errors (check_block stmts \<lparr>ck_globalVars = globals, ck_localVars = {}, ck_errors = []\<rparr>)"

section \<open>Errors are never removed\<close>

named_theorems check_defs \<open>definitions of the checks of single nodes\<close>

declare addError_def [check_defs] checkIdentifier_def [check_defs] checkVariable_def [check_defs] checkAssignment_def [check_defs] Let_def [check_defs]

abbreviation error_count :: "checker \<Rightarrow> nat" where
  "error_count c \<equiv> length (ck_errors c)"

lemma node_keeps [simp]:
  "ck_localVars (checkIdentifier name c) = ck_localVars c" "ck_globalVars (checkIdentifier name c) = ck_globalVars c"
  "ck_localVars (checkVariable name c) = ck_localVars c" "ck_globalVars (checkVariable name c) = ck_globalVars c"
  "ck_localVars (check_left left c) = ck_localVars c" "ck_globalVars (check_left left c) = ck_globalVars c"
  "ck_globalVars (checkLocalVarDecls names c) = ck_globalVars c" "ck_globalVars (checkAssignment operator left c) = ck_globalVars c"
proof -
  show "ck_globalVars (checkLocalVarDecls names c) = ck_globalVars c"
    by (induction names c rule: checkLocalVarDecls.induct) (auto simp: addError_def)
qed (cases left; simp add: check_defs)+

lemma node_errors:
  "n \<le> error_count c \<Longrightarrow> n \<le> error_count (checkIdentifier name c)" "n \<le> error_count c \<Longrightarrow> n \<le> error_count (checkVariable name c)"
  "n \<le> error_count c \<Longrightarrow> n \<le> error_count (check_left left c)" "n \<le> error_count c \<Longrightarrow> n \<le> error_count (checkLocalVarDecls names c)"
  "n \<le> error_count c \<Longrightarrow> n \<le> error_count (checkAssignment operator left c)"
proof -
  show "n \<le> error_count c \<Longrightarrow> n \<le> error_count (checkLocalVarDecls names c)"
    by (induction names c rule: checkLocalVarDecls.induct) (auto simp: addError_def)
qed (cases left; simp add: check_defs)+

lemma expr_keeps [simp]:
  "ck_localVars (check_expr e c) = ck_localVars c" "ck_globalVars (check_expr e c) = ck_globalVars c"
  by (induction e c rule: check_expr.induct) (simp_all add: Let_def split: option.splits)

lemma expr_errors: "n \<le> error_count c \<Longrightarrow> n \<le> error_count (check_expr e c)"
  by (induction e c rule: check_expr.induct) (auto simp: Let_def intro: node_errors split: option.splits)

lemma decls_keeps [simp]:
  "ck_localVars (check_decls ds c) = ck_localVars c" "ck_globalVars (check_decls ds c) = ck_globalVars c"
  by (induction ds c rule: check_decls.induct) simp_all

lemma decls_errors: "n \<le> error_count c \<Longrightarrow> n \<le> error_count (check_decls ds c)"
  by (induction ds c rule: check_decls.induct) (auto intro: node_errors expr_errors)

lemma values_keeps [simp]:
  "ck_localVars (check_values es c) = ck_localVars c" "ck_globalVars (check_values es c) = ck_globalVars c"
  by (induction es c rule: check_values.induct) simp_all

lemma values_errors: "n \<le> error_count c \<Longrightarrow> n \<le> error_count (check_values es c)"
  by (induction es c rule: check_values.induct) (auto intro: expr_errors)

lemmas error_monotone = node_errors expr_errors decls_errors values_errors

lemma stmt_errors:
  "n \<le> error_count c \<Longrightarrow> n \<le> error_count (check_stmt s c)" "n \<le> error_count c \<Longrightarrow> n \<le> error_count (check_block ss c)"
  "n \<le> error_count c \<Longrightarrow> n \<le> error_count (check_cases cs c)"
  by (induction s c and ss c and cs c rule: check_stmt_check_block_check_cases.induct)
    (auto simp: Let_def intro: error_monotone split: option.splits)

lemma no_error:
  "ck_errors (check_expr e c) = [] \<Longrightarrow> ck_errors c = []" "ck_errors (check_decls ds c) = [] \<Longrightarrow> ck_errors c = []"
  "ck_errors (check_left left c) = [] \<Longrightarrow> ck_errors c = []" "ck_errors (check_values es c) = [] \<Longrightarrow> ck_errors c = []"
  "ck_errors (checkIdentifier name c) = [] \<Longrightarrow> ck_errors c = []"
  "ck_errors (check_stmt s c) = [] \<Longrightarrow> ck_errors c = []" "ck_errors (check_block ss c) = [] \<Longrightarrow> ck_errors c = []"
  "ck_errors (check_cases cs c) = [] \<Longrightarrow> ck_errors c = []"
  using expr_errors[OF order_refl, of c e] decls_errors[OF order_refl, of c ds] node_errors(1)[OF order_refl, of c name]
    node_errors(3)[OF order_refl, of c left]
    values_errors[OF order_refl, of c es] stmt_errors(1)[OF order_refl, of c s] stmt_errors(2)[OF order_refl, of c ss]
    stmt_errors(3)[OF order_refl, of c cs]
  by simp_all

section \<open>Supported programs\<close>

text \<open>
  The symbolic evaluation knows that the left operand of an arithmetic operator is an integer or a float; the anonymous variable
  is not used. No declaration refers to a later one of the same group, \<open>/=\<close> is not used, every switch has cases with one literal
  value each and at most one default case.
\<close>

fun supported_expr :: "symbolic_data \<Rightarrow> expr \<Rightarrow> bool" where
  "supported_expr sd (Variable _ name) \<longleftrightarrow> name \<noteq> ''''"
| "supported_expr sd (UnaryExpression _ _ e) \<longleftrightarrow> supported_expr sd e"
| "supported_expr sd (BinaryExpression _ operator l r) \<longleftrightarrow>
     supported_expr sd l \<and> supported_expr sd r \<and> (if is_arithmetic operator then sd l \<in> {Some SymbolicInt, Some SymbolicFloat} else True)"
| "supported_expr sd (IfExpression _ t c alt) \<longleftrightarrow>
     supported_expr sd t \<and> supported_expr sd c \<and> (case alt of Some e \<Rightarrow> supported_expr sd e | None \<Rightarrow> True)"
| "supported_expr sd _ \<longleftrightarrow> True"

fun expr_names :: "expr \<Rightarrow> string list" where
  "expr_names (IdentifierLiteral _ name) = [name]"
| "expr_names (Variable _ name) = [name]"
| "expr_names (UnaryExpression _ _ e) = expr_names e"
| "expr_names (BinaryExpression _ _ l r) = expr_names l @ expr_names r"
| "expr_names (IfExpression _ t c alt) = expr_names t @ expr_names c @ (case alt of Some e \<Rightarrow> expr_names e | None \<Rightarrow> [])"
| "expr_names _ = []"

fun supported_decls :: "symbolic_data \<Rightarrow> (string \<times> expr) list \<Rightarrow> bool" where
  "supported_decls sd [] \<longleftrightarrow> True"
| "supported_decls sd ((_, e) # ds) \<longleftrightarrow>
     supported_expr sd e \<and> list_all (\<lambda>x. x \<notin> set (map fst ds)) (expr_names e) \<and> supported_decls sd ds"

fun supported_stmt :: "symbolic_data \<Rightarrow> stmt \<Rightarrow> bool"
  and supported_block :: "symbolic_data \<Rightarrow> stmt list \<Rightarrow> bool"
  and supported_cases :: "symbolic_data \<Rightarrow> (expr list \<times> stmt) list \<Rightarrow> bool"
where
  "supported_stmt sd (ExprStatement e) \<longleftrightarrow> supported_expr sd e"
| "supported_stmt sd (LocalVariableDeclarations _ ds) \<longleftrightarrow> supported_decls sd ds"
| "supported_stmt sd (Assignment _ operator _ e) \<longleftrightarrow> operator \<noteq> DivAssign \<and> supported_expr sd e"
| "supported_stmt sd (IfStatement _ t c alt) \<longleftrightarrow>
     supported_expr sd t \<and> supported_stmt sd c \<and> (case alt of Some s \<Rightarrow> supported_stmt sd s | None \<Rightarrow> True)"
| "supported_stmt sd (SwitchStatement _ d cs defs) \<longleftrightarrow>
     cs \<noteq> [] \<and> supported_expr sd d \<and> supported_cases sd cs \<and> length defs \<le> 1 \<and> supported_block sd defs"
| "supported_stmt sd (Block _ ss) \<longleftrightarrow> supported_block sd ss"
| "supported_stmt sd (ReturnStatement _ None) \<longleftrightarrow> True"
| "supported_stmt sd (ReturnStatement _ (Some e)) \<longleftrightarrow> supported_expr sd e"
| "supported_block sd [] \<longleftrightarrow> True"
| "supported_block sd (s # ss) \<longleftrightarrow> supported_stmt sd s \<and> supported_block sd ss"
| "supported_cases sd [] \<longleftrightarrow> True"
| "supported_cases sd ((vs, b) # cs) \<longleftrightarrow> (case vs of [v] \<Rightarrow> case_literal v | _ \<Rightarrow> False) \<and> supported_stmt sd b \<and> supported_cases sd cs"

section \<open>Checked programs resolve\<close>

text \<open>The checker knows the names of the symbol table that the compiler has at the same point.\<close>

definition same_names :: "global_names \<Rightarrow> symbolTable \<Rightarrow> checker \<Rightarrow> bool" where
  "same_names G T c \<longleftrightarrow> ck_globalVars c = {x. G x} \<and> ck_localVars c = dom (st_store T)"

lemma supported_numeric: "supported_expr sd e \<Longrightarrow> numeric sd e"
  by (induction sd e rule: supported_expr.induct) (auto split: option.splits)

lemma checked_names:
  assumes "ck_errors (check_expr e c) = []" and "supported_expr sd e"
  shows "set (expr_names e) \<subseteq> ck_localVars c \<union> ck_globalVars c"
  using assms
proof (induction e c rule: check_expr.induct)
  case (4 sp operator l r c)
  then show ?case using no_error(1)[of r "check_expr l c"] by auto
next
  case (5 sp t e alt c)
  then show ?case
    using no_error(1)[of e "check_expr t c"] no_error(1)[of "the alt" "check_expr e (check_expr t c)"]
    by (cases alt) (auto simp: Let_def)
qed (auto simp: check_defs varExists_def split: if_splits)

lemma resolved_names:
  assumes "set (expr_names e) \<subseteq> dom L \<union> {x. G x}" and "supported_expr sd e"
  shows "resolves sd G L e"
  using assms by (induction sd G L e rule: resolves.induct) (auto split: option.splits if_splits)

lemma checked_expr:
  assumes "ck_errors (check_expr e c) = []" and "supported_expr sd e" and "same_names G T c"
  shows "numeric sd e" "resolves sd G (st_store T) e" "same_names G T (check_expr e c)"
  using checked_names[OF assms(1,2)] resolved_names[OF _ assms(2), of "st_store T" G] supported_numeric[OF assms(2)] assms(3)
  by (auto simp: same_names_def)

lemma table_dom [simp]:
  "dom (st_store (define_local name T)) = insert name (dom (st_store T))"
  "dom (st_store (assign_local name T)) = insert name (dom (st_store T))"
  by (auto simp: define_local_def assign_local_def st_Define_def)

lemma checkLocalVarDecls_accepts:
  assumes "ck_errors (checkLocalVarDecls names c) = []"
  shows "ck_localVars (checkLocalVarDecls names c) = set names \<union> ck_localVars c \<and> distinct names \<and>
    set names \<inter> (ck_globalVars c \<union> ck_localVars c) = {}"
  using assms by (induction names c rule: checkLocalVarDecls.induct) (auto simp: addError_def split: if_splits)

lemma checked_decls:
  assumes "ck_errors (check_decls ds c) = []" and "supported_decls sd ds" and "distinct (map fst ds)"
    and "ck_globalVars c = {x. G x}" and "ck_localVars c = set (map fst ds) \<union> dom (st_store T)"
    and "set (map fst ds) \<inter> ({x. G x} \<union> dom (st_store T)) = {}"
  shows "decls_ok sd G T ds \<and> decls_resolve sd G T ds \<and> dom (st_store (decls_table ds T)) = ck_localVars c"
  using assms
proof (induction ds arbitrary: c T)
  case (Cons d ds)
  obtain name e where d: "d = (name, e)" by fastforce
  let ?T = "define_local name T" and ?c = "check_expr e (checkIdentifier name c)"
  have e: "supported_expr sd e" and later: "set (expr_names e) \<inter> set (map fst ds) = {}"
    using Cons.prems(2) d by (auto simp: list_all_iff)
  have "ck_errors ?c = []" using Cons.prems(1) d no_error(2)[of ds ?c] by simp
  from checked_names[OF this e] have "set (expr_names e) \<subseteq> dom (st_store ?T) \<union> {x. G x}"
    using Cons.prems(4,5) d later by auto
  from resolved_names[OF this e] have r: "resolves sd G (st_store ?T) e" .
  have "decls_ok sd G ?T ds \<and> decls_resolve sd G ?T ds \<and> dom (st_store (decls_table ds ?T)) = ck_localVars ?c"
    by (rule Cons.IH) (use Cons.prems d in auto)
  then show ?case using r supported_numeric[OF e] Cons.prems(6) d by auto
qed simp

lemma checked_assignment:
  assumes "ck_errors (check_left left (checkAssignment operator left c)) = []" and "same_names G T c"
  shows "\<not> G (GetVariableName left)" "same_names G (assign_local (GetVariableName left) T) (check_left left (checkAssignment operator left c))"
  using assms(2) no_error(3)[OF assms(1)] by (cases left; auto simp: same_names_def check_defs split: if_splits)+

lemma checked_values: "case_literal v \<Longrightarrow> check_values [v] c = c" "case_literal v \<Longrightarrow> resolves sd G L v"
  by (cases v; simp)+

text \<open>A checked statement satisfies the conditions of the compiler and of the agreement of the two interpreters.\<close>

lemma checked_stmt:
  "ck_errors (check_stmt s c) = [] \<Longrightarrow> supported_stmt sd s \<Longrightarrow> same_names G T c \<Longrightarrow>
     stmt_ok sd G T s \<and> stmt_resolves sd G T s \<and> same_names G (stmt_table s T) (check_stmt s c)"
  "ck_errors (check_block ss c) = [] \<Longrightarrow> supported_block sd ss \<Longrightarrow> same_names G T c \<Longrightarrow>
     block_ok sd G T ss \<and> block_resolves sd G T ss \<and> same_names G (block_table ss T) (check_block ss c)"
  "ck_errors (check_cases cs c) = [] \<Longrightarrow> supported_cases sd cs \<Longrightarrow> same_names G T c \<Longrightarrow>
     cases_ok sd G T cs \<and> cases_resolve sd G T cs \<and> same_names G (cases_table cs T) (check_cases cs c)"
proof (induction s c and ss c and cs c arbitrary: T and T and T rule: check_stmt_check_block_check_cases.induct)
  case (1 e c)
  then show ?case using checked_expr[of e c sd G T] by simp
next
  case (2 sp ds c)
  let ?c = "checkLocalVarDecls (map fst ds) c"
  have "ck_errors ?c = []" using "2.prems"(1) no_error(2)[of ds ?c] by simp
  note L = checkLocalVarDecls_accepts[OF this]
  show ?case
    using checked_decls[of ds ?c sd G T] L "2.prems" by (auto simp: same_names_def)
next
  case (3 sp operator left e c)
  let ?c = "check_left left (checkAssignment operator left c)"
  have "ck_errors ?c = []" using "3.prems"(1) no_error(1)[of e ?c] by simp
  note A = checked_assignment[OF this "3.prems"(3)]
  show ?case using checked_expr[OF _ _ A(2)] "3.prems" A(1) by auto
next
  case (4 sp t s alt c)
  let ?c1 = "check_expr t c" and ?c2 = "check_stmt s (check_expr t c)"
  have e2: "ck_errors ?c2 = []" using "4.prems"(1) no_error(6)[of "the alt" ?c2] by (cases alt) (simp_all add: Let_def)
  have e1: "ck_errors ?c1 = []" using e2 by (rule no_error)
  note t = checked_expr[OF e1 _ "4.prems"(3), of sd]
  have s: "stmt_ok sd G T s \<and> stmt_resolves sd G T s \<and> same_names G (stmt_table s T) ?c2"
    by (rule "4.IH"(1)[OF e2]) (use "4.prems" t in auto)
  show ?case
  proof (cases alt)
    case None
    then show ?thesis using s t "4.prems"(2) by (simp add: Let_def)
  next
    case (Some a)
    have "stmt_ok sd G (stmt_table s T) a \<and> stmt_resolves sd G (stmt_table s T) a \<and>
        same_names G (stmt_table a (stmt_table s T)) (check_stmt a ?c2)"
      by (rule "4.IH"(2)[OF refl Some]) (use "4.prems" s Some in \<open>auto simp: Let_def\<close>)
    then show ?thesis using s t "4.prems"(2) Some by (simp add: Let_def)
  qed
next
  case (5 sp d cs defs c)
  let ?c1 = "check_expr d c" and ?c2 = "check_cases cs (check_expr d c)"
  have e2: "ck_errors ?c2 = []" using "5.prems"(1) no_error(7)[of defs ?c2] by simp
  have e1: "ck_errors ?c1 = []" using e2 by (rule no_error)
  note d = checked_expr[OF e1 _ "5.prems"(3), of sd]
  have cs: "cases_ok sd G T cs \<and> cases_resolve sd G T cs \<and> same_names G (cases_table cs T) ?c2"
    by (rule "5.IH"(1)[OF e2]) (use "5.prems" d in auto)
  have "block_ok sd G (cases_table cs T) defs \<and> block_resolves sd G (cases_table cs T) defs \<and>
      same_names G (block_table defs (cases_table cs T)) (check_block defs ?c2)"
    by (rule "5.IH"(2)) (use "5.prems" cs in auto)
  then show ?case using cs d "5.prems"(2) by (cases defs) auto
next
  case (8 sp e c)
  then show ?case using checked_expr[of e c sd G T] by simp
next
  case (10 s ss c)
  have e: "ck_errors (check_stmt s c) = []" using "10.prems"(1) no_error(7)[of ss "check_stmt s c"] by simp
  have s: "stmt_ok sd G T s \<and> stmt_resolves sd G T s \<and> same_names G (stmt_table s T) (check_stmt s c)"
    by (rule "10.IH"(1)[OF e]) (use "10.prems" in auto)
  show ?case using "10.IH"(2)[of "stmt_table s T"] "10.prems" s by simp
next
  case (12 vs b cs c)
  then obtain v where v: "vs = [v]" "case_literal v" by (auto split: list.splits)
  let ?c = "check_stmt b c"
  have e: "ck_errors ?c = []" using "12.prems"(1) no_error(8)[of cs ?c] v by (simp add: checked_values del: check_values.simps)
  have b: "stmt_ok sd G T b \<and> stmt_resolves sd G T b \<and> same_names G (stmt_table b T) ?c"
    using "12.IH"(1)[of T] "12.prems" e v by (simp add: checked_values del: check_values.simps)
  show ?case
    using "12.IH"(2)[of "stmt_table b T"] "12.prems" b v by (simp add: checked_values del: check_values.simps)
qed (auto simp: same_names_def)

section \<open>Checked modules\<close>

lemma checked_module:
  assumes "StaticCheck {x. G x} stmts = []" and "supported_block sd stmts"
  shows "block_ok sd G newSymbolTable stmts \<and> block_resolves sd G newSymbolTable stmts"
  using checked_stmt(2)[OF assms(1)[unfolded StaticCheck_def] assms(2), of G newSymbolTable]
  by (simp add: same_names_def newSymbolTable_def)

text \<open>
  (C2) A supported module without errors of the static check compiles, when it has at most 65535 constants and the compiler knows
  the names of exactly the global variables that exist. Supported are the modules without \<open>/=\<close>, without the anonymous variable, with
  at least one case in every switch and one literal value in every case, with numbers as left operands of arithmetic and with
  right sides of declarations that name no later variable of the same declaration. When no switch and no conditional expression in
  statement position leaves a value on the stack, the tree-walking interpreter evaluates the module without error, the code has
  less than 65536 bytes and the locals and temporary values fit the 200 slots of the stack, the virtual machine gives the result
  of the tree-walking interpreter.
\<close>

theorem checked_modules_agree:
  assumes check: "StaticCheck {x. globals x \<noteq> None} stmts = []" and supported: "supported_block sd stmts"
    and g: "\<And>x. (st_Resolve x gtab \<noteq> None) = (globals x \<noteq> None)"
    and few: "length (block_consts (\<lambda>x. globals x \<noteq> None) stmts) \<le> 65535"
  shows "\<exists>m. compileMainChunk sd gtab span stmts = Inr m \<and>
    (\<forall>r. chunk_balanced stmts \<longrightarrow> eval_chunk natural globals stmts = Inr r \<longrightarrow>
       length (cm_code m) < 65536 \<longrightarrow> cm_locals m + chunk_need stmts \<le> VM_STACK_SIZE \<longrightarrow>
       vm_Run natural (newVM m globals) = Some (Result (Some (case r of Some x \<Rightarrow> x | None \<Rightarrow> NilV))))"
proof -
  have G: "(\<lambda>x. globals x \<noteq> None) = (\<lambda>x. st_Resolve x gtab \<noteq> None)" using g by simp
  note ok = checked_module[OF check supported, unfolded G]
  from compileMainChunk_succeeds[OF refl ok[THEN conjunct2] few[unfolded G]]
  obtain m where m: "compileMainChunk sd gtab span stmts = Inr m" by blast
  from module_agrees[OF m _ g ok[THEN conjunct1]] m show ?thesis by blast
qed

theorem checked_modules_agree_witness:
  "StaticCheck {''g''} sample_module = [] \<and>
   (\<exists>m. compileMainChunk (\<lambda>_. Some SymbolicInt) sample_globals (0, 0) sample_module = Inr m \<and>
     vm_Run (\<lambda>_ _. False) (newVM m [''g'' \<mapsto> IntV 3]) = Some (Result (Some (IntV 7))))"
proof -
  have G: "{x. [''g'' \<mapsto> IntV 3] x \<noteq> None} = {''g''}" "(\<lambda>x. [''g'' \<mapsto> IntV 3] x \<noteq> None) = (\<lambda>x. x = ''g'')" by auto
  have s: "StaticCheck {''g''} sample_module = []"
    by (simp add: StaticCheck_def sample_module_def check_defs varExists_def MAX_NAME_BYTE_LEN_def)
  have p: "supported_block (\<lambda>_. Some SymbolicInt) sample_module" "chunk_balanced sample_module" "chunk_need sample_module = 3"
    by (simp_all add: sample_module_def single_case_def chunk_need_def)
  have g: "(st_Resolve x sample_globals \<noteq> None) = ([''g'' \<mapsto> IntV 3] x \<noteq> None)" for x
    using fun_cong[OF sample_globals_only, of x] by simp
  have e: "eval_chunk (\<lambda>_ _. False) [''g'' \<mapsto> IntV 3] sample_module = Inr (Some (IntV 7))"
    by (simp add: sample_module_def eval_chunk_def set_local_def compare_with_def intCompare_def intAdd_def i64_def)
  have c: "compileMainChunk (\<lambda>_. Some SymbolicInt) sample_globals (0, 0) sample_module = Inr m \<Longrightarrow>
      length (cm_code m) = 45 \<and> cm_locals m = 1" for m
    using compileMainChunk_eq[of "\<lambda>_. Some SymbolicInt" sample_globals sample_module "(0, 0)", unfolded sample_globals_only]
    by (auto simp: sample_module_facts) (simp_all add: sample_module_def var_code_def is_arithmetic_def is_logical_def)
  have "length (block_consts (\<lambda>x. [''g'' \<mapsto> IntV 3] x \<noteq> None) sample_module) \<le> 65535"
    unfolding G by (simp add: sample_module_facts)
  from checked_modules_agree[OF s[folded G(1)] p(1) g this, of "(0, 0)" "\<lambda>_ _. False"]
  obtain m where m: "compileMainChunk (\<lambda>_. Some SymbolicInt) sample_globals (0, 0) sample_module = Inr m"
    and run: "length (cm_code m) < 65536 \<longrightarrow> cm_locals m + chunk_need sample_module \<le> VM_STACK_SIZE \<longrightarrow>
      vm_Run (\<lambda>_ _. False) (newVM m [''g'' \<mapsto> IntV 3]) = Some (Result (Some (IntV 7)))"
    using p(2) e by fastforce
  then show ?thesis using s c [OF m] p(3) by (simp add: VM_STACK_SIZE_def)
qed

text \<open>
  The conditions on supported modules are needed: the check accepts a reference to a later name of the same declaration and the
  anonymous variable, and neither compiles.
\<close>

lemma accepted_forward_reference:
  "StaticCheck {} [LocalVariableDeclarations sp [(''a'', IdentifierLiteral sp ''b''), (''b'', IntLiteral sp 1)]] = []"
  "\<nexists>m. compileMainChunk sd newSymbolTable sp [LocalVariableDeclarations sp [(''a'', IdentifierLiteral sp ''b''), (''b'', IntLiteral sp 1)]] = Inr m"
  by (simp_all add: StaticCheck_def check_defs varExists_def MAX_NAME_BYTE_LEN_def compileMainChunk_def newCompiler_def CompileVar_def
      c_Define_def st_Define_def newSymbolTable_def st_Resolve_def)

lemma accepted_anonymous_variable:
  "StaticCheck {} [ExprStatement (Variable sp '''')] = []"
  "\<nexists>m. compileMainChunk sd newSymbolTable sp [ExprStatement (Variable sp '''')] = Inr m"
  by (simp_all add: StaticCheck_def check_defs MAX_NAME_BYTE_LEN_def compileMainChunk_def newCompiler_def CompileVar_def
      newSymbolTable_def st_Resolve_def)

end
