(* ===== verification/Uniqueness.thy ===== *)
theory Uniqueness
  imports Prelude
begin

text \<open>
  The uniqueness constraints of collections and the key of an element (\<open>internal/globals/containers/common/uniqueness.go\<close>). What
  the collections use of a value, the methods of the Go interface \<open>Serializable\<close> and of its extensions, is a record of functions.
  JSON strings are known by their content: the stream that writes and reads them belongs to a package that is not modelled.
\<close>

section \<open>Constraints\<close>

datatype UniquenessConstraint = UniqueRepr | UniqueURL | UniquePropertyValue string | UniqueTransientID

definition URL_UNIQUENESS_NAME :: string where
  "URL_UNIQUENESS_NAME = ''url''"

definition REPR_UNIQUENESS_NAME :: string where
  "REPR_UNIQUENESS_NAME = ''repr''"

definition TRANSIENT_ID_UNIQUENESS_NAME :: string where
  "TRANSIENT_ID_UNIQUENESS_NAME = ''transient-id''"

lemmas uniqueness_names = URL_UNIQUENESS_NAME_def REPR_UNIQUENESS_NAME_def TRANSIENT_ID_UNIQUENESS_NAME_def

text \<open>The values that denote a constraint are identifiers and property names.\<close>

datatype constraint_value = Identifier string | PropertyName string | OtherValue

definition UniquenessConstraintFromValue :: "constraint_value \<Rightarrow> UniquenessConstraint option" where
  "UniquenessConstraintFromValue v =
    (case v of
       Identifier u \<Rightarrow>
         (if u = URL_UNIQUENESS_NAME then Some UniqueURL
          else if u = REPR_UNIQUENESS_NAME then Some UniqueRepr
          else if u = TRANSIENT_ID_UNIQUENESS_NAME then Some UniqueTransientID
          else None)
     | PropertyName u \<Rightarrow> Some (UniquePropertyValue u)
     | OtherValue \<Rightarrow> None)"

fun uc_ToValue :: "UniquenessConstraint \<Rightarrow> constraint_value" where
  "uc_ToValue UniqueRepr = Identifier REPR_UNIQUENESS_NAME"
| "uc_ToValue UniqueURL = Identifier URL_UNIQUENESS_NAME"
| "uc_ToValue UniqueTransientID = Identifier TRANSIENT_ID_UNIQUENESS_NAME"
| "uc_ToValue (UniquePropertyValue name) = PropertyName name"

fun uc_WriteJSONRepresentation :: "UniquenessConstraint \<Rightarrow> string" where
  "uc_WriteJSONRepresentation UniqueRepr = REPR_UNIQUENESS_NAME"
| "uc_WriteJSONRepresentation UniqueURL = URL_UNIQUENESS_NAME"
| "uc_WriteJSONRepresentation (UniquePropertyValue name) = ''.'' @ name"
| "uc_WriteJSONRepresentation UniqueTransientID = TRANSIENT_ID_UNIQUENESS_NAME"

text \<open>Property names are not empty and have only identifier characters (\<open>internal/parse/runes.go\<close>).\<close>

definition isAlpha :: "char \<Rightarrow> bool" where
  "isAlpha r \<longleftrightarrow> of_char r \<in> {97..122 :: nat} \<or> of_char r \<in> {65..90 :: nat}"

definition isDecDigit :: "char \<Rightarrow> bool" where
  "isDecDigit r \<longleftrightarrow> of_char r \<in> {48..57 :: nat}"

definition IsIdentChar :: "char \<Rightarrow> bool" where
  "IsIdentChar r \<longleftrightarrow> isAlpha r \<or> isDecDigit r \<or> r = CHR ''-'' \<or> r = CHR ''_''"

datatype property_name_error = ErrEmptyPropertyName | ErrUnexpectedCharsInPropertyName

definition PropertyName_Validate :: "string \<Rightarrow> property_name_error option" where
  "PropertyName_Validate n =
    (if n = '''' then Some ErrEmptyPropertyName
     else if \<not> list_all IsIdentChar n then Some ErrUnexpectedCharsInPropertyName
     else None)"

text \<open>\<open>next\<close> is the content of the next JSON value when it is a string.\<close>

definition DeserializeNextUniquenessConstraintFromJSON :: "string option \<Rightarrow> UniquenessConstraint option" where
  "DeserializeNextUniquenessConstraintFromJSON next =
    (case next of
       None \<Rightarrow> None
     | Some s \<Rightarrow>
         if s = URL_UNIQUENESS_NAME then Some UniqueURL
         else if s = REPR_UNIQUENESS_NAME then Some UniqueRepr
         else if s = TRANSIENT_ID_UNIQUENESS_NAME then Some UniqueTransientID
         else if length s > 1 \<and> hd s = CHR ''.'' \<and> PropertyName_Validate (tl s) = None
         then Some (UniquePropertyValue (tl s))
         else None)"

section \<open>Keys\<close>

record 'v Serializable =
  sz_IsMutable :: "'v \<Rightarrow> bool"
  sz_JSON :: "'v \<Rightarrow> string option"
  sz_Props :: "'v \<Rightarrow> (string \<rightharpoonup> 'v) option"
  sz_IsUrlHolder :: "'v \<Rightarrow> bool"
  sz_URL :: "'v \<Rightarrow> string option"
  sz_SetURLOnce :: "'v \<Rightarrow> string \<Rightarrow> 'v option"
  sz_ShareOrClone :: "'v \<Rightarrow> 'v option"

text \<open>What the containers use of URLs: whether one is in the directory of another, the URL of a new element, and ULIDs.\<close>

record url_functions =
  uf_isDirOf :: "string \<Rightarrow> string \<Rightarrow> bool"
  uf_newElementURL :: "string \<Rightarrow> string"
  uf_validULID :: "string \<Rightarrow> bool"

datatype coll_error =
    ErrTransientIDHasNoKey
  | ErrReprOfMutableValueCanChange
  | ErrRepresentation
  | ErrFailedGetUniqueKeyNoURL
  | ErrFailedGetUniqueKeyNoProps
  | ErrFailedGetUniqueKeyPropMissing
  | ErrElementsShouldBeURLHolders
  | ErrContainerShouldHaveURL
  | ErrCannotAddURLToElemOfOtherContainer
  | ErrSetURL
  | ErrUnreachable
  | ErrInvalidInitialValue
  | ErrFailedToLoadNonExistingValue
  | ErrInitialSetHasURL
  | ErrParseElement
  | ErrElementNotWatchable
  | ErrIndexOutOfRange
  | ErrValueNotSharableNorClonable
  | ErrValueDoesMatchElementPattern
  | ErrValueWithSameKeyAlreadyPresent
  | ErrURLUniquenessOnlySupportedIfPersistedSharedSet
  | ErrCannotAddDifferentElemWithSamePropertyValue
  | ErrPropertyUsedForUniquenessNoPresentInPattern
  | ErrKeyDoesMatchKeyPattern
  | ErrValueDoesMatchValuePattern
  | ErrEntryAlreadyExists
  | ErrMapEntryListShouldHaveEvenLength
  | ErrReadonlyTransaction
  | ErrIsolation
  | ErrPersistence
  | ErrCollectionElemNotFound
  | ErrEntryTypeNotImplemented

fun CutPrefix :: "string \<Rightarrow> string \<Rightarrow> string option" where
  "CutPrefix s [] = Some s"
| "CutPrefix [] (_ # _) = None"
| "CutPrefix (c # s) (d # p) = (if c = d then CutPrefix s p else None)"

text \<open>The JSON representation of a value, or the panic of the call that writes it.\<close>

definition key_of_repr :: "'v Serializable \<Rightarrow> 'v \<Rightarrow> coll_error + string" where
  "key_of_repr sz v = (case sz_JSON sz v of Some s \<Rightarrow> Inr s | None \<Rightarrow> Inl ErrRepresentation)"

definition key_of_URL :: "url_functions \<Rightarrow> string option \<Rightarrow> string option \<Rightarrow> coll_error + string" where
  "key_of_URL uf containerURL url =
    (case url of
       None \<Rightarrow> Inl ErrFailedGetUniqueKeyNoURL
     | Some elementURL \<Rightarrow>
         (case containerURL of
            None \<Rightarrow> Inl ErrUnreachable
          | Some c \<Rightarrow>
              (case CutPrefix elementURL c of
                 None \<Rightarrow> Inl ErrUnreachable
               | Some [] \<Rightarrow> Inl ErrIndexOutOfRange
               | Some (x # xs) \<Rightarrow>
                   (let key = (if x = CHR ''/'' then xs else x # xs)
                    in if uf_validULID uf key then Inr key else Inl ErrUnreachable))))"

fun GetUniqueKey :: "'v Serializable \<Rightarrow> url_functions \<Rightarrow> UniquenessConstraint \<Rightarrow> string option \<Rightarrow> 'v \<Rightarrow> coll_error + string" where
  "GetUniqueKey sz uf UniqueTransientID containerURL v = Inl ErrTransientIDHasNoKey"
| "GetUniqueKey sz uf UniqueRepr containerURL v =
    (if sz_IsMutable sz v then Inl ErrReprOfMutableValueCanChange else key_of_repr sz v)"
| "GetUniqueKey sz uf UniqueURL containerURL v = key_of_URL uf containerURL (sz_URL sz v)"
| "GetUniqueKey sz uf (UniquePropertyValue name) containerURL v =
    (case sz_Props sz v of
       None \<Rightarrow> Inl ErrFailedGetUniqueKeyNoProps
     | Some props \<Rightarrow>
         (case props name of
            None \<Rightarrow> Inl ErrFailedGetUniqueKeyPropMissing
          | Some propVal \<Rightarrow> key_of_repr sz propVal))"

text \<open>The element that is added: with URL uniqueness it gets a URL in the directory of the container unless it has one.\<close>

definition AddUrlIfNecessary :: "'v Serializable \<Rightarrow> url_functions \<Rightarrow> UniquenessConstraint \<Rightarrow> string option \<Rightarrow> 'v \<Rightarrow> coll_error + 'v" where
  "AddUrlIfNecessary sz uf c containerURL element =
    (if c \<noteq> UniqueURL then Inr element
     else if \<not> sz_IsUrlHolder sz element then Inl ErrElementsShouldBeURLHolders
     else (case containerURL of
             None \<Rightarrow> Inl ErrContainerShouldHaveURL
           | Some curl \<Rightarrow>
               (case sz_URL sz element of
                  Some u \<Rightarrow> if uf_isDirOf uf curl u then Inr element else Inl ErrCannotAddURLToElemOfOtherContainer
                | None \<Rightarrow>
                    (case sz_SetURLOnce sz element (uf_newElementURL uf curl) of
                       None \<Rightarrow> Inl ErrSetURL
                     | Some e \<Rightarrow> Inr e))))"

section \<open>Round trips\<close>

lemma constraint_value_roundtrip: "UniquenessConstraintFromValue (uc_ToValue c) = Some c"
  by (cases c) (simp_all add: UniquenessConstraintFromValue_def uniqueness_names)

lemma constraint_value_only: "UniquenessConstraintFromValue v = Some c \<Longrightarrow> uc_ToValue c = v"
  by (auto simp: UniquenessConstraintFromValue_def split: constraint_value.splits if_splits)

text \<open>A name with a dot in front is none of the three identifiers.\<close>

lemma constraint_json_roundtrip:
  "DeserializeNextUniquenessConstraintFromJSON (Some (uc_WriteJSONRepresentation c)) = Some c \<longleftrightarrow>
   (\<forall>name. c = UniquePropertyValue name \<longrightarrow> PropertyName_Validate name = None)"
  by (cases c) (auto simp: DeserializeNextUniquenessConstraintFromJSON_def uniqueness_names PropertyName_Validate_def)

lemma constraint_json_only:
  "DeserializeNextUniquenessConstraintFromJSON (Some s) = Some c \<Longrightarrow> uc_WriteJSONRepresentation c = s"
  by (cases s) (auto simp: DeserializeNextUniquenessConstraintFromJSON_def split: if_splits)

lemma CutPrefix_iff: "CutPrefix s p = Some r \<longleftrightarrow> s = p @ r"
  by (induction s p rule: CutPrefix.induct) auto

end
