(* ===== verification/TxCollections.thy ===== *)
theory TxCollections
  imports TxIsolation "HOL-Library.Finite_Map"
begin

text \<open>
  The contract between a shared collection and transactions. Every call first waits with the strong isolator of the collection
  (\<open>internal/core/transaction_isolation.go\<close>), the changes of a transaction are pending until the end callback that the collection has
  registered is called, and calls without transaction take effect at once. The locale states what a collection promises of single
  calls; its theorem is about every interleaving of whole calls: the collection always holds the result of the direct calls and of the
  committed transactions, one after the other. A call, or an end callback, is one step. The code does not exclude that another call, or the end of
  the transaction, comes between the wait of a call, its change and its write to the storage; such overlaps are not covered.
\<close>

section \<open>Interleavings\<close>

text \<open>
  The log has the operations that took effect, in order, and \<open>opened\<close> those of the transaction that is running. Both are
  recorded for the specification only.
\<close>

record ('s, 'op) tx_world =
  tw_coll :: 's
  tw_iso :: StrongTransactionIsolator
  tw_fin :: "TxId set"
  tw_log :: "'op list"
  tw_opened :: "'op list"

text \<open>
  A call is one step once the isolator lets it pass: directly, or after the readonly transactions that it had to wait for. Any other
  pass of the wait function changes the isolator only. When a transaction ends, its end callback is called, then it is finished.
\<close>

inductive tx_reachable :: "(TxId \<Rightarrow> bool) \<Rightarrow> (TxId option \<Rightarrow> 'op \<Rightarrow> 's \<Rightarrow> bool \<times> 's) \<Rightarrow> (bool \<Rightarrow> 's \<Rightarrow> 's) \<Rightarrow> ('s \<Rightarrow> TxId set) \<Rightarrow>
    ('op list \<Rightarrow> 'op \<Rightarrow> bool) \<Rightarrow> 's \<Rightarrow> ('s, 'op) tx_world \<Rightarrow> bool"
  for readonly perform finish registered admissible s0 where
  tr_init: "tx_reachable readonly perform finish registered admissible s0
    \<lparr>tw_coll = s0, tw_iso = new_strong_isolator, tw_fin = {}, tw_log = [], tw_opened = []\<rparr>"
| tr_direct: "tx_reachable readonly perform finish registered admissible s0 w \<Longrightarrow>
    strong_attempt readonly (tw_fin w) None False depth (tw_iso w) = (Returns None, i) \<Longrightarrow>
    perform None op (tw_coll w) = (ok, s') \<Longrightarrow>
    tx_reachable readonly perform finish registered admissible s0
      (w\<lparr>tw_coll := s', tw_iso := i, tw_log := (if ok then tw_log w @ [op] else tw_log w)\<rparr>)"
| tr_call: "tx_reachable readonly perform finish registered admissible s0 w \<Longrightarrow> t \<notin> tw_fin w \<Longrightarrow>
    strong_attempt readonly (tw_fin w) (Some t) False depth (tw_iso w) = (Returns (Some t), i) \<Longrightarrow>
    admissible (tw_opened w) op \<Longrightarrow> perform (Some t) op (tw_coll w) = (ok, s') \<Longrightarrow>
    tx_reachable readonly perform finish registered admissible s0
      (w\<lparr>tw_coll := s', tw_iso := i, tw_opened := (if ok then tw_opened w @ [op] else tw_opened w)\<rparr>)"
| tr_granted: "tx_reachable readonly perform finish registered admissible s0 w \<Longrightarrow> t \<notin> tw_fin w \<Longrightarrow>
    currentWriteTx (tw_iso w) = Some t \<Longrightarrow>
    admissible (tw_opened w) op \<Longrightarrow> perform (Some t) op (tw_coll w) = (ok, s') \<Longrightarrow>
    tx_reachable readonly perform finish registered admissible s0
      (w\<lparr>tw_coll := s', tw_opened := (if ok then tw_opened w @ [op] else tw_opened w)\<rparr>)"
| tr_wait: "tx_reachable readonly perform finish registered admissible s0 w \<Longrightarrow>
    strong_attempt readonly (tw_fin w) otx False depth (tw_iso w) = (v, i) \<Longrightarrow>
    tx_reachable readonly perform finish registered admissible s0 (w\<lparr>tw_iso := i\<rparr>)"
| tr_end: "tx_reachable readonly perform finish registered admissible s0 w \<Longrightarrow> t \<notin> tw_fin w \<Longrightarrow>
    tx_reachable readonly perform finish registered admissible s0
      (if t \<in> registered (tw_coll w)
       then w\<lparr>tw_coll := finish success (tw_coll w), tw_fin := insert t (tw_fin w),
              tw_log := (if success then tw_log w @ tw_opened w else tw_log w), tw_opened := []\<rparr>
       else w\<lparr>tw_fin := insert t (tw_fin w)\<rparr>)"

section \<open>What one pass of the isolator does to the current writer\<close>

lemma attempt_keeps_writer:
  assumes "strong_attempt readonly fin otx req depth isol = (v, i)" and "currentWriteTx isol = Some c" and "c \<notin> fin"
  shows "currentWriteTx i = Some c"
  using assms
  by (auto simp: strong_attempt_def clear_finished_def Let_def split: if_splits option.splits)

lemma attempt_writer_not_readonly:
  assumes "strong_attempt readonly fin otx req depth isol = (v, i)" and "\<And>t. currentWriteTx isol = Some t \<Longrightarrow> \<not> readonly t"
    and "currentWriteTx i = Some t"
  shows "\<not> readonly t"
  using assms
  by (auto simp: strong_attempt_def clear_finished_def Let_def split: if_splits option.splits)

lemma attempt_returns:
  assumes "strong_attempt readonly fin (Some t) req depth isol = (Returns (Some t), i)" and "\<not> readonly t"
  shows "currentWriteTx i = Some t"
  using assms
  by (auto simp: strong_attempt_def clear_finished_def Let_def split: if_splits option.splits)

lemma attempt_returns_nil:
  assumes "strong_attempt readonly fin None req depth isol = (Returns None, i)"
  shows "currentWriteTx isol = None \<or> (\<exists>c \<in> fin. currentWriteTx isol = Some c)"
  using assms
  by (auto simp: strong_attempt_def clear_finished_def Let_def split: if_splits option.splits)

section \<open>Finite maps\<close>

text \<open>The pending inclusions and removals are applied one after the other.\<close>

lemma lookup_include_all:
  assumes "distinct (map fst kvs)"
  shows "fmlookup (fold (\<lambda>(key, value) m. fmupd key value m) kvs m) k = (case map_of kvs k of Some v \<Rightarrow> Some v | None \<Rightarrow> fmlookup m k)"
  using assms by (induction kvs arbitrary: m) (auto split: option.splits dest: map_of_SomeD simp: image_iff)

lemma lookup_remove_all: "fmlookup (fold fmdrop ks m) k = (if k \<in> set ks then None else fmlookup m k)"
  by (induction ks arbitrary: m) auto

text \<open>An inclusion that is recorded unless the key has one, which must then be the same.\<close>

lemma map_of_include:
  assumes "distinct (map fst xs)" and "\<And>w. (k, w) \<in> set xs \<Longrightarrow> w = v"
  shows "map_of (if list_ex (\<lambda>(k', _). k' = k) xs then xs else xs @ [(k, v)]) = (map_of xs)(k \<mapsto> v)"
proof (cases "list_ex (\<lambda>(k', _). k' = k) xs")
  case True
  then obtain w where "(k, w) \<in> set xs" by (auto simp: list_ex_iff)
  then have "map_of xs k = Some v" using assms by auto
  then show ?thesis using True by (simp add: map_upd_triv)
next
  case False
  then have "map_of xs k = None" by (auto simp: map_of_eq_None_iff list_ex_iff)
  then show ?thesis using False by (auto simp: map_add_def fun_eq_iff split: option.splits)
qed

section \<open>The contract\<close>

locale tx_collection =
  fixes readonly :: "TxId \<Rightarrow> bool"
    and perform :: "TxId option \<Rightarrow> 'op \<Rightarrow> 's \<Rightarrow> bool \<times> 's"
    and finish :: "bool \<Rightarrow> 's \<Rightarrow> 's"
    and registered :: "'s \<Rightarrow> TxId set"
    and admissible :: "'op list \<Rightarrow> 'op \<Rightarrow> bool"
    and committed view :: "'s \<Rightarrow> 'm"
    and stored :: "'s \<Rightarrow> 'm option"
    and effect :: "'op \<Rightarrow> 'm \<Rightarrow> 'm"
    and inv :: "'op list \<Rightarrow> 's \<Rightarrow> bool"
  assumes view_clean: "inv [] s \<Longrightarrow> view s = committed s"
    and stored_committed: "inv ops s \<Longrightarrow> stored s = None \<or> stored s = Some (committed s)"
    and perform_direct: "inv [] s \<Longrightarrow> perform None op s = (ok, s') \<Longrightarrow>
      inv [] s' \<and> committed s' = (if ok then effect op (committed s) else committed s) \<and> registered s' = registered s"
    and perform_tx: "inv ops s \<Longrightarrow> \<not> readonly t \<Longrightarrow> admissible ops op \<Longrightarrow> perform (Some t) op s = (ok, s') \<Longrightarrow>
      inv (if ok then ops @ [op] else ops) s' \<and> committed s' = committed s \<and>
      view s' = (if ok then effect op (view s) else view s) \<and> registered s' = (if ok then insert t (registered s) else registered s)"
    and perform_readonly: "inv ops s \<Longrightarrow> readonly t \<Longrightarrow> perform (Some t) op s = (ok, s') \<Longrightarrow> \<not> ok \<and> s' = s"
    and finish_inv: "inv ops s \<Longrightarrow>
      inv [] (finish success s) \<and> committed (finish success s) = (if success then view s else committed s) \<and>
      registered (finish success s) = registered s"
begin

abbreviation reachable :: "'s \<Rightarrow> ('s, 'op) tx_world \<Rightarrow> bool" where
  "reachable \<equiv> tx_reachable readonly perform finish registered admissible"

definition world_inv :: "'s \<Rightarrow> ('s, 'op) tx_world \<Rightarrow> bool" where
  "world_inv s0 w \<longleftrightarrow> inv (tw_opened w) (tw_coll w) \<and> committed (tw_coll w) = fold effect (tw_log w) (committed s0) \<and>
     view (tw_coll w) = fold effect (tw_opened w) (committed (tw_coll w)) \<and>
     (\<forall>t \<in> registered (tw_coll w). t \<notin> tw_fin w \<longrightarrow> currentWriteTx (tw_iso w) = Some t) \<and>
     (tw_opened w \<noteq> [] \<longrightarrow> (\<exists>t \<in> registered (tw_coll w). t \<notin> tw_fin w)) \<and>
     (\<forall>t. currentWriteTx (tw_iso w) = Some t \<longrightarrow> \<not> readonly t)"

lemma world_inv_direct:
  assumes I: "world_inv s0 w" and a: "strong_attempt readonly (tw_fin w) None False depth (tw_iso w) = (Returns None, i)"
    and p: "perform None op (tw_coll w) = (ok, s')"
  shows "world_inv s0 (w\<lparr>tw_coll := s', tw_iso := i, tw_log := (if ok then tw_log w @ [op] else tw_log w)\<rparr>)"
proof -
  have no: "t \<in> tw_fin w" if "t \<in> registered (tw_coll w)" for t
    using attempt_returns_nil[OF a] I that unfolding world_inv_def by auto
  then have o: "tw_opened w = []" using I unfolding world_inv_def by blast
  then have "inv [] (tw_coll w)" using I unfolding world_inv_def by simp
  from perform_direct[OF this p] have P: "inv [] s'" "registered s' = registered (tw_coll w)"
    "committed s' = (if ok then effect op (committed (tw_coll w)) else committed (tw_coll w))" by simp_all
  show ?thesis
    using I o P no view_clean[OF P(1)] attempt_writer_not_readonly[OF a] unfolding world_inv_def by (auto simp: fold_append)
qed

lemma world_inv_call:
  assumes I: "world_inv s0 w" and t: "t \<notin> tw_fin w" "\<not> readonly t" and i: "currentWriteTx i = Some t"
    and only: "\<And>u. u \<in> registered (tw_coll w) \<Longrightarrow> u \<notin> tw_fin w \<Longrightarrow> u = t"
    and p: "perform (Some t) op (tw_coll w) = (ok, s')" "admissible (tw_opened w) op"
  shows "world_inv s0 (w\<lparr>tw_coll := s', tw_iso := i, tw_opened := (if ok then tw_opened w @ [op] else tw_opened w)\<rparr>)"
proof -
  have "inv (tw_opened w) (tw_coll w)" using I unfolding world_inv_def by simp
  note P = perform_tx[OF this t(2) p(2,1)]
  then show ?thesis using I i t only unfolding world_inv_def by (auto split: if_splits)
qed

lemma world_inv_end:
  assumes I: "world_inv s0 w" and t: "t \<notin> tw_fin w"
  shows "world_inv s0
    (if t \<in> registered (tw_coll w)
     then w\<lparr>tw_coll := finish success (tw_coll w), tw_fin := insert t (tw_fin w),
            tw_log := (if success then tw_log w @ tw_opened w else tw_log w), tw_opened := []\<rparr>
     else w\<lparr>tw_fin := insert t (tw_fin w)\<rparr>)"
proof -
  have "inv (tw_opened w) (tw_coll w)" using I unfolding world_inv_def by simp
  note F = finish_inv[OF this, of success]
  show ?thesis
  proof (cases "t \<in> registered (tw_coll w)")
    case True
    have "inv [] (finish success (tw_coll w))" using F by simp
    from view_clean[OF this] F True I t show ?thesis unfolding world_inv_def by (auto simp: fold_append)
  next
    case False
    with I show ?thesis unfolding world_inv_def by auto
  qed
qed

theorem interleaving_inv:
  assumes "reachable s0 w" and "inv [] s0" and "registered s0 = {}"
  shows "world_inv s0 w"
  using assms(1)
proof (induction rule: tx_reachable.induct)
  case tr_init
  then show ?case using assms(2,3) view_clean[OF assms(2)] by (simp add: world_inv_def new_strong_isolator_def)
next
  case (tr_direct w depth i op ok s')
  show ?case by (rule world_inv_direct[OF tr_direct.IH tr_direct.hyps(2,3)])
next
  case (tr_call w t depth i op ok s')
  have keep: "currentWriteTx i = Some u" if "u \<in> registered (tw_coll w)" "u \<notin> tw_fin w" for u
    using attempt_keeps_writer[OF tr_call.hyps(3) _ that(2)] tr_call.IH that unfolding world_inv_def by blast
  show ?case
  proof (cases "readonly t")
    case True
    have "inv (tw_opened w) (tw_coll w)" using tr_call.IH unfolding world_inv_def by simp
    from perform_readonly[OF this True tr_call.hyps(5)] have "\<not> ok" "s' = tw_coll w" by simp_all
    then show ?thesis
      using tr_call.IH keep attempt_writer_not_readonly[OF tr_call.hyps(3)] unfolding world_inv_def by auto
  next
    case False
    note i = attempt_returns[OF tr_call.hyps(3) False]
    show ?thesis by (rule world_inv_call[OF tr_call.IH tr_call.hyps(2) False i _ tr_call.hyps(5,4)]) (use keep i in fastforce)
  qed
next
  case (tr_granted w t op ok s')
  have "\<not> readonly t" "\<And>u. u \<in> registered (tw_coll w) \<Longrightarrow> u \<notin> tw_fin w \<Longrightarrow> u = t"
    using tr_granted.IH tr_granted.hyps(3) unfolding world_inv_def by auto
  from world_inv_call[OF tr_granted.IH tr_granted.hyps(2) this(1) tr_granted.hyps(3) this(2) tr_granted.hyps(5,4)]
  show ?case by simp
next
  case (tr_wait w otx depth v i)
  then show ?case
    using attempt_keeps_writer[OF tr_wait.hyps(2)] attempt_writer_not_readonly[OF tr_wait.hyps(2)] unfolding world_inv_def by auto
next
  case (tr_end w t success)
  show ?case by (rule world_inv_end[OF tr_end.IH tr_end.hyps(2)])
qed

theorem serializable:
  assumes "reachable s0 w" and "inv [] s0" and "registered s0 = {}"
  shows "committed (tw_coll w) = fold effect (tw_log w) (committed s0)"
    and "view (tw_coll w) = fold effect (tw_opened w) (committed (tw_coll w))"
    and "stored (tw_coll w) = None \<or> stored (tw_coll w) = Some (committed (tw_coll w))"
  using interleaving_inv[OF assms] stored_committed[of "tw_opened w" "tw_coll w"] unfolding world_inv_def by auto

end

end
