(* ===== verification/SetCollections.thy ===== *)
theory SetCollections
  imports Uniqueness TxCollections "HOL-Library.List_Lexorder" "HOL-Library.Char_ord"
begin

text \<open>
  Sets (\<open>internal/globals/containers/setcoll\<close>: \<open>set.go\<close>, \<open>iterator.go\<close> and the persistence of \<open>persistence.go\<close>). The definition of a
  method is its effect when no other call comes between its parts: \<open>Add\<close> waits for other transactions, then changes the fields under
  the lock of the set, then, without transaction, writes the set to the storage after it has released the lock; \<open>Remove\<close> waits, builds the
  key in a buffer that all calls share, then does the rest under the lock. \<open>overlapping_adds_store_stale\<close> shows what an overlap can do. The
  result of \<open>WaitForOtherTxsToTerminate\<close>, the transaction of
  the calling context and the set of readonly transactions are arguments of the methods that use them. The storage holds what was
  last persisted, the finite map of the elements instead of its JSON representation. Mutation callbacks and watchers, and the
  migration of sets, are not modelled.
\<close>

section \<open>State\<close>

record 'v SetConfig =
  sc_Element :: "('v \<Rightarrow> bool) option"
  sc_ElementHasProp :: "string \<Rightarrow> bool"
  sc_Uniqueness :: UniquenessConstraint

record 'v Set =
  set_config :: "'v SetConfig"
  elementByKey :: "(string, 'v) fmap"
  pathKeyToKey :: "(string \<rightharpoonup> string) option"
  isShared :: bool
  transactionsWithSetEndCallback :: "TxId set"
  pendingInclusions :: "(string \<times> 'v) list"
  pendingRemovals :: "string list"
  storage :: "(string, 'v) fmap option"
  set_url :: string

text \<open>The code that the methods call: the methods of values, URLs, path keys, and whether the elements can be written as JSON.\<close>

record 'v coll_env =
  ce_value :: "'v Serializable"
  ce_url :: url_functions
  ce_pathKey :: "string \<Rightarrow> string"
  ce_persistable :: "(string, 'v) fmap \<Rightarrow> bool"

datatype coll_result = Done | Panicked coll_error

definition new_set :: "'v SetConfig \<Rightarrow> 'v Set" where
  "new_set config = \<lparr>set_config = config, elementByKey = fmempty, pathKeyToKey = None, isShared = False,
     transactionsWithSetEndCallback = {}, pendingInclusions = [], pendingRemovals = [], storage = None, set_url = ''''\<rparr>"

definition set_URL :: "'v Set \<Rightarrow> string option" where
  "set_URL s = (if storage s \<noteq> None then Some (set_url s) else None)"

definition uniqueness :: "'v Set \<Rightarrow> UniquenessConstraint" where
  "uniqueness s = sc_Uniqueness (set_config s)"

definition getUniqueKey :: "'v coll_env \<Rightarrow> 'v Set \<Rightarrow> 'v \<Rightarrow> coll_error + string" where
  "getUniqueKey E s v = GetUniqueKey (ce_value E) (ce_url E) (uniqueness s) (set_URL s) v"

definition pattern_accepts :: "('v \<Rightarrow> bool) option \<Rightarrow> 'v \<Rightarrow> bool" where
  "pattern_accepts p v = (case p of None \<Rightarrow> True | Some test \<Rightarrow> test v)"

definition unsupportedURLUniqueness :: "'v Set \<Rightarrow> bool" where
  "unsupportedURLUniqueness s \<longleftrightarrow> uniqueness s = UniqueURL \<and> (\<not> isShared s \<or> storage s = None)"

definition persistSet :: "'v coll_env \<Rightarrow> 'v Set \<Rightarrow> coll_result \<times> 'v Set" where
  "persistSet E s =
    (if ce_persistable E (elementByKey s) then (Done, s\<lparr>storage := Some (elementByKey s)\<rparr>) else (Panicked ErrPersistence, s))"

definition persist_if_stored :: "'v coll_env \<Rightarrow> 'v Set \<Rightarrow> coll_result \<times> 'v Set" where
  "persist_if_stored E s = (if storage s \<noteq> None then persistSet E s else (Done, s))"

section \<open>Reading\<close>

definition getElem :: "string \<Rightarrow> 'v Set \<Rightarrow> 'v option" where
  "getElem key s =
    (if key \<in> set (pendingRemovals s) then None
     else (case fmlookup (elementByKey s) key of
             Some presentElem \<Rightarrow> Some presentElem
           | None \<Rightarrow> map_of (pendingInclusions s) key))"

definition hasNoLock :: "'v coll_env \<Rightarrow> 'v \<Rightarrow> 'v Set \<Rightarrow> coll_error + bool" where
  "hasNoLock E elem s =
    (if \<not> pattern_accepts (sc_Element (set_config s)) elem then Inl ErrValueDoesMatchElementPattern
     else (case getUniqueKey E s elem of
             Inl e \<Rightarrow> Inl e
           | Inr key \<Rightarrow>
               (case getElem key s of
                  None \<Rightarrow> Inr False
                | Some presentElem \<Rightarrow> Inr (uniqueness s = UniqueRepr \<or> presentElem = elem))))"

definition set_Has :: "'v coll_env \<Rightarrow> iso_error + TxId option \<Rightarrow> 'v \<Rightarrow> 'v Set \<Rightarrow> coll_error + bool" where
  "set_Has E waited elem s =
    (if unsupportedURLUniqueness s then Inl ErrURLUniquenessOnlySupportedIfPersistedSharedSet
     else if isShared s then (case waited of Inl _ \<Rightarrow> Inl ErrIsolation | Inr _ \<Rightarrow> hasNoLock E elem s)
     else hasNoLock E elem s)"

definition set_Get :: "iso_error + TxId option \<Rightarrow> string \<Rightarrow> 'v Set \<Rightarrow> coll_error + 'v option" where
  "set_Get waited key s =
    (if unsupportedURLUniqueness s then Inl ErrURLUniquenessOnlySupportedIfPersistedSharedSet
     else if isShared s then (case waited of Inl _ \<Rightarrow> Inl ErrIsolation | Inr _ \<Rightarrow> Inr (getElem key s))
     else Inr (getElem key s))"

definition set_IsEmpty :: "iso_error + TxId option \<Rightarrow> 'v Set \<Rightarrow> coll_error + bool" where
  "set_IsEmpty waited s =
    (if unsupportedURLUniqueness s then Inl ErrURLUniquenessOnlySupportedIfPersistedSharedSet
     else if isShared s \<and> isl waited then Inl ErrIsolation
     else if fBex (fmdom (elementByKey s)) (\<lambda>key. key \<notin> set (pendingRemovals s)) then Inr False
     else if list_ex (\<lambda>(key, _). key \<notin> set (pendingRemovals s)) (pendingInclusions s) then Inr False
     else Inr True)"

definition initPathKeyMap :: "'v coll_env \<Rightarrow> 'v Set \<Rightarrow> 'v Set" where
  "initPathKeyMap E s =
    (case pathKeyToKey s of
       Some _ \<Rightarrow> s
     | None \<Rightarrow> s\<lparr>pathKeyToKey := Some (map_of (map (\<lambda>k. (ce_pathKey E k, k)) (sorted_list_of_fset (fmdom (elementByKey s)))))\<rparr>)"

definition set_GetElementByKey :: "'v coll_env \<Rightarrow> iso_error + TxId option \<Rightarrow> string \<Rightarrow> 'v Set \<Rightarrow> (coll_error + 'v) \<times> 'v Set" where
  "set_GetElementByKey E waited pathKey s =
    (if isShared s \<and> isl waited then (Inl ErrIsolation, s)
     else
       (let s1 = initPathKeyMap E s;
            key = (case the (pathKeyToKey s1) pathKey of Some k \<Rightarrow> k | None \<Rightarrow> '''')
        in case getElem key s1 of
             None \<Rightarrow> (Inl ErrCollectionElemNotFound, s1)
           | Some elem \<Rightarrow> (Inr elem, s1)))"

text \<open>The elements that an iterator visits, in an order that the ranging over a Go map leaves open.\<close>

definition iterator_elements :: "'v Set \<Rightarrow> (string, 'v) fmap" where
  "iterator_elements s =
    fold (\<lambda>(key, value) m. fmupd key value m) (pendingInclusions s) (fold fmdrop (pendingRemovals s) (elementByKey s))"

section \<open>Adding\<close>

fun isPropertyValue :: "UniquenessConstraint \<Rightarrow> bool" where
  "isPropertyValue (UniquePropertyValue _) \<longleftrightarrow> True"
| "isPropertyValue _ \<longleftrightarrow> False"

definition record_path_key :: "'v coll_env \<Rightarrow> string \<Rightarrow> 'v Set \<Rightarrow> 'v Set" where
  "record_path_key E key s =
    (case pathKeyToKey s of None \<Rightarrow> s | Some m \<Rightarrow> s\<lparr>pathKeyToKey := Some (m(ce_pathKey E key \<mapsto> key))\<rparr>)"

definition add_unshared :: "'v coll_env \<Rightarrow> 'v \<Rightarrow> 'v Set \<Rightarrow> coll_result \<times> 'v Set" where
  "add_unshared E elem s =
    (if \<not> pattern_accepts (sc_Element (set_config s)) elem then (Panicked ErrValueDoesMatchElementPattern, s)
     else (case AddUrlIfNecessary (ce_value E) (ce_url E) (uniqueness s) (set_URL s) elem of
             Inl e \<Rightarrow> (Panicked e, s)
           | Inr elem1 \<Rightarrow>
               (case getUniqueKey E s elem1 of
                  Inl e \<Rightarrow> (Panicked e, s)
                | Inr key \<Rightarrow>
                    (case fmlookup (elementByKey s) key of
                       Some presentElem \<Rightarrow>
                         if isPropertyValue (uniqueness s) \<and> elem1 \<noteq> presentElem
                         then (Panicked ErrCannotAddDifferentElemWithSamePropertyValue, s) else (Done, s)
                     | None \<Rightarrow> (Done, record_path_key E key (s\<lparr>elementByKey := fmupd key elem1 (elementByKey s)\<rparr>))))))"

text \<open>The change of a set without transaction, and the pending inclusion of a transaction.\<close>

definition include_now :: "string \<Rightarrow> 'v \<Rightarrow> 'v Set \<Rightarrow> coll_result \<times> 'v Set" where
  "include_now key elem s =
    (case fmlookup (elementByKey s) key of
       Some presentElem \<Rightarrow>
         (Panicked (if isPropertyValue (uniqueness s) \<and> elem \<noteq> presentElem
                    then ErrCannotAddDifferentElemWithSamePropertyValue else ErrValueWithSameKeyAlreadyPresent), s)
     | None \<Rightarrow> (Done, s\<lparr>elementByKey := fmupd key elem (elementByKey s)\<rparr>))"

definition include_pending :: "string \<Rightarrow> 'v \<Rightarrow> 'v Set \<Rightarrow> coll_result \<times> 'v Set" where
  "include_pending key elem s =
    (if (case fmlookup (elementByKey s) key of Some present \<Rightarrow> elem \<noteq> present | None \<Rightarrow> False)
     then (Panicked ErrValueWithSameKeyAlreadyPresent, s)
     else (Done, s\<lparr>pendingRemovals := remove1 key (pendingRemovals s),
                   pendingInclusions := (if list_ex (\<lambda>(k, _). k = key) (pendingInclusions s) then pendingInclusions s
                                         else pendingInclusions s @ [(key, elem)])\<rparr>))"

definition addToSharedSetNoPersist :: "'v coll_env \<Rightarrow> TxId option \<Rightarrow> 'v \<Rightarrow> bool \<Rightarrow> 'v Set \<Rightarrow> coll_result \<times> 'v Set" where
  "addToSharedSetNoPersist E ctxTx elem ignoreTx s =
    (if \<not> pattern_accepts (sc_Element (set_config s)) elem then (Panicked ErrValueDoesMatchElementPattern, s)
     else (case sz_ShareOrClone (ce_value E) elem of
             None \<Rightarrow> (Panicked ErrValueNotSharableNorClonable, s)
           | Some elem1 \<Rightarrow>
               (case AddUrlIfNecessary (ce_value E) (ce_url E) (uniqueness s) (set_URL s) elem1 of
                  Inl e \<Rightarrow> (Panicked e, s)
                | Inr elem2 \<Rightarrow>
                    (case getUniqueKey E s elem2 of
                       Inl e \<Rightarrow> (Panicked e, s)
                     | Inr key \<Rightarrow>
                         (if ctxTx = None \<or> ignoreTx then include_now key elem2 (record_path_key E key s)
                          else include_pending key elem2 (record_path_key E key s))))))"

definition registerEndCallback :: "TxId \<Rightarrow> 'v Set \<Rightarrow> 'v Set" where
  "registerEndCallback t s = s\<lparr>transactionsWithSetEndCallback := insert t (transactionsWithSetEndCallback s)\<rparr>"

definition set_Add :: "'v coll_env \<Rightarrow> (TxId \<Rightarrow> bool) \<Rightarrow> iso_error + TxId option \<Rightarrow> TxId option \<Rightarrow> 'v \<Rightarrow> 'v Set \<Rightarrow> coll_result \<times> 'v Set" where
  "set_Add E readonly waited ctxTx elem s =
    (if unsupportedURLUniqueness s then (Panicked ErrURLUniquenessOnlySupportedIfPersistedSharedSet, s)
     else if \<not> isShared s then add_unshared E elem s
     else (case waited of
             Inl _ \<Rightarrow> (Panicked ErrIsolation, s)
           | Inr tx \<Rightarrow>
               if (case tx of Some t \<Rightarrow> readonly t | None \<Rightarrow> False) then (Panicked ErrReadonlyTransaction, s)
               else (case addToSharedSetNoPersist E ctxTx elem False s of
                       (Panicked e, s1) \<Rightarrow> (Panicked e, s1)
                     | (Done, s1) \<Rightarrow> (case tx of None \<Rightarrow> persist_if_stored E s1 | Some t \<Rightarrow> (Done, registerEndCallback t s1)))))"

section \<open>Removing\<close>

definition remove_unshared :: "'v coll_env \<Rightarrow> 'v \<Rightarrow> 'v Set \<Rightarrow> coll_result \<times> 'v Set" where
  "remove_unshared E elem s =
    (case getUniqueKey E s elem of
       Inl e \<Rightarrow> (Panicked e, s)
     | Inr key \<Rightarrow>
         (case fmlookup (elementByKey s) key of
            None \<Rightarrow> (Done, s)
          | Some presentElem \<Rightarrow>
              if isPropertyValue (uniqueness s) \<and> elem \<noteq> presentElem then (Done, s)
              else (Done, s\<lparr>elementByKey := fmdrop key (elementByKey s)\<rparr>)))"

definition remove_now :: "'v coll_env \<Rightarrow> string \<Rightarrow> 'v \<Rightarrow> 'v Set \<Rightarrow> coll_result \<times> 'v Set" where
  "remove_now E key elem s =
    (case fmlookup (elementByKey s) key of
       None \<Rightarrow> (Done, s)
     | Some presentElem \<Rightarrow>
         if uniqueness s \<noteq> UniqueRepr \<and> presentElem \<noteq> elem then (Done, s)
         else persist_if_stored E (s\<lparr>elementByKey := fmdrop key (elementByKey s)\<rparr>))"

definition remove_pending :: "TxId \<Rightarrow> string \<Rightarrow> 'v Set \<Rightarrow> coll_result \<times> 'v Set" where
  "remove_pending t key s =
    (Done, registerEndCallback t
      (s\<lparr>pendingRemovals := (if key \<in> set (pendingRemovals s) then pendingRemovals s else pendingRemovals s @ [key])\<rparr>))"

definition set_Remove :: "'v coll_env \<Rightarrow> (TxId \<Rightarrow> bool) \<Rightarrow> iso_error + TxId option \<Rightarrow> TxId option \<Rightarrow> 'v \<Rightarrow> 'v Set \<Rightarrow> coll_result \<times> 'v Set" where
  "set_Remove E readonly waited ctxTx elem s =
    (if unsupportedURLUniqueness s then (Panicked ErrURLUniquenessOnlySupportedIfPersistedSharedSet, s)
     else if \<not> isShared s then remove_unshared E elem s
     else if (case ctxTx of Some t \<Rightarrow> readonly t | None \<Rightarrow> False) then (Panicked ErrReadonlyTransaction, s)
     else (case waited of
             Inl _ \<Rightarrow> (Panicked ErrIsolation, s)
           | Inr _ \<Rightarrow>
               (case getUniqueKey E s elem of
                  Inl e \<Rightarrow> (Panicked e, s)
                | Inr key \<Rightarrow> (case ctxTx of None \<Rightarrow> remove_now E key elem s | Some t \<Rightarrow> remove_pending t key s))))"

section \<open>End of a transaction\<close>

text \<open>The function that \<open>makeTransactionEndCallback\<close> returns; the pending changes are dropped whatever happens.\<close>

definition set_transactionEnd :: "'v coll_env \<Rightarrow> bool \<Rightarrow> 'v Set \<Rightarrow> coll_result \<times> 'v Set" where
  "set_transactionEnd E success s =
    (let (res, s1) =
       (if \<not> success then (Done, s)
        else persist_if_stored E
          (s\<lparr>elementByKey := fold fmdrop (pendingRemovals s)
               (fold (\<lambda>(key, value) m. fmupd key value m) (pendingInclusions s) (elementByKey s))\<rparr>))
     in (res, s1\<lparr>pendingInclusions := [], pendingRemovals := []\<rparr>))"

section \<open>Creation and loading\<close>

fun add_all :: "('v \<Rightarrow> 'v Set \<Rightarrow> coll_result \<times> 'v Set) \<Rightarrow> 'v list \<Rightarrow> 'v Set \<Rightarrow> coll_error + 'v Set" where
  "add_all add [] s = Inr s"
| "add_all add (e # es) s = (case add e s of (Panicked err, _) \<Rightarrow> Inl err | (Done, s1) \<Rightarrow> add_all add es s1)"

definition NewSetWithConfig :: "'v coll_env \<Rightarrow> 'v list \<Rightarrow> 'v SetConfig \<Rightarrow> coll_error + 'v Set" where
  "NewSetWithConfig E elements config =
    (case sc_Uniqueness config of
       UniqueTransientID \<Rightarrow> Inl ErrUnreachable
     | UniquePropertyValue name \<Rightarrow>
         if sc_ElementHasProp config name
         then add_all (set_Add E (\<lambda>_. False) (Inr None) None) elements (new_set config)
         else Inl ErrPropertyUsedForUniquenessNoPresentInPattern
     | _ \<Rightarrow> add_all (set_Add E (\<lambda>_. False) (Inr None) None) elements (new_set config))"

definition set_Share :: "'v Set \<Rightarrow> 'v Set" where
  "set_Share s = s\<lparr>isShared := True\<rparr>"

text \<open>
  The loading of a set. What is stored at its path comes with the result of parsing it: the elements in the order of the JSON array, each
  a value or an error of the parser, which is a parameter; \<open>None\<close> when nothing is stored. \<open>watchable\<close> tells the values that can be watched. The
  storage of a loaded set is what was stored, the empty map if nothing was; an initial set keeps its own storage field.
\<close>

datatype 'v initial_value = NoInitialValue | InitialSet "'v Set" | InitialEmptyList | OtherInitialValue

fun load_all :: "'v coll_env \<Rightarrow> ('v \<Rightarrow> bool) \<Rightarrow> TxId option \<Rightarrow> (coll_error + 'v) list \<Rightarrow> 'v Set \<Rightarrow> coll_error + 'v Set" where
  "load_all E watchable ctxTx [] s = Inr s"
| "load_all E watchable ctxTx (Inl err # parsed) s = Inl err"
| "load_all E watchable ctxTx (Inr val # parsed) s =
     (case addToSharedSetNoPersist E ctxTx val True s of
        (Panicked err, _) \<Rightarrow> Inl err
      | (Done, s1) \<Rightarrow>
          if sz_IsMutable (ce_value E) val \<and> \<not> watchable val then Inl ErrElementNotWatchable
          else load_all E watchable ctxTx parsed s1)"

definition load_source :: "bool \<Rightarrow> 'v initial_value \<Rightarrow> (coll_error + 'v) list option \<Rightarrow> coll_error + 'v Set option \<times> (coll_error + 'v) list" where
  "load_source allowMissing initial parsed =
    (case initial of
       InitialSet s \<Rightarrow> Inr (Some s, [])
     | InitialEmptyList \<Rightarrow> Inr (None, [])
     | OtherInitialValue \<Rightarrow> Inl ErrInvalidInitialValue
     | NoInitialValue \<Rightarrow>
         (case parsed of
            Some es \<Rightarrow> Inr (None, es)
          | None \<Rightarrow> if allowMissing then Inr (None, []) else Inl ErrFailedToLoadNonExistingValue))"

definition loadSet :: "'v coll_env \<Rightarrow> ('v \<Rightarrow> bool) \<Rightarrow> TxId option \<Rightarrow> bool \<Rightarrow> string \<Rightarrow> 'v initial_value \<Rightarrow>
    ((string, 'v) fmap \<times> (coll_error + 'v) list) option \<Rightarrow> 'v SetConfig \<Rightarrow> coll_error + 'v Set" where
  "loadSet E watchable ctxTx allowMissing url initial stored config =
    (case load_source allowMissing initial (map_option snd stored) of
       Inl e \<Rightarrow> Inl e
     | Inr (given, parsed) \<Rightarrow>
         (case (case given of
                  Some s \<Rightarrow> Inr s
                | None \<Rightarrow>
                    (case NewSetWithConfig E [] config of
                       Inl e \<Rightarrow> Inl e
                     | Inr s \<Rightarrow> Inr (s\<lparr>storage := Some (case stored of Some (m, _) \<Rightarrow> m | None \<Rightarrow> fmempty)\<rparr>))) of
            Inl e \<Rightarrow> Inl e
          | Inr s \<Rightarrow>
              if set_url s \<noteq> '''' then Inl ErrInitialSetHasURL
              else (case load_all E watchable ctxTx parsed (s\<lparr>set_url := url\<rparr>) of
                      Inl e \<Rightarrow> Inl e
                    | Inr s1 \<Rightarrow> Inr (set_Share s1))))"

section \<open>The transactions of a set with representation uniqueness\<close>

datatype 'v set_op = AddOp 'v | RemoveOp 'v

text \<open>One call, with the transaction that the isolator returned; whether it returned normally.\<close>

fun set_perform :: "'v coll_env \<Rightarrow> (TxId \<Rightarrow> bool) \<Rightarrow> TxId option \<Rightarrow> 'v set_op \<Rightarrow> 'v Set \<Rightarrow> bool \<times> 'v Set" where
  "set_perform E readonly otx (AddOp v) s = (case set_Add E readonly (Inr otx) otx v s of (r, s') \<Rightarrow> (r = Done, s'))"
| "set_perform E readonly otx (RemoveOp v) s = (case set_Remove E readonly (Inr otx) otx v s of (r, s') \<Rightarrow> (r = Done, s'))"

definition set_finish :: "'v coll_env \<Rightarrow> bool \<Rightarrow> 'v Set \<Rightarrow> 'v Set" where
  "set_finish E success s = snd (set_transactionEnd E success s)"

text \<open>
  Immutable values are shared as they are and mutable ones stay mutable, different immutable values have different
  representations, and the elements can be written.
\<close>

definition repr_env :: "'v coll_env \<Rightarrow> bool" where
  "repr_env E \<longleftrightarrow> (\<forall>v. \<not> sz_IsMutable (ce_value E) v \<longrightarrow> sz_ShareOrClone (ce_value E) v = Some v) \<and>
     (\<forall>v w. sz_IsMutable (ce_value E) v \<longrightarrow> sz_ShareOrClone (ce_value E) v = Some w \<longrightarrow> sz_IsMutable (ce_value E) w) \<and>
     (\<forall>v w k. \<not> sz_IsMutable (ce_value E) v \<longrightarrow> \<not> sz_IsMutable (ce_value E) w \<longrightarrow> sz_JSON (ce_value E) v = Some k \<longrightarrow>
        sz_JSON (ce_value E) w = Some k \<longrightarrow> v = w) \<and>
     (\<forall>m. ce_persistable E m)"

definition repr_key :: "'v coll_env \<Rightarrow> 'v \<Rightarrow> coll_error + string" where
  "repr_key E v = (if sz_IsMutable (ce_value E) v then Inl ErrReprOfMutableValueCanChange else key_of_repr (ce_value E) v)"

fun set_effect :: "'v coll_env \<Rightarrow> 'v set_op \<Rightarrow> (string \<rightharpoonup> 'v) \<Rightarrow> (string \<rightharpoonup> 'v)" where
  "set_effect E (AddOp v) m = (case repr_key E v of Inr k \<Rightarrow> m(k \<mapsto> v) | Inl _ \<Rightarrow> m)"
| "set_effect E (RemoveOp v) m = (case repr_key E v of Inr k \<Rightarrow> m(k := None) | Inl _ \<Rightarrow> m)"

definition set_committed :: "'v Set \<Rightarrow> (string \<rightharpoonup> 'v)" where
  "set_committed s = fmlookup (elementByKey s)"

definition set_view :: "'v Set \<Rightarrow> (string \<rightharpoonup> 'v)" where
  "set_view s = (\<lambda>key. getElem key s)"

definition set_stored :: "'v Set \<Rightarrow> (string \<rightharpoonup> 'v) option" where
  "set_stored s = map_option fmlookup (storage s)"

text \<open>
  The invariant: elements are stored under their key, no key is pending twice, and a pending inclusion of an element that is
  already in the set changes nothing.
\<close>

definition set_inv :: "'v coll_env \<Rightarrow> 'v set_op list \<Rightarrow> 'v Set \<Rightarrow> bool" where
  "set_inv E ops s \<longleftrightarrow> repr_env E \<and> isShared s \<and> uniqueness s = UniqueRepr \<and>
     (\<forall>k v. fmlookup (elementByKey s) k = Some v \<longrightarrow> repr_key E v = Inr k) \<and> (\<forall>(k, v) \<in> set (pendingInclusions s). repr_key E v = Inr k) \<and>
     distinct (map fst (pendingInclusions s)) \<and> distinct (pendingRemovals s) \<and>
     (ops = [] \<longrightarrow> pendingInclusions s = [] \<and> pendingRemovals s = []) \<and>
     (storage s = None \<or> storage s = Some (elementByKey s))"

lemma set_invD:
  assumes "set_inv E ops s"
  shows "repr_env E" "isShared s" "uniqueness s = UniqueRepr" "\<not> unsupportedURLUniqueness s"
    "fmlookup (elementByKey s) k = Some v \<Longrightarrow> repr_key E v = Inr k" "(k, v) \<in> set (pendingInclusions s) \<Longrightarrow> repr_key E v = Inr k"
    "distinct (map fst (pendingInclusions s))" "distinct (pendingRemovals s)" "storage s = None \<or> storage s = Some (elementByKey s)"
  using assms unfolding set_inv_def unsupportedURLUniqueness_def by auto

lemma repr_envD:
  assumes "repr_env E"
  shows "\<not> sz_IsMutable (ce_value E) v \<Longrightarrow> sz_ShareOrClone (ce_value E) v = Some v"
    and "sz_IsMutable (ce_value E) v \<Longrightarrow> sz_ShareOrClone (ce_value E) v = Some w \<Longrightarrow> sz_IsMutable (ce_value E) w"
    and "\<not> sz_IsMutable (ce_value E) v \<Longrightarrow> \<not> sz_IsMutable (ce_value E) w \<Longrightarrow> sz_JSON (ce_value E) v = Some k \<Longrightarrow>
      sz_JSON (ce_value E) w = Some k \<Longrightarrow> v = w"
    and "ce_persistable E m"
  using assms unfolding repr_env_def by blast+

lemma repr_key_iff: "repr_key E v = Inr k \<longleftrightarrow> \<not> sz_IsMutable (ce_value E) v \<and> sz_JSON (ce_value E) v = Some k"
  by (simp add: repr_key_def key_of_repr_def split: option.splits)

lemma repr_key_inj: "repr_env E \<Longrightarrow> repr_key E v = Inr k \<Longrightarrow> repr_key E w = Inr k \<Longrightarrow> v = w"
  unfolding repr_key_iff by (elim conjE) (rule repr_envD(3))

lemma repr_key_unique: "uniqueness s = UniqueRepr \<Longrightarrow> getUniqueKey E s v = repr_key E v"
  by (simp add: getUniqueKey_def repr_key_def)

lemma repr_key_shared: "repr_env E \<Longrightarrow> repr_key E v = Inr k \<Longrightarrow> sz_ShareOrClone (ce_value E) v = Some v"
  unfolding repr_key_iff by (elim conjE) (rule repr_envD(1))

lemma persist_repr: "repr_env E \<Longrightarrow> persist_if_stored E s = (Done, s\<lparr>storage := (if storage s = None then None else Some (elementByKey s))\<rparr>)"
  by (simp add: persist_if_stored_def persistSet_def repr_envD(4))

lemma record_path_key_keeps [simp]:
  "set_config (record_path_key E key s) = set_config s" "elementByKey (record_path_key E key s) = elementByKey s"
  "isShared (record_path_key E key s) = isShared s"
  "transactionsWithSetEndCallback (record_path_key E key s) = transactionsWithSetEndCallback s"
  "pendingInclusions (record_path_key E key s) = pendingInclusions s" "pendingRemovals (record_path_key E key s) = pendingRemovals s"
  "storage (record_path_key E key s) = storage s" "set_url (record_path_key E key s) = set_url s"
  "uniqueness (record_path_key E key s) = uniqueness s"
  by (simp_all add: record_path_key_def uniqueness_def split: option.splits)

lemma add_shared_cases:
  assumes I: "set_inv E ops s"
  obtains (panics) e where "addToSharedSetNoPersist E ctxTx v False s = (Panicked e, s)"
  | (adds) k where "repr_key E v = Inr k"
      "addToSharedSetNoPersist E ctxTx v False s =
        (if ctxTx = None then include_now k v (record_path_key E k s) else include_pending k v (record_path_key E k s))"
proof (cases "pattern_accepts (sc_Element (set_config s)) v")
  case True
  note d = addToSharedSetNoPersist_def AddUrlIfNecessary_def repr_key_unique[OF set_invD(3)[OF I]] set_invD(3)[OF I] True
  show ?thesis
  proof (cases "sz_IsMutable (ce_value E) v")
    case True
    then have "\<exists>e. addToSharedSetNoPersist E ctxTx v False s = (Panicked e, s)"
      using repr_envD(2)[OF set_invD(1)[OF I] True] by (cases "sz_ShareOrClone (ce_value E) v") (simp_all add: d repr_key_def)
    then show ?thesis using panics by blast
  next
    case False
    then have "sz_ShareOrClone (ce_value E) v = Some v" by (rule repr_envD(1)[OF set_invD(1)[OF I]])
    then show ?thesis using panics adds by (cases "repr_key E v") (simp_all add: d)
  qed
qed (use panics in \<open>simp add: addToSharedSetNoPersist_def\<close>)

text \<open>A direct call of \<open>Add\<close>: a key that is present is an error, even of the same element.\<close>

lemma add_direct:
  assumes I: "set_inv E [] s" and p: "set_Add E readonly (Inr None) None v s = (r, s')"
  shows "set_inv E [] s' \<and> set_committed s' = (if r = Done then set_effect E (AddOp v) (set_committed s) else set_committed s) \<and>
    transactionsWithSetEndCallback s' = transactionsWithSetEndCallback s"
  using I
proof (cases rule: add_shared_cases[where ctxTx = None and v = v])
  case (panics e)
  then show ?thesis using p I set_invD(2,4)[OF I] by (auto simp: set_Add_def)
next
  case (adds k)
  show ?thesis
  proof (cases "fmlookup (elementByKey s) k")
    case None
    then have "r = Done"
      "s' = (record_path_key E k s)\<lparr>elementByKey := fmupd k v (elementByKey s),
         storage := (if storage s = None then None else Some (fmupd k v (elementByKey s)))\<rparr>"
      using p adds(2) set_invD(2,4)[OF I] persist_repr[OF set_invD(1)[OF I]] by (auto simp: set_Add_def include_now_def)
    then show ?thesis
      using I adds(1) unfolding set_inv_def set_committed_def uniqueness_def by (auto split: if_splits)
  next
    case (Some w)
    then have "r \<noteq> Done" "s' = record_path_key E k s"
      using p adds(2) set_invD(2,4)[OF I] by (auto simp: set_Add_def include_now_def split: if_splits)
    then show ?thesis using I unfolding set_inv_def set_committed_def by simp
  qed
qed

lemma add_tx:
  assumes I: "set_inv E ops s" and t: "\<not> readonly t" and p: "set_Add E readonly (Inr (Some t)) (Some t) v s = (r, s')"
  shows "set_inv E (if r = Done then ops @ [AddOp v] else ops) s' \<and> set_committed s' = set_committed s \<and>
    set_view s' = (if r = Done then set_effect E (AddOp v) (set_view s) else set_view s) \<and>
    transactionsWithSetEndCallback s' = (if r = Done then insert t (transactionsWithSetEndCallback s) else transactionsWithSetEndCallback s)"
  using I
proof (cases rule: add_shared_cases[where ctxTx = "Some t" and v = v])
  case (panics e)
  then show ?thesis using p I t set_invD(2,4)[OF I] by (auto simp: set_Add_def)
next
  case (adds k)
  have same: "fmlookup (elementByKey s) k = Some w \<Longrightarrow> w = v" "(k, w) \<in> set (pendingInclusions s) \<Longrightarrow> w = v" for w
    using repr_key_inj[OF set_invD(1)[OF I] _ adds(1)] set_invD(5,6)[OF I] by blast+
  let ?incl = "if list_ex (\<lambda>(k', _). k' = k) (pendingInclusions s) then pendingInclusions s else pendingInclusions s @ [(k, v)]"
  have r: "r = Done" and s': "s' = registerEndCallback t ((record_path_key E k s)\<lparr>pendingRemovals := remove1 k (pendingRemovals s),
      pendingInclusions := ?incl\<rparr>)"
    using p adds(2) t set_invD(2,4)[OF I] same(1) by (auto simp: set_Add_def include_pending_def split: option.splits if_splits)
  have dist: "distinct (map fst ?incl)" using set_invD(7)[OF I] by (auto simp: list_ex_iff)
  have incl: "map_of ?incl = (map_of (pendingInclusions s))(k \<mapsto> v)"
    by (rule map_of_include[OF set_invD(7)[OF I] same(2)])
  have "set_inv E (ops @ [AddOp v]) s'"
    using I adds(1) dist unfolding s' set_inv_def registerEndCallback_def uniqueness_def by (auto split: if_splits)
  moreover have "getElem x s' = ((set_view s)(k \<mapsto> v)) x" for x
    using fun_cong[OF incl, of x] same(1) set_invD(8)[OF I] unfolding s' set_view_def getElem_def registerEndCallback_def
    by (cases "fmlookup (elementByKey s) x") auto
  then have "set_view s' = (set_view s)(k \<mapsto> v)" by (auto simp: set_view_def)
  ultimately show ?thesis using r adds(1) by (simp add: s' set_committed_def registerEndCallback_def)
qed

lemma remove_direct:
  assumes I: "set_inv E [] s" and p: "set_Remove E readonly (Inr None) None v s = (r, s')"
  shows "set_inv E [] s' \<and> set_committed s' = (if r = Done then set_effect E (RemoveOp v) (set_committed s) else set_committed s) \<and>
    transactionsWithSetEndCallback s' = transactionsWithSetEndCallback s"
proof (cases "repr_key E v")
  case (Inl e)
  then show ?thesis using p I set_invD(2,4)[OF I] repr_key_unique[OF set_invD(3)[OF I], of E v] by (auto simp: set_Remove_def)
next
  case (Inr k)
  then have q: "remove_now E k v s = (r, s')"
    using p set_invD(2,4)[OF I] repr_key_unique[OF set_invD(3)[OF I], of E v] by (simp add: set_Remove_def)
  show ?thesis
  proof (cases "fmlookup (elementByKey s) k")
    case None
    then show ?thesis using q I Inr by (auto simp: remove_now_def set_committed_def fun_eq_iff)
  next
    case (Some w)
    then have "r = Done" "s' = s\<lparr>elementByKey := fmdrop k (elementByKey s),
        storage := (if storage s = None then None else Some (fmdrop k (elementByKey s)))\<rparr>"
      using q persist_repr[OF set_invD(1)[OF I]] set_invD(3)[OF I] by (auto simp: remove_now_def)
    then show ?thesis
      using I Inr unfolding set_inv_def set_committed_def uniqueness_def by (auto simp: fun_eq_iff split: if_splits)
  qed
qed

lemma remove_tx:
  assumes I: "set_inv E ops s" and t: "\<not> readonly t" and p: "set_Remove E readonly (Inr (Some t)) (Some t) v s = (r, s')"
  shows "set_inv E (if r = Done then ops @ [RemoveOp v] else ops) s' \<and> set_committed s' = set_committed s \<and>
    set_view s' = (if r = Done then set_effect E (RemoveOp v) (set_view s) else set_view s) \<and>
    transactionsWithSetEndCallback s' = (if r = Done then insert t (transactionsWithSetEndCallback s) else transactionsWithSetEndCallback s)"
proof (cases "repr_key E v")
  case (Inl e)
  then show ?thesis using p I t set_invD(2,4)[OF I] repr_key_unique[OF set_invD(3)[OF I], of E v] by (auto simp: set_Remove_def)
next
  case (Inr k)
  then have "r = Done" "s' = registerEndCallback t (s\<lparr>pendingRemovals :=
      (if k \<in> set (pendingRemovals s) then pendingRemovals s else pendingRemovals s @ [k])\<rparr>)"
    using p t set_invD(2,4)[OF I] repr_key_unique[OF set_invD(3)[OF I], of E v] by (auto simp: set_Remove_def remove_pending_def)
  then show ?thesis
    using I Inr unfolding set_inv_def set_committed_def set_view_def getElem_def registerEndCallback_def uniqueness_def
    by (auto simp: fun_eq_iff split: option.splits)
qed

lemma finish_set:
  assumes I: "set_inv E ops s"
  shows "set_inv E [] (set_finish E success s) \<and> set_committed (set_finish E success s) = (if success then set_view s else set_committed s) \<and>
    transactionsWithSetEndCallback (set_finish E success s) = transactionsWithSetEndCallback s"
proof (cases success)
  case False
  then show ?thesis using I unfolding set_inv_def set_finish_def set_transactionEnd_def set_committed_def uniqueness_def by auto
next
  case True
  let ?m = "fold fmdrop (pendingRemovals s) (fold (\<lambda>(key, value) m. fmupd key value m) (pendingInclusions s) (elementByKey s))"
  have f: "set_finish E success s = s\<lparr>elementByKey := ?m, storage := (if storage s = None then None else Some ?m),
      pendingInclusions := [], pendingRemovals := []\<rparr>"
    using True persist_repr[OF set_invD(1)[OF I]] by (simp add: set_finish_def set_transactionEnd_def)
  have m: "fmlookup ?m k = getElem k s" for k
    using repr_key_inj[OF set_invD(1)[OF I]] set_invD(5,6)[OF I]
    unfolding lookup_remove_all lookup_include_all[OF set_invD(7)[OF I]] getElem_def
    by (cases "map_of (pendingInclusions s) k"; cases "fmlookup (elementByKey s) k") (auto dest!: map_of_SomeD)
  have "repr_key E v = Inr k" if "getElem k s = Some v" for k v
    using that set_invD(5,6)[OF I] unfolding getElem_def by (auto split: if_splits option.splits dest: map_of_SomeD)
  then show ?thesis
    using I m True unfolding f set_inv_def set_committed_def set_view_def uniqueness_def by (auto simp: fun_eq_iff)
qed

lemma perform_readonly_set:
  assumes "set_inv E ops s" and "readonly t" and "set_perform E readonly (Some t) op s = (ok, s')"
  shows "\<not> ok \<and> s' = s"
  using assms set_invD(2,4)[OF assms(1)] by (cases op) (auto simp: set_Add_def set_Remove_def)

lemma view_clean_set: "set_inv E [] s \<Longrightarrow> set_view s = set_committed s"
  by (auto simp: set_inv_def set_view_def set_committed_def getElem_def fun_eq_iff split: option.splits)

interpretation set_tx: tx_collection readonly "set_perform E readonly" "set_finish E" transactionsWithSetEndCallback "\<lambda>_ _. True"
  set_committed set_view set_stored "set_effect E" "set_inv E" for readonly E
proof (unfold_locales, goal_cases)
  case (1 s)
  then show ?case by (rule view_clean_set)
next
  case (2 ops s)
  then show ?case using set_invD(9)[OF 2] by (auto simp: set_stored_def set_committed_def)
next
  case (3 s op ok s')
  then show ?case using add_direct[OF 3(1)] remove_direct[OF 3(1)] by (cases op) (auto split: prod.splits)
next
  case (4 ops s t op ok s')
  show ?case
  proof (cases op)
    case (AddOp v)
    then obtain r where r: "set_Add E readonly (Inr (Some t)) (Some t) v s = (r, s')" "ok \<longleftrightarrow> r = Done" using 4(4) by (auto split: prod.splits)
    then show ?thesis using add_tx[OF 4(1) 4(2) r(1)] AddOp by (cases r) simp_all
  next
    case (RemoveOp v)
    then obtain r where r: "set_Remove E readonly (Inr (Some t)) (Some t) v s = (r, s')" "ok \<longleftrightarrow> r = Done" using 4(4) by (auto split: prod.splits)
    then show ?thesis using remove_tx[OF 4(1) 4(2) r(1)] RemoveOp by (cases r) simp_all
  qed
next
  case (5 ops s t op ok s')
  then show ?case by (rule perform_readonly_set)
next
  case (6 ops s success)
  then show ?case by (rule finish_set)
qed

section \<open>Loading\<close>

lemma load_elements:
  assumes "repr_env E" and "uniqueness s = UniqueRepr" and "distinct es"
    and "\<And>e. e \<in> set es \<Longrightarrow> pattern_accepts (sc_Element (set_config s)) e \<and> (\<exists>k. repr_key E e = Inr k \<and> fmlookup (elementByKey s) k = None)"
  shows "\<exists>s'. load_all E watchable ctxTx (map Inr es) s = Inr s' \<and>
    (\<forall>k v. fmlookup (elementByKey s') k = Some v \<longleftrightarrow> fmlookup (elementByKey s) k = Some v \<or> v \<in> set es \<and> repr_key E v = Inr k) \<and>
    s' = s\<lparr>elementByKey := elementByKey s', pathKeyToKey := pathKeyToKey s'\<rparr>"
  using assms(2-)
proof (induction es arbitrary: s)
  case (Cons e es)
  obtain k where k: "repr_key E e = Inr k" "fmlookup (elementByKey s) k = None" using Cons.prems(3)[of e] by auto
  let ?s = "(record_path_key E k s)\<lparr>elementByKey := fmupd k e (elementByKey s)\<rparr>"
  have add: "addToSharedSetNoPersist E ctxTx e True s = (Done, ?s)"
    using Cons.prems(1) Cons.prems(3)[of e] k repr_key_shared[OF assms(1) k(1)] repr_key_unique[OF Cons.prems(1), of E e]
    by (simp add: addToSharedSetNoPersist_def AddUrlIfNecessary_def include_now_def)
  have im: "\<not> sz_IsMutable (ce_value E) e" using k(1) by (simp add: repr_key_iff)
  have "\<exists>s'. load_all E watchable ctxTx (map Inr es) ?s = Inr s' \<and>
      (\<forall>k v. fmlookup (elementByKey s') k = Some v \<longleftrightarrow> fmlookup (elementByKey ?s) k = Some v \<or> v \<in> set es \<and> repr_key E v = Inr k) \<and>
      s' = ?s\<lparr>elementByKey := elementByKey s', pathKeyToKey := pathKeyToKey s'\<rparr>"
  proof (rule Cons.IH, goal_cases)
    case (3 e')
    then have "e' \<noteq> e" using Cons.prems(2) by auto
    then have "repr_key E e' \<noteq> Inr k" using repr_key_inj[OF assms(1) k(1)] by metis
    then show ?case using 3 Cons.prems(3)[of e'] by auto
  qed (use Cons.prems in \<open>auto simp: uniqueness_def\<close>)
  then obtain s' where s': "load_all E watchable ctxTx (map Inr es) ?s = Inr s'"
    "\<And>j v. fmlookup (elementByKey s') j = Some v \<longleftrightarrow> fmlookup (elementByKey ?s) j = Some v \<or> v \<in> set es \<and> repr_key E v = Inr j"
    "s' = ?s\<lparr>elementByKey := elementByKey s', pathKeyToKey := pathKeyToKey s'\<rparr>" by blast
  have "?s\<lparr>elementByKey := m, pathKeyToKey := p\<rparr> = s\<lparr>elementByKey := m, pathKeyToKey := p\<rparr>" for m p
    by (simp add: record_path_key_def split: option.splits)
  with s'(3) have "s' = s\<lparr>elementByKey := elementByKey s', pathKeyToKey := pathKeyToKey s'\<rparr>" by metis
  moreover have "fmlookup (elementByKey s') j = Some v \<longleftrightarrow> fmlookup (elementByKey s) j = Some v \<or> v \<in> set (e # es) \<and> repr_key E v = Inr j" for j v
    using s'(2)[of j v] k repr_key_inj[OF assms(1) k(1), of v] by (cases "j = k") auto
  ultimately show ?case using add im s'(1) by (intro exI[of _ s']) simp
qed simp

lemma load_stored:
  assumes "repr_env E" and "sc_Uniqueness config = UniqueRepr" and "distinct elements" and "\<And>v. v \<in> set elements \<longleftrightarrow> (\<exists>k. fmlookup stored k = Some v)"
    and "\<And>k v. fmlookup stored k = Some v \<Longrightarrow> repr_key E v = Inr k \<and> pattern_accepts (sc_Element config) v"
  shows "\<exists>s. loadSet E watchable ctxTx allowMissing url NoInitialValue (Some (stored, map Inr elements)) config = Inr s \<and>
    elementByKey s = stored \<and> set_inv E [] s \<and> transactionsWithSetEndCallback s = {}"
proof -
  let ?s = "(new_set config)\<lparr>storage := Some stored, set_url := url\<rparr>"
  have "\<exists>s'. load_all E watchable ctxTx (map Inr elements) ?s = Inr s' \<and>
      (\<forall>k v. fmlookup (elementByKey s') k = Some v \<longleftrightarrow> fmlookup (elementByKey ?s) k = Some v \<or> v \<in> set elements \<and> repr_key E v = Inr k) \<and>
      s' = ?s\<lparr>elementByKey := elementByKey s', pathKeyToKey := pathKeyToKey s'\<rparr>"
    by (rule load_elements[OF assms(1) _ assms(3)]) (use assms(2,4,5) in \<open>fastforce simp: uniqueness_def new_set_def\<close>)+
  then obtain s' where s': "load_all E watchable ctxTx (map Inr elements) ?s = Inr s'"
    "\<And>k v. fmlookup (elementByKey s') k = Some v \<longleftrightarrow> v \<in> set elements \<and> repr_key E v = Inr k"
    "s' = ?s\<lparr>elementByKey := elementByKey s', pathKeyToKey := pathKeyToKey s'\<rparr>" by (auto simp: new_set_def)
  have "fmlookup (elementByKey s') k = fmlookup stored k" for k
    using s'(2)[of k] assms(4,5) by (cases "fmlookup stored k"; cases "fmlookup (elementByKey s') k") force+
  then have m: "elementByKey s' = stored" by (rule fmap_ext)
  have "loadSet E watchable ctxTx allowMissing url NoInitialValue (Some (stored, map Inr elements)) config = Inr (set_Share s')"
    using s'(1) assms(2) by (simp add: loadSet_def load_source_def NewSetWithConfig_def new_set_def)
  moreover have "set_inv E [] (set_Share s')"
    using assms(1,2,5) m unfolding set_inv_def uniqueness_def by (subst (1 2 3 4 5 6 7 8) s'(3)) (simp add: set_Share_def new_set_def)
  moreover have "transactionsWithSetEndCallback (set_Share s') = {}"
    by (subst s'(3), simp add: set_Share_def new_set_def)
  ultimately show ?thesis using m by (auto simp: set_Share_def)
qed

section \<open>Properties\<close>

text \<open>Values that are known by their representation; nothing is mutable.\<close>

definition sample_env :: "string coll_env" where
  "sample_env =
    \<lparr>ce_value = \<lparr>sz_IsMutable = (\<lambda>_. False), sz_JSON = Some, sz_Props = (\<lambda>_. None), sz_IsUrlHolder = (\<lambda>_. False), sz_URL = (\<lambda>_. None),
       sz_SetURLOnce = (\<lambda>_ _. None), sz_ShareOrClone = Some\<rparr>,
     ce_url = \<lparr>uf_isDirOf = (\<lambda>_ _. False), uf_newElementURL = id, uf_validULID = (\<lambda>_. False)\<rparr>,
     ce_pathKey = id, ce_persistable = (\<lambda>_. True)\<rparr>"

definition sample_config :: "string SetConfig" where
  "sample_config = \<lparr>sc_Element = None, sc_ElementHasProp = (\<lambda>_. False), sc_Uniqueness = UniqueRepr\<rparr>"

definition sample_set :: "string Set" where
  "sample_set = (set_Share (new_set sample_config))\<lparr>storage := Some fmempty\<rparr>"

lemmas sample_defs = sample_env_def sample_config_def sample_set_def new_set_def set_Share_def uniqueness_def unsupportedURLUniqueness_def

lemma sample_repr_env: "repr_env sample_env"
  by (simp add: repr_env_def sample_env_def)

lemma sample_set_inv: "set_inv sample_env [] sample_set" "transactionsWithSetEndCallback sample_set = {}"
  using sample_repr_env by (simp_all add: set_inv_def sample_defs)

text \<open>
  (C9) The transactions of a shared set are serializable, for sets with representation uniqueness whose immutable values have different
  representations and can be written (\<open>repr_env\<close>), and for calls that do not overlap: from its wait to its last statement a call, or an end
  callback, runs without a step of another one. In every such interleaving of whole calls without
  transaction, calls in transactions that pass the isolator, commits and rollbacks, the elements of the set are the result of the direct calls and
  of the calls of the committed transactions, each transaction at its commit and as a whole. The running transaction sees
  these elements with its own changes, and the storage, when there is one, never holds a change that is not committed.
\<close>

theorem set_transactions_serializable:
  assumes "tx_reachable readonly (set_perform E readonly) (set_finish E) transactionsWithSetEndCallback (\<lambda>_ _. True) s0 w"
    and "set_inv E [] s0" and "transactionsWithSetEndCallback s0 = {}"
  shows "fmlookup (elementByKey (tw_coll w)) = fold (set_effect E) (tw_log w) (fmlookup (elementByKey s0)) \<and>
    (\<forall>key. getElem key (tw_coll w) = fold (set_effect E) (tw_opened w) (fmlookup (elementByKey (tw_coll w))) key) \<and>
    (storage (tw_coll w) = None \<or> storage (tw_coll w) = Some (elementByKey (tw_coll w)))"
proof -
  note S = set_tx.serializable[OF assms]
  have "storage (tw_coll w) = None \<or> storage (tw_coll w) = Some (elementByKey (tw_coll w))"
    using set_invD(9) set_tx.interleaving_inv[OF assms] unfolding set_tx.world_inv_def by blast
  then show ?thesis using S(1,2) by (auto simp: set_committed_def set_view_def dest: fun_cong)
qed

theorem set_transactions_serializable_witness:
  "\<exists>w. tx_reachable (\<lambda>_. False) (set_perform sample_env (\<lambda>_. False)) (set_finish sample_env) transactionsWithSetEndCallback (\<lambda>_ _. True) sample_set w \<and>
     tw_log w = [AddOp ''a'', AddOp ''b'', RemoveOp ''a''] \<and> fmlookup (elementByKey (tw_coll w)) = [''b'' \<mapsto> ''b'']"
proof -
  let ?R = "tx_reachable (\<lambda>_. False) (set_perform sample_env (\<lambda>_. False)) (set_finish sample_env) transactionsWithSetEndCallback (\<lambda>_ _. True) sample_set"
  let ?w = "\<lambda>coll i fin log opened. \<lparr>tw_coll = coll, tw_iso = \<lparr>currentWriteTx = i, readonlyTxs = nil_slice\<rparr>, tw_fin = fin, tw_log = log, tw_opened = opened\<rparr>"
  let ?p = "\<lambda>otx op s. snd (set_perform sample_env (\<lambda>_. False) otx op s)"
  note eval = set_Add_def set_Remove_def addToSharedSetNoPersist_def AddUrlIfNecessary_def getUniqueKey_def pattern_accepts_def key_of_repr_def
    include_now_def include_pending_def remove_pending_def record_path_key_def registerEndCallback_def persist_if_stored_def persistSet_def sample_defs
  define s1 where "s1 = ?p None (AddOp ''a'') sample_set"
  define s2 where "s2 = ?p (Some 1) (AddOp ''b'') s1"
  define s3 where "s3 = ?p (Some 1) (RemoveOp ''a'') s2"
  have p1: "set_perform sample_env (\<lambda>_. False) None (AddOp ''a'') sample_set = (True, s1)" unfolding s1_def by (simp add: eval)
  have p2: "set_perform sample_env (\<lambda>_. False) (Some 1) (AddOp ''b'') s1 = (True, s2)" unfolding s2_def s1_def by (simp add: eval)
  have p3: "set_perform sample_env (\<lambda>_. False) (Some 1) (RemoveOp ''a'') s2 = (True, s3)" unfolding s3_def s2_def s1_def by (simp add: eval)
  have reg: "1 \<in> transactionsWithSetEndCallback s3" unfolding s3_def s2_def s1_def by (simp add: eval)
  have a0: "strong_attempt (\<lambda>_. False) {} None False 0 \<lparr>currentWriteTx = None, readonlyTxs = nil_slice\<rparr> = (Returns None, \<lparr>currentWriteTx = None, readonlyTxs = nil_slice\<rparr>)"
    by (simp add: strong_attempt_def clear_finished_def MAX_SUBSEQUENT_WAIT_WRITE_TX_COUNT_def)
  have a: "strong_attempt (\<lambda>_. False) {} (Some 1) False 0 \<lparr>currentWriteTx = i, readonlyTxs = nil_slice\<rparr> = (Returns (Some 1), \<lparr>currentWriteTx = Some 1, readonlyTxs = nil_slice\<rparr>)"
    if "i = None \<or> i = Some 1" for i
    using that by (auto simp: strong_attempt_def clear_finished_def MAX_SUBSEQUENT_WAIT_WRITE_TX_COUNT_def)
  have "?R (?w sample_set None {} [] [])" unfolding new_strong_isolator_def[symmetric] by (rule tr_init)
  from tr_direct[OF this, of 0 _ "AddOp ''a''"] have "?R (?w s1 None {} [AddOp ''a''] [])" using a0 p1 by simp
  from tr_call[OF this, of 1 0 _ "AddOp ''b''"] have "?R (?w s2 (Some 1) {} [AddOp ''a''] [AddOp ''b''])" using a[of None] p2 by simp
  from tr_call[OF this, of 1 0 _ "RemoveOp ''a''"] have "?R (?w s3 (Some 1) {} [AddOp ''a''] [AddOp ''b'', RemoveOp ''a''])" using a[of "Some 1"] p3 by simp
  from tr_end[OF this, of 1 True] reg
  have w: "?R (?w (set_finish sample_env True s3) (Some 1) {1} [AddOp ''a'', AddOp ''b'', RemoveOp ''a''] [])" by simp
  have "fmlookup (elementByKey sample_set) = Map.empty" by (simp add: sample_defs fun_eq_iff)
  then show ?thesis
    using w set_transactions_serializable[OF w sample_set_inv]
    by (intro exI[of _ "?w (set_finish sample_env True s3) (Some 1) {1} [AddOp ''a'', AddOp ''b'', RemoveOp ''a''] []"])
      (auto simp: repr_key_def key_of_repr_def sample_env_def)
qed

text \<open>
  (C27) A set that is persisted and loaded again has the same elements under the same keys, no pending change, and is shared. This is for sets
  with representation uniqueness whose immutable values have different representations (\<open>repr_env\<close>) and whose elements match the pattern
  of the elements; the parsing of the stored JSON is a parameter, of which the hypothesis says that it gives the elements that were
  written, each once, in any order. It holds whatever the transaction of the loading context.
\<close>

theorem stored_set_reloads:
  assumes "set_inv E [] s" and "persistSet E s = (Done, s')" and "storage s' = Some m"
    and "\<And>v. v \<in> fmran' (elementByKey s) \<Longrightarrow> pattern_accepts (sc_Element (set_config s)) v"
    and "distinct elements" and "set elements = fmran' m"
  shows "\<exists>r. loadSet E watchable ctxTx allowMissing url NoInitialValue (Some (m, map Inr elements)) (set_config s) = Inr r \<and>
    elementByKey r = elementByKey s \<and> pendingInclusions r = [] \<and> pendingRemovals r = [] \<and> isShared r"
proof -
  have m: "m = elementByKey s" using assms(2,3) by (auto simp: persistSet_def split: if_splits)
  have I: "repr_env E" "sc_Uniqueness (set_config s) = UniqueRepr"
    "\<And>k v. fmlookup (elementByKey s) k = Some v \<Longrightarrow> repr_key E v = Inr k"
    using assms(1) by (auto simp: set_inv_def uniqueness_def)
  have ran: "\<And>v. v \<in> set elements \<longleftrightarrow> (\<exists>k. fmlookup m k = Some v)" using assms(6) by (auto simp: fmran'_def ran_def)
  have "\<exists>r. loadSet E watchable ctxTx allowMissing url NoInitialValue (Some (m, map Inr elements)) (set_config s) = Inr r \<and>
      elementByKey r = m \<and> set_inv E [] r \<and> transactionsWithSetEndCallback r = {}"
    by (rule load_stored[OF I(1,2) assms(5) ran]) (use I(3) assms(4) m in \<open>auto simp: fmran'I\<close>)
  then show ?thesis using m unfolding set_inv_def by auto
qed

theorem stored_set_reloads_witness:
  "\<exists>r. loadSet sample_env (\<lambda>_. False) (Some 3) False ''ldb://main/set'' NoInitialValue
       (Some (fmupd ''a'' ''a'' (fmupd ''b'' ''b'' fmempty), map Inr [''b'', ''a''])) sample_config = Inr r \<and>
     elementByKey r = fmupd ''a'' ''a'' (fmupd ''b'' ''b'' fmempty) \<and> pendingInclusions r = [] \<and> pendingRemovals r = [] \<and> isShared r"
proof -
  let ?m = "fmupd ''a'' ''a'' (fmupd ''b'' ''b'' fmempty)"
  let ?s = "sample_set\<lparr>elementByKey := ?m, storage := Some ?m\<rparr>"
  have inv: "set_inv sample_env [] ?s"
    using sample_set_inv(1) by (auto simp: set_inv_def sample_defs repr_key_def key_of_repr_def split: if_splits)
  have p: "persistSet sample_env ?s = (Done, ?s)" by (simp add: persistSet_def sample_env_def)
  have c: "set_config ?s = sample_config" "storage ?s = Some ?m" by (simp_all add: sample_defs)
  have ran: "set [''b'', ''a''] = fmran' ?m" by (auto simp: fmran'_def ran_def split: if_splits)
  show ?thesis
    using stored_set_reloads[OF inv p c(2) _ _ ran, of "\<lambda>_. False" "Some 3" False "''ldb://main/set''"] unfolding c(1)
    by (simp add: pattern_accepts_def sample_config_def)
qed

section \<open>Where sets differ from what they mean to do\<close>

text \<open>Adding the same element twice to a shared set without transaction panics; in a set that is not shared nothing happens.\<close>

lemma same_element_twice:
  assumes "isShared s" and "uniqueness s = UniqueRepr" and "pattern_accepts (sc_Element (set_config s)) v" and "repr_env E"
    and "repr_key E v = Inr k" and "fmlookup (elementByKey s) k = Some v"
  shows "fst (set_Add E readonly (Inr None) None v s) = Panicked ErrValueWithSameKeyAlreadyPresent"
    and "add_unshared E v s = (Done, s)"
proof -
  have "\<not> unsupportedURLUniqueness s" using assms(2) by (simp add: unsupportedURLUniqueness_def)
  then show "fst (set_Add E readonly (Inr None) None v s) = Panicked ErrValueWithSameKeyAlreadyPresent"
    using assms repr_key_unique[OF assms(2), of E v] repr_key_shared[OF assms(4,5)]
    by (simp add: set_Add_def addToSharedSetNoPersist_def AddUrlIfNecessary_def include_now_def)
  show "add_unshared E v s = (Done, s)"
    using assms repr_key_unique[OF assms(2), of E v] by (simp add: add_unshared_def AddUrlIfNecessary_def)
qed

text \<open>
  A transaction that removes an element it has added and then adds another one with the same key commits the removed one: the
  inclusion of the first is kept, that of the second is not recorded.
\<close>

lemma replaced_inclusion_lost:
  assumes "(k, v) \<in> set (pendingInclusions s)" and "distinct (map fst (pendingInclusions s))" and "fmlookup (elementByKey s) k = None"
    and "k \<in> set (pendingRemovals s)" and "distinct (pendingRemovals s)"
  shows "fst (include_pending k w s) = Done" and "getElem k (snd (include_pending k w s)) = Some v"
proof -
  have l: "list_ex (\<lambda>(k', _). k' = k) (pendingInclusions s)" using assms(1) by (auto simp: list_ex_iff)
  show "fst (include_pending k w s) = Done" using assms(3) by (simp add: include_pending_def)
  show "getElem k (snd (include_pending k w s)) = Some v" using assms l by (simp add: include_pending_def getElem_def)
qed

text \<open>An iterator visits an element that the transaction has added and removed, although the transaction does not see it.\<close>

lemma iterator_visits_removed:
  assumes "(k, v) \<in> set (pendingInclusions s)" and "distinct (map fst (pendingInclusions s))" and "k \<in> set (pendingRemovals s)"
  shows "getElem k s = None" and "fmlookup (iterator_elements s) k = Some v"
  using assms by (simp_all add: getElem_def iterator_elements_def lookup_include_all)

text \<open>
  Path keys are recorded when an element is added, but only once \<open>GetElementByKey\<close> has been called. When it is called for the first
  time while an inclusion is pending, the key of this inclusion is not recorded, neither then nor by the commit.
\<close>

lemma path_key_not_recorded:
  assumes "pathKeyToKey s = None" and "k \<notin> fset (fmdom (elementByKey s))" and "\<And>j. ce_pathKey E j = ce_pathKey E k \<Longrightarrow> j = k"
  shows "the (pathKeyToKey (initPathKeyMap E s)) (ce_pathKey E k) = None"
    and "pathKeyToKey (set_finish E success (initPathKeyMap E s)) = pathKeyToKey (initPathKeyMap E s)"
proof -
  have "ce_pathKey E k \<noteq> ce_pathKey E j" if "j \<in> fset (fmdom (elementByKey s))" for j using assms(2,3) that by metis
  then show "the (pathKeyToKey (initPathKeyMap E s)) (ce_pathKey E k) = None"
    using assms(1) by (fastforce simp: initPathKeyMap_def map_of_eq_None_iff)
  show "pathKeyToKey (set_finish E success (initPathKeyMap E s)) = pathKeyToKey (initPathKeyMap E s)"
    by (simp add: set_finish_def set_transactionEnd_def persist_if_stored_def persistSet_def)
qed

text \<open>
  Two calls of \<open>Add\<close> without transaction that overlap can leave the first state in the storage: the second call changes the set and stores it
  after the first one has serialized the set and before it writes to the storage, which it does without the lock of the set.
\<close>

lemma overlapping_adds_store_stale:
  assumes "addToSharedSetNoPersist E None v False s = (Done, s1)"
    and "set_Add E readonly (Inr None) None w s1 = (Done, s2)" and "isShared s1" and "\<not> unsupportedURLUniqueness s1"
  defines "written_by_first \<equiv> elementByKey s1"
  shows "storage (s2\<lparr>storage := Some written_by_first\<rparr>) \<noteq> Some (elementByKey s2)"
proof -
  obtain k x t where "t = record_path_key E k s1" "include_now k x t = (Done, t\<lparr>elementByKey := fmupd k x (elementByKey t)\<rparr>)"
    "fmlookup (elementByKey t) k = None" "elementByKey s2 = fmupd k x (elementByKey t)"
    using assms(2-4)
    by (auto simp: set_Add_def addToSharedSetNoPersist_def include_now_def persist_if_stored_def persistSet_def
        split: if_splits option.splits sum.splits coll_result.splits prod.splits)
  then have "fmlookup (elementByKey s1) k = None" "fmlookup (elementByKey s2) k = Some x" by simp_all
  then show ?thesis unfolding written_by_first_def by auto
qed

end
