(* ===== verification/MapCollections.thy ===== *)
theory MapCollections
  imports Uniqueness TxCollections "HOL-Library.List_Lexorder" "HOL-Library.Char_ord"
begin

text \<open>
  Maps (\<open>internal/globals/containers/mapcoll\<close>: \<open>map.go\<close>, \<open>iterator.go\<close>). An entry is stored under the JSON representation of its key, which is
  immutable. The conventions are those of the theory SetCollections, also for the parts of a method: \<open>map_set\<close> waits, changes the map under its
  lock and, without transaction, writes it to the storage after the lock is released; it is the effect of a call that no other one overlaps. The code of the two collections is the same up to the
  patterns of keys and values, the comparison of values instead of elements, and the operations \<open>Insert\<close> and \<open>Set\<close>.
\<close>

section \<open>State\<close>

type_synonym 'v entry = "'v \<times> 'v"

record 'v Map =
  mp_Key :: "('v \<Rightarrow> bool) option"
  mp_Value :: "('v \<Rightarrow> bool) option"
  entryByKey :: "(string, 'v entry) fmap"
  mp_pathKeyToKey :: "(string \<rightharpoonup> string) option"
  mp_isShared :: bool
  mp_transactionsWithEndCallback :: "TxId set"
  mp_pendingInclusions :: "(string \<times> 'v entry) list"
  mp_pendingRemovals :: "string list"
  mp_storage :: "(string, 'v entry) fmap option"

record 'v map_env =
  me_value :: "'v Serializable"
  me_url :: url_functions
  me_equal :: "'v \<Rightarrow> 'v \<Rightarrow> bool"
  me_pathKey :: "string \<Rightarrow> string"
  me_persistable :: "(string, 'v entry) fmap \<Rightarrow> bool"

datatype map_result = MapDone | MapPanicked coll_error

definition new_map :: "('v \<Rightarrow> bool) option \<Rightarrow> ('v \<Rightarrow> bool) option \<Rightarrow> 'v Map" where
  "new_map key_pattern value_pattern = \<lparr>mp_Key = key_pattern, mp_Value = value_pattern, entryByKey = fmempty, mp_pathKeyToKey = None,
     mp_isShared = False, mp_transactionsWithEndCallback = {}, mp_pendingInclusions = [], mp_pendingRemovals = [], mp_storage = None\<rparr>"

definition map_getUniqueKey :: "'v map_env \<Rightarrow> 'v \<Rightarrow> coll_error + string" where
  "map_getUniqueKey E v = GetUniqueKey (me_value E) (me_url E) UniqueRepr None v"

definition accepts :: "('v \<Rightarrow> bool) option \<Rightarrow> 'v \<Rightarrow> bool" where
  "accepts p v = (case p of None \<Rightarrow> True | Some test \<Rightarrow> test v)"

definition persistMap :: "'v map_env \<Rightarrow> 'v Map \<Rightarrow> map_result \<times> 'v Map" where
  "persistMap E m =
    (if me_persistable E (entryByKey m) then (MapDone, m\<lparr>mp_storage := Some (entryByKey m)\<rparr>) else (MapPanicked ErrPersistence, m))"

definition persist_map_if_stored :: "'v map_env \<Rightarrow> 'v Map \<Rightarrow> map_result \<times> 'v Map" where
  "persist_map_if_stored E m = (if mp_storage m \<noteq> None then persistMap E m else (MapDone, m))"

section \<open>Reading\<close>

definition getEntry :: "string \<Rightarrow> 'v Map \<Rightarrow> 'v entry option" where
  "getEntry key m =
    (if key \<in> set (mp_pendingRemovals m) then None
     else (case fmlookup (entryByKey m) key of
             Some presentEntry \<Rightarrow> Some presentEntry
           | None \<Rightarrow> map_of (mp_pendingInclusions m) key))"

definition map_hasNoLock :: "'v map_env \<Rightarrow> 'v \<Rightarrow> 'v Map \<Rightarrow> coll_error + bool" where
  "map_hasNoLock E key m =
    (if \<not> accepts (mp_Key m) key then Inl ErrKeyDoesMatchKeyPattern
     else (case map_getUniqueKey E key of Inl e \<Rightarrow> Inl e | Inr k \<Rightarrow> Inr (getEntry k m \<noteq> None)))"

definition map_Has :: "'v map_env \<Rightarrow> iso_error + TxId option \<Rightarrow> 'v \<Rightarrow> 'v Map \<Rightarrow> coll_error + bool" where
  "map_Has E waited key m = (if mp_isShared m \<and> isl waited then Inl ErrIsolation else map_hasNoLock E key m)"

definition map_Get :: "'v map_env \<Rightarrow> iso_error + TxId option \<Rightarrow> 'v \<Rightarrow> 'v Map \<Rightarrow> coll_error + 'v option" where
  "map_Get E waited keyVal m =
    (if mp_isShared m \<and> isl waited then Inl ErrIsolation
     else (case map_getUniqueKey E keyVal of Inl e \<Rightarrow> Inl e | Inr k \<Rightarrow> Inr (map_option snd (getEntry k m))))"

definition map_Contains :: "'v map_env \<Rightarrow> iso_error + TxId option \<Rightarrow> 'v \<Rightarrow> 'v Map \<Rightarrow> coll_error + bool" where
  "map_Contains E waited value m =
    (if mp_isShared m \<and> isl waited then Inl ErrIsolation
     else Inr (fBex (fmdom (entryByKey m)) (\<lambda>k. k \<notin> set (mp_pendingRemovals m) \<and> me_equal E value (snd (the (fmlookup (entryByKey m) k)))) \<or>
               list_ex (\<lambda>(_, e). me_equal E value (snd e)) (mp_pendingInclusions m)))"

definition map_IsEmpty :: "iso_error + TxId option \<Rightarrow> 'v Map \<Rightarrow> coll_error + bool" where
  "map_IsEmpty waited m =
    (if mp_isShared m \<and> isl waited then Inl ErrIsolation
     else if fBex (fmdom (entryByKey m)) (\<lambda>k. k \<notin> set (mp_pendingRemovals m)) then Inr False
     else if list_ex (\<lambda>(k, _). k \<notin> set (mp_pendingRemovals m)) (mp_pendingInclusions m) then Inr False
     else Inr True)"

definition map_initPathKeyMap :: "'v map_env \<Rightarrow> 'v Map \<Rightarrow> 'v Map" where
  "map_initPathKeyMap E m =
    (case mp_pathKeyToKey m of
       Some _ \<Rightarrow> m
     | None \<Rightarrow> m\<lparr>mp_pathKeyToKey := Some (map_of (map (\<lambda>k. (me_pathKey E k, k)) (sorted_list_of_fset (fmdom (entryByKey m)))))\<rparr>)"

text \<open>There is no value for entries yet: \<open>GetElementByKey\<close> returns an error for every key.\<close>

definition map_GetElementByKey :: "'v map_env \<Rightarrow> iso_error + TxId option \<Rightarrow> string \<Rightarrow> 'v Map \<Rightarrow> coll_error \<times> 'v Map" where
  "map_GetElementByKey E waited pathKey m =
    (if mp_isShared m \<and> isl waited then (ErrIsolation, m)
     else
       (let m1 = map_initPathKeyMap E m;
            key = (case the (mp_pathKeyToKey m1) pathKey of Some k \<Rightarrow> k | None \<Rightarrow> '''')
        in (if fmlookup (entryByKey m1) key = None then ErrCollectionElemNotFound else ErrEntryTypeNotImplemented, m1)))"

text \<open>The entries that an iterator visits: those of the map in an order that Go leaves open, then the pending ones.\<close>

definition iterator_entries :: "'v Map \<Rightarrow> 'v entry list" where
  "iterator_entries m =
    map (\<lambda>k. the (fmlookup (entryByKey m) k)) (filter (\<lambda>k. k \<notin> set (mp_pendingRemovals m)) (sorted_list_of_fset (fmdom (entryByKey m)))) @
    map snd (mp_pendingInclusions m)"

section \<open>Insertion and removal\<close>

definition map_record_path_key :: "'v map_env \<Rightarrow> string \<Rightarrow> 'v Map \<Rightarrow> 'v Map" where
  "map_record_path_key E key m =
    (case mp_pathKeyToKey m of None \<Rightarrow> m | Some p \<Rightarrow> m\<lparr>mp_pathKeyToKey := Some (p(me_pathKey E key \<mapsto> key))\<rparr>)"

definition set_unshared :: "'v map_env \<Rightarrow> 'v entry \<Rightarrow> bool \<Rightarrow> 'v Map \<Rightarrow> map_result \<times> 'v Map" where
  "set_unshared E e isInsert m =
    (if \<not> accepts (mp_Key m) (fst e) then (MapPanicked ErrKeyDoesMatchKeyPattern, m)
     else if \<not> accepts (mp_Value m) (snd e) then (MapPanicked ErrValueDoesMatchValuePattern, m)
     else (case map_getUniqueKey E (fst e) of
             Inl err \<Rightarrow> (MapPanicked err, m)
           | Inr k \<Rightarrow>
               if fmlookup (entryByKey m) k \<noteq> None then (if isInsert then (MapPanicked ErrEntryAlreadyExists, m) else (MapDone, m))
               else (MapDone, map_record_path_key E k (m\<lparr>entryByKey := fmupd k e (entryByKey m)\<rparr>))))"

definition put_now :: "string \<Rightarrow> 'v entry \<Rightarrow> 'v Map \<Rightarrow> map_result \<times> 'v Map" where
  "put_now k e m =
    (if fmlookup (entryByKey m) k \<noteq> None then (MapPanicked ErrValueWithSameKeyAlreadyPresent, m)
     else (MapDone, m\<lparr>entryByKey := fmupd k e (entryByKey m)\<rparr>))"

definition put_pending :: "string \<Rightarrow> 'v entry \<Rightarrow> 'v Map \<Rightarrow> map_result \<times> 'v Map" where
  "put_pending k e m =
    (if (case fmlookup (entryByKey m) k of Some present \<Rightarrow> snd e \<noteq> snd present | None \<Rightarrow> False)
     then (MapPanicked ErrValueWithSameKeyAlreadyPresent, m)
     else (MapDone, m\<lparr>mp_pendingRemovals := remove1 k (mp_pendingRemovals m),
                      mp_pendingInclusions := (if list_ex (\<lambda>(k', _). k' = k) (mp_pendingInclusions m) then mp_pendingInclusions m
                                               else mp_pendingInclusions m @ [(k, e)])\<rparr>))"

definition putEntryInSharedMap :: "'v map_env \<Rightarrow> TxId option \<Rightarrow> 'v entry \<Rightarrow> bool \<Rightarrow> 'v Map \<Rightarrow> map_result \<times> 'v Map" where
  "putEntryInSharedMap E ctxTx e ignoreTx m =
    (if \<not> accepts (mp_Key m) (fst e) then (MapPanicked ErrKeyDoesMatchKeyPattern, m)
     else if \<not> accepts (mp_Value m) (snd e) then (MapPanicked ErrValueDoesMatchValuePattern, m)
     else (case sz_ShareOrClone (me_value E) (snd e) of
             None \<Rightarrow> (MapPanicked ErrValueNotSharableNorClonable, m)
           | Some v \<Rightarrow>
               (case map_getUniqueKey E (fst e) of
                  Inl err \<Rightarrow> (MapPanicked err, m)
                | Inr k \<Rightarrow>
                    (if ctxTx = None \<or> ignoreTx then put_now k (fst e, v) (map_record_path_key E k m)
                     else put_pending k (fst e, v) (map_record_path_key E k m)))))"

definition map_registerEndCallback :: "TxId \<Rightarrow> 'v Map \<Rightarrow> 'v Map" where
  "map_registerEndCallback t m = m\<lparr>mp_transactionsWithEndCallback := insert t (mp_transactionsWithEndCallback m)\<rparr>"

definition map_set :: "'v map_env \<Rightarrow> (TxId \<Rightarrow> bool) \<Rightarrow> iso_error + TxId option \<Rightarrow> TxId option \<Rightarrow> 'v entry \<Rightarrow> bool \<Rightarrow> 'v Map \<Rightarrow> map_result \<times> 'v Map" where
  "map_set E readonly waited ctxTx e isInsert m =
    (if sz_IsMutable (me_value E) (fst e) then (MapPanicked ErrReprOfMutableValueCanChange, m)
     else if \<not> mp_isShared m then set_unshared E e isInsert m
     else (case waited of
             Inl _ \<Rightarrow> (MapPanicked ErrIsolation, m)
           | Inr tx \<Rightarrow>
               if (case tx of Some t \<Rightarrow> readonly t | None \<Rightarrow> False) then (MapPanicked ErrReadonlyTransaction, m)
               else (case putEntryInSharedMap E ctxTx e False m of
                       (MapPanicked err, m1) \<Rightarrow> (MapPanicked err, m1)
                     | (MapDone, m1) \<Rightarrow>
                         (case tx of None \<Rightarrow> persist_map_if_stored E m1 | Some t \<Rightarrow> (MapDone, map_registerEndCallback t m1)))))"

definition map_Insert :: "'v map_env \<Rightarrow> (TxId \<Rightarrow> bool) \<Rightarrow> iso_error + TxId option \<Rightarrow> TxId option \<Rightarrow> 'v \<Rightarrow> 'v \<Rightarrow> 'v Map \<Rightarrow> map_result \<times> 'v Map" where
  "map_Insert E readonly waited ctxTx key value m = map_set E readonly waited ctxTx (key, value) True m"

definition map_Set :: "'v map_env \<Rightarrow> (TxId \<Rightarrow> bool) \<Rightarrow> iso_error + TxId option \<Rightarrow> TxId option \<Rightarrow> 'v \<Rightarrow> 'v \<Rightarrow> 'v Map \<Rightarrow> map_result \<times> 'v Map" where
  "map_Set E readonly waited ctxTx key value m = map_set E readonly waited ctxTx (key, value) False m"

definition map_Remove :: "'v map_env \<Rightarrow> (TxId \<Rightarrow> bool) \<Rightarrow> iso_error + TxId option \<Rightarrow> TxId option \<Rightarrow> 'v \<Rightarrow> 'v Map \<Rightarrow> map_result \<times> 'v Map" where
  "map_Remove E readonly waited ctxTx key m =
    (if \<not> mp_isShared m then
       (case map_getUniqueKey E key of
          Inl err \<Rightarrow> (MapPanicked err, m)
        | Inr k \<Rightarrow> (MapDone, m\<lparr>entryByKey := fmdrop k (entryByKey m)\<rparr>))
     else if (case ctxTx of Some t \<Rightarrow> readonly t | None \<Rightarrow> False) then (MapPanicked ErrReadonlyTransaction, m)
     else (case waited of
             Inl _ \<Rightarrow> (MapPanicked ErrIsolation, m)
           | Inr _ \<Rightarrow>
               (case map_getUniqueKey E key of
                  Inl err \<Rightarrow> (MapPanicked err, m)
                | Inr k \<Rightarrow>
                    (case ctxTx of
                       None \<Rightarrow> persist_map_if_stored E (m\<lparr>entryByKey := fmdrop k (entryByKey m)\<rparr>)
                     | Some t \<Rightarrow>
                         (MapDone, map_registerEndCallback t
                           (m\<lparr>mp_pendingRemovals := (if k \<in> set (mp_pendingRemovals m) then mp_pendingRemovals m else mp_pendingRemovals m @ [k])\<rparr>))))))"

definition map_transactionEnd :: "'v map_env \<Rightarrow> bool \<Rightarrow> 'v Map \<Rightarrow> map_result \<times> 'v Map" where
  "map_transactionEnd E success m =
    (let (res, m1) =
       (if \<not> success then (MapDone, m)
        else persist_map_if_stored E
          (m\<lparr>entryByKey := fold fmdrop (mp_pendingRemovals m)
               (fold (\<lambda>(key, value) es. fmupd key value es) (mp_pendingInclusions m) (entryByKey m))\<rparr>))
     in (res, m1\<lparr>mp_pendingInclusions := [], mp_pendingRemovals := []\<rparr>))"

text \<open>The entries of the list argument: keys and values in turn.\<close>

fun insert_all :: "'v map_env \<Rightarrow> 'v list \<Rightarrow> 'v Map \<Rightarrow> coll_error + 'v Map" where
  "insert_all E (k # v # es) m =
    (case map_Insert E (\<lambda>_. False) (Inr None) None k v m of (MapPanicked err, _) \<Rightarrow> Inl err | (MapDone, m1) \<Rightarrow> insert_all E es m1)"
| "insert_all E _ m = Inr m"

definition NewMapWithConfig :: "'v map_env \<Rightarrow> 'v list \<Rightarrow> ('v \<Rightarrow> bool) option \<Rightarrow> ('v \<Rightarrow> bool) option \<Rightarrow> coll_error + 'v Map" where
  "NewMapWithConfig E flatEntries key_pattern value_pattern =
    (if length flatEntries mod 2 \<noteq> 0 then Inl ErrMapEntryListShouldHaveEvenLength
     else insert_all E flatEntries (new_map key_pattern value_pattern))"

section \<open>The transactions of a map\<close>

datatype 'v map_op = InsertOp 'v 'v | SetOp 'v 'v | RemoveKeyOp 'v

fun map_perform :: "'v map_env \<Rightarrow> (TxId \<Rightarrow> bool) \<Rightarrow> TxId option \<Rightarrow> 'v map_op \<Rightarrow> 'v Map \<Rightarrow> bool \<times> 'v Map" where
  "map_perform E readonly otx (InsertOp k v) m = (case map_Insert E readonly (Inr otx) otx k v m of (r, m') \<Rightarrow> (r = MapDone, m'))"
| "map_perform E readonly otx (SetOp k v) m = (case map_Set E readonly (Inr otx) otx k v m of (r, m') \<Rightarrow> (r = MapDone, m'))"
| "map_perform E readonly otx (RemoveKeyOp k) m = (case map_Remove E readonly (Inr otx) otx k m of (r, m') \<Rightarrow> (r = MapDone, m'))"

definition map_finish :: "'v map_env \<Rightarrow> bool \<Rightarrow> 'v Map \<Rightarrow> 'v Map" where
  "map_finish E success m = snd (map_transactionEnd E success m)"

text \<open>
  Different immutable keys have different representations, values need not be cloned to be shared, and the entries can be written.
\<close>

definition map_env_ok :: "'v map_env \<Rightarrow> bool" where
  "map_env_ok E \<longleftrightarrow> (\<forall>v. sz_ShareOrClone (me_value E) v = Some v) \<and>
     (\<forall>v w k. map_getUniqueKey E v = Inr k \<longrightarrow> map_getUniqueKey E w = Inr k \<longrightarrow> v = w) \<and> (\<forall>m. me_persistable E m)"

lemma map_env_okD:
  assumes "map_env_ok E"
  shows "sz_ShareOrClone (me_value E) v = Some v" "map_getUniqueKey E v = Inr k \<Longrightarrow> map_getUniqueKey E w = Inr k \<Longrightarrow> v = w" "me_persistable E m"
  using assms unfolding map_env_ok_def by blast+

fun put_of :: "'v map_op \<Rightarrow> 'v entry option" where
  "put_of (InsertOp k v) = Some (k, v)"
| "put_of (SetOp k v) = Some (k, v)"
| "put_of (RemoveKeyOp _) = None"

text \<open>A transaction does not give two values to a key.\<close>

definition one_value_per_key :: "'v map_op list \<Rightarrow> 'v map_op \<Rightarrow> bool" where
  "one_value_per_key ops op \<longleftrightarrow> (\<forall>k v w. put_of op = Some (k, v) \<longrightarrow> Some (k, w) \<in> set (map put_of ops) \<longrightarrow> w = v)"

fun map_effect :: "'v map_env \<Rightarrow> 'v map_op \<Rightarrow> (string \<rightharpoonup> 'v entry) \<Rightarrow> (string \<rightharpoonup> 'v entry)" where
  "map_effect E (InsertOp k v) m = (case map_getUniqueKey E k of Inr key \<Rightarrow> m(key \<mapsto> (k, v)) | Inl _ \<Rightarrow> m)"
| "map_effect E (SetOp k v) m = (case map_getUniqueKey E k of Inr key \<Rightarrow> m(key \<mapsto> (k, v)) | Inl _ \<Rightarrow> m)"
| "map_effect E (RemoveKeyOp k) m = (case map_getUniqueKey E k of Inr key \<Rightarrow> m(key := None) | Inl _ \<Rightarrow> m)"

definition map_committed :: "'v Map \<Rightarrow> (string \<rightharpoonup> 'v entry)" where
  "map_committed m = fmlookup (entryByKey m)"

definition map_view :: "'v Map \<Rightarrow> (string \<rightharpoonup> 'v entry)" where
  "map_view m = (\<lambda>key. getEntry key m)"

definition map_stored :: "'v Map \<Rightarrow> (string \<rightharpoonup> 'v entry) option" where
  "map_stored m = map_option fmlookup (mp_storage m)"

definition map_inv :: "'v map_env \<Rightarrow> 'v map_op list \<Rightarrow> 'v Map \<Rightarrow> bool" where
  "map_inv E ops m \<longleftrightarrow> map_env_ok E \<and> mp_isShared m \<and>
     (\<forall>key e. fmlookup (entryByKey m) key = Some e \<longrightarrow> map_getUniqueKey E (fst e) = Inr key) \<and>
     (\<forall>(key, e) \<in> set (mp_pendingInclusions m). map_getUniqueKey E (fst e) = Inr key \<and> Some e \<in> set (map put_of ops) \<and>
        (fmlookup (entryByKey m) key = None \<or> fmlookup (entryByKey m) key = Some e)) \<and>
     distinct (map fst (mp_pendingInclusions m)) \<and> distinct (mp_pendingRemovals m) \<and>
     (ops = [] \<longrightarrow> mp_pendingInclusions m = [] \<and> mp_pendingRemovals m = []) \<and>
     (mp_storage m = None \<or> mp_storage m = Some (entryByKey m))"

lemma map_invD:
  assumes "map_inv E ops m"
  shows "map_env_ok E" "mp_isShared m" "fmlookup (entryByKey m) key = Some e \<Longrightarrow> map_getUniqueKey E (fst e) = Inr key"
    "(key, e) \<in> set (mp_pendingInclusions m) \<Longrightarrow> map_getUniqueKey E (fst e) = Inr key"
    "(key, e) \<in> set (mp_pendingInclusions m) \<Longrightarrow> Some e \<in> set (map put_of ops)"
    "(key, e) \<in> set (mp_pendingInclusions m) \<Longrightarrow> fmlookup (entryByKey m) key = None \<or> fmlookup (entryByKey m) key = Some e"
    "distinct (map fst (mp_pendingInclusions m))" "distinct (mp_pendingRemovals m)" "mp_storage m = None \<or> mp_storage m = Some (entryByKey m)"
  using assms unfolding map_inv_def by (cases e; auto)+

lemma persist_map_ok:
  "map_env_ok E \<Longrightarrow> persist_map_if_stored E m = (MapDone, m\<lparr>mp_storage := (if mp_storage m = None then None else Some (entryByKey m))\<rparr>)"
  by (simp add: persist_map_if_stored_def persistMap_def map_env_okD(3))

lemma map_record_path_key_keeps [simp]:
  "entryByKey (map_record_path_key E key m) = entryByKey m" "mp_isShared (map_record_path_key E key m) = mp_isShared m"
  "mp_transactionsWithEndCallback (map_record_path_key E key m) = mp_transactionsWithEndCallback m"
  "mp_pendingInclusions (map_record_path_key E key m) = mp_pendingInclusions m"
  "mp_pendingRemovals (map_record_path_key E key m) = mp_pendingRemovals m" "mp_storage (map_record_path_key E key m) = mp_storage m"
  by (simp_all add: map_record_path_key_def split: option.splits)

text \<open>What \<open>set\<close> does on a shared map.\<close>

lemma set_shared_cases:
  assumes I: "map_inv E ops m"
  obtains (panics) err where "map_set E readonly (Inr otx) otx (k, v) isInsert m = (MapPanicked err, m)"
  | (puts) key where "map_getUniqueKey E k = Inr key"
      "map_set E readonly (Inr otx) otx (k, v) isInsert m =
        (case (case otx of None \<Rightarrow> put_now key (k, v) (map_record_path_key E key m) | Some _ \<Rightarrow> put_pending key (k, v) (map_record_path_key E key m)) of
           (MapPanicked err, m1) \<Rightarrow> (MapPanicked err, m1)
         | (MapDone, m1) \<Rightarrow> (case otx of None \<Rightarrow> persist_map_if_stored E m1 | Some t \<Rightarrow> (MapDone, map_registerEndCallback t m1)))"
      "\<And>t. otx = Some t \<Longrightarrow> \<not> readonly t"
proof -
  note sh = map_invD(2)[OF I] and share = map_env_okD(1)[OF map_invD(1)[OF I]]
  let ?ro = "case otx of Some t \<Rightarrow> readonly t | None \<Rightarrow> False"
  show ?thesis
  proof (cases "(\<exists>key. map_getUniqueKey E k = Inr key) \<and> accepts (mp_Key m) k \<and> accepts (mp_Value m) v \<and> \<not> sz_IsMutable (me_value E) k \<and> \<not> ?ro")
    case True
    then obtain key where key: "map_getUniqueKey E k = Inr key" by blast
    show ?thesis
    proof (rule puts[OF key])
      show "map_set E readonly (Inr otx) otx (k, v) isInsert m =
        (case (case otx of None \<Rightarrow> put_now key (k, v) (map_record_path_key E key m) | Some _ \<Rightarrow> put_pending key (k, v) (map_record_path_key E key m)) of
           (MapPanicked err, m1) \<Rightarrow> (MapPanicked err, m1)
         | (MapDone, m1) \<Rightarrow> (case otx of None \<Rightarrow> persist_map_if_stored E m1 | Some t \<Rightarrow> (MapDone, map_registerEndCallback t m1)))"
        using True key sh share by (cases otx) (simp_all add: map_set_def putEntryInSharedMap_def split: prod.splits map_result.splits)
    qed (use True in auto)
  next
    case False
    then have "\<exists>err. map_set E readonly (Inr otx) otx (k, v) isInsert m = (MapPanicked err, m)"
      using sh share by (cases "map_getUniqueKey E k") (auto simp: map_set_def putEntryInSharedMap_def)
    then show ?thesis using panics by blast
  qed
qed

lemma put_direct:
  assumes I: "map_inv E [] m" and p: "map_set E readonly (Inr None) None (k, v) isInsert m = (r, m')"
  shows "map_inv E [] m' \<and> map_committed m' = (if r = MapDone then map_effect E (SetOp k v) (map_committed m) else map_committed m) \<and>
    mp_transactionsWithEndCallback m' = mp_transactionsWithEndCallback m"
  using I
proof (cases rule: set_shared_cases[where readonly = readonly and otx = None and k = k and v = v and isInsert = isInsert])
  case (panics err)
  then show ?thesis using p I by auto
next
  case (puts key)
  show ?thesis
  proof (cases "fmlookup (entryByKey m) key")
    case None
    then have "r = MapDone"
      "m' = (map_record_path_key E key m)\<lparr>entryByKey := fmupd key (k, v) (entryByKey m),
         mp_storage := (if mp_storage m = None then None else Some (fmupd key (k, v) (entryByKey m)))\<rparr>"
      using p puts(2) persist_map_ok[OF map_invD(1)[OF I]] by (auto simp: put_now_def)
    then show ?thesis using I puts(1) unfolding map_inv_def map_committed_def by (auto split: if_splits)
  next
    case (Some e)
    then have "r \<noteq> MapDone" "m' = map_record_path_key E key m" using p puts(2) by (auto simp: put_now_def)
    then show ?thesis using I unfolding map_inv_def map_committed_def by simp
  qed
qed

lemma put_tx:
  assumes I: "map_inv E ops m" and p: "map_set E readonly (Inr (Some t)) (Some t) (k, v) isInsert m = (r, m')"
    and one: "\<And>w. Some (k, w) \<in> set (map put_of ops) \<Longrightarrow> w = v" and op: "put_of op = Some (k, v)"
  shows "map_inv E (if r = MapDone then ops @ [op] else ops) m' \<and> map_committed m' = map_committed m \<and>
    map_view m' = (if r = MapDone then map_effect E (SetOp k v) (map_view m) else map_view m) \<and>
    mp_transactionsWithEndCallback m' = (if r = MapDone then insert t (mp_transactionsWithEndCallback m) else mp_transactionsWithEndCallback m)"
  using I
proof (cases rule: set_shared_cases[where readonly = readonly and otx = "Some t" and k = k and v = v and isInsert = isInsert])
  case (panics err)
  then show ?thesis using p I by auto
next
  case (puts key)
  show ?thesis
  proof (cases "case fmlookup (entryByKey m) key of Some e \<Rightarrow> v \<noteq> snd e | None \<Rightarrow> False")
    case True
    then have "put_pending key (k, v) (map_record_path_key E key m) = (MapPanicked ErrValueWithSameKeyAlreadyPresent, map_record_path_key E key m)"
      by (cases "fmlookup (entryByKey m) key") (simp_all add: put_pending_def)
    then have "(MapPanicked ErrValueWithSameKeyAlreadyPresent, map_record_path_key E key m) = (r, m')" using p puts(2) by simp
    then have "r \<noteq> MapDone" "m' = map_record_path_key E key m" by auto
    moreover have "map_view (map_record_path_key E key m) = map_view m" unfolding map_view_def getEntry_def map_record_path_key_keeps ..
    ultimately show ?thesis using I unfolding map_inv_def map_committed_def by simp
  next
    case False
    have keys: "map_getUniqueKey E j = Inr key \<Longrightarrow> j = k" for j using map_env_okD(2)[OF map_invD(1)[OF I] _ puts(1)] by blast
    have same: "fmlookup (entryByKey m) key = Some e \<Longrightarrow> e = (k, v)" for e
      using map_invD(3)[OF I, of key e] keys[of "fst e"] False by (cases e) auto
    have incl1: "(key, e) \<in> set (mp_pendingInclusions m) \<Longrightarrow> e = (k, v)" for e
      using map_invD(4,5)[OF I, of key e] keys[of "fst e"] one[of "snd e"] by (cases e) auto
    let ?incl = "if list_ex (\<lambda>(k', _). k' = key) (mp_pendingInclusions m) then mp_pendingInclusions m else mp_pendingInclusions m @ [(key, (k, v))]"
    have "put_pending key (k, v) (map_record_path_key E key m) =
        (MapDone, (map_record_path_key E key m)\<lparr>mp_pendingRemovals := remove1 key (mp_pendingRemovals m), mp_pendingInclusions := ?incl\<rparr>)"
      using False by (cases "fmlookup (entryByKey m) key") (simp_all add: put_pending_def)
    then have "(MapDone, map_registerEndCallback t ((map_record_path_key E key m)\<lparr>
        mp_pendingRemovals := remove1 key (mp_pendingRemovals m), mp_pendingInclusions := ?incl\<rparr>)) = (r, m')"
      using p puts(2) by simp
    then have r: "r = MapDone" and m': "m' = map_registerEndCallback t ((map_record_path_key E key m)\<lparr>
        mp_pendingRemovals := remove1 key (mp_pendingRemovals m), mp_pendingInclusions := ?incl\<rparr>)"
      by auto
    have dist: "distinct (map fst ?incl)" using map_invD(7)[OF I] by (auto simp: list_ex_iff)
    have incl: "map_of ?incl = (map_of (mp_pendingInclusions m))(key \<mapsto> (k, v))"
      by (rule map_of_include[OF map_invD(7)[OF I] incl1])
    have "map_inv E (ops @ [op]) m'"
      using I puts(1) dist op same unfolding m' map_inv_def map_registerEndCallback_def
      by (cases "fmlookup (entryByKey m) key") (auto split: if_splits)
    moreover have "getEntry x m' = ((map_view m)(key \<mapsto> (k, v))) x" for x
      using fun_cong[OF incl, of x] same map_invD(8)[OF I] unfolding m' map_view_def getEntry_def map_registerEndCallback_def
      by (cases "fmlookup (entryByKey m) x") auto
    then have "map_view m' = (map_view m)(key \<mapsto> (k, v))" by (auto simp: map_view_def)
    ultimately show ?thesis using r puts(1) by (simp add: m' map_committed_def map_registerEndCallback_def)
  qed
qed

lemma remove_map_direct:
  assumes I: "map_inv E [] m" and p: "map_Remove E readonly (Inr None) None k m = (r, m')"
  shows "map_inv E [] m' \<and> map_committed m' = (if r = MapDone then map_effect E (RemoveKeyOp k) (map_committed m) else map_committed m) \<and>
    mp_transactionsWithEndCallback m' = mp_transactionsWithEndCallback m"
proof (cases "map_getUniqueKey E k")
  case (Inl e)
  then show ?thesis using p I map_invD(2)[OF I] by (auto simp: map_Remove_def)
next
  case (Inr key)
  then have "r = MapDone" "m' = m\<lparr>entryByKey := fmdrop key (entryByKey m),
      mp_storage := (if mp_storage m = None then None else Some (fmdrop key (entryByKey m)))\<rparr>"
    using p map_invD(2)[OF I] persist_map_ok[OF map_invD(1)[OF I]] by (auto simp: map_Remove_def)
  then show ?thesis using I Inr unfolding map_inv_def map_committed_def by (auto simp: fun_eq_iff split: if_splits)
qed

lemma remove_map_tx:
  assumes I: "map_inv E ops m" and t: "\<not> readonly t" and p: "map_Remove E readonly (Inr (Some t)) (Some t) k m = (r, m')"
  shows "map_inv E (if r = MapDone then ops @ [RemoveKeyOp k] else ops) m' \<and> map_committed m' = map_committed m \<and>
    map_view m' = (if r = MapDone then map_effect E (RemoveKeyOp k) (map_view m) else map_view m) \<and>
    mp_transactionsWithEndCallback m' = (if r = MapDone then insert t (mp_transactionsWithEndCallback m) else mp_transactionsWithEndCallback m)"
proof (cases "map_getUniqueKey E k")
  case (Inl e)
  then show ?thesis using p I t map_invD(2)[OF I] by (auto simp: map_Remove_def)
next
  case (Inr key)
  then have "r = MapDone" "m' = map_registerEndCallback t (m\<lparr>mp_pendingRemovals :=
      (if key \<in> set (mp_pendingRemovals m) then mp_pendingRemovals m else mp_pendingRemovals m @ [key])\<rparr>)"
    using p t map_invD(2)[OF I] by (auto simp: map_Remove_def)
  then show ?thesis
    using I Inr unfolding map_inv_def map_committed_def map_view_def getEntry_def map_registerEndCallback_def
    by (auto simp: fun_eq_iff split: option.splits)
qed

lemma finish_map:
  assumes I: "map_inv E ops m"
  shows "map_inv E [] (map_finish E success m) \<and> map_committed (map_finish E success m) = (if success then map_view m else map_committed m) \<and>
    mp_transactionsWithEndCallback (map_finish E success m) = mp_transactionsWithEndCallback m"
proof (cases success)
  case False
  then show ?thesis using I unfolding map_inv_def map_finish_def map_transactionEnd_def map_committed_def by auto
next
  case True
  let ?e = "fold fmdrop (mp_pendingRemovals m) (fold (\<lambda>(key, value) es. fmupd key value es) (mp_pendingInclusions m) (entryByKey m))"
  have f: "map_finish E success m = m\<lparr>entryByKey := ?e, mp_storage := (if mp_storage m = None then None else Some ?e),
      mp_pendingInclusions := [], mp_pendingRemovals := []\<rparr>"
    using True persist_map_ok[OF map_invD(1)[OF I]] by (simp add: map_finish_def map_transactionEnd_def)
  have e: "fmlookup ?e k = getEntry k m" for k
    unfolding lookup_remove_all lookup_include_all[OF map_invD(7)[OF I]] getEntry_def
    by (cases "map_of (mp_pendingInclusions m) k"; cases "fmlookup (entryByKey m) k") (use map_invD(6)[OF I map_of_SomeD] in fastforce)+
  have "map_getUniqueKey E (fst v) = Inr k" if "getEntry k m = Some v" for k v
    using that map_invD(3)[OF I, of k v] map_invD(4)[OF I map_of_SomeD, of k v] unfolding getEntry_def
    by (simp split: if_splits option.splits)
  then show ?thesis
    using I e True unfolding f map_inv_def map_committed_def map_view_def by (auto simp: fun_eq_iff)
qed

lemma perform_readonly_map:
  assumes "map_inv E ops m" and "readonly t" and "map_perform E readonly (Some t) op m = (ok, m')"
  shows "\<not> ok \<and> m' = m"
  using assms map_invD(2)[OF assms(1)] by (cases op) (auto simp: map_Insert_def map_Set_def map_set_def map_Remove_def split: if_splits)

lemma view_clean_map: "map_inv E [] m \<Longrightarrow> map_view m = map_committed m"
  by (auto simp: map_inv_def map_view_def map_committed_def getEntry_def fun_eq_iff split: option.splits)

lemma perform_put_map:
  assumes "map_inv E ops m" and "\<not> readonly t" and "one_value_per_key ops op" and "map_perform E readonly (Some t) op m = (ok, m')"
  shows "map_inv E (if ok then ops @ [op] else ops) m' \<and> map_committed m' = map_committed m \<and>
    map_view m' = (if ok then map_effect E op (map_view m) else map_view m) \<and>
    mp_transactionsWithEndCallback m' = (if ok then insert t (mp_transactionsWithEndCallback m) else mp_transactionsWithEndCallback m)"
proof (cases op)
  case (InsertOp k v)
  then obtain r where r: "map_set E readonly (Inr (Some t)) (Some t) (k, v) True m = (r, m')" "ok \<longleftrightarrow> r = MapDone"
    using assms(4) by (auto simp: map_Insert_def split: prod.splits)
  then show ?thesis
    using put_tx[OF assms(1) r(1), of op] assms(3) InsertOp by (cases r) (auto simp: one_value_per_key_def)
next
  case (SetOp k v)
  then obtain r where r: "map_set E readonly (Inr (Some t)) (Some t) (k, v) False m = (r, m')" "ok \<longleftrightarrow> r = MapDone"
    using assms(4) by (auto simp: map_Set_def split: prod.splits)
  then show ?thesis
    using put_tx[OF assms(1) r(1), of op] assms(3) SetOp by (cases r) (auto simp: one_value_per_key_def)
next
  case (RemoveKeyOp k)
  then obtain r where r: "map_Remove E readonly (Inr (Some t)) (Some t) k m = (r, m')" "ok \<longleftrightarrow> r = MapDone"
    using assms(4) by (auto split: prod.splits)
  then show ?thesis using remove_map_tx[OF assms(1,2) r(1)] RemoveKeyOp by (cases r) simp_all
qed

interpretation map_tx: tx_collection readonly "map_perform E readonly" "map_finish E" mp_transactionsWithEndCallback one_value_per_key
  map_committed map_view map_stored "map_effect E" "map_inv E" for readonly E
proof (unfold_locales, goal_cases)
  case (1 m)
  then show ?case by (rule view_clean_map)
next
  case (2 ops m)
  then show ?case using map_invD(9)[OF 2] by (auto simp: map_stored_def map_committed_def)
next
  case (3 m op ok m')
  then show ?case using put_direct[OF 3(1)] remove_map_direct[OF 3(1)]
    by (cases op) (auto simp: map_Insert_def map_Set_def split: prod.splits)
next
  case (4 ops m t op ok m')
  then show ?case by (rule perform_put_map)
next
  case (5 ops m t op ok m')
  then show ?case by (rule perform_readonly_map)
next
  case (6 ops m success)
  then show ?case by (rule finish_map)
qed

section \<open>Properties\<close>

definition sample_map_env :: "string map_env" where
  "sample_map_env =
    \<lparr>me_value = \<lparr>sz_IsMutable = (\<lambda>_. False), sz_JSON = Some, sz_Props = (\<lambda>_. None), sz_IsUrlHolder = (\<lambda>_. False), sz_URL = (\<lambda>_. None),
       sz_SetURLOnce = (\<lambda>_ _. None), sz_ShareOrClone = Some\<rparr>,
     me_url = \<lparr>uf_isDirOf = (\<lambda>_ _. False), uf_newElementURL = id, uf_validULID = (\<lambda>_. False)\<rparr>,
     me_equal = (=), me_pathKey = id, me_persistable = (\<lambda>_. True)\<rparr>"

definition sample_map :: "string Map" where
  "sample_map = (new_map None None)\<lparr>mp_isShared := True, mp_storage := Some fmempty\<rparr>"

lemma sample_map_key [simp]: "map_getUniqueKey sample_map_env v = Inr v"
  by (simp add: map_getUniqueKey_def sample_map_env_def key_of_repr_def)

lemma sample_map_inv: "map_inv sample_map_env [] sample_map" "mp_transactionsWithEndCallback sample_map = {}"
  by (simp_all add: map_inv_def map_env_ok_def sample_map_def new_map_def) (simp_all add: sample_map_env_def)

text \<open>
  (C10) The transactions of a shared map are serializable, for maps whose keys have different representations, whose values are shared as
  they are and whose entries can be written (\<open>map_env_ok\<close>), provided that no transaction gives two values to a key, and for calls that do not
  overlap: from its wait to its last statement a call, or an end callback, runs without a step of another one. In every such interleaving
  of whole direct calls of \<open>insert\<close>, \<open>set\<close> and \<open>remove\<close>, of calls in transactions that pass the isolator, and of commits and rollbacks, the
  entries are the result of the direct calls and of the committed transactions that returned normally. The running transaction reads these
  entries with its own changes, and the storage never holds an uncommitted one.
\<close>

theorem map_transactions_serializable:
  assumes "tx_reachable readonly (map_perform E readonly) (map_finish E) mp_transactionsWithEndCallback one_value_per_key m0 w"
    and "map_inv E [] m0" and "mp_transactionsWithEndCallback m0 = {}"
  shows "fmlookup (entryByKey (tw_coll w)) = fold (map_effect E) (tw_log w) (fmlookup (entryByKey m0)) \<and>
    (\<forall>key. getEntry key (tw_coll w) = fold (map_effect E) (tw_opened w) (fmlookup (entryByKey (tw_coll w))) key) \<and>
    (mp_storage (tw_coll w) = None \<or> mp_storage (tw_coll w) = Some (entryByKey (tw_coll w)))"
proof -
  note S = map_tx.serializable[OF assms]
  have "mp_storage (tw_coll w) = None \<or> mp_storage (tw_coll w) = Some (entryByKey (tw_coll w))"
    using map_invD(9) map_tx.interleaving_inv[OF assms] unfolding map_tx.world_inv_def by blast
  then show ?thesis using S(1,2) by (auto simp: map_committed_def map_view_def dest: fun_cong)
qed

theorem map_transactions_serializable_witness:
  "\<exists>w. tx_reachable (\<lambda>_. False) (map_perform sample_map_env (\<lambda>_. False)) (map_finish sample_map_env) mp_transactionsWithEndCallback one_value_per_key sample_map w \<and>
     tw_log w = [InsertOp ''a'' ''1'', SetOp ''b'' ''2'', RemoveKeyOp ''a''] \<and> fmlookup (entryByKey (tw_coll w)) = [''b'' \<mapsto> (''b'', ''2'')]"
proof -
  let ?R = "tx_reachable (\<lambda>_. False) (map_perform sample_map_env (\<lambda>_. False)) (map_finish sample_map_env) mp_transactionsWithEndCallback one_value_per_key sample_map"
  let ?w = "\<lambda>coll i fin log opened. \<lparr>tw_coll = coll, tw_iso = \<lparr>currentWriteTx = i, readonlyTxs = nil_slice\<rparr>, tw_fin = fin, tw_log = log, tw_opened = opened\<rparr>"
  let ?p = "\<lambda>otx op m. snd (map_perform sample_map_env (\<lambda>_. False) otx op m)"
  have env: "\<not> sz_IsMutable (me_value sample_map_env) v" "sz_ShareOrClone (me_value sample_map_env) v = Some v" for v
    by (simp_all add: sample_map_env_def)
  note eval = map_Insert_def map_Set_def map_set_def map_Remove_def putEntryInSharedMap_def accepts_def put_now_def put_pending_def
    map_record_path_key_def map_registerEndCallback_def persist_map_ok[OF map_invD(1)[OF sample_map_inv(1)]] sample_map_def new_map_def env
  define m1 where "m1 = ?p None (InsertOp ''a'' ''1'') sample_map"
  define m2 where "m2 = ?p (Some 1) (SetOp ''b'' ''2'') m1"
  define m3 where "m3 = ?p (Some 1) (RemoveKeyOp ''a'') m2"
  have p1: "map_perform sample_map_env (\<lambda>_. False) None (InsertOp ''a'' ''1'') sample_map = (True, m1)" unfolding m1_def by (simp add: eval)
  have p2: "map_perform sample_map_env (\<lambda>_. False) (Some 1) (SetOp ''b'' ''2'') m1 = (True, m2)" unfolding m2_def m1_def by (simp add: eval)
  have p3: "map_perform sample_map_env (\<lambda>_. False) (Some 1) (RemoveKeyOp ''a'') m2 = (True, m3)" unfolding m3_def m2_def m1_def by (simp add: eval)
  have reg: "1 \<in> mp_transactionsWithEndCallback m3" unfolding m3_def m2_def m1_def by (simp add: eval)
  have a0: "strong_attempt (\<lambda>_. False) {} None False 0 \<lparr>currentWriteTx = None, readonlyTxs = nil_slice\<rparr> = (Returns None, \<lparr>currentWriteTx = None, readonlyTxs = nil_slice\<rparr>)"
    by (simp add: strong_attempt_def clear_finished_def MAX_SUBSEQUENT_WAIT_WRITE_TX_COUNT_def)
  have a: "strong_attempt (\<lambda>_. False) {} (Some 1) False 0 \<lparr>currentWriteTx = i, readonlyTxs = nil_slice\<rparr> = (Returns (Some 1), \<lparr>currentWriteTx = Some 1, readonlyTxs = nil_slice\<rparr>)"
    if "i = None \<or> i = Some 1" for i
    using that by (auto simp: strong_attempt_def clear_finished_def MAX_SUBSEQUENT_WAIT_WRITE_TX_COUNT_def)
  have "?R (?w sample_map None {} [] [])" unfolding new_strong_isolator_def[symmetric] by (rule tr_init)
  from tr_direct[OF this, of 0 _ "InsertOp ''a'' ''1''"] have "?R (?w m1 None {} [InsertOp ''a'' ''1''] [])" using a0 p1 by simp
  from tr_call[OF this, of 1 0 _ "SetOp ''b'' ''2''"] have "?R (?w m2 (Some 1) {} [InsertOp ''a'' ''1''] [SetOp ''b'' ''2''])"
    using a[of None] p2 by (simp add: one_value_per_key_def)
  from tr_call[OF this, of 1 0 _ "RemoveKeyOp ''a''"]
  have "?R (?w m3 (Some 1) {} [InsertOp ''a'' ''1''] [SetOp ''b'' ''2'', RemoveKeyOp ''a''])" using a[of "Some 1"] p3 by (simp add: one_value_per_key_def)
  from tr_end[OF this, of 1 True] reg
  have w: "?R (?w (map_finish sample_map_env True m3) (Some 1) {1} [InsertOp ''a'' ''1'', SetOp ''b'' ''2'', RemoveKeyOp ''a''] [])" by simp
  have "fmlookup (entryByKey sample_map) = Map.empty" by (simp add: sample_map_def new_map_def fun_eq_iff)
  then show ?thesis
    using w map_transactions_serializable[OF w sample_map_inv]
    by (intro exI[of _ "?w (map_finish sample_map_env True m3) (Some 1) {1} [InsertOp ''a'' ''1'', SetOp ''b'' ''2'', RemoveKeyOp ''a''] []"]) auto
qed

section \<open>Where maps differ from what they mean to do\<close>

text \<open>
  \<open>Set\<close> never changes the value of a key: in a map that is not shared it does nothing, in a shared one it panics without a transaction
  and, unless the value is the same, in a transaction.
\<close>

lemma set_does_not_update:
  assumes "map_getUniqueKey E k = Inr key" and "fmlookup (entryByKey m) key = Some (k, w)" and "accepts (mp_Key m) k" and "accepts (mp_Value m) v"
    and "\<not> sz_IsMutable (me_value E) k" and "sz_ShareOrClone (me_value E) v = Some v"
  shows "\<not> mp_isShared m \<Longrightarrow> map_Set E readonly waited ctxTx k v m = (MapDone, m)"
    and "mp_isShared m \<Longrightarrow> fst (map_Set E readonly (Inr None) None k v m) = MapPanicked ErrValueWithSameKeyAlreadyPresent"
    and "mp_isShared m \<Longrightarrow> \<not> readonly t \<Longrightarrow> v \<noteq> w \<Longrightarrow>
      fst (map_Set E readonly (Inr (Some t)) (Some t) k v m) = MapPanicked ErrValueWithSameKeyAlreadyPresent"
  using assms by (simp_all add: map_Set_def map_set_def set_unshared_def putEntryInSharedMap_def put_now_def put_pending_def)

text \<open>A key that a transaction has set cannot be set again by it: the second value is dropped without an error.\<close>

lemma second_set_lost:
  assumes "(key, e) \<in> set (mp_pendingInclusions m)" and "distinct (map fst (mp_pendingInclusions m))" and "fmlookup (entryByKey m) key = None"
    and "key \<notin> set (mp_pendingRemovals m)"
  shows "put_pending key e' m = (MapDone, m)"
proof -
  have "list_ex (\<lambda>(k', _). k' = key) (mp_pendingInclusions m)" using assms(1) by (auto simp: list_ex_iff)
  then show ?thesis using assms(3,4) by (simp add: put_pending_def remove1_idem)
qed

text \<open>
  After a transaction has inserted and removed a key, the key is absent for \<open>Get\<close>, but \<open>Contains\<close> finds its value and an
  iterator visits its entry.
\<close>

lemma contains_removed:
  assumes "(key, (k, v)) \<in> set (mp_pendingInclusions m)" and "key \<in> set (mp_pendingRemovals m)" and "me_equal E v v"
  shows "getEntry key m = None" and "map_Contains E (Inr otx) v m = Inr True" and "(k, v) \<in> set (iterator_entries m)"
  using assms by (auto simp: getEntry_def map_Contains_def iterator_entries_def list_ex_iff intro!: bexI[of _ "(key, (k, v))"] image_eqI[of _ _ "(key, (k, v))"])

end
