(* ===== verification/Threads.thy ===== *)
theory Threads
  imports Prelude "HOL-Library.Word"
begin

text \<open>
  Message threads (\<open>internal/globals/containers/threadcoll\<close>: \<open>thread.go\<close>, \<open>iterator.go\<close>, writing and reading of \<open>persistence.go\<close>).
  Elements are kept in insertion order; those that a transaction adds stay in the list and become visible to others at the commit.
  A thread has no isolator: several transactions may have pending elements at the same time. A method holds the lock
  of the thread and is one step. ULIDs are 128-bit words, compared as such; a transaction is represented by its ULID, which is not zero.
  Objects are references, and the URL of each is part of the state.
\<close>

section \<open>State\<close>

type_synonym ULID = "128 word"

definition MAX_ULID :: ULID where
  "MAX_ULID = - 1"

definition Before :: "ULID \<Rightarrow> ULID \<Rightarrow> bool" where
  "Before i other \<longleftrightarrow> i < other"

record 'o internalElement =
  actualElement :: 'o
  txID :: ULID
  ulid :: ULID
  commitedTx :: bool

record pendingInclusion =
  pi_tx :: ULID
  firstElemDistance :: nat

record 'o MessageThread =
  elements :: "'o internalElement list"
  th_pendingInclusions :: "pendingInclusion list"
  urlAsDir :: string
  th_storage :: "'o list option"
  th_objectURL :: "'o \<rightharpoonup> string"

text \<open>URLs: whether one is the directory of another, the ULID of an element URL, and the URL of an element.\<close>

record thread_urls =
  tu_isDirOf :: "string \<Rightarrow> string \<Rightarrow> bool"
  tu_elementID :: "string \<Rightarrow> ULID option"
  tu_elementURL :: "string \<Rightarrow> ULID \<Rightarrow> string"

datatype thread_error = ThreadReadonlyTransaction | InvalidInitialElement | ErrObjectAlreadyHaveURL | ThreadFinishedTransaction | IndexOutOfRange

datatype thread_result = ThreadOk | ThreadPanic thread_error

definition newEmptyThread :: "string \<Rightarrow> 'o list option \<Rightarrow> ('o \<rightharpoonup> string) \<Rightarrow> 'o MessageThread" where
  "newEmptyThread dir store urls = \<lparr>elements = [], th_pendingInclusions = [], urlAsDir = dir, th_storage = store, th_objectURL = urls\<rparr>"

section \<open>Reading\<close>

definition isVisibleByTx :: "ULID option \<Rightarrow> 'o internalElement \<Rightarrow> bool" where
  "isVisibleByTx optTx e \<longleftrightarrow> commitedTx e \<or> txID e = 0 \<or> (case optTx of Some t \<Rightarrow> txID e = t | None \<Rightarrow> False)"

definition thread_Contains :: "ULID option \<Rightarrow> 'o \<Rightarrow> 'o MessageThread \<Rightarrow> bool" where
  "thread_Contains tx obj th \<longleftrightarrow> list_ex (\<lambda>e. actualElement e = obj \<and> isVisibleByTx tx e) (elements th)"

definition thread_IsEmpty :: "ULID option \<Rightarrow> 'o MessageThread \<Rightarrow> bool" where
  "thread_IsEmpty tx th \<longleftrightarrow> \<not> list_ex (isVisibleByTx tx) (elements th)"

text \<open>The argument is the parsed key, \<open>None\<close> when it is not a ULID.\<close>

definition thread_GetElementByKey :: "ULID option \<Rightarrow> 'o MessageThread \<Rightarrow> 'o option" where
  "thread_GetElementByKey key th =
    (case key of None \<Rightarrow> None | Some k \<Rightarrow> map_option actualElement (find (\<lambda>e. ulid e = k) (elements th)))"

text \<open>The inner loop of \<open>getElementsBefore\<close>: at most \<open>n\<close> visible elements, from the given ones, newest first.\<close>

fun collect_visible :: "ULID option \<Rightarrow> nat \<Rightarrow> 'o internalElement list \<Rightarrow> 'o internalElement list" where
  "collect_visible tx n [] = []"
| "collect_visible tx n (e # es) =
    (let found = (if isVisibleByTx tx e then [e] else [])
     in if length found = n then found else found @ collect_visible tx (n - length found) es)"

definition getElementsBefore :: "ULID option \<Rightarrow> ULID \<Rightarrow> int \<Rightarrow> 'o MessageThread \<Rightarrow> 'o internalElement list" where
  "getElementsBefore tx end maxElemCount th =
    (if maxElemCount \<le> 0 then []
     else collect_visible tx (nat maxElemCount) (dropWhile (\<lambda>e. \<not> Before (ulid e) end) (rev (elements th))))"

definition MAX_ITERATOR_THREAD_SEGMENT_SIZE :: int where
  "MAX_ITERATOR_THREAD_SEGMENT_SIZE = 10"

record 'o thread_iterator =
  cursor :: ULID
  segment :: "'o internalElement list"
  it_first :: bool

definition thread_iterator_start :: "'o thread_iterator" where
  "thread_iterator_start = \<lparr>cursor = MAX_ULID, segment = [], it_first = True\<rparr>"

definition thread_HasNext :: "ULID option \<Rightarrow> 'o MessageThread \<Rightarrow> 'o thread_iterator \<Rightarrow> bool \<times> 'o thread_iterator" where
  "thread_HasNext tx th it =
    (if \<not> it_first it \<and> segment it \<noteq> [] then (True, it)
     else
       (let seg = getElementsBefore tx (cursor it) MAX_ITERATOR_THREAD_SEGMENT_SIZE th
        in if seg = [] then (False, it\<lparr>it_first := False, segment := []\<rparr>)
           else (True, it\<lparr>it_first := False, segment := seg, cursor := ulid (last seg)\<rparr>)))"

definition thread_Next :: "ULID option \<Rightarrow> 'o MessageThread \<Rightarrow> 'o thread_iterator \<Rightarrow> ('o internalElement \<times> 'o thread_iterator) option" where
  "thread_Next tx th it =
    (case thread_HasNext tx th it of (False, _) \<Rightarrow> None | (True, it1) \<Rightarrow> Some (hd (segment it1), it1\<lparr>segment := tl (segment it1)\<rparr>))"

text \<open>A loop over an iterator, with fuel.\<close>

fun iterate :: "nat \<Rightarrow> ULID option \<Rightarrow> 'o MessageThread \<Rightarrow> 'o thread_iterator \<Rightarrow> 'o internalElement list option" where
  "iterate 0 tx th it = None"
| "iterate (Suc n) tx th it =
    (case thread_Next tx th it of None \<Rightarrow> Some [] | Some (e, it1) \<Rightarrow> map_option ((#) e) (iterate n tx th it1))"

section \<open>Adding\<close>

definition bump_distances :: "pendingInclusion list \<Rightarrow> pendingInclusion list" where
  "bump_distances = map (\<lambda>p. p\<lparr>firstElemDistance := Suc (firstElemDistance p)\<rparr>)"

definition addNoLock :: "thread_urls \<Rightarrow> (ULID \<Rightarrow> bool) \<Rightarrow> (ULID \<Rightarrow> bool) \<Rightarrow> ULID \<Rightarrow> ULID option \<Rightarrow> 'o \<Rightarrow> bool \<Rightarrow> 'o MessageThread \<Rightarrow> thread_result \<times> 'o MessageThread" where
  "addNoLock U readonly finished fresh tx0 e init th =
    (let tx = (if init then None else tx0);
         append = (\<lambda>elemULID th1.
           let th2 = th1\<lparr>elements := elements th1 @ [\<lparr>actualElement = e, txID = (case tx of None \<Rightarrow> 0 | Some t \<Rightarrow> t), ulid = elemULID, commitedTx = (tx = None)\<rparr>],
                 th_pendingInclusions := bump_distances (th_pendingInclusions th1)\<rparr>
           in case tx of
                None \<Rightarrow> (ThreadOk, th2)
              | Some t \<Rightarrow>
                  if list_ex (\<lambda>p. pi_tx p = t) (th_pendingInclusions th1) then (ThreadOk, th2)
                  else if finished t then (ThreadPanic ThreadFinishedTransaction, th2)
                  else (ThreadOk, th2\<lparr>th_pendingInclusions := th_pendingInclusions th2 @ [\<lparr>pi_tx = t, firstElemDistance = 0\<rparr>]\<rparr>))
     in if (case tx of Some t \<Rightarrow> readonly t | None \<Rightarrow> False) then (ThreadPanic ThreadReadonlyTransaction, th)
        else (case th_objectURL th e of
                Some url \<Rightarrow>
                  if init then
                    (if \<not> tu_isDirOf U (urlAsDir th) url then (ThreadPanic InvalidInitialElement, th)
                     else (case tu_elementID U url of
                             None \<Rightarrow> (ThreadPanic InvalidInitialElement, th)
                           | Some i \<Rightarrow> append i th))
                  else (ThreadPanic ErrObjectAlreadyHaveURL, th)
              | None \<Rightarrow> append fresh (th\<lparr>th_objectURL := (th_objectURL th)(e \<mapsto> tu_elementURL U (urlAsDir th) fresh)\<rparr>)))"

definition thread_Add :: "thread_urls \<Rightarrow> (ULID \<Rightarrow> bool) \<Rightarrow> (ULID \<Rightarrow> bool) \<Rightarrow> ULID \<Rightarrow> ULID option \<Rightarrow> 'o \<Rightarrow> 'o MessageThread \<Rightarrow> thread_result \<times> 'o MessageThread" where
  "thread_Add U readonly finished fresh tx e th = addNoLock U readonly finished fresh tx e False th"

section \<open>End of a transaction\<close>

text \<open>The search for the first element of a transaction, from a position on: its index in the list.\<close>

fun find_index_from :: "nat \<Rightarrow> ULID \<Rightarrow> 'o internalElement list \<Rightarrow> nat option" where
  "find_index_from i t [] = None"
| "find_index_from i t (e # es) = (if txID e \<noteq> 0 \<and> txID e = t then Some i else find_index_from (Suc i) t es)"

definition update_distance :: "'o internalElement list \<Rightarrow> ULID \<Rightarrow> pendingInclusion \<Rightarrow> pendingInclusion" where
  "update_distance es t p =
    (if pi_tx p = t then p
     else
       (let prev = nat (max 0 (int (length es) - int (firstElemDistance p)))
        in case find_index_from prev (pi_tx p) (drop prev es) of
             None \<Rightarrow> p
           | Some i \<Rightarrow> p\<lparr>firstElemDistance := i\<rparr>))"

definition commit_from :: "nat \<Rightarrow> 'o internalElement list \<Rightarrow> 'o internalElement list" where
  "commit_from i es = take i es @ map (\<lambda>e. e\<lparr>commitedTx := True\<rparr>) (drop i es)"

definition persistThread :: "'o MessageThread \<Rightarrow> 'o MessageThread" where
  "persistThread th = th\<lparr>th_storage := Some (map actualElement (elements th))\<rparr>"

text \<open>The function that \<open>makeTransactionEndCallback\<close> returns; the pending inclusions of the transaction are removed in every case.\<close>

definition thread_transactionEnd :: "ULID \<Rightarrow> bool \<Rightarrow> 'o MessageThread \<Rightarrow> thread_result \<times> 'o MessageThread" where
  "thread_transactionEnd t success th =
    (case find (\<lambda>p. pi_tx p = t) (th_pendingInclusions th) of
       None \<Rightarrow> (ThreadOk, th)
     | Some changes \<Rightarrow>
         (let (res, th1) =
            (if \<not> success then
               (let es = filter (\<lambda>e. txID e \<noteq> t) (elements th)
                in (ThreadOk, th\<lparr>elements := es, th_pendingInclusions := map (update_distance es t) (th_pendingInclusions th)\<rparr>))
             else
               (let start = int (length (elements th)) - int (firstElemDistance changes) - 1
                in if start < 0 then (ThreadPanic IndexOutOfRange, th)
                   else
                     (let th2 = th\<lparr>elements := commit_from (nat start) (elements th)\<rparr>
                      in (ThreadOk, if th_storage th2 \<noteq> None then persistThread th2 else th2))))
          in (res, th1\<lparr>th_pendingInclusions := filter (\<lambda>p. pi_tx p \<noteq> t) (th_pendingInclusions th1)\<rparr>)))"

section \<open>Loading\<close>

text \<open>The stored objects carry their URLs; an object without URL gets a new one.\<close>

fun load_thread_elements :: "thread_urls \<Rightarrow> (nat \<Rightarrow> ULID) \<Rightarrow> 'o list \<Rightarrow> 'o MessageThread \<Rightarrow> thread_error + 'o MessageThread" where
  "load_thread_elements U fresh [] th = Inr th"
| "load_thread_elements U fresh (e # es) th =
    (case addNoLock U (\<lambda>_. False) (\<lambda>_. False) (fresh 0) None e True th of
       (ThreadPanic err, _) \<Rightarrow> Inl err
     | (ThreadOk, th1) \<Rightarrow> load_thread_elements U (\<lambda>i. fresh (Suc i)) es th1)"

definition loadThread :: "thread_urls \<Rightarrow> (nat \<Rightarrow> ULID) \<Rightarrow> string \<Rightarrow> ('o \<rightharpoonup> string) \<Rightarrow> 'o list \<Rightarrow> thread_error + 'o MessageThread" where
  "loadThread U fresh dir urls serialized = load_thread_elements U fresh serialized (newEmptyThread dir (Some serialized) urls)"

section \<open>Reading in order\<close>

lemma collect_visible_eq: "0 < n \<Longrightarrow> collect_visible tx n es = take n (filter (isVisibleByTx tx) es)"
proof (induction es arbitrary: n)
  case (Cons e es)
  then show ?case by (cases n; cases "n = 1") (auto simp: Let_def)
qed simp

text \<open>Elements are appended with increasing ULIDs.\<close>

definition chronological :: "'o MessageThread \<Rightarrow> bool" where
  "chronological th \<longleftrightarrow> sorted_wrt (\<lambda>a b. ulid a < ulid b) (elements th)"

definition visible_before :: "ULID option \<Rightarrow> ULID \<Rightarrow> 'o MessageThread \<Rightarrow> 'o internalElement list" where
  "visible_before tx end th = rev (filter (\<lambda>e. ulid e < end \<and> isVisibleByTx tx e) (elements th))"

lemma dropWhile_descending:
  assumes "sorted_wrt (\<lambda>a b. ulid b < ulid a) es"
  shows "dropWhile (\<lambda>e. \<not> Before (ulid e) end) es = filter (\<lambda>e. ulid e < end) es"
  using assms
proof (induction es)
  case (Cons e es)
  then show ?case
  proof (cases "ulid e < end")
    case True
    then have "\<forall>x \<in> set es. ulid x < end" using Cons.prems by force
    then show ?thesis using True by (simp add: Before_def)
  qed (simp add: Before_def)
qed simp

lemma getElementsBefore_eq:
  assumes "chronological th" and "0 < n"
  shows "getElementsBefore tx end n th = take (nat n) (visible_before tx end th)"
proof -
  have "sorted_wrt (\<lambda>a b. ulid b < ulid a) (rev (elements th))" using assms(1) by (simp add: chronological_def sorted_wrt_rev)
  then show ?thesis
    using assms(2) by (simp add: getElementsBefore_def dropWhile_descending collect_visible_eq visible_before_def rev_filter conj_commute)
qed

lemma filter_below_last:
  assumes "sorted_wrt (\<lambda>a b. ulid b < ulid a) xs" and "take n xs \<noteq> []"
  shows "filter (\<lambda>e. ulid e < ulid (last (take n xs))) xs = drop n xs"
proof -
  let ?l = "last (take n xs)"
  have s: "sorted_wrt (\<lambda>a b. ulid b < ulid a) (butlast (take n xs) @ ?l # drop n xs)"
    using assms by (metis append.assoc append_Cons append_Nil append_butlast_last_id append_take_drop_id)
  have "xs = butlast (take n xs) @ ?l # drop n xs"
    using assms(2) by (metis append.assoc append_Cons append_Nil append_butlast_last_id append_take_drop_id)
  then have "filter (\<lambda>e. ulid e < ulid ?l) xs = filter (\<lambda>e. ulid e < ulid ?l) (butlast (take n xs) @ ?l # drop n xs)" by presburger
  also have "\<dots> = filter (\<lambda>e. ulid e < ulid ?l) (drop n xs)"
    using s by (auto simp: sorted_wrt_append filter_empty_conv dest: less_not_sym)
  also have "\<dots> = drop n xs" using s by (simp add: sorted_wrt_append filter_id_conv)
  finally show ?thesis .
qed

lemma visible_before_descending: "chronological th \<Longrightarrow> sorted_wrt (\<lambda>a b. ulid b < ulid a) (visible_before tx end th)"
  by (simp add: chronological_def visible_before_def sorted_wrt_rev sorted_wrt_filter)

lemma visible_before_lower: "end' \<le> end \<Longrightarrow> visible_before tx end' th = filter (\<lambda>e. ulid e < end') (visible_before tx end th)"
  by (auto simp: visible_before_def rev_filter intro!: filter_cong)

definition remaining :: "ULID option \<Rightarrow> 'o MessageThread \<Rightarrow> 'o thread_iterator \<Rightarrow> 'o internalElement list" where
  "remaining tx th it = segment it @ visible_before tx (cursor it) th"

lemma thread_HasNext_remaining:
  assumes "chronological th" and "it_first it \<Longrightarrow> segment it = []" and "thread_HasNext tx th it = (b, it1)"
  shows "remaining tx th it1 = remaining tx th it" and "\<not> it_first it1" and "b \<longleftrightarrow> segment it1 \<noteq> []" and "b \<longleftrightarrow> remaining tx th it \<noteq> []"
proof -
  have "remaining tx th it1 = remaining tx th it \<and> \<not> it_first it1 \<and> (b \<longleftrightarrow> segment it1 \<noteq> []) \<and> (b \<longleftrightarrow> remaining tx th it \<noteq> [])"
  proof (cases "\<not> it_first it \<and> segment it \<noteq> []")
    case True
    then show ?thesis using assms(3) by (auto simp: thread_HasNext_def remaining_def)
  next
    case False
    let ?R = "visible_before tx (cursor it) th"
    have seg: "segment it = []" using False assms(2) by blast
    have g: "getElementsBefore tx (cursor it) MAX_ITERATOR_THREAD_SEGMENT_SIZE th = take 10 ?R"
      using getElementsBefore_eq[OF assms(1)] by (simp add: MAX_ITERATOR_THREAD_SEGMENT_SIZE_def)
    show ?thesis
    proof (cases "?R = []")
      case True
      then show ?thesis using assms(3) seg g False by (auto simp: thread_HasNext_def remaining_def Let_def split: if_splits)
    next
      case R: False
      then have ne: "take 10 ?R \<noteq> []" by simp
      have "last (take 10 ?R) \<in> set ?R" using ne by (meson in_set_takeD last_in_set)
      then have le: "ulid (last (take 10 ?R)) \<le> cursor it" by (auto simp: visible_before_def)
      have "visible_before tx (ulid (last (take 10 ?R))) th = drop 10 ?R"
        unfolding visible_before_lower[OF le] by (rule filter_below_last[OF visible_before_descending[OF assms(1)] ne])
      then show ?thesis using assms(3) seg g ne False R by (auto simp: thread_HasNext_def remaining_def Let_def split: if_splits)
    qed
  qed
  then show "remaining tx th it1 = remaining tx th it" "\<not> it_first it1" "b \<longleftrightarrow> segment it1 \<noteq> []" "b \<longleftrightarrow> remaining tx th it \<noteq> []" by blast+
qed

lemma iterate_remaining:
  assumes "chronological th" and "it_first it \<Longrightarrow> segment it = []" and "length (remaining tx th it) < n"
  shows "iterate n tx th it = Some (remaining tx th it)"
  using assms(2,3)
proof (induction n arbitrary: it)
  case (Suc n)
  obtain b it1 where h: "thread_HasNext tx th it = (b, it1)" by (cases "thread_HasNext tx th it")
  note H = thread_HasNext_remaining[OF assms(1) Suc.prems(1) h]
  show ?case
  proof (cases b)
    case False
    then show ?thesis using h H(4) by (simp add: thread_Next_def)
  next
    case True
    let ?it = "it1\<lparr>segment := tl (segment it1)\<rparr>"
    have r: "remaining tx th it = hd (segment it1) # remaining tx th ?it" using H(1,3) True by (cases "segment it1") (auto simp: remaining_def)
    then have "iterate n tx th ?it = Some (remaining tx th ?it)" using Suc.prems(2) H(2) by (intro Suc.IH) auto
    then show ?thesis using h True r by (simp add: thread_Next_def)
  qed
qed simp

section \<open>One writing transaction at a time\<close>

text \<open>
  The abstract thread: the messages in the order in which they were added, each with the transaction that has added it as long as
  this transaction is not committed.
\<close>

type_synonym 'o abstract_thread = "('o \<times> ULID option) list"

definition spec_commit :: "ULID \<Rightarrow> 'o abstract_thread \<Rightarrow> 'o abstract_thread" where
  "spec_commit t = map (\<lambda>(e, w). (e, if w = Some t then None else w))"

definition spec_rollback :: "ULID \<Rightarrow> 'o abstract_thread \<Rightarrow> 'o abstract_thread" where
  "spec_rollback t = filter (\<lambda>(e, w). w \<noteq> Some t)"

definition spec_visible :: "ULID option \<Rightarrow> 'o abstract_thread \<Rightarrow> 'o list" where
  "spec_visible tx l = map fst (filter (\<lambda>(e, w). w = None \<or> w = tx) l)"

definition owner :: "'o internalElement \<Rightarrow> ULID option" where
  "owner e = (if commitedTx e then None else Some (txID e))"

definition thread_abs :: "'o MessageThread \<Rightarrow> 'o abstract_thread" where
  "thread_abs th = map (\<lambda>e. (actualElement e, owner e)) (elements th)"

text \<open>
  The runs in which a transaction only adds while no other transaction has pending elements; calls without transaction
  may come at any time.
\<close>

inductive thread_reachable :: "thread_urls \<Rightarrow> (ULID \<Rightarrow> bool) \<Rightarrow> 'o MessageThread \<Rightarrow> 'o MessageThread \<Rightarrow> ULID set \<Rightarrow> 'o abstract_thread \<Rightarrow> bool"
  for U readonly th0 where
  tr_new: "thread_reachable U readonly th0 th0 {} (thread_abs th0)"
| tr_add: "thread_reachable U readonly th0 th fin l \<Longrightarrow>
    (case tx of None \<Rightarrow> True | Some t \<Rightarrow> t \<noteq> 0 \<and> t \<notin> fin \<and> list_all (\<lambda>p. pi_tx p = t) (th_pendingInclusions th)) \<Longrightarrow>
    thread_Add U readonly (\<lambda>t. t \<in> fin) fresh tx e th = (res, th') \<Longrightarrow>
    thread_reachable U readonly th0 th' fin (if res = ThreadOk then l @ [(e, tx)] else l)"
| tr_finish: "thread_reachable U readonly th0 th fin l \<Longrightarrow> t \<noteq> 0 \<Longrightarrow> t \<notin> fin \<Longrightarrow>
    thread_transactionEnd t success th = (res, th') \<Longrightarrow>
    thread_reachable U readonly th0 th' (insert t fin) (if success then spec_commit t l else spec_rollback t l)"

text \<open>The pending elements of the writer are among the last ones, from the recorded distance on.\<close>

definition writer_tail :: "ULID \<Rightarrow> nat \<Rightarrow> 'o internalElement list \<Rightarrow> bool" where
  "writer_tail t d es \<longleftrightarrow> d < length es \<and> (\<forall>e \<in> set (take (length es - d - 1) es). commitedTx e) \<and> (\<forall>e \<in> set es. commitedTx e \<or> txID e = t)"

definition thread_inv :: "ULID set \<Rightarrow> 'o MessageThread \<Rightarrow> bool" where
  "thread_inv fin th \<longleftrightarrow>
     (\<forall>e \<in> set (elements th). if commitedTx e then txID e = 0 \<or> txID e \<in> fin else txID e \<noteq> 0 \<and> txID e \<notin> fin) \<and>
     (case th_pendingInclusions th of
        [] \<Rightarrow> \<forall>e \<in> set (elements th). commitedTx e
      | [p] \<Rightarrow> pi_tx p \<noteq> 0 \<and> pi_tx p \<notin> fin \<and> writer_tail (pi_tx p) (firstElemDistance p) (elements th)
      | _ \<Rightarrow> False)"

lemma thread_inv_cases:
  assumes "thread_inv fin th"
  obtains (idle) "th_pendingInclusions th = []" "\<And>e. e \<in> set (elements th) \<Longrightarrow> commitedTx e"
  | (writer) t d where "th_pendingInclusions th = [\<lparr>pi_tx = t, firstElemDistance = d\<rparr>]" "t \<noteq> 0" "t \<notin> fin" "writer_tail t d (elements th)"
proof (cases "th_pendingInclusions th")
  case Nil
  then show ?thesis using assms idle by (simp add: thread_inv_def)
next
  case (Cons p ps)
  then show ?thesis using assms writer[of "pi_tx p" "firstElemDistance p"] by (cases ps; cases p) (simp_all add: thread_inv_def)
qed

lemma thread_inv_elem:
  assumes "thread_inv fin th" and "e \<in> set (elements th)"
  shows "if commitedTx e then txID e = 0 \<or> txID e \<in> fin else txID e \<noteq> 0 \<and> txID e \<notin> fin"
  using assms unfolding thread_inv_def by blast

lemma writer_tail_snoc:
  assumes "writer_tail t d es" and "commitedTx e \<or> txID e = t"
  shows "writer_tail t (Suc d) (es @ [e])"
  using assms by (auto simp: writer_tail_def)

lemma writer_tail_new:
  assumes "\<And>e. e \<in> set es \<Longrightarrow> commitedTx e" and "txID e = t"
  shows "writer_tail t 0 (es @ [e])"
  using assms by (auto simp: writer_tail_def dest: in_set_takeD)

text \<open>What a call of \<open>Add\<close> does when it does not panic.\<close>

lemma thread_Add_cases:
  assumes "thread_Add U readonly (\<lambda>t. t \<in> fin) fresh tx e th = (res, th')" and "case tx of None \<Rightarrow> True | Some t \<Rightarrow> t \<notin> fin"
  obtains (panics) err where "res = ThreadPanic err" "th' = th"
  | (adds) u where "res = ThreadOk"
      "elements th' = elements th @ [\<lparr>actualElement = e, txID = (case tx of None \<Rightarrow> 0 | Some t \<Rightarrow> t), ulid = u, commitedTx = (tx = None)\<rparr>]"
      "th_pendingInclusions th' = bump_distances (th_pendingInclusions th) @
        (case tx of None \<Rightarrow> [] | Some t \<Rightarrow> if list_ex (\<lambda>p. pi_tx p = t) (th_pendingInclusions th) then [] else [\<lparr>pi_tx = t, firstElemDistance = 0\<rparr>])"
proof (cases "(case tx of Some t \<Rightarrow> readonly t | None \<Rightarrow> False) \<or> th_objectURL th e \<noteq> None")
  case True
  then have "\<exists>err. res = ThreadPanic err \<and> th' = th"
    using assms(1) by (auto simp: thread_Add_def addNoLock_def Let_def split: if_splits option.splits)
  then show ?thesis using panics by blast
next
  case False
  then show ?thesis
    using assms by (intro adds[of fresh]) (auto simp: thread_Add_def addNoLock_def Let_def split: if_splits option.splits)
qed

lemma thread_inv_add:
  assumes I: "thread_inv fin th" and tx: "case tx of None \<Rightarrow> True | Some t \<Rightarrow> t \<noteq> 0 \<and> t \<notin> fin \<and> list_all (\<lambda>p. pi_tx p = t) (th_pendingInclusions th)"
    and add: "thread_Add U readonly (\<lambda>t. t \<in> fin) fresh tx e th = (res, th')"
  shows "thread_inv fin th' \<and> thread_abs th' = (if res = ThreadOk then thread_abs th @ [(e, tx)] else thread_abs th)"
proof -
  have nf: "case tx of None \<Rightarrow> True | Some t \<Rightarrow> t \<notin> fin" using tx by (cases tx) auto
  from add nf show ?thesis
  proof (cases rule: thread_Add_cases)
    case panics
    then show ?thesis using I by simp
  next
    case (adds u)
    let ?e = "\<lparr>actualElement = e, txID = (case tx of None \<Rightarrow> 0 | Some t \<Rightarrow> t), ulid = u, commitedTx = (tx = None)\<rparr>"
    have abs: "thread_abs th' = thread_abs th @ [(e, tx)]" using adds by (cases tx) (simp_all add: thread_abs_def owner_def)
    have elem: "\<forall>x \<in> set (elements th'). if commitedTx x then txID x = 0 \<or> txID x \<in> fin else txID x \<noteq> 0 \<and> txID x \<notin> fin"
      using thread_inv_elem[OF I] adds(2) tx by (cases tx) auto
    have "case th_pendingInclusions th' of [] \<Rightarrow> \<forall>e \<in> set (elements th'). commitedTx e
      | [p] \<Rightarrow> pi_tx p \<noteq> 0 \<and> pi_tx p \<notin> fin \<and> writer_tail (pi_tx p) (firstElemDistance p) (elements th') | _ \<Rightarrow> False"
      using I
    proof (cases rule: thread_inv_cases)
      case idle
      then show ?thesis using adds tx writer_tail_new[of "elements th" ?e] by (cases tx) (auto simp: bump_distances_def)
    next
      case (writer t d)
      then show ?thesis using adds tx writer_tail_snoc[of t d "elements th" ?e] by (cases tx) (auto simp: bump_distances_def)
    qed
    then show ?thesis using abs elem adds(1) by (simp add: thread_inv_def)
  qed
qed

lemma writer_tail_commit:
  assumes "writer_tail t d es"
  shows "commit_from (nat (int (length es) - int d - 1)) es = map (\<lambda>e. e\<lparr>commitedTx := True\<rparr>) es"
proof -
  have i: "nat (int (length es) - int d - 1) = length es - d - 1" using assms by (simp add: writer_tail_def)
  have "map (\<lambda>e. e\<lparr>commitedTx := True\<rparr>) (take (length es - d - 1) es) = take (length es - d - 1) es"
    using assms by (intro map_idI) (simp add: writer_tail_def)
  then show ?thesis unfolding commit_from_def i by (metis append_take_drop_id map_append)
qed

lemma thread_inv_end_idle:
  assumes I: "thread_inv fin th" and t: "t \<noteq> 0" "t \<notin> fin" and no: "\<And>p. p \<in> set (th_pendingInclusions th) \<Longrightarrow> pi_tx p \<noteq> t"
  shows "thread_transactionEnd t success th = (ThreadOk, th)" and "thread_inv (insert t fin) th"
    and "spec_commit t (thread_abs th) = thread_abs th" and "spec_rollback t (thread_abs th) = thread_abs th"
proof -
  show "thread_transactionEnd t success th = (ThreadOk, th)" using no find_None_iff[of "\<lambda>p. pi_tx p = t" "th_pendingInclusions th"]
    by (auto simp: thread_transactionEnd_def)
  have w: "owner e \<noteq> Some t \<and> (\<not> commitedTx e \<longrightarrow> txID e \<noteq> t)" if "e \<in> set (elements th)" for e
    using I that no by (cases rule: thread_inv_cases) (auto simp: owner_def writer_tail_def)
  show "spec_commit t (thread_abs th) = thread_abs th"
    using w by (auto simp: spec_commit_def thread_abs_def)
  show "spec_rollback t (thread_abs th) = thread_abs th"
    using w by (auto simp: spec_rollback_def thread_abs_def filter_map comp_def filter_id_conv)
  have e: "\<forall>e \<in> set (elements th). if commitedTx e then txID e = 0 \<or> txID e \<in> insert t fin else txID e \<noteq> 0 \<and> txID e \<notin> insert t fin"
    using thread_inv_elem[OF I] w by (meson insert_iff)
  show "thread_inv (insert t fin) th"
    using I e no by (cases rule: thread_inv_cases) (simp_all add: thread_inv_def)
qed

lemma thread_end_commit:
  assumes I: "thread_inv fin th" and p: "th_pendingInclusions th = [\<lparr>pi_tx = t, firstElemDistance = d\<rparr>]" and t: "t \<noteq> 0" "t \<notin> fin"
    and w: "writer_tail t d (elements th)" and e: "thread_transactionEnd t True th = (res, th')"
  shows "res = ThreadOk \<and> thread_inv (insert t fin) th' \<and> thread_abs th' = spec_commit t (thread_abs th) \<and>
    th_storage th' = (if th_storage th = None then None else Some (map actualElement (elements th')))"
proof -
  have "\<not> int (length (elements th)) - int d - 1 < 0" using w by (simp add: writer_tail_def)
  then have r: "res = ThreadOk" and es: "elements th' = map (\<lambda>e. e\<lparr>commitedTx := True\<rparr>) (elements th)" and pend: "th_pendingInclusions th' = []"
    and st: "th_storage th' = (if th_storage th = None then None else Some (map actualElement (elements th')))"
    using e p writer_tail_commit[OF w] by (auto simp: thread_transactionEnd_def Let_def persistThread_def)
  have o: "owner x = None \<or> owner x = Some t" if "x \<in> set (elements th)" for x
    using w that by (auto simp: writer_tail_def owner_def)
  then have "thread_abs th' = spec_commit t (thread_abs th)"
    unfolding thread_abs_def spec_commit_def es by (fastforce simp: owner_def)
  moreover have "txID x = 0 \<or> txID x \<in> insert t fin" if "x \<in> set (elements th)" for x
    using thread_inv_elem[OF I that] w that by (auto simp: writer_tail_def split: if_splits)
  then have "thread_inv (insert t fin) th'" unfolding thread_inv_def es pend by auto
  ultimately show ?thesis using r st by blast
qed

lemma thread_end_rollback:
  assumes I: "thread_inv fin th" and p: "th_pendingInclusions th = [\<lparr>pi_tx = t, firstElemDistance = d\<rparr>]" and t: "t \<noteq> 0" "t \<notin> fin"
    and w: "writer_tail t d (elements th)" and e: "thread_transactionEnd t False th = (res, th')"
  shows "res = ThreadOk \<and> thread_inv (insert t fin) th' \<and> thread_abs th' = spec_rollback t (thread_abs th)"
proof -
  have r: "res = ThreadOk" and es: "elements th' = filter (\<lambda>e. txID e \<noteq> t) (elements th)" and pend: "th_pendingInclusions th' = []"
    using e p by (auto simp: thread_transactionEnd_def Let_def update_distance_def)
  have o: "owner x = Some t \<longleftrightarrow> txID x = t" if "x \<in> set (elements th)" for x
    using thread_inv_elem[OF I that] t by (auto simp: owner_def split: if_splits)
  have c: "commitedTx x" if "x \<in> set (elements th')" for x using that w unfolding es by (auto simp: writer_tail_def)
  have "thread_abs th' = spec_rollback t (thread_abs th)"
    unfolding thread_abs_def spec_rollback_def es filter_map comp_def using o by (auto intro!: arg_cong[where f = "map _"] filter_cong)
  moreover have "thread_inv (insert t fin) th'"
    using thread_inv_elem[OF I] c unfolding thread_inv_def pend by (fastforce simp: es)
  ultimately show ?thesis using r by blast
qed

lemma thread_inv_end:
  assumes I: "thread_inv fin th" and t: "t \<noteq> 0" "t \<notin> fin" and e: "thread_transactionEnd t success th = (res, th')"
  shows "res = ThreadOk \<and> thread_inv (insert t fin) th' \<and>
    thread_abs th' = (if success then spec_commit t (thread_abs th) else spec_rollback t (thread_abs th))"
proof (cases "\<exists>d. th_pendingInclusions th = [\<lparr>pi_tx = t, firstElemDistance = d\<rparr>]")
  case True
  then obtain d where p: "th_pendingInclusions th = [\<lparr>pi_tx = t, firstElemDistance = d\<rparr>]" by blast
  then have w: "writer_tail t d (elements th)" using I by (simp add: thread_inv_def)
  show ?thesis
    using thread_end_commit[OF I p t w, of res th'] thread_end_rollback[OF I p t w, of res th'] e by (cases success) auto
next
  case False
  have "pi_tx p \<noteq> t" if "p \<in> set (th_pendingInclusions th)" for p
    using I that False by (cases rule: thread_inv_cases) auto
  note E = thread_inv_end_idle[OF I t this]
  show ?thesis using e E(1)[of success] E(2,3,4) by auto
qed

lemma thread_reachable_inv:
  assumes "thread_reachable U readonly th0 th fin l" and "thread_inv {} th0"
  shows "thread_inv fin th \<and> thread_abs th = l"
  using assms(1)
proof (induction rule: thread_reachable.induct)
  case tr_new
  then show ?case using assms(2) by simp
next
  case (tr_add th fin l tx fresh e res th')
  have "thread_inv fin th" using tr_add.IH by blast
  from thread_inv_add[OF this tr_add.hyps(2,3)] show ?case using tr_add.IH by auto
next
  case (tr_finish th fin l t success res th')
  have "thread_inv fin th" using tr_finish.IH by blast
  from thread_inv_end[OF this tr_finish.hyps(2-4)] show ?case using tr_finish.IH by auto
qed

lemma visible_abs:
  assumes "thread_inv fin th"
  shows "map actualElement (filter (isVisibleByTx tx) (elements th)) = spec_visible tx (thread_abs th)"
proof -
  have "isVisibleByTx tx e \<longleftrightarrow> owner e = None \<or> owner e = tx" if "e \<in> set (elements th)" for e
    using thread_inv_elem[OF assms that] by (cases tx) (auto simp: isVisibleByTx_def owner_def split: if_splits)
  then have "filter (isVisibleByTx tx) (elements th) = filter (\<lambda>e. owner e = None \<or> owner e = tx) (elements th)" by (rule filter_cong[OF refl])
  then show ?thesis by (simp add: spec_visible_def thread_abs_def filter_map comp_def)
qed

section \<open>Properties\<close>

definition sample_urls :: thread_urls where
  "sample_urls = \<lparr>tu_isDirOf = (\<lambda>_ _. True), tu_elementID = (\<lambda>_. None), tu_elementURL = (\<lambda>dir _. dir)\<rparr>"

text \<open>
  (C11) A thread in which one transaction at a time has pending messages implements the abstract thread: in every run of calls of
  \<open>add\<close> with and without transaction, commits and rollbacks, everybody sees the committed messages and those of their own transaction, in the
  order in which they were added; a commit makes the messages of the transaction visible, a rollback removes exactly them, and
  the end of a transaction never panics.
\<close>

theorem thread_refines_abstract:
  assumes "thread_reachable U readonly (newEmptyThread dir store urls) th fin l"
  shows "(\<forall>tx. map actualElement (filter (isVisibleByTx tx) (elements th)) = spec_visible tx l) \<and>
    (\<forall>t success. t \<noteq> 0 \<longrightarrow> t \<notin> fin \<longrightarrow> fst (thread_transactionEnd t success th) = ThreadOk)"
proof -
  have "thread_inv {} (newEmptyThread dir store urls)" by (simp add: thread_inv_def newEmptyThread_def)
  note I = thread_reachable_inv[OF assms this]
  have "fst (thread_transactionEnd t success th) = ThreadOk" if "t \<noteq> 0" "t \<notin> fin" for t success
    using thread_inv_end[OF conjunct1[OF I] that, of success] by (metis prod.collapse)
  then show ?thesis using visible_abs[OF conjunct1[OF I]] I by blast
qed

theorem thread_refines_abstract_witness:
  "\<exists>th l. thread_reachable sample_urls (\<lambda>_. False) (newEmptyThread ''ldb://main/t/'' None Map.empty) th {7} l \<and>
     l = [(''a'', None), (''b'', None)] \<and> map actualElement (filter (isVisibleByTx None) (elements th)) = [''a'', ''b'']"
proof -
  let ?R = "thread_reachable sample_urls (\<lambda>_. False) (newEmptyThread ''ldb://main/t/'' None Map.empty)"
  let ?th = "newEmptyThread ''ldb://main/t/'' None Map.empty :: string MessageThread"
  define th1 where "th1 = snd (thread_Add sample_urls (\<lambda>_. False) (\<lambda>t. t \<in> {}) 1 (Some 7) ''a'' ?th)"
  define th2 where "th2 = snd (thread_Add sample_urls (\<lambda>_. False) (\<lambda>t. t \<in> {}) 2 None ''b'' th1)"
  define th3 where "th3 = snd (thread_transactionEnd 7 True th2)"
  note eval = thread_Add_def addNoLock_def newEmptyThread_def bump_distances_def
  have a1: "thread_Add sample_urls (\<lambda>_. False) (\<lambda>t. t \<in> {}) 1 (Some 7) ''a'' ?th = (ThreadOk, th1)" unfolding th1_def by (simp add: eval)
  have a2: "thread_Add sample_urls (\<lambda>_. False) (\<lambda>t. t \<in> {}) 2 None ''b'' th1 = (ThreadOk, th2)" unfolding th2_def th1_def by (simp add: eval)
  have a3: "thread_transactionEnd 7 True th2 = (ThreadOk, th3)"
    unfolding th3_def th2_def th1_def by (simp add: eval thread_transactionEnd_def)
  have "?R ?th {} []" using tr_new[of sample_urls "\<lambda>_. False" ?th] by (simp add: thread_abs_def newEmptyThread_def)
  from tr_add[OF this _ a1] have "?R th1 {} [(''a'', Some 7)]" by (simp add: newEmptyThread_def)
  from tr_add[OF this _ a2] have "?R th2 {} [(''a'', Some 7), (''b'', None)]" by simp
  from tr_finish[OF this _ _ a3] have r: "?R th3 {7} [(''a'', None), (''b'', None)]" by (simp add: spec_commit_def)
  then show ?thesis using thread_refines_abstract[OF r] by (intro exI[of _ th3]) (auto simp: spec_visible_def)
qed

text \<open>
  (C25) An iterator over a thread visits every element that its transaction sees exactly once, the newest first, and then ends,
  although it reads the thread in segments of ten elements.
\<close>

theorem thread_iteration:
  assumes "chronological th" and "\<And>e. e \<in> set (elements th) \<Longrightarrow> ulid e < MAX_ULID" and "length (elements th) < n"
  shows "iterate n tx th thread_iterator_start = Some (rev (filter (isVisibleByTx tx) (elements th)))"
proof -
  have r: "remaining tx th thread_iterator_start = rev (filter (isVisibleByTx tx) (elements th))"
    using assms(2) by (auto simp: remaining_def thread_iterator_start_def visible_before_def intro: filter_cong)
  have "length (filter (isVisibleByTx tx) (elements th)) < n" using assms(3) length_filter_le[of "isVisibleByTx tx" "elements th"] by linarith
  then show ?thesis using iterate_remaining[OF assms(1), of thread_iterator_start tx n] r by (simp add: thread_iterator_start_def)
qed

definition sample_thread :: "nat MessageThread" where
  "sample_thread =
    (let elem = (\<lambda>i t. \<lparr>actualElement = i, txID = t, ulid = of_nat i, commitedTx = (t = 0)\<rparr>)
     in \<lparr>elements = [elem 1 0, elem 2 7, elem 3 5], th_pendingInclusions = [\<lparr>pi_tx = 7, firstElemDistance = 1\<rparr>, \<lparr>pi_tx = 5, firstElemDistance = 0\<rparr>],
         urlAsDir = [], th_storage = None, th_objectURL = Map.empty\<rparr>)"

theorem thread_iteration_witness:
  "map_option (map actualElement) (iterate 4 (Some 7) sample_thread thread_iterator_start) = Some [2, 1]"
proof -
  have c: "chronological sample_thread" by (simp add: chronological_def sample_thread_def)
  have m: "ulid e < MAX_ULID" if "e \<in> set (elements sample_thread)" for e
    using that by (auto simp: sample_thread_def MAX_ULID_def word_less_def unsigned_minus_1_eq_mask mask_eq_exp_minus_1)
  from thread_iteration[OF c m, where n = 4 and tx = "Some 7"] show ?thesis by (simp add: sample_thread_def isVisibleByTx_def)
qed

text \<open>Loading a stored thread gives its messages back, in order and visible to everybody.\<close>

lemma load_thread_elements_eq:
  assumes "\<And>e. e \<in> set es \<Longrightarrow> \<exists>url i. th_objectURL th e = Some url \<and> tu_isDirOf U (urlAsDir th) url \<and> tu_elementID U url = Some i"
    and "th_pendingInclusions th = []" and "\<And>e. e \<in> set (elements th) \<Longrightarrow> commitedTx e"
  shows "\<exists>th'. load_thread_elements U fresh es th = Inr th' \<and> map actualElement (elements th') = map actualElement (elements th) @ es \<and>
    (\<forall>e \<in> set (elements th'). commitedTx e) \<and> th_pendingInclusions th' = []"
  using assms
proof (induction es arbitrary: th fresh)
  case (Cons e es)
  obtain url i where u: "th_objectURL th e = Some url" "tu_isDirOf U (urlAsDir th) url" "tu_elementID U url = Some i" using Cons.prems(1)[of e] by auto
  let ?th = "th\<lparr>elements := elements th @ [\<lparr>actualElement = e, txID = 0, ulid = i, commitedTx = True\<rparr>], th_pendingInclusions := []\<rparr>"
  have a: "addNoLock U (\<lambda>_. False) (\<lambda>_. False) (fresh 0) None e True th = (ThreadOk, ?th)"
    using u Cons.prems(2) by (simp add: addNoLock_def bump_distances_def)
  have "\<exists>th'. load_thread_elements U (\<lambda>i. fresh (Suc i)) es ?th = Inr th' \<and> map actualElement (elements th') = map actualElement (elements ?th) @ es \<and>
    (\<forall>e \<in> set (elements th'). commitedTx e) \<and> th_pendingInclusions th' = []"
    by (rule Cons.IH) (use Cons.prems in auto)
  then show ?case using a by auto
qed simp

lemma stored_thread_reloads:
  assumes "\<And>e. e \<in> set es \<Longrightarrow> \<exists>url i. urls e = Some url \<and> tu_isDirOf U dir url \<and> tu_elementID U url = Some i"
  shows "\<exists>th. loadThread U fresh dir urls es = Inr th \<and> map actualElement (elements th) = es \<and> (\<forall>e \<in> set (elements th). commitedTx e)"
  using load_thread_elements_eq[of es "newEmptyThread dir (Some es) urls" U fresh] assms
  by (auto simp: loadThread_def newEmptyThread_def)

section \<open>Several writing transactions\<close>

text \<open>
  The commit of a transaction marks every element from its first one on, not only its own: the messages of another transaction that were added
  later become visible to everybody and are stored although this transaction is not committed.
\<close>

lemma commit_publishes_others:
  assumes "find (\<lambda>p. pi_tx p = t) (th_pendingInclusions th) = Some p" and "elements th = xs @ e # ys @ f # zs"
    and "firstElemDistance p = length ys + Suc (length zs)" and "thread_transactionEnd t True th = (res, th')"
  shows "\<exists>f' \<in> set (elements th'). actualElement f' = actualElement f \<and> txID f' = txID f \<and> isVisibleByTx tx f'"
    and "th_storage th \<noteq> None \<Longrightarrow> \<exists>stored. th_storage th' = Some stored \<and> actualElement f \<in> set stored"
proof -
  have s: "int (length (elements th)) - int (firstElemDistance p) - 1 = int (length xs)" using assms(2,3) by simp
  have es: "elements th' = commit_from (length xs) (elements th)"
    and st: "th_storage th \<noteq> None \<Longrightarrow> th_storage th' = Some (map actualElement (elements th'))"
    using assms(1,4) s by (auto simp: thread_transactionEnd_def Let_def persistThread_def)
  then have f: "f\<lparr>commitedTx := True\<rparr> \<in> set (elements th')" by (simp add: commit_from_def assms(2))
  then show "\<exists>f' \<in> set (elements th'). actualElement f' = actualElement f \<and> txID f' = txID f \<and> isVisibleByTx tx f'"
    by (intro bexI[of _ "f\<lparr>commitedTx := True\<rparr>"]) (simp_all add: isVisibleByTx_def)
  show "\<exists>stored. th_storage th' = Some stored \<and> actualElement f \<in> set stored" if "th_storage th \<noteq> None"
    using st[OF that] imageI[OF f, of actualElement] by simp
qed

text \<open>
  A rollback replaces the distance from the end of the first element of each other transaction by an index from the start. Here transaction 5
  adds a message, transaction 7 adds one, transaction 5 adds a second one, 7 is rolled back and 5 committed: the first message of 5 stays
  invisible to the others for ever.
\<close>

definition two_writers :: "string MessageThread" where
  "two_writers =
    (let add = (\<lambda>fresh tx e th. snd (thread_Add sample_urls (\<lambda>_. False) (\<lambda>_. False) fresh (Some tx) e th))
     in add 3 5 ''c'' (add 2 7 ''b'' (add 1 5 ''a'' (newEmptyThread ''ldb://main/t/'' None Map.empty))))"

lemma rollback_loses_commit:
  "map actualElement (filter (isVisibleByTx None) (elements (snd (thread_transactionEnd 5 True (snd (thread_transactionEnd 7 False two_writers)))))) = [''c'']"
  by (simp add: two_writers_def Let_def thread_Add_def addNoLock_def newEmptyThread_def bump_distances_def sample_urls_def
      thread_transactionEnd_def update_distance_def commit_from_def isVisibleByTx_def)

text \<open>A message that is added without transaction is visible at once but not stored.\<close>

lemma direct_add_not_stored:
  assumes "thread_Add U readonly finished fresh None e th = (ThreadOk, th')"
  shows "th_storage th' = th_storage th" and "thread_Contains tx e th'"
  using assms by (auto simp: thread_Add_def addNoLock_def Let_def thread_Contains_def isVisibleByTx_def split: option.splits if_splits)

text \<open>The lookup by key ignores visibility.\<close>

lemma lookup_ignores_visibility:
  assumes "elements th = [e]" and "\<not> commitedTx e" and "txID e \<noteq> 0"
  shows "thread_GetElementByKey (Some (ulid e)) th = Some (actualElement e)" and "\<not> isVisibleByTx None e"
  using assms by (simp_all add: thread_GetElementByKey_def isVisibleByTx_def)

end
