(* ===== verification/TreeCollections.thy ===== *)
theory TreeCollections
  imports Prelude "HOL-Library.Multiset"
begin

text \<open>
  Trees and rankings (\<open>internal/globals/containers/treecoll\<close>: \<open>tree.go\<close>, \<open>node.go\<close>, \<open>iterator.go\<close>; \<open>rankingcoll\<close>: \<open>ranking.go\<close>).
  A tree is a value here: the iterators are modelled for a tree that is not modified meanwhile. The result \<open>None\<close> of an
  operation is a panic (a nil child iterator, an index out of range).
\<close>

section \<open>Trees\<close>

datatype 'a TreeNode = TreeNode (tn_data: 'a) (tn_children: "'a TreeNode list")

definition AddChild :: "('a \<Rightarrow> bool) \<Rightarrow> 'a \<Rightarrow> 'a TreeNode \<Rightarrow> 'a TreeNode option" where
  "AddChild isSharable childData n =
    (if \<not> isSharable childData then None else Some (TreeNode (tn_data n) (tn_children n @ [TreeNode childData []])))"

datatype 'a TreeIterator = TreeIterator (ti_start: "'a TreeNode") (ti_children: "'a TreeNode list") (ti_childIndex: int) (ti_i: int)
  (ti_childIterator: "'a TreeIterator option")

definition node_Iterator :: "'a TreeNode \<Rightarrow> 'a TreeIterator" where
  "node_Iterator n = TreeIterator n (tn_children n) (- 1) (- 1) None"

fun tree_HasNext :: "'a TreeIterator \<Rightarrow> bool" where
  "tree_HasNext (TreeIterator start children childIndex i childIterator) \<longleftrightarrow>
     i = - 1 \<or> (children \<noteq> [] \<and> childIndex < int (length children) - 1) \<or>
     (case childIterator of None \<Rightarrow> False | Some c \<Rightarrow> tree_HasNext c)"

text \<open>The depth of the chain of child iterators that have been used, for the termination of \<open>Next\<close>.\<close>

fun used_depth :: "'a TreeIterator \<Rightarrow> nat" where
  "used_depth (TreeIterator start children childIndex i childIterator) =
     (if i = - 1 then 0 else Suc (case childIterator of None \<Rightarrow> 0 | Some c \<Rightarrow> used_depth c))"

function tree_Next :: "'a TreeIterator \<Rightarrow> (bool \<times> 'a TreeIterator) option" where
  "tree_Next (TreeIterator start children childIndex i childIterator) =
    (if \<not> tree_HasNext (TreeIterator start children childIndex i childIterator)
     then Some (False, TreeIterator start children childIndex i childIterator)
     else if i = - 1 then
       Some (True, TreeIterator start children (childIndex + 1) 0
         (case children of [] \<Rightarrow> childIterator | c # _ \<Rightarrow> Some (node_Iterator c)))
     else (case childIterator of
             None \<Rightarrow> None
           | Some ci \<Rightarrow>
               (case tree_Next ci of
                  None \<Rightarrow> None
                | Some (True, ci1) \<Rightarrow> Some (True, TreeIterator start children childIndex (i + 1) (Some ci1))
                | Some (False, _) \<Rightarrow>
                    (if childIndex + 1 < 0 \<or> int (length children) \<le> childIndex + 1 then None
                     else (case tree_Next (node_Iterator (children ! nat (childIndex + 1))) of
                             None \<Rightarrow> None
                           | Some (_, ci2) \<Rightarrow> Some (True, TreeIterator start children (childIndex + 1) (i + 1) (Some ci2)))))))"
  by pat_completeness auto
termination
  by (relation "measure used_depth") (auto simp: node_Iterator_def)

fun tree_Value :: "'a TreeIterator \<Rightarrow> 'a TreeNode option" where
  "tree_Value (TreeIterator start children childIndex i childIterator) =
    (if i = 0 then Some start else (case childIterator of None \<Rightarrow> None | Some c \<Rightarrow> tree_Value c))"

text \<open>The loop of \<open>walk\<close>: the nodes that it visits; \<open>None\<close> for a panic or when the fuel does not suffice.\<close>

fun tree_walk :: "nat \<Rightarrow> 'a TreeIterator \<Rightarrow> 'a TreeNode list option" where
  "tree_walk 0 it = None"
| "tree_walk (Suc n) it =
    (case tree_Next it of
       None \<Rightarrow> None
     | Some (False, _) \<Rightarrow> Some []
     | Some (True, it1) \<Rightarrow>
         (case tree_Value it1 of None \<Rightarrow> None | Some v \<Rightarrow> map_option ((#) v) (tree_walk n it1)))"

text \<open>\<open>IsSharable\<close> of a tree that is not shared: it stops at the first node whose data is not sharable.\<close>

definition tree_IsSharable :: "('a \<Rightarrow> bool) \<Rightarrow> nat \<Rightarrow> 'a TreeNode \<Rightarrow> bool option" where
  "tree_IsSharable isSharable fuel root = map_option (list_all (\<lambda>n. isSharable (tn_data n))) (tree_walk fuel (node_Iterator root))"

section \<open>Rankings\<close>

text \<open>Scores are ordered linearly: no score is NaN. \<open>TransientIdOf\<close> is an argument.\<close>

record ('i, 'f) RankItem =
  valueIds :: "'i list"
  score :: 'f

record ('i, 'v, 'f) Ranking =
  valueById :: "'i \<rightharpoonup> 'v"
  rankItems :: "('i, 'f) RankItem list"

datatype ranking_error = ErrRankingEntryListShouldHaveEvenLength | ErrRankingEntryListShouldHaveFloatScoresAtOddIndexes
  | ErrRankingCanOnlyContainValuesWithFastId | ErrRankingCanOnlyRankValuesWithAPositiveScore | ErrRankingCannotContainDuplicates

text \<open>The loop over the ranks: the items before the current one, the rest, and the whole new list.\<close>

fun rank_loop :: "'i \<Rightarrow> 'f::linorder \<Rightarrow> ('i, 'f) RankItem list \<Rightarrow> int \<Rightarrow> ('i, 'f) RankItem list \<Rightarrow> ('i, 'f) RankItem list" where
  "rank_loop i s before prevRank [] =
    (if prevRank < 0 then before @ [\<lparr>valueIds = [i], score = s\<rparr>]
     else take (nat (prevRank + 1)) before @ [\<lparr>valueIds = [i], score = s\<rparr>] @ drop (nat (prevRank + 1)) before)"
| "rank_loop i s before prevRank (item # items) =
    (if s = score item then before @ item\<lparr>valueIds := valueIds item @ [i]\<rparr> # items
     else if s < score item then rank_loop i s (before @ [item]) (int (length before)) items
     else \<lparr>valueIds = [i], score = s\<rparr> # before @ item # items)"

definition ranking_Add :: "('v \<Rightarrow> 'i option) \<Rightarrow> 'v \<Rightarrow> 'f::{linorder,zero} \<Rightarrow> ('i, 'v, 'f) Ranking \<Rightarrow> ranking_error option \<times> ('i, 'v, 'f) Ranking" where
  "ranking_Add TransientIdOf value s r =
    (case TransientIdOf value of
       None \<Rightarrow> (Some ErrRankingCanOnlyContainValuesWithFastId, r)
     | Some i \<Rightarrow>
         if valueById r i \<noteq> None then (Some ErrRankingCannotContainDuplicates, r)
         else
           (let r1 = r\<lparr>valueById := (valueById r)(i \<mapsto> value)\<rparr>
            in if s < 0 then (Some ErrRankingCanOnlyRankValuesWithAPositiveScore, r1)
               else (None, r1\<lparr>rankItems := rank_loop i s [] (- 1) (rankItems r1)\<rparr>)))"

definition empty_ranking :: "('i, 'v, 'f) Ranking" where
  "empty_ranking = \<lparr>valueById = Map.empty, rankItems = []\<rparr>"

text \<open>The entries of the list argument, values and scores in turn; \<open>asFloat\<close> is the assertion that a value is a float.\<close>

fun ranking_add_all :: "('v \<Rightarrow> 'i option) \<Rightarrow> ('v \<Rightarrow> 'f::{linorder,zero} option) \<Rightarrow> 'v list \<Rightarrow> ('i, 'v, 'f) Ranking \<Rightarrow> ranking_error + ('i, 'v, 'f) Ranking" where
  "ranking_add_all TransientIdOf asFloat (value # valueScore # es) r =
    (case asFloat valueScore of
       None \<Rightarrow> Inl ErrRankingEntryListShouldHaveFloatScoresAtOddIndexes
     | Some s \<Rightarrow>
         (case ranking_Add TransientIdOf value s r of
            (Some err, _) \<Rightarrow> Inl err
          | (None, r1) \<Rightarrow> ranking_add_all TransientIdOf asFloat es r1))"
| "ranking_add_all TransientIdOf asFloat _ r = Inr r"

definition NewRanking :: "('v \<Rightarrow> 'i option) \<Rightarrow> ('v \<Rightarrow> 'f::{linorder,zero} option) \<Rightarrow> 'v list \<Rightarrow> ranking_error + ('i, 'v, 'f) Ranking" where
  "NewRanking TransientIdOf asFloat flatEntries =
    (if length flatEntries mod 2 \<noteq> 0 then Inl ErrRankingEntryListShouldHaveEvenLength
     else ranking_add_all TransientIdOf asFloat flatEntries empty_ranking)"

text \<open>The property \<open>values\<close> of a rank.\<close>

definition rank_values :: "nat \<Rightarrow> ('i, 'v, 'f) Ranking \<Rightarrow> 'v option list" where
  "rank_values rank r = map (valueById r) (valueIds (rankItems r ! rank))"

section \<open>The order of a walk\<close>

fun preorder :: "'a TreeNode \<Rightarrow> 'a TreeNode list" where
  "preorder (TreeNode d cs) = TreeNode d cs # concat (map preorder cs)"

lemma preorder_eq: "preorder n = n # concat (map preorder (tn_children n))"
  by (cases n) simp

fun to_visit :: "'a TreeIterator \<Rightarrow> 'a TreeNode list" where
  "to_visit (TreeIterator start children childIndex i childIterator) =
    (if i = - 1 then preorder start
     else (case childIterator of None \<Rightarrow> [] | Some c \<Rightarrow> to_visit c) @ concat (map preorder (drop (nat (childIndex + 1)) children)))"

fun iterator_ok :: "'a TreeIterator \<Rightarrow> bool" where
  "iterator_ok (TreeIterator start children childIndex i childIterator) \<longleftrightarrow>
     children = tn_children start \<and> - 1 \<le> i \<and>
     (if i = - 1 then childIndex = - 1 \<and> childIterator = None
      else if children = [] then childIndex = 0 \<and> childIterator = None
      else 0 \<le> childIndex \<and> childIndex < int (length children) \<and> (case childIterator of None \<Rightarrow> False | Some c \<Rightarrow> iterator_ok c))"

lemma node_Iterator_ok: "iterator_ok (node_Iterator n)" "to_visit (node_Iterator n) = preorder n"
  by (simp_all add: node_Iterator_def)

lemma preorder_nonempty [simp]: "preorder n \<noteq> []"
  by (cases n) simp

lemma concat_preorder_empty: "concat (map preorder ns) = [] \<longleftrightarrow> ns = []"
  by (cases ns) auto

lemma tree_HasNext_iff: "iterator_ok it \<Longrightarrow> tree_HasNext it \<longleftrightarrow> to_visit it \<noteq> []"
proof (induction it rule: tree_HasNext.induct)
  case (1 start children childIndex i childIterator)
  show ?case
  proof (cases "i = - 1 \<or> children = []")
    case True
    then show ?thesis using 1 preorder_eq[of start] by auto
  next
    case False
    then obtain c where c: "childIterator = Some c" "iterator_ok c" "0 \<le> childIndex" "childIndex < int (length children)"
      using 1 by (auto split: option.splits)
    then have "tree_HasNext c \<longleftrightarrow> to_visit c \<noteq> []" using 1(1) by simp
    moreover have "drop (nat (childIndex + 1)) children = [] \<longleftrightarrow> \<not> childIndex < int (length children) - 1" using c(3,4) by auto
    ultimately show ?thesis using False c(1) concat_preorder_empty[of "drop (nat (childIndex + 1)) children"] by auto
  qed
qed

text \<open>One call of \<open>Next\<close> moves to the first of the nodes that are left.\<close>

lemma tree_Next_step:
  "iterator_ok it \<Longrightarrow>
    (if to_visit it = [] then tree_Next it = Some (False, it)
     else \<exists>it1. tree_Next it = Some (True, it1) \<and> iterator_ok it1 \<and> ti_i it1 \<noteq> - 1 \<and> to_visit it1 = tl (to_visit it) \<and> tree_Value it1 = Some (hd (to_visit it)))"
proof (induction it rule: tree_Next.induct)
  case (1 start children childIndex i childIterator)
  let ?it = "TreeIterator start children childIndex i childIterator"
  note h = tree_HasNext_iff[OF 1(3)]
  show ?case
  proof (cases "to_visit ?it = []")
    case True
    then show ?thesis using h by simp
  next
    case False
    then have n: "tree_HasNext ?it" using h by blast
    show ?thesis
    proof (cases "i = - 1")
      case True
      then show ?thesis using 1(3) n preorder_eq[of start] by (cases "tn_children start") (auto simp: node_Iterator_ok)
    next
      case i: False
      then have ne: "children \<noteq> []" using False 1(3) by auto
      then obtain ci where c: "childIterator = Some ci" "iterator_ok ci" "0 \<le> childIndex" "childIndex < int (length children)"
        using 1(3) i by (auto split: option.splits)
      note IH = 1(1)[OF _ i c(1) c(2)]
      show ?thesis
      proof (cases "to_visit ci = []")
        case ciE: False
        then obtain ci1 where "tree_Next ci = Some (True, ci1)" "iterator_ok ci1" "ti_i ci1 \<noteq> - 1" "to_visit ci1 = tl (to_visit ci)"
          "tree_Value ci1 = Some (hd (to_visit ci))" using IH n by auto
        then show ?thesis using i ne n c 1(3) ciE by auto
      next
        case True
        then have nx: "tree_Next ci = Some (False, ci)" using IH n by auto
        have l: "childIndex + 1 < int (length children)" using False True i c by (auto simp: not_less)
        let ?c = "children ! nat (childIndex + 1)"
        obtain ci2 where ci2: "tree_Next (node_Iterator ?c) = Some (True, ci2)" "iterator_ok ci2" "ti_i ci2 \<noteq> - 1"
            "to_visit ci2 = tl (preorder ?c)" "tree_Value ci2 = Some (hd (preorder ?c))"
          using preorder_eq[of ?c] by (cases "tn_children ?c") (auto simp: node_Iterator_def)
        have d: "drop (nat (childIndex + 1)) children = ?c # drop (nat (childIndex + 1 + 1)) children"
          using l c(3) by (simp add: Cons_nth_drop_Suc[symmetric] nat_add_distrib)
        show ?thesis using i ne n c 1(3) nx ci2 l d True by (auto simp: hd_append tl_append split: list.splits)
      qed
    qed
  qed
qed

lemma tree_walk_visits:
  assumes "iterator_ok it" and "length (to_visit it) < n"
  shows "tree_walk n it = Some (to_visit it)"
  using assms
proof (induction n arbitrary: it)
  case (Suc n)
  show ?case
  proof (cases "to_visit it = []")
    case True
    then show ?thesis using tree_Next_step[OF Suc.prems(1)] by simp
  next
    case False
    then obtain it1 where "tree_Next it = Some (True, it1)" "iterator_ok it1" "to_visit it1 = tl (to_visit it)" "tree_Value it1 = Some (hd (to_visit it))"
      using tree_Next_step[OF Suc.prems(1)] by auto
    then show ?thesis using False Suc.IH[of it1] Suc.prems(2) by (cases "to_visit it") auto
  qed
qed simp

section \<open>The order of ranks\<close>

text \<open>What the loop computes.\<close>

lemma rank_loop_eq:
  "rank_loop i s before (int (length before) - 1) items =
    (case dropWhile (\<lambda>item. s < score item) items of
       [] \<Rightarrow> before @ items @ [\<lparr>valueIds = [i], score = s\<rparr>]
     | item # rest \<Rightarrow>
         if s = score item then before @ takeWhile (\<lambda>item. s < score item) items @ item\<lparr>valueIds := valueIds item @ [i]\<rparr> # rest
         else \<lparr>valueIds = [i], score = s\<rparr> # before @ items)"
proof (induction items arbitrary: before)
  case (Cons item items)
  show ?case using Cons.IH[of "before @ [item]"] by (cases "dropWhile (\<lambda>item. s < score item) items") (auto simp del: dropWhile_eq_Nil_conv)
qed simp

definition ranked :: "('i, 'f::linorder) RankItem list \<Rightarrow> bool" where
  "ranked items \<longleftrightarrow> sorted_wrt (\<lambda>a b. score b < score a) items"

definition ranked_ids :: "('i, 'f) RankItem list \<Rightarrow> 'i list" where
  "ranked_ids items = concat (map valueIds items)"

lemma rank_loop_cases:
  fixes s :: "'f::linorder"
  obtains (lowest) "\<And>item. item \<in> set items \<Longrightarrow> s < score item" "rank_loop i s [] (- 1) items = items @ [\<lparr>valueIds = [i], score = s\<rparr>]"
  | (same) xs item ys where "items = xs @ item # ys" "score item = s" "rank_loop i s [] (- 1) items = xs @ item\<lparr>valueIds := valueIds item @ [i]\<rparr> # ys"
  | (front) xs item ys where "items = xs @ item # ys" "score item < s" "\<And>x. x \<in> set xs \<Longrightarrow> s < score x"
      "rank_loop i s [] (- 1) items = \<lparr>valueIds = [i], score = s\<rparr> # items"
proof -
  let ?P = "\<lambda>item. s < score item"
  have l: "rank_loop i s [] (- 1) items = (case dropWhile ?P items of
       [] \<Rightarrow> items @ [\<lparr>valueIds = [i], score = s\<rparr>]
     | item # rest \<Rightarrow> if s = score item then takeWhile ?P items @ item\<lparr>valueIds := valueIds item @ [i]\<rparr> # rest
         else \<lparr>valueIds = [i], score = s\<rparr> # items)"
    using rank_loop_eq[of i s "[]" items] unfolding append_Nil by simp
  have t: "items = takeWhile ?P items @ dropWhile ?P items" by simp
  show ?thesis
  proof (cases "dropWhile ?P items")
    case Nil
    have "rank_loop i s [] (- 1) items = items @ [\<lparr>valueIds = [i], score = s\<rparr>]" unfolding l Nil by simp
    then show ?thesis using Nil lowest by simp
  next
    case (Cons item rest)
    then have nP: "\<not> s < score item" using hd_dropWhile[of ?P items] by simp
    have it: "items = takeWhile ?P items @ item # rest" using t Cons by simp
    show ?thesis
    proof (cases "s = score item")
      case True
      then show ?thesis using l Cons it same by simp
    next
      case False
      then have lt: "score item < s" using nP by simp
      have "rank_loop i s [] (- 1) items = \<lparr>valueIds = [i], score = s\<rparr> # items" unfolding l Cons using False by simp
      from front[OF it lt _ this] show ?thesis by (auto dest: set_takeWhileD)
    qed
  qed
qed

text \<open>A score that lies strictly between two ranks.\<close>

definition between_ranks :: "'f::linorder \<Rightarrow> ('i, 'f) RankItem list \<Rightarrow> bool" where
  "between_ranks s items \<longleftrightarrow> (\<exists>a \<in> set items. s < score a) \<and> (\<exists>b \<in> set items. score b < s) \<and> (\<forall>c \<in> set items. score c \<noteq> s)"

lemma rank_loop_ranked:
  assumes "ranked items"
  shows "ranked (rank_loop i s [] (- 1) items) \<longleftrightarrow> \<not> between_ranks s items"
proof (cases rule: rank_loop_cases[of items s i])
  case lowest
  then show ?thesis using assms by (auto simp: ranked_def between_ranks_def sorted_wrt_append dest: less_not_sym)
next
  case (same xs item ys)
  then show ?thesis using assms by (auto simp: ranked_def between_ranks_def sorted_wrt_append)
next
  case (front xs item ys)
  have "score x < s" if "x \<in> set ys" for x using assms that front(1,2) by (auto simp: ranked_def sorted_wrt_append intro: less_trans)
  then have "between_ranks s items \<longleftrightarrow> xs \<noteq> []" using front(1-3) by (cases xs) (auto simp: between_ranks_def dest: less_not_sym)
  moreover have "ranked (\<lparr>valueIds = [i], score = s\<rparr> # items) \<longleftrightarrow> xs = []"
    using assms front(1-3) \<open>\<And>x. x \<in> set ys \<Longrightarrow> score x < s\<close> by (cases xs) (auto simp: ranked_def dest: less_not_sym)
  ultimately show ?thesis using front(4) by simp
qed

lemma rank_loop_ids: "mset (ranked_ids (rank_loop i s [] (- 1) items)) = add_mset i (mset (ranked_ids items))"
  by (cases rule: rank_loop_cases[of items s i]) (auto simp: ranked_ids_def)

section \<open>Properties\<close>

text \<open>
  (C26) A walk over a tree ends without a panic and visits every node exactly once, parents before their children and
  children in order: the nested child iterators compute the preorder of the tree.
\<close>

theorem tree_walk_preorder:
  assumes "length (preorder root) < n"
  shows "tree_walk n (node_Iterator root) = Some (preorder root) \<and>
    tree_IsSharable isSharable n root = Some (\<forall>m \<in> set (preorder root). isSharable (tn_data m))"
  using tree_walk_visits[OF node_Iterator_ok(1)[of root], of n] assms
  by (simp add: node_Iterator_ok tree_IsSharable_def list_all_iff)

theorem tree_walk_preorder_witness:
  "map_option (map tn_data) (tree_walk 6 (node_Iterator (TreeNode 1 [TreeNode 2 [TreeNode (3::nat) []], TreeNode 4 []]))) = Some [1, 2, 3, 4]"
  using tree_walk_preorder[of "TreeNode 1 [TreeNode 2 [TreeNode (3::nat) []], TreeNode 4 []]" 6 "\<lambda>_. True"] by simp

text \<open>
  (C28) Adding a value to a ranking whose ranks have decreasing scores: the value is ranked once and every other value stays ranked,
  but the ranks are in order afterwards if and only if the score is not strictly between the scores of two ranks.
\<close>

theorem ranking_Add_order:
  assumes "TransientIdOf v = Some i" and "valueById r i = None" and "0 \<le> s" and "ranked (rankItems r)" and "ranking_Add TransientIdOf v s r = (err, r')"
  shows "err = None \<and> valueById r' = (valueById r)(i \<mapsto> v) \<and> mset (ranked_ids (rankItems r')) = add_mset i (mset (ranked_ids (rankItems r))) \<and>
    (ranked (rankItems r') \<longleftrightarrow> \<not> between_ranks s (rankItems r))"
proof -
  have "\<not> s < 0" using assms(3) by (simp add: not_less)
  then have "err = None" "r' = r\<lparr>valueById := (valueById r)(i \<mapsto> v), rankItems := rank_loop i s [] (- 1) (rankItems r)\<rparr>"
    using assms(1,2,5) by (simp_all add: ranking_Add_def)
  then show ?thesis using rank_loop_ranked[OF assms(4), of i s] rank_loop_ids[of i s "rankItems r"] by simp
qed

definition sample_ranking :: "(nat, nat, int) Ranking" where
  "sample_ranking = \<lparr>valueById = [1 \<mapsto> 1, 2 \<mapsto> 2], rankItems = [\<lparr>valueIds = [1], score = 10\<rparr>, \<lparr>valueIds = [2], score = 5\<rparr>]\<rparr>"

theorem ranking_Add_order_witness:
  "\<exists>r. ranking_Add Some 3 7 sample_ranking = (None, r) \<and> ranked (rankItems sample_ranking) \<and> \<not> ranked (rankItems r)"
proof -
  have r: "ranked (rankItems sample_ranking)" and b: "between_ranks 7 (rankItems sample_ranking)"
    by (simp_all add: sample_ranking_def ranked_def between_ranks_def)
  have "valueById sample_ranking 3 = None" by (simp add: sample_ranking_def)
  from ranking_Add_order[of Some 3 3 sample_ranking 7, OF refl this _ r] show ?thesis
    using r b by (cases "ranking_Add Some 3 7 sample_ranking") auto
qed

text \<open>A negative score is refused only after the value has been recorded: a second attempt with a valid score is refused as a duplicate.\<close>

lemma refused_value_recorded:
  assumes "TransientIdOf v = Some i" and "valueById r i = None" and "s < 0"
  shows "fst (ranking_Add TransientIdOf v s r) = Some ErrRankingCanOnlyRankValuesWithAPositiveScore"
    and "fst (ranking_Add TransientIdOf v s' (snd (ranking_Add TransientIdOf v s r))) = Some ErrRankingCannotContainDuplicates"
  using assms by (simp_all add: ranking_Add_def)

end
