(* ===== verification/GraphCollections.thy ===== *)
theory GraphCollections
  imports DirectedGraphs
begin

text \<open>
  Graph values (\<open>internal/globals/containers/graphcoll\<close>: \<open>graph.go\<close>, \<open>node.go\<close>, \<open>walker.go\<close>), on top of the directed graphs of
  \<open>memds\<close>. The roots are meant to be the nodes without incoming edge; a walk starts from them. The order in which Go ranges
  over a map is an argument: an enumeration of sets of nodes, and the list of the roots.
\<close>

section \<open>State\<close>

record 'v Graph =
  gr_graph :: "('v, unit, unit) DirectedGraph"
  roots :: "NodeId set"

record GraphNode =
  gn_id :: NodeId
  gn_removed :: bool

datatype graph_error = ErrEdgeListShouldHaveEvenLength | ErrNodeNotInGraph | GraphIndexOutOfRange | GraphPanics dg_panic

definition empty_graph :: "'v Graph" where
  "empty_graph = \<lparr>gr_graph = newDirectedGraph (), roots = {}\<rparr>"

definition graph_connect :: "NodeId \<Rightarrow> NodeId \<Rightarrow> 'v Graph \<Rightarrow> graph_error option \<times> 'v Graph" where
  "graph_connect fromId toId g =
    (let roots1 = (if toId \<in> roots g
                   then (if dg_CountSourceNodes fromId (gr_graph g) = 0 then insert fromId (roots g - {toId}) else roots g - {toId})
                   else roots g)
     in case dg_SetEdge fromId toId () (gr_graph g) of
          Inl p \<Rightarrow> (Some (GraphPanics p), g\<lparr>roots := roots1\<rparr>)
        | Inr g1 \<Rightarrow> (None, g\<lparr>gr_graph := g1, roots := roots1\<rparr>))"

definition graph_Connect :: "GraphNode \<Rightarrow> GraphNode \<Rightarrow> 'v Graph \<Rightarrow> graph_error option \<times> 'v Graph" where
  "graph_Connect from to g =
    (if gn_removed from then (Some ErrNodeNotInGraph, g)
     else if gn_removed to then (Some ErrNodeNotInGraph, g)
     else graph_connect (gn_id from) (gn_id to) g)"

definition graph_InsertNode :: "'v \<Rightarrow> 'v Graph \<Rightarrow> graph_error + (GraphNode \<times> 'v Graph)" where
  "graph_InsertNode v g =
    (case dg_AddNode no_hooks v (gr_graph g) of
       Inl p \<Rightarrow> Inl (GraphPanics p)
     | Inr (nid, g1) \<Rightarrow> Inr (\<lparr>gn_id = nid, gn_removed = False\<rparr>, g\<lparr>gr_graph := g1, roots := insert nid (roots g)\<rparr>))"

text \<open>The node object and the graph are both changed.\<close>

definition graph_RemoveNode :: "GraphNode \<Rightarrow> 'v Graph \<Rightarrow> graph_error option \<times> GraphNode \<times> 'v Graph" where
  "graph_RemoveNode node g =
    (if gn_removed node then (None, node, g)
     else
       (let node1 = node\<lparr>gn_removed := True\<rparr>
        in if dg_Node (gn_id node) (gr_graph g) = None then (Some ErrNodeNotInGraph, node1, g)
           else
             (let g1 = dg_RemoveNode no_hooks (gn_id node) (gr_graph g);
                  roots1 = (if gn_id node \<in> roots g
                            then roots g \<union> {d \<in> dg_DestinationIds (gn_id node) g1. dg_CountSourceNodes d g1 = 0}
                            else roots g)
              in (None, node1, g\<lparr>gr_graph := g1, roots := roots1\<rparr>))))"

section \<open>Creation\<close>

fun insert_nodes :: "'v list \<Rightarrow> 'v Graph \<Rightarrow> graph_error + (NodeId list \<times> 'v Graph)" where
  "insert_nodes [] g = Inr ([], g)"
| "insert_nodes (v # vs) g =
    (case graph_InsertNode v g of
       Inl e \<Rightarrow> Inl e
     | Inr (n, g1) \<Rightarrow> (case insert_nodes vs g1 of Inl e \<Rightarrow> Inl e | Inr (ids, g2) \<Rightarrow> Inr (gn_id n # ids, g2)))"

definition node_at :: "NodeId list \<Rightarrow> int \<Rightarrow> NodeId option" where
  "node_at ids i = (if 0 \<le> i \<and> i < int (length ids) then Some (ids ! nat i) else None)"

function connect_edges :: "nat \<Rightarrow> nat \<Rightarrow> NodeId list \<Rightarrow> int list \<Rightarrow> 'v Graph \<Rightarrow> graph_error + 'v Graph" where
  "connect_edges i halfEdgeCount ids es g =
    (if halfEdgeCount \<le> i then Inr g
     else if length es \<le> i + 1 then Inl GraphIndexOutOfRange
     else (case (node_at ids (es ! i), node_at ids (es ! (i + 1))) of
             (Some from, Some to) \<Rightarrow>
               (case graph_connect from to g of
                  (Some e, _) \<Rightarrow> Inl e
                | (None, g1) \<Rightarrow> connect_edges (i + 2) halfEdgeCount ids es g1)
           | _ \<Rightarrow> Inl GraphIndexOutOfRange))"
  by pat_completeness auto
termination
  by (relation "measure (\<lambda>(i, h, _). h - i)") auto

definition NewGraph :: "'v list \<Rightarrow> int list \<Rightarrow> graph_error + 'v Graph" where
  "NewGraph nodeData es =
    (case insert_nodes nodeData empty_graph of
       Inl e \<Rightarrow> Inl e
     | Inr (ids, g) \<Rightarrow>
         if length es mod 2 \<noteq> 0 then Inl ErrEdgeListShouldHaveEvenLength
         else connect_edges 0 (length es div 2) ids es g)"

section \<open>Walking\<close>

record GraphWalker =
  wk_visited :: "NodeId set"
  wk_stack :: "NodeId list"
  wk_current :: NodeId
  firstChildStackIndex :: int

text \<open>The top of the stack is its last element.\<close>

definition graph_Walker :: "NodeId list \<Rightarrow> NodeId option \<Rightarrow> 'v Graph \<Rightarrow> GraphWalker" where
  "graph_Walker rootList randomNode g =
    \<lparr>wk_visited = {},
     wk_stack = (if dg_NodeCount (gr_graph g) = 0 then []
                 else if roots g = {} then (case randomNode of None \<Rightarrow> [] | Some n \<Rightarrow> [n]) else rootList),
     wk_current = - 1, firstChildStackIndex = - 1\<rparr>"

fun push_unvisited :: "NodeId list \<Rightarrow> NodeId set \<times> NodeId list \<Rightarrow> NodeId set \<times> NodeId list" where
  "push_unvisited [] s = s"
| "push_unvisited (d # ds) (visited, stack) =
    (if d \<in> visited then push_unvisited ds (visited, stack) else push_unvisited ds (insert d visited, stack @ [d]))"

text \<open>\<open>None\<close> when there is no next node; the retrieval of the destination nodes panics when one of them is missing, the inner option.\<close>

definition walker_Next :: "(NodeId set \<Rightarrow> NodeId list) \<Rightarrow> 'v Graph \<Rightarrow> GraphWalker \<Rightarrow> GraphWalker option option" where
  "walker_Next enum g wk =
    (if wk_stack wk = [] then None
     else
       (let e = last (wk_stack wk); stack = butlast (wk_stack wk)
        in case dg_DestinationNodes e (gr_graph g) of
             None \<Rightarrow> Some None
           | Some nodes \<Rightarrow>
               (let dests = enum (fst ` nodes);
                    (visited1, stack1) = push_unvisited dests (insert e (wk_visited wk), stack)
                in Some (Some \<lparr>wk_visited = visited1, wk_stack = stack1, wk_current = e,
                     firstChildStackIndex = (if dests = [] then - 1 else int (length stack))\<rparr>))))"

text \<open>What \<open>DirectedGraph.RandomNode\<close> may return: the first node of a range over the nodes.\<close>

definition random_node :: "NodeId option \<Rightarrow> 'v Graph \<Rightarrow> bool" where
  "random_node r g \<longleftrightarrow> (case r of None \<Rightarrow> dg_NodeCount (gr_graph g) = 0 | Some n \<Rightarrow> dg_Node n (gr_graph g) \<noteq> None)"

definition walker_Prune :: "GraphWalker \<Rightarrow> GraphWalker" where
  "walker_Prune wk =
    (if 0 \<le> firstChildStackIndex wk then wk\<lparr>wk_stack := take (nat (firstChildStackIndex wk)) (wk_stack wk)\<rparr> else wk)"

definition walker_Value :: "'v Graph \<Rightarrow> GraphWalker \<Rightarrow> graph_error + GraphNode" where
  "walker_Value g wk =
    (case dg_NodeWithID (wk_current wk) (gr_graph g) of
       (Some n, True) \<Rightarrow> Inr \<lparr>gn_id = fst n, gn_removed = False\<rparr>
     | _ \<Rightarrow> Inl ErrNodeNotInGraph)"

text \<open>The keys of a whole walk, with fuel.\<close>

fun walk_keys :: "nat \<Rightarrow> (NodeId set \<Rightarrow> NodeId list) \<Rightarrow> 'v Graph \<Rightarrow> GraphWalker \<Rightarrow> NodeId list option" where
  "walk_keys 0 enum g wk = None"
| "walk_keys (Suc n) enum g wk =
    (case walker_Next enum g wk of
       None \<Rightarrow> Some []
     | Some None \<Rightarrow> None
     | Some (Some wk1) \<Rightarrow> map_option ((#) (wk_current wk1)) (walk_keys n enum g wk1))"

section \<open>The roots\<close>

definition no_source :: "('n, 'e, 'i) DirectedGraph \<Rightarrow> NodeId \<Rightarrow> bool" where
  "no_source g n \<longleftrightarrow> (\<forall>s. (s, n) \<notin> edges g)"

definition roots_exact :: "'v Graph \<Rightarrow> bool" where
  "roots_exact g \<longleftrightarrow> dg_inv (gr_graph g) \<and> roots g = {n. dg_nodes (gr_graph g) n \<noteq> None \<and> no_source (gr_graph g) n}"

lemma finite_sources: "dg_inv g \<Longrightarrow> finite {s. (s, n) \<in> edges g}"
proof -
  assume I: "dg_inv g"
  have "{s. (s, n) \<in> edges g} \<subseteq> {0..currId g}" using dg_invD(2)[OF I] dg_invD(3)[OF I] by (fastforce simp: edges_def)
  then show ?thesis by (rule finite_subset) simp
qed

lemma CountSourceNodes_zero:
  assumes I: "dg_inv g"
  shows "dg_CountSourceNodes n g = 0 \<longleftrightarrow> no_source g n"
proof -
  have "dg_CountSourceNodes n g = card {s. (s, n) \<in> edges g}"
    using dg_invD(1)[OF I] by (auto simp: dg_CountSourceNodes_def edges_def lookup2_def dom_def split: option.splits)
  then show ?thesis using finite_sources[OF I, of n] by (auto simp: no_source_def)
qed

lemma empty_roots_exact: "roots_exact empty_graph"
  using newDirectedGraph_inv[of "()"] by (simp add: roots_exact_def empty_graph_def) (simp add: newDirectedGraph_def)

lemma InsertNode_roots_exact:
  assumes R: "roots_exact g" and small: "currId (gr_graph g) < 2 ^ 63 - 1" and ins: "graph_InsertNode v g = Inr (n, g')"
  shows "roots_exact g'"
proof -
  obtain nid g1 where a: "dg_AddNode no_hooks v (gr_graph g) = Inr (nid, g1)" and g': "g' = g\<lparr>gr_graph := g1, roots := insert nid (roots g)\<rparr>"
    using ins by (auto simp: graph_InsertNode_def split: sum.splits prod.splits)
  have I: "dg_inv (gr_graph g)" using R by (simp add: roots_exact_def)
  note A = AddNode_inv[OF I a small] and F = AddNode_fields[OF a]
  have e: "edges g1 = edges (gr_graph g)" using F(5) by (simp add: edges_def)
  have "no_source (gr_graph g) nid" using A dg_invD(2)[OF I] by (force simp: no_source_def edges_def)
  then show ?thesis using R A F(4) unfolding roots_exact_def g' no_source_def by (auto simp: e)
qed

lemma connect_roots_exact:
  assumes R: "roots_exact g" and c: "graph_connect f t g = (err, g')" and nodes: "dg_nodes (gr_graph g) f \<noteq> None"
  shows "roots_exact g'"
proof -
  have I: "dg_inv (gr_graph g)" using R by (simp add: roots_exact_def)
  note count = CountSourceNodes_zero[OF I]
  have r: "roots g = {n. dg_nodes (gr_graph g) n \<noteq> None \<and> no_source (gr_graph g) n}" using R by (simp add: roots_exact_def)
  show ?thesis
  proof (cases "dg_SetEdge f t () (gr_graph g)")
    case (Inl p)
    then have "f = t \<or> dg_nodes (gr_graph g) t = None" using nodes by (auto simp: dg_SetEdge_def Let_def split: if_splits)
    then have "(if t \<in> roots g then if dg_CountSourceNodes f (gr_graph g) = 0 then insert f (roots g - {t}) else roots g - {t} else roots g) = roots g"
      using r count nodes by auto
    then show ?thesis using R c Inl by (auto simp: graph_connect_def)
  next
    case (Inr g1)
    have e: "edges g1 = insert (f, t) (edges (gr_graph g))" and i: "dg_inv g1" and n: "dg_nodes g1 = dg_nodes (gr_graph g)" and ft: "f \<noteq> t"
      using SetEdge_edges[OF Inr] SetEdge_inv[OF I Inr] Inr by (auto simp: dg_SetEdge_def Let_def split: if_splits option.splits)
    have "no_source g1 m \<longleftrightarrow> no_source (gr_graph g) m \<and> m \<noteq> t" for m by (auto simp: no_source_def e)
    moreover have "(if t \<in> roots g then if dg_CountSourceNodes f (gr_graph g) = 0 then insert f (roots g - {t}) else roots g - {t} else roots g) =
        {m. dg_nodes (gr_graph g) m \<noteq> None \<and> no_source (gr_graph g) m \<and> m \<noteq> t}"
      using nodes ft unfolding count r by auto
    ultimately show ?thesis using c Inr i n by (auto simp: graph_connect_def roots_exact_def)
  qed
qed

section \<open>Which nodes a walk visits\<close>

definition enumerates :: "(NodeId set \<Rightarrow> NodeId list) \<Rightarrow> bool" where
  "enumerates enum \<longleftrightarrow> (\<forall>S. finite S \<longrightarrow> set (enum S) = S)"

lemma push_unvisited_eq:
  assumes "push_unvisited ds (V, st) = (V', st')"
  shows "V' = V \<union> set ds \<and> (\<exists>new. st' = st @ new \<and> distinct new \<and> set new = set ds - V)"
  using assms
proof (induction ds "(V, st)" arbitrary: V st rule: push_unvisited.induct)
  case (2 d ds V st)
  show ?case
  proof (cases "d \<in> V")
    case True
    then show ?thesis using 2 by auto
  next
    case False
    then have "V' = insert d V \<union> set ds \<and> (\<exists>new. st' = (st @ [d]) @ new \<and> distinct new \<and> set new = set ds - insert d V)" using 2 by simp
    then obtain new where "V' = insert d V \<union> set ds" "st' = (st @ [d]) @ new" "distinct new" "set new = set ds - insert d V" by blast
    then show ?thesis using False by (intro conjI exI[of _ "d # new"]) auto
  qed
qed simp

lemma DestinationNodes_ids:
  assumes "dg_inv g"
  shows "\<exists>ns. dg_DestinationNodes n g = Some ns \<and> fst ` ns = {d. (n, d) \<in> edges g}"
  using must_get_nodes_destination[OF assms, of n] dg_invD(2)[OF assms, of n] by (force simp: edges_def image_iff)

definition reached :: "'v Graph \<Rightarrow> NodeId set \<Rightarrow> NodeId set" where
  "reached g starts = (edges (gr_graph g))\<^sup>* `` starts"

text \<open>The nodes that were visited, in order, and the state of the walker.\<close>

definition walk_inv :: "'v Graph \<Rightarrow> NodeId set \<Rightarrow> NodeId list \<Rightarrow> GraphWalker \<Rightarrow> bool" where
  "walk_inv g starts out wk \<longleftrightarrow> distinct (out @ wk_stack wk) \<and> set out \<subseteq> wk_visited wk \<and> wk_visited wk \<subseteq> set out \<union> set (wk_stack wk) \<and>
     set (wk_stack wk) \<subseteq> wk_visited wk \<union> starts \<and> starts \<subseteq> set out \<union> set (wk_stack wk) \<and>
     (\<forall>x \<in> set out. \<forall>d. (x, d) \<in> edges (gr_graph g) \<longrightarrow> d \<in> wk_visited wk) \<and> set out \<union> set (wk_stack wk) \<subseteq> reached g starts \<and>
     (\<forall>r \<in> starts - set out. r = last (wk_stack wk) \<or> no_source (gr_graph g) r)"

lemma walk_inv_end:
  assumes I: "walk_inv g starts out wk" and "wk_stack wk = []"
  shows "set out = reached g starts"
proof -
  have o: "set out = wk_visited wk" "starts \<subseteq> set out" "set out \<subseteq> reached g starts" using assms by (auto simp: walk_inv_def)
  have "y \<in> set out" if "(x, y) \<in> (edges (gr_graph g))\<^sup>*" "x \<in> starts" for x y
    using that(1)
  proof (induction rule: rtrancl_induct)
    case base
    then show ?case using o(2) that(2) by blast
  next
    case (step y z)
    then show ?case using I o(1) by (auto simp: walk_inv_def)
  qed
  then show ?thesis using o(3) by (auto simp: reached_def)
qed

lemma walk_inv_snoc:
  assumes "walk_inv g starts out wk" and "wk_stack wk = st @ [e]"
  shows "distinct (out @ st @ [e])" "set st \<subseteq> wk_visited wk \<union> starts" "set out \<subseteq> wk_visited wk" "wk_visited wk \<subseteq> set out \<union> set st \<union> {e}"
    "starts \<subseteq> set out \<union> set st \<union> {e}" "set out \<union> set st \<union> {e} \<subseteq> reached g starts"
    "x \<in> set out \<Longrightarrow> (x, d) \<in> edges (gr_graph g) \<Longrightarrow> d \<in> wk_visited wk"
    "r \<in> starts \<Longrightarrow> r \<notin> set out \<Longrightarrow> r \<noteq> e \<Longrightarrow> no_source (gr_graph g) r"
  using assms(1) unfolding walk_inv_def assms(2) by auto

lemma walk_inv_next:
  assumes I: "walk_inv g starts out wk" and ne: "wk_stack wk \<noteq> []" and inv: "dg_inv (gr_graph g)"
    and enum: "enumerates enum"
  shows "\<exists>wk1. walker_Next enum g wk = Some (Some wk1) \<and> walk_inv g starts (out @ [wk_current wk1]) wk1"
proof -
  let ?e = "last (wk_stack wk)" and ?st = "butlast (wk_stack wk)" and ?V = "wk_visited wk"
  have st: "wk_stack wk = ?st @ [?e]" using ne by simp
  obtain ns where ns: "dg_DestinationNodes ?e (gr_graph g) = Some ns" "fst ` ns = {d. (?e, d) \<in> edges (gr_graph g)}"
    using DestinationNodes_ids[OF inv] by blast
  let ?D = "{d. (?e, d) \<in> edges (gr_graph g)}"
  have "?D \<subseteq> {0..currId (gr_graph g)}" using dg_invD(2)[OF inv] dg_invD(3)[OF inv] by (fastforce simp: edges_def)
  then have fin: "finite ?D" by (rule finite_subset) simp
  then have en: "set (enum ?D) = ?D" using enum by (simp add: enumerates_def)
  obtain V' st' where p: "push_unvisited (enum ?D) (insert ?e ?V, ?st) = (V', st')" by fastforce
  then obtain new where V': "V' = insert ?e ?V \<union> ?D" and st': "st' = ?st @ new" and new: "distinct new" "set new = ?D - insert ?e ?V"
    using push_unvisited_eq[OF p] en by auto
  have "walker_Next enum g wk = Some (Some \<lparr>wk_visited = V', wk_stack = st', wk_current = ?e,
      firstChildStackIndex = (if enum ?D = [] then - 1 else int (length ?st))\<rparr>)"
    using ne ns p by (simp add: walker_Next_def Let_def)
  moreover have "walk_inv g starts (out @ [?e]) \<lparr>wk_visited = V', wk_stack = st', wk_current = ?e,
      firstChildStackIndex = (if enum ?D = [] then - 1 else int (length ?st))\<rparr>"
  proof -
    have d: "distinct (out @ ?st @ [?e])" and sub: "set ?st \<subseteq> ?V \<union> starts" "set out \<subseteq> ?V" "?V \<subseteq> set out \<union> set ?st \<union> {?e}"
        "starts \<subseteq> set out \<union> set ?st \<union> {?e}" "set out \<union> set ?st \<union> {?e} \<subseteq> reached g starts"
      and cl: "\<And>x d. x \<in> set out \<Longrightarrow> (x, d) \<in> edges (gr_graph g) \<Longrightarrow> d \<in> ?V"
      and src: "\<And>r. r \<in> starts \<Longrightarrow> r \<notin> set out \<Longrightarrow> r \<noteq> ?e \<Longrightarrow> no_source (gr_graph g) r"
      using walk_inv_snoc[OF I st] by blast+
    have "?D \<inter> (starts - set out - {?e}) = {}" using src by (auto simp: no_source_def)
    then have "distinct ((out @ [?e]) @ ?st @ new)" using d new sub(1,2) by auto
    moreover have "?D \<subseteq> reached g starts" using sub(5) by (auto simp: reached_def intro: rtrancl_into_rtrancl)
    ultimately show ?thesis using sub new cl src unfolding walk_inv_def V' st' by auto
  qed
  ultimately show ?thesis by auto
qed

lemma walk_keys_visits:
  assumes inv: "dg_inv (gr_graph g)" and enum: "enumerates enum" and fin: "finite (reached g starts)"
    and "walk_inv g starts out wk" and "card (reached g starts) - length out < n"
  shows "\<exists>ks. walk_keys n enum g wk = Some ks \<and> distinct (out @ ks) \<and> set (out @ ks) = reached g starts"
  using assms(4,5)
proof (induction n arbitrary: out wk)
  case (Suc n)
  show ?case
  proof (cases "wk_stack wk = []")
    case True
    then show ?thesis using walk_inv_end[OF Suc.prems(1) True] Suc.prems(1) by (auto simp: walker_Next_def walk_inv_def)
  next
    case False
    obtain wk1 where w: "walker_Next enum g wk = Some (Some wk1)" "walk_inv g starts (out @ [wk_current wk1]) wk1"
      using walk_inv_next[OF Suc.prems(1) False inv enum] by blast
    have "length (out @ [wk_current wk1]) \<le> card (reached g starts)"
      using w(2) card_mono[OF fin, of "set (out @ [wk_current wk1])"] distinct_card[of "out @ [wk_current wk1]"] by (auto simp: walk_inv_def)
    then have "card (reached g starts) - length (out @ [wk_current wk1]) < n" using Suc.prems(2) by simp
    from Suc.IH[OF w(2) this] w(1) show ?thesis by auto
  qed
qed simp

section \<open>Properties\<close>

text \<open>The graphs that are built by inserting and connecting nodes; the source of an edge is a node of the graph.\<close>

inductive graph_built :: "'v Graph \<Rightarrow> bool" where
  built_empty: "graph_built empty_graph"
| built_insert: "graph_built g \<Longrightarrow> currId (gr_graph g) < 2 ^ 63 - 1 \<Longrightarrow> graph_InsertNode v g = Inr (n, g') \<Longrightarrow> graph_built g'"
| built_connect: "graph_built g \<Longrightarrow> dg_Node (gn_id n) (gr_graph g) \<noteq> None \<Longrightarrow> graph_Connect n m g = (err, g') \<Longrightarrow> graph_built g'"

lemma built_roots_exact: "graph_built g \<Longrightarrow> roots_exact g"
proof (induction rule: graph_built.induct)
  case built_empty
  then show ?case by (rule empty_roots_exact)
next
  case (built_insert g v n g')
  show ?case by (rule InsertNode_roots_exact[OF built_insert.IH built_insert.hyps(2,3)])
next
  case (built_connect g n m err g')
  show ?case
    using built_connect.IH connect_roots_exact[OF built_connect.IH, of "gn_id n" "gn_id m"] built_connect.hyps(2,3) by (auto simp: graph_Connect_def dg_Node_def split: if_splits)
qed

lemma reached_nodes:
  assumes "dg_inv (gr_graph g)" and "starts \<subseteq> dom (dg_nodes (gr_graph g))"
  shows "reached g starts \<subseteq> dom (dg_nodes (gr_graph g))" and "finite (dom (dg_nodes (gr_graph g)))"
proof -
  have "y \<in> dom (dg_nodes (gr_graph g))" if "(x, y) \<in> (edges (gr_graph g))\<^sup>*" "x \<in> starts" for x y
    using that(1)
  proof (induction rule: rtrancl_induct)
    case base
    then show ?case using assms(2) that(2) by blast
  next
    case (step y z)
    then show ?case using dg_invD(2)[OF assms(1), of y z] by (auto simp: edges_def)
  qed
  then show "reached g starts \<subseteq> dom (dg_nodes (gr_graph g))" by (auto simp: reached_def)
  have "dom (dg_nodes (gr_graph g)) \<subseteq> {0..currId (gr_graph g)}" using dg_invD(3)[OF assms(1)] by fastforce
  then show "finite (dom (dg_nodes (gr_graph g)))" by (rule finite_subset) simp
qed

text \<open>The nodes a walk starts from: the roots, or one node of the graph if there is no root.\<close>

definition start_nodes :: "NodeId option \<Rightarrow> 'v Graph \<Rightarrow> NodeId set" where
  "start_nodes randomNode g = (if roots g = {} then set_option randomNode else roots g)"

lemma start_of_walk:
  assumes "roots_exact g" "random_node randomNode g" "distinct rootList" "set rootList = roots g"
  shows "start_nodes randomNode g \<subseteq> dom (dg_nodes (gr_graph g))"
    and "walk_inv g (start_nodes randomNode g) [] (graph_Walker rootList randomNode g)"
proof -
  have fin: "finite (dom (dg_nodes (gr_graph g)))" using reached_nodes(2)[of g "{}"] assms(1) by (simp add: roots_exact_def)
  have r: "roots g = {m. dg_nodes (gr_graph g) m \<noteq> None \<and> no_source (gr_graph g) m}" using assms(1) by (simp add: roots_exact_def)
  then show sub: "start_nodes randomNode g \<subseteq> dom (dg_nodes (gr_graph g))"
    using assms(2) by (auto simp: start_nodes_def random_node_def dg_Node_def split: if_splits option.splits)
  have stack: "set (wk_stack (graph_Walker rootList randomNode g)) = start_nodes randomNode g"
    "distinct (wk_stack (graph_Walker rootList randomNode g))" "wk_visited (graph_Walker rootList randomNode g) = {}"
    using sub fin assms(3,4) by (auto simp: graph_Walker_def start_nodes_def dg_NodeCount_def split: option.splits if_splits)
  moreover have "x = last (wk_stack (graph_Walker rootList randomNode g)) \<or> no_source (gr_graph g) x" if "x \<in> start_nodes randomNode g" for x
  proof (cases "roots g = {}")
    case True
    then have "set (wk_stack (graph_Walker rootList randomNode g)) = {x}" using that stack(1) by (auto simp: start_nodes_def)
    moreover from this have "wk_stack (graph_Walker rootList randomNode g) \<noteq> []" by auto
    ultimately show ?thesis using last_in_set[of "wk_stack (graph_Walker rootList randomNode g)"] by auto
  next
    case False
    then have "x \<in> roots g" using that by (simp add: start_nodes_def)
    then show ?thesis using r by simp
  qed
  ultimately show "walk_inv g (start_nodes randomNode g) [] (graph_Walker rootList randomNode g)"
    by (auto simp: walk_inv_def reached_def)
qed

text \<open>
  (C12) The roots of a graph that is built by inserting and connecting nodes are its nodes without incoming edge, and a walk ends
  and visits exactly the nodes that can be reached from a root, each once, in whatever order Go ranges over maps; in a graph without
  root the walk visits the nodes that can be reached from the node that \<open>RandomNode\<close> returns. The visited nodes are the keys of the
  walker; its values cannot be read (\<open>walker_value_panics\<close>).
\<close>

theorem graph_walk_reaches:
  assumes "graph_built g" and "enumerates enum" and "distinct rootList" and "set rootList = roots g" and "random_node randomNode g"
    and "dg_NodeCount (gr_graph g) < n"
  shows "(\<forall>m. m \<in> roots g \<longleftrightarrow> dg_Node m (gr_graph g) \<noteq> None \<and> (\<forall>s. \<not> dg_HasEdgeFromTo s m (gr_graph g))) \<and>
    (\<exists>ks. walk_keys n enum g (graph_Walker rootList randomNode g) = Some ks \<and> distinct ks \<and>
       set ks = (edges (gr_graph g))\<^sup>* `` (if roots g = {} then set_option randomNode else roots g))"
proof -
  have R: "roots_exact g" by (rule built_roots_exact[OF assms(1)])
  then have inv: "dg_inv (gr_graph g)" and r: "roots g = {m. dg_nodes (gr_graph g) m \<noteq> None \<and> no_source (gr_graph g) m}"
    by (simp_all add: roots_exact_def)
  note S = start_of_walk[OF R assms(5,3,4)]
  note N = reached_nodes[OF inv S(1)]
  have "card (reached g (start_nodes randomNode g)) - length [] < n"
    using card_mono[OF N(2) N(1)] assms(6) by (simp add: dg_NodeCount_def)
  from walk_keys_visits[OF inv assms(2) finite_subset[OF N] S(2) this] show ?thesis
    using r by (auto simp: reached_def start_nodes_def dg_Node_def no_source_def edges_def dg_HasEdgeFromTo_def)
qed

definition sample_build :: "string Graph" where
  "sample_build = snd (graph_Connect \<lparr>gn_id = 0, gn_removed = False\<rparr> \<lparr>gn_id = 1, gn_removed = False\<rparr>
     (snd (projr (graph_InsertNode ''b'' (snd (projr (graph_InsertNode ''a'' empty_graph)))))))"

lemma sample_build_eq:
  "sample_build = \<lparr>gr_graph = \<lparr>dg_nodes = [0 \<mapsto> ''a'', 1 \<mapsto> ''b''], dg_from = [0 \<mapsto> [1 \<mapsto> ()]], dg_to = [1 \<mapsto> [0 \<mapsto> ()]],
     currId = 1, availableIds = [], edgeCount = 1, additionalData = ()\<rparr>, roots = {0}\<rparr>"
  by (simp add: sample_build_def empty_graph_def newDirectedGraph_def graph_InsertNode_def dg_AddNode_def no_hooks_def graph_Connect_def
      graph_connect_def dg_SetEdge_def dg_CountSourceNodes_def i64_def insert_absorb)

lemma sample_build_built: "graph_built sample_build"
proof -
  define g1 where "g1 = snd (projr (graph_InsertNode ''a'' empty_graph))"
  define g2 where "g2 = snd (projr (graph_InsertNode ''b'' g1))"
  note eval = graph_InsertNode_def dg_AddNode_def no_hooks_def empty_graph_def newDirectedGraph_def i64_def
  have "graph_built g1"
    by (rule built_insert[OF built_empty, where v = "''a''" and n = "\<lparr>gn_id = 0, gn_removed = False\<rparr>"]) (simp_all add: g1_def eval)
  then have "graph_built g2"
    by (rule built_insert[where v = "''b''" and n = "\<lparr>gn_id = 1, gn_removed = False\<rparr>"]) (simp_all add: g2_def g1_def eval)
  then show ?thesis
    by (rule built_connect[where n = "\<lparr>gn_id = 0, gn_removed = False\<rparr>" and m = "\<lparr>gn_id = 1, gn_removed = False\<rparr>" and err = None])
      (simp_all add: sample_build_def g2_def[symmetric] g1_def[symmetric],
       simp_all add: g2_def g1_def eval dg_Node_def graph_Connect_def graph_connect_def dg_SetEdge_def dg_CountSourceNodes_def)
qed

text \<open>A cycle of two nodes, which has no root.\<close>

definition sample_cycle :: "string Graph" where
  "sample_cycle = snd (graph_Connect \<lparr>gn_id = 1, gn_removed = False\<rparr> \<lparr>gn_id = 0, gn_removed = False\<rparr> sample_build)"

lemma sample_cycle_eq:
  "sample_cycle = \<lparr>gr_graph = \<lparr>dg_nodes = [0 \<mapsto> ''a'', 1 \<mapsto> ''b''], dg_from = [0 \<mapsto> [1 \<mapsto> ()], 1 \<mapsto> [0 \<mapsto> ()]], dg_to = [1 \<mapsto> [0 \<mapsto> ()], 0 \<mapsto> [1 \<mapsto> ()]],
     currId = 1, availableIds = [], edgeCount = 2, additionalData = ()\<rparr>, roots = {}\<rparr>"
  unfolding sample_cycle_def sample_build_eq
  by (simp add: graph_Connect_def graph_connect_def dg_SetEdge_def dg_CountSourceNodes_def i64_def)

lemma sample_cycle_built: "graph_built sample_cycle"
  by (rule built_connect[OF sample_build_built, where n = "\<lparr>gn_id = 1, gn_removed = False\<rparr>" and m = "\<lparr>gn_id = 0, gn_removed = False\<rparr>" and err = None])
    (simp_all add: sample_cycle_def, simp_all add: sample_build_eq dg_Node_def graph_Connect_def graph_connect_def dg_SetEdge_def dg_CountSourceNodes_def)

theorem graph_walk_reaches_witness:
  "(\<exists>ks. walk_keys 3 sorted_list_of_set sample_build (graph_Walker [0] (Some 1) sample_build) = Some ks \<and> distinct ks \<and> 1 \<in> set ks)
   \<and> (\<exists>ks. walk_keys 3 sorted_list_of_set sample_cycle (graph_Walker [] (Some 1) sample_cycle) = Some ks \<and> distinct ks \<and> 0 \<in> set ks)"
proof -
  have e: "enumerates sorted_list_of_set" by (simp add: enumerates_def)
  have r: "set [0] = roots sample_build" and n: "dg_NodeCount (gr_graph sample_build) < 3" and m: "random_node (Some 1) sample_build"
    by (simp_all add: sample_build_eq dg_NodeCount_def random_node_def dg_Node_def)
  have c: "set [] = roots sample_cycle" and k: "dg_NodeCount (gr_graph sample_cycle) < 3" and l: "random_node (Some 1) sample_cycle"
    by (simp_all add: sample_cycle_eq dg_NodeCount_def random_node_def dg_Node_def)
  have "(0, 1) \<in> edges (gr_graph sample_build)" "(1, 0) \<in> edges (gr_graph sample_cycle)"
    by (simp_all add: sample_build_eq sample_cycle_eq edges_def lookup2_def)
  then have "1 \<in> (edges (gr_graph sample_build))\<^sup>* `` roots sample_build" "0 \<in> (edges (gr_graph sample_cycle))\<^sup>* `` {1}"
    by (auto simp: r[symmetric])
  then show ?thesis using graph_walk_reaches[OF sample_build_built e _ r m n] graph_walk_reaches[OF sample_cycle_built e _ c l k]
    r[symmetric] c[symmetric] by auto
qed

section \<open>Where graphs differ from what they mean to do\<close>

text \<open>\<open>NewGraph\<close> steps by two up to half of the length of the list: with two edges only the first is set.\<close>

lemma new_graph_drops_edges:
  "\<exists>g. NewGraph [''a'', ''b'', ''c''] [0, 1, 1, 2] = Inr g \<and> dg_HasEdgeFromTo 0 1 (gr_graph g) \<and> \<not> dg_HasEdgeFromTo 1 2 (gr_graph g)"
  by (simp add: NewGraph_def empty_graph_def newDirectedGraph_def graph_InsertNode_def dg_AddNode_def no_hooks_def i64_def node_at_def
      connect_edges.simps graph_connect_def dg_SetEdge_def dg_CountSourceNodes_def dg_HasEdgeFromTo_def lookup2_def)

text \<open>
  A removed root stays among the roots, and its children do not become roots: they are looked up once the node and its edges are gone.
\<close>

lemma removed_root_stays:
  assumes "dg_inv (gr_graph g)" and "\<not> gn_removed node" and "gn_id node \<in> roots g" and "dg_Node (gn_id node) (gr_graph g) \<noteq> None"
    and "graph_RemoveNode node g = (err, node', g')"
  shows "roots g' = roots g" and "dg_Node (gn_id node) (gr_graph g') = None"
proof -
  let ?g = "dg_RemoveNode no_hooks (gn_id node) (gr_graph g)"
  have n: "dg_nodes (gr_graph g) (gn_id node) \<noteq> None" using assms(4) by (simp add: dg_Node_def)
  have "lookup2 (dg_from ?g) (gn_id node) d = None" for d using RemoveNode_lookup(1)[OF assms(1) n] by simp
  then have "dg_DestinationIds (gn_id node) ?g = {}"
    by (auto simp: dg_DestinationIds_def lookup2_def split: option.splits)
  then show "roots g' = roots g" using assms(2-5) by (auto simp: graph_RemoveNode_def Let_def)
  show "dg_Node (gn_id node) (gr_graph g') = None"
    using assms(2,4,5) n by (auto simp: graph_RemoveNode_def Let_def dg_Node_def dg_RemoveNode_def no_hooks_def split: option.splits)
qed

text \<open>The value of a walker cannot be read: \<open>NodeWithID\<close> reports a node that is there as not found.\<close>

lemma walker_value_panics: "walker_Value g wk = Inl ErrNodeNotInGraph"
  by (simp add: walker_Value_def dg_NodeWithID_def split: option.splits)

end
