(* ===== verification/RateWindows.thy ===== *)
theory RateWindows
  imports Prelude
begin

text \<open>
  Request rate limiting: the windows of \<open>internal/reqratelimit/rate_limiting.go\<close>, the limiter of
  JSON-RPC sessions (\<open>internal/projectserver/jsonrpc/rate_limiter.go\<close>) and the part of the HTTP
  security engine that limits requests (\<open>internal/globals/http_ns/security_engine.go\<close>).

  Instants are nanoseconds since the zero \<open>time.Time\<close>. A window holds one request per slot, an
  empty slot is the zero request. The share of a socket is compared in \<open>float32\<close> by the code; the
  counts are below \<open>2^24\<close>, for which this comparison is the one of the exact quotients. Log
  messages are left out. \<open>AllowRequest\<close> and \<open>limit\<close> lock the object they are called on and are one
  step each. The security engine is not locked as a whole: its calls look the data of the address
  and the window of the socket up, and create what was not found, in separate steps, which
  interleave with the steps of other calls.

  The locale \<^verbatim>\<open>rate_potential\<close> is the contract of everything that admits requests: the
  number of requests it can still admit in a period is a potential that no request increases and
  that every admitted request decreases. The windows, the sessions and the security engine
  interpret it, and the bound on admitted requests is proved once.
\<close>

section \<open>Windows\<close>

record WindowRequestInfo =
  ri_Id :: string
  ri_Method :: string
  CreationTime :: int
  RemoteAddrAndPort :: string
  RemoteIpAddr :: string
  SentBytes :: int

definition zero_request :: WindowRequestInfo where
  "zero_request = \<lparr>ri_Id = '''', ri_Method = '''', CreationTime = 0, RemoteAddrAndPort = '''', RemoteIpAddr = '''', SentBytes = 0\<rparr>"

record WindowParameters =
  par_Duration :: int
  par_RequestCount :: int

record Window =
  win_duration :: int
  win_requests :: "WindowRequestInfo list"

text \<open>\<open>time.Time.Sub\<close> saturates at the limits of a duration.\<close>

definition time_Sub :: "int \<Rightarrow> int \<Rightarrow> int" where
  "time_Sub a b = max (- (2 ^ 63)) (min (2 ^ 63 - 1) (a - b))"

text \<open>\<open>None\<close> is the panic.\<close>

definition NewWindow :: "WindowParameters \<Rightarrow> Window option" where
  "NewWindow params = (if par_RequestCount params \<le> 0 then None
     else Some \<lparr>win_duration = par_Duration params, win_requests = replicate (nat (par_RequestCount params)) zero_request\<rparr>)"

text \<open>The first loop: an empty slot, or the slots of old requests.\<close>

fun scan_slots :: "int \<Rightarrow> WindowRequestInfo \<Rightarrow> nat \<Rightarrow> WindowRequestInfo list \<Rightarrow> nat list \<Rightarrow> nat + nat list" where
  "scan_slots d rInfo i [] candidates = Inr candidates"
| "scan_slots d rInfo i (req # reqs) candidates =
     (if ri_Id req = '''' then Inl i
      else scan_slots d rInfo (Suc i) reqs
        (if time_Sub (CreationTime rInfo) (CreationTime req) > d then candidates @ [i] else candidates))"

text \<open>The search without candidate, which stops at the first request older than the first one.\<close>

fun first_older :: "int \<Rightarrow> nat \<Rightarrow> WindowRequestInfo list \<Rightarrow> nat \<times> int" where
  "first_older oldest i [] = (0, oldest)"
| "first_older oldest i (req # reqs) =
     (if CreationTime req < oldest then (i, CreationTime req) else first_older oldest (Suc i) reqs)"

text \<open>The search among several candidates.\<close>

fun oldest_candidate :: "WindowRequestInfo list \<Rightarrow> nat \<Rightarrow> int \<Rightarrow> nat list \<Rightarrow> nat" where
  "oldest_candidate reqs slot oldest [] = slot"
| "oldest_candidate reqs slot oldest (i # is) =
     (if CreationTime (reqs ! i) < oldest then oldest_candidate reqs i (CreationTime (reqs ! i)) is
      else oldest_candidate reqs slot oldest is)"

definition put_request :: "nat \<Rightarrow> WindowRequestInfo \<Rightarrow> Window \<Rightarrow> Window" where
  "put_request i rInfo w = w\<lparr>win_requests := (win_requests w)[i := rInfo]\<rparr>"

text \<open>
  \<open>AllowRequest\<close> of a window: the last argument is the method of the window of the IP address
  with its state, if such a window was set.
\<close>

type_synonym 'ip IWindow = "WindowRequestInfo \<Rightarrow> 'ip \<Rightarrow> bool \<times> 'ip"

definition win_AllowRequest :: "'ip IWindow option \<Rightarrow> WindowRequestInfo \<Rightarrow> Window \<times> 'ip \<Rightarrow> bool \<times> Window \<times> 'ip" where
  "win_AllowRequest ipLevelWindow rInfo s = (let (w, ip) = s; reqs = win_requests w in
     case scan_slots (win_duration w) rInfo 0 reqs [] of
       Inl i \<Rightarrow> (True, put_request i rInfo w, ip)
     | Inr [] \<Rightarrow>
         (let (slot, oldest) = first_older (CreationTime (reqs ! 0)) 0 reqs; w' = put_request slot rInfo w in
          if time_Sub (CreationTime rInfo) oldest < tdiv (win_duration w) 2 then (False, w', ip)
          else (case ipLevelWindow of
                  None \<Rightarrow> (False, w', ip)
                | Some allow \<Rightarrow> (let (ok, ip') = allow rInfo ip in (ok, w', ip'))))
     | Inr [i] \<Rightarrow> (True, put_request i rInfo w, ip)
     | Inr (i # is) \<Rightarrow> (True, put_request (oldest_candidate reqs i (CreationTime (reqs ! i)) is) rInfo w, ip))"

text \<open>A window without a window of the IP address.\<close>

definition plain_AllowRequest :: "WindowRequestInfo \<Rightarrow> Window \<Rightarrow> bool \<times> Window" where
  "plain_AllowRequest rInfo w = (let (ok, w', u) = win_AllowRequest None rInfo (w, ()) in (ok, w'))"

text \<open>The window shared by the sockets of an IP address, which embeds a window.\<close>

definition NewSharedRateLimitingWindow :: "WindowParameters \<Rightarrow> Window option" where
  "NewSharedRateLimitingWindow params = (if par_RequestCount params \<le> 0 then None else NewWindow params)"

fun count_sockets :: "int \<Rightarrow> WindowRequestInfo \<Rightarrow> WindowRequestInfo list \<Rightarrow> string list \<Rightarrow> nat \<Rightarrow> string list \<times> nat" where
  "count_sockets d req [] sockets prevReqCount = (sockets, prevReqCount)"
| "count_sockets d req (windowReq # reqs) sockets prevReqCount =
     (if time_Sub (CreationTime req) (CreationTime windowReq) \<ge> d then count_sockets d req reqs sockets prevReqCount
      else count_sockets d req reqs
        (if RemoteAddrAndPort windowReq \<in> set sockets then sockets else sockets @ [RemoteAddrAndPort windowReq])
        (if RemoteAddrAndPort windowReq = RemoteAddrAndPort req then prevReqCount + 1 else prevReqCount))"

definition socket_share_ok :: "WindowRequestInfo \<Rightarrow> Window \<Rightarrow> bool" where
  "socket_share_ok req w =
     (let (sockets0, prevReqCount) = count_sockets (win_duration w) req (win_requests w) [] 0;
          sockets = (if RemoteAddrAndPort req \<in> set sockets0 then sockets0 else sockets0 @ [RemoteAddrAndPort req]);
          reqCount = prevReqCount + 1; total = length (win_requests w) in
      (length sockets = 1 \<and> 2 * reqCount < total) \<or> (length sockets \<noteq> 1 \<and> reqCount * length sockets \<le> total))"

definition shared_AllowRequest :: "WindowRequestInfo \<Rightarrow> Window \<Rightarrow> bool \<times> Window" where
  "shared_AllowRequest req w = (let (allowed, w') = plain_AllowRequest req w in (socket_share_ok req w \<and> allowed, w'))"


section \<open>The contract of a rate limiter\<close>

text \<open>The requests admitted in a sequence, and the number of them in a period.\<close>

fun admitted :: "('e \<Rightarrow> 's \<Rightarrow> bool \<times> 's) \<Rightarrow> 's \<Rightarrow> 'e list \<Rightarrow> 'e list" where
  "admitted serve s [] = []"
| "admitted serve s (e # es) = (let (ok, s') = serve e s in (if ok then [e] else []) @ admitted serve s' es)"

text \<open>The equations for evaluation, in which no state is bound before it is known.\<close>

lemma admitted_code [code]:
  "admitted serve s [] = []"
  "admitted serve s (e # es) = (if fst (serve e s) then [e] else []) @ admitted serve (snd (serve e s)) es"
  by (simp_all split: prod.splits)

definition count_between :: "('e \<Rightarrow> int) \<Rightarrow> ('e \<Rightarrow> bool) \<Rightarrow> int \<Rightarrow> int \<Rightarrow> 'e list \<Rightarrow> nat" where
  "count_between time counted t d es = length (filter (\<lambda>e. counted e \<and> t \<le> time e \<and> time e \<le> t + d) es)"

lemma count_between_simps [simp]:
  "count_between time counted t d [] = 0"
  "count_between time counted t d (e # es) =
     (if counted e \<and> t \<le> time e \<and> time e \<le> t + d then 1 else 0) + count_between time counted t d es"
  by (simp_all add: count_between_def)

lemma admitted_subset: "set (admitted serve s es) \<subseteq> set es"
proof (induction es arbitrary: s)
  case (Cons e es)
  obtain ok s' where "serve e s = (ok, s')" by force
  with Cons [of s'] show ?case by auto
qed simp

text \<open>
  \<open>ticked\<close> are the events that the limiter decides with the time of a request; the others only
  prepare a decision, they admit nothing and increase no potential.
\<close>

locale rate_potential =
  fixes serve :: "'e \<Rightarrow> 's \<Rightarrow> bool \<times> 's"
    and ticked :: "'e \<Rightarrow> bool"
    and time :: "'e \<Rightarrow> int"
    and counted :: "'e \<Rightarrow> bool"
    and good :: "'e \<Rightarrow> bool"
    and inv :: "'s \<Rightarrow> bool"
    and pot :: "int \<Rightarrow> 's \<Rightarrow> nat"
    and bound :: nat
    and d :: int
  assumes inv_serve: "inv s \<Longrightarrow> good e \<Longrightarrow> inv (snd (serve e s))"
    and pot_bound: "inv s \<Longrightarrow> pot t s \<le> bound"
    and pot_serve: "inv s \<Longrightarrow> good e \<Longrightarrow> t \<le> time e \<Longrightarrow> time e \<le> t + d \<Longrightarrow>
      pot t (snd (serve e s)) + (if fst (serve e s) \<and> counted e then 1 else 0) \<le> pot t s"
    and pot_silent: "inv s \<Longrightarrow> good e \<Longrightarrow> \<not> ticked e \<Longrightarrow> pot t (snd (serve e s)) \<le> pot t s"
    and counted_ticked: "counted e \<Longrightarrow> ticked e"
begin

lemma none_after:
  "\<forall>e \<in> set es. ticked e \<longrightarrow> t + d < time e \<Longrightarrow> count_between time counted t d (admitted serve s es) = 0"
proof -
  assume "\<forall>e \<in> set es. ticked e \<longrightarrow> t + d < time e"
  then have "\<forall>e \<in> set (admitted serve s es). counted e \<longrightarrow> \<not> time e \<le> t + d"
    using admitted_subset [of serve s es] counted_ticked by force
  then show ?thesis by (auto simp: count_between_def)
qed

lemma count_le_pot:
  "inv s \<Longrightarrow> sorted (map time (filter ticked es)) \<Longrightarrow> list_all good es \<Longrightarrow> \<forall>e \<in> set es. ticked e \<longrightarrow> t \<le> time e \<Longrightarrow>
   count_between time counted t d (admitted serve s es) \<le> pot t s"
proof (induction es arbitrary: s)
  case (Cons e es)
  obtain ok s' where e: "serve e s = (ok, s')" by force
  have inv: "inv s'" using inv_serve [OF Cons.prems(1), of e] Cons.prems(3) e by simp
  have rest: "count_between time counted t d (admitted serve s' es) \<le> pot t s'"
    using Cons.IH [OF inv] Cons.prems by (simp split: if_splits)
  consider (silent) "\<not> ticked e" | (inside) "ticked e" "time e \<le> t + d" | (later) "ticked e" "\<not> time e \<le> t + d" by blast
  then show ?case
  proof cases
    case silent
    then have "pot t s' \<le> pot t s" "\<not> counted e"
      using pot_silent [OF Cons.prems(1), of e t] counted_ticked Cons.prems(3) e by auto
    with rest e show ?thesis by simp
  next
    case inside
    then have "pot t s' + (if ok \<and> counted e then 1 else 0) \<le> pot t s"
      using pot_serve [OF Cons.prems(1), of e t] Cons.prems(3,4) e by simp
    with rest e show ?thesis by auto
  next
    case later
    then have "\<forall>x \<in> set (e # es). ticked x \<longrightarrow> t + d < time x" using Cons.prems(2) by auto
    from none_after [OF this] show ?thesis by simp
  qed
qed simp

theorem admitted_bound:
  "inv s \<Longrightarrow> sorted (map time (filter ticked es)) \<Longrightarrow> list_all good es \<Longrightarrow>
   count_between time counted t d (admitted serve s es) \<le> bound"
proof (induction es arbitrary: s)
  case (Cons e es)
  show ?case
  proof (cases "ticked e \<and> t \<le> time e")
    case True
    then have "\<forall>x \<in> set (e # es). ticked x \<longrightarrow> t \<le> time x" using Cons.prems(2) by auto
    from count_le_pot [OF Cons.prems this] pot_bound [OF Cons.prems(1), of t] show ?thesis by linarith
  next
    case False
    obtain ok s' where e: "serve e s = (ok, s')" by force
    have "count_between time counted t d (admitted serve s' es) \<le> bound"
      using Cons.IH [of s'] inv_serve [OF Cons.prems(1), of e] Cons.prems(2,3) e by (simp split: if_splits)
    with False e counted_ticked show ?thesis by auto
  qed
qed simp

end

section \<open>Free slots of a window\<close>

text \<open>The slots a request of the period that starts at \<open>t\<close> can take.\<close>

definition free_slot :: "int \<Rightarrow> WindowRequestInfo \<Rightarrow> bool" where
  "free_slot t r \<longleftrightarrow> ri_Id r = '''' \<or> CreationTime r < t"

definition free_slots :: "int \<Rightarrow> Window \<Rightarrow> nat" where
  "free_slots t w = length (filter (free_slot t) (win_requests w))"

text \<open>A window is usable when it has slots and its duration is not negative.\<close>

definition win_ok :: "nat \<Rightarrow> int \<Rightarrow> Window \<Rightarrow> bool" where
  "win_ok n d w \<longleftrightarrow> 0 < n \<and> 0 \<le> d \<and> length (win_requests w) = n \<and> win_duration w = d"

lemma free_slots_le: "win_ok n d w \<Longrightarrow> free_slots t w \<le> n"
  unfolding win_ok_def free_slots_def using length_filter_le by metis

lemma filter_update_taken:
  "i < length xs \<Longrightarrow> \<not> P x \<Longrightarrow>
   length (filter P (xs[i := x])) + (if P (xs ! i) then 1 else 0) = length (filter P xs)"
proof (induction xs arbitrary: i)
  case (Cons y ys)
  then show ?case by (cases i) auto
qed simp

lemma free_slots_put:
  "i < length (win_requests w) \<Longrightarrow> ri_Id r \<noteq> '''' \<Longrightarrow> t \<le> CreationTime r \<Longrightarrow>
   free_slots t (put_request i r w) + (if free_slot t (win_requests w ! i) then 1 else 0) = free_slots t w"
  using filter_update_taken [of i "win_requests w" "free_slot t" r]
  by (simp add: free_slots_def put_request_def free_slot_def)

lemma win_ok_put [simp]: "win_ok n d (put_request i r w) = win_ok n d w"
  by (simp add: win_ok_def put_request_def)

lemma time_Sub_less: "0 \<le> d \<Longrightarrow> d < time_Sub a b \<Longrightarrow> b < a - d"
  unfolding time_Sub_def by (auto simp: min_def max_def split: if_splits)

text \<open>The slots found by the first loop.\<close>

definition old_slot :: "int \<Rightarrow> WindowRequestInfo \<Rightarrow> WindowRequestInfo \<Rightarrow> bool" where
  "old_slot d r x \<longleftrightarrow> d < time_Sub (CreationTime r) (CreationTime x)"

lemma scan_slots_Inl:
  "scan_slots d r i reqs cs = Inl j \<Longrightarrow> i \<le> j \<and> j < i + length reqs \<and> ri_Id (reqs ! (j - i)) = ''''"
proof (induction d r i reqs cs rule: scan_slots.induct)
  case (2 d r i req reqs cs)
  show ?case
  proof (cases "ri_Id req = ''''")
    case False
    then have "scan_slots d r (Suc i) reqs (if time_Sub (CreationTime r) (CreationTime req) > d then cs @ [i] else cs) = Inl j"
      using 2(2) by simp
    from 2(1) [OF False this] show ?thesis by (auto simp: nth_Cons')
  qed (use 2(2) in auto)
qed simp

lemma scan_slots_Inr:
  "scan_slots d r i reqs cs = Inr is \<Longrightarrow>
   \<forall>j \<in> set is. j \<in> set cs \<or> (i \<le> j \<and> j < i + length reqs \<and> old_slot d r (reqs ! (j - i)))"
proof (induction d r i reqs cs rule: scan_slots.induct)
  case (2 d r i req reqs cs)
  show ?case
  proof (cases "ri_Id req = ''''")
    case False
    then have "scan_slots d r (Suc i) reqs (if time_Sub (CreationTime r) (CreationTime req) > d then cs @ [i] else cs) = Inr is"
      using 2(2) by simp
    from 2(1) [OF False this] show ?thesis
      by (fastforce simp: nth_Cons' old_slot_def split: if_splits)
  qed (use 2(2) in auto)
qed simp

lemma first_older_slot: "fst (first_older u i reqs) = 0 \<or> fst (first_older u i reqs) < i + length reqs"
  by (induction u i reqs rule: first_older.induct) auto

lemma oldest_candidate_in: "oldest_candidate reqs slot u is \<in> insert slot (set is)"
  by (induction reqs slot u "is" rule: oldest_candidate.induct) auto

text \<open>
  What a call does: one slot takes the request; it was free or old, or the request is left to the
  window of the IP address, or refused.
\<close>

lemma win_AllowRequest_cases:
  assumes ok: "win_ok n d w" and call: "win_AllowRequest ip r (w, x) = (res, w', x')"
  obtains i where "i < n" "w' = put_request i r w"
    "res \<longrightarrow> (ri_Id (win_requests w ! i) = '''' \<or> old_slot d r (win_requests w ! i)) \<and> x' = x \<or> (\<exists>allow. ip = Some allow \<and> allow r x = (True, x'))"
    "x' = x \<or> (\<exists>allow. ip = Some allow \<and> allow r x = (res, x'))"
proof -
  have n: "length (win_requests w) = n" "0 < n" "win_duration w = d" using ok by (auto simp: win_ok_def)
  show ?thesis
  proof (cases "scan_slots d r 0 (win_requests w) []")
    case (Inl i)
    with call n have "res" "w' = put_request i r w" "x' = x" by (auto simp: win_AllowRequest_def)
    with scan_slots_Inl [OF Inl] n show ?thesis by (intro that [of i]) auto
  next
    case (Inr cs)
    show ?thesis
    proof (cases cs)
      case Nil
      obtain slot oldest where f: "first_older (CreationTime (win_requests w ! 0)) 0 (win_requests w) = (slot, oldest)" by force
      have "slot < n" using first_older_slot [of "CreationTime (win_requests w ! 0)" 0 "win_requests w"] f n by auto
      moreover have "w' = put_request slot r w" "\<not> res \<and> x' = x \<or> (\<exists>allow. ip = Some allow \<and> allow r x = (res, x'))"
        using call Inr Nil n f by (auto simp: win_AllowRequest_def Let_def split: if_splits option.splits prod.splits)
      ultimately show ?thesis by (intro that [of slot]) auto
    next
      case (Cons j js)
      define i where "i = oldest_candidate (win_requests w) j (CreationTime (win_requests w ! j)) js"
      have "i \<in> set cs" using oldest_candidate_in Cons unfolding i_def by force
      moreover have "res" "w' = put_request i r w" "x' = x"
        using call Inr Cons n by (auto simp: win_AllowRequest_def Let_def i_def split: list.splits)
      ultimately show ?thesis using scan_slots_Inr [OF Inr] n by (intro that [of i]) auto
    qed
  qed
qed

lemma taken_slot_free:
  "0 \<le> d \<Longrightarrow> CreationTime r \<le> t + d \<Longrightarrow> ri_Id x = '''' \<or> old_slot d r x \<Longrightarrow> free_slot t x"
  using time_Sub_less [of d "CreationTime r" "CreationTime x"] by (auto simp: free_slot_def old_slot_def)

text \<open>The potential of a window against the window of the IP address behind it.\<close>

lemma win_AllowRequest_potential:
  assumes ok: "win_ok n d w" and id: "ri_Id r \<noteq> ''''" and t: "t \<le> CreationTime r" "CreationTime r \<le> t + d"
    and call: "win_AllowRequest ip r (w, x) = (res, w', x')"
    and ip: "\<forall>allow. ip = Some allow \<longrightarrow> p (snd (allow r x)) + (if fst (allow r x) then 1 else 0) \<le> (p x :: nat)"
  shows "free_slots t w' + p x' + (if res then 1 else 0) \<le> free_slots t w + p x"
  using ok call
proof (cases rule: win_AllowRequest_cases)
  case (1 i)
  have i: "i < length (win_requests w)" using 1(1) ok by (simp add: win_ok_def)
  note put = free_slots_put [OF i id t(1)]
  have taken: "ri_Id (win_requests w ! i) = '''' \<or> old_slot d r (win_requests w ! i) \<Longrightarrow> free_slot t (win_requests w ! i)"
    using taken_slot_free [OF _ t(2)] ok by (auto simp: win_ok_def)
  show ?thesis using 1(2,3,4) put taken ip by (fastforce split: if_splits)
qed

lemma win_AllowRequest_ok:
  assumes "win_ok n d w" "win_AllowRequest ip r (w, x) = (res, w', x')" shows "win_ok n d w'"
proof -
  from assms obtain i where "w' = put_request i r w" by (rule win_AllowRequest_cases)
  with assms(1) show ?thesis by simp
qed


section \<open>Single windows\<close>

lemma plain_AllowRequest_eq:
  "plain_AllowRequest r w = (ok, w') \<longleftrightarrow> win_AllowRequest None r (w, ()) = (ok, w', ())"
  by (auto simp: plain_AllowRequest_def split: prod.splits)

lemma plain_AllowRequest_potential:
  assumes ok: "win_ok n d w" and r: "ri_Id r \<noteq> ''''" "t \<le> CreationTime r" "CreationTime r \<le> t + d"
  shows "free_slots t (snd (plain_AllowRequest r w)) + (if fst (plain_AllowRequest r w) then 1 else 0) \<le> free_slots t w"
proof -
  obtain res w' where c: "plain_AllowRequest r w = (res, w')" by force
  from win_AllowRequest_potential [OF ok r iffD1 [OF plain_AllowRequest_eq c], of "\<lambda>_. 0"]
  show ?thesis using c by simp
qed

lemma plain_AllowRequest_ok:
  assumes "win_ok n d w" shows "win_ok n d (snd (plain_AllowRequest r w))"
proof -
  obtain res w' where c: "plain_AllowRequest r w = (res, w')" by force
  from win_AllowRequest_ok [OF assms iffD1 [OF plain_AllowRequest_eq c]] c show ?thesis by simp
qed

lemma snd_shared [simp]: "snd (shared_AllowRequest r w) = snd (plain_AllowRequest r w)"
  by (simp add: shared_AllowRequest_def split: prod.splits)

lemma fst_shared: "fst (shared_AllowRequest r w) \<Longrightarrow> fst (plain_AllowRequest r w)"
  by (simp add: shared_AllowRequest_def split: prod.splits)

lemmas shared_AllowRequest_ok = plain_AllowRequest_ok

lemma shared_AllowRequest_potential:
  assumes "win_ok n d w" "ri_Id r \<noteq> ''''" "t \<le> CreationTime r" "CreationTime r \<le> t + d"
  shows "free_slots t (snd (shared_AllowRequest r w)) + (if fst (shared_AllowRequest r w) then 1 else 0) \<le> free_slots t w"
  using plain_AllowRequest_potential [OF assms] fst_shared [of r w] by (auto split: if_splits)

text \<open>Both windows satisfy the contract, with one potential unit per slot.\<close>

interpretation plain_window: rate_potential plain_AllowRequest "\<lambda>_. True" CreationTime "\<lambda>_. True" "\<lambda>r. ri_Id r \<noteq> ''''"
  "win_ok n d" free_slots n d for n d
proof
  show "win_ok n d s \<Longrightarrow> win_ok n d (snd (plain_AllowRequest e s))" for e s by (rule plain_AllowRequest_ok)
  show "win_ok n d s \<Longrightarrow> free_slots t s \<le> n" for t s by (rule free_slots_le)
  show "win_ok n d s \<Longrightarrow> ri_Id e \<noteq> '''' \<Longrightarrow> t \<le> CreationTime e \<Longrightarrow> CreationTime e \<le> t + d \<Longrightarrow>
      free_slots t (snd (plain_AllowRequest e s)) + (if fst (plain_AllowRequest e s) \<and> True then 1 else 0) \<le> free_slots t s" for e s t
    using plain_AllowRequest_potential by simp
qed simp_all

interpretation shared_window: rate_potential shared_AllowRequest "\<lambda>_. True" CreationTime "\<lambda>_. True" "\<lambda>r. ri_Id r \<noteq> ''''"
  "win_ok n d" free_slots n d for n d
proof
  show "win_ok n d s \<Longrightarrow> win_ok n d (snd (shared_AllowRequest e s))" for e s by (simp add: shared_AllowRequest_ok)
  show "win_ok n d s \<Longrightarrow> free_slots t s \<le> n" for t s by (rule free_slots_le)
  show "win_ok n d s \<Longrightarrow> ri_Id e \<noteq> '''' \<Longrightarrow> t \<le> CreationTime e \<Longrightarrow> CreationTime e \<le> t + d \<Longrightarrow>
      free_slots t (snd (shared_AllowRequest e s)) + (if fst (shared_AllowRequest e s) \<and> True then 1 else 0) \<le> free_slots t s" for e s t
    using shared_AllowRequest_potential by simp
qed simp_all

lemma NewWindow_ok: "NewWindow p = Some w \<Longrightarrow> 0 \<le> par_Duration p \<Longrightarrow> win_ok (nat (par_RequestCount p)) (par_Duration p) w"
  by (auto simp: NewWindow_def win_ok_def split: if_splits)

text \<open>
  A request without identifier leaves its slot empty: an unlimited number of them is admitted.
\<close>

lemma scan_empty_slot: "\<exists>x \<in> set reqs. ri_Id x = '''' \<Longrightarrow> \<exists>j. scan_slots d r i reqs cs = Inl j"
  by (induction d r i reqs cs rule: scan_slots.induct) (auto, blast+)

theorem unidentified_requests_unlimited:
  assumes "0 < length (win_requests w)" "\<exists>x \<in> set (win_requests w). ri_Id x = ''''" "\<forall>r \<in> set rs. ri_Id r = ''''"
  shows "admitted plain_AllowRequest w rs = rs"
  using assms
proof (induction rs arbitrary: w)
  case (Cons r rs)
  obtain j where j: "scan_slots (win_duration w) r 0 (win_requests w) [] = Inl j" using scan_empty_slot [OF Cons.prems(2)] by blast
  then have lt: "j < length (win_requests w)" using scan_slots_Inl [OF j] by simp
  have "plain_AllowRequest r w = (True, put_request j r w)" using j by (simp add: plain_AllowRequest_def win_AllowRequest_def)
  moreover have "\<exists>x \<in> set (win_requests (put_request j r w)). ri_Id x = ''''"
    using Cons.prems(3) set_update_memI [OF lt, of r] by (auto simp: put_request_def)
  ultimately show ?case using Cons.IH [of "put_request j r w"] Cons.prems by (simp add: put_request_def)
qed simp

section \<open>The limiter of a JSON-RPC session\<close>

record MethodInfo =
  mi_Name :: string
  mi_RateLimits :: "int list"

record methodRateLimiter =
  lastInvocationTime :: int
  ml_windows :: "Window option list"

record rateLimiterConfig =
  methodRateLimits :: "int list"
  messageRateLimits :: "int \<times> int"

record rateLimiter =
  methodToLimiter :: "string \<rightharpoonup> methodRateLimiter"
  messageWindows :: "Window option list"
  rl_config :: rateLimiterConfig

definition DEFAULT_METHOD_RATE_LIMITS :: "int list" where
  "DEFAULT_METHOD_RATE_LIMITS = [5, 20, 80]"

definition DEFAULT_MESSAGE_RATE_LIMITS :: "int \<times> int" where
  "DEFAULT_MESSAGE_RATE_LIMITS = (70, 200)"

definition CANCEL_REQUEST_METHOD :: string where
  "CANCEL_REQUEST_METHOD = ''$/cancelRequest''"

definition Second :: int where
  "Second = 1000000000"

definition newRateLimiter :: "rateLimiterConfig \<Rightarrow> rateLimiter option" where
  "newRateLimiter config0 =
     (let config1 = (if messageRateLimits config0 = (0, 0) then config0\<lparr>messageRateLimits := DEFAULT_MESSAGE_RATE_LIMITS\<rparr> else config0);
          config = (if methodRateLimits config1 = [] then config1\<lparr>methodRateLimits := DEFAULT_METHOD_RATE_LIMITS\<rparr> else config1) in
      case (NewWindow \<lparr>par_Duration = Second, par_RequestCount = fst (messageRateLimits config)\<rparr>,
            NewWindow \<lparr>par_Duration = Second * 10, par_RequestCount = snd (messageRateLimits config)\<rparr>) of
        (Some w1, Some w10) \<Rightarrow> Some \<lparr>methodToLimiter = Map.empty, messageWindows = [Some w1, Some w10], rl_config = config\<rparr>
      | _ \<Rightarrow> None)"

text \<open>Every window is informed of the request; the request is limited if one of them refuses it.\<close>

fun inform_windows :: "WindowRequestInfo \<Rightarrow> Window option list \<Rightarrow> bool \<times> Window option list" where
  "inform_windows r [] = (False, [])"
| "inform_windows r (None # ws) = (let (limited, ws') = inform_windows r ws in (limited, None # ws'))"
| "inform_windows r (Some w # ws) =
     (let (ok, w') = plain_AllowRequest r w; (limited, ws') = inform_windows r ws in (\<not> ok \<or> limited, Some w' # ws'))"

text \<open>The creation of the windows of a method; the first component tells if a count was rejected.\<close>

fun method_windows :: "int \<Rightarrow> int list \<Rightarrow> Window option list \<Rightarrow> bool \<times> Window option list" where
  "method_windows windowDuration [] ws = (False, ws)"
| "method_windows windowDuration (reqCount # rateLimits) ws =
     (if reqCount = 0 then method_windows (i64 (windowDuration * 10)) rateLimits (ws @ [None])
      else (case NewWindow \<lparr>par_Duration = windowDuration, par_RequestCount = reqCount\<rparr> of
              None \<Rightarrow> (True, ws)
            | Some w \<Rightarrow> method_windows (i64 (windowDuration * 10)) rateLimits (ws @ [Some w])))"

definition method_limits :: "MethodInfo \<Rightarrow> int list" where
  "method_limits info = (if mi_RateLimits info = [] then DEFAULT_METHOD_RATE_LIMITS else mi_RateLimits info)"

text \<open>
  The result is the pair of booleans of the code, or \<open>None\<close> for a panic. \<open>remoteIp\<close> is
  \<open>RemoteAddrWithPort.RemoteIp\<close>, which panics on an address without port;
  the two readings of the clock during a call are one.
\<close>

definition limit :: "(string \<Rightarrow> string option) \<Rightarrow> int \<Rightarrow> MethodInfo \<Rightarrow> string \<Rightarrow> string \<Rightarrow> rateLimiter \<Rightarrow> (bool \<times> bool) option \<times> rateLimiter" where
  "limit remoteIp now info reqId addrPort r =
     (if mi_Name info = '''' then (None, r)
      else if mi_Name info = CANCEL_REQUEST_METHOD then (Some (False, False), r)
      else case remoteIp addrPort of
        None \<Rightarrow> (None, r)
      | Some ip \<Rightarrow>
        (let reqInfo = \<lparr>ri_Id = reqId, ri_Method = mi_Name info, CreationTime = now, RemoteAddrAndPort = addrPort, RemoteIpAddr = ip, SentBytes = 0\<rparr>;
             (rateLimited, mws) = inform_windows reqInfo (messageWindows r);
             r1 = r\<lparr>messageWindows := mws\<rparr> in
         if rateLimited then (Some (True, False), r1)
         else case methodToLimiter r (mi_Name info) of
           None \<Rightarrow> (Some (False, False), r1\<lparr>methodToLimiter := (methodToLimiter r)(mi_Name info \<mapsto> \<lparr>lastInvocationTime = now, ml_windows = []\<rparr>)\<rparr>)
         | Some ml \<Rightarrow>
             (let (rejected, ws) = (if ml_windows ml = [] then method_windows Second (method_limits info) [] else (False, ml_windows ml)) in
              if rejected then (None, r1\<lparr>methodToLimiter := (methodToLimiter r)(mi_Name info \<mapsto> ml\<lparr>ml_windows := ws\<rparr>)\<rparr>)
              else (let (methodRateLimited, ws') = inform_windows reqInfo ws in
                    (Some (methodRateLimited, methodRateLimited), r1\<lparr>methodToLimiter := (methodToLimiter r)(mi_Name info \<mapsto> ml\<lparr>ml_windows := ws'\<rparr>)\<rparr>)))))"


text \<open>
  A call of a session: the time, the method, the identifier and the address of the websocket. A call
  is let through when the limiter does not limit it.
\<close>

record session_call =
  sc_now :: int
  sc_info :: MethodInfo
  sc_id :: string
  sc_addr :: string

definition websocket_serve :: "(string \<Rightarrow> string option) \<Rightarrow> session_call \<Rightarrow> rateLimiter \<Rightarrow> bool \<times> rateLimiter" where
  "websocket_serve remoteIp c r =
     (let (res, r') = limit remoteIp (sc_now c) (sc_info c) (sc_id c) (sc_addr c) r in (\<exists>m. res = Some (False, m), r'))"

text \<open>\<open>Session.handlerRequest\<close> asks the limiter only when the connection of the session is a websocket.\<close>

definition session_serve :: "bool \<Rightarrow> (string \<Rightarrow> string option) \<Rightarrow> session_call \<Rightarrow> rateLimiter \<Rightarrow> bool \<times> rateLimiter" where
  "session_serve webSocket remoteIp c r = (if webSocket then websocket_serve remoteIp c r else (True, r))"

lemma session_serve_websocket [simp]: "session_serve True remoteIp = websocket_serve remoteIp"
  by (intro ext) (simp add: session_serve_def)

lemma other_sessions_unlimited: "admitted (session_serve False remoteIp) r calls = calls"
  by (induction calls) (simp_all add: session_serve_def)

text \<open>
  The calls the bounds are about: they have an identifier and a method whose limits are not
  negative, and the method is not the cancellation, which is never limited.
\<close>

definition good_call :: "(string \<Rightarrow> MethodInfo) \<Rightarrow> session_call \<Rightarrow> bool" where
  "good_call methods c \<longleftrightarrow> sc_id c \<noteq> '''' \<and> sc_info c = methods (mi_Name (sc_info c)) \<and> mi_Name (sc_info c) \<noteq> CANCEL_REQUEST_METHOD
     \<and> list_all (\<lambda>n. 0 \<le> n) (mi_RateLimits (sc_info c))"

lemma inform_windows_nth:
  assumes "i < length ws" "ws ! i = Some w"
  shows "snd (inform_windows r ws) ! i = Some (snd (plain_AllowRequest r w))"
    and "\<not> fst (inform_windows r ws) \<Longrightarrow> fst (plain_AllowRequest r w)"
  using assms
proof (induction r ws arbitrary: i rule: inform_windows.induct)
  case (2 r ws)
  { case 1 with 2 show ?case by (cases i) (auto split: prod.splits) next
    case 2 with "2.IH" show ?case by (cases i) (auto split: prod.splits) }
next
  case (3 r v ws)
  { case 1 with 3 show ?case by (cases i) (auto split: prod.splits) next
    case 2 with "3.IH" show ?case by (cases i) (auto split: prod.splits) }
qed auto

lemma length_inform_windows [simp]: "length (snd (inform_windows r ws)) = length ws"
  by (induction r ws rule: inform_windows.induct) (auto split: prod.splits)

text \<open>The window at one place of a list of windows, and its free slots.\<close>

definition has_window :: "nat \<Rightarrow> int \<Rightarrow> nat \<Rightarrow> Window option list \<Rightarrow> bool" where
  "has_window n d i ws \<longleftrightarrow> i < length ws \<and> (\<exists>w. ws ! i = Some w \<and> win_ok n d w)"

definition window_pot :: "nat \<Rightarrow> int \<Rightarrow> Window option list \<Rightarrow> nat" where
  "window_pot i t ws = free_slots t (the (ws ! i))"

lemma has_window_inform:
  assumes "has_window n d i ws" shows "has_window n d i (snd (inform_windows r ws))"
proof -
  from assms obtain w where w: "i < length ws" "ws ! i = Some w" "win_ok n d w" by (auto simp: has_window_def)
  from inform_windows_nth(1) [OF w(1,2)] plain_AllowRequest_ok [OF w(3)] w(1) show ?thesis by (auto simp: has_window_def)
qed

lemma window_pot_inform:
  assumes "has_window n d i ws" and r: "ri_Id r \<noteq> ''''" "t \<le> CreationTime r" "CreationTime r \<le> t + d"
  shows "window_pot i t (snd (inform_windows r ws)) + (if \<not> fst (inform_windows r ws) then 1 else 0) \<le> window_pot i t ws"
proof -
  from assms(1) obtain w where w: "i < length ws" "ws ! i = Some w" "win_ok n d w" by (auto simp: has_window_def)
  from plain_AllowRequest_potential [OF w(3) r] inform_windows_nth [OF w(1,2), of r] w(2)
  show ?thesis by (auto simp: window_pot_def split: if_splits)
qed

lemma window_pot_le: "has_window n d i ws \<Longrightarrow> window_pot i t ws \<le> n"
  using free_slots_le by (auto simp: has_window_def window_pot_def)

text \<open>The windows created for a method.\<close>

lemma method_windows_total:
  "list_all (\<lambda>n. 0 \<le> n) ls \<Longrightarrow> \<exists>ws'. method_windows d ls ws = (False, ws @ ws')"
proof (induction ls arbitrary: d ws)
  case (Cons l ls)
  define x where "x = (if l = 0 then None else Some \<lparr>win_duration = d, win_requests = replicate (nat l) zero_request\<rparr>)"
  have "list_all (\<lambda>n. 0 \<le> n) ls" using Cons.prems by simp
  from Cons.IH [OF this, of "i64 (d * 10)" "ws @ [x]"] show ?case
    using Cons.prems by (auto simp: NewWindow_def x_def split: if_splits)
qed simp

lemma window_duration_in_range: "m \<le> 9 \<Longrightarrow> in_i64 (Second * 10 ^ m)"
proof -
  assume "m \<le> 9"
  then have "(10::int) ^ m \<le> 10 ^ 9" by (intro power_increasing) auto
  then show ?thesis by (auto simp: in_i64_def Second_def intro: order_trans [of _ 0])
qed

lemma method_windows_ok:
  "list_all (\<lambda>n. 0 \<le> n) ls \<Longrightarrow> k < length ls \<Longrightarrow> 0 < ls ! k \<Longrightarrow> k + j \<le> 9 \<Longrightarrow>
   \<exists>ws'. method_windows (Second * 10 ^ j) ls ws = (False, ws @ ws') \<and> has_window (nat (ls ! k)) (Second * 10 ^ (k + j)) k ws'"
proof (induction ls arbitrary: k j ws)
  case (Cons l ls)
  show ?case
  proof (cases k)
    case 0
    define w where "w = \<lparr>win_duration = Second * 10 ^ j, win_requests = replicate (nat l) zero_request\<rparr>"
    obtain ws' where "method_windows (i64 (Second * 10 ^ j * 10)) ls (ws @ [Some w]) = (False, (ws @ [Some w]) @ ws')"
      using method_windows_total [of ls "i64 (Second * 10 ^ j * 10)" "ws @ [Some w]"] Cons.prems(1) by auto
    moreover have "has_window (nat l) (Second * 10 ^ j) 0 (Some w # ws')"
      using Cons.prems 0 by (auto simp: has_window_def win_ok_def w_def Second_def)
    ultimately show ?thesis using 0 Cons.prems by (intro exI [of _ "Some w # ws'"]) (simp add: NewWindow_def w_def)
  next
    case (Suc k')
    have d: "i64 (Second * 10 ^ j * 10) = Second * 10 ^ Suc j"
      using window_duration_in_range [of "Suc j"] Cons.prems(4) Suc by (simp add: mult.commute mult.left_commute)
    define x where "x = (if l = 0 then None else Some \<lparr>win_duration = Second * 10 ^ j, win_requests = replicate (nat l) zero_request\<rparr>)"
    obtain ws' where "method_windows (Second * 10 ^ Suc j) ls (ws @ [x]) = (False, (ws @ [x]) @ ws')"
      "has_window (nat (ls ! k')) (Second * 10 ^ (k' + Suc j)) k' ws'"
      using Cons.IH [of k' "Suc j" "ws @ [x]"] Cons.prems Suc by auto
    then show ?thesis using Suc Cons.prems d
      by (intro exI [of _ "x # ws'"]) (auto simp: NewWindow_def x_def has_window_def)
  qed
qed simp

text \<open>What a call does to the windows of the messages and to those of a method.\<close>

definition call_info :: "string \<Rightarrow> session_call \<Rightarrow> WindowRequestInfo" where
  "call_info ip c = \<lparr>ri_Id = sc_id c, ri_Method = mi_Name (sc_info c), CreationTime = sc_now c, RemoteAddrAndPort = sc_addr c, RemoteIpAddr = ip, SentBytes = 0\<rparr>"

lemma call_info_simps [simp]: "ri_Id (call_info ip c) = sc_id c" "CreationTime (call_info ip c) = sc_now c"
  by (simp_all add: call_info_def)

lemma websocket_serve_messages:
  assumes "mi_Name (sc_info c) \<noteq> CANCEL_REQUEST_METHOD"
  obtains (panic) "websocket_serve remoteIp c r = (False, r)"
  | (informed) ip where "messageWindows (snd (websocket_serve remoteIp c r)) = snd (inform_windows (call_info ip c) (messageWindows r))"
      "fst (websocket_serve remoteIp c r) \<longrightarrow> \<not> fst (inform_windows (call_info ip c) (messageWindows r))"
proof (cases "mi_Name (sc_info c) = '''' \<or> remoteIp (sc_addr c) = None")
  case True
  then show ?thesis using assms by (intro panic) (auto simp: websocket_serve_def limit_def)
next
  case False
  then obtain ip where ip: "remoteIp (sc_addr c) = Some ip" "mi_Name (sc_info c) \<noteq> ''''" by auto
  show ?thesis
    by (rule informed [of ip]; use assms ip in \<open>auto simp: websocket_serve_def limit_def call_info_def Let_def split: prod.splits option.splits if_splits\<close>)
qed

lemma websocket_serve_method:
  assumes "mi_Name (sc_info c) \<noteq> CANCEL_REQUEST_METHOD"
  obtains (unchanged) "\<not> fst (websocket_serve remoteIp c r)" "methodToLimiter (snd (websocket_serve remoteIp c r)) = methodToLimiter r"
  | (first) ml where "methodToLimiter r (mi_Name (sc_info c)) = None" "ml_windows ml = []"
      "methodToLimiter (snd (websocket_serve remoteIp c r)) = (methodToLimiter r)(mi_Name (sc_info c) \<mapsto> ml)"
  | (rejected) ml where "fst (method_windows Second (method_limits (sc_info c)) [])" "\<not> fst (websocket_serve remoteIp c r)"
      "methodToLimiter (snd (websocket_serve remoteIp c r)) = (methodToLimiter r)(mi_Name (sc_info c) \<mapsto> ml)"
  | (informed) ip ml ws where "methodToLimiter r (mi_Name (sc_info c)) = Some ml"
      "ws = (if ml_windows ml = [] then snd (method_windows Second (method_limits (sc_info c)) []) else ml_windows ml)"
      "methodToLimiter (snd (websocket_serve remoteIp c r)) = (methodToLimiter r)(mi_Name (sc_info c) \<mapsto> ml\<lparr>ml_windows := snd (inform_windows (call_info ip c) ws)\<rparr>)"
      "fst (websocket_serve remoteIp c r) \<longrightarrow> \<not> fst (inform_windows (call_info ip c) ws)"
proof (cases "mi_Name (sc_info c) = '''' \<or> remoteIp (sc_addr c) = None")
  case True
  then show ?thesis using assms by (intro unchanged) (auto simp: websocket_serve_def limit_def)
next
  case False
  then obtain ip where ip: "remoteIp (sc_addr c) = Some ip" "mi_Name (sc_info c) \<noteq> ''''" by auto
  note defs = websocket_serve_def limit_def call_info_def Let_def
  show ?thesis
  proof (cases "fst (inform_windows (call_info ip c) (messageWindows r))")
    case True
    then show ?thesis using assms ip by (intro unchanged) (auto simp: defs split: prod.splits)
  next
    case msg: False
    show ?thesis
    proof (cases "methodToLimiter r (mi_Name (sc_info c))")
      case None
      then show ?thesis using assms ip msg by (intro first) (auto simp: defs split: prod.splits)
    next
      case (Some ml)
      show ?thesis
      proof (cases "ml_windows ml = [] \<and> fst (method_windows Second (method_limits (sc_info c)) [])")
        case True
        then show ?thesis using assms ip msg Some by (intro rejected [OF _ _, where ml = "ml\<lparr>ml_windows := snd (method_windows Second (method_limits (sc_info c)) [])\<rparr>"]) (auto simp: defs split: prod.splits)
      next
        case False
        then show ?thesis using assms ip msg Some
          by (intro informed [OF Some refl, of ip]) (auto simp: defs split: prod.splits)
      qed
    qed
  qed
qed


text \<open>The potential of a session for the messages, and for the calls of one method.\<close>

lemma session_message_inv:
  assumes "has_window n d i (messageWindows r)" "good_call methods c"
  shows "has_window n d i (messageWindows (snd (websocket_serve remoteIp c r)))"
proof -
  have "mi_Name (sc_info c) \<noteq> CANCEL_REQUEST_METHOD" using assms(2) by (simp add: good_call_def)
  then show ?thesis by (cases rule: websocket_serve_messages [of c remoteIp r]) (use assms(1) has_window_inform in auto)
qed

lemma session_message_pot:
  assumes w: "has_window n d i (messageWindows r)" and c: "good_call methods c" "t \<le> sc_now c" "sc_now c \<le> t + d"
  shows "window_pot i t (messageWindows (snd (websocket_serve remoteIp c r))) + (if fst (websocket_serve remoteIp c r) then 1 else 0)
    \<le> window_pot i t (messageWindows r)"
proof -
  have "mi_Name (sc_info c) \<noteq> CANCEL_REQUEST_METHOD" using c(1) by (simp add: good_call_def)
  then show ?thesis
  proof (cases rule: websocket_serve_messages [of c remoteIp r])
    case panic
    then show ?thesis by simp
  next
    case (informed ip)
    have "ri_Id (call_info ip c) \<noteq> ''''" using c(1) by (simp add: good_call_def)
    from window_pot_inform [OF w this, of t] c(2,3) informed show ?thesis by (auto split: if_splits)
  qed
qed

interpretation session_messages: rate_potential "websocket_serve remoteIp" "\<lambda>_. True" sc_now "\<lambda>_. True" "good_call methods"
  "\<lambda>r. has_window n d i (messageWindows r)" "\<lambda>t r. window_pot i t (messageWindows r)" n d
  for remoteIp methods i n d
  by unfold_locales (simp_all add: session_message_inv session_message_pot window_pot_le)

definition method_inv :: "MethodInfo \<Rightarrow> nat \<Rightarrow> rateLimiter \<Rightarrow> bool" where
  "method_inv info k r \<longleftrightarrow> (\<forall>ml. methodToLimiter r (mi_Name info) = Some ml \<longrightarrow>
     ml_windows ml = [] \<or> has_window (nat (method_limits info ! k)) (Second * 10 ^ k) k (ml_windows ml))"

definition method_pot :: "MethodInfo \<Rightarrow> nat \<Rightarrow> int \<Rightarrow> rateLimiter \<Rightarrow> nat" where
  "method_pot info k t r =
     (case methodToLimiter r (mi_Name info) of
        None \<Rightarrow> nat (method_limits info ! k) + 1
      | Some ml \<Rightarrow> if ml_windows ml = [] then nat (method_limits info ! k) else window_pot k t (ml_windows ml))"

definition limited_method :: "MethodInfo \<Rightarrow> nat \<Rightarrow> bool" where
  "limited_method info k \<longleftrightarrow> list_all (\<lambda>n. 0 \<le> n) (method_limits info) \<and> k < length (method_limits info) \<and> k \<le> 9
     \<and> 0 < method_limits info ! k"

lemma created_method_windows:
  "limited_method info k \<Longrightarrow>
   \<exists>ws. method_windows Second (method_limits info) [] = (False, ws) \<and> has_window (nat (method_limits info ! k)) (Second * 10 ^ k) k ws"
  using method_windows_ok [of "method_limits info" k 0 "[]"] by (auto simp: limited_method_def)

lemma has_window_nonempty: "has_window n d i ws \<Longrightarrow> ws \<noteq> []"
  by (auto simp: has_window_def)

lemma session_method_step:
  assumes lim: "limited_method (methods m) k" and nm: "mi_Name (methods m) = m" and inv: "method_inv (methods m) k r" and c: "good_call methods c"
  shows "method_inv (methods m) k (snd (websocket_serve remoteIp c r))" (is ?inv)
    and "t \<le> sc_now c \<Longrightarrow> sc_now c \<le> t + Second * 10 ^ k \<Longrightarrow>
      method_pot (methods m) k t (snd (websocket_serve remoteIp c r)) + (if fst (websocket_serve remoteIp c r) \<and> mi_Name (sc_info c) = m then 1 else 0)
      \<le> method_pot (methods m) k t r"
proof -
  let ?n = "nat (method_limits (methods m) ! k)" and ?d = "Second * 10 ^ k"
  have nc: "mi_Name (sc_info c) \<noteq> CANCEL_REQUEST_METHOD" and id: "ri_Id (call_info ip c) \<noteq> ''''" for ip
    using c by (auto simp: good_call_def)
  have info: "mi_Name (sc_info c) = m \<Longrightarrow> sc_info c = methods m" using c by (simp add: good_call_def)
  have "?inv \<and> (t \<le> sc_now c \<longrightarrow> sc_now c \<le> t + ?d \<longrightarrow>
      method_pot (methods m) k t (snd (websocket_serve remoteIp c r)) + (if fst (websocket_serve remoteIp c r) \<and> mi_Name (sc_info c) = m then 1 else 0)
      \<le> method_pot (methods m) k t r)"
  proof (cases "mi_Name (sc_info c) = m")
    case False
    from nc have "methodToLimiter (snd (websocket_serve remoteIp c r)) m = methodToLimiter r m"
      by (cases rule: websocket_serve_method [of c remoteIp r]) (use False in auto)
    with False inv nm show ?thesis by (simp add: method_inv_def method_pot_def)
  next
    case True
    from nc show ?thesis
    proof (cases rule: websocket_serve_method [of c remoteIp r])
      case unchanged
      with inv show ?thesis by (simp add: method_inv_def method_pot_def)
    next
      case (first ml)
      with True nm show ?thesis by (simp add: method_inv_def method_pot_def)
    next
      case (rejected ml)
      with created_method_windows [OF lim] info [OF True] show ?thesis by auto
    next
      case (informed ip ml ws)
      have ws: "has_window ?n ?d k ws"
        using informed(1,2) created_method_windows [OF lim] info [OF True] inv True nm by (auto simp: method_inv_def)
      have pot: "window_pot k t ws \<le> method_pot (methods m) k t r"
        using informed(1,2) window_pot_le [OF ws, of t] True nm by (auto simp: method_pot_def)
      have new: "methodToLimiter (snd (websocket_serve remoteIp c r)) m = Some (ml\<lparr>ml_windows := snd (inform_windows (call_info ip c) ws)\<rparr>)"
        using informed(3) True by simp
      note ne = has_window_nonempty [OF has_window_inform [OF ws, of "call_info ip c"]]
      have "method_inv (methods m) k (snd (websocket_serve remoteIp c r))"
        using new nm has_window_inform [OF ws] by (simp add: method_inv_def)
      moreover have "t \<le> sc_now c \<Longrightarrow> sc_now c \<le> t + ?d \<Longrightarrow>
          method_pot (methods m) k t (snd (websocket_serve remoteIp c r)) + (if fst (websocket_serve remoteIp c r) then 1 else 0) \<le> window_pot k t ws"
        using window_pot_inform [OF ws id [of ip], of t] new nm ne informed(4) by (auto simp: method_pot_def split: if_splits)
      ultimately show ?thesis using pot True by fastforce
    qed
  qed
  then show ?inv and "t \<le> sc_now c \<Longrightarrow> sc_now c \<le> t + Second * 10 ^ k \<Longrightarrow>
      method_pot (methods m) k t (snd (websocket_serve remoteIp c r)) + (if fst (websocket_serve remoteIp c r) \<and> mi_Name (sc_info c) = m then 1 else 0)
      \<le> method_pot (methods m) k t r" by blast+
qed

lemma method_pot_le: "method_inv info k r \<Longrightarrow> method_pot info k t r \<le> nat (method_limits info ! k) + 1"
  by (auto simp: method_inv_def method_pot_def intro!: le_SucI dest: window_pot_le [of _ _ k _ t] split: option.splits)

text \<open>The contract holds for every limited method, seen as a restriction of the limits to that method.\<close>

definition limit_of :: "(string \<Rightarrow> MethodInfo) \<Rightarrow> string \<Rightarrow> nat \<Rightarrow> bool" where
  "limit_of methods m k \<longleftrightarrow> limited_method (methods m) k \<and> mi_Name (methods m) = m"

interpretation session_method: rate_potential "websocket_serve remoteIp" "\<lambda>_. True" sc_now "\<lambda>c. mi_Name (sc_info c) = m" "good_call methods"
  "\<lambda>r. limit_of methods m k \<and> method_inv (methods m) k r" "method_pot (methods m) k" "nat (method_limits (methods m) ! k) + 1" "Second * 10 ^ k"
  for remoteIp methods m k
proof
  fix r c t
  assume inv: "limit_of methods m k \<and> method_inv (methods m) k r" and c: "good_call methods c"
  note step = session_method_step [OF _ _ _ c, of m k r]
  show "limit_of methods m k \<and> method_inv (methods m) k (snd (websocket_serve remoteIp c r))"
    using inv step(1) by (simp add: limit_of_def)
  show "method_pot (methods m) k t (snd (websocket_serve remoteIp c r)) + (if fst (websocket_serve remoteIp c r) \<and> mi_Name (sc_info c) = m then 1 else 0)
      \<le> method_pot (methods m) k t r" if "t \<le> sc_now c" "sc_now c \<le> t + Second * 10 ^ k"
    using inv step(2) that by (simp only: limit_of_def)
qed (use method_pot_le in auto)


lemma newRateLimiter_inv:
  assumes "newRateLimiter config = Some r" "messageRateLimits config = (a, b)" "(a, b) \<noteq> (0, 0)"
  shows "has_window (nat a) Second 0 (messageWindows r)" and "has_window (nat b) (Second * 10) 1 (messageWindows r)"
    and "methodToLimiter r = Map.empty"
  using assms by (auto simp: newRateLimiter_def has_window_def win_ok_def Second_def NewWindow_def Let_def split: option.splits if_splits)


section \<open>The security engine of the HTTP server\<close>

record http_request =
  hr_ULIDString :: string
  hr_Method :: string
  hr_CreationTime :: int
  hr_RemoteAddrAndPort :: string
  hr_RemoteIpAddr :: string

text \<open>The status counts and the other fields of the data of an address are never read.\<close>

record remoteIpData =
  rid_ip :: string
  sharedReadBurstWindow :: Window
  sharedWriteBurstWindow :: Window

text \<open>
  Windows and data of addresses are objects that several goroutines hold pointers to: the engine
  has the objects in the order of their creation, and a pointer is an index. A window of a socket
  was given a shared window of the data \<open>ipLevelWindow\<close>.
\<close>

record socket_window =
  sw_window :: Window
  ipLevelWindow :: nat

record securityEngine =
  readWindows :: "string \<rightharpoonup> nat"
  mutationWindows :: "string \<rightharpoonup> nat"
  ipMitigationData :: "string \<rightharpoonup> nat"
  window_objects :: "socket_window list"
  ip_objects :: "remoteIpData list"

definition newSecurityEngine :: securityEngine where
  "newSecurityEngine = \<lparr>readWindows = Map.empty, mutationWindows = Map.empty, ipMitigationData = Map.empty,
     window_objects = [], ip_objects = []\<rparr>"

definition SOCKET_RLIMIT_WINDOW :: int where "SOCKET_RLIMIT_WINDOW = 10 * Second"
definition SOCKET_MAX_READ_REQ_COUNT :: nat where "SOCKET_MAX_READ_REQ_COUNT = 40"
definition SOCKET_MAX_WRITE_REQ_COUNT :: nat where "SOCKET_MAX_WRITE_REQ_COUNT = 10"
definition SHARED_READ_BURST_WINDOW :: int where "SHARED_READ_BURST_WINDOW = 10 * Second"
definition SHARED_READ_BURST_WINDOW_REQ :: nat where "SHARED_READ_BURST_WINDOW_REQ = 60"
definition SHARED_WRITE_BURST_WINDOW :: int where "SHARED_WRITE_BURST_WINDOW = 10 * Second"
definition SHARED_WRITE_BURST_WINDOW_REQ :: nat where "SHARED_WRITE_BURST_WINDOW_REQ = 15"

lemmas engine_constants = SOCKET_RLIMIT_WINDOW_def SOCKET_MAX_READ_REQ_COUNT_def SOCKET_MAX_WRITE_REQ_COUNT_def
  SHARED_READ_BURST_WINDOW_def SHARED_READ_BURST_WINDOW_REQ_def SHARED_WRITE_BURST_WINDOW_def SHARED_WRITE_BURST_WINDOW_REQ_def Second_def

text \<open>\<open>strings.ToUpper\<close> on the ASCII letters, of which the methods of HTTP requests consist.\<close>

definition upper_char :: "char \<Rightarrow> char" where
  "upper_char c = (if 97 \<le> (of_char c :: nat) \<and> (of_char c :: nat) \<le> 122 then char_of ((of_char c :: nat) - 32) else c)"

definition IsMutationMethod :: "string \<Rightarrow> bool" where
  "IsMutationMethod m \<longleftrightarrow> List.map upper_char m \<in> {''POST'', ''PATCH'', ''PUT'', ''DELETE''}"

definition window_request_info :: "http_request \<Rightarrow> WindowRequestInfo" where
  "window_request_info req = \<lparr>ri_Id = hr_ULIDString req, ri_Method = hr_Method req, CreationTime = hr_CreationTime req,
     RemoteAddrAndPort = hr_RemoteAddrAndPort req, RemoteIpAddr = hr_RemoteIpAddr req, SentBytes = 0\<rparr>"

text \<open>The counts are positive constants, so the windows are created.\<close>

definition window_of :: "int \<Rightarrow> nat \<Rightarrow> Window" where
  "window_of d n = the (NewWindow \<lparr>par_Duration = d, par_RequestCount = int n\<rparr>)"

text \<open>
  \<open>getIpLevelMitigationData\<close> looks the data of the address up in one step; if there is none it
  creates the data and stores it, under the lock of the engine, in another one. The lookup is not
  repeated under the lock, so that the data of another call may be replaced.
\<close>

definition getIpLevelMitigationData_create :: "http_request \<Rightarrow> securityEngine \<Rightarrow> nat \<times> securityEngine" where
  "getIpLevelMitigationData_create req e =
     (let mitigationData = length (ip_objects e) in
      (mitigationData, e\<lparr>ip_objects := ip_objects e @
           [\<lparr>rid_ip = hr_RemoteIpAddr req,
             sharedReadBurstWindow = window_of SHARED_READ_BURST_WINDOW SHARED_READ_BURST_WINDOW_REQ,
             sharedWriteBurstWindow = window_of SHARED_WRITE_BURST_WINDOW SHARED_WRITE_BURST_WINDOW_REQ\<rparr>],
         ipMitigationData := (ipMitigationData e)(hr_RemoteIpAddr req \<mapsto> mitigationData)\<rparr>))"

definition windowMap :: "bool \<Rightarrow> securityEngine \<Rightarrow> string \<rightharpoonup> nat" where
  "windowMap mutation e = (if mutation then mutationWindows e else readWindows e)"

definition set_window :: "bool \<Rightarrow> string \<Rightarrow> nat \<Rightarrow> securityEngine \<Rightarrow> securityEngine" where
  "set_window mutation a w e =
     (if mutation then e\<lparr>mutationWindows := (mutationWindows e)(a \<mapsto> w)\<rparr> else e\<lparr>readWindows := (readWindows e)(a \<mapsto> w)\<rparr>)"

text \<open>
  \<open>getSocketMitigationData\<close> looks the window of the socket up with \<open>Get\<close>, and stores a new one with
  \<open>Set\<close> if there was none: no lock makes the two one step.
\<close>

definition getSocketMitigationData_create :: "http_request \<Rightarrow> nat \<Rightarrow> securityEngine \<Rightarrow> nat \<times> securityEngine" where
  "getSocketMitigationData_create req mitigationData e =
     (let mutation = IsMutationMethod (hr_Method req);
          maxReqCount = (if mutation then SOCKET_MAX_WRITE_REQ_COUNT else SOCKET_MAX_READ_REQ_COUNT);
          window = length (window_objects e);
          e1 = e\<lparr>window_objects := window_objects e @
                 [\<lparr>sw_window = window_of SOCKET_RLIMIT_WINDOW maxReqCount, ipLevelWindow = mitigationData\<rparr>]\<rparr> in
      (window, set_window mutation (hr_RemoteAddrAndPort req) window e1))"

text \<open>The window of an address that the windows of its sockets fall back to.\<close>

definition shared_window_of :: "bool \<Rightarrow> remoteIpData \<Rightarrow> Window" where
  "shared_window_of mutation data = (if mutation then sharedWriteBurstWindow data else sharedReadBurstWindow data)"

definition set_shared_window :: "bool \<Rightarrow> Window \<Rightarrow> remoteIpData \<Rightarrow> remoteIpData" where
  "set_shared_window mutation w data =
     (if mutation then data\<lparr>sharedWriteBurstWindow := w\<rparr> else data\<lparr>sharedReadBurstWindow := w\<rparr>)"

text \<open>
  The decision of \<open>rateLimitRequest\<close> on a window, which \<open>AllowRequest\<close> makes under the lock of the
  window (and, in it, under the lock of the shared window). The result tells if the request is limited.
\<close>

definition rateLimitRequest_decide :: "http_request \<Rightarrow> nat \<Rightarrow> securityEngine \<Rightarrow> bool \<times> securityEngine" where
  "rateLimitRequest_decide req window e =
     (let mutation = IsMutationMethod (hr_Method req);
          sw = window_objects e ! window;
          data = ip_objects e ! ipLevelWindow sw;
          (ok, w, shared) = win_AllowRequest (Some shared_AllowRequest) (window_request_info req) (sw_window sw, shared_window_of mutation data) in
      (\<not> ok, e\<lparr>window_objects := (window_objects e)[window := sw\<lparr>sw_window := w\<rparr>],
               ip_objects := (ip_objects e)[ipLevelWindow sw := set_shared_window mutation shared data]\<rparr>))"

text \<open>
  A call of the engine and the point it has reached: before a lookup of the data of the address
  (\<open>postHandle\<close> makes two), after a lookup that found nothing, with the data, after a lookup of the
  window that found nothing, with the window, and returned.
\<close>

datatype engine_method = RateLimitRequest | PostHandle

record engine_call =
  ec_method :: engine_method
  ec_req :: http_request

datatype engine_pc = IpLookup nat | IpCreate nat | WindowLookup nat | WindowCreate nat | HasWindow nat | Returned bool

definition begin_call :: "engine_call \<Rightarrow> engine_pc" where
  "begin_call c = (case ec_method c of RateLimitRequest \<Rightarrow> IpLookup 0 | PostHandle \<Rightarrow> IpLookup 1)"

fun has_data :: "nat \<Rightarrow> nat \<Rightarrow> engine_pc" where
  "has_data 0 mitigationData = WindowLookup mitigationData"
| "has_data (Suc n) mitigationData = IpLookup n"

fun engine_step :: "engine_call \<Rightarrow> engine_pc \<Rightarrow> securityEngine \<Rightarrow> engine_pc \<times> securityEngine" where
  "engine_step c (IpLookup n) e =
     (case ipMitigationData e (hr_RemoteIpAddr (ec_req c)) of
        Some mitigationData \<Rightarrow> (has_data n mitigationData, e)
      | None \<Rightarrow> (IpCreate n, e))"
| "engine_step c (IpCreate n) e =
     (let (mitigationData, e') = getIpLevelMitigationData_create (ec_req c) e in (has_data n mitigationData, e'))"
| "engine_step c (WindowLookup mitigationData) e =
     (case windowMap (IsMutationMethod (hr_Method (ec_req c))) e (hr_RemoteAddrAndPort (ec_req c)) of
        Some window \<Rightarrow> (HasWindow window, e)
      | None \<Rightarrow> (WindowCreate mitigationData, e))"
| "engine_step c (WindowCreate mitigationData) e =
     (let (window, e') = getSocketMitigationData_create (ec_req c) mitigationData e in (HasWindow window, e'))"
| "engine_step c (HasWindow window) e =
     (case ec_method c of
        RateLimitRequest \<Rightarrow> (let (limited, e') = rateLimitRequest_decide (ec_req c) window e in (Returned limited, e'))
      | PostHandle \<Rightarrow> (Returned False, e))"
| "engine_step c (Returned limited) e = (Returned limited, e)"

text \<open>A call that runs without interruption returns after at most seven steps.\<close>

fun run_call :: "nat \<Rightarrow> engine_call \<Rightarrow> engine_pc \<Rightarrow> securityEngine \<Rightarrow> engine_pc \<times> securityEngine" where
  "run_call 0 c pc e = (pc, e)"
| "run_call (Suc n) c pc e = (let (pc', e') = engine_step c pc e in run_call n c pc' e')"

fun steps_left :: "engine_pc \<Rightarrow> nat" where
  "steps_left (IpLookup n) = 5 + 2 * n"
| "steps_left (IpCreate n) = 4 + 2 * n"
| "steps_left (WindowLookup d) = 3"
| "steps_left (WindowCreate d) = 2"
| "steps_left (HasWindow w) = 1"
| "steps_left (Returned limited) = 0"

lemma steps_left_decreases: "0 < steps_left pc \<Longrightarrow> steps_left (fst (engine_step c pc e)) < steps_left pc"
proof (cases pc)
  case (IpLookup n)
  then show ?thesis by (cases n) (auto split: option.splits)
next
  case (IpCreate n)
  then show ?thesis by (cases n) (auto split: prod.splits)
qed (auto split: option.splits prod.splits engine_method.splits)

lemma steps_left_0: "steps_left pc = 0 \<Longrightarrow> \<exists>limited. pc = Returned limited"
  by (cases pc) auto

lemma run_call_ends: "steps_left pc \<le> n \<Longrightarrow> \<exists>limited e'. run_call n c pc e = (Returned limited, e')"
proof (induction n arbitrary: pc e)
  case 0
  then show ?case using steps_left_0 by auto
next
  case (Suc n)
  have "steps_left (fst (engine_step c pc e)) \<le> n"
    using Suc.prems steps_left_decreases [of pc c e] steps_left_0 [of pc] by (cases "steps_left pc = 0") auto
  with Suc.IH show ?case by (auto split: prod.splits)
qed

lemma run_call_returns: "\<exists>limited e'. run_call 7 c (begin_call c) e = (Returned limited, e')"
  by (rule run_call_ends) (simp add: begin_call_def split: engine_method.splits)

text \<open>The invariant: every window has its number of slots, belongs to one socket and refers to the data of its address.\<close>

definition socket_slots :: "bool \<Rightarrow> nat" where
  "socket_slots mutation = (if mutation then SOCKET_MAX_WRITE_REQ_COUNT else SOCKET_MAX_READ_REQ_COUNT)"

definition shared_slots :: "bool \<Rightarrow> nat" where
  "shared_slots mutation = (if mutation then SHARED_WRITE_BURST_WINDOW_REQ else SHARED_READ_BURST_WINDOW_REQ)"

definition data_ok :: "remoteIpData \<Rightarrow> bool" where
  "data_ok data \<longleftrightarrow> (\<forall>b. win_ok (shared_slots b) SOCKET_RLIMIT_WINDOW (shared_window_of b data))"

definition data_of :: "string \<Rightarrow> nat \<Rightarrow> securityEngine \<Rightarrow> bool" where
  "data_of ip d e \<longleftrightarrow> d < length (ip_objects e) \<and> rid_ip (ip_objects e ! d) = ip"

definition window_ok :: "(string \<Rightarrow> string) \<Rightarrow> bool \<Rightarrow> string \<Rightarrow> nat \<Rightarrow> securityEngine \<Rightarrow> bool" where
  "window_ok ipOf b a w e \<longleftrightarrow> w < length (window_objects e)
     \<and> win_ok (socket_slots b) SOCKET_RLIMIT_WINDOW (sw_window (window_objects e ! w))
     \<and> data_of (ipOf a) (ipLevelWindow (window_objects e ! w)) e"

definition engine_ok :: "(string \<Rightarrow> string) \<Rightarrow> securityEngine \<Rightarrow> bool" where
  "engine_ok ipOf e \<longleftrightarrow>
     (\<forall>b a w. windowMap b e a = Some w \<longrightarrow> window_ok ipOf b a w e)
     \<and> (\<forall>b a b' a' w. windowMap b e a = Some w \<longrightarrow> windowMap b' e a' = Some w \<longrightarrow> b = b' \<and> a = a')
     \<and> (\<forall>ip d. ipMitigationData e ip = Some d \<longrightarrow> data_of ip d e)
     \<and> (\<forall>data \<in> set (ip_objects e). data_ok data)"

text \<open>What a call knows: the data it holds is that of its address, and the map has the window it holds.\<close>

definition call_mutation :: "engine_call \<Rightarrow> bool" where
  "call_mutation c = IsMutationMethod (hr_Method (ec_req c))"

definition call_socket :: "engine_call \<Rightarrow> string" where
  "call_socket c = hr_RemoteAddrAndPort (ec_req c)"

fun pc_ok :: "securityEngine \<Rightarrow> engine_call \<Rightarrow> engine_pc \<Rightarrow> bool" where
  "pc_ok e c (WindowLookup d) = data_of (hr_RemoteIpAddr (ec_req c)) d e"
| "pc_ok e c (WindowCreate d) = (data_of (hr_RemoteIpAddr (ec_req c)) d e \<and> windowMap (call_mutation c) e (call_socket c) = None)"
| "pc_ok e c (HasWindow w) = (windowMap (call_mutation c) e (call_socket c) = Some w)"
| "pc_ok e c pc = True"

text \<open>The requests have an identifier, and the socket determines the IP address.\<close>

definition call_ok :: "(string \<Rightarrow> string) \<Rightarrow> engine_call \<Rightarrow> bool" where
  "call_ok ipOf c \<longleftrightarrow> hr_ULIDString (ec_req c) \<noteq> '''' \<and> hr_RemoteIpAddr (ec_req c) = ipOf (call_socket c)"

lemma windowMap_simps [simp]:
  "windowMap b (e\<lparr>ipMitigationData := m\<rparr>) = windowMap b e"
  "windowMap b (e\<lparr>ip_objects := os\<rparr>) = windowMap b e"
  "windowMap b (e\<lparr>window_objects := ws\<rparr>) = windowMap b e"
  "windowMap b (set_window c a w e) = (if b = c then (windowMap b e)(a \<mapsto> w) else windowMap b e)"
  by (auto simp: windowMap_def set_window_def)

lemma set_window_simps [simp]:
  "window_objects (set_window b a w e) = window_objects e"
  "ip_objects (set_window b a w e) = ip_objects e"
  "ipMitigationData (set_window b a w e) = ipMitigationData e"
  by (auto simp: set_window_def)

lemma set_shared_window_simps [simp]:
  "rid_ip (set_shared_window b w data) = rid_ip data"
  "shared_window_of c (set_shared_window b w data) = (if c = b then w else shared_window_of c data)"
  by (auto simp: set_shared_window_def shared_window_of_def)

lemma window_of_ok: "0 < n \<Longrightarrow> 0 \<le> d \<Longrightarrow> win_ok n d (window_of d n)"
  by (simp add: window_of_def NewWindow_def win_ok_def)

lemma new_data_ok:
  "data_ok \<lparr>rid_ip = ip, sharedReadBurstWindow = window_of SHARED_READ_BURST_WINDOW SHARED_READ_BURST_WINDOW_REQ,
            sharedWriteBurstWindow = window_of SHARED_WRITE_BURST_WINDOW SHARED_WRITE_BURST_WINDOW_REQ\<rparr>"
  using window_of_ok [of 60 "10 * Second"] window_of_ok [of 15 "10 * Second"]
  by (auto simp: data_ok_def shared_window_of_def shared_slots_def engine_constants)

lemma socket_slots_ok: "win_ok (socket_slots b) SOCKET_RLIMIT_WINDOW (window_of SOCKET_RLIMIT_WINDOW (socket_slots b))"
  by (rule window_of_ok) (auto simp: socket_slots_def engine_constants)

text \<open>What every step of a call keeps of the state of the other calls.\<close>

definition engine_frame :: "engine_call \<Rightarrow> securityEngine \<Rightarrow> securityEngine \<Rightarrow> bool" where
  "engine_frame c e e' \<longleftrightarrow> (\<forall>b a. a \<noteq> call_socket c \<longrightarrow> windowMap b e' a = windowMap b e a)
     \<and> (\<forall>ip d. data_of ip d e \<longrightarrow> data_of ip d e')"

lemma engine_frame_refl: "engine_frame c e e"
  by (simp add: engine_frame_def)

lemma pc_ok_frame: "engine_frame c e e' \<Longrightarrow> call_socket c' \<noteq> call_socket c \<Longrightarrow> pc_ok e c' pc \<Longrightarrow> pc_ok e' c' pc"
  by (cases pc) (auto simp: engine_frame_def)

lemma pc_ok_has_data: "data_of (hr_RemoteIpAddr (ec_req c)) d e \<Longrightarrow> pc_ok e c (has_data n d)"
  by (cases n) auto

lemma IpCreate_step:
  assumes ok: "engine_ok ipOf e" and step: "getIpLevelMitigationData_create (ec_req c) e = (d, e')"
  shows "engine_ok ipOf e'" "engine_frame c e e'" "data_of (hr_RemoteIpAddr (ec_req c)) d e'"
proof -
  let ?ip = "hr_RemoteIpAddr (ec_req c)"
  have d: "d = length (ip_objects e)" and w: "windowMap b e' = windowMap b e" "window_objects e' = window_objects e"
    and m: "ipMitigationData e' = (ipMitigationData e)(?ip \<mapsto> d)" for b
    using step by (auto simp: getIpLevelMitigationData_create_def Let_def)
  have keep: "data_of ip k e \<Longrightarrow> data_of ip k e'" for ip k
    using step by (auto simp: getIpLevelMitigationData_create_def Let_def data_of_def nth_append)
  show new: "data_of ?ip d e'" using step by (auto simp: getIpLevelMitigationData_create_def Let_def data_of_def nth_append)
  have "\<forall>data \<in> set (ip_objects e'). data_ok data"
    using step ok new_data_ok by (auto simp: getIpLevelMitigationData_create_def Let_def engine_ok_def)
  then show "engine_ok ipOf e'" using ok keep new unfolding engine_ok_def window_ok_def w m by (auto split: if_splits)
  show "engine_frame c e e'" using keep w by (simp add: engine_frame_def)
qed

lemma WindowCreate_step:
  assumes ok: "engine_ok ipOf e" and c: "call_ok ipOf c" and pc: "pc_ok e c (WindowCreate d)"
    and step: "getSocketMitigationData_create (ec_req c) d e = (w, e')"
  shows "engine_ok ipOf e'" "engine_frame c e e'" "windowMap (call_mutation c) e' (call_socket c) = Some w"
    "windowMap b e' = (if b = call_mutation c then (windowMap b e)(call_socket c \<mapsto> w) else windowMap b e)"
    "window_objects e' = window_objects e @ [\<lparr>sw_window = window_of SOCKET_RLIMIT_WINDOW (socket_slots (call_mutation c)), ipLevelWindow = d\<rparr>]"
    "ip_objects e' = ip_objects e" "w = length (window_objects e)"
proof -
  note def = getSocketMitigationData_create_def Let_def call_mutation_def call_socket_def
  have w: "w = length (window_objects e)"
    and m: "windowMap b e' = (if b = call_mutation c then (windowMap b e)(call_socket c \<mapsto> w) else windowMap b e)"
    and os: "window_objects e' = window_objects e @ [\<lparr>sw_window = window_of SOCKET_RLIMIT_WINDOW (socket_slots (call_mutation c)), ipLevelWindow = d\<rparr>]"
    and ip: "ip_objects e' = ip_objects e" "ipMitigationData e' = ipMitigationData e" for b
    using step by (auto simp: def socket_slots_def)
  show "windowMap b e' = (if b = call_mutation c then (windowMap b e)(call_socket c \<mapsto> w) else windowMap b e)" by (rule m)
  show "w = length (window_objects e)" by (rule w)
  show "ip_objects e' = ip_objects e" by (rule ip)
  show "window_objects e' = window_objects e @ [\<lparr>sw_window = window_of SOCKET_RLIMIT_WINDOW (socket_slots (call_mutation c)), ipLevelWindow = d\<rparr>]" by (rule os)
  show "windowMap (call_mutation c) e' (call_socket c) = Some w" by (simp add: m)
  have data: "data_of i k e' = data_of i k e" for i k by (simp add: data_of_def ip)
  show "engine_frame c e e'" by (simp add: engine_frame_def m data)
  have new: "window_ok ipOf (call_mutation c) (call_socket c) w e'"
    using pc c socket_slots_ok by (simp add: window_ok_def w os data call_ok_def)
  have old: "windowMap b e a = Some v \<Longrightarrow> v < w \<and> window_ok ipOf b a v e'" for b a v
    using ok by (fastforce simp: engine_ok_def window_ok_def w os data nth_append less_Suc_eq)
  have inj: "windowMap b e a = Some v \<Longrightarrow> windowMap b' e a' = Some v \<Longrightarrow> b = b' \<and> a = a'" for b a b' a' v
    using ok unfolding engine_ok_def by blast
  have "windowMap b e' a = Some v \<Longrightarrow> window_ok ipOf b a v e'" for b a v
    using old new by (auto simp: m split: if_splits)
  moreover have "windowMap b e' a = Some v \<Longrightarrow> windowMap b' e' a' = Some v \<Longrightarrow> b = b' \<and> a = a'" for b a b' a' v
    using inj [of b a v b' a'] old [of b a v] old [of b' a' v] by (auto simp: m split: if_splits)
  ultimately show "engine_ok ipOf e'" using ok by (simp add: engine_ok_def ip data)
qed

text \<open>The windows after a decision.\<close>

lemma decide_step:
  assumes ok: "engine_ok ipOf e" and pc: "windowMap (call_mutation c) e (call_socket c) = Some window"
    and step: "rateLimitRequest_decide (ec_req c) window e = (limited, e')"
  obtains sw data w shared where "sw = window_objects e ! window" "data = ip_objects e ! ipLevelWindow sw"
    "win_AllowRequest (Some shared_AllowRequest) (window_request_info (ec_req c)) (sw_window sw, shared_window_of (call_mutation c) data) = (\<not> limited, w, shared)"
    "e' = e\<lparr>window_objects := (window_objects e)[window := sw\<lparr>sw_window := w\<rparr>],
            ip_objects := (ip_objects e)[ipLevelWindow sw := set_shared_window (call_mutation c) shared data]\<rparr>"
    "win_ok (socket_slots (call_mutation c)) SOCKET_RLIMIT_WINDOW (sw_window sw)" "data_of (ipOf (call_socket c)) (ipLevelWindow sw) e" "data_ok data"
    "win_ok (socket_slots (call_mutation c)) SOCKET_RLIMIT_WINDOW w"
    "win_ok (shared_slots (call_mutation c)) SOCKET_RLIMIT_WINDOW shared"
    "shared = shared_window_of (call_mutation c) data \<or> shared = snd (shared_AllowRequest (window_request_info (ec_req c)) (shared_window_of (call_mutation c) data))"
proof -
  define sw where "sw = window_objects e ! window"
  define data where "data = ip_objects e ! ipLevelWindow sw"
  let ?b = "call_mutation c" and ?r = "window_request_info (ec_req c)"
  obtain ok' w shared where call: "win_AllowRequest (Some shared_AllowRequest) ?r (sw_window sw, shared_window_of ?b data) = (ok', w, shared)"
    by (cases "win_AllowRequest (Some shared_AllowRequest) ?r (sw_window sw, shared_window_of ?b data)")
  have e': "ok' = (\<not> limited)" "e' = e\<lparr>window_objects := (window_objects e)[window := sw\<lparr>sw_window := w\<rparr>],
      ip_objects := (ip_objects e)[ipLevelWindow sw := set_shared_window ?b shared data]\<rparr>"
    using step call by (auto simp: rateLimitRequest_decide_def Let_def sw_def data_def call_mutation_def)
  have win: "win_ok (socket_slots ?b) SOCKET_RLIMIT_WINDOW (sw_window sw)" and of: "data_of (ipOf (call_socket c)) (ipLevelWindow sw) e"
    using ok pc by (auto simp: engine_ok_def window_ok_def sw_def)
  then have dok: "data_ok data" using ok by (simp add: engine_ok_def data_of_def data_def)
  then have sh: "win_ok (shared_slots ?b) SOCKET_RLIMIT_WINDOW (shared_window_of ?b data)" by (simp add: data_ok_def)
  have moved: "shared = shared_window_of ?b data \<or> shared = snd (shared_AllowRequest ?r (shared_window_of ?b data))"
    using win_AllowRequest_cases [OF win call] by (metis option.inject snd_conv)
  then have "win_ok (shared_slots ?b) SOCKET_RLIMIT_WINDOW shared" using sh shared_AllowRequest_ok [OF sh] by auto
  with that [OF sw_def data_def] call e' win of dok win_AllowRequest_ok [OF win call] moved show ?thesis by blast
qed

lemma decide_keeps:
  assumes ok: "engine_ok ipOf e" and pc: "windowMap (call_mutation c) e (call_socket c) = Some window"
    and step: "rateLimitRequest_decide (ec_req c) window e = (limited, e')"
  shows "engine_ok ipOf e'" "engine_frame c e e'"
proof -
  from ok pc step obtain sw data w shared where s: "sw = window_objects e ! window" "data = ip_objects e ! ipLevelWindow sw"
    and e': "e' = e\<lparr>window_objects := (window_objects e)[window := sw\<lparr>sw_window := w\<rparr>],
            ip_objects := (ip_objects e)[ipLevelWindow sw := set_shared_window (call_mutation c) shared data]\<rparr>"
    and of: "data_of (ipOf (call_socket c)) (ipLevelWindow sw) e" "data_ok data"
    and w: "win_ok (socket_slots (call_mutation c)) SOCKET_RLIMIT_WINDOW w" "win_ok (shared_slots (call_mutation c)) SOCKET_RLIMIT_WINDOW shared"
    by (rule decide_step)
  have data: "data_of ip d e' = data_of ip d e" for ip d
    by (cases "d = ipLevelWindow sw"; cases "d < length (ip_objects e)") (simp_all add: e' data_of_def s)
  have wo: "windowMap b e a = Some v \<Longrightarrow> window_ok ipOf b a v e'" for b a v
  proof -
    assume v: "windowMap b e a = Some v"
    then have "window_ok ipOf b a v e" "v = window \<longrightarrow> b = call_mutation c" using ok pc unfolding engine_ok_def by blast+
    with w(1) of(1) show ?thesis unfolding window_ok_def data by (cases "v = window") (simp_all add: e' s)
  qed
  have "data_ok (set_shared_window (call_mutation c) shared data)" using of(2) w(2) by (simp add: data_ok_def)
  then have "\<forall>x \<in> set (ip_objects e'). data_ok x" using ok by (auto simp: e' engine_ok_def dest!: set_update_subset_insert [THEN subsetD])
  with ok wo show "engine_ok ipOf e'" by (simp add: engine_ok_def data) (simp add: e')
  show "engine_frame c e e'" by (simp add: engine_frame_def data) (simp add: e')
qed

text \<open>
  The requests a socket can still get through in a period: the free slots of its window and of the
  shared window this one was given.
\<close>

definition window_pot_of :: "bool \<Rightarrow> int \<Rightarrow> securityEngine \<Rightarrow> nat \<Rightarrow> nat" where
  "window_pot_of b t e w = free_slots t (sw_window (window_objects e ! w))
     + free_slots t (shared_window_of b (ip_objects e ! ipLevelWindow (window_objects e ! w)))"

definition engine_pot :: "bool \<Rightarrow> string \<Rightarrow> int \<Rightarrow> securityEngine \<Rightarrow> nat" where
  "engine_pot b a t e = (case windowMap b e a of None \<Rightarrow> socket_slots b + shared_slots b | Some w \<Rightarrow> window_pot_of b t e w)"

lemma engine_pot_le:
  assumes "engine_ok ipOf e" shows "engine_pot b a t e \<le> socket_slots b + shared_slots b"
proof (cases "windowMap b e a")
  case (Some w)
  let ?sw = "window_objects e ! w"
  have "win_ok (socket_slots b) SOCKET_RLIMIT_WINDOW (sw_window ?sw)" "data_ok (ip_objects e ! ipLevelWindow ?sw)"
    using assms Some by (auto simp: engine_ok_def window_ok_def data_of_def)
  then show ?thesis
    using free_slots_le [of "socket_slots b" _ "sw_window ?sw" t] free_slots_le [of "shared_slots b" _ _ t] Some
    by (auto simp: engine_pot_def window_pot_of_def data_ok_def intro!: add_mono)
qed (simp add: engine_pot_def)

lemma IpCreate_pot:
  assumes "engine_ok ipOf e" "getIpLevelMitigationData_create req e = (d, e')"
  shows "engine_pot b a t e' = engine_pot b a t e"
proof (cases "windowMap b e a")
  case (Some w)
  then have "ipLevelWindow (window_objects e ! w) < length (ip_objects e)" using assms(1) by (auto simp: engine_ok_def window_ok_def data_of_def)
  then show ?thesis using assms(2) Some by (auto simp: getIpLevelMitigationData_create_def Let_def engine_pot_def window_pot_of_def nth_append)
qed (use assms(2) in \<open>auto simp: getIpLevelMitigationData_create_def Let_def engine_pot_def\<close>)

lemma WindowCreate_pot:
  assumes ok: "engine_ok ipOf e" and c: "call_ok ipOf c" and pc: "pc_ok e c (WindowCreate d)"
    and step: "getSocketMitigationData_create (ec_req c) d e = (w, e')"
  shows "engine_pot b a t e' \<le> engine_pot b a t e"
proof (cases "b = call_mutation c \<and> a = call_socket c")
  case True
  then have "engine_pot b a t e = socket_slots b + shared_slots b" using pc by (simp add: engine_pot_def)
  then show ?thesis using engine_pot_le [OF WindowCreate_step(1) [OF ok c pc step], of b a t] by simp
next
  case False
  note new = WindowCreate_step(4-7) [OF ok c pc step]
  have "windowMap b e' a = windowMap b e a" using False by (auto simp: new(1))
  moreover have "windowMap b e a = Some v \<Longrightarrow> v < length (window_objects e)" for v using ok by (auto simp: engine_ok_def window_ok_def)
  ultimately show ?thesis by (auto simp: engine_pot_def window_pot_of_def new(2,3) nth_append split: option.splits)
qed

text \<open>A decision touches the potential of the sockets of its address, for requests of its kind.\<close>

lemma decide_pot:
  assumes ok: "engine_ok ipOf e" and c: "call_ok ipOf c" and pc: "windowMap (call_mutation c) e (call_socket c) = Some window"
    and step: "rateLimitRequest_decide (ec_req c) window e = (limited, e')"
  shows "b \<noteq> call_mutation c \<or> ipOf a \<noteq> ipOf (call_socket c) \<Longrightarrow> engine_pot b a t e' = engine_pot b a t e"
    and "t \<le> hr_CreationTime (ec_req c) \<Longrightarrow> hr_CreationTime (ec_req c) \<le> t + SOCKET_RLIMIT_WINDOW \<Longrightarrow>
      engine_pot b a t e' + (if \<not> limited \<and> b = call_mutation c \<and> a = call_socket c then 1 else 0) \<le> engine_pot b a t e"
proof -
  let ?r = "window_request_info (ec_req c)" and ?b = "call_mutation c"
  from ok pc step obtain sw data w shared where s: "sw = window_objects e ! window" "data = ip_objects e ! ipLevelWindow sw"
    and call: "win_AllowRequest (Some shared_AllowRequest) ?r (sw_window sw, shared_window_of ?b data) = (\<not> limited, w, shared)"
    and e': "e' = e\<lparr>window_objects := (window_objects e)[window := sw\<lparr>sw_window := w\<rparr>],
            ip_objects := (ip_objects e)[ipLevelWindow sw := set_shared_window ?b shared data]\<rparr>"
    and win: "win_ok (socket_slots ?b) SOCKET_RLIMIT_WINDOW (sw_window sw)"
    and of: "data_of (ipOf (call_socket c)) (ipLevelWindow sw) e" "data_ok data"
    and moved: "shared = shared_window_of ?b data \<or> shared = snd (shared_AllowRequest ?r (shared_window_of ?b data))"
    by (rule decide_step)
  have range: "window < length (window_objects e)" "ipLevelWindow sw < length (ip_objects e)"
    using ok pc of(1) by (auto simp: engine_ok_def window_ok_def data_of_def)
  have own: "windowMap b e a = Some window \<longleftrightarrow> b = ?b \<and> a = call_socket c" using ok pc unfolding engine_ok_def by blast
  have map: "windowMap b e' a = windowMap b e a" by (simp add: e')
  have pot_own: "window_pot_of ?b t e' window = free_slots t w + free_slots t shared"
    "window_pot_of ?b t e window = free_slots t (sw_window sw) + free_slots t (shared_window_of ?b data)"
    using range by (simp_all add: window_pot_of_def e' s)
  have pot_other: "window_pot_of b t e' v = free_slots t (sw_window (window_objects e ! v)) +
      free_slots t (if b = ?b \<and> ipLevelWindow (window_objects e ! v) = ipLevelWindow sw then shared
                    else shared_window_of b (ip_objects e ! ipLevelWindow (window_objects e ! v)))" if "v \<noteq> window" for v
    using that range by (cases "ipLevelWindow (window_objects e ! v) = ipLevelWindow sw") (simp_all add: window_pot_of_def e' s)
  have "engine_pot b a t e' = engine_pot b a t e" if "b \<noteq> ?b \<or> ipOf a \<noteq> ipOf (call_socket c)"
  proof (cases "windowMap b e a")
    case (Some v)
    have v: "v \<noteq> window" using own Some that by auto
    have "data_of (ipOf a) (ipLevelWindow (window_objects e ! v)) e" using ok Some by (auto simp: engine_ok_def window_ok_def)
    with that of(1) have "\<not> (b = ?b \<and> ipLevelWindow (window_objects e ! v) = ipLevelWindow sw)" by (auto simp: data_of_def)
    then have "window_pot_of b t e' v = window_pot_of b t e v" unfolding pot_other [OF v] by (simp only: window_pot_of_def if_False)
    with map Some show ?thesis by (simp add: engine_pot_def)
  qed (use map in \<open>simp add: engine_pot_def\<close>)
  then show "b \<noteq> ?b \<or> ipOf a \<noteq> ipOf (call_socket c) \<Longrightarrow> engine_pot b a t e' = engine_pot b a t e" .
  assume t: "t \<le> hr_CreationTime (ec_req c)" "hr_CreationTime (ec_req c) \<le> t + SOCKET_RLIMIT_WINDOW"
  have r: "ri_Id ?r \<noteq> ''''" "t \<le> CreationTime ?r" "CreationTime ?r \<le> t + SOCKET_RLIMIT_WINDOW"
    using c t by (simp_all add: window_request_info_def call_ok_def)
  have "win_ok (shared_slots ?b) SOCKET_RLIMIT_WINDOW (shared_window_of ?b data)" using of(2) by (simp add: data_ok_def)
  note pot = shared_AllowRequest_potential [OF this r]
  have less: "free_slots t shared \<le> free_slots t (shared_window_of ?b data)" using moved pot by auto
  have taken: "free_slots t w + free_slots t shared + (if \<not> limited then 1 else 0) \<le> free_slots t (sw_window sw) + free_slots t (shared_window_of ?b data)"
    using win_AllowRequest_potential [OF win r call, of "free_slots t"] pot by auto
  show "engine_pot b a t e' + (if \<not> limited \<and> b = ?b \<and> a = call_socket c then 1 else 0) \<le> engine_pot b a t e"
  proof (cases "windowMap b e a")
    case None
    have "\<not> (b = ?b \<and> a = call_socket c)"
    proof
      assume "b = ?b \<and> a = call_socket c"
      then have "windowMap b e a = Some window" using pc by (simp only:)
      with None show False by simp
    qed
    with None show ?thesis using map by (auto simp: engine_pot_def)
  next
    case (Some v)
    show ?thesis
    proof (cases "v = window")
      case True
      then have "b = ?b" "a = call_socket c" using own Some by auto
      then show ?thesis using Some map True taken by (auto simp: engine_pot_def pot_own)
    next
      case False
      then have "window_pot_of b t e' v \<le> window_pot_of b t e v" using less s by (auto simp: pot_other) (auto simp: window_pot_of_def)
      moreover have "\<not> (b = ?b \<and> a = call_socket c)" using own Some False by auto
      ultimately show ?thesis using Some map by (auto simp: engine_pot_def)
    qed
  qed
qed

text \<open>The steps of a call.\<close>

lemma engine_step_keeps:
  assumes ok: "engine_ok ipOf e" and c: "call_ok ipOf c" and pc: "pc_ok e c pc" and step: "engine_step c pc e = (pc', e')"
  shows "engine_ok ipOf e'" "pc_ok e' c pc'" "engine_frame c e e'"
proof -
  have "engine_ok ipOf e' \<and> pc_ok e' c pc' \<and> engine_frame c e e'"
  proof (cases pc)
    case (IpLookup n)
    then show ?thesis using step ok engine_frame_refl
      by (auto simp: engine_ok_def intro!: pc_ok_has_data split: option.splits)
  next
    case (IpCreate n)
    obtain d e1 where "getIpLevelMitigationData_create (ec_req c) e = (d, e1)" by force
    with IpCreate_step [OF ok this] step IpCreate show ?thesis by (auto intro: pc_ok_has_data)
  next
    case (WindowLookup d)
    then show ?thesis using step ok pc engine_frame_refl by (auto simp: call_mutation_def call_socket_def split: option.splits)
  next
    case (WindowCreate d)
    obtain w e1 where "getSocketMitigationData_create (ec_req c) d e = (w, e1)" by force
    with WindowCreate_step [OF ok c pc [unfolded WindowCreate] this] step WindowCreate show ?thesis by auto
  next
    case (HasWindow w)
    show ?thesis
    proof (cases "ec_method c")
      case RateLimitRequest
      obtain limited e1 where d: "rateLimitRequest_decide (ec_req c) w e = (limited, e1)" by force
      have "windowMap (call_mutation c) e (call_socket c) = Some w" using pc HasWindow by simp
      from decide_keeps [OF ok this d] d step HasWindow RateLimitRequest show ?thesis by auto
    qed (use step HasWindow ok engine_frame_refl in auto)
  qed (use step ok engine_frame_refl in auto)
  then show "engine_ok ipOf e'" "pc_ok e' c pc'" "engine_frame c e e'" by blast+
qed

fun holds_window :: "engine_pc \<Rightarrow> bool" where
  "holds_window (HasWindow w) = True"
| "holds_window pc = False"

lemma engine_step_silent:
  assumes ok: "engine_ok ipOf e" and c: "call_ok ipOf c" and pc: "pc_ok e c pc" and step: "engine_step c pc e = (pc', e')"
    and silent: "\<not> holds_window pc \<or> b \<noteq> call_mutation c \<or> ipOf a \<noteq> ipOf (call_socket c)"
  shows "engine_pot b a t e' \<le> engine_pot b a t e"
proof (cases pc)
  case (IpCreate n)
  obtain d e1 where d: "getIpLevelMitigationData_create (ec_req c) e = (d, e1)" by force
  from IpCreate_pot [OF ok d, of b a t] d step IpCreate show ?thesis by auto
next
  case (WindowCreate d)
  obtain w e1 where d: "getSocketMitigationData_create (ec_req c) d e = (w, e1)" by force
  from WindowCreate_pot [OF ok c pc [unfolded WindowCreate] d, of b a t] d step WindowCreate show ?thesis by auto
next
  case (HasWindow w)
  show ?thesis
  proof (cases "ec_method c")
    case RateLimitRequest
    obtain limited e1 where d: "rateLimitRequest_decide (ec_req c) w e = (limited, e1)" by force
    have "windowMap (call_mutation c) e (call_socket c) = Some w" using pc HasWindow by simp
    from decide_pot(1) [OF ok c this d, of b a t] d step HasWindow RateLimitRequest silent show ?thesis by auto
  qed (use step HasWindow in auto)
qed (use step in \<open>auto split: option.splits\<close>)

lemma engine_step_decides:
  assumes ok: "engine_ok ipOf e" and c: "call_ok ipOf c" and pc: "pc_ok e c (HasWindow w)"
    and step: "engine_step c (HasWindow w) e = (pc', e')"
    and t: "t \<le> hr_CreationTime (ec_req c)" "hr_CreationTime (ec_req c) \<le> t + SOCKET_RLIMIT_WINDOW"
  shows "engine_pot b a t e' + (if ec_method c = RateLimitRequest \<and> pc' = Returned False \<and> b = call_mutation c \<and> a = call_socket c then 1 else 0)
    \<le> engine_pot b a t e"
proof (cases "ec_method c")
  case RateLimitRequest
  obtain limited e1 where d: "rateLimitRequest_decide (ec_req c) w e = (limited, e1)" by force
  have "windowMap (call_mutation c) e (call_socket c) = Some w" using pc by simp
  from decide_pot(2) [OF ok c this d t, of b a] d step RateLimitRequest show ?thesis by (auto split: if_splits)
qed (use step in auto)

text \<open>
  The server: a list of calls, each in its own goroutine, and the point every call has reached. An
  event begins a call, makes a call that has no window yet go on by one step, or makes the decision
  of a call that has its window; an event that is not possible has no effect. With \<open>alone\<close> a call
  begins only when no other call of its socket is in flight, as with HTTP/1, where the requests of a
  connection are handled one after the other.
\<close>

record server =
  sv_engine :: securityEngine
  sv_calls :: "engine_pc option list"

datatype engine_event = Begin nat | Work nat | Decide nat

fun in_flight :: "engine_pc option \<Rightarrow> bool" where
  "in_flight None = False"
| "in_flight (Some (Returned limited)) = False"
| "in_flight (Some pc) = True"

definition new_server :: "engine_call list \<Rightarrow> server" where
  "new_server calls = \<lparr>sv_engine = newSecurityEngine, sv_calls = replicate (length calls) None\<rparr>"

definition socket_busy :: "engine_call list \<Rightarrow> server \<Rightarrow> string \<Rightarrow> bool" where
  "socket_busy calls s a \<longleftrightarrow> list_ex (\<lambda>(c, pc). call_socket c = a \<and> in_flight pc) (zip calls (sv_calls s))"

definition advance :: "engine_call list \<Rightarrow> nat \<Rightarrow> engine_pc \<Rightarrow> server \<Rightarrow> engine_pc \<times> server" where
  "advance calls i pc s =
     (let (pc', e') = engine_step (calls ! i) pc (sv_engine s) in
      (pc', \<lparr>sv_engine = e', sv_calls = (sv_calls s)[i := Some pc']\<rparr>))"

fun engine_serve :: "bool \<Rightarrow> engine_call list \<Rightarrow> engine_event \<Rightarrow> server \<Rightarrow> bool \<times> server" where
  "engine_serve alone calls (Begin i) s =
     (False, if i < length calls \<and> sv_calls s ! i = None \<and> (alone \<longrightarrow> \<not> socket_busy calls s (call_socket (calls ! i)))
             then s\<lparr>sv_calls := (sv_calls s)[i := Some (begin_call (calls ! i))]\<rparr> else s)"
| "engine_serve alone calls (Work i) s =
     (False, if i < length calls
             then (case sv_calls s ! i of
                     Some pc \<Rightarrow> if holds_window pc then s else snd (advance calls i pc s)
                   | None \<Rightarrow> s)
             else s)"
| "engine_serve alone calls (Decide i) s =
     (if i < length calls
      then (case sv_calls s ! i of
              Some (HasWindow w) \<Rightarrow>
                (let (pc, s') = advance calls i (HasWindow w) s in (ec_method (calls ! i) = RateLimitRequest \<and> pc = Returned False, s'))
            | _ \<Rightarrow> (False, s))
      else (False, s))"

text \<open>The time of a decision is the creation of its request; the decisions that concern a socket are those on its address, for its kind of requests.\<close>

fun event_time :: "engine_call list \<Rightarrow> engine_event \<Rightarrow> int" where
  "event_time calls (Decide i) = hr_CreationTime (ec_req (calls ! i))"
| "event_time calls ev = 0"

fun event_of :: "engine_call list \<Rightarrow> bool \<Rightarrow> string \<Rightarrow> engine_event \<Rightarrow> bool" where
  "event_of calls b a (Decide i) = (i < length calls \<and> b = call_mutation (calls ! i) \<and> a = call_socket (calls ! i))"
| "event_of calls b a ev = False"

fun event_ticked :: "(string \<Rightarrow> string) \<Rightarrow> engine_call list \<Rightarrow> bool \<Rightarrow> string \<Rightarrow> engine_event \<Rightarrow> bool" where
  "event_ticked ipOf calls b a (Decide i) = (i < length calls \<and> b = call_mutation (calls ! i) \<and> ipOf a = ipOf (call_socket (calls ! i)))"
| "event_ticked ipOf calls b a ev = False"

definition server_inv :: "(string \<Rightarrow> string) \<Rightarrow> engine_call list \<Rightarrow> server \<Rightarrow> bool" where
  "server_inv ipOf calls s \<longleftrightarrow> list_all (call_ok ipOf) calls \<and> engine_ok ipOf (sv_engine s) \<and> length (sv_calls s) = length calls
     \<and> (\<forall>i pc. i < length calls \<longrightarrow> sv_calls s ! i = Some pc \<longrightarrow> pc_ok (sv_engine s) (calls ! i) pc)
     \<and> (\<forall>i j. i < length calls \<longrightarrow> j < length calls \<longrightarrow> i \<noteq> j \<longrightarrow> in_flight (sv_calls s ! i) \<longrightarrow> in_flight (sv_calls s ! j) \<longrightarrow>
          call_socket (calls ! i) \<noteq> call_socket (calls ! j))"

lemma new_server_inv: "list_all (call_ok ipOf) calls \<Longrightarrow> server_inv ipOf calls (new_server calls)"
  by (simp add: server_inv_def new_server_def engine_ok_def newSecurityEngine_def windowMap_def)

lemma not_in_flight_pc_ok: "\<not> in_flight (Some pc) \<Longrightarrow> pc_ok e c pc"
  by (cases pc) auto

lemma begin_inv:
  assumes inv: "server_inv ipOf calls s" and i: "i < length calls" "sv_calls s ! i = None" "\<not> socket_busy calls s (call_socket (calls ! i))"
  shows "server_inv ipOf calls (s\<lparr>sv_calls := (sv_calls s)[i := Some (begin_call (calls ! i))]\<rparr>)"
proof -
  have len: "length (sv_calls s) = length calls" using inv by (simp add: server_inv_def)
  have free: "call_socket (calls ! j) \<noteq> call_socket (calls ! i)" if "j < length calls" "in_flight (sv_calls s ! j)" for j
    using i(3) that len by (auto simp: socket_busy_def list_ex_iff set_zip)
  have "pc_ok e c (begin_call c)" for e c by (simp add: begin_call_def split: engine_method.splits)
  with inv i len free show ?thesis
    by (auto simp: server_inv_def nth_list_update dest: free)
qed

lemma advance_inv:
  assumes inv: "server_inv ipOf calls s" and i: "i < length calls" "sv_calls s ! i = Some pc" "in_flight (Some pc)"
  shows "server_inv ipOf calls (snd (advance calls i pc s))"
proof -
  let ?e = "sv_engine s"
  obtain pc' e' where step: "engine_step (calls ! i) pc ?e = (pc', e')" by force
  have c: "call_ok ipOf (calls ! i)" and ok: "engine_ok ipOf ?e" and pc: "pc_ok ?e (calls ! i) pc" and len: "length (sv_calls s) = length calls"
    using inv i by (auto simp: server_inv_def list_all_length)
  note keeps = engine_step_keeps [OF ok c pc step]
  have others: "pc_ok e' (calls ! j) q" if "j < length calls" "j \<noteq> i" "sv_calls s ! j = Some q" for j q
  proof (cases "in_flight (Some q)")
    case True
    then have "call_socket (calls ! j) \<noteq> call_socket (calls ! i)" using inv i that by (auto simp: server_inv_def)
    from pc_ok_frame [OF keeps(3) this] inv that show ?thesis by (simp add: server_inv_def)
  qed (rule not_in_flight_pc_ok)
  have flight: "in_flight ((sv_calls s)[i := Some pc'] ! j) \<Longrightarrow> in_flight (sv_calls s ! j)" if "j < length calls" for j
    using that i len by (cases "j = i") auto
  show ?thesis
    using inv keeps(1,2) others flight i len step unfolding server_inv_def advance_def
    by (auto simp: nth_list_update)
qed

lemma serve_inv: "server_inv ipOf calls s \<Longrightarrow> server_inv ipOf calls (snd (engine_serve True calls ev s))"
proof (cases ev)
  case (Begin i)
  then show "server_inv ipOf calls s \<Longrightarrow> ?thesis" using begin_inv by simp
next
  case (Work i)
  have unchanged: "snd (advance calls i (Returned l) s) = s" if "i < length calls" "sv_calls s ! i = Some (Returned l)" for l
    using that list_update_id [of "sv_calls s" i] by (cases s) (simp add: advance_def)
  show "server_inv ipOf calls s \<Longrightarrow> ?thesis"
  proof (cases "i < length calls \<and> (\<exists>pc. sv_calls s ! i = Some pc \<and> \<not> holds_window pc)")
    case True
    then obtain pc where pc: "i < length calls" "sv_calls s ! i = Some pc" "\<not> holds_window pc" by auto
    show "server_inv ipOf calls s \<Longrightarrow> ?thesis"
      using advance_inv [of ipOf calls s i pc] unchanged pc Work by (cases pc) auto
  qed (use Work in \<open>auto split: option.splits\<close>)
next
  case (Decide i)
  show "server_inv ipOf calls s \<Longrightarrow> ?thesis"
    using advance_inv [of ipOf calls s i] Decide
    by (auto split: option.splits engine_pc.splits prod.splits)
qed

abbreviation server_pot :: "bool \<Rightarrow> string \<Rightarrow> int \<Rightarrow> server \<Rightarrow> nat" where
  "server_pot b a t s \<equiv> engine_pot b a t (sv_engine s)"

lemma advance_pot:
  assumes inv: "server_inv ipOf calls s" and i: "i < length calls" "sv_calls s ! i = Some pc"
  shows "\<not> holds_window pc \<or> b \<noteq> call_mutation (calls ! i) \<or> ipOf a \<noteq> ipOf (call_socket (calls ! i)) \<Longrightarrow>
      server_pot b a t (snd (advance calls i pc s)) \<le> server_pot b a t s"
    and "pc = HasWindow w \<Longrightarrow> t \<le> hr_CreationTime (ec_req (calls ! i)) \<Longrightarrow> hr_CreationTime (ec_req (calls ! i)) \<le> t + SOCKET_RLIMIT_WINDOW \<Longrightarrow>
      server_pot b a t (snd (advance calls i pc s))
        + (if ec_method (calls ! i) = RateLimitRequest \<and> fst (advance calls i pc s) = Returned False \<and> b = call_mutation (calls ! i) \<and> a = call_socket (calls ! i) then 1 else 0)
      \<le> server_pot b a t s"
proof -
  obtain pc' e' where step: "engine_step (calls ! i) pc (sv_engine s) = (pc', e')" by force
  have c: "call_ok ipOf (calls ! i)" and ok: "engine_ok ipOf (sv_engine s)" and pc: "pc_ok (sv_engine s) (calls ! i) pc"
    using inv i by (auto simp: server_inv_def list_all_length)
  have adv: "fst (advance calls i pc s) = pc'" "sv_engine (snd (advance calls i pc s)) = e'" using step by (auto simp: advance_def)
  show "\<not> holds_window pc \<or> b \<noteq> call_mutation (calls ! i) \<or> ipOf a \<noteq> ipOf (call_socket (calls ! i)) \<Longrightarrow>
      server_pot b a t (snd (advance calls i pc s)) \<le> server_pot b a t s"
    unfolding adv by (rule engine_step_silent [OF ok c pc step])
  assume w: "pc = HasWindow w" and t: "t \<le> hr_CreationTime (ec_req (calls ! i))" "hr_CreationTime (ec_req (calls ! i)) \<le> t + SOCKET_RLIMIT_WINDOW"
  show "server_pot b a t (snd (advance calls i pc s))
        + (if ec_method (calls ! i) = RateLimitRequest \<and> fst (advance calls i pc s) = Returned False \<and> b = call_mutation (calls ! i) \<and> a = call_socket (calls ! i) then 1 else 0)
      \<le> server_pot b a t s"
    unfolding adv by (rule engine_step_decides [OF ok c pc [unfolded w] step [unfolded w] t])
qed

lemma serve_silent:
  assumes inv: "server_inv ipOf calls s" and ev: "\<not> event_ticked ipOf calls b a ev"
  shows "server_pot b a t (snd (engine_serve True calls ev s)) \<le> server_pot b a t s"
proof (cases ev)
  case (Begin i)
  then show ?thesis by simp
next
  case (Work i)
  then show ?thesis using advance_pot(1) [OF inv, of i] by (auto split: option.splits)
next
  case (Decide i)
  then show ?thesis using advance_pot(1) [OF inv, of i] ev by (fastforce split: option.splits engine_pc.splits prod.splits)
qed

lemma serve_pot:
  assumes inv: "server_inv ipOf calls s" and t: "t \<le> event_time calls ev" "event_time calls ev \<le> t + SOCKET_RLIMIT_WINDOW"
  shows "server_pot b a t (snd (engine_serve True calls ev s)) + (if fst (engine_serve True calls ev s) \<and> event_of calls b a ev then 1 else 0)
    \<le> server_pot b a t s"
proof (cases "\<exists>i w. ev = Decide i \<and> i < length calls \<and> sv_calls s ! i = Some (HasWindow w)")
  case True
  then obtain i w where i: "ev = Decide i" "i < length calls" "sv_calls s ! i = Some (HasWindow w)" by blast
  obtain pc s' where adv: "advance calls i (HasWindow w) s = (pc, s')" by force
  from advance_pot(2) [OF inv i(2,3) refl, of t b a] t i adv show ?thesis by (auto split: if_splits)
next
  case False
  have "\<not> fst (engine_serve True calls ev s)" using False by (cases ev) (auto split: option.splits engine_pc.splits)
  moreover have "server_pot b a t (snd (engine_serve True calls ev s)) \<le> server_pot b a t s"
  proof (cases ev)
    case (Decide i)
    then show ?thesis using False by (auto split: option.splits engine_pc.splits)
  qed (use serve_silent [OF inv, of b a ev t] in auto)
  ultimately show ?thesis by simp
qed

interpretation engine_socket: rate_potential "engine_serve True calls" "event_ticked ipOf calls b a" "event_time calls" "event_of calls b a" "\<lambda>_. True"
  "server_inv ipOf calls" "server_pot b a" "socket_slots b + shared_slots b" SOCKET_RLIMIT_WINDOW for calls ipOf b a
proof
  show "server_inv ipOf calls s \<Longrightarrow> server_pot b a t s \<le> socket_slots b + shared_slots b" for t s
    using engine_pot_le by (auto simp: server_inv_def)
  show "event_of calls b a ev \<Longrightarrow> event_ticked ipOf calls b a ev" for ev by (cases ev) auto
qed (use serve_inv serve_pot serve_silent in auto)

section \<open>The bounds on admitted requests\<close>

text \<open>
  A window of \<open>n\<close> slots admits at most \<open>n\<close> requests in any period of its duration, whatever the
  requests are, as long as they have an identifier and arrive in the order of their creation; the
  same holds for a window shared by several sockets.
\<close>

lemma new_window_rate_limit:
  assumes "NewWindow params = Some w" "0 \<le> par_Duration params"
    and "sorted (List.map CreationTime rs)" "list_all (\<lambda>r. ri_Id r \<noteq> '''') rs"
  shows "count_between CreationTime (\<lambda>_. True) t (par_Duration params) (admitted plain_AllowRequest w rs) \<le> nat (par_RequestCount params)"
    and "count_between CreationTime (\<lambda>_. True) t (par_Duration params) (admitted shared_AllowRequest w rs) \<le> nat (par_RequestCount params)"
  using plain_window.admitted_bound [OF NewWindow_ok [OF assms(1,2)], of rs]
    shared_window.admitted_bound [OF NewWindow_ok [OF assms(1,2)], of rs] assms(3,4) by auto

text \<open>
  (C14) In any period of ten seconds the HTTP server lets at most 100 read requests and 25 mutation
  requests of a socket through (the slots of the window of the socket plus those of the window of
  its IP address). The calls run in goroutines that interleave step by step, as long as no two
  calls of the same socket overlap; the requests have identifiers, the socket determines the IP
  address, and the decisions on requests of one kind and one address are made in the order in
  which the requests were created.
\<close>

theorem http_requests_limited:
  assumes "list_all (call_ok ipOf) calls"
    and "sorted (List.map (event_time calls) (filter (event_ticked ipOf calls mutation socket) schedule))"
  shows "count_between (event_time calls) (event_of calls mutation socket) t SOCKET_RLIMIT_WINDOW
      (admitted (engine_serve True calls) (new_server calls) schedule)
    \<le> (if mutation then 25 else 100)"
proof -
  from engine_socket.admitted_bound [OF new_server_inv [OF assms(1)] assms(2), of t]
  show ?thesis by (auto simp: list_all_length socket_slots_def shared_slots_def engine_constants)
qed

text \<open>
  (C15) With limits \<open>a\<close> and \<open>b\<close> on messages, not both zero, a JSON-RPC session over a websocket lets
  at most \<open>a\<close> calls through in any second and \<open>b\<close> calls in any ten seconds; of a method with
  limit \<open>n\<close> at place \<open>k\<close> it lets at most \<open>n + 1\<close> calls through in any period of \<open>10^k\<close> seconds.
  This holds for calls in the order of time, with a nonempty identifier, that are not cancellations
  and whose methods have limits that are not negative.
\<close>

theorem session_calls_limited:
  assumes "newRateLimiter config = Some r" "messageRateLimits config = (a, b)" "(a, b) \<noteq> (0, 0)"
    and "sorted (List.map sc_now calls)" "list_all (good_call methods) calls"
  shows "count_between sc_now (\<lambda>_. True) t Second (admitted (session_serve True remoteIp) r calls) \<le> nat a
    \<and> count_between sc_now (\<lambda>_. True) t (Second * 10) (admitted (session_serve True remoteIp) r calls) \<le> nat b
    \<and> (limited_method (methods m) k \<longrightarrow> mi_Name (methods m) = m \<longrightarrow>
         count_between sc_now (\<lambda>c. mi_Name (sc_info c) = m) t (Second * 10 ^ k) (admitted (session_serve True remoteIp) r calls)
           \<le> nat (method_limits (methods m) ! k) + 1)"
proof -
  note new = newRateLimiter_inv [OF assms(1-3)]
  have "method_inv (methods m) k r" using new(3) by (simp add: method_inv_def)
  moreover have "sorted (List.map sc_now (filter (\<lambda>_. True) calls))" using assms(4) by simp
  note bound = session_messages.admitted_bound [OF _ this assms(5)] session_method.admitted_bound [OF _ this assms(5)]
  ultimately show ?thesis using bound(1) [OF new(1)] bound(1) [OF new(2)] bound(2) [of m k r t remoteIp] by (simp add: limit_of_def)
qed

text \<open>Examples: HTTP requests of either kind; a session with two messages per second and one call of a method per second.\<close>

definition sample_http :: "int \<Rightarrow> string \<Rightarrow> string \<Rightarrow> engine_call" where
  "sample_http now m a = \<lparr>ec_method = RateLimitRequest,
     ec_req = \<lparr>hr_ULIDString = ''r'', hr_Method = m, hr_CreationTime = now, hr_RemoteAddrAndPort = a, hr_RemoteIpAddr = ''a''\<rparr>\<rparr>"

text \<open>The first requests of two sockets overlap: both create the data of the address.\<close>

definition sample_calls :: "engine_call list" where
  "sample_calls = [sample_http 1 ''GET'' ''a:1'', sample_http 2 ''post'' ''a:2'', sample_http 3 ''GET'' ''a:1'']"

definition sample_schedule :: "engine_event list" where
  "sample_schedule = [Begin 0, Begin 1, Begin 2, Work 0, Work 1, Work 0, Work 1, Work 0, Work 1, Work 1, Decide 1, Work 0, Decide 0,
     Begin 2, Work 2, Work 2, Decide 2]"

theorem http_requests_limited_witness:
  "admitted (engine_serve True sample_calls) (new_server sample_calls) sample_schedule = [Decide 1, Decide 0, Decide 2]
   \<and> count_between (event_time sample_calls) (event_of sample_calls False ''a:1'') 0 SOCKET_RLIMIT_WINDOW
       (admitted (engine_serve True sample_calls) (new_server sample_calls) sample_schedule) \<le> 100"
  (is "?eval \<and> ?bound")
proof
  show ?eval by code_simp
  have "list_all (call_ok (\<lambda>_. ''a'')) sample_calls"
    by (simp add: sample_calls_def sample_http_def call_ok_def)
  moreover have "sorted (List.map (event_time sample_calls) (filter (event_ticked (\<lambda>_. ''a'') sample_calls False ''a:1'') sample_schedule))"
    by code_simp
  ultimately show ?bound using http_requests_limited [of "\<lambda>_. ''a''" sample_calls False "''a:1''" sample_schedule 0] by simp
qed

text \<open>
  Without that restriction (HTTP/2 handles the requests of a connection concurrently) there is no
  limit: any number of requests of a new socket that look the window up before one of them has
  stored it get a new window each, and all of them are let through.
\<close>

definition lookup_events :: "nat list \<Rightarrow> engine_event list" where
  "lookup_events is = concat (List.map (\<lambda>i. [Begin i, Work i, Work i]) is)"

definition decision_events :: "nat list \<Rightarrow> engine_event list" where
  "decision_events is = concat (List.map (\<lambda>i. [Work i, Decide i]) is)"

definition overlapping_schedule :: "nat \<Rightarrow> engine_event list" where
  "overlapping_schedule n = [Begin 0, Work 0, Work 0, Work 0] @ lookup_events [1..<n] @ decision_events [0..<n]"

definition serve_all :: "('e \<Rightarrow> 's \<Rightarrow> bool \<times> 's) \<Rightarrow> 'e list \<Rightarrow> 's \<Rightarrow> 's" where
  "serve_all serve = fold (\<lambda>e s. snd (serve e s))"

lemma admitted_append: "admitted serve s (xs @ ys) = admitted serve s xs @ admitted serve (serve_all serve xs s) ys"
  by (induction xs arbitrary: s) (auto simp: serve_all_def split: prod.splits)

lemma window_of_requests: "0 < n \<Longrightarrow> win_requests (window_of d n) = replicate n zero_request"
  by (simp add: window_of_def NewWindow_def)

lemma new_window_admits:
  assumes "ec_method c = RateLimitRequest" "engine_step c (WindowCreate d) e = (pc, e')"
  shows "\<exists>w. pc = HasWindow w \<and> fst (engine_step c pc e') = Returned False"
proof -
  let ?n = "socket_slots (IsMutationMethod (hr_Method (ec_req c)))"
  obtain k where "?n = Suc k" by (cases ?n) (auto simp: socket_slots_def engine_constants split: if_splits)
  then have "win_requests (window_of SOCKET_RLIMIT_WINDOW ?n) = zero_request # replicate k zero_request"
    using window_of_requests [of ?n] by simp
  then have "fst (win_AllowRequest ip r (window_of SOCKET_RLIMIT_WINDOW ?n, x))" for ip :: "Window IWindow option" and r x
    by (simp add: win_AllowRequest_def zero_request_def)
  then show ?thesis using assms
    by (auto simp: getSocketMitigationData_create_def rateLimitRequest_decide_def socket_slots_def [symmetric] Let_def split: prod.splits)
      (metis fst_conv)
qed

lemma decisions_admitted:
  assumes c: "ec_method c = RateLimitRequest"
  shows "distinct is \<Longrightarrow> length (sv_calls s) = n \<Longrightarrow> \<forall>i \<in> set is. i < n \<and> (\<exists>d. sv_calls s ! i = Some (WindowCreate d)) \<Longrightarrow>
    admitted (engine_serve False (replicate n c)) s (decision_events is) = List.map Decide is"
proof (induction "is" arbitrary: s)
  case (Cons i "is")
  then obtain d where i: "i < n" "sv_calls s ! i = Some (WindowCreate d)" by auto
  obtain pc e1 where 1: "engine_step c (WindowCreate d) (sv_engine s) = (pc, e1)" by force
  obtain w pc' e2 where w: "pc = HasWindow w" and 2: "engine_step c pc e1 = (pc', e2)" "pc' = Returned False"
    using new_window_admits [OF c 1] by (metis prod.collapse)
  let ?s = "\<lparr>sv_engine = e2, sv_calls = (sv_calls s)[i := Some pc']\<rparr>"
  have "admitted (engine_serve False (replicate n c)) ?s (decision_events is) = List.map Decide is"
  proof (rule Cons.IH)
    show "\<forall>j \<in> set is. j < n \<and> (\<exists>d. sv_calls ?s ! j = Some (WindowCreate d))"
    proof
      fix j assume "j \<in> set is"
      then have "i \<noteq> j" "j < n \<and> (\<exists>d. sv_calls s ! j = Some (WindowCreate d))" using Cons.prems(1,3) by auto
      then show "j < n \<and> (\<exists>d. sv_calls ?s ! j = Some (WindowCreate d))" by simp
    qed
  qed (use Cons.prems in auto)
  then show ?case using i 1 2 w c Cons.prems(2)
    by (simp add: decision_events_def advance_def del: engine_step.simps)
qed (simp add: decision_events_def)

lemma lookups_miss:
  assumes e: "ipMitigationData (sv_engine s) (hr_RemoteIpAddr (ec_req c)) = Some d" "windowMap (call_mutation c) (sv_engine s) (call_socket c) = None"
    and c: "ec_method c = RateLimitRequest" and s: "length (sv_calls s) = n"
  shows "m \<le> n \<Longrightarrow> \<forall>i < n. sv_calls s ! i = (if i < m then Some (WindowCreate d) else None) \<Longrightarrow> m \<le> k \<Longrightarrow> k \<le> n \<Longrightarrow>
    admitted (engine_serve False (replicate n c)) s (lookup_events [m..<k]) = []
    \<and> sv_calls (serve_all (engine_serve False (replicate n c)) (lookup_events [m..<k]) s) = replicate k (Some (WindowCreate d)) @ replicate (n - k) None"
  using e s
proof (induction "k - m" arbitrary: m s)
  case 0
  then show ?case by (auto simp: lookup_events_def serve_all_def nth_append intro!: nth_equalityI)
next
  case (Suc x)
  let ?s = "\<lparr>sv_engine = sv_engine s, sv_calls = (sv_calls s)[m := Some (WindowCreate d)]\<rparr>"
  have m: "m < k" "[m..<k] = m # [Suc m..<k]" using Suc.hyps(2) by (auto simp: upt_conv_Cons)
  have "admitted (engine_serve False (replicate n c)) ?s (lookup_events [Suc m..<k]) = []
    \<and> sv_calls (serve_all (engine_serve False (replicate n c)) (lookup_events [Suc m..<k]) ?s) = replicate k (Some (WindowCreate d)) @ replicate (n - k) None"
    using Suc.prems Suc.hyps(2) m by (intro Suc.hyps(1)) (auto simp: nth_list_update less_Suc_eq)
  moreover have "begin_call c = IpLookup 0" using c by (simp add: begin_call_def)
  ultimately show ?case using Suc.prems m
    by (simp add: lookup_events_def serve_all_def advance_def call_mutation_def call_socket_def)
qed

theorem overlapping_first_requests_unlimited:
  assumes c: "ec_method c = RateLimitRequest" and n: "0 < n"
  shows "admitted (engine_serve False (replicate n c)) (new_server (replicate n c)) (overlapping_schedule n) = List.map Decide [0..<n]"
proof -
  let ?serve = "engine_serve False (replicate n c)"
  let ?start = "[Begin 0, Work 0, Work 0, Work 0]"
  define s where "s = serve_all ?serve ?start (new_server (replicate n c))"
  have s: "ipMitigationData (sv_engine s) (hr_RemoteIpAddr (ec_req c)) = Some 0" "windowMap (call_mutation c) (sv_engine s) (call_socket c) = None"
    "sv_calls s = Some (WindowCreate 0) # replicate (n - 1) None" "admitted ?serve (new_server (replicate n c)) ?start = []"
    using c n by (cases n; auto simp: s_def serve_all_def new_server_def newSecurityEngine_def advance_def begin_call_def
      getIpLevelMitigationData_create_def windowMap_def Let_def)+
  have "\<forall>i < n. sv_calls s ! i = (if i < 1 then Some (WindowCreate 0) else None)" using s(3) by (auto simp: nth_Cons')
  with lookups_miss [OF s(1,2) c, of n 1 n] s(3) n
  have l: "admitted ?serve s (lookup_events [1..<n]) = []"
    "sv_calls (serve_all ?serve (lookup_events [1..<n]) s) = replicate n (Some (WindowCreate 0))" by simp_all
  have "admitted ?serve (serve_all ?serve (lookup_events [1..<n]) s) (decision_events [0..<n]) = List.map Decide [0..<n]"
    using l(2) by (intro decisions_admitted [OF c]) auto
  then show ?thesis using s(4) l(1) unfolding overlapping_schedule_def admitted_append s_def by simp
qed

definition sample_methods :: "string \<Rightarrow> MethodInfo" where
  "sample_methods m = \<lparr>mi_Name = m, mi_RateLimits = [1]\<rparr>"

definition sample_call :: "int \<Rightarrow> session_call" where
  "sample_call now = \<lparr>sc_now = now, sc_info = sample_methods ''m'', sc_id = ''i'', sc_addr = ''a:1''\<rparr>"

definition sample_session :: rateLimiter where
  "sample_session = the (newRateLimiter \<lparr>methodRateLimits = [], messageRateLimits = (2, 5)\<rparr>)"

theorem session_calls_limited_witness:
  "admitted (session_serve True (\<lambda>a. Some ''a'')) sample_session [sample_call 1, sample_call 2, sample_call 3] = [sample_call 1, sample_call 2]
   \<and> count_between sc_now (\<lambda>_. True) 0 Second
      (admitted (session_serve True (\<lambda>a. Some ''a'')) sample_session [sample_call 1, sample_call 2, sample_call 3]) \<le> 2
   \<and> count_between sc_now (\<lambda>c. mi_Name (sc_info c) = ''m'') 0 (Second * 10 ^ 0)
      (admitted (session_serve True (\<lambda>a. Some ''a'')) sample_session [sample_call 1, sample_call 2, sample_call 3]) \<le> 2"
  (is "?eval \<and> ?msg \<and> ?method")
proof -
  have new: "newRateLimiter \<lparr>methodRateLimits = [], messageRateLimits = (2, 5)\<rparr> = Some sample_session"
    by (simp add: sample_session_def newRateLimiter_def NewWindow_def)
  have lim: "limited_method (sample_methods ''m'') 0" by (simp add: limited_method_def method_limits_def sample_methods_def)
  have ?eval by code_simp
  moreover have "?msg \<and> ?method"
    using session_calls_limited [OF new, of 2 5 "[sample_call 1, sample_call 2, sample_call 3]" sample_methods 0 "\<lambda>a. Some ''a''" "''m''" 0] lim
    by (simp add: sample_call_def good_call_def sample_methods_def CANCEL_REQUEST_METHOD_def method_limits_def)
  ultimately show ?thesis by blast
qed


end
