(* ===== verification/Filepaths.thy ===== *)
theory Filepaths
  imports Prelude "HOL-Library.Sublist"
begin

text \<open>
  The functions of \<open>path/filepath\<close> that the in-memory filesystem uses, and \<open>NormalizeAsAbsolute\<close> of
  \<open>internal/globals/fs_ns/mem_storage.go\<close>. A path is a string with the separator \<open>/\<close>. The normal
  form of a path that does not leave the root is \<^verbatim>\<open>abs_path\<close> of a list of proper names, and
  the lemmas give the parent, the base name and the join of such paths as operations on the list.
\<close>

abbreviation slash :: char where
  "slash \<equiv> CHR ''/''"

fun split_slash :: "string \<Rightarrow> string list" where
  "split_slash [] = [[]]"
| "split_slash (c # cs) = (if c = slash then [] # split_slash cs else (c # hd (split_slash cs)) # tl (split_slash cs))"

fun join_slash :: "string list \<Rightarrow> string" where
  "join_slash [] = []"
| "join_slash [w] = w"
| "join_slash (w # v # ws) = w @ slash # join_slash (v # ws)"

text \<open>\<open>filepath.Clean\<close>: the elements are processed from left to right.\<close>

definition clean_step :: "bool \<Rightarrow> string list \<Rightarrow> string \<Rightarrow> string list" where
  "clean_step rooted out c =
     (if c = '''' \<or> c = ''.'' then out
      else if c = ''..'' then
        (if out \<noteq> [] \<and> last out \<noteq> ''..'' then butlast out else if rooted then out else out @ [''..''])
      else out @ [c])"

definition Clean :: "string \<Rightarrow> string" where
  "Clean p =
     (if p = [] then ''.''
      else let rooted = (hd p = slash); out = foldl (clean_step rooted) [] (split_slash p) in
        if rooted then slash # join_slash out else if out = [] then ''.'' else join_slash out)"

text \<open>\<open>filepath.Split\<close>: up to the last separator, and the rest.\<close>

definition path_Split :: "string \<Rightarrow> string \<times> string" where
  "path_Split p = (let file = rev (takeWhile (\<lambda>c. c \<noteq> slash) (rev p)) in (take (length p - length file) p, file))"

definition Dir :: "string \<Rightarrow> string" where
  "Dir p = Clean (fst (path_Split p))"

definition Base :: "string \<Rightarrow> string" where
  "Base p =
     (if p = [] then ''.''
      else let q = rev (dropWhile (\<lambda>c. c = slash) (rev p)) in
        if q = [] then ''/'' else snd (path_Split q))"

text \<open>\<open>filepath.Join\<close> of two elements.\<close>

definition Join :: "string \<Rightarrow> string \<Rightarrow> string" where
  "Join a b = (if a = [] \<and> b = [] then [] else if a = [] then Clean b else if b = [] then Clean a else Clean (a @ slash # b))"

text \<open>\<open>filepath.Rel\<close> on absolute, clean paths.\<close>

fun strip_common :: "string list \<Rightarrow> string list \<Rightarrow> string list \<times> string list" where
  "strip_common (x # xs) (y # ys) = (if x = y then strip_common xs ys else (x # xs, y # ys))"
| "strip_common xs ys = (xs, ys)"

definition path_names :: "string \<Rightarrow> string list" where
  "path_names p = filter (\<lambda>w. w \<noteq> '''') (split_slash p)"

definition Rel :: "string \<Rightarrow> string \<Rightarrow> string" where
  "Rel base targ = (let (bs, ts) = strip_common (path_names base) (path_names targ);
     names = replicate (length bs) ''..'' @ ts in if names = [] then ''.'' else join_slash names)"

definition NormalizeAsAbsolute :: "string \<Rightarrow> string" where
  "NormalizeAsAbsolute path =
     (if path = '''' then ''/''
      else let p = Clean path in if p \<noteq> ''/'' \<and> hd p \<noteq> slash then slash # p else p)"

section \<open>Normal forms\<close>

definition proper_name :: "string \<Rightarrow> bool" where
  "proper_name w \<longleftrightarrow> w \<noteq> '''' \<and> w \<noteq> ''.'' \<and> w \<noteq> ''..'' \<and> slash \<notin> set w"

abbreviation proper :: "string list \<Rightarrow> bool" where
  "proper \<equiv> list_all proper_name"

definition abs_path :: "string list \<Rightarrow> string" where
  "abs_path ws = slash # join_slash ws"

lemma split_slash_ne [simp]: "split_slash p \<noteq> []"
  by (cases p) auto

lemma split_slash_no_slash: "slash \<notin> set w \<Longrightarrow> split_slash w = [w]"
  by (induction w) auto

lemma split_slash_append: "slash \<notin> set w \<Longrightarrow> split_slash (w @ slash # p) = w # split_slash p"
  by (induction w) auto

lemma split_join: "ws \<noteq> [] \<Longrightarrow> list_all (\<lambda>w. slash \<notin> set w) ws \<Longrightarrow> split_slash (join_slash ws) = ws"
  by (induction ws rule: join_slash.induct) (auto simp: split_slash_no_slash split_slash_append)

lemma split_slash_names: "w \<in> set (split_slash p) \<Longrightarrow> slash \<notin> set w"
proof (induction p arbitrary: w)
  case (Cons c cs)
  have "set (tl (split_slash cs)) \<subseteq> set (split_slash cs)" "hd (split_slash cs) \<in> set (split_slash cs)"
    by (cases "split_slash cs"; auto)+
  with Cons show ?case by (auto split: if_splits)
qed simp

lemma proper_no_slash: "proper ws \<Longrightarrow> list_all (\<lambda>w. slash \<notin> set w) ws"
  by (auto simp: proper_name_def list_all_iff)

lemma foldl_clean_proper: "proper ws \<Longrightarrow> foldl (clean_step r) out ws = out @ ws"
  by (induction ws arbitrary: out) (auto simp: clean_step_def proper_name_def)

lemma join_slash_Nil [simp]: "proper ws \<Longrightarrow> join_slash ws = [] \<longleftrightarrow> ws = []"
  by (cases ws rule: join_slash.cases) (auto simp: proper_name_def)

lemma Clean_abs_path [simp]: "proper ws \<Longrightarrow> Clean (abs_path ws) = abs_path ws"
proof (cases "ws = []")
  case False
  assume p: "proper ws"
  have "foldl (clean_step True) [] (split_slash (slash # join_slash ws)) = ws"
    using split_join [OF False proper_no_slash [OF p]] foldl_clean_proper [OF p, of True "[]"] by (simp add: clean_step_def)
  then show ?thesis using False by (simp add: Clean_def abs_path_def)
qed (simp add: Clean_def abs_path_def clean_step_def)

lemma abs_path_inj: "proper ws \<Longrightarrow> proper vs \<Longrightarrow> abs_path ws = abs_path vs \<longleftrightarrow> ws = vs"
  using split_join [of ws] split_join [of vs] proper_no_slash [of ws] proper_no_slash [of vs] join_slash_Nil [of ws] join_slash_Nil [of vs]
  by (metis abs_path_def list.inject)

lemma NormalizeAsAbsolute_abs_path [simp]: "proper ws \<Longrightarrow> NormalizeAsAbsolute (abs_path ws) = abs_path ws"
  by (simp add: NormalizeAsAbsolute_def) (simp add: abs_path_def)

text \<open>Cleaning an absolute path gives a normal form.\<close>

lemma clean_step_proper:
  "proper out \<Longrightarrow> slash \<notin> set c \<Longrightarrow> proper (clean_step True out c)"
proof -
  assume out: "proper out" and c: "slash \<notin> set c"
  have "proper (butlast out)" using out by (auto simp: list_all_iff dest: in_set_butlastD)
  with out c show ?thesis by (auto simp: clean_step_def proper_name_def)
qed

lemma foldl_clean_proper_names:
  "proper out \<Longrightarrow> list_all (\<lambda>w. slash \<notin> set w) ws \<Longrightarrow> proper (foldl (clean_step True) out ws)"
  by (induction ws arbitrary: out) (auto intro: clean_step_proper)

lemma Clean_rooted:
  assumes "p \<noteq> []" "hd p = slash"
  shows "\<exists>ws. proper ws \<and> Clean p = abs_path ws"
  using foldl_clean_proper_names [of "[]" "split_slash p"] assms
  by (intro exI [of _ "foldl (clean_step True) [] (split_slash p)"])
    (auto simp: Clean_def abs_path_def list_all_iff split_slash_names)

lemma NormalizeAsAbsolute_rooted:
  assumes "p \<noteq> []" "hd p = slash"
  shows "\<exists>ws. proper ws \<and> NormalizeAsAbsolute p = abs_path ws"
proof -
  from Clean_rooted [OF assms] obtain ws where "proper ws" "Clean p = abs_path ws" by blast
  then show ?thesis using assms by (intro exI [of _ ws]) (simp add: NormalizeAsAbsolute_def abs_path_def)
qed

lemma NormalizeAsAbsolute_Nil [simp]: "NormalizeAsAbsolute [] = abs_path []"
  by (simp add: NormalizeAsAbsolute_def abs_path_def)

text \<open>
  A relative path that starts with \<open>..\<close> and the path \<open>.\<close> are not normalized: normalizing the
  result again gives another path.
\<close>

lemma NormalizeAsAbsolute_not_idempotent:
  "NormalizeAsAbsolute ''../a'' = ''/../a'' \<and> NormalizeAsAbsolute ''/../a'' = ''/a''
   \<and> NormalizeAsAbsolute ''.'' = ''/.'' \<and> NormalizeAsAbsolute ''/.'' = ''/''"
  by code_simp

section \<open>Parents, base names and joins of normal forms\<close>

lemma join_slash_snoc: "ws \<noteq> [] \<Longrightarrow> join_slash (ws @ [w]) = join_slash ws @ slash # w"
  by (induction ws rule: join_slash.induct) auto

lemma abs_path_snoc: "abs_path (ws @ [w]) = (if ws = [] then '''' else abs_path ws) @ slash # w"
  by (simp add: abs_path_def join_slash_snoc)

lemma path_Split_snoc: "slash \<notin> set w \<Longrightarrow> path_Split (p @ slash # w) = (p @ [slash], w)"
proof -
  assume w: "slash \<notin> set w"
  have "takeWhile (\<lambda>c. c \<noteq> slash) (rev w @ slash # rev p) = rev w"
    using w by (subst takeWhile_append2) auto
  then show ?thesis by (simp add: path_Split_def)
qed

lemma clean_trailing_slash:
  assumes "proper ws" shows "Clean ((if ws = [] then '''' else abs_path ws) @ [slash]) = abs_path ws"
proof (cases "ws = []")
  case False
  have "foldl (clean_step True) [] (split_slash (slash # (join_slash ws @ [slash]))) = ws"
  proof -
    have "join_slash ws @ [slash] = join_slash (ws @ [''''])" using False by (simp add: join_slash_snoc)
    moreover have "split_slash (join_slash (ws @ [''''])) = ws @ ['''']"
      using proper_no_slash [OF assms] by (intro split_join) auto
    ultimately show ?thesis using foldl_clean_proper [OF assms, of True "[]"] by (simp add: clean_step_def)
  qed
  then show ?thesis using False by (simp add: Clean_def abs_path_def)
qed (simp add: Clean_def abs_path_def clean_step_def)

lemma Dir_abs_path [simp]: "proper ws \<Longrightarrow> proper_name w \<Longrightarrow> Dir (abs_path (ws @ [w])) = abs_path ws"
  using clean_trailing_slash [of ws] by (simp add: Dir_def abs_path_snoc path_Split_snoc proper_name_def)

lemma Dir_root [simp]: "Dir (abs_path []) = abs_path []"
  by (simp add: abs_path_def) code_simp

lemma Base_abs_path [simp]: "proper_name w \<Longrightarrow> Base (abs_path (ws @ [w])) = w"
proof -
  assume w: "proper_name w"
  then obtain v c where v: "w = v @ [c]" "c \<noteq> slash" by (cases w rule: rev_cases) (auto simp: proper_name_def)
  then have "dropWhile (\<lambda>c. c = slash) (rev (abs_path (ws @ [w]))) = rev (abs_path (ws @ [w]))" by (simp add: abs_path_snoc)
  moreover have "path_Split (abs_path (ws @ [w])) = ((if ws = [] then '''' else abs_path ws) @ [slash], w)"
    using w by (simp add: abs_path_snoc path_Split_snoc proper_name_def)
  ultimately show ?thesis by (simp add: Base_def abs_path_def)
qed


section \<open>Lengths\<close>

definition names_size :: "string list \<Rightarrow> nat" where
  "names_size ws = sum_list (List.map (\<lambda>w. length w + 1) ws)"

lemma names_size_simps [simp]:
  "names_size [] = 0" "names_size (w # ws) = length w + 1 + names_size ws" "names_size (vs @ ws) = names_size vs + names_size ws"
  by (simp_all add: names_size_def)

lemma names_size_butlast: "names_size (butlast ws) \<le> names_size ws"
  by (induction ws) auto

lemma length_join_slash: "length (join_slash ws) = names_size ws - 1"
  by (induction ws rule: join_slash.induct) auto

lemma names_size_split: "names_size (split_slash p) = length p + 1"
proof (induction p)
  case (Cons c cs)
  then show ?case by (cases "split_slash cs") auto
qed simp

lemma names_size_clean: "names_size (foldl (clean_step r) out ws) \<le> names_size out + names_size ws"
proof (induction ws arbitrary: out)
  case (Cons w ws)
  have "names_size (clean_step r out w) \<le> names_size out + length w + 1"
    using names_size_butlast [of out] by (auto simp: clean_step_def)
  with Cons [of "clean_step r out w"] show ?case by simp
qed simp

lemma length_Clean: "length (Clean p) \<le> max 1 (length p)"
proof (cases p)
  case (Cons c cs)
  show ?thesis
  proof (cases "c = slash")
    case True
    have "names_size (foldl (clean_step True) [] (split_slash cs)) \<le> length p"
      using names_size_clean [of True "[]" "split_slash cs"] names_size_split [of cs] Cons by simp
    then show ?thesis using Cons True by (simp add: Clean_def length_join_slash clean_step_def Let_def)
  next
    case False
    have "names_size (foldl (clean_step False) [] (split_slash p)) \<le> length p + 1"
      using names_size_clean [of False "[]" "split_slash p"] names_size_split [of p] by simp
    then show ?thesis using Cons False by (auto simp: Clean_def length_join_slash Let_def simp del: split_slash.simps)
  qed
qed (simp add: Clean_def)

lemma clean_names_ne: "list_all (\<lambda>w. w \<noteq> []) out \<Longrightarrow> list_all (\<lambda>w. w \<noteq> []) (foldl (clean_step r) out ws)"
proof (induction ws arbitrary: out)
  case (Cons w ws)
  have "list_all (\<lambda>w. w \<noteq> []) (clean_step r out w)"
    using Cons.prems by (auto simp: clean_step_def list_all_iff dest: in_set_butlastD)
  with Cons.IH show ?case by simp
qed simp

lemma join_slash_ne: "ws \<noteq> [] \<Longrightarrow> list_all (\<lambda>w. w \<noteq> []) ws \<Longrightarrow> join_slash ws \<noteq> []"
  by (cases ws rule: join_slash.cases) auto

lemma Clean_ne [simp]: "Clean p \<noteq> []"
  using join_slash_ne clean_names_ne [of "[]" False "split_slash p"] by (auto simp: Clean_def Let_def)

lemma length_NormalizeAsAbsolute: "length (NormalizeAsAbsolute p) \<le> max 1 (length p) + 1"
  using length_Clean [of p] by (auto simp: NormalizeAsAbsolute_def Let_def)

lemma NormalizeAsAbsolute_hd: "NormalizeAsAbsolute p \<noteq> [] \<and> hd (NormalizeAsAbsolute p) = slash"
  by (auto simp: NormalizeAsAbsolute_def Let_def)

lemma NormalizeAsAbsolute_twice:
  assumes q: "q \<noteq> []" "hd q = slash"
  shows "NormalizeAsAbsolute (NormalizeAsAbsolute q) = NormalizeAsAbsolute q" "length (NormalizeAsAbsolute q) \<le> length q"
proof -
  from NormalizeAsAbsolute_rooted [OF q] show "NormalizeAsAbsolute (NormalizeAsAbsolute q) = NormalizeAsAbsolute q" by auto
  obtain ws where "Clean q = slash # join_slash ws" using Clean_rooted [OF q] by (auto simp: abs_path_def)
  then have "NormalizeAsAbsolute q = Clean q" using q(1) by (simp add: NormalizeAsAbsolute_def)
  then show "length (NormalizeAsAbsolute q) \<le> length q" using length_Clean [of q] q(1) by (cases q) auto
qed

lemma NormalizeAsAbsolute_fixed: "NormalizeAsAbsolute p = p \<Longrightarrow> \<exists>ws. proper ws \<and> p = abs_path ws"
proof -
  assume p: "NormalizeAsAbsolute p = p"
  then show ?thesis using NormalizeAsAbsolute_rooted [of p] NormalizeAsAbsolute_hd [of p] by auto
qed

lemma length_abs_path_snoc: "proper_name w \<Longrightarrow> length (abs_path ws) < length (abs_path (ws @ [w]))"
  by (cases w) (auto simp: abs_path_def length_join_slash proper_name_def)

text \<open>The parent directory as the storage computes it.\<close>

definition parent_dir :: "string \<Rightarrow> string" where
  "parent_dir path = (let base = Dir path in NormalizeAsAbsolute (if base = ''.'' then ''/'' else base))"

lemma parent_dir_hd: "parent_dir p \<noteq> []" "hd (parent_dir p) = slash"
  using NormalizeAsAbsolute_hd by (simp_all add: parent_dir_def Let_def)

lemma parent_dir_root [simp]: "parent_dir (abs_path []) = abs_path []"
  by (simp add: abs_path_def) code_simp

lemma parent_dir_abs_path [simp]: "proper ws \<Longrightarrow> proper_name w \<Longrightarrow> parent_dir (abs_path (ws @ [w])) = abs_path ws"
  using NormalizeAsAbsolute_abs_path [of ws] by (simp add: parent_dir_def del: NormalizeAsAbsolute_abs_path) (simp add: abs_path_def)

lemma parent_dir_shorter:
  assumes "NormalizeAsAbsolute p = p" "parent_dir p \<noteq> ''/''"
  shows "length (NormalizeAsAbsolute (parent_dir p)) < length p"
proof -
  from NormalizeAsAbsolute_fixed [OF assms(1)] obtain ws where ws: "proper ws" "p = abs_path ws" by blast
  show ?thesis
  proof (cases ws rule: rev_cases)
    case Nil
    with assms(2) ws parent_dir_root show ?thesis by (simp add: abs_path_def)
  next
    case (snoc vs w)
    with ws length_abs_path_snoc [of w vs] show ?thesis by simp
  qed
qed

lemma length_parent_dir: "length (parent_dir p) \<le> length p + 1"
proof (cases "Dir p = ''.''")
  case True
  then show ?thesis by (simp add: parent_dir_def NormalizeAsAbsolute_def Clean_def clean_step_def)
next
  case False
  have "p \<noteq> []" using False by (auto simp: Dir_def path_Split_def Clean_def)
  moreover have "length (fst (path_Split p)) \<le> length p" by (simp add: path_Split_def Let_def)
  ultimately have "length (Dir p) \<le> length p" using length_Clean [of "fst (path_Split p)"] by (cases p) (auto simp: Dir_def max_def split: if_splits)
  then show ?thesis using length_NormalizeAsAbsolute [of "Dir p"] False \<open>p \<noteq> []\<close> by (cases p) (auto simp: parent_dir_def max_def split: if_splits)
qed

end
