(* ===== verification/MemFiles.thy ===== *)
theory MemFiles
  imports Filepaths Queues
begin

unbundle bit_operations_syntax

text \<open>
  The files of the in-memory filesystem: contents
  (\<open>InMemFileContent\<close> of \<open>internal/globals/fs_ns/mem_storage.go\<close>), open files (\<open>mem_file.go\<close>) and
  the tests of open flags (\<open>flag_utils.go\<close>).

  The bytes of a content are a Go slice, so what lies beyond the length is part of the state. A
  content belongs to a file of the storage; open files refer to it by the number of that file, and
  the size of the storage is shared by all contents. Reading returns the bytes that are copied to
  the buffer of the caller; the time is an argument. \<open>Persist\<close> holds the lock of the content
  before and after, but not during the call of the function that stores the bytes: it is two steps.
\<close>

section \<open>Contents\<close>

datatype fs_error = ErrClosed | ErrNotExist | ErrExist | EOF | NegativeOffset
  | ErrInMemoryStorageLimitExceededDuringWrite | ReadNotSupported | WriteNotSupported
  | DirContainsFiles | ErrCannotOpenDir | NotASymlink | PersistFailed

record InMemFileContent =
  fc_name :: string
  fc_bytes :: "char slice"
  creationTime :: int
  modificationTime :: int
  filesystemMaxStorageSize :: int
  dirty :: bool
  beingPersisted :: bool
  modifiedDuringPersistence :: bool

abbreviation zero_byte :: char where
  "zero_byte \<equiv> CHR 0x00"

definition NewInMemFileContent :: "string \<Rightarrow> string \<Rightarrow> int \<Rightarrow> int \<Rightarrow> InMemFileContent" where
  "NewInMemFileContent name content ctime maxStorage =
     \<lparr>fc_name = name, fc_bytes = slice_of content, creationTime = ctime, modificationTime = ctime,
      filesystemMaxStorageSize = maxStorage, dirty = False, beingPersisted = False, modifiedDuringPersistence = False\<rparr>"

definition ShouldBePersisted :: "InMemFileContent \<Rightarrow> bool" where
  "ShouldBePersisted c \<longleftrightarrow> dirty c \<and> \<not> beingPersisted c"

definition content_Len :: "InMemFileContent \<Rightarrow> nat" where
  "content_Len c = slen (fc_bytes c)"

text \<open>The deferred function of the modifying operations.\<close>

definition mark_modified :: "InMemFileContent \<Rightarrow> InMemFileContent" where
  "mark_modified c = (let c1 = c\<lparr>dirty := True\<rparr> in if beingPersisted c1 then c1\<lparr>modifiedDuringPersistence := True\<rparr> else c1)"

text \<open>\<open>Persist\<close> until the bytes are copied; \<open>None\<close> when there is nothing to persist.\<close>

definition Persist_start :: "InMemFileContent \<Rightarrow> (string \<times> InMemFileContent) option" where
  "Persist_start c = (if \<not> dirty c then None else Some (elems (fc_bytes c), c\<lparr>beingPersisted := True\<rparr>))"

text \<open>The deferred function, with the final error.\<close>

definition Persist_end :: "fs_error option \<Rightarrow> InMemFileContent \<Rightarrow> InMemFileContent" where
  "Persist_end finalErr c =
     (let c1 = (if finalErr = None \<and> \<not> modifiedDuringPersistence c then c\<lparr>dirty := False\<rparr> else c) in
      c1\<lparr>modifiedDuringPersistence := False\<rparr>)"

text \<open>
  \<open>Truncate\<close> with the size of the storage; the result is an error or \<open>None\<close>. A negative size is a
  panic of the slice expression, \<open>Inl ()\<close>.
\<close>

definition content_Truncate :: "growth \<Rightarrow> int \<Rightarrow> int \<Rightarrow> InMemFileContent \<times> int \<Rightarrow> (unit + fs_error option) \<times> InMemFileContent \<times> int" where
  "content_Truncate newcap now size0 s =
     (let (c0, tot) = s; c = c0\<lparr>modificationTime := now\<rparr>; b = fc_bytes c; len = int (slen b) in
      if size0 \<le> len then
        (let total1 = i64 (tot - len) in
         if size0 < 0 then (Inl (), mark_modified c, total1)
         else (Inr None, mark_modified (c\<lparr>fc_bytes := b\<lparr>slen := nat size0\<rparr>\<rparr>), total1))
      else
        (let more = size0 - len; total1 = i64 (tot + more) in
         if total1 > filesystemMaxStorageSize c then (Inr (Some ErrInMemoryStorageLimitExceededDuringWrite), mark_modified c, total1)
         else (let total2 = i64 (total1 - len);
                   b' = (if int (slice_cap b) - len > more then b\<lparr>slen := slen b + nat more\<rparr>
                         else slice_append newcap zero_byte b (replicate (nat more) zero_byte)) in
               (Inr None, mark_modified (c\<lparr>fc_bytes := b'\<rparr>), total2))))"

text \<open>\<open>WriteAt\<close> with the size0 of the storage: the number of bytes written and the error.\<close>

definition content_WriteAt :: "growth \<Rightarrow> int \<Rightarrow> string \<Rightarrow> int \<Rightarrow> InMemFileContent \<times> int \<Rightarrow> (nat \<times> fs_error option) \<times> InMemFileContent \<times> int" where
  "content_WriteAt newcap now p off s =
     (let (c, tot) = s in
      if off < 0 then ((0, Some NegativeOffset), c, tot)
      else
        (let b = fc_bytes c; prev = slen b; diff = off - int prev; total1 = (if diff > 0 then i64 (tot + diff) else tot) in
         if diff > 0 \<and> total1 > filesystemMaxStorageSize c then ((0, Some ErrInMemoryStorageLimitExceededDuringWrite), mark_modified c, total1)
         else
           (let b1 = (if diff > 0 then slice_append newcap zero_byte b (replicate (nat diff) zero_byte) else b);
                c1 = c\<lparr>fc_bytes := b1\<rparr>;
                allocationSize = int (length p) - off;
                total2 = (if allocationSize > 0 then i64 (total1 + allocationSize) else total1) in
            if allocationSize > 0 \<and> total2 > filesystemMaxStorageSize c
            then ((0, Some ErrInMemoryStorageLimitExceededDuringWrite), mark_modified c1, total2)
            else
              (let b2 = slice_append newcap zero_byte (b1\<lparr>slen := nat off\<rparr>) p;
                   b3 = (if slen b2 < prev then b2\<lparr>slen := prev\<rparr> else b2) in
               ((length p, None), mark_modified (c1\<lparr>fc_bytes := b3, modificationTime := now\<rparr>), total2)))))"

text \<open>\<open>ReadAt\<close> into a buffer of \<open>l\<close> bytes: the bytes copied and the error.\<close>

definition content_ReadAt :: "nat \<Rightarrow> int \<Rightarrow> InMemFileContent \<Rightarrow> string \<times> fs_error option" where
  "content_ReadAt l off c =
     (if off < 0 then ('''', Some NegativeOffset)
      else let bytes = elems (fc_bytes c); size0 = int (length bytes) in
        if off \<ge> size0 then ('''', Some EOF)
        else let n = (if off + int l > size0 then size0 - off else int l); btr = sub_list bytes (nat off) (nat (off + n)) in
          (btr, if length btr < l then Some EOF else None))"

section \<open>Bytes after a write and after a truncation\<close>

text \<open>What writing \<open>p\<close> at \<open>off\<close> does to the bytes: a gap is filled with zeros, the rest is kept.\<close>

definition written :: "string \<Rightarrow> nat \<Rightarrow> string \<Rightarrow> string" where
  "written p off xs = take off (xs @ replicate (off - length xs) zero_byte) @ p @ drop (off + length p) xs"

lemma elems_overwrite:
  assumes "slice_wf s" "n \<le> slen s" "t = slice_append f z (s\<lparr>slen := n\<rparr>) p"
  shows "elems (if slen t < slen s then t\<lparr>slen := slen s\<rparr> else t) = take n (elems s) @ p @ drop (n + length p) (elems s)"
    and "slice_wf (if slen t < slen s then t\<lparr>slen := slen s\<rparr> else t)"
  using assms
  by (auto simp: slice_append_def slice_wf_def slice_cap_def elems_def Let_def min_def take_drop neq_Nil_conv)

lemma elems_written:
  assumes "slice_wf b" and b1: "b1 = (if int off - int (slen b) > 0 then slice_append f z b (replicate (nat (int off - int (slen b))) zero_byte) else b)"
    and b2: "b2 = slice_append f z (b1\<lparr>slen := off\<rparr>) p"
  shows "elems (if slen b2 < slen b then b2\<lparr>slen := slen b\<rparr> else b2) = written p off (elems b)"
    and "slice_wf (if slen b2 < slen b then b2\<lparr>slen := slen b\<rparr> else b2)"
proof -
  have b1': "b1 = (if slen b < off then slice_append f z b (replicate (off - slen b) zero_byte) else b)"
    unfolding b1 by (simp add: nat_diff_distrib)
  have wf1: "slice_wf b1" and le: "off \<le> slen b1" and len: "length (elems b) = slen b"
    and el: "elems b1 = elems b @ replicate (off - slen b) zero_byte"
    using assms(1) by (simp_all add: b1')
  have same: "(if slen b2 < slen b then b2\<lparr>slen := slen b\<rparr> else b2) = (if slen b2 < slen b1 then b2\<lparr>slen := slen b1\<rparr> else b2)"
    by (simp add: b2 b1')
  note ov = elems_overwrite [OF wf1 le b2]
  show "elems (if slen b2 < slen b then b2\<lparr>slen := slen b\<rparr> else b2) = written p off (elems b)"
    unfolding same ov(1) using el len by (simp add: written_def)
  show "slice_wf (if slen b2 < slen b then b2\<lparr>slen := slen b\<rparr> else b2)" unfolding same by (rule ov(2))
qed


lemma mark_modified_simps [simp]:
  "fc_bytes (mark_modified c) = fc_bytes c" "dirty (mark_modified c)"
  "beingPersisted (mark_modified c) = beingPersisted c" "filesystemMaxStorageSize (mark_modified c) = filesystemMaxStorageSize c"
  "modifiedDuringPersistence (mark_modified c) = (beingPersisted c \<or> modifiedDuringPersistence c)"
  by (simp_all add: mark_modified_def Let_def)

text \<open>A write that succeeds writes everything, and one that fails leaves the bytes, except that the gap before the offset may be filled.\<close>

lemma content_WriteAt_success:
  assumes wf: "slice_wf (fc_bytes c)" and w: "content_WriteAt newcap now p off (c, tot) = ((n, None), c', tot')"
  shows "0 \<le> off" "n = length p" "slice_wf (fc_bytes c')" "elems (fc_bytes c') = written p (nat off) (elems (fc_bytes c))"
    "dirty c'" "modifiedDuringPersistence c' = (beingPersisted c \<or> modifiedDuringPersistence c)" "beingPersisted c' = beingPersisted c"
proof -
  show off: "0 \<le> off" using w by (auto simp: content_WriteAt_def split: if_splits)
  then have o: "int (nat off) = off" by simp
  note el = elems_written [OF wf refl refl, where off = "nat off" and f = newcap and z = zero_byte and p = p, unfolded o]
  show "n = length p" "slice_wf (fc_bytes c')" "elems (fc_bytes c') = written p (nat off) (elems (fc_bytes c))"
    "dirty c'" "modifiedDuringPersistence c' = (beingPersisted c \<or> modifiedDuringPersistence c)" "beingPersisted c' = beingPersisted c"
    using w off el unfolding content_WriteAt_def Let_def prod.case by (auto split: if_splits)
qed

lemma content_WriteAt_failure:
  assumes wf: "slice_wf (fc_bytes c)" and w: "content_WriteAt newcap now p off (c, tot) = ((n, Some err), c', tot')"
  shows "n = 0" "slice_wf (fc_bytes c')" "\<exists>k. elems (fc_bytes c') = elems (fc_bytes c) @ replicate k zero_byte"
    "off < 0 \<and> c' = c \<or> dirty c' \<and> modifiedDuringPersistence c' = (beingPersisted c \<or> modifiedDuringPersistence c) \<and> beingPersisted c' = beingPersisted c"
  using w wf unfolding content_WriteAt_def Let_def prod.case
  by (auto split: if_splits intro: exI [of _ 0])

lemma content_ReadAt_eq:
  assumes "0 \<le> off" "off < int (length (elems (fc_bytes c)))"
  shows "content_ReadAt l off c =
    (let r = take l (drop (nat off) (elems (fc_bytes c))) in (r, if length r < l then Some EOF else None))"
proof -
  have "sub_list (elems (fc_bytes c)) (nat off) (nat (off + n)) = take (nat n) (drop (nat off) (elems (fc_bytes c)))" if "0 \<le> n" for n
    using assms that by (simp add: sub_list_def nat_add_distrib take_drop add.commute)
  then show ?thesis using assms by (auto simp: content_ReadAt_def Let_def)
qed

lemma drop_written: "drop off (written p off xs) = p @ drop (off + length p) xs"
  by (simp add: written_def)

lemma length_written: "length (written p off xs) = max (off + length p) (length xs)"
  by (auto simp: written_def max_def min_def)

lemma take_written: "n \<le> off \<Longrightarrow> n \<le> length xs \<Longrightarrow> take n (written p off xs) = take n xs"
  by (simp add: written_def min_def)

section \<open>Persisting\<close>

text \<open>
  A content, the bytes stored last, and the calls of \<open>Persist\<close> in progress: the bytes that each has copied, and whether its
  function has stored them. The function runs without the lock, and nothing keeps two calls from overlapping; in the
  relation \<open>persist_step True\<close> a call only starts when no other one is in progress. A function that fails may have stored its bytes.
\<close>

record persist_state =
  ps_content :: InMemFileContent
  ps_total :: int
  ps_stored :: string
  ps_pending :: "(string \<times> bool) list"

inductive persist_step :: "bool \<Rightarrow> persist_state \<Rightarrow> persist_state \<Rightarrow> bool" for alone where
  written: "content_WriteAt newcap now p off (ps_content s, ps_total s) = (res, c, tot) \<Longrightarrow>
    persist_step alone s (s\<lparr>ps_content := c, ps_total := tot\<rparr>)"
| truncate: "content_Truncate newcap now n (ps_content s, ps_total s) = (res, c, tot) \<Longrightarrow>
    persist_step alone s (s\<lparr>ps_content := c, ps_total := tot\<rparr>)"
| start: "(alone \<longrightarrow> ps_pending s = []) \<Longrightarrow> Persist_start (ps_content s) = Some (bytes, c) \<Longrightarrow>
    persist_step alone s (s\<lparr>ps_content := c, ps_pending := (bytes, False) # ps_pending s\<rparr>)"
| store: "ps_pending s = before @ (bytes, False) # after \<Longrightarrow>
    persist_step alone s (s\<lparr>ps_stored := bytes, ps_pending := before @ (bytes, True) # after\<rparr>)"
| finish: "ps_pending s = before @ (bytes, True) # after \<Longrightarrow>
    persist_step alone s (s\<lparr>ps_content := Persist_end None (ps_content s), ps_pending := before @ after\<rparr>)"
| fail: "ps_pending s = before @ (bytes, stored) # after \<Longrightarrow>
    persist_step alone s (s\<lparr>ps_content := Persist_end (Some PersistFailed) (ps_content s), ps_pending := before @ after\<rparr>)"

definition persist_inv :: "persist_state \<Rightarrow> bool" where
  "persist_inv s \<longleftrightarrow> slice_wf (fc_bytes (ps_content s)) \<and> length (ps_pending s) \<le> 1
     \<and> (\<not> dirty (ps_content s) \<longrightarrow> ps_pending s = [] \<and> elems (fc_bytes (ps_content s)) = ps_stored s)
     \<and> (\<forall>bytes stored. ps_pending s = [(bytes, stored)] \<longrightarrow> beingPersisted (ps_content s)
         \<and> (stored \<longrightarrow> ps_stored s = bytes)
         \<and> (\<not> modifiedDuringPersistence (ps_content s) \<longrightarrow> elems (fc_bytes (ps_content s)) = bytes))"

lemma one_pending:
  assumes "persist_inv s" and "ps_pending s = before @ x # after"
  shows "before = []" and "after = []"
  using assms by (auto simp: persist_inv_def Suc_le_eq)

text \<open>What the modifying operations have in common.\<close>

lemma content_modified:
  assumes wf: "slice_wf (fc_bytes c)"
  shows "content_WriteAt newcap now p off (c, tot) = (res, c', tot') \<Longrightarrow>
      c' = c \<or> slice_wf (fc_bytes c') \<and> dirty c' \<and> beingPersisted c' = beingPersisted c \<and> (beingPersisted c \<longrightarrow> modifiedDuringPersistence c')"
    and "content_Truncate newcap now n (c, tot) = (res', c', tot') \<Longrightarrow>
      c' = c \<or> slice_wf (fc_bytes c') \<and> dirty c' \<and> beingPersisted c' = beingPersisted c \<and> (beingPersisted c \<longrightarrow> modifiedDuringPersistence c')"
proof -
  assume w: "content_WriteAt newcap now p off (c, tot) = (res, c', tot')"
  obtain k err where res: "res = (k, err)" by force
  show "c' = c \<or> slice_wf (fc_bytes c') \<and> dirty c' \<and> beingPersisted c' = beingPersisted c \<and> (beingPersisted c \<longrightarrow> modifiedDuringPersistence c')"
  proof (cases err)
    case None
    with content_WriteAt_success [OF wf] w res show ?thesis by simp
  next
    case (Some e)
    note f = content_WriteAt_failure [OF wf w [unfolded res Some]]
    from f(2,4) show ?thesis by blast
  qed
next
  assume t: "content_Truncate newcap now n (c, tot) = (res', c', tot')"
  have "nat n \<le> slen (fc_bytes c) \<Longrightarrow> slice_wf ((fc_bytes c)\<lparr>slen := nat n\<rparr>)" using wf by simp
  moreover have "int (slice_cap (fc_bytes c)) - int (slen (fc_bytes c)) > m \<Longrightarrow> slice_wf ((fc_bytes c)\<lparr>slen := slen (fc_bytes c) + nat m\<rparr>)" for m
    using wf by (auto simp: slice_wf_def slice_cap_def)
  ultimately show "c' = c \<or> slice_wf (fc_bytes c') \<and> dirty c' \<and> beingPersisted c' = beingPersisted c \<and> (beingPersisted c \<longrightarrow> modifiedDuringPersistence c')"
    using t wf by (auto simp: content_Truncate_def Let_def split: if_splits)
qed

lemma persist_inv_step: "persist_step True s s' \<Longrightarrow> persist_inv s \<Longrightarrow> persist_inv s'"
proof (induction rule: persist_step.induct)
  case (written newcap now p off s res c tot)
  then have "slice_wf (fc_bytes (ps_content s))" by (simp add: persist_inv_def)
  from content_modified(1) [OF this written(1)] written(2) show ?case by (elim disjE) (simp_all add: persist_inv_def)
next
  case (truncate newcap now n s res c tot)
  then have "slice_wf (fc_bytes (ps_content s))" by (simp add: persist_inv_def)
  from content_modified(2) [OF this truncate(1)] truncate(2) show ?case by (elim disjE) (simp_all add: persist_inv_def)
next
  case (store s before bytes after)
  then show ?case using one_pending [OF store(2,1)] by (auto simp: persist_inv_def)
next
  case (finish s before bytes after)
  then show ?case using one_pending [OF finish(2,1)] by (auto simp: persist_inv_def Persist_end_def Let_def)
next
  case (fail s before bytes stored after)
  then show ?case using one_pending [OF fail(2,1)] by (auto simp: persist_inv_def Persist_end_def Let_def)
qed (auto simp: persist_inv_def Persist_start_def split: if_splits)

text \<open>
  The flag of a persistence in progress is never reset: after the first call, \<open>ShouldBePersisted\<close>
  is false whatever is written.
\<close>

lemma beingPersisted_stays:
  "persist_step alone s s' \<Longrightarrow> slice_wf (fc_bytes (ps_content s)) \<Longrightarrow> beingPersisted (ps_content s) \<Longrightarrow>
   slice_wf (fc_bytes (ps_content s')) \<and> beingPersisted (ps_content s')"
proof (induction rule: persist_step.induct)
  case (written newcap now p off s res c tot)
  then show ?case using content_modified(1) [OF _ written(1)] by auto
next
  case (truncate newcap now n s res c tot)
  then show ?case using content_modified(2) [OF _ truncate(1)] by auto
qed (auto simp: Persist_start_def Persist_end_def Let_def split: if_splits)

theorem never_persisted_again:
  assumes "(persist_step alone)\<^sup>*\<^sup>* s s'" "slice_wf (fc_bytes (ps_content s))" "beingPersisted (ps_content s)"
  shows "\<not> ShouldBePersisted (ps_content s')"
proof -
  have "slice_wf (fc_bytes (ps_content s')) \<and> beingPersisted (ps_content s')"
    using assms by (induction rule: rtranclp_induct) (auto dest: beingPersisted_stays)
  then show ?thesis by (simp add: ShouldBePersisted_def)
qed

section \<open>Open flags\<close>

definition O_RDONLY :: int where "O_RDONLY = 0"
definition O_WRONLY :: int where "O_WRONLY = 1"
definition O_RDWR :: int where "O_RDWR = 2"
definition O_CREATE :: int where "O_CREATE = 0x40"
definition O_EXCL :: int where "O_EXCL = 0x80"
definition O_TRUNC :: int where "O_TRUNC = 0x200"
definition O_APPEND :: int where "O_APPEND = 0x400"

definition IsCreate :: "int \<Rightarrow> bool" where "IsCreate flag \<longleftrightarrow> flag AND O_CREATE \<noteq> 0"
definition IsExclusive :: "int \<Rightarrow> bool" where "IsExclusive flag \<longleftrightarrow> flag AND O_EXCL \<noteq> 0"
definition IsAppend :: "int \<Rightarrow> bool" where "IsAppend flag \<longleftrightarrow> flag AND O_APPEND \<noteq> 0"
definition IsTruncate :: "int \<Rightarrow> bool" where "IsTruncate flag \<longleftrightarrow> flag AND O_TRUNC \<noteq> 0"
definition IsReadAndWrite :: "int \<Rightarrow> bool" where "IsReadAndWrite flag \<longleftrightarrow> flag AND O_RDWR \<noteq> 0"
definition IsReadOnly :: "int \<Rightarrow> bool" where "IsReadOnly flag \<longleftrightarrow> flag = O_RDONLY"
definition isWriteOnly :: "int \<Rightarrow> bool" where "isWriteOnly flag \<longleftrightarrow> flag AND O_WRONLY \<noteq> 0"

text \<open>Of the mode of a file, the bits that mark directories and symbolic links matter.\<close>

definition ModeDir :: int where "ModeDir = push_bit 31 1"
definition ModeSymlink :: int where "ModeSymlink = push_bit 27 1"

definition IsDir :: "int \<Rightarrow> bool" where "IsDir mode \<longleftrightarrow> mode AND ModeDir \<noteq> 0"
definition isSymlink :: "int \<Rightarrow> bool" where "isSymlink mode \<longleftrightarrow> mode AND ModeSymlink \<noteq> 0"

section \<open>Open files\<close>

record Event =
  ev_path :: string
  writeOp :: bool
  createOp :: bool
  removeOp :: bool
  chmodOp :: bool
  renameOp :: bool
  dateTime :: int

definition zero_event :: Event where
  "zero_event = \<lparr>ev_path = '''', writeOp = False, createOp = False, removeOp = False, chmodOp = False, renameOp = False, dateTime = 0\<rparr>"

definition OLD_EVENT_MIN_AGE :: int where
  "OLD_EVENT_MIN_AGE = max 50000000 (2 * 25000000)"

definition isOldEvent :: "int \<Rightarrow> Event \<Rightarrow> bool" where
  "isOldEvent now v \<longleftrightarrow> dateTime v < now - OLD_EVENT_MIN_AGE"

text \<open>What open files share with their storage: the contents, the size and the event queue.\<close>

record mem_store =
  ms_contents :: "nat \<rightharpoonup> InMemFileContent"
  totalContentSize :: int
  eventQueue :: "Event TSArrayQueue"

definition add_event :: "growth \<Rightarrow> int \<Rightarrow> Event \<Rightarrow> 'x mem_store_scheme \<Rightarrow> 'x mem_store_scheme" where
  "add_event newcap now ev st =
     st\<lparr>eventQueue := ts_EnqueueAutoRemove newcap zero_event ev ((eventQueue st)\<lparr>autoRemoveCondition := Some (isOldEvent now)\<rparr>)\<rparr>"

record InMemfile =
  mf_basename :: string
  originalPath :: string
  absPath :: string
  mf_content :: nat
  mf_flag :: int
  mf_mode :: int
  isClosed :: bool
  position :: int

definition the_content :: "InMemfile \<Rightarrow> 'x mem_store_scheme \<Rightarrow> InMemFileContent" where
  "the_content f st = the (ms_contents st (mf_content f))"

definition put_content :: "InMemfile \<Rightarrow> InMemFileContent \<times> int \<Rightarrow> 'x mem_store_scheme \<Rightarrow> 'x mem_store_scheme" where
  "put_content f ct st = st\<lparr>ms_contents := (ms_contents st)(mf_content f \<mapsto> fst ct), totalContentSize := snd ct\<rparr>"

definition file_ReadAt :: "nat \<Rightarrow> int \<Rightarrow> InMemfile \<Rightarrow> 'x mem_store_scheme \<Rightarrow> string \<times> fs_error option" where
  "file_ReadAt l off f st =
     (if isClosed f then ('''', Some ErrClosed)
      else if \<not> IsReadAndWrite (mf_flag f) \<and> \<not> IsReadOnly (mf_flag f) then ('''', Some ReadNotSupported)
      else content_ReadAt l off (the_content f st))"

definition file_Read :: "nat \<Rightarrow> InMemfile \<Rightarrow> 'x mem_store_scheme \<Rightarrow> (string \<times> fs_error option) \<times> InMemfile" where
  "file_Read l f st =
     (let (bytes, err) = file_ReadAt l (position f) f st in
      ((bytes, if err = Some EOF \<and> bytes \<noteq> '''' then None else err), f\<lparr>position := i64 (position f + int (length bytes))\<rparr>))"

definition SeekStart :: int where "SeekStart = 0"
definition SeekCurrent :: int where "SeekCurrent = 1"
definition SeekEnd :: int where "SeekEnd = 2"

definition file_Seek :: "int \<Rightarrow> int \<Rightarrow> InMemfile \<Rightarrow> 'x mem_store_scheme \<Rightarrow> (int \<times> fs_error option) \<times> InMemfile" where
  "file_Seek offset whence f st =
     (if isClosed f then ((0, Some ErrClosed), f)
      else let pos = (if whence = SeekCurrent then i64 (position f + offset)
                      else if whence = SeekStart then offset
                      else if whence = SeekEnd then i64 (int (content_Len (the_content f st)) + offset)
                      else position f) in
        ((pos, None), f\<lparr>position := pos\<rparr>))"

definition write_event :: "InMemfile \<Rightarrow> InMemFileContent \<Rightarrow> Event" where
  "write_event f c = zero_event\<lparr>ev_path := absPath f, writeOp := True, dateTime := modificationTime c\<rparr>"

definition file_Write :: "growth \<Rightarrow> int \<Rightarrow> string \<Rightarrow> InMemfile \<Rightarrow> 'x mem_store_scheme \<Rightarrow> (nat \<times> fs_error option) \<times> InMemfile \<times> 'x mem_store_scheme" where
  "file_Write newcap now p f st =
     (if isClosed f then ((0, Some ErrClosed), f, st)
      else if \<not> IsReadAndWrite (mf_flag f) \<and> \<not> isWriteOnly (mf_flag f) then ((0, Some WriteNotSupported), f, st)
      else let ((n, err), c, tot) = content_WriteAt newcap now p (position f) (the_content f st, totalContentSize st) in
        ((n, err), f\<lparr>position := i64 (position f + int n)\<rparr>, add_event newcap now (write_event f c) (put_content f (c, tot) st)))"

definition file_Close :: "InMemfile \<Rightarrow> fs_error option \<times> InMemfile" where
  "file_Close f = (if isClosed f then (Some ErrClosed, f) else (None, f\<lparr>isClosed := True\<rparr>))"

definition file_Truncate :: "growth \<Rightarrow> int \<Rightarrow> int \<Rightarrow> InMemfile \<Rightarrow> 'x mem_store_scheme \<Rightarrow> (unit + fs_error option) \<times> 'x mem_store_scheme" where
  "file_Truncate newcap now n f st =
     (let (res, c, tot) = content_Truncate newcap now n (the_content f st, totalContentSize st); st1 = put_content f (c, tot) st in
      (res, if res = Inr None then add_event newcap now (write_event f c) st1 else st1))"

text \<open>The open file that \<open>OpenFile\<close> returns shares the content of the file of the storage.\<close>

definition file_Duplicate :: "growth \<Rightarrow> int \<Rightarrow> string \<Rightarrow> int \<Rightarrow> int \<Rightarrow> InMemfile \<Rightarrow> 'x mem_store_scheme \<Rightarrow> InMemfile \<times> 'x mem_store_scheme" where
  "file_Duplicate newcap now path mode flag f st =
     (let st1 = (if IsTruncate flag then put_content f (snd (content_Truncate newcap now 0 (the_content f st, totalContentSize st))) st else st) in
      (\<lparr>mf_basename = mf_basename f, originalPath = path, absPath = Clean (NormalizeAsAbsolute path), mf_content = mf_content f,
        mf_flag = flag, mf_mode = mode, isClosed = False,
        position = (if IsAppend flag then int (content_Len (the_content f st1)) else 0)\<rparr>, st1))"

definition file_Stat_size :: "InMemfile \<Rightarrow> 'x mem_store_scheme \<Rightarrow> nat" where
  "file_Stat_size f st = content_Len (the_content f st)"


section \<open>Properties\<close>

text \<open>The files whose flags pass the test of \<open>ReadAt\<close>.\<close>

definition readable :: "InMemfile \<Rightarrow> bool" where
  "readable f \<longleftrightarrow> \<not> isClosed f \<and> (IsReadAndWrite (mf_flag f) \<or> IsReadOnly (mf_flag f))"

text \<open>
  (C16) A successful write through an open file writes all its bytes at the position of the file: a
  gap before the position is filled with zeros and every other byte is kept, whatever the capacity
  of the slice and the growth policy. A file that is open for reading (whose flags satisfy the test of \<open>ReadAt\<close>),
  has the same content and stands at the position of the write reads the written bytes; so does the file itself
  after seeking back, if it was opened for reading and writing. The hypotheses: the bytes are not empty and the new position fits in 64 bits.
\<close>

theorem file_write_then_read:
  assumes "slice_wf (fc_bytes (the_content f st))" "p \<noteq> ''''" "in_i64 (position f + int (length p))"
    and w: "file_Write newcap now p f st = ((n, None), f', st')"
  shows "n = length p \<and> position f' = position f + int n \<and>
    elems (fc_bytes (the_content f st')) = written p (nat (position f)) (elems (fc_bytes (the_content f st))) \<and>
    (\<forall>g. readable g \<and> mf_content g = mf_content f \<and> position g = position f \<longrightarrow>
       file_Read (length p) g st' = ((p, None), g\<lparr>position := position f'\<rparr>)) \<and>
    (readable f \<longrightarrow> file_Read (length p) (snd (file_Seek (position f) SeekStart f' st')) st' = ((p, None), f'))"
proof -
  have open_f: "\<not> isClosed f" "IsReadAndWrite (mf_flag f) \<or> isWriteOnly (mf_flag f)" using w by (auto simp: file_Write_def split: if_splits)
  obtain c tot where wc: "content_WriteAt newcap now p (position f) (the_content f st, totalContentSize st) = ((n, None), c, tot)"
    and f': "f' = f\<lparr>position := i64 (position f + int n)\<rparr>" and st': "the_content f st' = c" "the_content f' st' = c"
    using w open_f by (auto simp: file_Write_def the_content_def put_content_def add_event_def split: prod.splits if_splits)
  note s = content_WriteAt_success [OF assms(1) wc]
  have len: "nat (position f) < length (elems (fc_bytes c))" using s(4) assms(2) by (simp add: length_written less_max_iff_disj)
  have r: "content_ReadAt (length p) (position f) c = (p, None)"
    using content_ReadAt_eq [of "position f" c "length p"] s(1,4) len drop_written [of "nat (position f)" p] by (simp add: Let_def)
  have read: "file_Read (length p) g st' = ((p, None), g\<lparr>position := position f'\<rparr>)"
    if "readable g" "mf_content g = mf_content f" "position g = position f" for g
    using that r s(2) st'(1) f' by (auto simp: file_Read_def file_ReadAt_def readable_def the_content_def)
  let ?b = "snd (file_Seek (position f) SeekStart f' st')"
  have b: "?b = f'\<lparr>position := position f\<rparr>"
    using open_f(1) s(1) f' by (auto simp: file_Seek_def SeekStart_def SeekCurrent_def)
  have self: "file_Read (length p) ?b st' = ((p, None), f')" if "readable f"
    using read[of ?b] that f' unfolding b by (simp add: readable_def)
  show ?thesis using s(1,2,4) f' st' assms(3) read self by auto
qed

text \<open>
  (C17) When a content is not dirty the stored bytes are its bytes, however writes and truncations interleave with the steps of
  \<open>Persist\<close> (copying the bytes, storing them, ending with or without an error), provided that one call
  of \<open>Persist\<close> runs at a time: a modification made while the content is being persisted is never
  taken for stored. \<open>overlapping_persists_lose_update\<close> shows that calls that overlap break it.
\<close>

theorem persist_no_lost_update:
  assumes "(persist_step True)\<^sup>*\<^sup>* s s'" "slice_wf (fc_bytes (ps_content s))" "ps_pending s = []"
    and "dirty (ps_content s) \<or> elems (fc_bytes (ps_content s)) = ps_stored s"
  shows "\<not> dirty (ps_content s') \<longrightarrow> ps_stored s' = elems (fc_bytes (ps_content s'))"
proof -
  have "persist_inv s" using assms(2-4) by (auto simp: persist_inv_def)
  with assms(1) have "persist_inv s'" by (induction rule: rtranclp_induct) (auto intro: persist_inv_step)
  then show ?thesis by (simp add: persist_inv_def)
qed

section \<open>Observations\<close>

text \<open>Growing a content within its capacity brings the bytes back that were cut off before.\<close>

definition sample_content :: "string \<Rightarrow> InMemFileContent" where
  "sample_content s = NewInMemFileContent ''f'' s 0 1000"

lemma truncated_bytes_reappear:
  "(case content_Truncate (\<lambda>c n. n) 0 2 (sample_content ''secret'', 6) of
      (res, c, tot) \<Rightarrow> (case content_Truncate (\<lambda>c n. n) 0 4 (c, tot) of
        (res', c', tot') \<Rightarrow> elems (fc_bytes c) = ''se'' \<and> elems (fc_bytes c') = ''secr'' \<and> tot = 0 \<and> tot' = 0))"
  by code_simp

text \<open>A write that is refused is added to the size of the storage.\<close>

lemma refused_write_counted:
  "(case content_WriteAt (\<lambda>c n. n) 0 ''x'' 2000 (sample_content '''', 0) of
      (res, c, tot) \<Rightarrow> res = (0, Some ErrInMemoryStorageLimitExceededDuringWrite) \<and> elems (fc_bytes c) = '''' \<and> tot = 2000)"
  by code_simp

text \<open>Appending is not counted when the offset is at least the length of the data.\<close>

lemma appended_bytes_not_counted:
  "(case content_WriteAt (\<lambda>c n. n) 0 ''ab'' 2 (sample_content ''xy'', 2) of
      (res, c, tot) \<Rightarrow> res = (2, None) \<and> elems (fc_bytes c) = ''xyab'' \<and> tot = 2)"
  by code_simp

section \<open>Witnesses\<close>

definition sample_store :: mem_store where
  "sample_store = \<lparr>ms_contents = [0 \<mapsto> sample_content ''ab''], totalContentSize = 2, eventQueue = NewTSArrayQueueWithConfig None\<rparr>"

definition sample_file :: "int \<Rightarrow> InMemfile" where
  "sample_file pos = \<lparr>mf_basename = ''f'', originalPath = ''/f'', absPath = ''/f'', mf_content = 0, mf_flag = O_RDWR, mf_mode = 0, isClosed = False, position = pos\<rparr>"

theorem file_write_then_read_witness:
  "elems (fc_bytes (the_content (sample_file 3) (snd (snd (file_Write (\<lambda>c n. n) 0 ''xyz'' (sample_file 3) sample_store)))))
     = written ''xyz'' 3 ''ab''"
proof -
  obtain st' where w: "file_Write (\<lambda>c n. n) 0 ''xyz'' (sample_file 3) sample_store = ((3, None), sample_file 6, st')"
    by (simp add: file_Write_def sample_file_def sample_store_def the_content_def IsReadAndWrite_def O_RDWR_def content_WriteAt_def
        sample_content_def NewInMemFileContent_def slice_of_def in_i64_def)
  have wf: "slice_wf (fc_bytes (the_content (sample_file 3) sample_store))"
    by (simp add: sample_file_def sample_store_def the_content_def sample_content_def NewInMemFileContent_def)
  from file_write_then_read [OF wf _ _ w] w show ?thesis
    by (simp add: sample_file_def in_i64_def) (simp add: sample_store_def the_content_def sample_content_def NewInMemFileContent_def)
qed

definition sample_persist :: persist_state where
  "sample_persist = \<lparr>ps_content = sample_content ''ab'', ps_total = 2, ps_stored = ''ab'', ps_pending = []\<rparr>"

text \<open>The content after writing \<open>x\<close> over its first byte, and after writing \<open>y\<close> there while the first version is being persisted.\<close>

definition content_x :: InMemFileContent where
  "content_x = fst (snd (content_WriteAt (\<lambda>c n. n) 0 ''x'' 0 (sample_content ''ab'', 2)))"

definition content_y :: InMemFileContent where
  "content_y = fst (snd (content_WriteAt (\<lambda>c n. n) 0 ''y'' 0 (content_x\<lparr>beingPersisted := True\<rparr>, 3)))"

lemma sample_writes:
  "content_WriteAt (\<lambda>c n. n) 0 ''x'' 0 (sample_content ''ab'', 2) = ((1, None), content_x, 3)"
  "content_WriteAt (\<lambda>c n. n) 0 ''y'' 0 (content_x\<lparr>beingPersisted := True\<rparr>, 3) = ((1, None), content_y, 4)"
  "Persist_start content_x = Some (''xb'', content_x\<lparr>beingPersisted := True\<rparr>)"
  "Persist_start content_y = Some (''yb'', content_y)"
  by code_simp+

lemma sample_started:
  defines "s \<equiv> \<lparr>ps_content = content_x\<lparr>beingPersisted := True\<rparr>, ps_total = 3, ps_stored = ''ab'', ps_pending = [(''xb'', False)]\<rparr>"
  shows "(persist_step alone)\<^sup>*\<^sup>* sample_persist s"
proof -
  let ?s1 = "\<lparr>ps_content = content_x, ps_total = 3, ps_stored = ''ab'', ps_pending = []\<rparr>"
  have "persist_step alone sample_persist ?s1"
    using written [of "\<lambda>c n. n" 0 "''x''" 0 sample_persist "(1, None)" content_x 3 alone] sample_writes(1) by (simp add: sample_persist_def)
  moreover have "persist_step alone ?s1 s"
    using start [of alone ?s1 "''xb''" "content_x\<lparr>beingPersisted := True\<rparr>"] sample_writes(3) by (simp add: s_def)
  ultimately show ?thesis by (meson r_into_rtranclp rtranclp_trans)
qed

theorem persist_no_lost_update_witness:
  "\<exists>s'. (persist_step True)\<^sup>*\<^sup>* sample_persist s' \<and> \<not> dirty (ps_content s') \<and> ps_stored s' = ''xb'' \<and> elems (fc_bytes (ps_content s')) = ''xb''"
proof -
  let ?c = "content_x\<lparr>beingPersisted := True\<rparr>"
  let ?s2 = "\<lparr>ps_content = ?c, ps_total = 3, ps_stored = ''ab'', ps_pending = [(''xb'', False)]\<rparr>"
  let ?s3 = "\<lparr>ps_content = ?c, ps_total = 3, ps_stored = ''xb'', ps_pending = [(''xb'', True)]\<rparr>"
  let ?s4 = "\<lparr>ps_content = Persist_end None ?c, ps_total = 3, ps_stored = ''xb'', ps_pending = []\<rparr>"
  have "persist_step True ?s2 ?s3" using store [of ?s2 "[]" "''xb''" "[]" True] by simp
  moreover have "persist_step True ?s3 ?s4" using finish [of ?s3 "[]" "''xb''" "[]" True] by simp
  ultimately have run: "(persist_step True)\<^sup>*\<^sup>* sample_persist ?s4" using sample_started [of True] by (meson rtranclp.rtrancl_into_rtrancl)
  have clean: "\<not> dirty (Persist_end None ?c)" by code_simp
  from persist_no_lost_update [OF run] clean run show ?thesis
    by (intro exI [of _ ?s4]) (simp add: sample_persist_def sample_content_def NewInMemFileContent_def)
qed

text \<open>
  Two calls of \<open>Persist\<close> that overlap: the first one has copied the content, the content is modified, the second one copies, stores and ends, which
  forgets that the content was modified while the first one runs; the first one stores its old copy and ends. The content is
  not dirty, but the old copy is stored.
\<close>

theorem overlapping_persists_lose_update:
  "\<exists>s'. (persist_step False)\<^sup>*\<^sup>* sample_persist s' \<and> \<not> dirty (ps_content s') \<and> ps_pending s' = [] \<and>
     ps_stored s' = ''xb'' \<and> elems (fc_bytes (ps_content s')) = ''yb''"
proof -
  let ?s2 = "\<lparr>ps_content = content_x\<lparr>beingPersisted := True\<rparr>, ps_total = 3, ps_stored = ''ab'', ps_pending = [(''xb'', False)]\<rparr>"
  let ?s3 = "\<lparr>ps_content = content_y, ps_total = 4, ps_stored = ''ab'', ps_pending = [(''xb'', False)]\<rparr>"
  let ?s4 = "\<lparr>ps_content = content_y, ps_total = 4, ps_stored = ''ab'', ps_pending = [(''yb'', False), (''xb'', False)]\<rparr>"
  let ?s5 = "\<lparr>ps_content = content_y, ps_total = 4, ps_stored = ''yb'', ps_pending = [(''yb'', True), (''xb'', False)]\<rparr>"
  let ?s6 = "\<lparr>ps_content = Persist_end None content_y, ps_total = 4, ps_stored = ''yb'', ps_pending = [(''xb'', False)]\<rparr>"
  let ?s7 = "\<lparr>ps_content = Persist_end None content_y, ps_total = 4, ps_stored = ''xb'', ps_pending = [(''xb'', True)]\<rparr>"
  let ?s8 = "\<lparr>ps_content = Persist_end None (Persist_end None content_y), ps_total = 4, ps_stored = ''xb'', ps_pending = []\<rparr>"
  have "persist_step False ?s2 ?s3"
    using written [of "\<lambda>c n. n" 0 "''y''" 0 ?s2 "(1, None)" content_y 4 False] sample_writes(2) by simp
  moreover have "persist_step False ?s3 ?s4" using start [of False ?s3 "''yb''" content_y] sample_writes(4) by simp
  moreover have "persist_step False ?s4 ?s5" using store [of ?s4 "[]" "''yb''" "[(''xb'', False)]" False] by simp
  moreover have "persist_step False ?s5 ?s6" using finish [of ?s5 "[]" "''yb''" "[(''xb'', False)]" False] by simp
  moreover have "persist_step False ?s6 ?s7" using store [of ?s6 "[]" "''xb''" "[]" False] by simp
  moreover have "persist_step False ?s7 ?s8" using finish [of ?s7 "[]" "''xb''" "[]" False] by simp
  ultimately have s8: "(persist_step False)\<^sup>*\<^sup>* sample_persist ?s8"
    using sample_started [of False] by (meson rtranclp.rtrancl_into_rtrancl)
  have "\<not> dirty (Persist_end None (Persist_end None content_y))" "elems (fc_bytes (Persist_end None (Persist_end None content_y))) = ''yb''"
    by code_simp+
  then show ?thesis using s8 by (intro exI [of _ ?s8]) simp
qed

end
