(* ===== verification/MemStorage.thy ===== *)
theory MemStorage
  imports MemFiles "HOL-Library.AList" "HOL-Library.List_Lexorder" "HOL-Library.Char_ord"
begin

text \<open>
  The storage of the in-memory filesystem (\<open>internal/globals/fs_ns/mem_storage.go\<close>) and the
  filesystem on top of it (\<open>mem_fs.go\<close>).

  The Go maps are association lists: from normalized paths to files, and from the path of a
  directory to the map of its children, where a map can be nil (\<open>None\<close>). A file is an object with
  a number, which the two maps share; the number is also the one of its content. The order in
  which \<open>Rename\<close> ranges over the map of files is an argument. The results are values, errors or a
  panic, with the state at that moment.
\<close>

datatype 'a fs_outcome = Returns 'a | Fails fs_error | Panics

record inMemStorage = mem_store +
  st_files :: "(string \<times> nat) list"
  st_children :: "(string \<times> (string \<times> nat) list option) list"
  st_objects :: "nat \<rightharpoonup> InMemfile"
  st_next :: nat
  maxStorageSize :: int

definition st_object :: "inMemStorage \<Rightarrow> nat \<Rightarrow> InMemfile" where
  "st_object s i = the (st_objects s i)"

definition set_object :: "nat \<Rightarrow> InMemfile \<Rightarrow> inMemStorage \<Rightarrow> inMemStorage" where
  "set_object i f s = s\<lparr>st_objects := (st_objects s)(i \<mapsto> f)\<rparr>"

definition touch :: "int \<Rightarrow> nat \<Rightarrow> inMemStorage \<Rightarrow> inMemStorage" where
  "touch now i s = s\<lparr>ms_contents := (ms_contents s)(i \<mapsto> (the (ms_contents s i))\<lparr>modificationTime := now\<rparr>)\<rparr>"

definition storage_hasNoLock :: "string \<Rightarrow> inMemStorage \<Rightarrow> bool" where
  "storage_hasNoLock path s \<longleftrightarrow> map_of (st_files s) (NormalizeAsAbsolute path) \<noteq> None"

definition getNoLock :: "string \<Rightarrow> inMemStorage \<Rightarrow> nat option \<times> inMemStorage" where
  "getNoLock path0 s =
     (let path = NormalizeAsAbsolute path0 in
      if \<not> storage_hasNoLock path s then (None, s)
      else case map_of (st_files s) path of
        None \<Rightarrow> (None, s)
      | Some i \<Rightarrow> (Some i, set_object i ((st_object s i)\<lparr>isClosed := False\<rparr>) s))"

definition Perm :: "int \<Rightarrow> int" where
  "Perm mode = mode AND 511"

definition append_slash :: "string \<Rightarrow> string" where
  "append_slash p = (if last p \<noteq> slash then p @ [slash] else p)"

text \<open>\<open>DirPathFrom\<close> and \<open>NonDirPathFrom\<close> of an absolute path.\<close>

definition DirPathFrom :: "string \<Rightarrow> string" where
  "DirPathFrom p = (let q = Clean p in if last q \<noteq> slash then q @ [slash] else q)"

definition NonDirPathFrom :: "string \<Rightarrow> string" where
  "NonDirPathFrom p = (let q = Clean p in if last q = slash then butlast q else q)"

text \<open>The event of a creation, a removal or a renaming.\<close>

definition entry_event :: "InMemfile \<Rightarrow> int \<Rightarrow> Event \<Rightarrow> Event" where
  "entry_event f now ev = ev\<lparr>ev_path := (if IsDir (mf_mode f) then append_slash (absPath f) else absPath f), dateTime := now\<rparr>"

text \<open>The new object of \<open>newNoLock\<close> with its content, added to the files.\<close>

definition new_file :: "int \<Rightarrow> string \<Rightarrow> string \<Rightarrow> int \<Rightarrow> int \<Rightarrow> inMemStorage \<Rightarrow> nat \<times> InMemfile \<times> inMemStorage" where
  "new_file now path0 path mode flag s =
     (let name = Base path; i = st_next s;
          f = \<lparr>mf_basename = name, originalPath = path0, absPath = (if IsDir mode then DirPathFrom path else NonDirPathFrom path),
               mf_content = i, mf_flag = flag, mf_mode = mode, isClosed = False, position = 0\<rparr>;
          c = NewInMemFileContent name '''' now (maxStorageSize s) in
      (i, f, s\<lparr>ms_contents := (ms_contents s)(i \<mapsto> c), st_objects := (st_objects s)(i \<mapsto> f),
               st_files := AList.update path i (st_files s), st_next := Suc i\<rparr>))"

text \<open>The recursion of the creation of parent directories ends: the paths get shorter once they are normalized.\<close>

definition parent_rank :: "string \<Rightarrow> nat" where
  "parent_rank p = (if NormalizeAsAbsolute p = p then 2 * length p else 2 * length p + 6)"

lemma parent_rank_less:
  assumes "parent_dir p \<noteq> ''/''"
  shows "Suc (parent_rank (NormalizeAsAbsolute (parent_dir p))) < parent_rank p"
proof -
  note base = NormalizeAsAbsolute_twice [OF parent_dir_hd, of p]
  show ?thesis
  proof (cases "NormalizeAsAbsolute p = p")
    case True
    from parent_dir_shorter [OF True assms] True base(1) show ?thesis by (simp add: parent_rank_def)
  next
    case False
    with base length_parent_dir [of p] show ?thesis by (simp add: parent_rank_def)
  qed
qed

text \<open>\<open>newNoLock\<close> and \<open>createUpdateParentNoLock\<close> call each other, from a file to its parent directories.\<close>

function newNoLock :: "growth \<Rightarrow> int \<Rightarrow> string \<Rightarrow> int \<Rightarrow> int \<Rightarrow> bool \<Rightarrow> inMemStorage \<Rightarrow> nat option fs_outcome \<times> inMemStorage"
  and createUpdateParentNoLock :: "growth \<Rightarrow> int \<Rightarrow> string \<Rightarrow> int \<Rightarrow> nat \<Rightarrow> inMemStorage \<Rightarrow> unit fs_outcome \<times> inMemStorage"
where
  "newNoLock newcap now path0 mode flag ignoreEvent s =
     (let path = NormalizeAsAbsolute path0 in
      if storage_hasNoLock path s then
        (case getNoLock path s of
           (None, s1) \<Rightarrow> (Panics, s1)
         | (Some i, s1) \<Rightarrow> if \<not> IsDir (mf_mode (st_object s1 i)) then (Fails ErrExist, s1) else (Returns None, s1))
      else
        (let (i, f, s1) = new_file now path0 path mode flag s in
         case createUpdateParentNoLock newcap now path mode i s1 of
           (Panics, s2) \<Rightarrow> (Panics, s2)
         | (_, s2) \<Rightarrow>
             (Returns (Some i), if ignoreEvent then s2 else add_event newcap now (entry_event f now (zero_event\<lparr>createOp := True\<rparr>)) s2)))"
| "createUpdateParentNoLock newcap now path mode i s =
     (let base = parent_dir path;
          s1 = (case map_of (st_files s) base of Some d \<Rightarrow> touch now d s | None \<Rightarrow> s) in
      if originalPath (st_object s1 i) = ''/'' then (Returns (), s1)
      else
        case (if base \<noteq> ''/'' then newNoLock newcap now base (Perm mode OR ModeDir) 0 True s1 else (Returns None, s1)) of
          (Panics, s2) \<Rightarrow> (Panics, s2)
        | (Fails err, s2) \<Rightarrow> (Fails err, s2)
        | (Returns _, s2) \<Rightarrow>
            (case map_of (st_children s2) base of
               Some None \<Rightarrow> (Panics, s2)
             | children \<Rightarrow>
                 (let m = (case children of Some (Some m) \<Rightarrow> m | _ \<Rightarrow> []) in
                  (Returns (), s2\<lparr>st_children := AList.update base (Some (AList.update (mf_basename (st_object s2 i)) i m)) (st_children s2)\<rparr>))))"
  by pat_completeness auto

termination
proof (relation "measure (\<lambda>x. case x of Inl (_, _, path, _) \<Rightarrow> Suc (parent_rank (NormalizeAsAbsolute path)) | Inr (_, _, path, _) \<Rightarrow> parent_rank path)", goal_cases)
  case 3
  then show ?case using parent_rank_less by simp
qed simp_all


declare newNoLock.simps [simp del] createUpdateParentNoLock.simps [simp del]

definition storage_New :: "growth \<Rightarrow> int \<Rightarrow> string \<Rightarrow> int \<Rightarrow> int \<Rightarrow> inMemStorage \<Rightarrow> nat option fs_outcome \<times> inMemStorage" where
  "storage_New newcap now path mode flag s = newNoLock newcap now path mode flag False s"

definition TRUE_MAX_IN_MEM_STORAGE :: int where
  "TRUE_MAX_IN_MEM_STORAGE = 100000000"

text \<open>\<open>None\<close> is a panic.\<close>

definition newInMemoryStorage :: "growth \<Rightarrow> int \<Rightarrow> int \<Rightarrow> inMemStorage option" where
  "newInMemoryStorage newcap now maxSize =
     (if maxSize \<le> 50 \<or> maxSize > TRUE_MAX_IN_MEM_STORAGE then None
      else let s = \<lparr>ms_contents = Map.empty, totalContentSize = 0, eventQueue = NewTSArrayQueueWithConfig None,
                    st_files = [], st_children = [], st_objects = Map.empty, st_next = 0, maxStorageSize = maxSize\<rparr> in
        case newNoLock newcap now ''/'' (448 OR ModeDir) 0 True s of
          (Returns (Some i), s1) \<Rightarrow> Some (set_object i (snd (file_Close (st_object s1 i))) s1)
        | _ \<Rightarrow> None)"

definition storage_Has :: "string \<Rightarrow> inMemStorage \<Rightarrow> bool" where
  "storage_Has path s = storage_hasNoLock path s"

definition storage_Get :: "string \<Rightarrow> inMemStorage \<Rightarrow> nat option \<times> inMemStorage" where
  "storage_Get path s = getNoLock path s"

text \<open>The files of a directory, in the order of the association list.\<close>

definition storage_Children :: "string \<Rightarrow> inMemStorage \<Rightarrow> nat list" where
  "storage_Children path s =
     (case map_of (st_children s) (NormalizeAsAbsolute path) of Some (Some m) \<Rightarrow> List.map snd m | _ \<Rightarrow> [])"

text \<open>\<open>delete(s.children[dir], name)\<close>, which does nothing on a missing or nil map.\<close>

definition delete_child :: "string \<Rightarrow> string \<Rightarrow> inMemStorage \<Rightarrow> inMemStorage" where
  "delete_child dir name s =
     (case map_of (st_children s) dir of
        Some (Some m) \<Rightarrow> s\<lparr>st_children := AList.update dir (Some (AList.delete name m)) (st_children s)\<rparr>
      | _ \<Rightarrow> s)"

text \<open>
  \<open>moveNoLock\<close>: during the call the keys \<open>from\<close> and \<open>to\<close> share one map of children. The deferred
  functions run also after a panic. A missing file is a nil dereference before any of this.
\<close>

definition moveNoLock :: "growth \<Rightarrow> int \<Rightarrow> string \<Rightarrow> string \<Rightarrow> bool \<Rightarrow> inMemStorage \<Rightarrow> unit fs_outcome \<times> inMemStorage" where
  "moveNoLock newcap now from0 to ignoreEvent s =
     (case map_of (st_files s) from0 of
        None \<Rightarrow> (Panics, s)
      | Some i \<Rightarrow>
          (let f = (st_object s i)\<lparr>mf_basename := Base to, absPath := Clean to, originalPath := to\<rparr>;
               children = (case map_of (st_children s) from0 of Some c \<Rightarrow> c | None \<Rightarrow> None);
               s1 = (set_object i f s)\<lparr>st_files := AList.update to i (st_files s), st_children := AList.update to children (st_children s)\<rparr>;
               (res, s2) = createUpdateParentNoLock newcap now to 420 i s1;
               s3 = (case (children, map_of (st_children s2) from0) of
                       (Some _, Some c) \<Rightarrow> s2\<lparr>st_children := AList.update to c (st_children s2)\<rparr>
                     | _ \<Rightarrow> s2);
               s4 = s3\<lparr>st_children := AList.delete from0 (st_children s3), st_files := AList.delete from0 (st_files s3)\<rparr>;
               s5 = delete_child (Dir from0) (Base from0) s4 in
           (res, if ignoreEvent then s5 else add_event newcap now (entry_event f now (zero_event\<lparr>renameOp := True\<rparr>)) s5)))"

fun move_all :: "growth \<Rightarrow> int \<Rightarrow> bool \<Rightarrow> (string \<times> string) list \<Rightarrow> inMemStorage \<Rightarrow> unit fs_outcome \<times> inMemStorage" where
  "move_all newcap now ignoreEvent [] s = (Returns (), s)"
| "move_all newcap now ignoreEvent ((opFrom, opTo) # ops) s =
     (case moveNoLock newcap now opFrom opTo ignoreEvent s of
        (Returns _, s1) \<Rightarrow> move_all newcap now True ops s1
      | (res, s1) \<Rightarrow> (res, s1))"

text \<open>\<open>order\<close> is the order in which the loop ranges over the paths of the files.\<close>

definition storage_Rename :: "growth \<Rightarrow> int \<Rightarrow> string list \<Rightarrow> string \<Rightarrow> string \<Rightarrow> inMemStorage \<Rightarrow> unit fs_outcome \<times> inMemStorage" where
  "storage_Rename newcap now order from0 to0 s =
     (let from1 = NormalizeAsAbsolute from0; to = NormalizeAsAbsolute to0 in
      if \<not> storage_hasNoLock from1 s then (Fails ErrNotExist, s)
      else move_all newcap now False
        ((from1, to) # List.map (\<lambda>pathFrom. (pathFrom, NormalizeAsAbsolute (Join to (Rel from1 pathFrom))))
                     (filter (\<lambda>pathFrom. pathFrom \<noteq> from1 \<and> prefix from1 pathFrom) order)) s)"

definition storage_Remove :: "growth \<Rightarrow> int \<Rightarrow> string \<Rightarrow> inMemStorage \<Rightarrow> unit fs_outcome \<times> inMemStorage" where
  "storage_Remove newcap now path0 s =
     (let path = NormalizeAsAbsolute path0 in
      case getNoLock path s of
        (None, s1) \<Rightarrow> (Fails ErrNotExist, s1)
      | (Some i, s1) \<Rightarrow>
          (let f = st_object s1 i; isDir = IsDir (mf_mode f) in
           if isDir \<and> (case map_of (st_children s1) path of Some (Some m) \<Rightarrow> m \<noteq> [] | _ \<Rightarrow> False) then (Fails DirContainsFiles, s1)
           else
             (let (base0, file) = path_Split path; base = Clean base0 in
              case map_of (st_files s1) base of
                None \<Rightarrow> (Panics, s1)
              | Some d \<Rightarrow>
                  (let s2 = delete_child base file (touch now d s1);
                       s3 = s2\<lparr>st_files := AList.delete path (st_files s2)\<rparr> in
                   (Returns (), add_event newcap now (entry_event f now (zero_event\<lparr>removeOp := True\<rparr>)) s3)))))"

section \<open>The filesystem\<close>

text \<open>
  A symbolic link is a file whose bytes are the target. \<open>None\<close> is the panic on an empty path.
\<close>

definition resolveLink :: "string \<Rightarrow> nat \<Rightarrow> inMemStorage \<Rightarrow> (string \<times> bool) option" where
  "resolveLink fullpath i s =
     (if \<not> isSymlink (mf_mode (st_object s i)) then Some (fullpath, False)
      else if fullpath = '''' then None
      else let target = elems (fc_bytes (the (ms_contents s i))) in
        Some (if hd fullpath \<noteq> slash then Join (Dir fullpath) target else target, True))"

text \<open>
  \<open>OpenFile\<close> follows links by calling itself; the first argument bounds the number of calls and
  \<open>None\<close> means that the bound was not enough.
\<close>

fun OpenFile :: "nat \<Rightarrow> growth \<Rightarrow> int \<Rightarrow> string \<Rightarrow> int \<Rightarrow> int \<Rightarrow> inMemStorage \<Rightarrow> (InMemfile fs_outcome \<times> inMemStorage) option" where
  "OpenFile 0 newcap now filename flag perm s = None"
| "OpenFile (Suc n) newcap now filename flag perm s =
     (case storage_Get filename s of
        (None, s1) \<Rightarrow>
          (if \<not> IsCreate flag then Some (Fails ErrNotExist, s1)
           else case storage_New newcap now filename perm flag s1 of
             (Panics, s2) \<Rightarrow> Some (Panics, s2)
           | (Fails err, s2) \<Rightarrow> Some (Fails err, s2)
           | (Returns None, s2) \<Rightarrow> Some (Panics, s2)
           | (Returns (Some i), s2) \<Rightarrow>
               if IsDir (mf_mode (st_object s2 i)) then Some (Fails ErrCannotOpenDir, s2)
               else (let (h, s3) = file_Duplicate newcap now filename perm flag (st_object s2 i) s2 in Some (Returns h, s3)))
      | (Some i, s1) \<Rightarrow>
          (if IsExclusive flag then Some (Fails ErrExist, s1)
           else case resolveLink filename i s1 of
             None \<Rightarrow> Some (Panics, s1)
           | Some (target, True) \<Rightarrow> OpenFile n newcap now target flag perm s1
           | Some (_, False) \<Rightarrow>
               if IsDir (mf_mode (st_object s1 i)) then Some (Fails ErrCannotOpenDir, s1)
               else (let (h, s2) = file_Duplicate newcap now filename perm flag (st_object s1 i) s1 in Some (Returns h, s2))))"

definition fs_Create :: "nat \<Rightarrow> growth \<Rightarrow> int \<Rightarrow> string \<Rightarrow> inMemStorage \<Rightarrow> (InMemfile fs_outcome \<times> inMemStorage) option" where
  "fs_Create n newcap now filename s = OpenFile n newcap now filename (O_RDWR OR O_CREATE OR O_TRUNC) 384 s"

definition fs_Open :: "nat \<Rightarrow> growth \<Rightarrow> int \<Rightarrow> string \<Rightarrow> inMemStorage \<Rightarrow> (InMemfile fs_outcome \<times> inMemStorage) option" where
  "fs_Open n newcap now filename s = OpenFile n newcap now filename O_RDONLY 0 s"

definition fs_MkdirAll :: "growth \<Rightarrow> int \<Rightarrow> string \<Rightarrow> int \<Rightarrow> inMemStorage \<Rightarrow> unit fs_outcome \<times> inMemStorage" where
  "fs_MkdirAll newcap now path perm s =
     (case storage_New newcap now path (perm OR ModeDir) 0 s of
        (Returns _, s1) \<Rightarrow> (Returns (), s1) | (Fails err, s1) \<Rightarrow> (Fails err, s1) | (Panics, s1) \<Rightarrow> (Panics, s1))"

text \<open>\<open>Stat\<close> gives the file the links lead to, under the base name of the path.\<close>

fun fs_Stat :: "nat \<Rightarrow> string \<Rightarrow> inMemStorage \<Rightarrow> ((nat \<times> string) fs_outcome \<times> inMemStorage) option" where
  "fs_Stat 0 filename s = None"
| "fs_Stat (Suc n) filename s =
     (case storage_Get filename s of
        (None, s1) \<Rightarrow> Some (Fails ErrNotExist, s1)
      | (Some i, s1) \<Rightarrow>
          (case resolveLink filename i s1 of
             None \<Rightarrow> Some (Panics, s1)
           | Some (_, False) \<Rightarrow> Some (Returns (i, Base filename), s1)
           | Some (target, True) \<Rightarrow>
               (case fs_Stat n target s1 of
                  None \<Rightarrow> None
                | Some (Returns (j, _), s2) \<Rightarrow> Some (Returns (j, Base filename), s2)
                | Some (res, s2) \<Rightarrow> Some (res, s2))))"

definition fs_Lstat :: "string \<Rightarrow> inMemStorage \<Rightarrow> (nat \<times> string) fs_outcome \<times> inMemStorage" where
  "fs_Lstat filename s =
     (case storage_Get filename s of
        (None, s1) \<Rightarrow> (Fails ErrNotExist, s1)
      | (Some i, s1) \<Rightarrow> (Returns (i, mf_basename (st_object s1 i)), s1))"

text \<open>The entries of a directory, sorted by name.\<close>

fun fs_ReadDir :: "nat \<Rightarrow> string \<Rightarrow> inMemStorage \<Rightarrow> (nat list fs_outcome \<times> inMemStorage) option" where
  "fs_ReadDir 0 path s = None"
| "fs_ReadDir (Suc n) path s =
     (let (found, s1) = storage_Get path s;
          entries = sort_key (\<lambda>i. mf_basename (st_object s1 i)) (storage_Children path s1) in
      case found of
        None \<Rightarrow> Some (Returns entries, s1)
      | Some i \<Rightarrow>
          (case resolveLink path i s1 of
             None \<Rightarrow> Some (Panics, s1)
           | Some (target, True) \<Rightarrow> fs_ReadDir n target s1
           | Some (_, False) \<Rightarrow> Some (Returns entries, s1)))"

definition fs_Readlink :: "string \<Rightarrow> inMemStorage \<Rightarrow> string fs_outcome \<times> inMemStorage" where
  "fs_Readlink link s =
     (case storage_Get link s of
        (None, s1) \<Rightarrow> (Fails ErrNotExist, s1)
      | (Some i, s1) \<Rightarrow>
          if \<not> isSymlink (mf_mode (st_object s1 i)) then (Fails NotASymlink, s1)
          else (Returns (elems (fc_bytes (the (ms_contents s1 i)))), s1))"

definition fs_Rename :: "growth \<Rightarrow> int \<Rightarrow> string list \<Rightarrow> string \<Rightarrow> string \<Rightarrow> inMemStorage \<Rightarrow> unit fs_outcome \<times> inMemStorage" where
  "fs_Rename newcap now order from0 to0 s = storage_Rename newcap now order from0 to0 s"

definition fs_Remove :: "growth \<Rightarrow> int \<Rightarrow> string \<Rightarrow> inMemStorage \<Rightarrow> unit fs_outcome \<times> inMemStorage" where
  "fs_Remove newcap now filename s = storage_Remove newcap now filename s"


section \<open>The tree of a storage\<close>

text \<open>
  Abstractly a filesystem is a partial function from lists of names to \<open>True\<close> for a directory and
  \<open>False\<close> for a regular file.
\<close>

type_synonym fs_tree = "string list \<rightharpoonup> bool"

definition tree_create :: "string list \<Rightarrow> bool \<Rightarrow> fs_tree \<Rightarrow> fs_tree" where
  "tree_create ws d t =
     (\<lambda>vs. case t vs of Some b \<Rightarrow> Some b | None \<Rightarrow> if vs = ws then Some d else if strict_prefix vs ws then Some True else None)"

definition storage_tree :: "inMemStorage \<Rightarrow> fs_tree" where
  "storage_tree s ws = (if proper ws then map_option (\<lambda>i. IsDir (mf_mode (st_object s i))) (map_of (st_files s) (abs_path ws)) else None)"

text \<open>
  The invariant of the storage, up to a set of files that are not yet entered in their directory:
  paths are normal forms, the root is a directory, every other file is in a directory and is one of
  its children, and the children of a directory are files.
\<close>

definition file_entry_ok :: "inMemStorage \<Rightarrow> string \<Rightarrow> nat \<Rightarrow> bool" where
  "file_entry_ok s p i \<longleftrightarrow> (\<exists>ws f. proper ws \<and> p = abs_path ws \<and> st_objects s i = Some f \<and> (ws \<noteq> [] \<longrightarrow> mf_basename f = last ws \<and> originalPath f \<noteq> ''/'')
     \<and> i < st_next s)"

definition in_directory :: "inMemStorage \<Rightarrow> string list \<Rightarrow> string \<Rightarrow> nat \<Rightarrow> bool" where
  "in_directory s ws w i \<longleftrightarrow> storage_tree s ws = Some True \<and> (\<exists>m. map_of (st_children s) (abs_path ws) = Some (Some m) \<and> map_of m w = Some i)"

definition children_ok :: "inMemStorage \<Rightarrow> string \<Rightarrow> (string \<times> nat) list option \<Rightarrow> bool" where
  "children_ok s p c \<longleftrightarrow> (\<exists>ws m. proper ws \<and> p = abs_path ws \<and> c = Some m \<and> distinct (List.map fst m)
     \<and> (\<forall>w i. map_of m w = Some i \<longrightarrow> proper_name w \<and> map_of (st_files s) (abs_path (ws @ [w])) = Some i))"

definition tree_inv :: "string list set \<Rightarrow> inMemStorage \<Rightarrow> bool" where
  "tree_inv P s \<longleftrightarrow>
     (\<forall>p i. map_of (st_files s) p = Some i \<longrightarrow> file_entry_ok s p i)
     \<and> storage_tree s [] = Some True
     \<and> (\<forall>ws w i. proper (ws @ [w]) \<longrightarrow> map_of (st_files s) (abs_path (ws @ [w])) = Some i \<longrightarrow> ws @ [w] \<notin> P \<longrightarrow> in_directory s ws w i)
     \<and> (\<forall>p c. map_of (st_children s) p = Some c \<longrightarrow> children_ok s p c)"

lemmas tree_defs = file_entry_ok_def in_directory_def children_ok_def tree_inv_def storage_tree_def st_object_def

text \<open>What every operation keeps of the objects it does not create.\<close>

definition same_file :: "InMemfile \<Rightarrow> InMemfile \<Rightarrow> bool" where
  "same_file f g \<longleftrightarrow> mf_basename g = mf_basename f \<and> mf_mode g = mf_mode f \<and> originalPath g = originalPath f"

definition frame :: "inMemStorage \<Rightarrow> inMemStorage \<Rightarrow> bool" where
  "frame s s' \<longleftrightarrow> st_next s \<le> st_next s' \<and> (\<forall>p i. map_of (st_files s) p = Some i \<longrightarrow> map_of (st_files s') p = Some i)
     \<and> (\<forall>i f. i < st_next s \<longrightarrow> st_objects s i = Some f \<longrightarrow> (\<exists>g. st_objects s' i = Some g \<and> same_file f g))"

lemma frame_refl: "frame s s" by (auto simp: frame_def same_file_def)

lemma frame_trans: assumes "frame a b" "frame b c" shows "frame a c"
proof -
  have "\<exists>h. st_objects c i = Some h \<and> same_file f h" if i: "i < st_next a" "st_objects a i = Some f" for i f
  proof -
    from i assms(1) obtain g where g: "st_objects b i = Some g" "same_file f g" unfolding frame_def by blast
    have "i < st_next b" using i(1) assms(1) by (auto simp: frame_def)
    with g(1) assms(2) obtain h where "st_objects c i = Some h" "same_file g h" unfolding frame_def by blast
    with g(2) show ?thesis by (auto simp: same_file_def)
  qed
  with assms show ?thesis by (auto simp: frame_def)
qed

lemma touch_simps [simp]:
  "st_files (touch now i s) = st_files s" "st_children (touch now i s) = st_children s" "st_objects (touch now i s) = st_objects s"
  "st_next (touch now i s) = st_next s" "storage_tree (touch now i s) = storage_tree s"
  by (auto simp: touch_def storage_tree_def st_object_def fun_eq_iff)

lemma add_event_simps [simp]:
  "st_files (add_event newcap now ev s) = st_files s" "st_children (add_event newcap now ev s) = st_children s"
  "st_objects (add_event newcap now ev s) = st_objects s" "st_next (add_event newcap now ev s) = st_next s"
  "storage_tree (add_event newcap now ev s) = storage_tree s"
  by (auto simp: add_event_def storage_tree_def st_object_def fun_eq_iff)

lemma tree_inv_cong:
  assumes "st_files s' = st_files s" "st_children s' = st_children s" "st_next s' = st_next s"
    and objs: "\<And>i. rel_option same_file (st_objects s i) (st_objects s' i)"
  shows "storage_tree s' = storage_tree s" "tree_inv P s \<Longrightarrow> tree_inv P s'" "frame s s'"
proof -
  have mode: "mf_mode (st_object s' i) = mf_mode (st_object s i)" for i
    using objs [of i] by (cases "st_objects s i"; cases "st_objects s' i") (auto simp: st_object_def same_file_def)
  then show tree: "storage_tree s' = storage_tree s" using assms(1) by (simp add: storage_tree_def fun_eq_iff)
  have "file_entry_ok s' p i = file_entry_ok s p i" for p i
    using objs [of i] assms(3) by (cases "st_objects s i"; cases "st_objects s' i") (auto simp: file_entry_ok_def same_file_def)
  moreover have "in_directory s' = in_directory s" "children_ok s' = children_ok s"
    using tree assms(1,2) by (simp_all add: in_directory_def children_ok_def fun_eq_iff)
  ultimately show "tree_inv P s \<Longrightarrow> tree_inv P s'" using tree assms(1,2) by (simp add: tree_inv_def)
  show "frame s s'" using assms(1,3) objs by (auto simp: frame_def) (metis option.rel_cases option.inject option.distinct(1))
qed

lemma same_file_refl [simp]: "same_file f f"
  by (simp add: same_file_def)

lemma getNoLock_ok:
  assumes "tree_inv P s" "NormalizeAsAbsolute path = abs_path ws" "proper ws" "getNoLock path s = (r, s')"
  shows "r = map_of (st_files s) (abs_path ws)" "storage_tree s' = storage_tree s" "tree_inv P s'" "frame s s'"
    "st_files s' = st_files s" "st_children s' = st_children s" "map_of (st_files s) (abs_path ws) = Some i \<Longrightarrow> same_file (st_object s i) (st_object s' i)"
proof -
  have "storage_hasNoLock (abs_path ws) s \<longleftrightarrow> map_of (st_files s) (abs_path ws) \<noteq> None" using assms(3) by (simp add: storage_hasNoLock_def)
  then have r: "r = map_of (st_files s) (abs_path ws)"
    and s': "s' = (case map_of (st_files s) (abs_path ws) of None \<Rightarrow> s | Some i \<Rightarrow> set_object i ((st_object s i)\<lparr>isClosed := False\<rparr>) s)"
    using assms(2,4) by (auto simp: getNoLock_def Let_def split: if_splits option.splits)
  have "file_entry_ok s (abs_path ws) i" if "map_of (st_files s) (abs_path ws) = Some i" for i
    using assms(1) that by (simp add: tree_inv_def)
  then have objs: "rel_option same_file (st_objects s i) (st_objects s' i)" for i
    by (fastforce simp: s' set_object_def file_entry_ok_def st_object_def same_file_def option.rel_refl split: option.splits)
  have same: "st_files s' = st_files s" "st_children s' = st_children s" "st_next s' = st_next s"
    by (simp_all add: s' set_object_def split: option.splits)
  show "r = map_of (st_files s) (abs_path ws)" by (rule r)
  show "st_files s' = st_files s" "st_children s' = st_children s" by (rule same)+
  from tree_inv_cong [OF same objs] assms(1) show "storage_tree s' = storage_tree s" "tree_inv P s'" "frame s s'" by blast+
  show "map_of (st_files s) (abs_path ws) = Some i \<Longrightarrow> same_file (st_object s i) (st_object s' i)"
    by (simp add: s' set_object_def st_object_def same_file_def)
qed


lemma touch_ok: "tree_inv P s \<Longrightarrow> tree_inv P (touch now d s)" "frame s (touch now d s)"
  using tree_inv_cong(2,3) [of "touch now d s" s] by (auto simp: option.rel_refl)

lemma add_event_ok:
  "tree_inv P s \<Longrightarrow> tree_inv P (add_event newcap now ev s)" "frame s s' \<Longrightarrow> frame s (add_event newcap now ev s')"
  using tree_inv_cong(2) [of "add_event newcap now ev s" s] frame_trans [OF _ tree_inv_cong(3) [of "add_event newcap now ev s'" s']]
  by (auto simp: option.rel_refl)

text \<open>Adding a file to the map of files, and then to its directory.\<close>

lemma fresh_number: "tree_inv P s \<Longrightarrow> map_of (st_files s) p = Some i \<Longrightarrow> i \<noteq> st_next s"
  by (fastforce simp: tree_inv_def file_entry_ok_def)

lemma storage_tree_Some: "storage_tree s ws = Some b \<Longrightarrow> proper ws \<and> (\<exists>i. map_of (st_files s) (abs_path ws) = Some i)"
  by (auto simp: storage_tree_def split: if_splits)

lemma new_file_ok:
  assumes inv: "tree_inv P s" and p: "proper (ws @ [w])" and new: "map_of (st_files s) (abs_path (ws @ [w])) = None" and n: "path0 \<noteq> ''/''"
    and c: "new_file now path0 (abs_path (ws @ [w])) mode flag s = (i, f, s1)"
  shows "tree_inv (insert (ws @ [w]) P) s1" "storage_tree s1 = (storage_tree s)(ws @ [w] \<mapsto> IsDir mode)" "frame s s1"
    "map_of (st_files s1) (abs_path (ws @ [w])) = Some i" "st_objects s1 i = Some f" "mf_basename f = w" "originalPath f = path0" "i < st_next s1"
proof -
  have w: "proper_name w" "proper ws" using p by auto
  have i: "i = st_next s" and f: "mf_basename f = w" "originalPath f = path0" "mf_mode f = mode"
    and s1: "st_files s1 = AList.update (abs_path (ws @ [w])) i (st_files s)" "st_objects s1 = (st_objects s)(i \<mapsto> f)"
      "st_next s1 = Suc i" "st_children s1 = st_children s"
    using c w(1) by (auto simp: new_file_def Let_def)
  have files: "map_of (st_files s1) = (map_of (st_files s))(abs_path (ws @ [w]) \<mapsto> i)" by (simp add: s1 update_conv')
  have obj: "map_of (st_files s) q = Some j \<Longrightarrow> st_objects s1 j = st_objects s j" for q j using fresh_number [OF inv] i s1(2) by auto
  show tree: "storage_tree s1 = (storage_tree s)(ws @ [w] \<mapsto> IsDir mode)"
  proof
    fix vs
    show "storage_tree s1 vs = ((storage_tree s)(ws @ [w] \<mapsto> IsDir mode)) vs"
    proof (cases "vs = ws @ [w]")
      case True
      then show ?thesis using p f s1(2) by (simp add: storage_tree_def files st_object_def)
    next
      case False
      then have "proper vs \<Longrightarrow> map_of (st_files s1) (abs_path vs) = map_of (st_files s) (abs_path vs)"
        using abs_path_inj [OF _ p] by (simp add: files)
      then show ?thesis using False obj [of "abs_path vs"]
        by (cases "map_of (st_files s) (abs_path vs)") (auto simp: storage_tree_def st_object_def)
    qed
  qed
  have absent: "storage_tree s (ws @ [w]) = None" using new by (simp add: storage_tree_def)
  have keep: "storage_tree s vs = Some b \<Longrightarrow> storage_tree s1 vs = Some b" for vs b
    using tree absent by auto
  have mono: "map_of (st_files s) q = Some j \<Longrightarrow> map_of (st_files s1) q = Some j" for q j using new by (auto simp: files)
  have entry: "file_entry_ok s1 q j" if "map_of (st_files s1) q = Some j" for q j
  proof (cases "q = abs_path (ws @ [w])")
    case True
    then show ?thesis using that p n f s1 i unfolding file_entry_ok_def files by (intro exI [of _ "ws @ [w]"]) auto
  next
    case False
    then have q: "map_of (st_files s) q = Some j" using that files by simp
    then have "file_entry_ok s q j" using inv by (simp add: tree_inv_def)
    then show ?thesis using obj [OF q] s1(3) i unfolding file_entry_ok_def by auto
  qed
  have dir: "in_directory s1 vs v j" if "proper (vs @ [v])" "map_of (st_files s1) (abs_path (vs @ [v])) = Some j" "vs @ [v] \<notin> insert (ws @ [w]) P" for vs v j
  proof -
    have "map_of (st_files s) (abs_path (vs @ [v])) = Some j" using that abs_path_inj [OF that(1) p] by (auto simp: files split: if_splits)
    then have "in_directory s vs v j" using that(1,3) inv unfolding tree_inv_def by blast
    then show ?thesis using keep s1(4) by (simp add: in_directory_def)
  qed
  have child: "children_ok s1 q c" if "map_of (st_children s1) q = Some c" for q c
  proof -
    have "children_ok s q c" using that inv s1(4) by (simp add: tree_inv_def)
    then show ?thesis unfolding children_ok_def using mono by blast
  qed
  have root: "storage_tree s1 [] = Some True" using keep inv by (simp add: tree_inv_def)
  show "tree_inv (insert (ws @ [w]) P) s1" unfolding tree_inv_def using entry dir child root by blast
  show "frame s s1" using mono s1(2,3) i by (auto simp: frame_def)
  show "map_of (st_files s1) (abs_path (ws @ [w])) = Some i" "st_objects s1 i = Some f" "mf_basename f = w" "originalPath f = path0" "i < st_next s1"
    using files f s1 by auto
qed

lemma insert_child_ok:
  assumes inv: "tree_inv (insert (ws @ [w]) P) s" and d: "storage_tree s ws = Some True" and p: "proper (ws @ [w])"
    and i: "map_of (st_files s) (abs_path (ws @ [w])) = Some i"
    and m: "map_of (st_children s) (abs_path ws) = Some (Some m) \<or> map_of (st_children s) (abs_path ws) = None \<and> m = []"
    and s': "s' = s\<lparr>st_children := AList.update (abs_path ws) (Some (AList.update w i m)) (st_children s)\<rparr>"
  shows "tree_inv P s'" "storage_tree s' = storage_tree s" "frame s s'"
proof -
  have pw: "proper ws" "proper_name w" using p by auto
  show tree: "storage_tree s' = storage_tree s" by (simp add: s' storage_tree_def st_object_def fun_eq_iff)
  have ch: "map_of (st_children s') = (map_of (st_children s))(abs_path ws \<mapsto> Some (AList.update w i m))" by (simp add: s' update_conv')
  have files: "st_files s' = st_files s" "st_objects s' = st_objects s" "st_next s' = st_next s" by (simp_all add: s')
  have old: "distinct (List.map fst m) \<and> (\<forall>v j. map_of m v = Some j \<longrightarrow> proper_name v \<and> map_of (st_files s) (abs_path (ws @ [v])) = Some j)"
  proof (cases "map_of (st_children s) (abs_path ws)")
    case (Some x)
    with m have "children_ok s (abs_path ws) (Some m)" using inv by (auto simp: tree_inv_def)
    then obtain vs where vs: "proper vs" "abs_path ws = abs_path vs" and "distinct (List.map fst m)"
      "\<forall>v j. map_of m v = Some j \<longrightarrow> proper_name v \<and> map_of (st_files s) (abs_path (vs @ [v])) = Some j"
      unfolding children_ok_def by blast
    moreover have "vs = ws" using abs_path_inj [OF pw(1) vs(1)] vs(2) by simp
    ultimately show ?thesis by blast
  qed (use m in auto)
  have dir: "in_directory s' vs v j" if "proper (vs @ [v])" "map_of (st_files s) (abs_path (vs @ [v])) = Some j" "vs @ [v] \<notin> P" for vs v j
  proof (cases "vs = ws")
    case True
    have "map_of (AList.update w i m) v = Some j"
    proof (cases "v = w")
      case True
      then show ?thesis using that(2) \<open>vs = ws\<close> i by (simp add: update_conv')
    next
      case False
      then have "in_directory s ws v j" using that inv True unfolding tree_inv_def by auto
      then show ?thesis using m False by (auto simp: in_directory_def update_conv')
    qed
    then show ?thesis using True d by (simp add: in_directory_def tree ch)
  next
    case False
    then have "in_directory s vs v j" using that inv unfolding tree_inv_def by auto
    moreover have "abs_path vs \<noteq> abs_path ws" using False abs_path_inj [of vs ws] that(1) pw(1) by auto
    ultimately show ?thesis by (simp add: in_directory_def tree ch)
  qed
  have child: "children_ok s' q c" if "map_of (st_children s') q = Some c" for q c
  proof (cases "q = abs_path ws")
    case True
    then have "c = Some (AList.update w i m)" using that ch by simp
    moreover have "map_of (AList.update w i m) v = Some j \<Longrightarrow> proper_name v \<and> map_of (st_files s) (abs_path (ws @ [v])) = Some j" for v j
      using old i pw(2) by (auto simp: update_conv' split: if_splits)
    ultimately show ?thesis unfolding children_ok_def files using True pw(1) old distinct_update [of m w i] by blast
  next
    case False
    then have "children_ok s q c" using that ch inv by (simp add: tree_inv_def)
    then show ?thesis by (simp add: children_ok_def files)
  qed
  have "file_entry_ok s' q j = file_entry_ok s q j" for q j by (simp add: file_entry_ok_def files)
  then show "tree_inv P s'" using inv dir child unfolding tree_inv_def files tree by blast
  show "frame s s'" by (auto simp: frame_def files)
qed


lemma ModeDir_OR [simp]: "IsDir (x OR ModeDir)"
proof -
  have "bit ((x OR ModeDir) AND ModeDir) 31" by (simp add: ModeDir_def bit_simps)
  then show ?thesis unfolding IsDir_def by auto
qed

lemma tree_create_existing: "t ws = Some b \<Longrightarrow> \<forall>vs. strict_prefix vs ws \<longrightarrow> t vs \<noteq> None \<Longrightarrow> tree_create ws d t = t"
  by (auto simp: tree_create_def fun_eq_iff split: option.splits)

lemma tree_create_snoc:
  "t (ws @ [w]) = None \<Longrightarrow> tree_create (ws @ [w]) d t = tree_create ws True (t(ws @ [w] \<mapsto> d))"
  by (auto simp: tree_create_def fun_eq_iff strict_prefix_def split: option.splits)

lemma strict_prefix_snocD: "strict_prefix (ws @ [w]) vs \<Longrightarrow> strict_prefix ws vs"
  by (auto simp: strict_prefix_def prefix_def)

text \<open>Every prefix of a file is a directory.\<close>

lemma prefixes_are_dirs:
  assumes "tree_inv P s" "storage_tree s ws \<noteq> None" "\<forall>v \<in> P. strict_prefix ws v" "strict_prefix vs ws"
  shows "storage_tree s vs = Some True"
  using assms(2-)
proof (induction ws rule: rev_induct)
  case (snoc w ws)
  obtain i where i: "map_of (st_files s) (abs_path (ws @ [w])) = Some i" and p: "proper (ws @ [w])"
    using snoc.prems(1) by (auto simp: storage_tree_def split: if_splits)
  have "ws @ [w] \<notin> P" using snoc.prems(2) by (auto simp: strict_prefix_def)
  then have "in_directory s ws w i" using assms(1) i p unfolding tree_inv_def by blast
  then have ws: "storage_tree s ws = Some True" by (simp add: in_directory_def)
  have P: "\<forall>v \<in> P. strict_prefix ws v" using snoc.prems(2) by (auto dest: strict_prefix_snocD)
  show ?case
  proof (cases "vs = ws")
    case False
    then have "strict_prefix vs ws" using snoc.prems(3) by (auto simp: strict_prefix_def)
    with ws show ?thesis using snoc.IH [OF _ P] by simp
  qed (use ws in simp)
qed simp

text \<open>
  Creation: a missing path is created with its missing directories; for an existing directory
  nothing happens and an existing regular file is an error.
\<close>

definition created :: "string list set \<Rightarrow> string list \<Rightarrow> bool \<Rightarrow> inMemStorage \<Rightarrow> nat option fs_outcome \<times> inMemStorage \<Rightarrow> bool" where
  "created P ws d s res \<longleftrightarrow> tree_inv P (snd res) \<and> frame s (snd res) \<and>
     (if storage_tree s ws = Some False then fst res = Fails ErrExist \<and> storage_tree (snd res) = storage_tree s
      else (\<exists>x. fst res = Returns x) \<and> storage_tree (snd res) = tree_create ws d (storage_tree s))"

lemma newNoLock_existing:
  assumes inv: "tree_inv P s" and p: "proper ws" "NormalizeAsAbsolute path0 = abs_path ws" and e: "storage_tree s ws = Some b"
    and P: "\<forall>v \<in> P. strict_prefix ws v"
  shows "created P ws d s (newNoLock newcap now path0 mode flag ig s)"
proof -
  obtain i where i: "map_of (st_files s) (abs_path ws) = Some i" "b = IsDir (mf_mode (st_object s i))"
    using e by (auto simp: storage_tree_def split: if_splits)
  obtain r s1 where g: "getNoLock (abs_path ws) s = (r, s1)" by force
  note ok = getNoLock_ok [OF inv NormalizeAsAbsolute_abs_path [OF p(1)] p(1) g]
  have "mf_mode (st_object s1 i) = mf_mode (st_object s i)" using ok(7) [OF i(1)] by (simp add: same_file_def)
  moreover have "storage_hasNoLock (abs_path ws) s" using i p by (simp add: storage_hasNoLock_def)
  ultimately have "newNoLock newcap now path0 mode flag ig s = (if b then Returns None else Fails ErrExist, s1)"
    using g ok(1) i p(2) by (simp add: newNoLock.simps [of newcap now path0])
  moreover have "tree_create ws d (storage_tree s) = storage_tree s"
    using prefixes_are_dirs [OF inv _ P] e by (intro tree_create_existing [of "storage_tree s" ws b]) auto
  ultimately show ?thesis using ok e by (auto simp: created_def)
qed


text \<open>The insertion into the directory, which exists at this point.\<close>

lemma insert_into_dir:
  assumes inv: "tree_inv (insert (ws @ [w]) P) s" and d: "storage_tree s ws = Some True" and p: "proper (ws @ [w])"
    and i: "map_of (st_files s) (abs_path (ws @ [w])) = Some i" and n: "mf_basename (st_object s i) = w"
  obtains s' where "(case map_of (st_children s) (abs_path ws) of
      Some None \<Rightarrow> (Panics, s)
    | children \<Rightarrow>
       (let m = (case children of Some (Some m) \<Rightarrow> m | _ \<Rightarrow> []) in
        (Returns (), s\<lparr>st_children := AList.update (abs_path ws) (Some (AList.update (mf_basename (st_object s i)) i m)) (st_children s)\<rparr>))) = (Returns (), s')"
    "tree_inv P s'" "storage_tree s' = storage_tree s" "frame s s'"
proof (cases "map_of (st_children s) (abs_path ws)")
  case None
  from insert_child_ok [OF inv d p i disjI2 [OF conjI [OF None refl]] refl] None n show ?thesis by (intro that) auto
next
  case (Some c)
  then obtain m where m: "c = Some m" using inv by (fastforce simp: tree_inv_def children_ok_def)
  from insert_child_ok [OF inv d p i disjI1 [OF Some [unfolded m]] refl] Some m n show ?thesis by (intro that) auto
qed

lemma newNoLock_creates:
  assumes "tree_inv P s" "proper ws" "NormalizeAsAbsolute path0 = abs_path ws"
    and "\<forall>v \<in> P. strict_prefix ws v" "\<forall>vs. strict_prefix vs ws \<longrightarrow> storage_tree s vs \<noteq> Some False"
  shows "created P ws (IsDir mode) s (newNoLock newcap now path0 mode flag ig s)"
  using assms
proof (induction ws arbitrary: P s path0 mode flag ig rule: rev_induct)
  case Nil
  then have "storage_tree s [] = Some True" by (simp add: tree_inv_def)
  from newNoLock_existing [OF Nil(1,2,3) this Nil(4)] show ?case .
next
  case (snoc w ws)
  note p = snoc.prems(2) and norm = snoc.prems(3)
  show ?case
  proof (cases "storage_tree s (ws @ [w])")
    case (Some b)
    from newNoLock_existing [OF snoc.prems(1,2,3) Some snoc.prems(4)] show ?thesis .
  next
    case None
    have new: "map_of (st_files s) (abs_path (ws @ [w])) = None" using None p by (simp add: storage_tree_def)
    have n: "path0 \<noteq> ''/''" using norm p NormalizeAsAbsolute_abs_path [of "[]"] abs_path_inj [of "[]" "ws @ [w]"] by (auto simp: abs_path_def)
    obtain i f s1 where c: "new_file now path0 (abs_path (ws @ [w])) mode flag s = (i, f, s1)" by (cases "new_file now path0 (abs_path (ws @ [w])) mode flag s") auto
    note s1 = new_file_ok [OF snoc.prems(1) p new n c]
    let ?P = "insert (ws @ [w]) P"
    define s2 where "s2 = (case map_of (st_files s1) (abs_path ws) of Some d \<Rightarrow> touch now d s1 | None \<Rightarrow> s1)"
    have s2: "tree_inv ?P s2" "storage_tree s2 = storage_tree s1" "frame s1 s2"
      unfolding s2_def using s1(1) touch_ok by (auto split: option.splits simp: frame_refl)
    have orig: "originalPath (st_object s2 i) \<noteq> ''/''" using s1(5,7) n by (simp add: s2_def st_object_def split: option.splits)
    have "strict_prefix ws (ws @ [w])" by (simp add: strict_prefix_def)
    then have P: "\<forall>v \<in> ?P. strict_prefix ws v" using snoc.prems(4) by (auto dest: strict_prefix_snocD)
    define r3 where "r3 = (if abs_path ws \<noteq> ''/'' then newNoLock newcap now (abs_path ws) (Perm mode OR ModeDir) 0 True s2 else (Returns None, s2))"
    have dirs: "storage_tree s2 vs \<noteq> Some False" if "strict_prefix vs ws \<or> vs = ws" for vs
      using that snoc.prems(5) s2(2) s1(2) by (auto simp: strict_prefix_def)
    have r3: "\<exists>x. fst r3 = Returns x" "tree_inv ?P (snd r3)" "frame s2 (snd r3)" "storage_tree (snd r3) = tree_create ws True (storage_tree s2)"
    proof -
      have "created ?P ws True s2 r3"
      proof (cases "abs_path ws = ''/''")
        case True
        then have "ws = []" using abs_path_inj [of ws "[]"] p by (simp add: abs_path_def)
        moreover have "storage_tree s2 [] = Some True" using s2(1) by (simp add: tree_inv_def)
        ultimately show ?thesis using s2(1) tree_create_existing [of "storage_tree s2" "[]" True True]
          by (simp add: created_def r3_def abs_path_def frame_refl)
      next
        case False
        have "created ?P ws (IsDir (Perm mode OR ModeDir)) s2 (newNoLock newcap now (abs_path ws) (Perm mode OR ModeDir) 0 True s2)"
          using p dirs by (intro snoc.IH s2(1) P NormalizeAsAbsolute_abs_path) auto
        then show ?thesis using False by (simp add: r3_def)
      qed
      then show "\<exists>x. fst r3 = Returns x" "tree_inv ?P (snd r3)" "frame s2 (snd r3)" "storage_tree (snd r3) = tree_create ws True (storage_tree s2)"
        using dirs [of ws] by (auto simp: created_def)
    qed
    have dir: "storage_tree (snd r3) ws = Some True" using r3(4) dirs [of ws] by (auto simp: tree_create_def split: option.splits)
    have fr: "frame s1 (snd r3)" using frame_trans [OF s2(3) r3(3)] .
    have fi: "map_of (st_files (snd r3)) (abs_path (ws @ [w])) = Some i" using fr s1(4) unfolding frame_def by blast
    have nm: "mf_basename (st_object (snd r3) i) = w"
      using fr s1(5,6,8) unfolding frame_def same_file_def st_object_def by fastforce
    obtain s4 where ins: "(case map_of (st_children (snd r3)) (abs_path ws) of
        Some None \<Rightarrow> (Panics, snd r3)
      | children \<Rightarrow>
         (let m = (case children of Some (Some m) \<Rightarrow> m | _ \<Rightarrow> []) in
          (Returns (), (snd r3)\<lparr>st_children := AList.update (abs_path ws) (Some (AList.update (mf_basename (st_object (snd r3) i)) i m)) (st_children (snd r3))\<rparr>))) = (Returns (), s4)"
      and s4: "tree_inv P s4" "storage_tree s4 = storage_tree (snd r3)" "frame (snd r3) s4"
      by (rule insert_into_dir [OF r3(2) dir p fi nm])
    have cu: "createUpdateParentNoLock newcap now (abs_path (ws @ [w])) mode i s1 = (Returns (), s4)"
    proof -
      have base: "parent_dir (abs_path (ws @ [w])) = abs_path ws" using p by simp
      obtain x where x: "r3 = (Returns x, snd r3)" using r3(1) by (cases r3) auto
      show ?thesis
        unfolding createUpdateParentNoLock.simps [of newcap now "abs_path (ws @ [w])"] base Let_def s2_def [symmetric] r3_def [symmetric]
        using orig ins [unfolded Let_def] by (subst x) simp
    qed
    have "\<not> storage_hasNoLock (abs_path (ws @ [w])) s" using new p by (simp add: storage_hasNoLock_def del: list_all_append)
    then have "newNoLock newcap now path0 mode flag ig s =
        (Returns (Some i), if ig then s4 else add_event newcap now (entry_event f now (zero_event\<lparr>createOp := True\<rparr>)) s4)"
      using c cu norm by (simp add: newNoLock.simps [of newcap now path0])
    moreover have "tree_create (ws @ [w]) (IsDir mode) (storage_tree s) = storage_tree s4"
      using s4(2) r3(4) s2(2) s1(2) tree_create_snoc [of "storage_tree s", OF None] by simp
    moreover have "frame s s4" using frame_trans [OF s1(3) frame_trans [OF fr s4(3)]] .
    ultimately show ?thesis using None s4(1) add_event_ok by (simp add: created_def)
  qed
qed


section \<open>Removal\<close>

lemma storage_tree_child:
  assumes "tree_inv {} s" "storage_tree s (ws @ [w]) \<noteq> None"
  obtains i m where "map_of (st_files s) (abs_path (ws @ [w])) = Some i" "storage_tree s ws = Some True"
    "map_of (st_children s) (abs_path ws) = Some (Some m)" "map_of m w = Some i"
proof -
  from assms(2) obtain i where i: "proper (ws @ [w])" "map_of (st_files s) (abs_path (ws @ [w])) = Some i"
    by (auto simp: storage_tree_def split: if_splits)
  then have "in_directory s ws w i" using assms(1) unfolding tree_inv_def by blast
  then show ?thesis using that i(2) by (auto simp: in_directory_def)
qed

lemma children_of_dir:
  assumes "tree_inv {} s" "proper ws" "map_of (st_children s) (abs_path ws) = Some c"
  obtains m where "c = Some m" "distinct (List.map fst m)" "\<forall>w i. map_of m w = Some i \<longleftrightarrow> proper_name w \<and> map_of (st_files s) (abs_path (ws @ [w])) = Some i"
proof -
  have "children_ok s (abs_path ws) c" using assms(1,3) unfolding tree_inv_def by blast
  then obtain vs m where m: "proper vs" "abs_path ws = abs_path vs" "c = Some m" "distinct (List.map fst m)"
    "\<forall>w i. map_of m w = Some i \<longrightarrow> proper_name w \<and> map_of (st_files s) (abs_path (vs @ [w])) = Some i"
    unfolding children_ok_def by blast
  have vs: "vs = ws" using abs_path_inj [OF assms(2) m(1)] m(2) by simp
  have "map_of m w = Some i" if w: "proper_name w" "map_of (st_files s) (abs_path (ws @ [w])) = Some i" for w i
  proof -
    have "proper (ws @ [w])" using assms(2) w(1) by simp
    then have "in_directory s ws w i" using assms(1) w(2) unfolding tree_inv_def by blast
    then show ?thesis using assms(3) m(3) by (auto simp: in_directory_def)
  qed
  with m(5) vs show ?thesis by (intro that [OF m(3,4)]) blast
qed

lemma dir_empty_iff:
  assumes "tree_inv {} s" "proper ws"
  shows "(case map_of (st_children s) (abs_path ws) of Some (Some m) \<Rightarrow> m \<noteq> [] | _ \<Rightarrow> False) \<longleftrightarrow> (\<exists>w. storage_tree s (ws @ [w]) \<noteq> None)"
proof (cases "map_of (st_children s) (abs_path ws)")
  case None
  then show ?thesis using storage_tree_child [OF assms(1)] by (metis option.simps(3,4))
next
  case (Some c)
  from children_of_dir [OF assms Some] obtain m where m: "c = Some m"
    "\<forall>w i. map_of m w = Some i \<longleftrightarrow> proper_name w \<and> map_of (st_files s) (abs_path (ws @ [w])) = Some i" by metis
  have "m \<noteq> [] \<longleftrightarrow> (\<exists>w i. map_of m w = Some i)" by (cases m) auto
  also have "\<dots> \<longleftrightarrow> (\<exists>w. storage_tree s (ws @ [w]) \<noteq> None)" using m(2) assms(2) by (auto simp: storage_tree_def)
  finally show ?thesis using Some m(1) by simp
qed

lemma delete_entry_ok:
  assumes inv: "tree_inv {} s" and p: "proper (vs @ [w])" and i: "map_of (st_files s) (abs_path (vs @ [w])) = Some i"
    and leaf: "\<forall>u. storage_tree s ((vs @ [w]) @ [u]) = None"
    and s': "s' = (delete_child (abs_path vs) w s)\<lparr>st_files := AList.delete (abs_path (vs @ [w])) (st_files s)\<rparr>"
  shows "tree_inv {} s'" "storage_tree s' = (storage_tree s)(vs @ [w] := None)"
proof -
  have pv: "proper vs" "proper_name w" using p by auto
  obtain m where m: "map_of (st_children s) (abs_path vs) = Some (Some m)"
    using storage_tree_child [OF inv, of vs w] i p by (auto simp: storage_tree_def)
  have files: "map_of (st_files s') = (map_of (st_files s))(abs_path (vs @ [w]) := None)" by (simp add: s' delete_conv')
  have ch: "map_of (st_children s') = (map_of (st_children s))(abs_path vs \<mapsto> Some (AList.delete w m))"
    and objs: "st_objects s' = st_objects s" "st_next s' = st_next s" using m by (simp_all add: s' delete_child_def update_conv')
  show tree: "storage_tree s' = (storage_tree s)(vs @ [w] := None)"
    using abs_path_inj [OF _ p] by (auto simp: storage_tree_def files st_object_def objs fun_eq_iff)
  have dir: "in_directory s' us u j" if u: "proper (us @ [u])" "map_of (st_files s') (abs_path (us @ [u])) = Some j" for us u j
  proof -
    have ne: "us @ [u] \<noteq> vs @ [w]" and f: "map_of (st_files s) (abs_path (us @ [u])) = Some j" using u files by (auto split: if_splits)
    then have d: "in_directory s us u j" using inv u(1) unfolding tree_inv_def by blast
    have "storage_tree s (us @ [u]) \<noteq> None" using f u(1) by (simp add: storage_tree_def)
    then have "us \<noteq> vs @ [w]" using leaf by auto
    then have t: "storage_tree s' us = Some True" using d tree by (simp add: in_directory_def)
    show ?thesis
    proof (cases "us = vs")
      case True
      then show ?thesis using t d m ch ne by (auto simp: in_directory_def delete_conv')
    next
      case False
      then have "abs_path us \<noteq> abs_path vs" using abs_path_inj [of us vs] u(1) pv(1) by auto
      then show ?thesis using t d ch by (simp add: in_directory_def)
    qed
  qed
  have child: "children_ok s' q c" if q: "map_of (st_children s') q = Some c" for q c
  proof (cases "q = abs_path vs")
    case True
    obtain k where k: "Some m = Some k" "distinct (List.map fst k)"
      "\<forall>u j. map_of k u = Some j \<longleftrightarrow> proper_name u \<and> map_of (st_files s) (abs_path (vs @ [u])) = Some j"
      by (rule children_of_dir [OF inv pv(1) m])
    then have "map_of m u = Some j \<Longrightarrow> u \<noteq> w \<Longrightarrow> proper_name u \<and> map_of (st_files s') (abs_path (vs @ [u])) = Some j" for u j
      using abs_path_inj [OF _ p, of "vs @ [u]"] pv(1) by (simp add: files)
    then have "distinct (List.map fst (AList.delete w m))"
      "\<forall>u j. map_of (AList.delete w m) u = Some j \<longrightarrow> proper_name u \<and> map_of (st_files s') (abs_path (vs @ [u])) = Some j"
      using k(1,2) by (auto simp: delete_conv' distinct_delete split: if_splits)
    then show ?thesis using q True ch pv(1) unfolding children_ok_def by auto
  next
    case False
    then have "children_ok s q c" using q ch inv unfolding tree_inv_def by auto
    then obtain us k where u: "proper us" "q = abs_path us" "c = Some k" "distinct (List.map fst k)"
      "\<forall>u j. map_of k u = Some j \<longrightarrow> proper_name u \<and> map_of (st_files s) (abs_path (us @ [u])) = Some j" unfolding children_ok_def by blast
    have "us \<noteq> vs" using False u(2) by auto
    then have "map_of (st_files s') (abs_path (us @ [u'])) = map_of (st_files s) (abs_path (us @ [u']))" if "proper_name u'" for u'
      using abs_path_inj [OF _ p, of "us @ [u']"] u(1) that by (simp add: files)
    then show ?thesis unfolding children_ok_def using u by metis
  qed
  have "file_entry_ok s' q j" if "map_of (st_files s') q = Some j" for q j
    using inv that by (auto simp: tree_inv_def file_entry_ok_def files objs split: if_splits)
  moreover have "storage_tree s' [] = Some True" using tree inv by (simp add: tree_inv_def)
  ultimately show "tree_inv {} s'" unfolding tree_inv_def using dir child by blast
qed


lemma storage_Remove_ok:
  assumes inv: "tree_inv {} s" and p: "proper (vs @ [w])" "NormalizeAsAbsolute path0 = abs_path (vs @ [w])"
    and c: "storage_Remove newcap now path0 s = (r, s')"
  shows "tree_inv {} s' \<and>
    (if storage_tree s (vs @ [w]) = None then r = Fails ErrNotExist \<and> storage_tree s' = storage_tree s
     else if storage_tree s (vs @ [w]) = Some True \<and> (\<exists>u. storage_tree s ((vs @ [w]) @ [u]) \<noteq> None)
     then r = Fails DirContainsFiles \<and> storage_tree s' = storage_tree s
     else r = Returns () \<and> storage_tree s' = (storage_tree s)(vs @ [w] := None))"
proof -
  let ?ws = "vs @ [w]"
  obtain x s1 where g: "getNoLock (abs_path ?ws) s = (x, s1)" by force
  note ok = getNoLock_ok [OF inv NormalizeAsAbsolute_abs_path [OF p(1)] p(1) g]
  have split: "path_Split (abs_path ?ws) = ((if vs = [] then '''' else abs_path vs) @ [slash], w)"
    using p(1) by (simp add: abs_path_snoc path_Split_snoc proper_name_def)
  have base: "Clean ((if vs = [] then '''' else abs_path vs) @ [slash]) = abs_path vs" using clean_trailing_slash [of vs] p(1) by simp
  show ?thesis
  proof (cases "map_of (st_files s) (abs_path ?ws)")
    case None
    then have "storage_tree s ?ws = None" by (simp add: storage_tree_def)
    then show ?thesis using c g ok None p(2) by (simp add: storage_Remove_def)
  next
    case (Some i)
    have t: "storage_tree s ?ws = Some (IsDir (mf_mode (st_object s1 i)))"
      using Some p(1) ok(7) [OF Some] by (simp add: storage_tree_def same_file_def)
    obtain d where d: "map_of (st_files s1) (abs_path vs) = Some d"
      using storage_tree_child [OF inv, of vs w] t ok(5) by (auto simp: storage_tree_def split: if_splits)
    note full = dir_empty_iff [OF ok(3) p(1)]
    show ?thesis
    proof (cases "storage_tree s ?ws = Some True \<and> (\<exists>u. storage_tree s (?ws @ [u]) \<noteq> None)")
      case True
      then have "(r, s') = (Fails DirContainsFiles, s1)" using c g ok(1,2) Some p(2) t full by (simp add: storage_Remove_def Let_def)
      then show ?thesis using True t ok(2,3) by auto
    next
      case False
      have leaf: "\<forall>u. storage_tree s1 (?ws @ [u]) = None"
        using False storage_tree_child [OF inv, of ?ws] ok(2) by metis
      have inv1: "tree_inv {} (touch now d s1)" using ok(3) touch_ok by blast
      define s2 where "s2 = (delete_child (abs_path vs) w (touch now d s1))\<lparr>st_files := AList.delete (abs_path ?ws) (st_files (touch now d s1))\<rparr>"
      have del: "tree_inv {} s2" "storage_tree s2 = (storage_tree s1)(?ws := None)"
        using delete_entry_ok [OF inv1 p(1) _ _ s2_def, of i] Some leaf ok(5) by auto
      have "\<not> (IsDir (mf_mode (st_object s1 i)) \<and> (case map_of (st_children s1) (abs_path ?ws) of Some (Some m) \<Rightarrow> m \<noteq> [] | _ \<Rightarrow> False))"
        using full leaf by auto
      then have "r = Returns ()" "s' = add_event newcap now (entry_event (st_object s1 i) now (zero_event\<lparr>removeOp := True\<rparr>)) s2"
        using c g ok(1) Some p(2) d split base unfolding s2_def
        by (auto simp: storage_Remove_def Let_def delete_child_def split: option.splits if_splits)
      then show ?thesis using del add_event_ok(1) ok(2) False t by auto
    qed
  qed
qed


section \<open>The storage refines a tree\<close>

text \<open>A sequence of operations, with the results.\<close>

fun run_all :: "('o \<Rightarrow> 's \<Rightarrow> 'r \<times> 's) \<Rightarrow> 'o list \<Rightarrow> 's \<Rightarrow> 'r list \<times> 's" where
  "run_all step [] s = ([], s)"
| "run_all step (x # xs) s = (let (r, s1) = step x s; (rs, s2) = run_all step xs s1 in (r # rs, s2))"

fun all_ok :: "('o \<Rightarrow> 's \<Rightarrow> 'r \<times> 's) \<Rightarrow> ('o \<Rightarrow> 's \<Rightarrow> bool) \<Rightarrow> 'o list \<Rightarrow> 's \<Rightarrow> bool" where
  "all_ok step ok [] s = True"
| "all_ok step ok (x # xs) s = (ok x s \<and> all_ok step ok xs (snd (step x s)))"

locale op_refinement =
  fixes run :: "'o \<Rightarrow> 'c \<Rightarrow> 'r \<times> 'c"
    and spec :: "'o \<Rightarrow> 'a \<Rightarrow> 'r \<times> 'a"
    and abstr :: "'c \<Rightarrow> 'a"
    and inv :: "'c \<Rightarrow> bool"
    and ok :: "'o \<Rightarrow> 'a \<Rightarrow> bool"
  assumes simulates: "inv s \<Longrightarrow> ok x (abstr s) \<Longrightarrow> inv (snd (run x s)) \<and> spec x (abstr s) = (fst (run x s), abstr (snd (run x s)))"
begin

theorem run_all_refines:
  "inv s \<Longrightarrow> all_ok spec ok xs (abstr s) \<Longrightarrow>
   inv (snd (run_all run xs s)) \<and> run_all spec xs (abstr s) = (fst (run_all run xs s), abstr (snd (run_all run xs s)))"
proof (induction xs arbitrary: s)
  case (Cons x xs)
  obtain r s1 where r: "run x s = (r, s1)" by force
  have "inv s1" "spec x (abstr s) = (r, abstr s1)" using simulates [of s x] Cons.prems r by auto
  with Cons.IH [of s1] Cons.prems r show ?case by (auto split: prod.splits)
qed simp

end

datatype tree_op = CreateFile string int | CreateDir string int | RemoveEntry string

definition path_ws :: "string \<Rightarrow> string list" where
  "path_ws p = path_names (NormalizeAsAbsolute p)"

definition rooted :: "string \<Rightarrow> bool" where
  "rooted p \<longleftrightarrow> p \<noteq> [] \<and> hd p = slash"

text \<open>What the operations do to the tree.\<close>

definition spec_create :: "string list \<Rightarrow> bool \<Rightarrow> fs_tree \<Rightarrow> unit fs_outcome \<times> fs_tree" where
  "spec_create ws d t = (if t ws = Some False then (Fails ErrExist, t) else (Returns (), tree_create ws d t))"

definition spec_remove :: "string list \<Rightarrow> fs_tree \<Rightarrow> unit fs_outcome \<times> fs_tree" where
  "spec_remove ws t =
     (if t ws = None then (Fails ErrNotExist, t)
      else if t ws = Some True \<and> (\<exists>w. t (ws @ [w]) \<noteq> None) then (Fails DirContainsFiles, t)
      else (Returns (), t(ws := None)))"

fun spec_op :: "tree_op \<Rightarrow> fs_tree \<Rightarrow> unit fs_outcome \<times> fs_tree" where
  "spec_op (CreateFile p perm) t = spec_create (path_ws p) False t"
| "spec_op (CreateDir p perm) t = spec_create (path_ws p) True t"
| "spec_op (RemoveEntry p) t = spec_remove (path_ws p) t"

fun run_tree_op :: "growth \<Rightarrow> int \<Rightarrow> tree_op \<Rightarrow> inMemStorage \<Rightarrow> unit fs_outcome \<times> inMemStorage" where
  "run_tree_op newcap now (CreateFile p perm) s =
     (case storage_New newcap now p perm 0 s of
        (Returns _, s1) \<Rightarrow> (Returns (), s1) | (Fails err, s1) \<Rightarrow> (Fails err, s1) | (Panics, s1) \<Rightarrow> (Panics, s1))"
| "run_tree_op newcap now (CreateDir p perm) s = fs_MkdirAll newcap now p perm s"
| "run_tree_op newcap now (RemoveEntry p) s = fs_Remove newcap now p s"

text \<open>
  The operations the refinement is about: paths are absolute, nothing is created below a regular
  file and the root is not removed (see the observations below for these cases).
\<close>

fun op_ok :: "tree_op \<Rightarrow> fs_tree \<Rightarrow> bool" where
  "op_ok (CreateFile p perm) t \<longleftrightarrow> rooted p \<and> \<not> IsDir perm \<and> (\<forall>vs. strict_prefix vs (path_ws p) \<longrightarrow> t vs \<noteq> Some False)"
| "op_ok (CreateDir p perm) t \<longleftrightarrow> rooted p \<and> (\<forall>vs. strict_prefix vs (path_ws p) \<longrightarrow> t vs \<noteq> Some False)"
| "op_ok (RemoveEntry p) t \<longleftrightarrow> rooted p \<and> path_ws p \<noteq> []"

lemma path_names_abs_path: "proper ws \<Longrightarrow> path_names (abs_path ws) = ws"
proof (cases "ws = []")
  case False
  assume p: "proper ws"
  have "filter (\<lambda>w. w \<noteq> '''') ws = ws" using p by (intro filter_True) (auto simp: list_all_iff proper_name_def)
  then show ?thesis using split_join [OF False proper_no_slash [OF p]] by (simp add: path_names_def abs_path_def)
qed (simp add: path_names_def abs_path_def)

lemma rooted_path: "rooted p \<Longrightarrow> proper (path_ws p) \<and> NormalizeAsAbsolute p = abs_path (path_ws p)"
  using NormalizeAsAbsolute_rooted [of p] path_names_abs_path by (auto simp: rooted_def path_ws_def)

lemma create_refines:
  assumes inv: "tree_inv {} s" and p: "rooted p" "\<forall>vs. strict_prefix vs (path_ws p) \<longrightarrow> storage_tree s vs \<noteq> Some False"
    and run: "run = (case storage_New newcap now p mode 0 s of
        (Returns _, s1) \<Rightarrow> (Returns (), s1) | (Fails err, s1) \<Rightarrow> (Fails err, s1) | (Panics, s1) \<Rightarrow> (Panics, s1))"
  shows "tree_inv {} (snd run) \<and> spec_create (path_ws p) (IsDir mode) (storage_tree s) = (fst run, storage_tree (snd run))"
proof -
  from rooted_path [OF p(1)] have ws: "proper (path_ws p)" "NormalizeAsAbsolute p = abs_path (path_ws p)" by blast+
  have "created {} (path_ws p) (IsDir mode) s (storage_New newcap now p mode 0 s)"
    unfolding storage_New_def by (rule newNoLock_creates [OF inv ws _ p(2)]) simp
  then show ?thesis unfolding run created_def spec_create_def by (auto split: prod.splits fs_outcome.splits if_splits)
qed

lemma op_simulates:
  assumes inv: "tree_inv {} s" and ok: "op_ok x (storage_tree s)"
  shows "tree_inv {} (snd (run_tree_op newcap now x s)) \<and> spec_op x (storage_tree s) = (fst (run_tree_op newcap now x s), storage_tree (snd (run_tree_op newcap now x s)))"
proof (cases x)
  case (CreateFile p perm)
  then show ?thesis using create_refines [OF inv, of p _ newcap now perm] ok by simp
next
  case (CreateDir p perm)
  then show ?thesis using create_refines [OF inv, of p _ newcap now "perm OR ModeDir"] ok by (simp add: fs_MkdirAll_def)
next
  case (RemoveEntry p)
  then have "rooted p" "path_ws p \<noteq> []" using ok by auto
  then obtain vs w where vs: "path_ws p = vs @ [w]" by (cases "path_ws p" rule: rev_cases) auto
  obtain r s' where c: "storage_Remove newcap now p s = (r, s')" by force
  from rooted_path [OF \<open>rooted p\<close>] vs have "proper (vs @ [w])" "NormalizeAsAbsolute p = abs_path (vs @ [w])" by auto
  from storage_Remove_ok [OF inv this c] RemoveEntry vs c show ?thesis
    by (auto simp: fs_Remove_def spec_remove_def split: if_splits)
qed

text \<open>The operations of a run happen at given times.\<close>

definition timed_run :: "growth \<Rightarrow> int \<times> tree_op \<Rightarrow> inMemStorage \<Rightarrow> unit fs_outcome \<times> inMemStorage" where
  "timed_run newcap x s = run_tree_op newcap (fst x) (snd x) s"

definition timed_spec :: "int \<times> tree_op \<Rightarrow> fs_tree \<Rightarrow> unit fs_outcome \<times> fs_tree" where
  "timed_spec x t = spec_op (snd x) t"

definition timed_ok :: "int \<times> tree_op \<Rightarrow> fs_tree \<Rightarrow> bool" where
  "timed_ok x t = op_ok (snd x) t"

interpretation mem_storage: op_refinement "timed_run newcap" timed_spec storage_tree "tree_inv {}" timed_ok for newcap
  by unfold_locales (simp add: timed_run_def timed_spec_def timed_ok_def op_simulates)

lemma newInMemoryStorage_ok:
  assumes "newInMemoryStorage newcap now maxSize = Some s"
  shows "tree_inv {} s" "storage_tree s = [[] \<mapsto> True]"
proof -
  let ?s0 = "\<lparr>ms_contents = Map.empty, totalContentSize = 0, eventQueue = NewTSArrayQueueWithConfig None,
      st_files = [], st_children = [], st_objects = Map.empty, st_next = 0, maxStorageSize = maxSize\<rparr>"
  have root: "''/'' = abs_path []" "NormalizeAsAbsolute ''/'' = ''/''" "parent_dir ''/'' = ''/''"
    using NormalizeAsAbsolute_abs_path [of "[]"] parent_dir_root by (simp_all add: abs_path_def)
  have "newNoLock newcap now ''/'' (448 OR ModeDir) 0 True ?s0 =
      (case createUpdateParentNoLock newcap now ''/'' (448 OR ModeDir) 0 (snd (snd (new_file now ''/'' ''/'' (448 OR ModeDir) 0 ?s0))) of
         (Panics, s2) \<Rightarrow> (Panics, s2) | (_, s2) \<Rightarrow> (Returns (Some 0), s2))"
    using root by (simp add: newNoLock.simps storage_hasNoLock_def new_file_def Let_def split: fs_outcome.splits prod.splits)
  also have "\<dots> = (Returns (Some 0), touch now 0 (snd (snd (new_file now ''/'' ''/'' (448 OR ModeDir) 0 ?s0))))"
    using root(2,3) by (simp add: createUpdateParentNoLock.simps new_file_def st_object_def touch_def Let_def)
  finally have new: "newNoLock newcap now ''/'' (448 OR ModeDir) 0 True ?s0 = \<dots>" .
  have s: "st_files s = [(abs_path [], 0)]" "st_children s = []" "st_next s = 1" "\<exists>f. st_objects s 0 = Some f \<and> IsDir (mf_mode f)"
    using assms new root unfolding newInMemoryStorage_def Let_def
    by (auto simp: set_object_def new_file_def file_Close_def st_object_def Let_def split: if_splits)
  show tree: "storage_tree s = [[] \<mapsto> True]"
    using s abs_path_inj [of "[]"] by (fastforce simp: storage_tree_def st_object_def fun_eq_iff)
  have "storage_tree s [] = Some True" by (simp add: tree)
  moreover have "proper (ws @ [w]) \<Longrightarrow> map_of (st_files s) (abs_path (ws @ [w])) = None" for ws w
    using s(1) abs_path_inj [of "[]" "ws @ [w]"] by auto
  moreover have "file_entry_ok s p i" if "map_of (st_files s) p = Some i" for p i
    using that s by (auto simp: file_entry_ok_def split: if_splits intro!: exI [of _ "[]"])
  ultimately show "tree_inv {} s" unfolding tree_inv_def using s(2) by auto
qed


text \<open>The names listed for a directory are those of its entries in the tree.\<close>

lemma Children_names:
  assumes inv: "tree_inv {} s" and p: "rooted p"
  shows "distinct (List.map (\<lambda>i. mf_basename (st_object s i)) (storage_Children p s))"
    and "set (List.map (\<lambda>i. mf_basename (st_object s i)) (storage_Children p s)) = {w. storage_tree s (path_ws p @ [w]) \<noteq> None}"
proof -
  from rooted_path [OF p] have ws: "proper (path_ws p)" "NormalizeAsAbsolute p = abs_path (path_ws p)" by blast+
  have "distinct (List.map (\<lambda>i. mf_basename (st_object s i)) (storage_Children p s)) \<and>
    set (List.map (\<lambda>i. mf_basename (st_object s i)) (storage_Children p s)) = {w. storage_tree s (path_ws p @ [w]) \<noteq> None}"
  proof (cases "map_of (st_children s) (abs_path (path_ws p))")
    case None
    then have "storage_tree s (path_ws p @ [w]) = None" for w using storage_tree_child [OF inv, of "path_ws p" w] by fastforce
    then show ?thesis using None ws(2) by (simp add: storage_Children_def)
  next
    case (Some c)
    obtain m where m: "c = Some m" "distinct (List.map fst m)"
      "\<forall>w i. map_of m w = Some i \<longleftrightarrow> proper_name w \<and> map_of (st_files s) (abs_path (path_ws p @ [w])) = Some i"
      by (rule children_of_dir [OF inv ws(1) Some])
    have nm: "mf_basename (st_object s i) = w" if wi: "(w, i) \<in> set m" for w i
    proof -
      have f: "proper_name w" "map_of (st_files s) (abs_path (path_ws p @ [w])) = Some i" using m(3) map_of_is_SomeI [OF m(2) wi] by blast+
      then have "file_entry_ok s (abs_path (path_ws p @ [w])) i" using inv unfolding tree_inv_def by blast
      then obtain us f where "proper us" "abs_path (path_ws p @ [w]) = abs_path us" "st_objects s i = Some f" "us \<noteq> [] \<longrightarrow> mf_basename f = last us"
        unfolding file_entry_ok_def by blast
      then show ?thesis using abs_path_inj [of "path_ws p @ [w]" us] ws(1) f(1) by (auto simp: st_object_def)
    qed
    then have names: "List.map (\<lambda>i. mf_basename (st_object s i)) (List.map snd m) = List.map fst m" by auto
    have "w \<in> fst ` set m \<longleftrightarrow> storage_tree s (path_ws p @ [w]) \<noteq> None" for w
    proof -
      have "w \<in> fst ` set m \<longleftrightarrow> (\<exists>i. map_of m w = Some i)" by (metis map_of_eq_None_iff not_None_eq)
      then show ?thesis using m(3) ws(1) by (auto simp: storage_tree_def)
    qed
    then have "fst ` set m = {w. storage_tree s (path_ws p @ [w]) \<noteq> None}" by blast
    moreover have "storage_Children p s = List.map snd m" using Some m(1) ws(2) by (simp add: storage_Children_def)
    ultimately show ?thesis using m(2) names by (simp only: set_map)
  qed
  then show "distinct (List.map (\<lambda>i. mf_basename (st_object s i)) (storage_Children p s))"
    and "set (List.map (\<lambda>i. mf_basename (st_object s i)) (storage_Children p s)) = {w. storage_tree s (path_ws p @ [w]) \<noteq> None}" by blast+
qed

text \<open>
  (C13) On a new storage, any sequence of creations of files and directories and of removals in which
  paths are absolute, nothing is created below a regular file and the root is not removed gives the
  results and the tree of the specification: creating a path creates the missing directories
  above it, an existing regular file is an error, a directory that is not empty is not removed. A
  path is found exactly if it is in the tree, and the names listed for a directory are, without
  repetition, its entries in the tree. (\<open>dot_is_not_root\<close>, \<open>file_below_file\<close> and \<open>root_can_be_removed\<close>
  show what happens otherwise.)
\<close>

theorem storage_refines_tree:
  assumes "newInMemoryStorage newcap now maxSize = Some s" "all_ok timed_spec timed_ok ops [[] \<mapsto> True]"
    and "run_all (timed_run newcap) ops s = (results, s')" "run_all timed_spec ops [[] \<mapsto> True] = (expected, t)" "rooted p"
  shows "results = expected \<and> storage_tree s' = t \<and> (storage_Has p s' \<longleftrightarrow> t (path_ws p) \<noteq> None) \<and>
    distinct (List.map (\<lambda>i. mf_basename (st_object s' i)) (storage_Children p s')) \<and>
    set (List.map (\<lambda>i. mf_basename (st_object s' i)) (storage_Children p s')) = {w. t (path_ws p @ [w]) \<noteq> None}"
proof -
  note new = newInMemoryStorage_ok [OF assms(1)]
  from mem_storage.run_all_refines [OF new(1), of ops newcap] new(2) assms(2-4)
  have r: "tree_inv {} s'" "results = expected" "storage_tree s' = t" by auto
  have "storage_Has p s' \<longleftrightarrow> t (path_ws p) \<noteq> None"
    using rooted_path [OF assms(5)] r(3) by (auto simp: storage_Has_def storage_hasNoLock_def storage_tree_def)
  with r Children_names [OF r(1) assms(5)] show ?thesis by blast
qed

text \<open>A link that leads to itself is followed forever, whatever the bound.\<close>

lemma link_cycle:
  assumes "proper ws" "map_of (st_files s) (abs_path ws) = Some i" "isSymlink (mf_mode (st_object s i))"
    and "elems (fc_bytes (the (ms_contents s i))) = abs_path ws" "\<not> IsExclusive flag"
  shows "OpenFile n newcap now (abs_path ws) flag perm s = None"
  using assms
proof (induction n arbitrary: s)
  case (Suc n)
  let ?s1 = "set_object i ((st_object s i)\<lparr>isClosed := False\<rparr>) s"
  have "storage_Get (abs_path ws) s = (Some i, ?s1)" using Suc.prems by (simp add: storage_Get_def getNoLock_def storage_hasNoLock_def)
  moreover have "resolveLink (abs_path ws) i ?s1 = Some (abs_path ws, True)"
    using Suc.prems by (simp add: resolveLink_def set_object_def st_object_def) (simp add: abs_path_def)
  moreover have "OpenFile n newcap now (abs_path ws) flag perm ?s1 = None"
    using Suc.prems by (intro Suc.IH) (simp_all add: set_object_def st_object_def)
  ultimately show ?case using Suc.prems(5) by simp
qed simp

section \<open>Observations on concrete filesystems\<close>

definition exact_growth :: growth where
  "exact_growth c n = n"

definition empty_storage :: inMemStorage where
  "empty_storage = the (newInMemoryStorage exact_growth 0 1000)"

definition mkfile :: "string \<Rightarrow> inMemStorage \<Rightarrow> inMemStorage" where
  "mkfile path s = snd (storage_New exact_growth 0 path 384 0 s)"

definition mkdir :: "string \<Rightarrow> inMemStorage \<Rightarrow> inMemStorage" where
  "mkdir path s = snd (fs_MkdirAll exact_growth 0 path 448 s)"

text \<open>Renaming \<open>/ab\<close> to \<open>/x\<close> deletes \<open>/abc\<close>, whose path has the old path as a prefix.\<close>

lemma Rename_deletes_sibling:
  "(case storage_Rename exact_growth 0 [''/'', ''/ab'', ''/abc''] ''/ab'' ''/x'' (mkfile ''/abc'' (mkfile ''/ab'' empty_storage)) of
      (res, s) \<Rightarrow> res = Returns () \<and> storage_Has ''/x'' s \<and> \<not> storage_Has ''/abc'' s)"
  by code_simp

text \<open>A file cannot be created in an empty directory that was renamed: its map of children is nil.\<close>

lemma create_in_renamed_dir_panics:
  "(case storage_Rename exact_growth 0 [''/'', ''/d''] ''/d'' ''/e'' (mkdir ''/d'' empty_storage) of
      (res, s) \<Rightarrow> res = Returns () \<and> fst (storage_New exact_growth 0 ''/e/x'' 384 0 s) = Panics)"
  by code_simp

text \<open>A file is created below a regular file, without being listed.\<close>

lemma file_below_file:
  "(case storage_New exact_growth 0 ''/a/b'' 384 0 (mkfile ''/a'' empty_storage) of
      (res, s) \<Rightarrow> res = Returns (Some 2) \<and> storage_Has ''/a/b'' s \<and> storage_Children ''/a'' s = [])"
  by code_simp

text \<open>The root can be removed; then removing a file panics.\<close>

lemma root_can_be_removed:
  "(case storage_Remove exact_growth 0 ''/'' empty_storage of
      (res, s) \<Rightarrow> res = Returns () \<and> \<not> storage_Has ''/'' s \<and> fst (storage_Remove exact_growth 0 ''/a'' (mkfile ''/a'' s)) = Panics)"
  by code_simp

text \<open>The path \<open>.\<close> is not the root: nothing is found or listed there, and creating it panics.\<close>

lemma dot_is_not_root:
  "fst (storage_Get ''.'' (mkfile ''/a'' empty_storage)) = None \<and> storage_Children ''.'' (mkfile ''/a'' empty_storage) = []
   \<and> storage_Children ''/'' (mkfile ''/a'' empty_storage) = [1]
   \<and> (case fs_Create 1 exact_growth 0 ''.'' (mkfile ''/a'' empty_storage) of Some (res, s) \<Rightarrow> res = Panics | None \<Rightarrow> False)"
  by code_simp

text \<open>A relative link of an absolute path is resolved from the root and not from its directory.\<close>

definition mklink :: "string \<Rightarrow> string \<Rightarrow> inMemStorage \<Rightarrow> inMemStorage" where
  "mklink target path s =
     (case storage_New exact_growth 0 path (511 OR ModeSymlink) 0 s of
        (Returns (Some i), s1) \<Rightarrow> s1\<lparr>ms_contents := (ms_contents s1)(i \<mapsto> (the (ms_contents s1 i))\<lparr>fc_bytes := slice_of target\<rparr>)\<rparr>
      | (_, s1) \<Rightarrow> s1)"

lemma relative_link_from_root:
  "(case fs_Stat 3 ''/d/l'' (mklink ''x'' ''/d/l'' (mkfile ''/x'' (mkfile ''/d/x'' empty_storage))) of
      Some (Returns (i, name), s) \<Rightarrow> map_of (st_files s) ''/x'' = Some i \<and> map_of (st_files s) ''/d/x'' \<noteq> Some i | _ \<Rightarrow> False)"
  by code_simp

section \<open>Witness\<close>

definition sample_tree_ops :: "(int \<times> tree_op) list" where
  "sample_tree_ops = [(1, CreateFile ''/a/b'' 384), (2, CreateDir ''/c'' 448), (3, RemoveEntry ''/a''), (4, RemoveEntry ''/c'')]"

theorem storage_refines_tree_witness:
  "fst (run_all (timed_run exact_growth) sample_tree_ops empty_storage) = [Returns (), Returns (), Fails DirContainsFiles, Returns ()]
   \<and> storage_Has ''/a'' (snd (run_all (timed_run exact_growth) sample_tree_ops empty_storage))
   \<and> fst (run_all (timed_run exact_growth) sample_tree_ops empty_storage) = fst (run_all timed_spec sample_tree_ops [[] \<mapsto> True])"
proof -
  have eval: "fst (run_all (timed_run exact_growth) sample_tree_ops empty_storage) = [Returns (), Returns (), Fails DirContainsFiles, Returns ()]"
    "storage_Has ''/a'' (snd (run_all (timed_run exact_growth) sample_tree_ops empty_storage))" by code_simp+
  have "\<not> Option.is_none (newInMemoryStorage exact_growth 0 1000)" by code_simp
  then have new: "newInMemoryStorage exact_growth 0 1000 = Some empty_storage" by (auto simp: empty_storage_def Option.is_none_def)
  have ws: "path_ws ''/a/b'' = [''a'', ''b'']" "path_ws ''/c'' = [''c'']" "path_ws ''/a'' = [''a'']" by code_simp+
  have ok: "all_ok timed_spec timed_ok sample_tree_ops [[] \<mapsto> True]"
    using ws by (auto simp: sample_tree_ops_def timed_ok_def timed_spec_def rooted_def IsDir_def ModeDir_def spec_create_def tree_create_def spec_remove_def
        strict_prefix_def prefix_Cons split: if_splits)
  from storage_refines_tree [OF new ok prod.collapse [symmetric] prod.collapse [symmetric], of "''/''"] eval show ?thesis
    by (simp add: rooted_def)
qed

end
