(* ===== verification/Spec2Isabelle.thy ===== *)
theory Spec2Isabelle
  imports Queues RingBuffers TokenBuckets Bytecode Contexts DirectedGraphs SmallCollections TxIsolation StaticChecks
    SetCollections MapCollections Threads TreeCollections GraphCollections RateWindows MemStorage
begin

text \<open>
  Verification of the run-time core of Inox, a programming language with a permission system, resource limits, transactions and
  two evaluators, written in Go (\<open>src/internal/core\<close>, \<open>src/internal/parse\<close>, \<open>src/internal/memds\<close>), of its collections
  (\<open>src/internal/globals/containers\<close>), of its in-memory filesystem (\<open>src/internal/globals/fs_ns\<close>) and of the limiting of requests
  (\<open>src/internal/reqratelimit\<close> and its two clients).

  \<^bold>\<open>The program.\<close> A module is parsed (\<open>internal/parse\<close>), checked statically and symbolically, and then either interpreted by a tree
  walk (\<open>tree_walk_eval.go\<close>) or compiled to bytecode (\<open>compiler.go\<close>, \<open>bytecode.go\<close>, \<open>optimize.go\<close>) and executed by a virtual machine
  (\<open>vm.go\<close>). Both evaluators run in a context (\<open>context.go\<close>), which decides every permission request and takes tokens from the
  limiters of the module (\<open>limit.go\<close>); limiters of parent and child contexts share token buckets (\<open>token_bucket.go\<close>) that a manager
  goroutine refills. A context has at most one transaction (\<open>transaction.go\<close>), and data structures isolate transactions from each
  other (\<open>transaction_isolation.go\<close>). Queues, graphs, bit sets and small maps (\<open>internal/memds\<close>) and a ring buffer
  (\<open>ring_buffer.go\<close>) carry data between these parts. Sets, maps, message threads, trees, rankings and graphs are values of the language
  (\<open>internal/globals/containers\<close>); shared sets and maps wait with a transaction isolator, keep the changes of a transaction pending
  and apply them when it is committed. Modules work on an in-memory filesystem, whose events go through a queue of \<open>internal/memds\<close>.
  The HTTP server and the JSON-RPC sessions of the project server ask windows of past requests whether a request may pass.

  \<^bold>\<open>Conventions.\<close> A Go struct is a record, an interface with a closed set of implementations a datatype, a map a partial function, a
  slice a list or, where the capacity matters, a window of a backing array (Prelude). An \<open>int64\<close> is an integer with the wrap-around
  \<open>i64\<close> written out, a byte an 8-bit word, a float64 its bit pattern. A returned error or a panic is a value of a sum or option type.
  A method that holds its object's lock for its whole body is one step; where the code tests a flag before it takes the lock, the test
  and the locked part are separate steps of a relation that interleaves calls. Where the code releases a lock before it has finished
  (the calls of shared sets and maps, \<open>Persist\<close>) or takes none (the lookups of the security engine, the list of readonly
  transactions), the theorem says which calls must not overlap, and a lemma shows what goes wrong when they do. Code of other modules is a parameter: the glob matcher of
  path patterns (about which nothing is assumed), the parser of stored JSON, the binary search of \<open>Map32\<close>, the natural order of strings, the outcome of effects and callbacks, and what the
  symbolic evaluation knows about an expression.

  \<^bold>\<open>The theories.\<close>
  \<^item> Prelude: Go integers, truncating division, \<open>copy\<close>, slices, and the lemma collections that the components share.
  \<^item> Queues (\<open>internal/memds/arrayqueue.go\<close>, \<open>ts_arrayqueue.go\<close>): both queues implement the interface \<open>go_queue\<close>, and every
    history of calls refines a list that is read first in, first out (\<open>call_refinement\<close>); what automatic removal keeps.
  \<^item> RingBuffers (\<open>ring_buffer.go\<close>): refines a bounded byte channel; no accepted byte is lost, duplicated or reordered.
  \<^item> TokenBuckets (\<open>token_bucket.go\<close>): the rate bound over every sequence of ticks and calls, with the calls that return
    without a deduction counted apart; who is served by a tick; that the last waiter is served after a bounded number of consecutive
    ticks; the destruction of a bucket.
  \<^item> Limits (\<open>limit.go\<close>): limits from manifest values, limiters and the count of paused states of a shared bucket.
  \<^item> Permissions (\<open>permkind\<close>, \<open>permissions.go\<close>, path patterns of \<open>resource.go\<close>): inclusion of permissions is reflexive
    and, but for glob patterns in the middle, transitive.
  \<^item> Contexts (\<open>context.go\<close>, the spawning of threads in \<open>vm.go\<close>): revocation by \<open>DropPermissions\<close>, no escalation to a child, sharing of
    buckets, bounds of the buckets built from a manifest.
  \<^item> Transactions, TxIsolation (\<open>transaction.go\<close>, \<open>transaction_isolation.go\<close>): a transaction ends once, commit and rollback process each
    effect and callback, writers exclude each other and, under a discipline of calls, readers; what a timeout and the shared array of
    readers break.
  \<^item> DirectedGraphs (\<open>directed_graph.go\<close>, \<open>directed_graph_unique_string.go\<close>): the invariant of the two adjacency maps, the removal of nodes,
    the index of unique strings, agreement of the queries.
  \<^item> SmallCollections (\<open>bitset32.go\<close>, \<open>map32.go\<close>, \<open>graph32.go\<close>): refinement to sets and finite maps.
  \<^item> Opcodes, Bytecode (\<open>bytecode.go\<close>, \<open>optimize.go\<close>, the instruction buffer of \<open>compiler.go\<close>): the opcode tables, the encoding of
    instructions and its inverse, the traversal of code, patching, and the correctness of the deduplication of constants.
  \<^item> Numbers (\<open>number.go\<close>, \<open>comparable.go\<close>, \<open>equal.go\<close>): simple values, exactness of the checked arithmetic, floats, comparison.
  \<^item> TreeWalk (\<open>ast.go\<close>, \<open>tree_walk_eval.go\<close>): a part of the syntax tree and its interpretation.
  \<^item> Compiler (\<open>compiler.go\<close>, \<open>symbol_table.go\<close>), Machine (\<open>vm.go\<close>): the compilation of the same part and the machine.
  \<^item> CodeGen, Compilable: a reference generator without patching; the compiler succeeds on resolved programs and produces its code.
  \<^item> Execution: rules for the execution of each instruction. Simulation: what the code of each construct does. Correctness: the two
    evaluators agree. Divergences: programs on which they do not.
  \<^item> StaticChecks (\<open>static_check.go\<close>): the check of names; a checked module compiles and the evaluators agree on it.
  \<^item> Uniqueness (\<open>containers/common/uniqueness.go\<close>): constraints, their JSON form and the keys of elements.
  \<^item> TxCollections: the interface \<open>tx_collection\<close> of a shared collection; every interleaving of whole direct calls, transactional calls, commits
    and rollbacks that pass the strong isolator is serializable. SetCollections, MapCollections (\<open>setcoll\<close>, \<open>mapcoll\<close>): sets and maps implement it;
    a stored set is loaded back; where they do not do what is documented.
  \<^item> Threads (\<open>threadcoll\<close>): refinement to a list of messages with owners when one transaction writes at a time, the order of iteration, and
    what goes wrong with two.
  \<^item> TreeCollections (\<open>treecoll\<close>, \<open>rankingcoll\<close>): nested iterators visit a tree in preorder; when a ranking stays in order.
  \<^item> GraphCollections (\<open>graphcoll\<close>): the roots of a graph and the nodes that a walk visits.
  \<^item> RateWindows (\<open>reqratelimit\<close>, \<open>projectserver/jsonrpc/rate_limiter.go\<close>, \<open>http_ns/security_engine.go\<close>): the interface \<open>rate_potential\<close> of
    everything that admits requests, with the bound on admitted requests proved once; windows, shared windows, sessions and the security
    engine, whose calls interleave step by step, implement it; requests without identifier, and overlapping first requests of a socket, are
    not limited.
  \<^item> Filepaths: the functions of \<open>path/filepath\<close> that the filesystem uses, and normal forms of paths. MemFiles (\<open>fs_ns/mem_file.go\<close>, the contents of
    \<open>mem_storage.go\<close>, \<open>flag_utils.go\<close>): reading gives back what was written, persisting by one call at a time loses no modification, what overlapping
    calls, truncation and the accounting of the size do wrong. MemStorage (\<open>mem_storage.go\<close>, \<open>mem_fs.go\<close>): with \<open>op_refinement\<close>, creation and removal refine a tree;
    renaming, links and special paths on concrete filesystems.

  \<^bold>\<open>Bounds and fuel.\<close> Loops are structural recursion or recursion on a measure, except the loop of the machine, a partial function into an
  option type (that it returns is part of the agreement of the evaluators), and the client loops over iterators of threads, trees and
  graphs, which have fuel: one more than the number of elements suffices, which is proved. Following symbolic links has a bound on the
  number of links too; no bound is enough for a link that leads to itself, which is proved. The bounds are the source's: 65536
  bytes of code and 65535 constants (two-byte operands), 200 stack slots, 32 entries of the small collections, 100 nested waits.

  \<^bold>\<open>Not modelled.\<close> The parser and the symbolic evaluation (their results are inputs here), calls, functions, loops, objects, lists and
  patterns of the language, permissions on URLs and hosts, the searches for paths and cycles of graphs, the other filesystems, HTTP,
  databases, the project server and the command line, which are input and output around third-party packages. Next in the plan: calls
  and loops in both evaluators; URL and host patterns; snapshots and the meta filesystem.
\<close>

end
